(* ===== verification/Go_Prelude.thy ===== *)
theory Go_Prelude
  imports Main "HOL-Library.Word" "HOL-Library.Char_ord" "HOL-Library.List_Lexorder"
    "HOL-Library.Sublist"
begin

text \<open>
  Shared prelude: the Go values and the functions of Go's standard library that the
  sources call. A Go string is a sequence of bytes, so it is a \<^typ>\<open>string\<close>
  (a \<^typ>\<open>char list\<close>, one byte per character). A \<open>time.Time\<close> is the number of
  nanoseconds since the Unix epoch, a \<open>time.Duration\<close> the number of nanoseconds, both
  \<^typ>\<open>int\<close>; \<open>time_Sub\<close> saturates at the 64-bit range as \<open>Time.Sub\<close> does.

  Unicode case mapping is not tabulated here. \<open>ToLower\<close> and \<open>EqualFold\<close> fold the ASCII
  letters themselves and take the treatment of a string with a byte above 0x7F from the
  record \<open>unicode\<close>, an argument of every definition that needs it. Every lemma
  therefore holds for any such table, the real one included.
\<close>

named_theorems go_simps \<open>evaluation rules of the modelled standard library\<close>
named_theorems inv_intros \<open>operations preserve the invariant of their component\<close>

type_synonym u16 = "16 word"
type_synonym u32 = "32 word"
type_synonym time = int
type_synonym duration = int

subsection \<open>Time\<close>

abbreviation (input) second :: duration where "second \<equiv> 1000000000"
abbreviation (input) minute :: duration where "minute \<equiv> 60000000000"
abbreviation (input) hour :: duration where "hour \<equiv> 3600000000000"

abbreviation (input) max_int64 :: int where "max_int64 \<equiv> 9223372036854775807"
abbreviation (input) min_int64 :: int where "min_int64 \<equiv> - 9223372036854775808"

text \<open>\<open>Time.Sub\<close>: the difference, saturated at the range of \<open>Duration\<close>.\<close>

definition time_Sub :: "time \<Rightarrow> time \<Rightarrow> duration" where
  "time_Sub t u = max min_int64 (min max_int64 (t - u))"

text \<open>Go's integer division on \<open>int64\<close> truncates towards zero.\<close>

definition go_div :: "int \<Rightarrow> int \<Rightarrow> int" where
  "go_div a b = sgn a * sgn b * (\<bar>a\<bar> div \<bar>b\<bar>)"

text \<open>The two's complement value of an \<open>int64\<close> operation's exact result.\<close>

definition wrap64 :: "int \<Rightarrow> int" where
  "wrap64 n = (n + 9223372036854775808) mod 18446744073709551616 - 9223372036854775808"

subsection \<open>Bytes and ASCII\<close>

definition byte_of :: "char \<Rightarrow> nat" where
  "byte_of c = (of_char c :: nat)"

definition is_ascii :: "string \<Rightarrow> bool" where
  "is_ascii s = list_all (\<lambda>c. byte_of c < 128) s"

definition is_upper :: "char \<Rightarrow> bool" where
  "is_upper c = (65 \<le> byte_of c \<and> byte_of c \<le> 90)"

definition is_lower :: "char \<Rightarrow> bool" where
  "is_lower c = (97 \<le> byte_of c \<and> byte_of c \<le> 122)"

definition is_digit :: "char \<Rightarrow> bool" where
  "is_digit c = (48 \<le> byte_of c \<and> byte_of c \<le> 57)"

definition lower_byte :: "char \<Rightarrow> char" where
  "lower_byte c = (if is_upper c then char_of (byte_of c + 32) else c)"

subsection \<open>Unicode case mapping, a parameter\<close>

record unicode =
  uni_lower :: "string \<Rightarrow> string"          \<comment> \<open>\<open>strings.ToLower\<close> on a string with a byte above 0x7F\<close>
  uni_fold :: "string \<Rightarrow> string \<Rightarrow> bool"   \<comment> \<open>\<open>strings.EqualFold\<close> where one side has such a byte\<close>

text \<open>A table for closed examples: it leaves every string as it is.\<close>

definition ascii_only :: unicode where
  "ascii_only = \<lparr>uni_lower = (\<lambda>s. s), uni_fold = (\<lambda>s t. s = t)\<rparr>"

definition ToLower :: "unicode \<Rightarrow> string \<Rightarrow> string" where
  "ToLower U s = (if is_ascii s then map lower_byte s else uni_lower U s)"

definition EqualFold :: "unicode \<Rightarrow> string \<Rightarrow> string \<Rightarrow> bool" where
  "EqualFold U s t =
     (if is_ascii s \<and> is_ascii t then map lower_byte s = map lower_byte t else uni_fold U s t)"

subsection \<open>The functions of package strings\<close>

definition HasPrefix :: "string \<Rightarrow> string \<Rightarrow> bool" where
  "HasPrefix s p = prefix p s"

definition HasSuffix :: "string \<Rightarrow> string \<Rightarrow> bool" where
  "HasSuffix s p = suffix p s"

definition TrimPrefix :: "string \<Rightarrow> string \<Rightarrow> string" where
  "TrimPrefix s p = (if HasPrefix s p then drop (length p) s else s)"

definition TrimSuffix :: "string \<Rightarrow> string \<Rightarrow> string" where
  "TrimSuffix s p = (if HasSuffix s p then take (length s - length p) s else s)"

text \<open>\<open>IndexByte\<close>: the first position of a byte; \<open>None\<close> is Go's -1.\<close>

fun IndexByte :: "string \<Rightarrow> char \<Rightarrow> nat option" where
  "IndexByte [] c = None"
| "IndexByte (x # xs) c = (if x = c then Some 0 else map_option Suc (IndexByte xs c))"

definition LastIndexByte :: "string \<Rightarrow> char \<Rightarrow> nat option" where
  "LastIndexByte s c = map_option (\<lambda>i. length s - Suc i) (IndexByte (rev s) c)"

text \<open>\<open>Cut\<close> around a one-byte separator.\<close>

definition Cut :: "string \<Rightarrow> char \<Rightarrow> string \<times> string \<times> bool" where
  "Cut s c = (case IndexByte s c of
       None \<Rightarrow> (s, [], False)
     | Some i \<Rightarrow> (take i s, drop (Suc i) s, True))"

fun Split :: "string \<Rightarrow> char \<Rightarrow> string list" where
  "Split [] c = [[]]"
| "Split (x # xs) c =
     (if x = c then [] # Split xs c
      else (case Split xs c of [] \<Rightarrow> [[x]] | w # ws \<Rightarrow> (x # w) # ws))"

fun Join :: "string list \<Rightarrow> string \<Rightarrow> string" where
  "Join [] sep = []"
| "Join [w] sep = w"
| "Join (w # v # ws) sep = w @ sep @ Join (v # ws) sep"

fun Contains :: "string \<Rightarrow> string \<Rightarrow> bool" where
  "Contains [] p = (p = [])"
| "Contains (x # xs) p = (HasPrefix (x # xs) p \<or> Contains xs p)"

definition Repeat :: "string \<Rightarrow> nat \<Rightarrow> string" where
  "Repeat s n = concat (replicate n s)"

text \<open>
  \<open>space_len s\<close> is the number of bytes of the white-space rune that \<open>s\<close> starts with, 0 for
  none: the ASCII spaces, U+0085, U+00A0, U+1680, U+2000 to U+200A, U+2028, U+2029, U+202F,
  U+205F and U+3000 in UTF-8. No other rune and no invalid byte sequence contains one of
  these encodings, so a scan over bytes finds the same spaces as Go's scan over runes.
\<close>

definition space_seqs :: "nat list list" where
  "space_seqs = [[32], [9], [10], [11], [12], [13], [194, 133], [194, 160], [225, 154, 128]]
     @ map (\<lambda>i. [226, 128, i]) ([128..<139] @ [168, 169, 175])
     @ [[226, 129, 159], [227, 128, 128]]"

definition space_len :: "string \<Rightarrow> nat" where
  "space_len s =
     (case find (\<lambda>q. prefix q (map byte_of s)) space_seqs of None \<Rightarrow> 0 | Some q \<Rightarrow> length q)"

definition space_len_end :: "string \<Rightarrow> nat" where
  "space_len_end s =
     (case find (\<lambda>q. suffix q (map byte_of s)) space_seqs of None \<Rightarrow> 0 | Some q \<Rightarrow> length q)"

function TrimLeftSpace :: "string \<Rightarrow> string" where
  "TrimLeftSpace s = (if s = [] \<or> space_len s = 0 then s else TrimLeftSpace (drop (space_len s) s))"
  by pat_completeness auto
termination
  by (relation "measure length") auto

function TrimRightSpace :: "string \<Rightarrow> string" where
  "TrimRightSpace s =
     (if s = [] \<or> space_len_end s = 0 then s
      else TrimRightSpace (take (length s - space_len_end s) s))"
  by pat_completeness auto
termination
  by (relation "measure length") auto

definition TrimSpace :: "string \<Rightarrow> string" where
  "TrimSpace s = TrimRightSpace (TrimLeftSpace s)"

text \<open>\<open>Fields\<close>: the maximal runs of bytes that are not part of a white-space rune.\<close>

function fields_from :: "string \<Rightarrow> string \<Rightarrow> string list" where
  "fields_from w s =
     (if s = [] then (if w = [] then [] else [w])
      else if space_len s = 0 then fields_from (w @ [hd s]) (tl s)
      else (if w = [] then [] else [w]) @ fields_from [] (drop (space_len s) s))"
  by pat_completeness auto
termination
  by (relation "measure (\<lambda>(w, s). length s)") auto

definition Fields :: "string \<Rightarrow> string list" where
  "Fields s = fields_from [] s"

declare TrimLeftSpace.simps [simp del] TrimRightSpace.simps [simp del] fields_from.simps [simp del]

text \<open>\<open>sort.Strings\<close>: bytewise lexicographic order.\<close>

definition sort_Strings :: "string list \<Rightarrow> string list" where
  "sort_Strings = sort"

subsection \<open>Numbers as text\<close>

definition digit_char :: "nat \<Rightarrow> char" where
  "digit_char d = char_of (48 + d)"

fun itoa_nat :: "nat \<Rightarrow> string" where
  "itoa_nat n = (if n < 10 then [digit_char n] else itoa_nat (n div 10) @ [digit_char (n mod 10)])"

declare itoa_nat.simps [simp del]

definition Itoa :: "int \<Rightarrow> string" where
  "Itoa i = (if i < 0 then CHR ''-'' # itoa_nat (nat (- i)) else itoa_nat (nat i))"

definition dec_value :: "string \<Rightarrow> int" where
  "dec_value s = foldl (\<lambda>a c. 10 * a + int (byte_of c - 48)) 0 s"

text \<open>\<open>strconv.Atoi\<close> on a 64-bit platform: an optional sign, then decimal digits only.\<close>

definition Atoi :: "string \<Rightarrow> int option" where
  "Atoi s =
     (let (neg, ds) = (case s of [] \<Rightarrow> (False, [])
          | c # cs \<Rightarrow> if c = CHR ''-'' then (True, cs) else if c = CHR ''+'' then (False, cs)
                      else (False, s));
          v = (if neg then - dec_value ds else dec_value ds)
      in if ds = [] \<or> \<not> list_all is_digit ds then None
         else if v < min_int64 \<or> max_int64 < v then None else Some v)"

text \<open>\<open>strconv.ParseUint(s, 10, bits)\<close>.\<close>

definition ParseUint10 :: "string \<Rightarrow> nat \<Rightarrow> int option" where
  "ParseUint10 s bits =
     (if s = [] \<or> \<not> list_all is_digit s then None
      else if 2 ^ bits \<le> dec_value s then None else Some (dec_value s))"

text \<open>One hexadecimal digit, as \<open>strconv.ParseUint(l, 16, 8)\<close> reads a one-byte string.\<close>

definition hex_value :: "char \<Rightarrow> nat option" where
  "hex_value c =
     (let b = byte_of c in
      if 48 \<le> b \<and> b \<le> 57 then Some (b - 48)
      else if 97 \<le> b \<and> b \<le> 102 then Some (b - 87)
      else if 65 \<le> b \<and> b \<le> 70 then Some (b - 55) else None)"

subsection \<open>net.SplitHostPort\<close>

definition SplitHostPort :: "string \<Rightarrow> (string \<times> string) option" where
  "SplitHostPort s =
     (case LastIndexByte s (CHR '':'') of
        None \<Rightarrow> None
      | Some i \<Rightarrow>
          if hd s = CHR ''['' then
            (case IndexByte s (CHR '']'') of
               None \<Rightarrow> None
             | Some e \<Rightarrow>
                 if e + 1 = length s \<or> e + 1 \<noteq> i then None
                 else if IndexByte (drop 1 s) (CHR ''['') \<noteq> None then None
                 else if IndexByte (drop (e + 1) s) (CHR '']'') \<noteq> None then None
                 else Some (drop 1 (take e s), drop (i + 1) s))
          else if IndexByte (take i s) (CHR '':'') \<noteq> None then None
          else if IndexByte s (CHR ''['') \<noteq> None \<or> IndexByte s (CHR '']'') \<noteq> None then None
          else Some (take i s, drop (i + 1) s))"

section \<open>Shared lemmas\<close>

subsection \<open>Bytes\<close>

lemma byte_of_less [simp]: "byte_of c < 256"
  using of_char_mod_256 [where 'a = nat, of c] mod_less_divisor [of 256 "of_char c :: nat"]
  by (simp add: byte_of_def)

lemma byte_of_inject [simp]: "byte_of c = byte_of d \<longleftrightarrow> c = d"
  by (simp add: byte_of_def)

lemma byte_of_char_of [simp]: "byte_of (char_of n) = n mod 256"
  by (simp add: byte_of_def)

lemma char_of_byte_of [simp]: "char_of (byte_of c) = c"
  by (simp add: byte_of_def)

lemma byte_of_lower_byte: "byte_of (lower_byte c) = (if is_upper c then byte_of c + 32 else byte_of c)"
  by (auto simp: lower_byte_def is_upper_def)

lemma lower_byte_not_upper [simp]: "\<not> is_upper (lower_byte c)"
  by (auto simp: is_upper_def byte_of_lower_byte)

lemma lower_byte_id: "\<not> is_upper c \<Longrightarrow> lower_byte c = c"
  by (simp add: lower_byte_def)

lemma lower_byte_idem [simp]: "lower_byte (lower_byte c) = lower_byte c"
  by (simp add: lower_byte_id)

lemma lower_byte_dot [simp]: "lower_byte c = CHR ''.'' \<longleftrightarrow> c = CHR ''.''"
proof -
  have "byte_of (CHR ''.'') = 46" by (simp add: byte_of_def)
  then show ?thesis
    unfolding byte_of_inject [symmetric] byte_of_lower_byte by (auto simp: is_upper_def)
qed

lemma is_ascii_map_lower [simp]: "is_ascii (map lower_byte s) = is_ascii s"
  by (auto simp: is_ascii_def list_all_iff byte_of_lower_byte is_upper_def)

lemma is_ascii_append [simp]: "is_ascii (s @ t) \<longleftrightarrow> is_ascii s \<and> is_ascii t"
  by (simp add: is_ascii_def)

lemma is_ascii_Cons [simp]: "is_ascii (c # t) \<longleftrightarrow> byte_of c < 128 \<and> is_ascii t"
  by (simp add: is_ascii_def)

lemma is_ascii_Nil [simp]: "is_ascii []"
  by (simp add: is_ascii_def)

lemma ToLower_ascii: "is_ascii s \<Longrightarrow> ToLower U s = map lower_byte s"
  by (simp add: ToLower_def)

lemma ToLower_idem: "is_ascii s \<Longrightarrow> ToLower U (ToLower U s) = ToLower U s"
  by (simp add: ToLower_def o_def)

lemma EqualFold_refl_ascii: "is_ascii s \<Longrightarrow> EqualFold U s s"
  by (simp add: EqualFold_def)

subsection \<open>Cutting strings\<close>

lemma IndexByte_None: "IndexByte s c = None \<longleftrightarrow> c \<notin> set s"
  by (induction s) auto

lemma IndexByte_Some:
  "IndexByte s c = Some i \<Longrightarrow> i < length s \<and> s ! i = c \<and> c \<notin> set (take i s)"
proof (induction s arbitrary: i)
  case (Cons x xs)
  then show ?case by (cases i) (auto split: if_splits)
qed simp

lemma IndexByte_Some_split:
  assumes "IndexByte s c = Some i"
  shows "s = take i s @ c # drop (Suc i) s"
  using IndexByte_Some [OF assms] by (metis id_take_nth_drop)

lemma IndexByte_append_notin:
  "c \<notin> set p \<Longrightarrow> IndexByte (p @ c # q) c = Some (length p)"
  by (induction p) auto

lemma HasSuffix_iff: "HasSuffix s p \<longleftrightarrow> (\<exists>q. s = q @ p)"
  by (auto simp: HasSuffix_def suffix_def)

lemma HasPrefix_iff: "HasPrefix s p \<longleftrightarrow> (\<exists>q. s = p @ q)"
  by (auto simp: HasPrefix_def prefix_def)

lemma TrimSuffix_append [simp]: "TrimSuffix (s @ p) p = s"
  by (simp add: TrimSuffix_def HasSuffix_def suffix_def)

lemma TrimPrefix_append [simp]: "TrimPrefix (p @ s) p = s"
  by (simp add: TrimPrefix_def HasPrefix_def)

subsection \<open>Names under a domain\<close>

text \<open>
  \<open>under t n\<close>: \<open>n\<close> is the domain \<open>t\<close> or a name below it, label by label. This is the
  relation that the suffix walks and the local-name rules decide.
\<close>

definition under :: "string \<Rightarrow> string \<Rightarrow> bool" where
  "under t n = (n = t \<or> suffix (CHR ''.'' # t) n)"

lemma under_refl [simp, intro]: "under t t"
  by (simp add: under_def)

lemma under_label: "under t (p @ CHR ''.'' # t)"
  by (auto simp: under_def suffix_def)

lemma under_trans: "under t u \<Longrightarrow> under u n \<Longrightarrow> under t n"
  by (auto simp: under_def suffix_def)

lemma under_step:
  assumes "CHR ''.'' \<notin> set p"
  shows "under t (p @ CHR ''.'' # q) \<longleftrightarrow> t = p @ CHR ''.'' # q \<or> under t q"
proof -
  have "suffix (CHR ''.'' # t) (p @ CHR ''.'' # q) \<longleftrightarrow> under t q"
    using assms by (auto simp: under_def suffix_def append_eq_append_conv2 append_eq_Cons_conv Cons_eq_append_conv)
  then show ?thesis by (auto simp: under_def)
qed

lemma under_no_dot: "CHR ''.'' \<notin> set n \<Longrightarrow> under t n \<longleftrightarrow> t = n"
  by (auto simp: under_def suffix_def)

text \<open>Two domains that a name is under are under one another.\<close>

lemma under_linear: "under t n \<Longrightarrow> under u n \<Longrightarrow> under t u \<or> under u t"
  unfolding under_def by (auto dest: suffix_same_cases simp: suffix_Cons)

lemma time_Sub_self [simp]: "time_Sub t t = 0"
  by (simp add: time_Sub_def)

lemma time_Sub_ge_iff:
  "d \<le> max_int64 \<Longrightarrow> min_int64 < d \<Longrightarrow> d \<le> time_Sub t u \<longleftrightarrow> d \<le> t - u"
  by (auto simp: time_Sub_def)

lemma time_Sub_less_iff:
  "d \<le> max_int64 \<Longrightarrow> min_int64 < d \<Longrightarrow> time_Sub t u < d \<longleftrightarrow> t - u < d"
  by (auto simp: time_Sub_def)

lemma wrap64_range: "min_int64 \<le> wrap64 n \<and> wrap64 n \<le> max_int64"
proof -
  have "0 \<le> (n + 9223372036854775808) mod 18446744073709551616"
    and "(n + 9223372036854775808) mod 18446744073709551616 < 18446744073709551616"
    by simp_all
  then show ?thesis unfolding wrap64_def by linarith
qed

lemma wrap64_id: "min_int64 \<le> n \<Longrightarrow> n \<le> max_int64 \<Longrightarrow> wrap64 n = n"
  by (simp add: wrap64_def)

lemma go_div_pos: "0 \<le> a \<Longrightarrow> 0 < b \<Longrightarrow> go_div a b = a div b"
  by (cases "a = 0") (simp_all add: go_div_def)

section \<open>Stores that a purge empties\<close>

text \<open>
  The contract behind every purge: \<open>holds s\<close> is what a store keeps about queries, \<open>adds ev\<close> what an
  event may bring in. A store that only ever gains what an event brings holds, after a step that
  empties it, nothing from before that step. The file log, the query database, the response
  cache and the tallies provide it.
\<close>

locale purgeable =
  fixes step :: "'ev \<Rightarrow> 's \<Rightarrow> 's"
    and holds :: "'s \<Rightarrow> 'd set"
    and adds :: "'ev \<Rightarrow> 'd set"
    and ok :: "'s \<Rightarrow> bool"
  assumes step_ok: "ok s \<Longrightarrow> ok (step ev s)"
    and step_holds: "ok s \<Longrightarrow> holds (step ev s) \<subseteq> holds s \<union> adds ev"
begin

lemma run_holds: "ok s \<Longrightarrow> holds (fold step evs s) \<subseteq> holds s \<union> (\<Union>ev \<in> set evs. adds ev)"
proof (induction evs arbitrary: s)
  case (Cons ev evs)
  then have "holds (fold step evs (step ev s)) \<subseteq> holds (step ev s) \<union> (\<Union>ev \<in> set evs. adds ev)"
    by (simp add: step_ok)
  then show ?case using step_holds [OF Cons.prems, of ev] by auto
qed simp

lemma run_ok: "ok s \<Longrightarrow> ok (fold step evs s)"
  by (induction evs arbitrary: s) (simp_all add: step_ok)

lemma after_purge:
  assumes "ok s" "holds (step p (fold step pre s)) = {}"
  shows "holds (fold step (pre @ p # post) s) \<subseteq> (\<Union>ev \<in> set post. adds ev)"
  using run_holds [of "step p (fold step pre s)" post] assms run_ok [of s pre] by (simp add: step_ok)

end

subsection \<open>Decimal text\<close>

text \<open>Decimal text reads back, so distinct numbers have distinct names.\<close>

lemma dec_value_append: "dec_value (s @ [c]) = 10 * dec_value s + int (byte_of c - 48)"
  by (simp add: dec_value_def)

lemma byte_of_digit_char: "d < 10 \<Longrightarrow> byte_of (digit_char d) = 48 + d"
  by (simp add: digit_char_def)

lemma dec_value_itoa_nat: "dec_value (itoa_nat n) = int n"
proof (induction n rule: itoa_nat.induct)
  case (1 n)
  show ?case
  proof (cases "n < 10")
    case True
    then show ?thesis by (simp add: itoa_nat.simps [of n] dec_value_def byte_of_digit_char)
  next
    case False
    then have "dec_value (itoa_nat (n div 10)) = int (n div 10)" using 1 by simp
    with False show ?thesis
      by (simp add: itoa_nat.simps [of n] dec_value_append byte_of_digit_char zmod_int zdiv_int)
  qed
qed

lemma itoa_nat_inject: "itoa_nat m = itoa_nat n \<longleftrightarrow> m = n"
  by (metis dec_value_itoa_nat of_nat_eq_iff)

lemma itoa_nat_digits: "list_all is_digit (itoa_nat n) \<and> itoa_nat n \<noteq> []"
proof (induction n rule: itoa_nat.induct)
  case (1 n)
  then show ?case
    by (cases "n < 10")
      (auto simp: itoa_nat.simps [of n] is_digit_def byte_of_digit_char)
qed

end
