(* ===== verification/Block_Store.thy ===== *)
theory Block_Store
  imports Go_Prelude
begin

text \<open>
  The in-memory block set and allowlist, \<open>src/internal/blocklist/store.go\<close>. A Go
  \<open>map[string]struct{}\<close> is a set of strings; the store is a record of the three sets and
  of the per-source health that the last refresh published. Every method is one definition:
  a method that writes returns the new store, since each runs under the store's lock.

  The walk over the label suffixes is kept as the loop of the source and related to the
  relation \<open>under\<close>. The locale \<open>suffix_policy\<close> states what a client of the store relies on,
  and both routines that decide a name (\<open>IsBlocked\<close> and \<open>Explain\<close>) interpret it.
\<close>

record SourceStatus =
  src_URL :: string
  src_Count :: nat
  src_LastRefresh :: "time option"   \<comment> \<open>\<open>None\<close> is the zero time\<close>
  src_Stale :: bool

record Store =
  st_blocked :: "string set"
  st_allowlist :: "string set"
  st_runtime :: "string set"
  st_sources :: "SourceStatus list option"   \<comment> \<open>\<open>None\<close> is the nil pointer\<close>

definition NewStore :: Store where
  "NewStore = \<lparr>st_blocked = {}, st_allowlist = {}, st_runtime = {}, st_sources = None\<rparr>"

subsection \<open>normalize\<close>

text \<open>
  The scan of \<open>normalize\<close>: \<open>None\<close> when it meets a byte above 0x7F (the source then returns
  \<open>strings.ToLower\<close>), else whether it saw an upper-case letter.
\<close>

fun normalize_scan :: "string \<Rightarrow> bool \<Rightarrow> bool option" where
  "normalize_scan [] hasUpper = Some hasUpper"
| "normalize_scan (c # cs) hasUpper =
     (if 128 \<le> byte_of c then None
      else normalize_scan cs (hasUpper \<or> is_upper c))"

definition strip_dot :: "string \<Rightarrow> string" where
  "strip_dot d = (if d \<noteq> [] \<and> last d = CHR ''.'' then butlast d else d)"

definition normalize :: "unicode \<Rightarrow> string \<Rightarrow> string" where
  "normalize U d0 =
     (let d = strip_dot d0 in
      case normalize_scan d False of
        None \<Rightarrow> ToLower U d
      | Some hasUpper \<Rightarrow> if \<not> hasUpper then d else map lower_byte d)"

subsection \<open>Writers\<close>

definition SetAllowlist :: "unicode \<Rightarrow> Store \<Rightarrow> string list \<Rightarrow> Store" where
  "SetAllowlist U s domains =
     s\<lparr>st_allowlist := set (map (normalize U) domains), st_runtime := {}\<rparr>"

definition Replace :: "unicode \<Rightarrow> Store \<Rightarrow> string list \<Rightarrow> Store" where
  "Replace U s domains = s\<lparr>st_blocked := set (map (normalize U) domains)\<rparr>"

definition setSources :: "Store \<Rightarrow> SourceStatus list \<Rightarrow> Store" where
  "setSources s srcs = s\<lparr>st_sources := Some srcs\<rparr>"

definition Sources :: "Store \<Rightarrow> SourceStatus list" where
  "Sources s = (case st_sources s of None \<Rightarrow> [] | Some p \<Rightarrow> p)"

definition AddToAllowlist :: "unicode \<Rightarrow> Store \<Rightarrow> string \<Rightarrow> Store" where
  "AddToAllowlist U s domain =
     s\<lparr>st_allowlist := insert (normalize U domain) (st_allowlist s)\<rparr>"

definition AddToAllowlistLimited :: "unicode \<Rightarrow> Store \<Rightarrow> string \<Rightarrow> int \<Rightarrow> Store \<times> bool" where
  "AddToAllowlistLimited U s domain limit =
     (let d = normalize U domain in
      if d \<in> st_allowlist s then (s, True)
      else if limit \<le> int (card (st_runtime s)) then (s, False)
      else (s\<lparr>st_allowlist := insert d (st_allowlist s), st_runtime := insert d (st_runtime s)\<rparr>, True))"

definition RemoveFromAllowlist :: "unicode \<Rightarrow> Store \<Rightarrow> string \<Rightarrow> Store" where
  "RemoveFromAllowlist U s domain =
     (let d = normalize U domain in
      s\<lparr>st_allowlist := st_allowlist s - {d}, st_runtime := st_runtime s - {d}\<rparr>)"

subsection \<open>Readers\<close>

text \<open>The loop of \<open>IsBlocked\<close>: \<open>blk\<close> is the source's local variable \<open>blocked\<close>.\<close>

function IsBlocked_loop :: "Store \<Rightarrow> string \<Rightarrow> bool \<Rightarrow> bool" where
  "IsBlocked_loop s name blk =
     (if name \<in> st_allowlist s then False
      else let blk' = (blk \<or> name \<in> st_blocked s) in
        (case IndexByte name (CHR ''.'') of
           None \<Rightarrow> blk'
         | Some i \<Rightarrow> IsBlocked_loop s (drop (i + 1) name) blk'))"
  by pat_completeness auto
termination
  by (relation "measure (\<lambda>(s, name, blk). length name)") (auto dest: IndexByte_Some)

definition IsBlocked :: "unicode \<Rightarrow> Store \<Rightarrow> string \<Rightarrow> bool" where
  "IsBlocked U s domain = IsBlocked_loop s (normalize U domain) False"

function IsAllowlisted_loop :: "Store \<Rightarrow> string \<Rightarrow> bool" where
  "IsAllowlisted_loop s name =
     (if name \<in> st_allowlist s then True
      else (case IndexByte name (CHR ''.'') of
              None \<Rightarrow> False
            | Some i \<Rightarrow> IsAllowlisted_loop s (drop (i + 1) name)))"
  by pat_completeness auto
termination
  by (relation "measure (\<lambda>(s, name). length name)") (auto dest: IndexByte_Some)

definition IsAllowlisted :: "unicode \<Rightarrow> Store \<Rightarrow> string \<Rightarrow> bool" where
  "IsAllowlisted U s domain = IsAllowlisted_loop s (normalize U domain)"

record LevelResult =
  lv_Suffix :: string
  lv_Blocked :: bool
  lv_Allowlisted :: bool

record Explanation =
  ex_Domain :: string
  ex_Decision :: string
  ex_MatchedBlock :: string
  ex_MatchedAllowlist :: string
  ex_Walk :: "LevelResult list"

function Explain_loop :: "Store \<Rightarrow> string \<Rightarrow> Explanation \<Rightarrow> Explanation" where
  "Explain_loop s cur e =
     (let blk = (cur \<in> st_blocked s);
          wl = (cur \<in> st_allowlist s);
          e1 = e\<lparr>ex_Walk := ex_Walk e @ [\<lparr>lv_Suffix = cur, lv_Blocked = blk, lv_Allowlisted = wl\<rparr>]\<rparr>;
          e2 = (if blk \<and> ex_MatchedBlock e1 = [] then e1\<lparr>ex_MatchedBlock := cur\<rparr> else e1);
          e3 = (if wl \<and> ex_MatchedAllowlist e2 = [] then e2\<lparr>ex_MatchedAllowlist := cur\<rparr> else e2)
      in (case IndexByte cur (CHR ''.'') of
            None \<Rightarrow> e3
          | Some i \<Rightarrow> Explain_loop s (drop (i + 1) cur) e3))"
  by pat_completeness auto
termination
  by (relation "measure (\<lambda>(s, cur, e). length cur)") (auto dest: IndexByte_Some)

definition Explain_start :: "string \<Rightarrow> Explanation" where
  "Explain_start name =
     \<lparr>ex_Domain = name, ex_Decision = [], ex_MatchedBlock = [], ex_MatchedAllowlist = [], ex_Walk = []\<rparr>"

definition Explain :: "unicode \<Rightarrow> Store \<Rightarrow> string \<Rightarrow> Explanation" where
  "Explain U s domain =
     (let name = normalize U domain;
          e = Explain_loop s name (Explain_start name)
      in e\<lparr>ex_Decision :=
            (if ex_MatchedAllowlist e \<noteq> [] then ''allowlisted''
             else if ex_MatchedBlock e \<noteq> [] then ''blocked'' else ''allowed'')\<rparr>)"

text \<open>\<open>GetAllowlist\<close> returns a snapshot in unspecified order; the model returns the set.\<close>

definition GetAllowlist :: "Store \<Rightarrow> string set" where
  "GetAllowlist s = st_allowlist s"

definition Len :: "Store \<Rightarrow> nat" where
  "Len s = card (st_blocked s)"

definition AllowlistLen :: "Store \<Rightarrow> nat" where
  "AllowlistLen s = card (st_allowlist s)"

declare IsBlocked_loop.simps [simp del] IsAllowlisted_loop.simps [simp del] Explain_loop.simps [simp del]

subsection \<open>Specification\<close>

text \<open>The label suffixes of a name, most specific first: what every walk visits.\<close>

function suffixes_of :: "string \<Rightarrow> string list" where
  "suffixes_of n =
     n # (case IndexByte n (CHR ''.'') of None \<Rightarrow> [] | Some i \<Rightarrow> suffixes_of (drop (i + 1) n))"
  by pat_completeness auto
termination
  by (relation "measure length") (auto dest: IndexByte_Some)

declare suffixes_of.simps [simp del]

definition store_inv :: "Store \<Rightarrow> bool" where
  "store_inv s = (finite (st_blocked s) \<and> finite (st_allowlist s) \<and> st_runtime s \<subseteq> st_allowlist s)"

text \<open>The interface of a block decision, over the two sets of names it is made from.\<close>

locale suffix_policy =
  fixes blk alw :: "'s \<Rightarrow> string \<Rightarrow> bool"
    and verdict :: "'s \<Rightarrow> string \<Rightarrow> bool"
    and ok :: "'s \<Rightarrow> bool"
  assumes verdict_iff:
    "ok s \<Longrightarrow> verdict s n \<longleftrightarrow> (\<exists>t. under t n \<and> blk s t) \<and> \<not> (\<exists>t. under t n \<and> alw s t)"
begin

lemma verdict_subtree:
  assumes "ok s" "verdict s t" "under t n" "\<not> (\<exists>u. under u n \<and> alw s u)"
  shows "verdict s n"
proof -
  obtain u where "under u t" "blk s u" using assms(2) unfolding verdict_iff [OF assms(1)] by auto
  then have "\<exists>u. under u n \<and> blk s u" using under_trans assms(3) by auto
  with assms(4) show ?thesis unfolding verdict_iff [OF assms(1)] by simp
qed

lemma verdict_allow_exempts:
  assumes "ok s" "alw s t" "under t n"
  shows "\<not> verdict s n"
  unfolding verdict_iff [OF assms(1)] using assms(2,3) by auto

lemma verdict_cong:
  assumes "ok s" "ok s'" "\<And>t. under t n \<Longrightarrow> blk s t = blk s' t" "\<And>t. under t n \<Longrightarrow> alw s t = alw s' t"
  shows "verdict s n = verdict s' n"
proof -
  have "(\<exists>t. under t n \<and> blk s t) = (\<exists>t. under t n \<and> blk s' t)" using assms(3) by metis
  moreover have "(\<exists>t. under t n \<and> alw s t) = (\<exists>t. under t n \<and> alw s' t)" using assms(4) by metis
  ultimately show ?thesis unfolding verdict_iff [OF assms(1)] verdict_iff [OF assms(2)] by (simp only:)
qed

end

section \<open>Lemmas\<close>

subsection \<open>normalize\<close>

lemma normalize_scan_None: "normalize_scan d b = None \<longleftrightarrow> \<not> is_ascii d"
  by (induction d arbitrary: b) auto

lemma normalize_scan_Some:
  "normalize_scan d b = Some u \<Longrightarrow> is_ascii d \<and> (u \<longleftrightarrow> b \<or> (\<exists>c \<in> set d. is_upper c))"
  by (induction d arbitrary: b) (auto split: if_splits)

lemma map_lower_id: "\<forall>c \<in> set d. \<not> is_upper c \<Longrightarrow> map lower_byte d = d"
  by (induction d) (auto simp: lower_byte_id)

lemma normalize_eq: "normalize U d = ToLower U (strip_dot d)"
proof (cases "normalize_scan (strip_dot d) False")
  case None
  then show ?thesis by (simp add: normalize_def)
next
  case (Some u)
  from normalize_scan_Some [OF Some] have "is_ascii (strip_dot d)"
    and u: "u \<longleftrightarrow> (\<exists>c \<in> set (strip_dot d). is_upper c)" by auto
  then show ?thesis
    using map_lower_id [of "strip_dot d"] by (cases u) (simp_all add: normalize_def Let_def Some ToLower_ascii)
qed

lemma strip_dot_no_dot [simp]: "d = [] \<or> last d \<noteq> CHR ''.'' \<Longrightarrow> strip_dot d = d"
  by (auto simp: strip_dot_def)

lemma strip_dot_snoc [simp]: "strip_dot (d @ ''.'') = d"
  by (simp add: strip_dot_def)

lemma last_map_lower: "d \<noteq> [] \<Longrightarrow> last (map lower_byte d) = CHR ''.'' \<longleftrightarrow> last d = CHR ''.''"
  by (simp add: last_map)

lemma normalize_normal [simp]:
  assumes "is_ascii d" "d = [] \<or> last d \<noteq> CHR ''.''" "\<forall>c \<in> set d. \<not> is_upper c"
  shows "normalize U d = d"
  using assms by (simp add: normalize_eq ToLower_ascii map_lower_id)

lemma normalize_idem:
  assumes "is_ascii d" "d = [] \<or> last d \<noteq> CHR ''.''"
  shows "normalize U (normalize U d) = normalize U d"
proof -
  have "strip_dot d = d" using assms(2) by simp
  moreover have "strip_dot (map lower_byte d) = map lower_byte d"
    using assms(2) by (cases "d = []") (simp_all add: last_map)
  ultimately show ?thesis using assms(1) by (simp add: normalize_eq ToLower_ascii o_def)
qed

subsection \<open>The walks decide \<open>under\<close>\<close>

lemma under_suffixes: "t \<in> set (suffixes_of n) \<longleftrightarrow> under t n"
proof (induction n rule: suffixes_of.induct)
  case (1 n)
  show ?case
  proof (cases "IndexByte n (CHR ''.'')")
    case None
    then have "CHR ''.'' \<notin> set n" using IndexByte_None [of n "CHR ''.''"] by blast
    with None show ?thesis by (simp add: suffixes_of.simps [of n] under_no_dot)
  next
    case (Some i)
    have n: "n = take i n @ CHR ''.'' # drop (i + 1) n" and nd: "CHR ''.'' \<notin> set (take i n)"
      using IndexByte_Some_split [OF Some] IndexByte_Some [OF Some] by simp_all
    have "under t n \<longleftrightarrow> t = n \<or> under t (drop (i + 1) n)"
      using under_step [OF nd, of t "drop (i + 1) n"] by (simp only: n [symmetric])
    with 1 [OF Some] show ?thesis by (simp add: suffixes_of.simps [of n] Some)
  qed
qed

lemma finite_suffixes: "{t. under t n} = set (suffixes_of n)"
  by (auto simp: under_suffixes)

lemma IsBlocked_loop_eq:
  "IsBlocked_loop s n b \<longleftrightarrow>
     (b \<or> (\<exists>t \<in> set (suffixes_of n). t \<in> st_blocked s)) \<and> (\<forall>t \<in> set (suffixes_of n). t \<notin> st_allowlist s)"
proof (induction s n b rule: IsBlocked_loop.induct)
  case (1 s n b)
  show ?case
  proof (cases "n \<in> st_allowlist s")
    case True
    then show ?thesis by (simp add: IsBlocked_loop.simps [of s n b] suffixes_of.simps [of n])
  next
    case False
    with 1 show ?thesis
      by (cases "IndexByte n (CHR ''.'')")
        (auto simp: IsBlocked_loop.simps [of s n b] suffixes_of.simps [of n] Let_def)
  qed
qed

lemma IsAllowlisted_loop_eq:
  "IsAllowlisted_loop s n \<longleftrightarrow> (\<exists>t \<in> set (suffixes_of n). t \<in> st_allowlist s)"
proof (induction s n rule: IsAllowlisted_loop.induct)
  case (1 s n)
  then show ?case
    by (cases "IndexByte n (CHR ''.'')")
      (auto simp: IsAllowlisted_loop.simps [of s n] suffixes_of.simps [of n])
qed

lemma IsBlocked_iff:
  "IsBlocked U s d \<longleftrightarrow>
     (\<exists>t. under t (normalize U d) \<and> t \<in> st_blocked s) \<and>
     \<not> (\<exists>t. under t (normalize U d) \<and> t \<in> st_allowlist s)"
  by (auto simp: IsBlocked_def IsBlocked_loop_eq under_suffixes)

lemma IsAllowlisted_iff:
  "IsAllowlisted U s d \<longleftrightarrow> (\<exists>t. under t (normalize U d) \<and> t \<in> st_allowlist s)"
  by (auto simp: IsAllowlisted_def IsAllowlisted_loop_eq under_suffixes)

definition first_in :: "string set \<Rightarrow> string list \<Rightarrow> string" where
  "first_in A ts = (case find (\<lambda>t. t \<in> A) ts of None \<Rightarrow> [] | Some t \<Rightarrow> t)"

lemma Explain_loop_eq:
  "[] \<notin> st_blocked s \<Longrightarrow> [] \<notin> st_allowlist s \<Longrightarrow>
   Explain_loop s n e =
     e\<lparr>ex_Walk := ex_Walk e @ map (\<lambda>t. \<lparr>lv_Suffix = t, lv_Blocked = (t \<in> st_blocked s),
                                          lv_Allowlisted = (t \<in> st_allowlist s)\<rparr>) (suffixes_of n),
       ex_MatchedBlock := (if ex_MatchedBlock e = [] then first_in (st_blocked s) (suffixes_of n)
                           else ex_MatchedBlock e),
       ex_MatchedAllowlist := (if ex_MatchedAllowlist e = [] then first_in (st_allowlist s) (suffixes_of n)
                           else ex_MatchedAllowlist e)\<rparr>"
proof (induction s n e rule: Explain_loop.induct)
  case (1 s n e)
  have ne: "n \<noteq> []" if "n \<in> st_blocked s \<or> n \<in> st_allowlist s"
    using that "1.prems" by auto
  show ?case
  proof (cases "IndexByte n (CHR ''.'')")
    case None
    then show ?thesis
      by (simp add: Explain_loop.simps [of s n e] suffixes_of.simps [of n] first_in_def Let_def)
  next
    case (Some i)
    note IH = "1.IH" [OF refl refl refl refl refl Some "1.prems"]
    show ?thesis
      unfolding Explain_loop.simps [of s n e] Let_def Some option.case IH
      using ne by (simp add: suffixes_of.simps [of n] Some first_in_def)
  qed
qed

lemma find_None_iff_set: "find P xs = None \<longleftrightarrow> (\<forall>x \<in> set xs. \<not> P x)"
  by (auto simp: find_None_iff)

lemma first_in_Nil:
  assumes "[] \<notin> A" shows "first_in A ts = [] \<longleftrightarrow> (\<forall>t \<in> set ts. t \<notin> A)"
proof (cases "find (\<lambda>t. t \<in> A) ts")
  case None
  then show ?thesis using find_None_iff_set [of "\<lambda>t. t \<in> A" ts] by (simp add: first_in_def)
next
  case (Some t)
  then have "t \<in> set ts" "t \<in> A" by (auto simp: find_Some_iff)
  with Some assms show ?thesis by (auto simp: first_in_def)
qed

lemmas Explain_unfold = Explain_def [unfolded Let_def] Explain_start_def

lemma Explain_fields:
  assumes "[] \<notin> st_blocked s" "[] \<notin> st_allowlist s"
  shows "ex_MatchedBlock (Explain U s d) = first_in (st_blocked s) (suffixes_of (normalize U d))"
    and "ex_MatchedAllowlist (Explain U s d) = first_in (st_allowlist s) (suffixes_of (normalize U d))"
    and "map lv_Suffix (ex_Walk (Explain U s d)) = suffixes_of (normalize U d)"
  using assms by (simp_all add: Explain_unfold Explain_loop_eq o_def)

lemma Explain_decision:
  assumes "[] \<notin> st_blocked s" "[] \<notin> st_allowlist s"
  shows "ex_Decision (Explain U s d) =
    (if IsAllowlisted U s d then ''allowlisted'' else if IsBlocked U s d then ''blocked'' else ''allowed'')"
  using assms
  by (auto simp: Explain_unfold Explain_loop_eq first_in_Nil IsAllowlisted_def IsAllowlisted_loop_eq
      IsBlocked_def IsBlocked_loop_eq)

subsection \<open>The invariant\<close>

lemmas store_defs = NewStore_def SetAllowlist_def Replace_def setSources_def AddToAllowlist_def
  AddToAllowlistLimited_def RemoveFromAllowlist_def

lemma store_inv_New [inv_intros]: "store_inv NewStore"
  and store_inv_SetAllowlist [inv_intros]: "store_inv s \<Longrightarrow> store_inv (SetAllowlist U s ds)"
  and store_inv_Replace [inv_intros]: "store_inv s \<Longrightarrow> store_inv (Replace U s ds)"
  and store_inv_setSources [inv_intros]: "store_inv s \<Longrightarrow> store_inv (setSources s ss)"
  and store_inv_Add [inv_intros]: "store_inv s \<Longrightarrow> store_inv (AddToAllowlist U s d)"
  and store_inv_AddLimited [inv_intros]: "store_inv s \<Longrightarrow> store_inv (fst (AddToAllowlistLimited U s d n))"
  and store_inv_Remove [inv_intros]: "store_inv s \<Longrightarrow> store_inv (RemoveFromAllowlist U s d)"
  by (auto simp: store_inv_def store_defs Let_def)

subsection \<open>Interpretations\<close>

interpretation isb: suffix_policy "\<lambda>s t. t \<in> st_blocked s" "\<lambda>s t. t \<in> st_allowlist s"
  "\<lambda>s n. IsBlocked_loop s n False" "\<lambda>s. True"
  by unfold_locales (auto simp: IsBlocked_loop_eq under_suffixes)

interpretation exs: suffix_policy "\<lambda>s t. t \<in> st_blocked s" "\<lambda>s t. t \<in> st_allowlist s"
  "\<lambda>s n. ex_MatchedBlock (Explain_loop s n (Explain_start n)) \<noteq> []
       \<and> ex_MatchedAllowlist (Explain_loop s n (Explain_start n)) = []"
  "\<lambda>s. [] \<notin> st_blocked s \<and> [] \<notin> st_allowlist s"
  by unfold_locales (auto simp: Explain_loop_eq Explain_start_def first_in_Nil under_suffixes)

subsection \<open>Reachable stores\<close>

text \<open>
  The stores a running s-hole can hold when every runtime addition passes the limit \<open>L\<close>:
  the start, the config allowlist, refreshes, and the additions and removals of the API.
\<close>

inductive store_reach :: "unicode \<Rightarrow> int \<Rightarrow> Store \<Rightarrow> bool" for U L where
  new: "store_reach U L NewStore"
| config: "store_reach U L s \<Longrightarrow> store_reach U L (SetAllowlist U s ds)"
| refresh: "store_reach U L s \<Longrightarrow> store_reach U L (Replace U s ds)"
| health: "store_reach U L s \<Longrightarrow> store_reach U L (setSources s ss)"
| seed: "store_reach U L s \<Longrightarrow> store_reach U L (AddToAllowlist U s d)"
| add: "store_reach U L s \<Longrightarrow> store_reach U L (fst (AddToAllowlistLimited U s d L))"
| remove: "store_reach U L s \<Longrightarrow> store_reach U L (RemoveFromAllowlist U s d)"

lemma runtime_frame [simp]:
  "st_runtime NewStore = {}" "st_runtime (SetAllowlist U s ds) = {}" "st_runtime (Replace U s ds) = st_runtime s"
  "st_runtime (setSources s ss) = st_runtime s" "st_runtime (AddToAllowlist U s d) = st_runtime s"
  by (simp_all add: store_defs)

lemma AddLimited_runtime:
  assumes "finite (st_runtime s)"
  shows "card (st_runtime (fst (AddToAllowlistLimited U s d L))) \<le> max (card (st_runtime s)) (nat L)"
  using assms by (auto simp: AddToAllowlistLimited_def Let_def card_insert_if)

lemma store_reach_inv: "store_reach U L s \<Longrightarrow> store_inv s"
  by (induction rule: store_reach.induct) (auto intro: inv_intros)

lemma store_inv_finite_runtime: "store_inv s \<Longrightarrow> finite (st_runtime s)"
  by (auto simp: store_inv_def intro: finite_subset)

lemma suffixes_of_sorted: "sorted_wrt (\<lambda>u t. under t u) (suffixes_of n)"
proof (induction n rule: suffixes_of.induct)
  case (1 n)
  then show ?case
    by (cases "IndexByte n (CHR ''.'')")
      (auto simp: suffixes_of.simps [of n] under_suffixes dest: under_suffixes [THEN iffD1]
        intro!: under_suffixes [THEN iffD1])
qed

lemma first_in_most_specific:
  assumes "[] \<notin> A" "first_in A (suffixes_of n) \<noteq> []"
  shows "first_in A (suffixes_of n) \<in> A \<and> under (first_in A (suffixes_of n)) n
     \<and> (\<forall>u \<in> A. under u n \<longrightarrow> under u (first_in A (suffixes_of n)))"
proof -
  let ?ts = "suffixes_of n"
  obtain t where f: "find (\<lambda>t. t \<in> A) ?ts = Some t" and t: "first_in A ?ts = t"
    using assms(2) by (auto simp: first_in_def split: option.splits)
  then obtain i where i: "i < length ?ts" "?ts ! i = t" "t \<in> A" "\<forall>j < i. ?ts ! j \<notin> A"
    by (auto simp: find_Some_iff)
  have "under u t" if u: "u \<in> A" "under u n" for u
  proof -
    obtain j where j: "j < length ?ts" "?ts ! j = u"
      using u(2) by (metis under_suffixes in_set_conv_nth)
    with i(4) u(1) have "i \<le> j" by (meson not_le)
    then show ?thesis
      using sorted_wrt_nth_less [OF suffixes_of_sorted, of i j n] i j by (cases "i = j") auto
  qed
  moreover have "under t n" using i by (metis under_suffixes nth_mem)
  ultimately show ?thesis using i t by simp
qed

section \<open>Properties\<close>

text \<open>C29: \<open>IsBlocked\<close> decides the policy of the package: a name is blocked exactly when it, or a
  parent domain of it, is on the block set, and neither it nor any parent is allowlisted. The
  loop of the source computes this for every store and every query name.\<close>

theorem isBlocked_decides:
  "IsBlocked U s d \<longleftrightarrow>
     (\<exists>t \<in> st_blocked s. under t (normalize U d)) \<and>
     \<not> (\<exists>t \<in> st_allowlist s. under t (normalize U d))"
  by (auto simp: IsBlocked_iff)

text \<open>blocking a domain blocks the whole subtree beneath it: when a list entry blocks \<open>t\<close>, every
  name below \<open>t\<close> is blocked unless an allowlist entry covers that name.\<close>

theorem isBlocked_subtree:
  assumes "IsBlocked U s t" "under (normalize U t) (normalize U n)" "\<not> IsAllowlisted U s n"
  shows "IsBlocked U s n"
  using isb.verdict_subtree [of s "normalize U t" "normalize U n"] assms
  by (auto simp: IsBlocked_def IsAllowlisted_iff)

definition demo_store :: Store where
  "demo_store = Replace ascii_only (SetAllowlist ascii_only NewStore [''Safe.Ads.example'']) [''ads.example.'', ''trk.test'']"

text \<open>the diagnostic \<open>Explain\<close> runs the same decision as \<open>IsBlocked\<close>: its decision is
  "allowlisted" exactly for the names that \<open>IsAllowlisted\<close> accepts, else "blocked" exactly for
  those that \<open>IsBlocked\<close> blocks, else "allowed"; a reported match is on its list, covers the
  name, and is the most specific entry that does. This needs the sets to be free of the empty
  name, which \<open>ValidDomain\<close> keeps out of them.\<close>

theorem explain_agrees:
  assumes "[] \<notin> st_blocked s" "[] \<notin> st_allowlist s"
  shows "ex_Decision (Explain U s d) =
      (if IsAllowlisted U s d then ''allowlisted'' else if IsBlocked U s d then ''blocked'' else ''allowed'')
   \<and> map lv_Suffix (ex_Walk (Explain U s d)) = suffixes_of (normalize U d)
   \<and> (ex_MatchedBlock (Explain U s d) \<noteq> [] \<longrightarrow>
        ex_MatchedBlock (Explain U s d) \<in> st_blocked s
        \<and> under (ex_MatchedBlock (Explain U s d)) (normalize U d)
        \<and> (\<forall>u \<in> st_blocked s. under u (normalize U d) \<longrightarrow> under u (ex_MatchedBlock (Explain U s d))))"
  using Explain_decision [OF assms] Explain_fields [OF assms] first_in_most_specific [OF assms(1)]
  by simp

text \<open>whatever sequence of refreshes, API additions and removals has run, the store is
  well-formed (finite sets, runtime entries inside the allowlist) and the runtime entries
  never exceed the limit that the API passes.\<close>

theorem runtime_allowlist_bounded:
  assumes "store_reach U L s" "0 \<le> L"
  shows "store_inv s \<and> int (card (st_runtime s)) \<le> L"
  using assms
proof (induction rule: store_reach.induct)
  case (add s d)
  then have "card (st_runtime (fst (AddToAllowlistLimited U s d L))) \<le> max (card (st_runtime s)) (nat L)"
    by (intro AddLimited_runtime store_inv_finite_runtime) simp
  with add show ?case by (auto intro: inv_intros)
next
  case (remove s d)
  then have "card (st_runtime (RemoveFromAllowlist U s d)) \<le> card (st_runtime s)"
    by (auto simp: RemoveFromAllowlist_def Let_def intro!: card_mono store_inv_finite_runtime)
  with remove show ?case by (auto intro: inv_intros)
qed (auto intro: inv_intros)

theorem runtime_allowlist_bounded_witness:
  "store_inv (fst (AddToAllowlistLimited ascii_only demo_store ''a.test'' 1))
   \<and> int (card (st_runtime (fst (AddToAllowlistLimited ascii_only demo_store ''a.test'' 1)))) \<le> 1
   \<and> \<not> snd (AddToAllowlistLimited ascii_only (fst (AddToAllowlistLimited ascii_only demo_store ''a.test'' 1)) ''b.test'' 1)"
proof -
  have "store_reach ascii_only 1 (fst (AddToAllowlistLimited ascii_only demo_store ''a.test'' 1))"
    unfolding demo_store_def by (intro store_reach.intros)
  moreover have "\<not> snd (AddToAllowlistLimited ascii_only (fst (AddToAllowlistLimited ascii_only demo_store ''a.test'' 1)) ''b.test'' 1)"
    by code_simp
  ultimately show ?thesis using runtime_allowlist_bounded [of ascii_only 1] by simp
qed

text \<open>an accepted addition unblocks the name and everything below it at once; a refused one
  changes nothing and happens only for a new name with \<open>limit\<close> runtime entries in place; and
  removing a name that was added fresh restores every earlier decision.\<close>

theorem allowlist_add_remove:
  "(case AddToAllowlistLimited U s d L of (s', ok) \<Rightarrow>
      (ok \<longrightarrow> (\<forall>n. under (normalize U d) (normalize U n) \<longrightarrow> \<not> IsBlocked U s' n)) \<and>
      (\<not> ok \<longrightarrow> s' = s \<and> normalize U d \<notin> st_allowlist s \<and> L \<le> int (card (st_runtime s))) \<and>
      (ok \<and> normalize U d \<notin> st_allowlist s \<longrightarrow>
         (\<forall>n. IsBlocked U (RemoveFromAllowlist U s' d) n = IsBlocked U s n)))"
  by (auto simp: AddToAllowlistLimited_def RemoveFromAllowlist_def Let_def IsBlocked_iff)

end
