(* ===== verification/List_Loader.thy ===== *)
theory List_Loader
  imports Block_Store
begin

text \<open>
  Downloading, parsing and caching the block lists, \<open>src/internal/blocklist/loader.go\<close>.

  The parser is a function on the bytes of a list. A download touches the disk and the
  network: the cache directory is a map from paths to files, an HTTP exchange and every
  disk operation that can fail is an outcome in the record \<open>fetch_env\<close>, one per call of
  \<open>fetchList\<close>. The hash of a URL (crypto/sha256) and path joining are the parameter
  record \<open>pathlib\<close>. Log lines are left out: they change nothing that a caller sees. The cache
  directory exists (\<open>os.MkdirAll\<close> is left out, its failure shows as that of \<open>os.Create\<close>), and the
  \<open>os.Remove\<close> of the temporary file, whose error the code ignores, always removes it.
\<close>

subsection \<open>ValidDomain\<close>

definition domain_byte :: "char \<Rightarrow> bool" where
  "domain_byte c = (is_lower c \<or> is_upper c \<or> is_digit c \<or> c = CHR ''.'' \<or> c = CHR ''-'' \<or> c = CHR ''_'')"

text \<open>The label loop: \<open>prev\<close> starts as a dot, where a label starts.\<close>

fun label_loop :: "char \<Rightarrow> string \<Rightarrow> bool" where
  "label_loop prev [] = (prev \<noteq> CHR ''.'' \<and> prev \<noteq> CHR ''-'')"
| "label_loop prev (c # cs) =
     (if (c = CHR ''.'' \<and> (prev = CHR ''.'' \<or> prev = CHR ''-'')) \<or> (c = CHR ''-'' \<and> prev = CHR ''.'')
      then False else label_loop c cs)"

definition ValidDomain :: "string \<Rightarrow> bool" where
  "ValidDomain s =
     (if s = [] \<or> 253 < length s then False
      else case IndexByte s (CHR ''.'') of
        None \<Rightarrow> False
      | Some i \<Rightarrow>
          if i = 0 \<or> length s - 1 \<le> i then False
          else if \<not> list_all domain_byte s then False
          else label_loop (CHR ''.'') (TrimSuffix s ''.''))"

definition isLocalhostName :: "unicode \<Rightarrow> string \<Rightarrow> bool" where
  "isLocalhostName U d0 =
     (let d = ToLower U (TrimSuffix d0 ''.'') in
      d = ''localhost'' \<or> HasSuffix d ''.localhost'' \<or> d = ''localhost.localdomain'')"

subsection \<open>parseHostsFormat\<close>

text \<open>A reader: the bytes it delivers, then an error, or the end of the data.\<close>

record reader =
  rd_bytes :: string
  rd_err :: "string option"

datatype load_error =
    ErrTooLong | ReadErr string | OpenErr string | BadURL string | DoErr string
  | StatusErr nat | CapErr | StaleErr load_error load_error | AllFailed load_error

text \<open>
  \<open>bufio.Scanner\<close> with the line splitter and a 1 MiB buffer: the lines without their newline
  and one trailing carriage return, up to the first line that does not fit the buffer.
\<close>

definition scan_max :: nat where "scan_max = 1048576"

definition drop_cr :: "string \<Rightarrow> string" where
  "drop_cr l = (if l \<noteq> [] \<and> last l = CHR 0x0D then butlast l else l)"

definition raw_lines :: "string \<Rightarrow> string list" where
  "raw_lines s = (let ls = Split s (CHR 0x0A) in if last ls = [] then butlast ls else ls)"

definition scan_lines :: "reader \<Rightarrow> string list \<times> load_error option" where
  "scan_lines r =
     (let ls = raw_lines (rd_bytes r); fit = takeWhile (\<lambda>l. length l < scan_max) ls in
      (map drop_cr fit,
       if length fit < length ls then Some ErrTooLong else map_option ReadErr (rd_err r)))"

text \<open>One pass of the parse loop over a line; \<open>(domains, skipped)\<close> are the loop's results.\<close>

definition hosts_ip :: "string \<Rightarrow> bool" where
  "hosts_ip ip = (ip = ''0.0.0.0'' \<or> ip = ''127.0.0.1'' \<or> ip = ''::'')"

definition line_domain :: "unicode \<Rightarrow> string list \<Rightarrow> string option" where
  "line_domain U ws = (case ws of
       [] \<Rightarrow> None
     | [f] \<Rightarrow>
         (let d = TrimPrefix f ''*.'' in
          if ValidDomain d \<and> \<not> isLocalhostName U d then Some d else None)
     | ip # domain # _ \<Rightarrow>
         if hosts_ip ip \<and> domain \<noteq> ''0.0.0.0'' \<and> ValidDomain domain \<and> \<not> isLocalhostName U domain
         then Some domain else None)"

definition parse_line :: "unicode \<Rightarrow> string \<Rightarrow> string list \<times> nat \<Rightarrow> string list \<times> nat" where
  "parse_line U text acc =
     (let line = TrimSpace text in
      if line = [] \<or> HasPrefix line ''#'' then acc
      else case line_domain U (Fields line) of
        Some d \<Rightarrow> (fst acc @ [d], snd acc)
      | None \<Rightarrow> (fst acc, snd acc + 1))"

definition parseHostsFormat :: "unicode \<Rightarrow> reader \<Rightarrow> string list \<times> nat \<times> load_error option" where
  "parseHostsFormat U r =
     (let (lines, err) = scan_lines r;
          (domains, skipped) = fold (parse_line U) lines ([], 0)
      in (domains, skipped, err))"

subsection \<open>Redirects\<close>

datatype redirect_error = TooManyRedirects | InsecureRedirect

definition maxRedirects :: nat where "maxRedirects = 10"

text \<open>\<open>checkRedirect(req, via)\<close> on the schemes of the requests; \<open>via\<close> is never empty.\<close>

definition checkRedirect :: "string \<Rightarrow> string list \<Rightarrow> redirect_error option" where
  "checkRedirect req via =
     (if maxRedirects \<le> length via then Some TooManyRedirects
      else if hd via = ''https'' \<and> req \<noteq> ''https'' then Some InsecureRedirect
      else None)"

text \<open>
  The requests an HTTP client sends for a chain of redirect targets: it asks the policy
  before each new request and stops at the first refusal.
\<close>

fun sent_requests :: "string list \<Rightarrow> string list \<Rightarrow> string list" where
  "sent_requests via [] = via"
| "sent_requests via (t # ts) =
     (case checkRedirect t via of Some e \<Rightarrow> via | None \<Rightarrow> sent_requests (via @ [t]) ts)"

subsection \<open>fetchList\<close>

datatype mode = CacheFirst | DownloadFirst

datatype origin = fromDownload | fromCache | fromStaleCache

record sourceMeta =
  sm_from :: origin
  sm_snapshot :: time
  sm_skipped :: nat

record cfile =
  cf_data :: reader               \<comment> \<open>the content, with a read error after it if reading fails\<close>
  cf_open_err :: "string option"  \<comment> \<open>opening fails, most often a permission\<close>
  cf_mtime :: time

type_synonym disk = "string \<rightharpoonup> cfile"

datatype http_reply = HttpBadURL string | HttpErr string | HttpResp nat reader

record fetch_env =
  fe_now :: time                       \<comment> \<open>the clock during the call\<close>
  fe_http :: http_reply
  fe_create_err :: "string option"     \<comment> \<open>\<open>os.Create\<close> of the .tmp file\<close>
  fe_write_err :: "string option"      \<comment> \<open>a write through the TeeReader, which reads as a read error\<close>
  fe_close_err :: "string option"
  fe_rename_err :: "string option"

record pathlib =
  sha256_hex :: "string \<Rightarrow> string"
  path_join :: "string \<Rightarrow> string \<Rightarrow> string"

definition cacheMaxAge :: duration where "cacheMaxAge = 24 * hour"

definition maxBodyBytes :: nat where "maxBodyBytes = 268435456"

definition cacheFilename :: "pathlib \<Rightarrow> string \<Rightarrow> string" where
  "cacheFilename P url = ''blocklist_'' @ sha256_hex P url @ ''.txt''"

definition loadFromFile :: "unicode \<Rightarrow> cfile \<Rightarrow> load_error + string list \<times> nat" where
  "loadFromFile U f = (case cf_open_err f of
       Some e \<Rightarrow> Inl (OpenErr e)
     | None \<Rightarrow> (case parseHostsFormat U (cf_data f) of
                  (_, _, Some e) \<Rightarrow> Inl e
                | (domains, skipped, None) \<Rightarrow> Inr (domains, skipped)))"

definition staleFallback :: "unicode \<Rightarrow> cfile \<Rightarrow> load_error \<Rightarrow> load_error + string list \<times> sourceMeta" where
  "staleFallback U f dlErr = (case loadFromFile U f of
       Inl loadErr \<Rightarrow> Inl (StaleErr dlErr loadErr)
     | Inr (domains, skipped) \<Rightarrow>
         Inr (domains, \<lparr>sm_from = fromStaleCache, sm_snapshot = cf_mtime f, sm_skipped = skipped\<rparr>))"

definition fail_or_stale :: "unicode \<Rightarrow> disk \<Rightarrow> string \<Rightarrow> load_error \<Rightarrow> load_error + string list \<times> sourceMeta" where
  "fail_or_stale U fs path e = (case fs path of None \<Rightarrow> Inl e | Some f \<Rightarrow> staleFallback U f e)"

text \<open>\<open>io.LimitReader(resp.Body, maxBodyBytes)\<close>, with a TeeReader's write error if one occurs.\<close>

definition limited :: "reader \<Rightarrow> string option \<Rightarrow> reader" where
  "limited body werr =
     (let b = (if maxBodyBytes \<le> length (rd_bytes body)
               then \<lparr>rd_bytes = take maxBodyBytes (rd_bytes body), rd_err = None\<rparr> else body)
      in case werr of None \<Rightarrow> b | Some e \<Rightarrow> b\<lparr>rd_err := Some e\<rparr>)"

definition fetchList ::
  "unicode \<Rightarrow> pathlib \<Rightarrow> fetch_env \<Rightarrow> disk \<Rightarrow> string \<Rightarrow> string \<Rightarrow> mode
   \<Rightarrow> (load_error + string list \<times> sourceMeta) \<times> disk" where
  "fetchList U P E fs url cacheDir m =
     (let path = path_join P cacheDir (cacheFilename P url);
          tmp = path @ ''.tmp'';
          cached = (case fs path of
              Some f \<Rightarrow>
                if m = CacheFirst \<and> time_Sub (fe_now E) (cf_mtime f) < cacheMaxAge
                then (case loadFromFile U f of
                        Inr (domains, skipped) \<Rightarrow>
                          Some (domains, \<lparr>sm_from = fromCache, sm_snapshot = cf_mtime f, sm_skipped = skipped\<rparr>)
                      | Inl _ \<Rightarrow> None)
                else None
            | None \<Rightarrow> None)
      in case cached of
           Some r \<Rightarrow> (Inr r, fs)
         | None \<Rightarrow>
           (case fe_http E of
              HttpBadURL e \<Rightarrow> (Inl (BadURL e), fs)
            | HttpErr e \<Rightarrow> (fail_or_stale U fs path (DoErr e), fs)
            | HttpResp status body \<Rightarrow>
                if status \<noteq> 200 then (fail_or_stale U fs path (StatusErr status), fs)
                else
                  let created = (fe_create_err E = None);
                      rd = limited body (if created then fe_write_err E else None);
                      fs1 = (if created
                             then fs(tmp \<mapsto> \<lparr>cf_data = \<lparr>rd_bytes = rd_bytes rd, rd_err = None\<rparr>,
                                               cf_open_err = None, cf_mtime = fe_now E\<rparr>)
                             else fs);
                      (domains, skipped, parseErr) = parseHostsFormat U rd;
                      readErr = (case parseErr of
                          Some e \<Rightarrow> Some e
                        | None \<Rightarrow> if created then map_option ReadErr (fe_close_err E) else None)
                  in (case readErr of
                        Some e \<Rightarrow> (fail_or_stale U (fs1(tmp := None)) path e, fs1(tmp := None))
                      | None \<Rightarrow>
                          if maxBodyBytes < length (rd_bytes body)
                          then (fail_or_stale U (fs1(tmp := None)) path CapErr, fs1(tmp := None))
                          else
                            (Inr (domains, \<lparr>sm_from = fromDownload, sm_snapshot = fe_now E, sm_skipped = skipped\<rparr>),
                             if \<not> created then fs1
                             else if fe_rename_err E = None then fs1(path := fs1 tmp, tmp := None)
                             else fs1(tmp := None)))))"

subsection \<open>Update\<close>

record upd =
  up_all :: "string list"
  up_ok :: nat
  up_lastErr :: "load_error option"
  up_sources :: "SourceStatus list"
  up_disk :: disk

definition update_one ::
  "unicode \<Rightarrow> pathlib \<Rightarrow> string \<Rightarrow> mode \<Rightarrow> fetch_env \<times> string \<Rightarrow> upd \<Rightarrow> upd" where
  "update_one U P cacheDir m Eu a = (case Eu of (E, u) \<Rightarrow>
     (case fetchList U P E (up_disk a) u cacheDir m of
        (Inl err, fs) \<Rightarrow>
          a\<lparr>up_lastErr := Some err, up_disk := fs,
            up_sources := up_sources a @
              [\<lparr>src_URL = u, src_Count = 0, src_LastRefresh = None, src_Stale = True\<rparr>]\<rparr>
      | (Inr (domains, meta), fs) \<Rightarrow>
          a\<lparr>up_ok := up_ok a + 1, up_all := up_all a @ domains, up_disk := fs,
            up_sources := up_sources a @
              [\<lparr>src_URL = u, src_Count = length domains, src_LastRefresh = Some (sm_snapshot meta),
                src_Stale = (sm_from meta = fromStaleCache)\<rparr>]\<rparr>))"

text \<open>The environment has one \<open>fetch_env\<close> per configured URL, in the same order.\<close>

definition Update ::
  "unicode \<Rightarrow> pathlib \<Rightarrow> Store \<Rightarrow> disk \<Rightarrow> (fetch_env \<times> string) list \<Rightarrow> string \<Rightarrow> mode
   \<Rightarrow> Store \<times> disk \<times> load_error option" where
  "Update U P s fs urls cacheDir m =
     (let a = fold (update_one U P cacheDir m) urls
                \<lparr>up_all = [], up_ok = 0, up_lastErr = None, up_sources = [], up_disk = fs\<rparr>;
          s1 = setSources s (up_sources a)
      in if up_ok a = 0 \<and> urls \<noteq> []
         then (s1, up_disk a, map_option AllFailed (up_lastErr a))
         else (Replace U s1 (up_all a), up_disk a, None))"

subsection \<open>PurgeCache\<close>

text \<open>
  The glob \<open>blocklist_*.txt*\<close> and the suffix test, on the base names of a directory. The
  directory is its list of names in the order the glob gives them; \<open>rm\<close> gives the error of
  removing a name, if any, and \<open>bad\<close> the error of the glob itself (a cache directory whose
  name is no valid pattern).
\<close>

definition purge_matches :: "string \<Rightarrow> bool" where
  "purge_matches base =
     (HasPrefix base ''blocklist_'' \<and> Contains (drop (length ''blocklist_'') base) ''.txt''
      \<and> (HasSuffix base ''.txt'' \<or> HasSuffix base ''.txt.tmp''))"

text \<open>One pass: the names left, the number removed and the first error so far.\<close>

definition purge_step ::
  "(string \<Rightarrow> string option) \<Rightarrow> string \<Rightarrow> string list \<times> nat \<times> string option \<Rightarrow> string list \<times> nat \<times> string option" where
  "purge_step rm m acc = (case acc of (left, removed, firstErr) \<Rightarrow>
     if \<not> purge_matches m then (left @ [m], removed, firstErr)
     else (case rm m of
         Some e \<Rightarrow> (left @ [m], removed, (if firstErr = None then Some e else firstErr))
       | None \<Rightarrow> (left, removed + 1, firstErr)))"

definition PurgeCache ::
  "string option \<Rightarrow> (string \<Rightarrow> string option) \<Rightarrow> string list \<Rightarrow> string list \<times> nat \<times> string option" where
  "PurgeCache bad rm names =
     (case bad of Some e \<Rightarrow> (names, 0, Some e) | None \<Rightarrow> fold (purge_step rm) names ([], 0, None))"

section \<open>Lemmas\<close>

subsection \<open>Labels\<close>

text \<open>What a label of a valid domain looks like.\<close>

definition good_label :: "string \<Rightarrow> bool" where
  "good_label w = (w \<noteq> [] \<and> hd w \<noteq> CHR ''-'' \<and> last w \<noteq> CHR ''-'')"

definition domain_labels :: "string \<Rightarrow> string list" where
  "domain_labels s = Split (TrimSuffix s ''.'') (CHR ''.'')"

lemma Split_ne [simp]: "Split s c \<noteq> []"
  by (cases s) (auto split: list.splits)

lemma Split_Cons: "x \<noteq> c \<Longrightarrow> Split (x # xs) c = (x # hd (Split xs c)) # tl (Split xs c)"
  by (cases "Split xs c") auto

lemma label_loop_Split:
  "label_loop prev s =
     (if prev = CHR ''.'' then list_all good_label (Split s (CHR ''.''))
      else last (prev # hd (Split s (CHR ''.''))) \<noteq> CHR ''-'' \<and> list_all good_label (tl (Split s (CHR ''.''))))"
proof (induction s arbitrary: prev)
  case Nil
  then show ?case by (simp add: good_label_def)
next
  case (Cons x xs)
  show ?case
  proof (cases "x = CHR ''.''")
    case True
    have g: "good_label [] = False" by (simp add: good_label_def)
    show ?thesis using True Cons.IH [of x] by (simp add: g)
  next
    case False
    have "Split xs (CHR ''.'') = hd (Split xs (CHR ''.'')) # tl (Split xs (CHR ''.''))" by simp
    with False Cons.IH [of x] show ?thesis
      unfolding label_loop.simps(2) Split_Cons [OF False]
      by (auto simp: good_label_def)
  qed
qed

lemma length_Split: "length (Split s c) = Suc (count_list s c)"
  by (induction s) (auto split: list.splits)

lemma count_list_pos: "0 < count_list s c \<longleftrightarrow> c \<in> set s"
  by (metis count_list_0_iff gr0I less_numeral_extra(3))

lemma TrimSuffix_dot: "HasSuffix s ''.'' \<Longrightarrow> s = TrimSuffix s ''.'' @ ''.''"
  by (auto simp: HasSuffix_def suffix_def)

lemma TrimSuffix_no: "\<not> HasSuffix s p \<Longrightarrow> TrimSuffix s p = s"
  by (simp add: TrimSuffix_def)

lemma good_labels_interior:
  assumes "list_all good_label (domain_labels s)"
  shows "2 \<le> length (domain_labels s) \<longleftrightarrow>
    (\<exists>i. IndexByte s (CHR ''.'') = Some i \<and> 0 < i \<and> i < length s - 1)"
proof -
  let ?n = "TrimSuffix s ''.''"
  have len: "2 \<le> length (domain_labels s) \<longleftrightarrow> CHR ''.'' \<in> set ?n"
    using count_list_pos [of ?n "CHR ''.''"] by (simp add: domain_labels_def length_Split Suc_le_eq)
  have lab: "label_loop (CHR ''.'') ?n" using assms by (simp add: label_loop_Split domain_labels_def)
  then have hd: "?n = [] \<or> hd ?n \<noteq> CHR ''.''" by (cases ?n) auto
  have lst: "?n \<noteq> [] \<Longrightarrow> last ?n \<noteq> CHR ''.''"
  proof -
    have "label_loop p xs \<Longrightarrow> xs \<noteq> [] \<Longrightarrow> last xs \<noteq> CHR ''.''" for p xs
      by (induction p xs rule: label_loop.induct) (auto split: if_splits)
    then show "?n \<noteq> [] \<Longrightarrow> last ?n \<noteq> CHR ''.''" using lab by blast
  qed
  have s: "s = ?n @ ''.'' \<or> s = ?n"
    using TrimSuffix_dot [of s] TrimSuffix_no [of s "''.''"] by (cases "HasSuffix s ''.''") simp_all
  show ?thesis
  proof (cases "IndexByte ?n (CHR ''.'')")
    case None
    then have no: "CHR ''.'' \<notin> set ?n" by (simp add: IndexByte_None)
    then have "IndexByte s (CHR ''.'') = None \<or> s = ?n @ ''.'' \<and> IndexByte s (CHR ''.'') = Some (length ?n)"
      using s IndexByte_append_notin [OF no, of "[]"] None by auto
    with no len show ?thesis by (auto dest: arg_cong [where f = length])
  next
    case (Some i)
    then have i: "i < length ?n" "?n ! i = CHR ''.''" "CHR ''.'' \<notin> set (take i ?n)" and n: "?n \<noteq> []"
      using IndexByte_Some by fastforce+
    have "IndexByte s (CHR ''.'') = Some i"
    proof -
      have "IndexByte (?n @ q) (CHR ''.'') = Some i" for q
        using IndexByte_Some_split [OF Some] i IndexByte_append_notin [OF i(3), of "drop (Suc i) ?n @ q"]
        by (metis append.assoc append_Cons length_take min.absorb4)
      from this [of "''.''"] this [of "[]"] show ?thesis using s by auto
    qed
    moreover have "0 < i" using hd n i by (metis gr0I hd_conv_nth)
    moreover have "i \<noteq> length ?n - 1" using lst [OF n] i by (metis last_conv_nth n)
    moreover have "length ?n \<le> length s" using s by (metis length_append le_add1 order_refl)
    moreover have "CHR ''.'' \<in> set ?n" using i by (metis nth_mem)
    ultimately show ?thesis using i len by auto
  qed
qed

lemma ValidDomain_iff:
  "ValidDomain s \<longleftrightarrow>
     s \<noteq> [] \<and> length s \<le> 253 \<and> list_all domain_byte s
     \<and> 2 \<le> length (domain_labels s) \<and> list_all good_label (domain_labels s)"
  using good_labels_interior [of s]
  by (auto simp: ValidDomain_def label_loop_Split domain_labels_def split: option.splits)

lemma ValidDomain_ne: "ValidDomain s \<Longrightarrow> s \<noteq> [] \<and> s \<noteq> ''.''"
  by (auto simp: ValidDomain_def)

subsection \<open>The parser\<close>

text \<open>A line that is neither blank nor a comment.\<close>

definition content_line :: "string \<Rightarrow> bool" where
  "content_line text = (TrimSpace text \<noteq> [] \<and> \<not> HasPrefix (TrimSpace text) ''#'')"

definition text_domain :: "unicode \<Rightarrow> string \<Rightarrow> string option" where
  "text_domain U text = (if content_line text then line_domain U (Fields (TrimSpace text)) else None)"

lemma parse_fold:
  "fold (parse_line U) ls (ds, n) =
     (ds @ List.map_filter (text_domain U) ls,
      n + length (filter (\<lambda>l. content_line l \<and> text_domain U l = None) ls))"
proof (induction ls arbitrary: ds n)
  case (Cons l ls)
  then show ?case
    by (auto simp: parse_line_def text_domain_def content_line_def Let_def map_filter_simps
        split: option.splits)
qed (simp add: map_filter_simps)

lemma line_domain_valid: "line_domain U ws = Some d \<Longrightarrow> ValidDomain d \<and> \<not> isLocalhostName U d"
  by (auto simp: line_domain_def Let_def split: list.splits if_splits)

lemma text_domain_content: "\<not> content_line l \<Longrightarrow> text_domain U l = None"
  by (simp add: text_domain_def)

lemma text_domain_valid: "text_domain U l = Some d \<Longrightarrow> ValidDomain d \<and> \<not> isLocalhostName U d"
  by (auto simp: text_domain_def dest: line_domain_valid split: if_splits)

lemma map_filter_valid: "list_all (\<lambda>d. ValidDomain d \<and> \<not> isLocalhostName U d) (List.map_filter (text_domain U) ls)"
  by (auto simp: list_all_iff map_filter_def dest: text_domain_valid)

lemma map_filter_length:
  "length (List.map_filter (text_domain U) ls)
     + length (filter (\<lambda>l. content_line l \<and> text_domain U l = None) ls) = length (filter content_line ls)"
  by (induction ls) (auto simp: map_filter_simps text_domain_content split: option.splits)

lemma parseHostsFormat_eq:
  "parseHostsFormat U r =
     (List.map_filter (text_domain U) (fst (scan_lines r)),
      length (filter (\<lambda>l. content_line l \<and> text_domain U l = None) (fst (scan_lines r))), snd (scan_lines r))"
  by (simp add: parseHostsFormat_def parse_fold split: prod.splits)

subsection \<open>Downloads\<close>

lemma sent_requests_https:
  "via \<noteq> [] \<Longrightarrow> hd via = ''https'' \<Longrightarrow> list_all (\<lambda>x. x = ''https'') via \<Longrightarrow> length via \<le> maxRedirects
   \<Longrightarrow> list_all (\<lambda>x. x = ''https'') (sent_requests via ts) \<and> length (sent_requests via ts) \<le> maxRedirects"
proof (induction via ts rule: sent_requests.induct)
  case (2 via t ts)
  then show ?case
    by (cases "checkRedirect t via") (auto simp: checkRedirect_def split: if_splits)
qed simp

lemma fail_or_stale_cases:
  "fail_or_stale U fs p e = (case fs p of None \<Rightarrow> Inl e
     | Some f \<Rightarrow> (case loadFromFile U f of Inl le \<Rightarrow> Inl (StaleErr e le)
         | Inr (ds, sk) \<Rightarrow> Inr (ds, \<lparr>sm_from = fromStaleCache, sm_snapshot = cf_mtime f, sm_skipped = sk\<rparr>)))"
  by (simp add: fail_or_stale_def staleFallback_def split: option.splits)

text \<open>
  The contract of one download, on the state before and after: what each kind of result says
  about the response, and what may have changed on disk.
\<close>

definition fetch_contract ::
  "unicode \<Rightarrow> fetch_env \<Rightarrow> string \<Rightarrow> disk \<Rightarrow> (load_error + string list \<times> sourceMeta) \<Rightarrow> disk \<Rightarrow> bool" where
  "fetch_contract U E path fs res fs' =
     ((\<forall>p. p \<noteq> path \<and> p \<noteq> path @ ''.tmp'' \<longrightarrow> fs' p = fs p) \<and>
      (case res of
         Inl e \<Rightarrow> fs' path = fs path \<and>
           (\<forall>f. fs path = Some f \<longrightarrow> (\<exists>b. fe_http E = HttpBadURL b) \<or> (\<exists>le. loadFromFile U f = Inl le))
       | Inr (ds, meta) \<Rightarrow>
           if sm_from meta = fromDownload
           then (\<exists>body. fe_http E = HttpResp 200 body \<and> length (rd_bytes body) \<le> maxBodyBytes
                  \<and> parseHostsFormat U (limited body None) = (ds, sm_skipped meta, None)
                  \<and> (fs' path = fs path \<or>
                     (\<exists>f. fs' path = Some f \<and> cf_data f = \<lparr>rd_bytes = rd_bytes body, rd_err = None\<rparr>)))
           else (\<exists>f. fs path = Some f \<and> loadFromFile U f = Inr (ds, sm_skipped meta)
                  \<and> sm_snapshot meta = cf_mtime f \<and> fs' path = fs path)))"

lemma scan_err: "snd (scan_lines r) = None \<Longrightarrow> rd_err r = None"
  by (auto simp: scan_lines_def Let_def split: if_splits)

lemma limited_write_err: "parseHostsFormat U (limited b (Some e)) \<noteq> (ds, n, None)"
proof
  assume "parseHostsFormat U (limited b (Some e)) = (ds, n, None)"
  then have "rd_err (limited b (Some e)) = None" by (intro scan_err) (simp add: parseHostsFormat_eq)
  then show False by (simp add: limited_def Let_def)
qed

lemma limited_bytes: "length (rd_bytes b) \<le> maxBodyBytes \<Longrightarrow> rd_bytes (limited b w) = rd_bytes b"
  by (auto simp: limited_def Let_def split: option.splits)

lemma fail_or_stale_contract:
  "(\<forall>p. p \<noteq> path \<and> p \<noteq> path @ ''.tmp'' \<longrightarrow> fs' p = fs p) \<Longrightarrow> fs' path = fs path \<Longrightarrow> fs1 path = fs path
   \<Longrightarrow> fetch_contract U E path fs (fail_or_stale U fs1 path e) fs'"
  by (auto simp: fetch_contract_def fail_or_stale_cases split: option.splits sum.splits)

lemma fetchList_contract:
  "fetch_contract U E (path_join P dir (cacheFilename P url)) fs
     (fst (fetchList U P E fs url dir m)) (snd (fetchList U P E fs url dir m))"
proof -
  let ?path = "path_join P dir (cacheFilename P url)"
  define cached where "cached = (case fs ?path of
              Some f \<Rightarrow>
                if m = CacheFirst \<and> time_Sub (fe_now E) (cf_mtime f) < cacheMaxAge
                then (case loadFromFile U f of
                        Inr (domains, skipped) \<Rightarrow>
                          Some (domains, \<lparr>sm_from = fromCache, sm_snapshot = cf_mtime f, sm_skipped = skipped\<rparr>)
                      | Inl _ \<Rightarrow> None)
                else None
            | None \<Rightarrow> None)"
  note unf = fetchList_def Let_def cached_def [symmetric]
  show ?thesis
  proof (cases cached)
    case (Some r)
    then have "fetch_contract U E ?path fs (Inr r) fs"
      by (auto simp: cached_def fetch_contract_def split: option.splits if_splits sum.splits)
    then show ?thesis by (simp add: unf Some)
  next
    case None
    show ?thesis
    proof (cases "fe_http E")
      case (HttpBadURL e)
      then show ?thesis by (simp add: unf None fetch_contract_def)
    next
      case (HttpErr e)
      then show ?thesis by (simp add: unf None fail_or_stale_contract)
    next
      case (HttpResp st body)
      let ?w = "if fe_create_err E = None then fe_write_err E else None"
      obtain ds n pe where p: "parseHostsFormat U (limited body ?w) = (ds, n, pe)" by (cases "parseHostsFormat U (limited body ?w)")
      have w: "pe = None \<Longrightarrow> ?w = None" using p limited_write_err by (metis option.exhaust)
      show ?thesis
        using p w unfolding unf None HttpResp option.case http_reply.case
        by (auto simp: fetch_contract_def [of _ _ _ _ "Inr _"] limited_bytes HttpResp intro!: fail_or_stale_contract split: option.splits)
    qed
  qed
qed

subsection \<open>Update\<close>

text \<open>The results of the sources in order, the disk threaded through them.\<close>

fun fetch_results ::
  "unicode \<Rightarrow> pathlib \<Rightarrow> string \<Rightarrow> mode \<Rightarrow> disk \<Rightarrow> (fetch_env \<times> string) list
   \<Rightarrow> (load_error + string list \<times> sourceMeta) list" where
  "fetch_results U P dir m fs [] = []"
| "fetch_results U P dir m fs ((E, u) # us) =
     (case fetchList U P E fs u dir m of (r, fs') \<Rightarrow> r # fetch_results U P dir m fs' us)"

fun result_domains :: "load_error + string list \<times> sourceMeta \<Rightarrow> string list" where
  "result_domains (Inl e) = []"
| "result_domains (Inr (ds, meta)) = ds"

fun result_ok :: "load_error + string list \<times> sourceMeta \<Rightarrow> bool" where
  "result_ok (Inl e) = False"
| "result_ok (Inr r) = True"

lemma update_one_simps [simp]:
  "up_disk (update_one U P dir m (E, u) a) = snd (fetchList U P E (up_disk a) u dir m)"
  "up_all (update_one U P dir m (E, u) a) = up_all a @ result_domains (fst (fetchList U P E (up_disk a) u dir m))"
  "up_ok (update_one U P dir m (E, u) a) =
     up_ok a + (if result_ok (fst (fetchList U P E (up_disk a) u dir m)) then 1 else 0)"
  "map src_URL (up_sources (update_one U P dir m (E, u) a)) = map src_URL (up_sources a) @ [u]"
  "(up_lastErr (update_one U P dir m (E, u) a) = None) =
     (up_lastErr a = None \<and> result_ok (fst (fetchList U P E (up_disk a) u dir m)))"
  by (auto simp: update_one_def split: prod.splits sum.splits)

lemma update_fold:
  "up_all (fold (update_one U P dir m) us a) =
     up_all a @ concat (map result_domains (fetch_results U P dir m (up_disk a) us))"
  "up_ok (fold (update_one U P dir m) us a) =
     up_ok a + length (filter result_ok (fetch_results U P dir m (up_disk a) us))"
  "map src_URL (up_sources (fold (update_one U P dir m) us a)) = map src_URL (up_sources a) @ map snd us"
  by (induction us arbitrary: a) (auto split: prod.splits)

lemma update_lastErr:
  "(up_lastErr (fold (update_one U P dir m) us a) = None) =
     (up_lastErr a = None \<and> list_all result_ok (fetch_results U P dir m (up_disk a) us))"
proof (induction us arbitrary: a)
  case (Cons Eu us)
  then show ?case by (cases Eu) (simp add: case_prod_beta conj_assoc del: not_None_eq)
qed simp

lemma length_fetch_results [simp]: "length (fetch_results U P dir m fs us) = length us"
  by (induction us arbitrary: fs) (auto split: prod.splits)

lemma Replace_frame [simp]:
  "st_blocked (Replace U s ds) = normalize U ` set ds" "st_allowlist (Replace U s ds) = st_allowlist s"
  "st_sources (Replace U s ds) = st_sources s"
  by (auto simp: Replace_def)

lemma setSources_frame [simp]:
  "st_blocked (setSources s ss) = st_blocked s" "st_allowlist (setSources s ss) = st_allowlist s"
  "st_sources (setSources s ss) = Some ss"
  by (auto simp: setSources_def)

lemma no_ok_iff: "filter result_ok rs = [] \<and> rs \<noteq> [] \<Longrightarrow> \<not> list_all result_ok rs"
  by (cases rs) (auto split: if_splits)

lemma Update_result:
  "case Update U P s fs urls dir m of (s', fs', err) \<Rightarrow>
     (let rs = fetch_results U P dir m fs urls in
      (err \<noteq> None \<longleftrightarrow> urls \<noteq> [] \<and> \<not> list_ex result_ok rs) \<and>
      st_blocked s' = (if err = None then normalize U ` set (concat (map result_domains rs)) else st_blocked s) \<and>
      st_allowlist s' = st_allowlist s \<and> st_runtime s' = st_runtime s \<and> map_option (map src_URL) (st_sources s') = Some (map snd urls))"
proof -
  let ?rs = "fetch_results U P dir m fs urls"
  have ne: "urls \<noteq> [] \<longleftrightarrow> ?rs \<noteq> []" using length_fetch_results [of U P dir m fs urls] by (metis length_0_conv)
  have ex: "list_ex result_ok ?rs \<longleftrightarrow> filter result_ok ?rs \<noteq> []"
    by (auto simp: list_ex_iff filter_empty_conv)
  show ?thesis
    using no_ok_iff [of ?rs] unfolding Update_def Let_def
    by (auto simp: update_fold update_lastErr ne ex simp del: not_None_eq)
qed

subsection \<open>Purge\<close>

lemma purge_fold:
  "fold (purge_step rm) ms (left, n, err) =
     (left @ filter (\<lambda>m. \<not> (purge_matches m \<and> rm m = None)) ms,
      n + length (filter (\<lambda>m. purge_matches m \<and> rm m = None) ms),
      if err \<noteq> None then err
      else (case filter (\<lambda>m. purge_matches m \<and> rm m \<noteq> None) ms of [] \<Rightarrow> None | m # _ \<Rightarrow> rm m))"
  by (induction ms arbitrary: left n err) (auto simp: purge_step_def split: option.splits)

section \<open>Properties\<close>

text \<open>\<open>ValidDomain\<close> accepts exactly the names of at most 253 bytes over letters, digits,
  hyphen, underscore and dot that have two labels or more, no empty label besides that of one
  trailing root dot, and no label that starts or ends with a hyphen. So a bare top-level
  domain, with or without a root dot, is never valid.\<close>

theorem validDomain_spec:
  "ValidDomain s \<longleftrightarrow>
     s \<noteq> [] \<and> length s \<le> 253 \<and> list_all domain_byte s
     \<and> 2 \<le> length (domain_labels s) \<and> list_all good_label (domain_labels s)"
  by (rule ValidDomain_iff)

text \<open>parsing a list, whatever its bytes: every domain it yields passes \<open>ValidDomain\<close> and is no
  name of this machine, and each line that is neither blank nor a comment is counted exactly
  once, as a domain or as skipped.\<close>

theorem parse_sound:
  "case parseHostsFormat U r of (domains, skipped, err) \<Rightarrow>
     list_all (\<lambda>d. ValidDomain d \<and> \<not> isLocalhostName U d) domains
     \<and> length domains + skipped = length (filter content_line (fst (scan_lines r)))"
  by (simp add: parseHostsFormat_eq map_filter_valid map_filter_length)

text \<open>a download that starts on HTTPS stays there: whatever redirect targets the servers name,
  every request that is sent uses HTTPS, and there are at most 10 of them.\<close>

theorem redirects_stay_https:
  "list_all (\<lambda>x. x = ''https'') (sent_requests [''https''] targets)
   \<and> length (sent_requests [''https''] targets) \<le> 10"
  using sent_requests_https [of "[''https'']" targets] by (simp add: maxRedirects_def)

text \<open>C31: one download, for every outcome of the network and the disk. It touches no file but the
  cache file of its URL and that file's .tmp sibling. Domains come from a download only if the
  response was 200, complete and under the size cap, and then the cache file holds that body or
  is unchanged; otherwise they are the cached copy's, and the cache file is unchanged. It fails,
  a URL that does not parse apart, only if there is no cached copy that can be read.\<close>

theorem fetchList_keeps_cache:
  "case fetchList U P E fs url dir m of (res, fs') \<Rightarrow>
     fetch_contract U E (path_join P dir (cacheFilename P url)) fs res fs'"
  using fetchList_contract [of U E P dir url fs m] by (simp add: case_prod_beta)

text \<open>a refresh replaces the block set by the domains of the sources that loaded, normalized,
  and reports an error, keeping the block set as it was, exactly when there are sources and
  every one failed. It never touches the allowlist, and it records one health entry per
  configured URL in order.\<close>

theorem update_keeps_or_replaces:
  "case Update U P s fs urls dir m of (s', fs', err) \<Rightarrow>
     (let rs = fetch_results U P dir m fs urls in
      (err \<noteq> None \<longleftrightarrow> urls \<noteq> [] \<and> \<not> list_ex result_ok rs) \<and>
      st_blocked s' = (if err = None then normalize U ` set (concat (map result_domains rs)) else st_blocked s) \<and>
      st_allowlist s' = st_allowlist s \<and> st_runtime s' = st_runtime s \<and> map_option (map src_URL) (st_sources s') = Some (map snd urls))"
  by (rule Update_result)

text \<open>\<open>PurgeCache\<close> deletes no file but \<open>blocklist_*.txt\<close> and \<open>blocklist_*.txt.tmp\<close> names, deletes
  every such file that the system lets it delete, and returns their number.\<close>

theorem purgeCache_only_lists:
  "PurgeCache None rm names =
     (filter (\<lambda>m. \<not> (purge_matches m \<and> rm m = None)) names,
      length (filter (\<lambda>m. purge_matches m \<and> rm m = None) names),
      case filter (\<lambda>m. purge_matches m \<and> rm m \<noteq> None) names of [] \<Rightarrow> None | m # _ \<Rightarrow> rm m)"
  by (simp add: PurgeCache_def purge_fold)

end
