(* ===== verification/Net_Addr.thy ===== *)
theory Net_Addr
  imports Go_Prelude
begin

unbundle bit_operations_syntax

text \<open>
  The values of Go's packages \<open>net/netip\<close> and \<open>net\<close> that the sources use: addresses and
  prefixes on words. An IPv6 address carries a zone, the empty string for none. A prefix
  keeps Go's \<open>Bits\<close>, which is -1 for an invalid prefix.

  The text form of an address is a parameter, the record \<open>iptext\<close>: every definition that
  parses or prints an address takes it, and \<open>iptext_ok\<close> states what the sources rely on:
  an address that was printed parses back, and no address prints as the empty string.
\<close>

datatype addr = NoAddr | Addr4 "32 word" | Addr6 "128 word" string

record ip_prefix =
  p_Addr :: addr
  p_Bits :: int

definition IsValid :: "addr \<Rightarrow> bool" where
  "IsValid a = (a \<noteq> NoAddr)"

fun Is4 :: "addr \<Rightarrow> bool" where
  "Is4 (Addr4 _) = True"
| "Is4 _ = False"

fun Is6 :: "addr \<Rightarrow> bool" where
  "Is6 (Addr6 _ _) = True"
| "Is6 _ = False"

text \<open>\<open>Is4In6\<close>: an IPv4-mapped address, \<open>::ffff:a.b.c.d\<close>.\<close>

fun Is4In6 :: "addr \<Rightarrow> bool" where
  "Is4In6 (Addr6 a _) = (drop_bit 32 a = 0xffff)"
| "Is4In6 _ = False"

fun Unmap :: "addr \<Rightarrow> addr" where
  "Unmap (Addr6 a z) = (if drop_bit 32 a = 0xffff then Addr4 (ucast a) else Addr6 a z)"
| "Unmap a = a"

fun WithoutZone :: "addr \<Rightarrow> addr" where
  "WithoutZone (Addr6 a z) = Addr6 a []"
| "WithoutZone a = a"

fun Zone :: "addr \<Rightarrow> string" where
  "Zone (Addr6 a z) = z"
| "Zone a = []"

fun BitLen :: "addr \<Rightarrow> nat" where
  "BitLen NoAddr = 0"
| "BitLen (Addr4 _) = 32"
| "BitLen (Addr6 _ _) = 128"

text \<open>\<open>AddrFromSlice\<close>: four bytes give an IPv4 address, sixteen an IPv6 address.\<close>

definition word_of_bytes :: "8 word list \<Rightarrow> 'a::len word" where
  "word_of_bytes bs = foldl (\<lambda>w b. push_bit 8 w OR ucast b) 0 bs"

definition AddrFromSlice :: "8 word list \<Rightarrow> addr option" where
  "AddrFromSlice bs =
     (if length bs = 4 then Some (Addr4 (word_of_bytes bs))
      else if length bs = 16 then Some (Addr6 (word_of_bytes bs) []) else None)"

subsection \<open>Prefixes\<close>

definition mask_top :: "nat \<Rightarrow> 'a::len word \<Rightarrow> 'a word" where
  "mask_top n a = push_bit (LENGTH('a) - n) (drop_bit (LENGTH('a) - n) a)"

definition same_top :: "nat \<Rightarrow> 'a::len word \<Rightarrow> 'a word \<Rightarrow> bool" where
  "same_top n a b = (drop_bit (LENGTH('a) - n) a = drop_bit (LENGTH('a) - n) b)"

definition PrefixFrom :: "addr \<Rightarrow> int \<Rightarrow> ip_prefix" where
  "PrefixFrom a bits =
     \<lparr>p_Addr = WithoutZone a,
      p_Bits = (if a \<noteq> NoAddr \<and> 0 \<le> bits \<and> bits \<le> int (BitLen a) then bits else - 1)\<rparr>"

text \<open>\<open>Addr.Prefix\<close>: the prefix with its host bits zeroed; \<open>None\<close> is the error.\<close>

fun AddrPrefix :: "addr \<Rightarrow> int \<Rightarrow> ip_prefix option" where
  "AddrPrefix NoAddr bits = (if bits < 0 then None else Some \<lparr>p_Addr = NoAddr, p_Bits = - 1\<rparr>)"
| "AddrPrefix (Addr4 a) bits =
     (if bits < 0 \<or> 32 < bits then None
      else Some \<lparr>p_Addr = Addr4 (mask_top (nat bits) a), p_Bits = bits\<rparr>)"
| "AddrPrefix (Addr6 a z) bits =
     (if bits < 0 \<or> 128 < bits then None
      else Some \<lparr>p_Addr = Addr6 (mask_top (nat bits) a) [], p_Bits = bits\<rparr>)"

definition PfxContains :: "ip_prefix \<Rightarrow> addr \<Rightarrow> bool" where
  "PfxContains p a =
     (p_Bits p \<ge> 0 \<and> Zone a = [] \<and>
      (case (p_Addr p, a) of
         (Addr4 n, Addr4 x) \<Rightarrow> same_top (nat (p_Bits p)) n x
       | (Addr6 n _, Addr6 x _) \<Rightarrow> same_top (nat (p_Bits p)) n x
       | _ \<Rightarrow> False))"

subsection \<open>Address classes\<close>

definition IsLoopback :: "addr \<Rightarrow> bool" where
  "IsLoopback a = (case Unmap a of
       NoAddr \<Rightarrow> False
     | Addr4 x \<Rightarrow> drop_bit 24 x = 127
     | Addr6 x _ \<Rightarrow> x = 1)"

definition IsMulticast :: "addr \<Rightarrow> bool" where
  "IsMulticast a = (case Unmap a of
       NoAddr \<Rightarrow> False
     | Addr4 x \<Rightarrow> drop_bit 28 x = 0xe
     | Addr6 x _ \<Rightarrow> drop_bit 120 x = 0xff)"

definition IsLinkLocalUnicast :: "addr \<Rightarrow> bool" where
  "IsLinkLocalUnicast a = (case Unmap a of
       NoAddr \<Rightarrow> False
     | Addr4 x \<Rightarrow> drop_bit 16 x = 0xa9fe
     | Addr6 x _ \<Rightarrow> drop_bit 118 x = 0x3fa)"

definition IsPrivate :: "addr \<Rightarrow> bool" where
  "IsPrivate a = (case Unmap a of
       NoAddr \<Rightarrow> False
     | Addr4 x \<Rightarrow> drop_bit 24 x = 10 \<or> drop_bit 20 x = 0xac1 \<or> drop_bit 16 x = 0xc0a8
     | Addr6 x _ \<Rightarrow> drop_bit 121 x = 0x7e)"

definition IsGlobalUnicast :: "addr \<Rightarrow> bool" where
  "IsGlobalUnicast a = (case Unmap a of
       NoAddr \<Rightarrow> False
     | Addr4 x \<Rightarrow> x \<noteq> 0 \<and> x \<noteq> - 1 \<and> \<not> IsLoopback a \<and> \<not> IsMulticast a \<and> \<not> IsLinkLocalUnicast a
     | Addr6 x z \<Rightarrow> \<not> (x = 0 \<and> z = []) \<and> \<not> IsLoopback a \<and> \<not> IsMulticast a \<and> \<not> IsLinkLocalUnicast a)"

definition IsUnspecified :: "addr \<Rightarrow> bool" where
  "IsUnspecified a = (case a of
       NoAddr \<Rightarrow> False | Addr4 x \<Rightarrow> x = 0 | Addr6 x z \<Rightarrow> x = 0 \<and> z = [])"

subsection \<open>Text form, a parameter\<close>

record iptext =
  ParseAddr :: "string \<Rightarrow> addr option"   \<comment> \<open>\<open>netip.ParseAddr\<close>\<close>
  AddrString :: "addr \<Rightarrow> string"         \<comment> \<open>\<open>Addr.String\<close> of a valid address\<close>

definition iptext_ok :: "iptext \<Rightarrow> bool" where
  "iptext_ok T = (\<forall>a. a \<noteq> NoAddr \<longrightarrow> AddrString T a \<noteq> [] \<and> ParseAddr T (AddrString T a) = Some a)"

text \<open>\<open>net.ParseIP\<close>: an address without a zone, where a mapped address counts as IPv4.\<close>

definition ParseIP :: "iptext \<Rightarrow> string \<Rightarrow> addr option" where
  "ParseIP T s = (case ParseAddr T s of
       None \<Rightarrow> None
     | Some a \<Rightarrow> if a = NoAddr \<or> Zone a \<noteq> [] then None else Some (Unmap a))"

text \<open>
  A text form for closed examples: a mark for the family, then the address as a bit string,
  then the zone. It is injective, which is all that \<open>iptext_ok\<close> asks of the real one.
\<close>

fun bits_of :: "bool list \<Rightarrow> string" where
  "bits_of [] = []"
| "bits_of (b # bs) = (if b then CHR ''1'' else CHR ''0'') # bits_of bs"

definition of_bits :: "string \<Rightarrow> 'a::len word" where
  "of_bits s = horner_sum of_bool 2 (map (\<lambda>c. c = CHR ''1'') s)"

fun demo_print :: "addr \<Rightarrow> string" where
  "demo_print NoAddr = []"
| "demo_print (Addr4 a) = CHR ''4'' # bits_of (map (bit a) [0..<32])"
| "demo_print (Addr6 a z) = CHR ''6'' # bits_of (map (bit a) [0..<128]) @ z"

fun demo_parse :: "string \<Rightarrow> addr option" where
  "demo_parse [] = None"
| "demo_parse (c # s) =
     (if c = CHR ''4'' then Some (Addr4 (of_bits (take 32 s)))
      else if c = CHR ''6'' then Some (Addr6 (of_bits (take 128 s)) (drop 128 s)) else None)"

definition demo_iptext :: iptext where
  "demo_iptext = \<lparr>ParseAddr = demo_parse, AddrString = demo_print\<rparr>"

section \<open>Lemmas\<close>

lemma Zone_WithoutZone [simp]: "Zone (WithoutZone a) = []"
  by (cases a) auto

lemma Zone_Unmap_Addr4 [simp]: "Unmap (Addr4 x) = Addr4 x" and Unmap_NoAddr [simp]: "Unmap NoAddr = NoAddr"
  by simp_all

lemma Unmap_idem [simp]: "Unmap (Unmap a) = Unmap a"
  by (cases a) auto

lemma Unmap_WithoutZone_idem [simp]:
  "WithoutZone (Unmap (WithoutZone (Unmap a))) = WithoutZone (Unmap a)"
  by (cases a) auto

lemma same_top_refl [simp]: "same_top n a a"
  by (simp add: same_top_def)

lemma same_top_trans: "same_top n a b \<Longrightarrow> same_top n b c \<Longrightarrow> same_top n a c"
  by (simp add: same_top_def)

lemma same_top_mono:
  fixes a b :: "'a::len word"
  assumes "m \<le> n" "same_top n a b" shows "same_top m a b"
proof -
  let ?i = "LENGTH('a) - n" and ?j = "LENGTH('a) - m"
  have "?j = (?j - ?i) + ?i" using assms(1) by arith
  then have "drop_bit ?j c = drop_bit (?j - ?i) (drop_bit ?i c)" for c :: "'a word"
    unfolding drop_bit_drop_bit by (rule arg_cong [where f = "\<lambda>k. drop_bit k c"])
  with assms(2) show ?thesis by (simp only: same_top_def)
qed

lemma same_top_mask [simp]:
  fixes a b :: "'a::len word"
  assumes "n \<le> LENGTH('a)"
  shows "same_top n (mask_top n a) b = same_top n a b"
proof -
  have "drop_bit k (push_bit k (drop_bit k a)) = drop_bit k a" for k
    by (rule bit_word_eqI) (auto simp: bit_simps dest: bit_imp_le_length)
  then show ?thesis by (simp add: same_top_def mask_top_def)
qed

lemma bits_of_inverse: "map (\<lambda>c. c = CHR ''1'') (bits_of bs) = bs"
  by (induction bs) auto

lemma length_bits_of [simp]: "length (bits_of bs) = length bs"
  by (induction bs) auto

lemma of_bits_bits: "of_bits (bits_of (map (bit (a::'a::len word)) [0..<LENGTH('a)])) = a"
  unfolding of_bits_def bits_of_inverse
  by (rule bit_word_eqI) (simp add: bit_horner_sum_bit_word_iff)

lemma demo_iptext_ok [simp]: "iptext_ok demo_iptext"
proof -
  have "a \<noteq> NoAddr \<Longrightarrow> demo_print a \<noteq> [] \<and> demo_parse (demo_print a) = Some a" for a
  proof (cases a)
    case (Addr4 x)
    then show ?thesis using of_bits_bits [of x] by simp
  next
    case (Addr6 x z)
    then show ?thesis using of_bits_bits [of x] by simp
  qed simp
  then show ?thesis by (simp add: iptext_ok_def demo_iptext_def)
qed

lemma ParseIP_AddrString:
  assumes "iptext_ok T" "a \<noteq> NoAddr" "Zone a = []"
  shows "ParseIP T (AddrString T a) = Some (Unmap a)"
  using assms by (simp add: iptext_ok_def ParseIP_def)

end
