(* ===== verification/Dns_Msg.thy ===== *)
theory Dns_Msg
  imports Net_Addr
begin

text \<open>
  DNS messages as the sources see them through github.com/miekg/dns. That package is not part
  of the repository: its structs are records here (only the fields the sources touch; any other
  resource data is the opaque \<open>ROther\<close>), and its functions are the parameter record \<open>dnslib\<close>,
  an argument of every definition that calls one of them. What the sources rely on is stated
  as predicates over that record: \<open>names_ok\<close>, \<open>edns_ok\<close>, \<open>reply_ok\<close>, \<open>size_ok\<close> and \<open>label_ok\<close>. The
  instance \<open>demo_dns\<close> satisfies all of them. \<open>Copy\<close> is the identity: records are values.
\<close>

subsection \<open>Messages\<close>

record question =
  q_Name :: string
  q_Qtype :: u16
  q_Qclass :: u16

datatype edns_option = EDNS0_PADDING nat | OtherOption u16 string

datatype rdata = RA addr | RAAAA addr | RCNAME string | ROPT "edns_option list" | ROther string

record rr =
  h_Name :: string
  h_Rrtype :: u16
  h_Class :: u16
  h_Ttl :: u32
  rr_data :: rdata

record msg =
  m_Id :: u16
  m_Response :: bool
  m_Opcode :: int
  m_Authoritative :: bool
  m_Truncated :: bool
  m_RecursionDesired :: bool
  m_RecursionAvailable :: bool
  m_AuthenticatedData :: bool
  m_CheckingDisabled :: bool
  m_Rcode :: int
  m_Question :: "question list"
  m_Answer :: "rr list"
  m_Ns :: "rr list"
  m_Extra :: "rr list"

text \<open>The zero value, \<open>new(dns.Msg)\<close>.\<close>

definition zero_msg :: msg where
  "zero_msg = \<lparr>m_Id = 0, m_Response = False, m_Opcode = 0, m_Authoritative = False, m_Truncated = False,
     m_RecursionDesired = False, m_RecursionAvailable = False, m_AuthenticatedData = False,
     m_CheckingDisabled = False, m_Rcode = 0, m_Question = [], m_Answer = [], m_Ns = [], m_Extra = []\<rparr>"

subsection \<open>Assigned numbers\<close>

definition TypeA :: u16 where "TypeA = 1"
definition TypeCNAME :: u16 where "TypeCNAME = 5"
definition TypePTR :: u16 where "TypePTR = 12"
definition TypeAAAA :: u16 where "TypeAAAA = 28"
definition TypeOPT :: u16 where "TypeOPT = 41"
definition TypeNS :: u16 where "TypeNS = 2"
definition TypeSOA :: u16 where "TypeSOA = 6"
definition TypeDS :: u16 where "TypeDS = 43"
definition TypeRRSIG :: u16 where "TypeRRSIG = 46"
definition TypeNSEC :: u16 where "TypeNSEC = 47"
definition TypeDNSKEY :: u16 where "TypeDNSKEY = 48"
definition TypeNSEC3 :: u16 where "TypeNSEC3 = 50"
definition TypeNSEC3PARAM :: u16 where "TypeNSEC3PARAM = 51"
definition TypeCDS :: u16 where "TypeCDS = 59"
definition TypeCDNSKEY :: u16 where "TypeCDNSKEY = 60"
definition ClassINET :: u16 where "ClassINET = 1"
definition OpcodeQuery :: int where "OpcodeQuery = 0"
definition RcodeSuccess :: int where "RcodeSuccess = 0"
definition RcodeServerFailure :: int where "RcodeServerFailure = 2"
definition RcodeNameError :: int where "RcodeNameError = 3"
definition RcodeNotImplemented :: int where "RcodeNotImplemented = 4"
definition RcodeRefused :: int where "RcodeRefused = 5"
definition MinMsgSize :: nat where "MinMsgSize = 512"
definition MaxMsgSize :: nat where "MaxMsgSize = 65535"

lemmas dns_numbers = TypeA_def TypeCNAME_def TypePTR_def TypeAAAA_def TypeOPT_def TypeNS_def TypeSOA_def TypeDS_def
  TypeRRSIG_def TypeNSEC_def TypeDNSKEY_def TypeNSEC3_def TypeNSEC3PARAM_def TypeCDS_def TypeCDNSKEY_def
  ClassINET_def OpcodeQuery_def RcodeSuccess_def RcodeServerFailure_def RcodeNameError_def
  RcodeNotImplemented_def RcodeRefused_def MinMsgSize_def MaxMsgSize_def

subsection \<open>The functions of miekg/dns, a parameter\<close>

record dnslib =
  IsEdns0_at :: "msg \<Rightarrow> nat option"         \<comment> \<open>\<open>IsEdns0\<close>: the index in \<open>Extra\<close> of the record it returns\<close>
  SetEdns0 :: "msg \<Rightarrow> u16 \<Rightarrow> bool \<Rightarrow> msg"
  opt_Do :: "rr \<Rightarrow> bool"
  opt_UDPSize :: "rr \<Rightarrow> u16"
  SetReply :: "msg \<Rightarrow> msg \<Rightarrow> msg"
  SetRcode :: "msg \<Rightarrow> msg \<Rightarrow> int \<Rightarrow> msg"
  TruncateTo :: "msg \<Rightarrow> nat \<Rightarrow> msg"
  MsgLen :: "msg \<Rightarrow> nat"
  Pack :: "msg \<Rightarrow> string option"
  Unpack :: "string \<Rightarrow> msg option"
  TypeString :: "u16 \<Rightarrow> string"
  ClassString :: "u16 \<Rightarrow> string"
  NextLabel :: "string \<Rightarrow> nat \<Rightarrow> nat \<times> bool"
  Fqdn :: "string \<Rightarrow> string"
  CountLabel :: "string \<Rightarrow> nat"

definition IsEdns0 :: "dnslib \<Rightarrow> msg \<Rightarrow> rr option" where
  "IsEdns0 L m = map_option (\<lambda>i. m_Extra m ! i) (IsEdns0_at L m)"

definition is_opt :: "rr \<Rightarrow> bool" where
  "is_opt r = (h_Rrtype r = TypeOPT)"

fun options_of :: "rdata \<Rightarrow> edns_option list" where
  "options_of (ROPT os) = os"
| "options_of _ = []"

text \<open>The DO bit of a query: that of its OPT record, false without one.\<close>

definition do_bit :: "dnslib \<Rightarrow> msg \<Rightarrow> bool" where
  "do_bit L m = (case IsEdns0 L m of None \<Rightarrow> False | Some r \<Rightarrow> opt_Do L r)"

subsubsection \<open>What the sources rely on\<close>

text \<open>The \<open>String\<close> methods: a distinct mnemonic per code, with no NUL byte in it.\<close>

definition names_ok :: "dnslib \<Rightarrow> bool" where
  "names_ok L = (inj (TypeString L) \<and> inj (ClassString L)
     \<and> (\<forall>t. CHR 0x00 \<notin> set (TypeString L t)) \<and> (\<forall>c. CHR 0x00 \<notin> set (ClassString L c)))"

text \<open>\<open>IsEdns0\<close> returns an OPT record of the Extra section if there is one; \<open>SetEdns0\<close> appends an
  OPT record that has the given size and DO bit and no options; the bits are read back, and
  changing the options does not change them.\<close>

definition edns_ok :: "dnslib \<Rightarrow> bool" where
  "edns_ok L =
     ((\<forall>m. case IsEdns0_at L m of
            None \<Rightarrow> list_all (\<lambda>r. \<not> is_opt r) (m_Extra m)
          | Some i \<Rightarrow> i < length (m_Extra m) \<and> is_opt (m_Extra m ! i)) \<and>
      (\<forall>m sz b. \<exists>r. SetEdns0 L m sz b = m\<lparr>m_Extra := m_Extra m @ [r]\<rparr>
          \<and> is_opt r \<and> rr_data r = ROPT [] \<and> opt_Do L r = b \<and> opt_UDPSize L r = sz) \<and>
      (\<forall>r d. opt_Do L (r\<lparr>rr_data := d\<rparr>) = opt_Do L r \<and> opt_UDPSize L (r\<lparr>rr_data := d\<rparr>) = opt_UDPSize L r))"

text \<open>\<open>SetReply\<close> and \<open>SetRcode\<close> make a message the reply to a request and leave its record sections.\<close>

definition reply_ok :: "dnslib \<Rightarrow> bool" where
  "reply_ok L =
     (\<forall>m q c. m_Id (SetReply L m q) = m_Id q \<and> m_Response (SetReply L m q) \<and> m_Rcode (SetReply L m q) = RcodeSuccess
        \<and> (m_Question q \<noteq> [] \<longrightarrow> m_Question (SetReply L m q) = [hd (m_Question q)])
        \<and> m_Answer (SetReply L m q) = m_Answer m \<and> m_Ns (SetReply L m q) = m_Ns m \<and> m_Extra (SetReply L m q) = m_Extra m
        \<and> m_Authoritative (SetReply L m q) = m_Authoritative m \<and> m_Truncated (SetReply L m q) = m_Truncated m
        \<and> SetRcode L m q c = (SetReply L m q)\<lparr>m_Rcode := c\<rparr>)"

text \<open>A padding option of \<open>n\<close> bytes makes a message \<open>n\<close> bytes longer than an empty one; \<open>Truncate\<close>
  gives a message that fits the size (at least 512), keeps the header and the question, drops records only from
  the end of the sections' record lists, keeps the one OPT record, and sets TC if it drops any.\<close>

definition size_ok :: "dnslib \<Rightarrow> bool" where
  "size_ok L =
     ((\<forall>m i os n. i < length (m_Extra m) \<and> is_opt (m_Extra m ! i) \<longrightarrow>
         MsgLen L (m\<lparr>m_Extra := (m_Extra m)[i := (m_Extra m ! i)\<lparr>rr_data := ROPT (os @ [EDNS0_PADDING n])\<rparr>]\<rparr>)
         = MsgLen L (m\<lparr>m_Extra := (m_Extra m)[i := (m_Extra m ! i)\<lparr>rr_data := ROPT (os @ [EDNS0_PADDING 0])\<rparr>]\<rparr>) + n) \<and>
      (\<forall>m n. 512 \<le> n \<longrightarrow>
         m_Id (TruncateTo L m n) = m_Id m \<and> m_Rcode (TruncateTo L m n) = m_Rcode m
         \<and> m_Question (TruncateTo L m n) = m_Question m
         \<and> prefix (m_Answer (TruncateTo L m n)) (m_Answer m)
         \<and> (m_Answer (TruncateTo L m n) \<noteq> m_Answer m \<longrightarrow> m_Truncated (TruncateTo L m n))
         \<and> (length (filter is_opt (m_Extra m)) \<le> 1 \<longrightarrow> filter is_opt (m_Extra (TruncateTo L m n)) = filter is_opt (m_Extra m))
         \<and> (MsgLen L m \<le> n \<longrightarrow> m_Answer (TruncateTo L m n) = m_Answer m)))"

text \<open>\<open>NextLabel(s, off)\<close>: the offset of the next label, and whether the end of the name was hit.
  For a fully qualified name in presentation form with no escaped dot, labels end at dots.\<close>

fun next_label :: "string \<Rightarrow> nat \<Rightarrow> nat \<times> bool" where
  "next_label s off = (case IndexByte (drop off s) (CHR ''.'') of
       None \<Rightarrow> (length s, True)
     | Some i \<Rightarrow> (off + i + 1, length s \<le> off + i + 1))"

text \<open>\<open>CountLabel\<close>: the number of labels of a fully qualified name, none for the root.\<close>

definition count_label :: "string \<Rightarrow> nat" where
  "count_label s = (if s = ''.'' then 0 else count_list s (CHR ''.''))"

definition label_ok :: "dnslib \<Rightarrow> bool" where
  "label_ok L =
     ((\<forall>s off. CHR 0x5C \<notin> set s \<longrightarrow> off < length s \<longrightarrow> NextLabel L s off = next_label s off) \<and>
      (\<forall>s. CHR 0x5C \<notin> set s \<longrightarrow> HasSuffix s ''.'' \<longrightarrow> CountLabel L s = count_label s))"

subsection \<open>A concrete instance\<close>

lemma digit_not_NUL: "list_all is_digit s \<Longrightarrow> CHR 0x00 \<notin> set s"
  by (auto simp: list_all_iff is_digit_def byte_of_def)

text \<open>The TTL field of an OPT record holds the DO flag in bit 15, its class is the UDP size.\<close>

definition opt_rr :: "u16 \<Rightarrow> bool \<Rightarrow> rr" where
  "opt_rr sz b = \<lparr>h_Name = ''.'', h_Rrtype = TypeOPT, h_Class = sz, h_Ttl = (if b then 0x8000 else 0), rr_data = ROPT []\<rparr>"

definition last_opt :: "rr list \<Rightarrow> nat option" where
  "last_opt rs = find (\<lambda>i. is_opt (rs ! i)) (rev [0..<length rs])"

definition rr_len :: "rr \<Rightarrow> nat" where
  "rr_len r = 11 + sum_list (map (\<lambda>q. case q of EDNS0_PADDING n \<Rightarrow> 4 + n | OtherOption c s \<Rightarrow> 4 + length s)
     (options_of (rr_data r)))"

definition msg_len :: "msg \<Rightarrow> nat" where
  "msg_len m = 12 + sum_list (map (\<lambda>q. length (q_Name q) + 5) (m_Question m))
     + sum_list (map rr_len (m_Answer m @ m_Ns m @ m_Extra m))"

definition set_reply :: "msg \<Rightarrow> msg \<Rightarrow> msg" where
  "set_reply m q = m\<lparr>m_Id := m_Id q, m_Response := True, m_Opcode := m_Opcode q,
     m_RecursionDesired := m_RecursionDesired q, m_CheckingDisabled := m_CheckingDisabled q,
     m_Rcode := RcodeSuccess, m_Question := (if m_Question q = [] then m_Question m else [hd (m_Question q)])\<rparr>"

definition demo_dns :: dnslib where
  "demo_dns = \<lparr>IsEdns0_at = (\<lambda>m. last_opt (m_Extra m)),
     SetEdns0 = (\<lambda>m sz b. m\<lparr>m_Extra := m_Extra m @ [opt_rr sz b]\<rparr>),
     opt_Do = (\<lambda>r. h_Ttl r = 0x8000), opt_UDPSize = h_Class,
     SetReply = set_reply, SetRcode = (\<lambda>m q c. (set_reply m q)\<lparr>m_Rcode := c\<rparr>),
     TruncateTo = (\<lambda>m n. if msg_len m \<le> n then m else m\<lparr>m_Answer := [], m_Truncated := True\<rparr>),
     MsgLen = msg_len, Pack = (\<lambda>m. Some (itoa_nat (msg_len m))), Unpack = (\<lambda>s. None),
     TypeString = (\<lambda>t. itoa_nat (unat t)), ClassString = (\<lambda>t. itoa_nat (unat t)),
     NextLabel = next_label, Fqdn = (\<lambda>s. if HasSuffix s ''.'' then s else s @ ''.''), CountLabel = count_label\<rparr>"

lemma demo_dns_simps [simp]:
  "IsEdns0_at demo_dns m = last_opt (m_Extra m)" "SetEdns0 demo_dns m sz b = m\<lparr>m_Extra := m_Extra m @ [opt_rr sz b]\<rparr>"
  "opt_Do demo_dns r = (h_Ttl r = 0x8000)" "opt_UDPSize demo_dns r = h_Class r"
  "SetReply demo_dns = set_reply" "MsgLen demo_dns = msg_len" "NextLabel demo_dns = next_label" "CountLabel demo_dns = count_label"
  "TypeString demo_dns t = itoa_nat (unat t)" "ClassString demo_dns t = itoa_nat (unat t)"
  by (simp_all add: demo_dns_def)

lemma demo_names_ok: "names_ok demo_dns"
  using digit_not_NUL [OF conjunct1 [OF itoa_nat_digits]]
  by (simp add: names_ok_def inj_on_def itoa_nat_inject word_unat_eq_iff)

lemma last_opt_spec:
  "case last_opt rs of None \<Rightarrow> list_all (\<lambda>r. \<not> is_opt r) rs | Some i \<Rightarrow> i < length rs \<and> is_opt (rs ! i)"
  by (auto simp: last_opt_def find_None_iff find_Some_iff list_all_iff in_set_conv_nth rev_nth split: option.splits)

lemma demo_edns_ok: "edns_ok demo_dns"
  using last_opt_spec by (auto simp: edns_ok_def opt_rr_def is_opt_def)

lemma demo_reply_ok: "reply_ok demo_dns"
  by (simp add: reply_ok_def demo_dns_def set_reply_def)

lemma demo_size_ok: "size_ok demo_dns"
proof -
  have "MsgLen demo_dns (m\<lparr>m_Extra := (m_Extra m)[i := (m_Extra m ! i)\<lparr>rr_data := ROPT (os @ [EDNS0_PADDING n])\<rparr>]\<rparr>)
     = MsgLen demo_dns (m\<lparr>m_Extra := (m_Extra m)[i := (m_Extra m ! i)\<lparr>rr_data := ROPT (os @ [EDNS0_PADDING 0])\<rparr>]\<rparr>) + n"
    if "i < length (m_Extra m)" for m i os n
    using that by (simp add: msg_len_def rr_len_def upd_conv_take_nth_drop)
  moreover have "m_Id (TruncateTo demo_dns m n) = m_Id m \<and> m_Rcode (TruncateTo demo_dns m n) = m_Rcode m
         \<and> m_Question (TruncateTo demo_dns m n) = m_Question m
         \<and> prefix (m_Answer (TruncateTo demo_dns m n)) (m_Answer m)
         \<and> (m_Answer (TruncateTo demo_dns m n) \<noteq> m_Answer m \<longrightarrow> m_Truncated (TruncateTo demo_dns m n))
         \<and> (length (filter is_opt (m_Extra m)) \<le> 1 \<longrightarrow> filter is_opt (m_Extra (TruncateTo demo_dns m n)) = filter is_opt (m_Extra m))
         \<and> (MsgLen demo_dns m \<le> n \<longrightarrow> m_Answer (TruncateTo demo_dns m n) = m_Answer m)" for m n
    by (simp add: demo_dns_def)
  ultimately show ?thesis unfolding size_ok_def by blast
qed

lemma demo_label_ok: "label_ok demo_dns"
  by (simp add: label_ok_def)

subsection \<open>Consequences for the clients\<close>

lemma edns_at:
  assumes "edns_ok L"
  shows "case IsEdns0_at L m of
            None \<Rightarrow> list_all (\<lambda>r. \<not> is_opt r) (m_Extra m)
          | Some i \<Rightarrow> i < length (m_Extra m) \<and> is_opt (m_Extra m ! i)"
  using assms unfolding edns_ok_def by blast

lemma IsEdns0_None: "edns_ok L \<Longrightarrow> IsEdns0 L m = None \<longleftrightarrow> list_all (\<lambda>r. \<not> is_opt r) (m_Extra m)"
  using edns_at [of L m] by (auto simp: IsEdns0_def list_all_iff split: option.splits)

lemma IsEdns0_Some: "edns_ok L \<Longrightarrow> IsEdns0 L m = Some r \<Longrightarrow> r \<in> set (m_Extra m) \<and> is_opt r"
  using edns_at [of L m] by (auto simp: IsEdns0_def)

lemma SetEdns0_obtain:
  assumes "edns_ok L"
  obtains r where "SetEdns0 L m sz b = m\<lparr>m_Extra := m_Extra m @ [r]\<rparr>" "is_opt r" "rr_data r = ROPT []"
    "opt_Do L r = b" "opt_UDPSize L r = sz"
  using assms unfolding edns_ok_def by blast

end
