(* ===== verification/Response_Cache.thy ===== *)
theory Response_Cache
  imports Dns_Msg "HOL-Library.AList"
begin

text \<open>
  The response cache, \<open>src/internal/cache/cache.go\<close>. Go's map of entries is an association list
  with distinct keys; the order in which \<open>range\<close> visits it is an argument of the operations that
  range over it (\<open>visit\<close>), since Go leaves it open. Each reading of the clock is an argument.
  The counters are natural numbers: 64-bit counters of single steps do not wrap in practice.
  An operation under the mutex is one step.

  The locale \<open>reply_store\<close> states what a user of the cache may rely on and is interpreted
  on the operations below; the properties then speak about whole runs of the cache.
\<close>

section \<open>Model\<close>

record entry =
  e_msg :: msg
  e_cached :: time
  e_minTTL :: u32

record Cache =
  c_entries :: "(string \<times> entry) list"
  c_maxSize :: int
  c_stopped :: bool
  c_hits :: nat
  c_misses :: nat
  c_dropped :: nat

definition maxTTL :: u32 where "maxTTL = 86400"

definition reclaimScanLimit :: nat where "reclaimScanLimit = 8"

definition cache_New :: "int \<Rightarrow> Cache" where
  "cache_New n = \<lparr>c_entries = [], c_maxSize = n, c_stopped = False, c_hits = 0, c_misses = 0, c_dropped = 0\<rparr>"

text \<open>Closing a closed channel panics: \<open>None\<close>.\<close>

definition cache_Close :: "Cache \<Rightarrow> Cache option" where
  "cache_Close c = (if c_stopped c then None else Some (c\<lparr>c_stopped := True\<rparr>))"

definition isExpired :: "entry \<Rightarrow> time \<Rightarrow> bool" where
  "isExpired e now = (uint (e_minTTL e) * second \<le> time_Sub now (e_cached e))"

subsection \<open>The key\<close>

definition keyBits :: "nat \<Rightarrow> string" where
  "keyBits i = [CHR 0x00 # ''--'', CHR 0x00 # ''c-'', CHR 0x00 # ''-d'', CHR 0x00 # ''cd''] ! i"

definition cache_key :: "dnslib \<Rightarrow> question \<Rightarrow> bool \<Rightarrow> bool \<Rightarrow> string" where
  "cache_key L q cd do =
     q_Name q @ [CHR 0x00] @ TypeString L (q_Qtype q) @ [CHR 0x00] @ ClassString L (q_Qclass q)
     @ keyBits ((if cd then 1 else 0) + (if do then 2 else 0))"

definition keyOf :: "dnslib \<Rightarrow> msg \<Rightarrow> string option" where
  "keyOf L req =
     (if length (m_Question req) \<noteq> 1 then None
      else Some (cache_key L (m_Question req ! 0) (m_CheckingDisabled req) (do_bit L req)))"

subsection \<open>TTLs\<close>

definition decrement_rr :: "u32 \<Rightarrow> rr \<Rightarrow> rr" where
  "decrement_rr elapsed r =
     (if h_Rrtype r = TypeOPT then r
      else r\<lparr>h_Ttl := (if elapsed < h_Ttl r then h_Ttl r - elapsed else 0)\<rparr>)"

definition decrementTTLs :: "msg \<Rightarrow> u32 \<Rightarrow> msg" where
  "decrementTTLs m elapsed =
     m\<lparr>m_Answer := map (decrement_rr elapsed) (m_Answer m), m_Ns := map (decrement_rr elapsed) (m_Ns m),
       m_Extra := map (decrement_rr elapsed) (m_Extra m)\<rparr>"

definition cap_rr :: "u32 \<Rightarrow> rr \<Rightarrow> rr" where
  "cap_rr limit r = (if h_Rrtype r \<noteq> TypeOPT \<and> limit < h_Ttl r then r\<lparr>h_Ttl := limit\<rparr> else r)"

definition capTTLs :: "msg \<Rightarrow> u32 \<Rightarrow> msg" where
  "capTTLs m limit =
     m\<lparr>m_Answer := map (cap_rr limit) (m_Answer m), m_Ns := map (cap_rr limit) (m_Ns m),
       m_Extra := map (cap_rr limit) (m_Extra m)\<rparr>"

definition minAnswerTTL :: "msg \<Rightarrow> u32" where
  "minAnswerTTL m =
     (let smallest = fold (\<lambda>r s. if h_Ttl r < s then h_Ttl r else s) (m_Answer m) (- 1)
      in if smallest = - 1 then 0 else smallest)"

subsection \<open>Get, Set, Flush and the sweep\<close>

text \<open>\<open>uint32(time.Since(t).Seconds())\<close>: whole seconds. The float is exact enough below \<open>2 ^ 22\<close>
  seconds, and an entry that is served is younger than its TTL.\<close>

definition elapsed_secs :: "duration \<Rightarrow> u32" where
  "elapsed_secs d = word_of_int (go_div d second)"

definition cache_Get :: "dnslib \<Rightarrow> Cache \<Rightarrow> msg \<Rightarrow> time \<Rightarrow> time \<Rightarrow> Cache \<times> msg option" where
  "cache_Get L c req now now' =
     (case keyOf L req of
        None \<Rightarrow> (c\<lparr>c_misses := c_misses c + 1\<rparr>, None)
      | Some k \<Rightarrow>
          (case map_of (c_entries c) k of
             None \<Rightarrow> (c\<lparr>c_misses := c_misses c + 1\<rparr>, None)
           | Some e \<Rightarrow>
               if isExpired e now then (c\<lparr>c_misses := c_misses c + 1\<rparr>, None)
               else (c\<lparr>c_hits := c_hits c + 1\<rparr>,
                     Some (decrementTTLs (e_msg e) (elapsed_secs (time_Sub now' (e_cached e)))))))"

fun reclaim_loop :: "(string \<times> entry) list \<Rightarrow> time \<Rightarrow> nat \<Rightarrow> string list \<Rightarrow> (string \<times> entry) list" where
  "reclaim_loop es now scanned [] = es"
| "reclaim_loop es now scanned (k # ks) =
     (case map_of es k of
        None \<Rightarrow> reclaim_loop es now scanned ks
      | Some e \<Rightarrow>
          if isExpired e now then AList.delete k es
          else if reclaimScanLimit \<le> scanned + 1 then es
          else reclaim_loop es now (scanned + 1) ks)"

definition reclaimOneExpired :: "Cache \<Rightarrow> time \<Rightarrow> string list \<Rightarrow> Cache" where
  "reclaimOneExpired c now visit = c\<lparr>c_entries := reclaim_loop (c_entries c) now 0 visit\<rparr>"

text \<open>The section of \<open>Set\<close> under the lock.\<close>

definition insert_entry :: "Cache \<Rightarrow> string \<Rightarrow> entry \<Rightarrow> string list \<Rightarrow> Cache" where
  "insert_entry c k e visit =
     (let c1 = (if c_maxSize c \<le> int (length (c_entries c)) then reclaimOneExpired c (e_cached e) visit else c)
      in if int (length (c_entries c1)) < c_maxSize c1
         then c1\<lparr>c_entries := AList.update k e (c_entries c1)\<rparr>
         else c1\<lparr>c_dropped := c_dropped c1 + 1\<rparr>)"

definition cacheable :: "msg \<Rightarrow> bool" where
  "cacheable m = (\<not> (m_Rcode m \<noteq> RcodeSuccess \<or> m_Truncated m \<or> length (m_Answer m) = 0) \<and> minAnswerTTL m \<noteq> 0)"

definition new_entry :: "msg \<Rightarrow> time \<Rightarrow> entry" where
  "new_entry m now = (let stored = capTTLs m maxTTL in
     \<lparr>e_msg = stored, e_cached = now, e_minTTL = minAnswerTTL stored\<rparr>)"

definition cache_Set :: "dnslib \<Rightarrow> Cache \<Rightarrow> msg \<Rightarrow> msg \<Rightarrow> time \<Rightarrow> string list \<Rightarrow> Cache" where
  "cache_Set L c req m now visit =
     (if \<not> cacheable m then c
      else (case keyOf L req of
          None \<Rightarrow> c
        | Some k \<Rightarrow> insert_entry c k (new_entry m now) visit))"

definition cache_Flush :: "Cache \<Rightarrow> Cache" where
  "cache_Flush c = c\<lparr>c_entries := []\<rparr>"

definition cache_Stats :: "Cache \<Rightarrow> nat \<times> nat \<times> nat" where
  "cache_Stats c = (c_hits c, c_misses c, length (c_entries c))"

definition cleanupExpired :: "Cache \<Rightarrow> time \<Rightarrow> Cache \<times> nat" where
  "cleanupExpired c now =
     (let keep = filter (\<lambda>ke. \<not> isExpired (snd ke) now) (c_entries c)
      in (c\<lparr>c_entries := keep\<rparr>, length (c_entries c) - length keep))"

text \<open>The cleanup goroutine: it sweeps at each tick until the stop channel is closed.\<close>

datatype cleanup_event = Tick time | StopRecv

fun runCleanup :: "Cache \<Rightarrow> cleanup_event list \<Rightarrow> Cache" where
  "runCleanup c [] = c"
| "runCleanup c (Tick now # evs) = runCleanup (fst (cleanupExpired c now)) evs"
| "runCleanup c (StopRecv # evs) = c"

section \<open>The interface\<close>

text \<open>
  \<open>look\<close> finds a live value, \<open>put\<close> may insert one, \<open>wipe\<close> empties the store and \<open>sweep\<close> removes dead
  values. A run of such operations never yields a value that was not put after the last wipe
  under the key that is looked up, and never a dead one. \<open>Peek\<close> is a step that stores nothing.
\<close>

datatype ('k, 'e) store_op = Put 'k 'e "string list" | Wipe | Sweep time | Peek

locale reply_store =
  fixes look :: "'c \<Rightarrow> 'k \<Rightarrow> time \<Rightarrow> 'e option"
    and put :: "'c \<Rightarrow> 'k \<Rightarrow> 'e \<Rightarrow> string list \<Rightarrow> 'c"
    and wipe :: "'c \<Rightarrow> 'c"
    and sweep :: "'c \<Rightarrow> time \<Rightarrow> 'c"
    and dead :: "'e \<Rightarrow> time \<Rightarrow> bool"
    and ok :: "'c \<Rightarrow> bool"
  assumes ok_put: "ok c \<Longrightarrow> ok (put c k e visit)"
    and ok_wipe: "ok c \<Longrightarrow> ok (wipe c)"
    and ok_sweep: "ok c \<Longrightarrow> ok (sweep c now)"
    and look_put: "ok c \<Longrightarrow> look (put c k e visit) k' t = Some x \<Longrightarrow> look c k' t = Some x \<or> (k' = k \<and> x = e)"
    and look_wipe: "look (wipe c) k t = None"
    and look_sweep: "ok c \<Longrightarrow> look (sweep c now) k t = Some x \<Longrightarrow> look c k t = Some x"
    and sweep_live: "ok c \<Longrightarrow> now \<le> t \<Longrightarrow> look c k t = Some x \<Longrightarrow> look (sweep c now) k t = Some x"
    and look_dead: "look c k t = Some x \<Longrightarrow> \<not> dead x t"
begin

fun apply_op :: "('k, 'e) store_op \<Rightarrow> 'c \<Rightarrow> 'c" where
  "apply_op (Put k e visit) c = put c k e visit"
| "apply_op Wipe c = wipe c"
| "apply_op (Sweep now) c = sweep c now"
| "apply_op Peek c = c"

lemma run_ok: "ok c \<Longrightarrow> ok (fold apply_op ops c)"
proof (induction ops arbitrary: c)
  case (Cons op ops)
  then show ?case by (cases op) (simp_all add: ok_put ok_wipe ok_sweep)
qed simp

lemma run_look:
  "ok c \<Longrightarrow> look (fold apply_op ops c) k t = Some x \<Longrightarrow>
     \<not> dead x t \<and> ((\<exists>pre visit post. ops = pre @ Put k x visit # post \<and> Wipe \<notin> set post)
                    \<or> (look c k t = Some x \<and> Wipe \<notin> set ops))"
proof (induction ops rule: rev_induct)
  case Nil
  then show ?case by (simp add: look_dead)
next
  case (snoc op ops)
  let ?c = "fold apply_op ops c"
  have d: "\<not> dead x t" using snoc.prems(2) by (rule look_dead)
  have ok: "ok ?c" using snoc.prems(1) by (rule run_ok)
  show ?case
  proof (cases "look ?c k t = Some x \<and> op \<noteq> Wipe")
    case True
    then have "(\<exists>pre visit post. ops = pre @ Put k x visit # post \<and> Wipe \<notin> set post)
       \<or> (look c k t = Some x \<and> Wipe \<notin> set ops)" using snoc.IH snoc.prems(1) by blast
    then show ?thesis
    proof
      assume "\<exists>pre visit post. ops = pre @ Put k x visit # post \<and> Wipe \<notin> set post"
      then obtain pre visit post where "ops @ [op] = pre @ Put k x visit # (post @ [op])"
        "Wipe \<notin> set (post @ [op])" using True by auto
      then show ?thesis using d by blast
    next
      assume "look c k t = Some x \<and> Wipe \<notin> set ops"
      then show ?thesis using d True by auto
    qed
  next
    case False
    then obtain visit where "op = Put k x visit"
      using snoc.prems(2) by (cases op) (auto simp: look_wipe dest: look_put [OF ok] look_sweep [OF ok])
    then have "ops @ [op] = ops @ Put k x visit # []" by simp
    then show ?thesis using d by (metis empty_iff list.set(1))
  qed
qed

lemma sweep_look_iff: "ok c \<Longrightarrow> now \<le> t \<Longrightarrow> look (sweep c now) k t = look c k t"
  by (metis look_sweep sweep_live not_None_eq)

end

section \<open>Lemmas\<close>

definition cache_inv :: "Cache \<Rightarrow> bool" where
  "cache_inv c = (distinct (map fst (c_entries c)) \<and> int (length (c_entries c)) \<le> max 0 (c_maxSize c))"

definition live_entry :: "Cache \<Rightarrow> string \<Rightarrow> time \<Rightarrow> entry option" where
  "live_entry c k t = (case map_of (c_entries c) k of
      None \<Rightarrow> None | Some e \<Rightarrow> if isExpired e t then None else Some e)"

lemma cache_Get_eq:
  "cache_Get L c req now now' =
     (case Option.bind (keyOf L req) (\<lambda>k. live_entry c k now) of
        None \<Rightarrow> (c\<lparr>c_misses := c_misses c + 1\<rparr>, None)
      | Some e \<Rightarrow> (c\<lparr>c_hits := c_hits c + 1\<rparr>,
                   Some (decrementTTLs (e_msg e) (elapsed_secs (time_Sub now' (e_cached e))))))"
  by (auto simp: cache_Get_def live_entry_def split: option.splits)

lemma isExpired_mono: "now \<le> t \<Longrightarrow> isExpired e now \<Longrightarrow> isExpired e t"
  by (auto simp: isExpired_def time_Sub_def)

lemma reclaim_loop_cases: "reclaim_loop es now n ks = es \<or>
   (\<exists>k e. map_of es k = Some e \<and> isExpired e now \<and> reclaim_loop es now n ks = AList.delete k es)"
  by (induction es now n ks rule: reclaim_loop.induct) (auto split: option.splits)

lemma map_of_reclaim: "map_of (reclaim_loop es now n ks) k = Some e \<Longrightarrow> map_of es k = Some e"
  using reclaim_loop_cases [of es now n ks] by (auto simp: AList.delete_conv' split: if_splits)

lemma length_reclaim: "length (reclaim_loop es now n ks) \<le> length es"
  using reclaim_loop_cases [of es now n ks] by (auto simp: AList.length_delete_le)

lemma distinct_reclaim: "distinct (map fst es) \<Longrightarrow> distinct (map fst (reclaim_loop es now n ks))"
  using reclaim_loop_cases [of es now n ks] by (auto simp: distinct_delete)

lemma map_of_filter_snd:
  "distinct (map fst es) \<Longrightarrow> map_of (filter (\<lambda>ke. P (snd ke)) es) k
     = (case map_of es k of Some e \<Rightarrow> if P e then Some e else None | None \<Rightarrow> None)"
  by (induction es) (auto split: option.splits simp: map_of_eq_None_iff)

lemma map_of_insert_entry:
  "map_of (c_entries (insert_entry c k e visit)) k' = Some x \<Longrightarrow>
     map_of (c_entries c) k' = Some x \<or> (k' = k \<and> x = e)"
  by (auto simp: insert_entry_def reclaimOneExpired_def Let_def AList.update_conv'
      dest: map_of_reclaim split: if_splits)

lemma length_update_le: "length (AList.update k e es) \<le> Suc (length es)"
  by (induction es) auto

lemma cache_inv_insert [inv_intros]: "cache_inv c \<Longrightarrow> cache_inv (insert_entry c k e visit)"
  using length_update_le [of k e "c_entries c"] length_reclaim [of "c_entries c" "e_cached e" 0 visit]
    length_update_le [of k e "reclaim_loop (c_entries c) (e_cached e) 0 visit"]
  by (auto simp: cache_inv_def insert_entry_def reclaimOneExpired_def Let_def distinct_update distinct_reclaim)

lemma cache_inv_New [inv_intros]: "cache_inv (cache_New n)"
  by (simp add: cache_inv_def cache_New_def)

lemma cache_inv_Flush [inv_intros]: "cache_inv c \<Longrightarrow> cache_inv (cache_Flush c)"
  by (simp add: cache_inv_def cache_Flush_def)

lemma cache_inv_cleanup [inv_intros]: "cache_inv c \<Longrightarrow> cache_inv (fst (cleanupExpired c now))"
  by (auto simp: cache_inv_def cleanupExpired_def Let_def distinct_map_filter
      intro: order_trans [OF of_nat_mono [OF length_filter_le]])

lemma cache_inv_Get [inv_intros]: "cache_inv c \<Longrightarrow> cache_inv (fst (cache_Get L c req t t'))"
  by (auto simp: cache_inv_def cache_Get_eq split: option.splits)

lemma cache_inv_Set [inv_intros]: "cache_inv c \<Longrightarrow> cache_inv (cache_Set L c req m t visit)"
  by (auto simp: cache_Set_def intro: inv_intros split: option.splits)

lemma live_entry_cleanup:
  "cache_inv c \<Longrightarrow> live_entry (fst (cleanupExpired c now)) k t =
     (case live_entry c k t of Some e \<Rightarrow> if isExpired e now then None else Some e | None \<Rightarrow> None)"
  by (auto simp: live_entry_def cleanupExpired_def Let_def map_of_filter_snd [where P = "\<lambda>e. \<not> isExpired e now"] cache_inv_def
      split: option.splits)

interpretation rc: reply_store live_entry insert_entry cache_Flush "\<lambda>c now. fst (cleanupExpired c now)"
  isExpired cache_inv
proof unfold_locales
  fix c k e visit k' t x
  assume "live_entry (insert_entry c k e visit) k' t = Some x"
  then show "live_entry c k' t = Some x \<or> (k' = k \<and> x = e)"
    by (auto simp: live_entry_def dest!: map_of_insert_entry split: option.splits if_splits)
next
  fix c now k t x
  assume a: "cache_inv c" "now \<le> t" "live_entry c k t = Some x"
  then have "\<not> isExpired x now"
    by (auto simp: live_entry_def dest: isExpired_mono split: option.splits if_splits)
  with a show "live_entry (fst (cleanupExpired c now)) k t = Some x" by (simp add: live_entry_cleanup)
qed (auto intro: inv_intros simp: live_entry_cleanup,
     auto simp: live_entry_def cache_Flush_def split: option.splits if_splits)

subsection \<open>Keys\<close>

lemma split_last_NUL:
  assumes "CHR 0x00 \<notin> set t" "CHR 0x00 \<notin> set t'" "a @ CHR 0x00 # t = a' @ CHR 0x00 # t'"
  shows "a = a' \<and> t = t'"
proof -
  have "rev t @ CHR 0x00 # rev a = rev t' @ CHR 0x00 # rev a'"
    using arg_cong [OF assms(3), of rev] by simp
  then have "rev t = rev t' \<and> rev a = rev a'"
    using IndexByte_append_notin [of "CHR 0x00" "rev t" "rev a"] IndexByte_append_notin [of "CHR 0x00" "rev t'" "rev a'"]
      assms(1,2) by simp
  then show ?thesis by simp
qed

lemma keyBits_inject:
  "i < 4 \<Longrightarrow> j < 4 \<Longrightarrow> xs @ keyBits i = ys @ keyBits j \<Longrightarrow> xs = ys \<and> i = j"
  by (auto simp: keyBits_def less_Suc_eq numeral_eq_Suc)

lemma cache_key_inject:
  assumes "names_ok L" "cache_key L q cd do = cache_key L q' cd' do'"
  shows "q = q' \<and> cd = cd' \<and> do = do'"
proof -
  let ?n = "\<lambda>q. q_Name q @ CHR 0x00 # TypeString L (q_Qtype q)"
  have "(?n q @ CHR 0x00 # ClassString L (q_Qclass q)) @ keyBits ((if cd then 1 else 0) + (if do then 2 else 0))
      = (?n q' @ CHR 0x00 # ClassString L (q_Qclass q')) @ keyBits ((if cd' then 1 else 0) + (if do' then 2 else 0))"
    using assms(2) by (simp add: cache_key_def)
  then have k: "?n q @ CHR 0x00 # ClassString L (q_Qclass q) = ?n q' @ CHR 0x00 # ClassString L (q_Qclass q')"
    and b: "((if cd then 1 else 0) + (if do then 2 else 0) :: nat) = (if cd' then 1 else 0) + (if do' then 2 else 0)"
    using keyBits_inject [of "(if cd then 1 else 0) + (if do then 2 else 0)" "(if cd' then 1 else 0) + (if do' then 2 else 0)"
        "?n q @ CHR 0x00 # ClassString L (q_Qclass q)" "?n q' @ CHR 0x00 # ClassString L (q_Qclass q')"]
    by simp_all
  have n: "CHR 0x00 \<notin> set (TypeString L t)" "CHR 0x00 \<notin> set (ClassString L t)" for t
    using assms(1) by (auto simp: names_ok_def)
  from split_last_NUL [OF n(2) n(2) k] have "ClassString L (q_Qclass q) = ClassString L (q_Qclass q')"
    and "?n q = ?n q'" by auto
  moreover from this(2) split_last_NUL [OF n(1) n(1)] have "q_Name q = q_Name q'"
    "TypeString L (q_Qtype q) = TypeString L (q_Qtype q')" by blast+
  ultimately have "q = q'" using assms(1) by (auto simp: names_ok_def inj_eq intro!: question.equality)
  with b show ?thesis by (auto split: if_splits)
qed

lemma keyOf_inject:
  assumes "names_ok L" "keyOf L r = Some k" "keyOf L r' = Some k"
  shows "m_Question r = m_Question r' \<and> m_CheckingDisabled r = m_CheckingDisabled r' \<and> do_bit L r = do_bit L r'"
proof -
  have "m_Question r = [m_Question r ! 0]" "m_Question r' = [m_Question r' ! 0]"
    using assms(2,3) by (auto simp: keyOf_def length_Suc_conv split: if_splits)
  moreover have "cache_key L (m_Question r ! 0) (m_CheckingDisabled r) (do_bit L r) =
    cache_key L (m_Question r' ! 0) (m_CheckingDisabled r') (do_bit L r')"
    using assms(2,3) by (auto simp: keyOf_def split: if_splits)
  ultimately show ?thesis using cache_key_inject [OF assms(1)] by metis
qed

subsection \<open>TTLs\<close>

lemma fold_min_le:
  "fold (\<lambda>r s. if h_Ttl r < s then h_Ttl r else s) rs s \<le> s \<and>
   (\<forall>r \<in> set rs. fold (\<lambda>r s. if h_Ttl r < s then h_Ttl r else s) rs s \<le> h_Ttl r)"
proof (induction rs arbitrary: s)
  case (Cons r rs)
  have "(if h_Ttl r < s then h_Ttl r else s) \<le> s" "(if h_Ttl r < s then h_Ttl r else s) \<le> h_Ttl r"
    by auto
  with Cons [of "if h_Ttl r < s then h_Ttl r else s"] show ?case by (auto intro: order_trans)
qed simp

lemma minAnswerTTL_le: "r \<in> set (m_Answer m) \<Longrightarrow> minAnswerTTL m \<le> h_Ttl r"
  using fold_min_le [of "m_Answer m" "- 1"] by (auto simp: minAnswerTTL_def Let_def)

lemma cap_rr_Ttl: "h_Ttl (cap_rr l r) = (if is_opt r then h_Ttl r else min (h_Ttl r) l)"
  by (auto simp: cap_rr_def is_opt_def min_def)

lemma cap_rr_type [simp]: "is_opt (cap_rr l r) = is_opt r"
  by (simp add: cap_rr_def is_opt_def)

lemma decrement_rr_Ttl: "h_Ttl (decrement_rr el r) = (if is_opt r then h_Ttl r else if el < h_Ttl r then h_Ttl r - el else 0)"
  by (auto simp: decrement_rr_def is_opt_def)

lemma decrement_rr_le: "\<not> is_opt r \<Longrightarrow> uint (h_Ttl (decrement_rr el r)) = max 0 (uint (h_Ttl r) - uint el)"
  by (auto simp: decrement_rr_Ttl uint_sub_if' word_less_def max_def)

lemma cap_min: "r \<in> set (m_Answer m) \<Longrightarrow> \<not> is_opt r \<Longrightarrow> minAnswerTTL (capTTLs m maxTTL) \<le> maxTTL"
  using minAnswerTTL_le [of "cap_rr maxTTL r" "capTTLs m maxTTL"]
  by (auto simp: capTTLs_def cap_rr_Ttl min_def split: if_splits)

subsection \<open>Runs\<close>

datatype cache_op = OpGet msg time time | OpSet msg msg time "string list" | OpFlush | OpSweep time

fun cache_exec :: "dnslib \<Rightarrow> cache_op \<Rightarrow> Cache \<Rightarrow> Cache" where
  "cache_exec L (OpGet req t t') c = fst (cache_Get L c req t t')"
| "cache_exec L (OpSet req m t visit) c = cache_Set L c req m t visit"
| "cache_exec L OpFlush c = cache_Flush c"
| "cache_exec L (OpSweep t) c = fst (cleanupExpired c t)"

fun as_store_op :: "dnslib \<Rightarrow> cache_op \<Rightarrow> (string, entry) store_op" where
  "as_store_op L (OpGet req t t') = Peek"
| "as_store_op L (OpSet req m t visit) =
     (if \<not> cacheable m then Peek
      else case keyOf L req of None \<Rightarrow> Peek | Some k \<Rightarrow> Put k (new_entry m t) visit)"
| "as_store_op L OpFlush = Wipe"
| "as_store_op L (OpSweep t) = Sweep t"

definition same_store :: "Cache \<Rightarrow> Cache \<Rightarrow> bool" where
  "same_store c d = (c_entries c = c_entries d \<and> c_maxSize c = c_maxSize d)"

lemma same_store_ops:
  "same_store c d \<Longrightarrow> same_store (fst (cache_Get L c req t t')) d"
  "same_store c d \<Longrightarrow> same_store (insert_entry c k e visit) (insert_entry d k e visit)"
  "same_store c d \<Longrightarrow> same_store (cache_Flush c) (cache_Flush d)"
  "same_store c d \<Longrightarrow> same_store (fst (cleanupExpired c t)) (fst (cleanupExpired d t))"
  by (auto simp: same_store_def cache_Get_eq insert_entry_def reclaimOneExpired_def cache_Flush_def
      cleanupExpired_def Let_def split: option.splits)

lemma exec_same_store:
  "same_store c d \<Longrightarrow> same_store (cache_exec L op c) (rc.apply_op (as_store_op L op) d)"
  by (cases op) (auto simp: same_store_ops cache_Set_def split: option.splits)

lemma run_same_store:
  "same_store c d \<Longrightarrow> same_store (fold (cache_exec L) ops c) (fold rc.apply_op (map (as_store_op L) ops) d)"
  by (induction ops arbitrary: c d) (simp_all add: exec_same_store)

lemma as_store_op_Put:
  "as_store_op L op = Put k x visit \<Longrightarrow>
     \<exists>req m t. op = OpSet req m t visit \<and> cacheable m \<and> keyOf L req = Some k \<and> x = new_entry m t"
  by (cases op) (auto split: if_splits option.splits)

lemma as_store_op_Wipe: "as_store_op L op = Wipe \<longleftrightarrow> op = OpFlush"
  by (cases op) (auto split: option.splits)

lemma run_live_entry:
  assumes "live_entry (fold (cache_exec L) ops (cache_New n)) k t = Some x"
  shows "\<not> isExpired x t \<and> (\<exists>pre req m t0 visit post. ops = pre @ OpSet req m t0 visit # post \<and> OpFlush \<notin> set post
     \<and> cacheable m \<and> keyOf L req = Some k \<and> x = new_entry m t0)"
proof -
  let ?d = "fold rc.apply_op (map (as_store_op L) ops) (cache_New n)"
  have "same_store (fold (cache_exec L) ops (cache_New n)) ?d"
    by (rule run_same_store) (simp add: same_store_def)
  then have "live_entry ?d k t = Some x" using assms by (simp add: live_entry_def same_store_def)
  then have d: "\<not> isExpired x t" and "\<exists>pre visit post. map (as_store_op L) ops = pre @ Put k x visit # post \<and> Wipe \<notin> set post"
    using rc.run_look [OF cache_inv_New] by (auto simp: live_entry_def cache_New_def)
  then obtain pre visit post where s: "map (as_store_op L) ops = pre @ Put k x visit # post" "Wipe \<notin> set post" by blast
  then obtain p op q where o: "ops = p @ op # q" "as_store_op L op = Put k x visit" "map (as_store_op L) q = post"
    by (auto simp: map_eq_append_conv map_eq_Cons_conv)
  have "OpFlush \<notin> set q" using o(3) s(2) by (metis as_store_op.simps(3) image_eqI list.set_map)
  with as_store_op_Put [OF o(2)] o(1) d show ?thesis by blast
qed

lemma run_cache_inv: "cache_inv c \<Longrightarrow> cache_inv (fold (cache_exec L) ops c)"
proof (induction ops arbitrary: c)
  case (Cons op ops)
  then show ?case by (cases op) (auto intro: inv_intros)
qed simp

lemma cache_Get_hit:
  assumes "snd (cache_Get L c req now now') = Some m"
  obtains k e where "keyOf L req = Some k" "live_entry c k now = Some e"
    "m = decrementTTLs (e_msg e) (elapsed_secs (time_Sub now' (e_cached e)))"
  using assms by (auto simp: cache_Get_eq split: option.splits Option.bind_splits)

lemma elapsed_secs_uint:
  fixes ttl :: u32
  assumes "0 \<le> d" "d < uint ttl * second" shows "uint (elapsed_secs d) = d div second"
proof -
  have "d div second < uint ttl" using assms by (simp add: div_less_iff_less_mult)
  moreover have "uint ttl < 2 ^ 32" using uint_lt2p [of ttl] by simp
  ultimately show ?thesis
    using assms(1) by (simp add: elapsed_secs_def go_div_def uint_word_of_int_eq sgn_if pos_imp_zdiv_nonneg_iff take_bit_int_eq_self)
qed

lemma run_maxSize: "c_maxSize (fold (cache_exec L) ops c) = c_maxSize c"
proof (induction ops arbitrary: c)
  case (Cons op ops)
  then show ?case
    by (cases op) (auto simp: cache_Get_eq cache_Set_def insert_entry_def reclaimOneExpired_def cache_Flush_def
        cleanupExpired_def Let_def split: option.splits)
qed simp

text \<open>An OPT record has no TTL, so an answer section with other records bounds an entry's life.\<close>

lemma new_entry_minTTL:
  "\<not> list_all is_opt (m_Answer m) \<Longrightarrow> e_minTTL (new_entry m t) \<le> maxTTL"
  using cap_min by (auto simp: new_entry_def Let_def list_all_iff)

section \<open>Properties\<close>

text \<open>C30: replies never cross between different queries: whatever lookups, insertions, flushes and
  sweeps have run, a reply that the cache serves is a capped, aged copy of one that was stored
  for a query with the same question (name with its case, type and class), the same CD bit and
  the same DO bit, since the last flush; it was a complete, successful answer, and it is not
  expired.\<close>

theorem cache_serves_own_query:
  assumes "names_ok L"
    and "snd (cache_Get L (fold (cache_exec L) ops (cache_New n)) req now now') = Some m"
  shows "\<exists>pre req0 m0 t0 visit post.
     ops = pre @ OpSet req0 m0 t0 visit # post \<and> OpFlush \<notin> set post
     \<and> m_Question req0 = m_Question req \<and> m_CheckingDisabled req0 = m_CheckingDisabled req
     \<and> do_bit L req0 = do_bit L req
     \<and> m_Rcode m0 = RcodeSuccess \<and> \<not> m_Truncated m0 \<and> m_Answer m0 \<noteq> []
     \<and> time_Sub now t0 < uint (minAnswerTTL (capTTLs m0 maxTTL)) * second
     \<and> m = decrementTTLs (capTTLs m0 maxTTL) (elapsed_secs (time_Sub now' t0))"
proof -
  obtain k e where k: "keyOf L req = Some k"
    and e: "live_entry (fold (cache_exec L) ops (cache_New n)) k now = Some e"
    and m: "m = decrementTTLs (e_msg e) (elapsed_secs (time_Sub now' (e_cached e)))"
    using assms(2) by (rule cache_Get_hit)
  from run_live_entry [OF e] obtain pre req0 m0 t0 visit post where
    r: "ops = pre @ OpSet req0 m0 t0 visit # post" "OpFlush \<notin> set post" "cacheable m0"
      "keyOf L req0 = Some k" "e = new_entry m0 t0" and live: "\<not> isExpired e now" by blast
  have "m_Question req0 = m_Question req \<and> m_CheckingDisabled req0 = m_CheckingDisabled req \<and> do_bit L req0 = do_bit L req"
    by (rule keyOf_inject [OF assms(1) r(4) k])
  moreover have "m_Rcode m0 = RcodeSuccess" "\<not> m_Truncated m0" "m_Answer m0 \<noteq> []"
    using r(3) by (auto simp: cacheable_def)
  ultimately show ?thesis
    using r live m by (fastforce simp: isExpired_def new_entry_def Let_def)
qed

definition demo_query :: msg where
  "demo_query = zero_msg\<lparr>m_Id := 7, m_RecursionDesired := True,
     m_Question := [\<lparr>q_Name = ''a.test.'', q_Qtype = TypeA, q_Qclass = ClassINET\<rparr>]\<rparr>"

definition demo_answer :: "u32 \<Rightarrow> msg" where
  "demo_answer ttl = demo_query\<lparr>m_Response := True,
     m_Answer := [\<lparr>h_Name = ''a.test.'', h_Rrtype = TypeA, h_Class = ClassINET, h_Ttl = ttl, rr_data = RA (Addr4 1)\<rparr>]\<rparr>"

theorem cache_serves_own_query_witness:
  "snd (cache_Get demo_dns (fold (cache_exec demo_dns) [OpSet demo_query (demo_answer 100000) 0 []] (cache_New 5))
      demo_query (30 * second) (30 * second)) = Some (demo_answer 86370)
   \<and> (\<exists>pre req0 m0 t0 visit post.
        [OpSet demo_query (demo_answer 100000) 0 []] = pre @ OpSet req0 m0 t0 visit # post
        \<and> demo_answer 86370 = decrementTTLs (capTTLs m0 maxTTL) (elapsed_secs (time_Sub (30 * second) t0)))"
proof -
  have a: "snd (cache_Get demo_dns (fold (cache_exec demo_dns) [OpSet demo_query (demo_answer 100000) 0 []] (cache_New 5))
      demo_query (30 * second) (30 * second)) = Some (demo_answer 86370)" by code_simp
  from cache_serves_own_query [OF demo_names_ok a] a show ?thesis by blast
qed

text \<open>the age of a served record is right at the second: with a lookup at one instant that is not
  before the insertion, each record of the answer that is no OPT record has the TTL the upstream
  gave, capped at one day, less the whole seconds since it was stored, and that is never below
  the time the entry has left to live; so no client is told to keep an answer beyond the cap.\<close>

theorem cache_ttl_aged:
  assumes "cacheable m0" "keyOf L req = Some k" "t0 \<le> now"
    and "int (length (c_entries c)) < c_maxSize c"
    and "r \<in> set (m_Answer m0)" "\<not> is_opt r"
    and "now - t0 < uint (minAnswerTTL (capTTLs m0 maxTTL)) * second"
  shows "\<exists>m. snd (cache_Get L (cache_Set L c req m0 t0 visit) req now now) = Some m
     \<and> (\<exists>r' \<in> set (m_Answer m). h_Name r' = h_Name r \<and> rr_data r' = rr_data r
          \<and> uint (h_Ttl r') = min (uint (h_Ttl r)) 86400 - (now - t0) div second
          \<and> 0 < uint (h_Ttl r'))"
proof -
  let ?s = "capTTLs m0 maxTTL" and ?r = "cap_rr maxTTL r"
  let ?r' = "decrement_rr (elapsed_secs (now - t0)) ?r"
  have rs: "?r \<in> set (m_Answer ?s)" using assms(5) by (simp add: capTTLs_def)
  then have le: "minAnswerTTL ?s \<le> h_Ttl ?r" by (rule minAnswerTTL_le)
  have cap: "uint (h_Ttl ?r) = min (uint (h_Ttl r)) 86400"
    using assms(6) by (auto simp: cap_rr_Ttl maxTTL_def min_def word_le_def)
  have sub: "time_Sub now t0 = now - t0"
    using assms(3,7) uint_lt2p [of "minAnswerTTL ?s"] by (simp add: time_Sub_def)
  have el: "uint (elapsed_secs (now - t0)) = (now - t0) div second"
    using assms(3,7) by (intro elapsed_secs_uint) auto
  have lt: "(now - t0) div second < uint (h_Ttl ?r)"
    using assms(7) le by (simp add: div_less_iff_less_mult word_le_def mult.commute)
  have "uint (h_Ttl ?r') = uint (h_Ttl ?r) - (now - t0) div second"
    using decrement_rr_le [of ?r] assms(6) el lt by simp
  moreover have "h_Name ?r' = h_Name r" "rr_data ?r' = rr_data r" by (simp_all add: decrement_rr_def cap_rr_def)
  moreover have "live_entry (cache_Set L c req m0 t0 visit) k now = Some (new_entry m0 t0)"
    using assms(1,2,4,7)
    by (simp add: cache_Set_def insert_entry_def live_entry_def AList.update_conv' isExpired_def new_entry_def Let_def sub)
  then have "snd (cache_Get L (cache_Set L c req m0 t0 visit) req now now) = Some (decrementTTLs ?s (elapsed_secs (now - t0)))"
    by (simp add: cache_Get_eq assms(2) new_entry_def Let_def sub)
  ultimately show ?thesis using rs cap lt by (auto simp: decrementTTLs_def)
qed

theorem cache_ttl_aged_witness:
  "\<exists>m. snd (cache_Get demo_dns (cache_Set demo_dns (cache_New 5) demo_query (demo_answer 100000) 0 []) demo_query 1500000000 1500000000) = Some m
     \<and> (\<exists>r' \<in> set (m_Answer m). uint (h_Ttl r') = 86399)"
proof -
  have a: "cacheable (demo_answer 100000)" and b: "\<exists>k. keyOf demo_dns demo_query = Some k"
    and c: "int (length (c_entries (cache_New 5))) < c_maxSize (cache_New 5)"
    and d: "(1500000000::int) - 0 < uint (minAnswerTTL (capTTLs (demo_answer 100000) maxTTL)) * second"
    and e: "hd (m_Answer (demo_answer 100000)) \<in> set (m_Answer (demo_answer 100000))"
      "\<not> is_opt (hd (m_Answer (demo_answer 100000)))" "h_Ttl (hd (m_Answer (demo_answer 100000))) = 100000"
    by (code_simp, simp add: keyOf_def demo_query_def, code_simp+)
  from b obtain k where k: "keyOf demo_dns demo_query = Some k" by blast
  show ?thesis using cache_ttl_aged [OF a k _ c e(1,2) d, of "[]"] e(3) by fastforce
qed

text \<open>C35: after any run the cache holds at most \<open>maxSize\<close> entries, with distinct keys, and an entry whose
  answer section has a record that is not an OPT record is expired one day after it was stored at the latest.
  An entry with OPT records only has no such bound, as \<open>opt_only_outlives_cap\<close> shows.\<close>

theorem cache_bounded:
  "int (length (c_entries (fold (cache_exec L) ops (cache_New n)))) \<le> max 0 n
   \<and> distinct (map fst (c_entries (fold (cache_exec L) ops (cache_New n))))
   \<and> (\<forall>k t e. live_entry (fold (cache_exec L) ops (cache_New n)) k t = Some e
        \<and> \<not> list_all is_opt (m_Answer (e_msg e)) \<longrightarrow> time_Sub t (e_cached e) < 86400 * second)"
proof -
  let ?c = "fold (cache_exec L) ops (cache_New n)"
  have inv: "cache_inv ?c" by (rule run_cache_inv) (rule cache_inv_New)
  have max: "c_maxSize ?c = n" by (simp add: run_maxSize cache_New_def)
  have "time_Sub t (e_cached e) < 86400 * second"
    if e: "live_entry ?c k t = Some e" and o: "\<not> list_all is_opt (m_Answer (e_msg e))" for k t e
  proof -
    from run_live_entry [OF e] obtain m t0 where m: "e = new_entry m t0" and x: "\<not> isExpired e t" by blast
    from o have "\<not> list_all is_opt (m_Answer m)"
      by (auto simp: m new_entry_def Let_def capTTLs_def list_all_iff)
    then have "uint (e_minTTL e) \<le> 86400"
      using new_entry_minTTL [of m t0] by (simp add: m maxTTL_def word_le_def)
    with x show ?thesis by (simp add: isExpired_def)
  qed
  then show ?thesis using inv max by (auto simp: cache_inv_def)
qed

theorem cache_bounded_witness:
  "(\<exists>k e. live_entry (fold (cache_exec demo_dns) [OpSet demo_query (demo_answer 100000) 0 []] (cache_New 5)) k 5 = Some e
     \<and> time_Sub 5 (e_cached e) < 86400 * second)
   \<and> int (length (c_entries (fold (cache_exec demo_dns) [OpSet demo_query (demo_answer 100000) 0 []] (cache_New 5)))) \<le> max 0 5"
proof -
  let ?c = "fold (cache_exec demo_dns) [OpSet demo_query (demo_answer 100000) 0 []] (cache_New 5)"
  let ?k = "the (keyOf demo_dns demo_query)" and ?e = "new_entry (demo_answer 100000) 0"
  have a: "live_entry ?c ?k 5 = Some ?e" by code_simp
  have b: "\<not> list_all is_opt (m_Answer (e_msg ?e))" by code_simp
  from cache_bounded [of demo_dns "[OpSet demo_query (demo_answer 100000) 0 []]" 5] a b show ?thesis by blast
qed

text \<open>The exception is real: an answer section of OPT records alone is stored with the TTL field
  of such a record as it came, and the entry outlives the cap.\<close>

definition opt_only_answer :: msg where
  "opt_only_answer = demo_query\<lparr>m_Response := True,
     m_Answer := [\<lparr>h_Name = ''.'', h_Rrtype = TypeOPT, h_Class = 1232, h_Ttl = 0xFFFFFFFE, rr_data = ROPT []\<rparr>]\<rparr>"

lemma opt_only_outlives_cap:
  "snd (cache_Get demo_dns (cache_Set demo_dns (cache_New 5) demo_query opt_only_answer 0 [])
      demo_query (1000 * 86400 * second) (1000 * 86400 * second)) = Some opt_only_answer"
  by code_simp

end
