(* ===== verification/Stats_Counter.thy ===== *)
theory Stats_Counter
  imports Complex_Main Go_Prelude "HOL-Library.AList" "HOL-Library.Product_Lexorder" "HOL-Library.Multiset"
begin

text \<open>
  Counters, top-N tallies and the per-minute graph: \<open>src/internal/stats/stats.go\<close> and
  \<open>src/internal/stats/timeline.go\<close>.

  Every atomic access and every critical section is one definition (\<open>add_total\<close>, \<open>tally_locked\<close>,
  \<open>load_blocked\<close>, and so on). \<open>RecordQuery\<close> and \<open>Snapshot\<close> compose them as the code does, and the
  step relation \<open>istep\<close> interleaves the same definitions for any number of queries in flight and
  one snapshot, which is what the LOAD-ORDER INVARIANT of the source is about. A tally map is an
  association list; \<open>ord\<close> is the order in which \<open>range\<close> visits it and is left open. A percentage is
  the exact quotient that the float approximates.
\<close>

section \<open>Model: the graph\<close>

definition timelineMinutes :: int where "timelineMinutes = 24 * 60"

record minuteBucket =
  mb_minute :: int
  mb_total :: nat
  mb_blocked :: nat
  mb_cached :: nat
  mb_unresolved :: nat
  mb_upstreamError :: nat

type_synonym timeline = "minuteBucket list"

definition empty_bucket :: "int \<Rightarrow> minuteBucket" where
  "empty_bucket m = \<lparr>mb_minute = m, mb_total = 0, mb_blocked = 0, mb_cached = 0, mb_unresolved = 0, mb_upstreamError = 0\<rparr>"

definition unix_minute :: "time \<Rightarrow> int" where
  "unix_minute now = now div second div 60"

definition slot_of :: "int \<Rightarrow> nat" where
  "slot_of m = nat (m mod timelineMinutes)"

text \<open>\<open>at\<close>: claim the bucket of the minute; the caller then bumps fields of that bucket.\<close>

definition timeline_at :: "timeline \<Rightarrow> time \<Rightarrow> timeline" where
  "timeline_at t now =
     (let m = unix_minute now; b = t ! slot_of m in
      if mb_minute b \<noteq> m then t[slot_of m := empty_bucket m] else t)"

definition timeline_reset :: "timeline \<Rightarrow> timeline" where
  "timeline_reset t = map (\<lambda>b. empty_bucket 0) t"

definition bump_at :: "timeline \<Rightarrow> time \<Rightarrow> (minuteBucket \<Rightarrow> minuteBucket) \<Rightarrow> timeline" where
  "bump_at t now f = (let t' = timeline_at t now; i = slot_of (unix_minute now) in t'[i := f (t' ! i)])"

section \<open>Model: the counter\<close>

definition topNMaxEntries :: nat where "topNMaxEntries = 4096"

type_synonym tally = "(string \<times> nat) list"

record Counter =
  ct_total :: nat
  ct_cacheHit :: nat
  ct_localPTR :: nat
  ct_localName :: nat
  ct_forwardFailures :: nat
  ct_upstreamErrors :: nat
  ct_cnameBlocked :: nat
  ct_start :: time
  ct_blocked :: nat
  ct_topDomains :: tally
  ct_topClients :: tally
  ct_timeline :: timeline
  ct_graphMode :: string

record Entry =
  en_Name :: string
  en_Count :: nat

record Summary =
  su_Uptime :: duration
  su_TotalQueries :: nat
  su_BlockedCount :: nat
  su_BlockedPct :: rat
  su_LocalPTRCount :: nat
  su_LocalNameCount :: nat
  su_CacheHits :: nat
  su_CacheHitPct :: rat
  su_ForwardFailures :: nat
  su_UpstreamErrors :: nat
  su_CNAMEBlockedCount :: nat
  su_TopDomains :: "Entry list"
  su_TopClients :: "Entry list"

definition stats_New :: "time \<Rightarrow> Counter" where
  "stats_New now = \<lparr>ct_total = 0, ct_cacheHit = 0, ct_localPTR = 0, ct_localName = 0, ct_forwardFailures = 0,
     ct_upstreamErrors = 0, ct_cnameBlocked = 0, ct_start = now, ct_blocked = 0, ct_topDomains = [],
     ct_topClients = [], ct_timeline = replicate (nat timelineMinutes) (empty_bucket 0), ct_graphMode = []\<rparr>"

definition SetQueryLogMode :: "Counter \<Rightarrow> string \<Rightarrow> Counter" where
  "SetQueryLogMode c m = c\<lparr>ct_graphMode := (if m = ''all'' \<or> m = ''blocked'' then m else ''none'')\<rparr>"

definition GraphMode :: "Counter \<Rightarrow> string" where
  "GraphMode c = (if ct_graphMode c = [] then ''none'' else ct_graphMode c)"

definition graphs :: "Counter \<Rightarrow> bool \<Rightarrow> bool" where
  "graphs c blocked =
     (if ct_graphMode c = ''all'' then True else if ct_graphMode c = ''blocked'' then blocked else False)"

subsection \<open>Tallies\<close>

definition tally_inc :: "string \<Rightarrow> tally \<Rightarrow> tally" where
  "tally_inc k m = AList.update k (Suc (case map_of m k of None \<Rightarrow> 0 | Some v \<Rightarrow> v)) m"

text \<open>A \<open>range\<close> over a map visits entries of the map, in an order that the runtime chooses.\<close>

definition range_of :: "(tally \<Rightarrow> tally) \<Rightarrow> tally \<Rightarrow> tally" where
  "range_of ord m = filter (\<lambda>kv. kv \<in> set m) (ord m)"

definition pruneBottomHalf :: "(tally \<Rightarrow> tally) \<Rightarrow> tally \<Rightarrow> tally" where
  "pruneBottomHalf ord m =
     (let entries = sort_key (\<lambda>kv. - int (snd kv)) (range_of ord m) in take (length entries div 2) entries)"

definition prune_if_full :: "(tally \<Rightarrow> tally) \<Rightarrow> tally \<Rightarrow> tally" where
  "prune_if_full ord m = (if topNMaxEntries < length m then pruneBottomHalf ord m else m)"

subsection \<open>Recording\<close>

definition add_total :: "Counter \<Rightarrow> Counter" where
  "add_total c = c\<lparr>ct_total := ct_total c + 1\<rparr>"

definition graph_query :: "time \<Rightarrow> bool \<Rightarrow> Counter \<Rightarrow> Counter" where
  "graph_query now blocked c =
     (if graphs c blocked
      then c\<lparr>ct_timeline := bump_at (ct_timeline c) now
             (\<lambda>b. let b1 = b\<lparr>mb_total := mb_total b + 1\<rparr> in
                  if blocked then b1\<lparr>mb_blocked := mb_blocked b1 + 1\<rparr> else b1)\<rparr>
      else c)"

definition tally_locked :: "(tally \<Rightarrow> tally) \<Rightarrow> string \<Rightarrow> string \<Rightarrow> bool \<Rightarrow> Counter \<Rightarrow> Counter" where
  "tally_locked ord clientIP domain blocked c =
     (let cl = (if clientIP \<noteq> [] then tally_inc clientIP (ct_topClients c) else ct_topClients c);
          bl = (if blocked then ct_blocked c + 1 else ct_blocked c);
          dm = (if blocked \<and> domain \<noteq> [] then tally_inc domain (ct_topDomains c) else ct_topDomains c)
      in c\<lparr>ct_topClients := prune_if_full ord cl, ct_blocked := bl, ct_topDomains := prune_if_full ord dm\<rparr>)"

definition RecordQuery :: "(tally \<Rightarrow> tally) \<Rightarrow> time \<Rightarrow> string \<Rightarrow> string \<Rightarrow> bool \<Rightarrow> Counter \<Rightarrow> Counter" where
  "RecordQuery ord now clientIP domain blocked c =
     tally_locked ord clientIP domain blocked (graph_query now blocked (add_total c))"

definition ResetTallies :: "Counter \<Rightarrow> Counter" where
  "ResetTallies c = c\<lparr>ct_topDomains := [], ct_topClients := []\<rparr>"

definition RecordCacheHit :: "time \<Rightarrow> Counter \<Rightarrow> Counter" where
  "RecordCacheHit now c =
     (let c1 = c\<lparr>ct_cacheHit := ct_cacheHit c + 1\<rparr> in
      if graphs c1 False
      then c1\<lparr>ct_timeline := bump_at (ct_timeline c1) now (\<lambda>b. b\<lparr>mb_cached := mb_cached b + 1\<rparr>)\<rparr> else c1)"

definition RecordCNAMEBlocked :: "Counter \<Rightarrow> Counter" where
  "RecordCNAMEBlocked c = c\<lparr>ct_cnameBlocked := ct_cnameBlocked c + 1\<rparr>"

definition RecordLocalPTR :: "Counter \<Rightarrow> Counter" where
  "RecordLocalPTR c = c\<lparr>ct_localPTR := ct_localPTR c + 1\<rparr>"

definition RecordLocalName :: "Counter \<Rightarrow> Counter" where
  "RecordLocalName c = c\<lparr>ct_localName := ct_localName c + 1\<rparr>"

definition RecordForwardFailure :: "time \<Rightarrow> Counter \<Rightarrow> Counter" where
  "RecordForwardFailure now c =
     (let c1 = c\<lparr>ct_forwardFailures := ct_forwardFailures c + 1\<rparr> in
      if graphs c1 False
      then c1\<lparr>ct_timeline := bump_at (ct_timeline c1) now (\<lambda>b. b\<lparr>mb_unresolved := mb_unresolved b + 1\<rparr>)\<rparr> else c1)"

definition RecordUpstreamError :: "time \<Rightarrow> Counter \<Rightarrow> Counter" where
  "RecordUpstreamError now c =
     (let c1 = c\<lparr>ct_upstreamErrors := ct_upstreamErrors c + 1\<rparr> in
      if graphs c1 False
      then c1\<lparr>ct_timeline := bump_at (ct_timeline c1) now (\<lambda>b. b\<lparr>mb_upstreamError := mb_upstreamError b + 1\<rparr>)\<rparr> else c1)"

subsection \<open>Snapshot\<close>

datatype topNTarget = topNDomains | topNClients

definition topN :: "(tally \<Rightarrow> tally) \<Rightarrow> Counter \<Rightarrow> topNTarget \<Rightarrow> int \<Rightarrow> Entry list" where
  "topN ord c target n =
     (let m = (case target of topNDomains \<Rightarrow> ct_topDomains c | topNClients \<Rightarrow> ct_topClients c);
          entries = map (\<lambda>kv. \<lparr>en_Name = fst kv, en_Count = snd kv\<rparr>) (ord m);
          sorted = sort_key (\<lambda>e. (- int (en_Count e), en_Name e)) entries
      in if 0 < n \<and> n < int (length sorted) then take (nat n) sorted else sorted)"

text \<open>What the loads of a snapshot have read; \<open>r_pc\<close> counts the loads done.\<close>

record regs =
  r_cname :: nat
  r_blocked :: nat
  r_localPTR :: nat
  r_localName :: nat
  r_hits :: nat
  r_failures :: nat
  r_errors :: nat
  r_total :: nat
  r_pc :: nat

definition regs0 :: regs where
  "regs0 = \<lparr>r_cname = 0, r_blocked = 0, r_localPTR = 0, r_localName = 0, r_hits = 0, r_failures = 0,
     r_errors = 0, r_total = 0, r_pc = 0\<rparr>"

text \<open>The eight loads of \<open>Snapshot\<close> in source order.\<close>

definition load_next :: "Counter \<Rightarrow> regs \<Rightarrow> regs" where
  "load_next c r =
     (let r' = r\<lparr>r_pc := r_pc r + 1\<rparr> in
      if r_pc r = 0 then r'\<lparr>r_cname := ct_cnameBlocked c\<rparr>
      else if r_pc r = 1 then r'\<lparr>r_blocked := ct_blocked c\<rparr>
      else if r_pc r = 2 then r'\<lparr>r_localPTR := ct_localPTR c\<rparr>
      else if r_pc r = 3 then r'\<lparr>r_localName := ct_localName c\<rparr>
      else if r_pc r = 4 then r'\<lparr>r_hits := ct_cacheHit c\<rparr>
      else if r_pc r = 5 then r'\<lparr>r_failures := ct_forwardFailures c\<rparr>
      else if r_pc r = 6 then r'\<lparr>r_errors := ct_upstreamErrors c\<rparr>
      else if r_pc r = 7 then r'\<lparr>r_total := ct_total c\<rparr>
      else r)"

text \<open>The rest of \<open>Snapshot\<close>, from the loaded values. \<open>forwardable\<close> is a signed difference.\<close>

definition forwardable :: "regs \<Rightarrow> int" where
  "forwardable r = int (r_total r) - int (r_blocked r) - int (r_localPTR r) - int (r_localName r)"

definition summary_of :: "(tally \<Rightarrow> tally) \<Rightarrow> Counter \<Rightarrow> regs \<Rightarrow> time \<Rightarrow> int \<Rightarrow> Summary" where
  "summary_of ord c r now n =
     \<lparr>su_Uptime = time_Sub now (ct_start c), su_TotalQueries = r_total r, su_BlockedCount = r_blocked r,
      su_BlockedPct = (if 0 < r_total r then of_nat (r_blocked r) / of_nat (r_total r) * 100 else 0),
      su_LocalPTRCount = r_localPTR r, su_LocalNameCount = r_localName r, su_CacheHits = r_hits r,
      su_CacheHitPct = (if 0 < forwardable r then of_nat (r_hits r) / of_int (forwardable r) * 100 else 0),
      su_ForwardFailures = r_failures r, su_UpstreamErrors = r_errors r, su_CNAMEBlockedCount = r_cname r,
      su_TopDomains = topN ord c topNDomains n, su_TopClients = topN ord c topNClients n\<rparr>"

definition Snapshot :: "(tally \<Rightarrow> tally) \<Rightarrow> Counter \<Rightarrow> time \<Rightarrow> int \<Rightarrow> Summary" where
  "Snapshot ord c now n = summary_of ord c ((load_next c ^^ 8) regs0) now n"

subsection \<open>Timeline\<close>

record TimelineBucket =
  tb_Start :: int
  tb_Total :: nat
  tb_Blocked :: nat
  tb_Cached :: nat
  tb_Unresolved :: nat
  tb_UpstreamError :: nat

definition TimelineWindow :: duration where "TimelineWindow = timelineMinutes * minute"

definition add_minute :: "timeline \<Rightarrow> int \<Rightarrow> int \<Rightarrow> TimelineBucket \<Rightarrow> TimelineBucket" where
  "add_minute t nowMin m tb =
     (if timelineMinutes \<le> nowMin - m then tb
      else let b = t ! slot_of m in
        if mb_minute b \<noteq> m then tb
        else tb\<lparr>tb_Total := tb_Total tb + mb_total b, tb_Blocked := tb_Blocked tb + mb_blocked b,
                tb_Cached := tb_Cached tb + mb_cached b, tb_Unresolved := tb_Unresolved tb + mb_unresolved b,
                tb_UpstreamError := tb_UpstreamError tb + mb_upstreamError b\<rparr>)"

definition Timeline :: "Counter \<Rightarrow> duration \<Rightarrow> duration \<Rightarrow> time \<Rightarrow> TimelineBucket list" where
  "Timeline c window0 bucket now =
     (let window = min window0 TimelineWindow;
          bm = max 1 (go_div bucket minute);
          n = max 1 (go_div (go_div window minute) bm);
          nowMin = unix_minute now;
          lastStart = nowMin div bm * bm;
          firstStart = lastStart - (n - 1) * bm
      in map (\<lambda>i. let start = firstStart + i * bm in
                fold (add_minute (ct_timeline c) nowMin) [start..min (start + bm - 1) nowMin]
                  \<lparr>tb_Start = start * 60, tb_Total = 0, tb_Blocked = 0, tb_Cached = 0, tb_Unresolved = 0, tb_UpstreamError = 0\<rparr>)
           [0..n - 1])"

definition ResetTimeline :: "Counter \<Rightarrow> Counter" where
  "ResetTimeline c = c\<lparr>ct_timeline := timeline_reset (ct_timeline c)\<rparr>"

section \<open>Interleaving\<close>

text \<open>
  The atomic steps of one query, in the order the DNS handler runs them: the three parts of
  \<open>RecordQuery\<close>, then the counter of the query's outcome (each reads the clock on its own).
\<close>

datatype micro =
    MTotal | MGraph time bool | MTally string string bool
  | MCname | MPtr | MName | MHit time | MFail time | MErr time

fun micro_sem :: "(tally \<Rightarrow> tally) \<Rightarrow> micro \<Rightarrow> Counter \<Rightarrow> Counter" where
  "micro_sem ord MTotal c = add_total c"
| "micro_sem ord (MGraph t b) c = graph_query t b c"
| "micro_sem ord (MTally cl dm b) c = tally_locked ord cl dm b c"
| "micro_sem ord MCname c = RecordCNAMEBlocked c"
| "micro_sem ord MPtr c = RecordLocalPTR c"
| "micro_sem ord MName c = RecordLocalName c"
| "micro_sem ord (MHit t) c = RecordCacheHit t c"
| "micro_sem ord (MFail t) c = RecordForwardFailure t c"
| "micro_sem ord (MErr t) c = RecordUpstreamError t c"

datatype outcome = OBlocked | OCname | OPtr | OName | OHit | OFailed | OError | OForwarded

fun outcome_steps :: "outcome \<Rightarrow> time \<Rightarrow> micro list" where
  "outcome_steps OBlocked t = []"
| "outcome_steps OCname t = [MCname]"
| "outcome_steps OPtr t = [MPtr]"
| "outcome_steps OName t = [MName]"
| "outcome_steps OHit t = [MHit t]"
| "outcome_steps OFailed t = [MFail t]"
| "outcome_steps OError t = [MErr t]"
| "outcome_steps OForwarded t = []"

definition script :: "outcome \<Rightarrow> string \<Rightarrow> string \<Rightarrow> time \<Rightarrow> time \<Rightarrow> micro list" where
  "script oc cl dm t t' =
     (let b = (oc = OBlocked \<or> oc = OCname) in [MTotal, MGraph t b, MTally cl dm b] @ outcome_steps oc t')"

lemma script_RecordQuery:
  "fold (micro_sem ord) (script oc cl dm t t') c =
     fold (micro_sem ord) (outcome_steps oc t') (RecordQuery ord t cl dm (oc = OBlocked \<or> oc = OCname) c)"
  by (simp add: script_def RecordQuery_def Let_def)

text \<open>A state: the counter, the remaining steps of each query in flight, and the snapshot's registers.\<close>

type_synonym istate = "Counter \<times> micro list list \<times> regs"

inductive istep :: "(tally \<Rightarrow> tally) \<Rightarrow> istate \<Rightarrow> istate \<Rightarrow> bool" for ord where
  arrive: "istep ord (c, ts, r) (c, script oc cl dm t t' # ts, r)"
| run: "i < length ts \<Longrightarrow> ts ! i = a # rest \<Longrightarrow> istep ord (c, ts, r) (micro_sem ord a c, ts[i := rest], r)"
| load: "istep ord (c, ts, r) (c, ts, load_next c r)"

inductive_cases istep_cases: "istep ord (c, ts, r) s'"

text \<open>Counter increments that a query has still to make after it was counted in \<open>total\<close>.\<close>

fun outcome_inc :: "micro \<Rightarrow> nat" where
  "outcome_inc (MTally cl dm True) = 1"
| "outcome_inc MPtr = 1"
| "outcome_inc MName = 1"
| "outcome_inc (MHit t) = 1"
| "outcome_inc (MFail t) = 1"
| "outcome_inc (MErr t) = 1"
| "outcome_inc _ = 0"

definition owed :: "micro list \<Rightarrow> nat" where
  "owed l = (if MTotal \<in> set l then 0 else sum_list (map outcome_inc l))"

definition owed_cname :: "micro list \<Rightarrow> nat" where
  "owed_cname l = (if \<exists>cl dm. MTally cl dm True \<in> set l then 0 else count_list l MCname)"

definition outcomes :: "Counter \<Rightarrow> nat" where
  "outcomes c = ct_blocked c + ct_localPTR c + ct_localName c + ct_cacheHit c + ct_forwardFailures c + ct_upstreamErrors c"

lemma counter_frame [simp]:
  "ct_total (graph_query t b c) = ct_total c" "outcomes (graph_query t b c) = outcomes c"
  "ct_cnameBlocked (graph_query t b c) = ct_cnameBlocked c" "ct_blocked (graph_query t b c) = ct_blocked c"
  "ct_total (tally_locked ord cl dm b c) = ct_total c" "outcomes (tally_locked ord cl dm b c) = outcomes c + (if b then 1 else 0)"
  "ct_cnameBlocked (tally_locked ord cl dm b c) = ct_cnameBlocked c"
  "ct_blocked (tally_locked ord cl dm b c) = ct_blocked c + (if b then 1 else 0)"
  by (simp_all add: graph_query_def tally_locked_def outcomes_def Let_def)

lemmas recorder_defs = add_total_def RecordCNAMEBlocked_def RecordLocalPTR_def RecordLocalName_def RecordCacheHit_def
  RecordForwardFailure_def RecordUpstreamError_def

lemma recorder_frame [simp]:
  "ct_total (add_total c) = Suc (ct_total c)" "outcomes (add_total c) = outcomes c"
  "ct_cnameBlocked (add_total c) = ct_cnameBlocked c" "ct_blocked (add_total c) = ct_blocked c"
  "ct_total (RecordCNAMEBlocked c) = ct_total c" "outcomes (RecordCNAMEBlocked c) = outcomes c"
  "ct_cnameBlocked (RecordCNAMEBlocked c) = Suc (ct_cnameBlocked c)" "ct_blocked (RecordCNAMEBlocked c) = ct_blocked c"
  "ct_total (RecordLocalPTR c) = ct_total c" "outcomes (RecordLocalPTR c) = Suc (outcomes c)"
  "ct_cnameBlocked (RecordLocalPTR c) = ct_cnameBlocked c" "ct_blocked (RecordLocalPTR c) = ct_blocked c"
  "ct_total (RecordLocalName c) = ct_total c" "outcomes (RecordLocalName c) = Suc (outcomes c)"
  "ct_cnameBlocked (RecordLocalName c) = ct_cnameBlocked c" "ct_blocked (RecordLocalName c) = ct_blocked c"
  "ct_total (RecordCacheHit t c) = ct_total c" "outcomes (RecordCacheHit t c) = Suc (outcomes c)"
  "ct_cnameBlocked (RecordCacheHit t c) = ct_cnameBlocked c" "ct_blocked (RecordCacheHit t c) = ct_blocked c"
  "ct_total (RecordForwardFailure t c) = ct_total c" "outcomes (RecordForwardFailure t c) = Suc (outcomes c)"
  "ct_cnameBlocked (RecordForwardFailure t c) = ct_cnameBlocked c" "ct_blocked (RecordForwardFailure t c) = ct_blocked c"
  "ct_total (RecordUpstreamError t c) = ct_total c" "outcomes (RecordUpstreamError t c) = Suc (outcomes c)"
  "ct_cnameBlocked (RecordUpstreamError t c) = ct_cnameBlocked c" "ct_blocked (RecordUpstreamError t c) = ct_blocked c"
  by (simp_all add: recorder_defs outcomes_def Let_def)

lemma micro_counts:
  "ct_total (micro_sem ord a c) = ct_total c + (if a = MTotal then 1 else 0)"
  "outcomes (micro_sem ord a c) = outcomes c + outcome_inc a"
  "ct_cnameBlocked (micro_sem ord a c) = ct_cnameBlocked c + (if a = MCname then 1 else 0)"
  "ct_blocked (micro_sem ord a c) = ct_blocked c + (if \<exists>cl dm. a = MTally cl dm True then 1 else 0)"
  by (cases a rule: outcome_inc.cases; simp)+

lemma micro_grows:
  "ct_localPTR c \<le> ct_localPTR (micro_sem ord a c)" "ct_localName c \<le> ct_localName (micro_sem ord a c)"
  "ct_cacheHit c \<le> ct_cacheHit (micro_sem ord a c)" "ct_forwardFailures c \<le> ct_forwardFailures (micro_sem ord a c)"
  "ct_upstreamErrors c \<le> ct_upstreamErrors (micro_sem ord a c)" "ct_cnameBlocked c \<le> ct_cnameBlocked (micro_sem ord a c)"
  "ct_blocked c \<le> ct_blocked (micro_sem ord a c)"
  by (cases a; simp add: recorder_defs graph_query_def tally_locked_def Let_def)+

text \<open>Each query's remaining steps are a tail of its script.\<close>

definition thread_ok :: "micro list \<Rightarrow> bool" where
  "thread_ok l = (\<exists>oc cl dm t t'. suffix l (script oc cl dm t t'))"

lemma thread_step:
  assumes "thread_ok (a # l)"
  shows "thread_ok l"
    and "owed l + outcome_inc a \<le> owed (a # l) + (if a = MTotal then 1 else 0)"
    and "owed_cname l + (if a = MCname then 1 else 0) \<le> owed_cname (a # l) + (if \<exists>cl dm. a = MTally cl dm True then 1 else 0)"
proof -
  obtain oc cl dm t t' where s: "suffix (a # l) (script oc cl dm t t')" using assms by (auto simp: thread_ok_def)
  then have "suffix l (script oc cl dm t t')" by (rule suffix_ConsD)
  then show "thread_ok l" unfolding thread_ok_def by blast
  show "owed l + outcome_inc a \<le> owed (a # l) + (if a = MTotal then 1 else 0)"
    using s by (cases oc) (auto simp: script_def suffix_Cons owed_def)
  show "owed_cname l + (if a = MCname then 1 else 0) \<le> owed_cname (a # l) + (if \<exists>cl dm. a = MTally cl dm True then 1 else 0)"
    using s by (cases oc) (auto simp: script_def suffix_Cons owed_cname_def)
qed

lemma script_owed [simp]: "owed (script oc cl dm t t') = 0" "owed_cname (script oc cl dm t t') = 0"
  by (cases oc; simp add: script_def owed_def owed_cname_def)+

lemma script_ok [simp]: "thread_ok (script oc cl dm t t')"
  unfolding thread_ok_def by blast

text \<open>The invariant of the interleaving.\<close>

definition regs_le :: "regs \<Rightarrow> Counter \<Rightarrow> bool" where
  "regs_le r c = (r_cname r \<le> ct_cnameBlocked c \<and> r_blocked r \<le> ct_blocked c \<and> r_localPTR r \<le> ct_localPTR c
     \<and> r_localName r \<le> ct_localName c \<and> r_hits r \<le> ct_cacheHit c \<and> r_failures r \<le> ct_forwardFailures c
     \<and> r_errors r \<le> ct_upstreamErrors c)"

definition regs_outcomes :: "regs \<Rightarrow> nat" where
  "regs_outcomes r = r_blocked r + r_localPTR r + r_localName r + r_hits r + r_failures r + r_errors r"

fun iinv :: "istate \<Rightarrow> bool" where
  "iinv (c, ts, r) =
     (list_all thread_ok ts
      \<and> outcomes c + sum_list (map owed ts) \<le> ct_total c
      \<and> ct_cnameBlocked c + sum_list (map owed_cname ts) \<le> ct_blocked c
      \<and> regs_le r c \<and> (2 \<le> r_pc r \<longrightarrow> r_cname r \<le> r_blocked r)
      \<and> (8 \<le> r_pc r \<longrightarrow> regs_outcomes r \<le> r_total r))"

lemma regs_le_sum: "regs_le r c \<Longrightarrow> regs_outcomes r \<le> outcomes c"
  by (auto simp: regs_le_def regs_outcomes_def outcomes_def)

lemma load_next_le: "regs_le r c \<Longrightarrow> regs_le (load_next c r) c"
  by (auto simp: regs_le_def load_next_def Let_def)

lemma load_next_inv:
  assumes "regs_le r c" "ct_cnameBlocked c \<le> ct_blocked c" "outcomes c \<le> ct_total c"
    "2 \<le> r_pc r \<longrightarrow> r_cname r \<le> r_blocked r" "8 \<le> r_pc r \<longrightarrow> regs_outcomes r \<le> r_total r"
  shows "(2 \<le> r_pc (load_next c r) \<longrightarrow> r_cname (load_next c r) \<le> r_blocked (load_next c r))
     \<and> (8 \<le> r_pc (load_next c r) \<longrightarrow> regs_outcomes (load_next c r) \<le> r_total (load_next c r))"
proof -
  consider "r_pc r < 7" | "r_pc r = 7" | "8 \<le> r_pc r" by linarith
  then show ?thesis
  proof cases
    case 1
    then show ?thesis using assms by (auto simp: load_next_def regs_le_def Let_def)
  next
    case 2
    then show ?thesis using assms regs_le_sum [of r c]
      by (auto simp: load_next_def regs_outcomes_def Let_def)
  next
    case 3
    then show ?thesis using assms by (simp add: load_next_def)
  qed
qed

lemma sum_list_map_update:
  fixes f :: "'a \<Rightarrow> nat"
  assumes "i < length ts" shows "sum_list (map f (ts[i := x])) + f (ts ! i) = sum_list (map f ts) + f x"
proof -
  have "sum_list (map f ts) = sum_list (map f (take i ts)) + f (ts ! i) + sum_list (map f (drop (Suc i) ts))"
    by (subst id_take_nth_drop [OF assms]) simp
  then show ?thesis using assms by (simp add: upd_conv_take_nth_drop)
qed

lemma iinv_step:
  assumes "istep ord s s'" "iinv s" shows "iinv s'"
  using assms
proof (induction rule: istep.induct)
  case (arrive c ts r oc cl dm t)
  then show ?case by simp
next
  case (run i ts a rest c r)
  then have ok: "thread_ok (a # rest)" and inv: "iinv (c, ts, r)" by (auto simp: list_all_length)
  note st = thread_step [OF ok]
  have o: "sum_list (map owed (ts[i := rest])) + owed (a # rest) = sum_list (map owed ts) + owed rest"
    and oc: "sum_list (map owed_cname (ts[i := rest])) + owed_cname (a # rest) = sum_list (map owed_cname ts) + owed_cname rest"
    using sum_list_map_update [OF run(1), of owed rest] sum_list_map_update [OF run(1), of owed_cname rest] run(2) by simp_all
  have "list_all thread_ok (ts[i := rest])"
    using inv st(1) by (auto simp: list_all_iff dest: set_update_subset_insert [THEN subsetD])
  moreover have "outcomes (micro_sem ord a c) + sum_list (map owed (ts[i := rest])) \<le> ct_total (micro_sem ord a c)"
    using inv st(2) o by (simp add: micro_counts split: if_splits)
  moreover have "ct_cnameBlocked (micro_sem ord a c) + sum_list (map owed_cname (ts[i := rest])) \<le> ct_blocked (micro_sem ord a c)"
    using inv st(3) oc by (simp add: micro_counts split: if_splits)
  moreover have "regs_le r (micro_sem ord a c)"
    using inv micro_grows [of c ord a] by (auto simp: regs_le_def intro: order_trans)
  ultimately show ?case using inv by simp
next
  case (load c ts r)
  then show ?case using load_next_le [of r c] load_next_inv [of r c] by simp
qed

section \<open>Tallies\<close>

definition tally_ok :: "tally \<Rightarrow> bool" where
  "tally_ok m = (distinct (map fst m) \<and> length m \<le> topNMaxEntries)"

lemma length_AList_update: "length (AList.update k v m) \<le> Suc (length m)"
  by (induction m) auto

lemma tally_inc_distinct: "distinct (map fst m) \<Longrightarrow> distinct (map fst (tally_inc k m))"
  by (simp add: tally_inc_def distinct_update)

lemma map_of_tally_inc: "map_of (tally_inc k m) k' =
    (if k' = k then Some (Suc (case map_of m k of None \<Rightarrow> 0 | Some v \<Rightarrow> v)) else map_of m k')"
  by (simp add: tally_inc_def AList.update_conv')

lemma range_of_all: "mset (ord m) = mset m \<Longrightarrow> range_of ord m = ord m"
  unfolding range_of_def by (rule filter_True) (metis set_mset_mset)

lemma prune_subset: "set (pruneBottomHalf ord m) \<subseteq> set m"
  by (auto simp: pruneBottomHalf_def range_of_def Let_def dest: in_set_takeD)

lemma prune_length: "mset (ord m) = mset m \<Longrightarrow> length (pruneBottomHalf ord m) = length m div 2"
  using mset_eq_length [of "ord m" m] by (simp add: pruneBottomHalf_def Let_def range_of_all)

lemma distinct_fst_mset: "mset xs = mset ys \<Longrightarrow> distinct (map fst xs) = distinct (map fst ys)"
  by (rule mset_eq_imp_distinct_iff) simp

lemma prune_distinct:
  assumes "mset (ord m) = mset m" "distinct (map fst m)" shows "distinct (map fst (pruneBottomHalf ord m))"
proof -
  have "mset (sort_key (\<lambda>kv. - int (snd kv)) (ord m)) = mset m" using assms(1) by simp
  then have "distinct (map fst (sort_key (\<lambda>kv. - int (snd kv)) (ord m)))" using assms(2) distinct_fst_mset by blast
  then show ?thesis using assms(1) by (simp add: pruneBottomHalf_def Let_def range_of_all take_map [symmetric])
qed

lemma prune_keeps_top:
  assumes "kv \<in> set (pruneBottomHalf ord m)" "kv' \<in> set (drop (length (ord m) div 2) (sort_key (\<lambda>kv. - int (snd kv)) (ord m)))"
    "mset (ord m) = mset m"
  shows "snd kv' \<le> snd kv"
proof -
  let ?s = "sort_key (\<lambda>kv. - int (snd kv)) (ord m)" and ?h = "length (ord m) div 2"
  have so: "sorted (map (\<lambda>kv. - int (snd kv)) ?s)" by simp
  obtain i where i: "i < ?h" "?s ! i = kv"
    using assms(1,3) by (auto simp: pruneBottomHalf_def Let_def range_of_all in_set_conv_nth)
  obtain j where j: "?h + j < length ?s" "?s ! (?h + j) = kv'"
    using assms(2) by (auto simp: in_set_conv_nth less_diff_conv add.commute)
  have "map (\<lambda>kv. - int (snd kv)) ?s ! i \<le> map (\<lambda>kv. - int (snd kv)) ?s ! (?h + j)"
    using i j by (intro sorted_nth_mono [OF so]) auto
  then show ?thesis using i j by simp
qed

lemma tally_ok_step:
  assumes "\<forall>m. mset (ord m) = mset m" "tally_ok m"
  shows "tally_ok (prune_if_full ord m)" "tally_ok (prune_if_full ord (tally_inc k m))"
proof -
  show "tally_ok (prune_if_full ord m)" using assms(2) by (simp add: tally_ok_def prune_if_full_def)
  have "length (tally_inc k m) \<le> Suc topNMaxEntries"
    using assms(2) length_AList_update [of k _ m] by (auto simp: tally_ok_def tally_inc_def intro: order_trans)
  then show "tally_ok (prune_if_full ord (tally_inc k m))"
    using assms prune_length [of ord "tally_inc k m"] prune_distinct [of ord "tally_inc k m"] tally_inc_distinct [of m k]
    by (auto simp: tally_ok_def prune_if_full_def)
qed

definition counter_ok :: "Counter \<Rightarrow> bool" where
  "counter_ok c = (tally_ok (ct_topDomains c) \<and> tally_ok (ct_topClients c) \<and> length (ct_timeline c) = nat timelineMinutes)"

lemma length_bump_at [simp]: "length (bump_at t now f) = length t"
  by (simp add: bump_at_def timeline_at_def Let_def)

lemma counter_ok_micro:
  assumes "\<forall>m. mset (ord m) = mset m" "counter_ok c" shows "counter_ok (micro_sem ord a c)"
  using assms(2) tally_ok_step [OF assms(1)]
  by (cases a) (auto simp: counter_ok_def recorder_defs graph_query_def tally_locked_def Let_def)

datatype stats_op = Step micro | PurgeTallies | PurgeGraph

fun stats_exec :: "(tally \<Rightarrow> tally) \<Rightarrow> stats_op \<Rightarrow> Counter \<Rightarrow> Counter" where
  "stats_exec ord (Step a) c = micro_sem ord a c"
| "stats_exec ord PurgeTallies c = ResetTallies c"
| "stats_exec ord PurgeGraph c = ResetTimeline c"

lemma counter_ok_exec:
  assumes "\<forall>m. mset (ord m) = mset m" shows "counter_ok c \<Longrightarrow> counter_ok (fold (stats_exec ord) ops c)"
proof (induction ops arbitrary: c)
  case (Cons op ops)
  moreover have "counter_ok (stats_exec ord op c)"
    using counter_ok_micro [OF assms] Cons.prems
    by (cases op) (auto simp: counter_ok_def ResetTallies_def ResetTimeline_def timeline_reset_def tally_ok_def)
  ultimately show ?case by simp
qed simp

lemma counter_ok_New: "counter_ok (stats_New t)"
  by (simp add: counter_ok_def stats_New_def tally_ok_def)

subsection \<open>Top lists\<close>

lemma sort_key_unique:
  assumes "mset xs = mset ys" "inj_on f (set xs)" shows "sort_key f xs = sort_key f ys"
proof -
  have "mset (map f xs) = mset (map f ys)" using assms(1) by simp
  then have "sort (map f xs) = sort (map f ys)" by (metis properties_for_sort sorted_sort mset_sort)
  moreover have "map f (sort_key f zs) = sort (map f zs)" for zs
    by (rule properties_for_sort [symmetric]) auto
  ultimately have "map f (sort_key f xs) = map f (sort_key f ys)" by simp
  moreover have "set xs = set ys" using assms(1) by (metis set_mset_mset)
  ultimately show ?thesis using assms(2) by (intro map_inj_on [of f]) auto
qed

definition rank :: "Entry \<Rightarrow> int \<times> string" where
  "rank e = (- int (en_Count e), en_Name e)"

lemma rank_inj: "inj rank"
  by (auto simp: inj_def rank_def intro!: Entry.equality)

definition target_map :: "Counter \<Rightarrow> topNTarget \<Rightarrow> tally" where
  "target_map c tg = (case tg of topNDomains \<Rightarrow> ct_topDomains c | topNClients \<Rightarrow> ct_topClients c)"

lemma topN_eq:
  "topN ord c tg n = (let s = sort_key rank (map (\<lambda>kv. \<lparr>en_Name = fst kv, en_Count = snd kv\<rparr>) (ord (target_map c tg)))
     in if 0 < n \<and> n < int (length s) then take (nat n) s else s)"
  by (simp add: topN_def target_map_def rank_def [abs_def] Let_def)

section \<open>The graph ring\<close>

datatype gevent = GQuery bool | GCached | GUnresolved | GError

fun bump :: "gevent \<Rightarrow> minuteBucket \<Rightarrow> minuteBucket" where
  "bump (GQuery b) m = (let b1 = m\<lparr>mb_total := mb_total m + 1\<rparr> in if b then b1\<lparr>mb_blocked := mb_blocked b1 + 1\<rparr> else b1)"
| "bump GCached m = m\<lparr>mb_cached := mb_cached m + 1\<rparr>"
| "bump GUnresolved m = m\<lparr>mb_unresolved := mb_unresolved m + 1\<rparr>"
| "bump GError m = m\<lparr>mb_upstreamError := mb_upstreamError m + 1\<rparr>"

definition ring_step :: "time \<times> gevent \<Rightarrow> timeline \<Rightarrow> timeline" where
  "ring_step te t = bump_at t (fst te) (bump (snd te))"

text \<open>The graph events of a step when the query log records everything.\<close>

fun graph_events :: "micro \<Rightarrow> (time \<times> gevent) list" where
  "graph_events (MGraph t b) = [(t, GQuery b)]"
| "graph_events (MHit t) = [(t, GCached)]"
| "graph_events (MFail t) = [(t, GUnresolved)]"
| "graph_events (MErr t) = [(t, GError)]"
| "graph_events _ = []"

lemma micro_timeline:
  assumes "ct_graphMode c = ''all''"
  shows "ct_timeline (micro_sem ord a c) = fold ring_step (graph_events a) (ct_timeline c)"
    and "ct_graphMode (micro_sem ord a c) = ''all''"
  using assms
  by (cases a; simp add: recorder_defs graph_query_def tally_locked_def graphs_def ring_step_def Let_def bump.simps [abs_def])+

lemma run_timeline:
  "ct_graphMode c = ''all'' \<Longrightarrow> ct_timeline (fold (micro_sem ord) ms c) = fold ring_step (concat (map graph_events ms)) (ct_timeline c)"
  by (induction ms arbitrary: c) (simp_all add: micro_timeline)

text \<open>Reference: the counts of one minute, straight from the events.\<close>

definition count_if :: "('a \<Rightarrow> bool) \<Rightarrow> 'a list \<Rightarrow> nat" where
  "count_if P xs = length (filter P xs)"

definition bucket_spec :: "(time \<times> gevent) list \<Rightarrow> int \<Rightarrow> minuteBucket" where
  "bucket_spec evs m =
     \<lparr>mb_minute = m,
      mb_total = count_if (\<lambda>(t, e). unix_minute t = m \<and> (e = GQuery True \<or> e = GQuery False)) evs,
      mb_blocked = count_if (\<lambda>(t, e). unix_minute t = m \<and> e = GQuery True) evs,
      mb_cached = count_if (\<lambda>(t, e). unix_minute t = m \<and> e = GCached) evs,
      mb_unresolved = count_if (\<lambda>(t, e). unix_minute t = m \<and> e = GUnresolved) evs,
      mb_upstreamError = count_if (\<lambda>(t, e). unix_minute t = m \<and> e = GError) evs\<rparr>"

definition ring_read :: "timeline \<Rightarrow> int \<Rightarrow> minuteBucket" where
  "ring_read t m = (if mb_minute (t ! slot_of m) = m then t ! slot_of m else empty_bucket m)"

lemma bucket_spec_snoc:
  "bucket_spec (evs @ [te]) m = (if unix_minute (fst te) = m then bump (snd te) (bucket_spec evs m) else bucket_spec evs m)"
  by (cases "snd te") (auto simp: bucket_spec_def count_if_def split: prod.splits)

lemma bucket_spec_none: "\<forall>te \<in> set evs. unix_minute (fst te) \<noteq> m \<Longrightarrow> bucket_spec evs m = empty_bucket m"
  by (induction evs rule: rev_induct) (auto simp: bucket_spec_snoc, simp add: bucket_spec_def empty_bucket_def count_if_def)

lemma bump_minute [simp]: "mb_minute (bump e b) = mb_minute b"
  by (cases e) (auto simp: Let_def)

lemma slot_of_less [simp]: "slot_of m < nat timelineMinutes"
  by (simp add: slot_of_def timelineMinutes_def nat_less_iff)

lemma ring_step_read:
  assumes "length t = nat timelineMinutes"
  shows "ring_read (ring_step te t) m =
     (if unix_minute (fst te) = m then bump (snd te) (ring_read t m)
      else if slot_of (unix_minute (fst te)) = slot_of m then empty_bucket m else ring_read t m)"
  using assms slot_of_less [of m]
  by (auto simp: ring_read_def ring_step_def bump_at_def timeline_at_def Let_def nth_list_update empty_bucket_def)

lemma slot_of_eq: "slot_of a = slot_of b \<Longrightarrow> a \<le> b \<Longrightarrow> b - a < timelineMinutes \<Longrightarrow> a = b"
proof -
  assume a: "slot_of a = slot_of b" "a \<le> b" "b - a < timelineMinutes"
  then have "a mod timelineMinutes = b mod timelineMinutes"
    by (simp add: slot_of_def timelineMinutes_def)
  then have "(b - a) mod timelineMinutes = 0" by (metis mod_diff_cong mod_0 diff_self)
  with a show "a = b" by simp
qed

lemma length_ring: "length (fold ring_step evs t) = length t"
  by (induction evs arbitrary: t) (auto simp: ring_step_def)

text \<open>The ring refines the reference on the last 24 hours, for events in the order of their minutes.\<close>

lemma ring_refines:
  assumes "sorted (map (unix_minute \<circ> fst) evs)" "\<forall>te \<in> set evs. unix_minute (fst te) \<le> now"
    and "now - timelineMinutes < m" "m \<le> now"
  shows "ring_read (fold ring_step evs (replicate (nat timelineMinutes) (empty_bucket 0))) m = bucket_spec evs m"
  using assms(1,2)
proof (induction evs rule: rev_induct)
  case Nil
  then show ?case by (auto simp: ring_read_def bucket_spec_none empty_bucket_def bucket_spec_def count_if_def)
next
  case (snoc te evs)
  let ?t = "fold ring_step evs (replicate (nat timelineMinutes) (empty_bucket 0))" and ?M = "unix_minute (fst te)"
  have len: "length ?t = nat timelineMinutes" by (simp add: length_ring)
  have IH: "ring_read ?t m = bucket_spec evs m" using snoc by (simp add: sorted_append)
  have le: "\<forall>te' \<in> set evs. unix_minute (fst te') \<le> ?M" using snoc.prems(1) by (auto simp: sorted_append)
  have "?M \<le> now" using snoc.prems(2) by simp
  show ?case
  proof (cases "?M \<noteq> m \<and> slot_of ?M = slot_of m")
    case True
    have "m > ?M"
    proof (rule ccontr)
      assume "\<not> m > ?M"
      then show False using True slot_of_eq [of m ?M] assms(3) \<open>?M \<le> now\<close> by simp
    qed
    with le have "bucket_spec evs m = empty_bucket m" by (intro bucket_spec_none) auto
    with True show ?thesis by (simp add: ring_step_read [OF len] bucket_spec_snoc)
  next
    case False
    then show ?thesis using IH by (auto simp: ring_step_read [OF len] bucket_spec_snoc)
  qed
qed

subsection \<open>The series\<close>

definition series_bucket :: "(time \<times> gevent) list \<Rightarrow> int \<Rightarrow> int \<Rightarrow> int \<Rightarrow> TimelineBucket" where
  "series_bucket evs nowMin bm start =
     (let inb = (\<lambda>t. start \<le> unix_minute t \<and> unix_minute t < start + bm \<and> nowMin - unix_minute t < timelineMinutes)
      in \<lparr>tb_Start = start * 60,
          tb_Total = count_if (\<lambda>(t, e). inb t \<and> (e = GQuery True \<or> e = GQuery False)) evs,
          tb_Blocked = count_if (\<lambda>(t, e). inb t \<and> e = GQuery True) evs,
          tb_Cached = count_if (\<lambda>(t, e). inb t \<and> e = GCached) evs,
          tb_Unresolved = count_if (\<lambda>(t, e). inb t \<and> e = GUnresolved) evs,
          tb_UpstreamError = count_if (\<lambda>(t, e). inb t \<and> e = GError) evs\<rparr>)"

lemma add_minute_read:
  "add_minute t now m tb = (if timelineMinutes \<le> now - m then tb
     else let b = ring_read t m in
       tb\<lparr>tb_Total := tb_Total tb + mb_total b, tb_Blocked := tb_Blocked tb + mb_blocked b,
          tb_Cached := tb_Cached tb + mb_cached b, tb_Unresolved := tb_Unresolved tb + mb_unresolved b,
          tb_UpstreamError := tb_UpstreamError tb + mb_upstreamError b\<rparr>)"
  by (simp add: add_minute_def ring_read_def empty_bucket_def Let_def)

lemma count_if_disjoint:
  "(\<And>x. x \<in> set xs \<Longrightarrow> \<not> (P x \<and> Q x)) \<Longrightarrow> count_if P xs + count_if Q xs = count_if (\<lambda>x. P x \<or> Q x) xs"
  by (induction xs) (auto simp: count_if_def)

lemma count_if_cong: "(\<And>x. x \<in> set xs \<Longrightarrow> P x = Q x) \<Longrightarrow> count_if P xs = count_if Q xs"
  by (auto simp: count_if_def intro: arg_cong [where f = length] filter_cong)

lemma series_empty: "series_bucket evs now 0 start = \<lparr>tb_Start = start * 60, tb_Total = 0, tb_Blocked = 0, tb_Cached = 0, tb_Unresolved = 0, tb_UpstreamError = 0\<rparr>"
  by (auto simp: series_bucket_def count_if_def Let_def filter_empty_conv)

lemma series_step:
  assumes "0 \<le> w" "now - (start + w) < timelineMinutes \<Longrightarrow> ring_read t (start + w) = bucket_spec evs (start + w)"
  shows "add_minute t now (start + w) (series_bucket evs now w start) = series_bucket evs now (w + 1) start"
proof (cases "timelineMinutes \<le> now - (start + w)")
  case True
  then have *: "(start \<le> u \<and> u < start + w \<and> now - u < timelineMinutes) = (start \<le> u \<and> u < start + (w + 1) \<and> now - u < timelineMinutes)" for u
    by auto
  show ?thesis using True by (simp add: add_minute_read series_bucket_def * Let_def)
next
  case False
  have *: "(\<lambda>x. (start \<le> unix_minute (fst x) \<and> unix_minute (fst x) < start + w \<and> now - unix_minute (fst x) < timelineMinutes) \<and> Q (snd x)
        \<or> unix_minute (fst x) = start + w \<and> Q (snd x)) =
     (\<lambda>x. (start \<le> unix_minute (fst x) \<and> unix_minute (fst x) < start + (w + 1) \<and> now - unix_minute (fst x) < timelineMinutes) \<and> Q (snd x))" for Q :: "gevent \<Rightarrow> bool"
    using False assms(1) by (auto intro!: ext)
  have add: "count_if (\<lambda>x. (start \<le> unix_minute (fst x) \<and> unix_minute (fst x) < start + w \<and> now - unix_minute (fst x) < timelineMinutes) \<and> Q (snd x)) evs
       + count_if (\<lambda>x. unix_minute (fst x) = start + w \<and> Q (snd x)) evs
     = count_if (\<lambda>x. (start \<le> unix_minute (fst x) \<and> unix_minute (fst x) < start + (w + 1) \<and> now - unix_minute (fst x) < timelineMinutes) \<and> Q (snd x)) evs" for Q :: "gevent \<Rightarrow> bool"
    unfolding * [symmetric] by (rule count_if_disjoint) auto
  show ?thesis
    using False assms(2) add [of "\<lambda>e. e = GQuery True \<or> e = GQuery False"] add [of "\<lambda>e. e = GQuery True"]
      add [of "\<lambda>e. e = GCached"] add [of "\<lambda>e. e = GUnresolved"] add [of "\<lambda>e. e = GError"]
    by (simp add: add_minute_read series_bucket_def bucket_spec_def case_prod_unfold Let_def)
qed

lemma series_fold:
  assumes "\<And>m. start \<le> m \<Longrightarrow> m < start + int w \<Longrightarrow> now - m < timelineMinutes \<Longrightarrow> ring_read t m = bucket_spec evs m"
  shows "fold (add_minute t now) [start..start + int w - 1]
     \<lparr>tb_Start = start * 60, tb_Total = 0, tb_Blocked = 0, tb_Cached = 0, tb_Unresolved = 0, tb_UpstreamError = 0\<rparr>
     = series_bucket evs now (int w) start"
  using assms
proof (induction w)
  case 0
  then show ?case by (simp add: series_empty)
next
  case (Suc w)
  have "[start..start + int (Suc w) - 1] = [start..start + int w - 1] @ [start + int w]"
    using upto_rec2 [of start "start + int w"] by simp
  then show ?case using Suc series_step [of "int w" now start t evs] by (simp add: add.commute)
qed

lemma series_cut:
  assumes "\<forall>te \<in> set evs. unix_minute (fst te) \<le> now" "w \<le> w'" "now < start + w"
  shows "series_bucket evs now w start = series_bucket evs now w' start"
  using assms by (auto simp: series_bucket_def Let_def intro!: count_if_cong)

section \<open>Properties\<close>

text \<open>a snapshot that runs while any number of queries are at any point of their counting never
  shows more outcomes than queries. With every increment and load an atomic step in any order,
  the values \<open>Snapshot\<close> has loaded satisfy blocked + local PTR + local names + cache hits + failures
  + upstream errors \<open>\<le>\<close> total and CNAME-blocked \<open>\<le>\<close> blocked, so the forwardable count is at least the
  hits and both percentages are at most 100.\<close>

theorem snapshot_consistent:
  assumes "(istep ord)\<^sup>*\<^sup>* (stats_New t0, [], regs0) (c, ts, r)" "r_pc r = 8"
  shows "r_blocked r + r_localPTR r + r_localName r + r_hits r + r_failures r + r_errors r \<le> r_total r
     \<and> r_cname r \<le> r_blocked r \<and> int (r_hits r) \<le> forwardable r
     \<and> su_BlockedPct (summary_of ord c r now n) \<le> 100 \<and> su_CacheHitPct (summary_of ord c r now n) \<le> 100"
proof -
  have init: "iinv (stats_New t0, [], regs0)"
    by (simp add: stats_New_def regs0_def regs_le_def outcomes_def)
  have "iinv s'" if "(istep ord)\<^sup>*\<^sup>* s s'" "iinv s" for s s'
    using that by (induction rule: rtranclp_induct) (auto intro: iinv_step)
  then have inv: "iinv (c, ts, r)" using assms(1) init by blast
  then have sum: "r_blocked r + r_localPTR r + r_localName r + r_hits r + r_failures r + r_errors r \<le> r_total r"
    and cn: "r_cname r \<le> r_blocked r" using assms(2) by (simp_all add: regs_outcomes_def)
  have f: "int (r_hits r) \<le> forwardable r" using sum by (simp add: forwardable_def)
  have "su_BlockedPct (summary_of ord c r now n) \<le> 100"
    using sum by (auto simp: summary_of_def divide_le_eq)
  moreover have "su_CacheHitPct (summary_of ord c r now n) \<le> 100"
  proof -
    have "(of_nat (r_hits r) :: rat) \<le> of_int (forwardable r)"
      using f by (metis of_int_le_iff of_int_of_nat_eq)
    then show ?thesis by (auto simp: summary_of_def divide_le_eq)
  qed
  ultimately show ?thesis using sum cn f by simp
qed

theorem snapshot_consistent_witness:
  "r_blocked ((load_next (stats_New 0) ^^ 8) regs0) \<le> r_total ((load_next (stats_New 0) ^^ 8) regs0)
   \<and> (istep id)\<^sup>*\<^sup>* (stats_New 0, [], regs0) (stats_New 0, [script OHit [] [] 0 0], (load_next (stats_New 0) ^^ 8) regs0)"
proof -
  have "(istep id)\<^sup>*\<^sup>* (c, ts, r) (c, ts, (load_next c ^^ k) r)" for c ts r k
    by (induction k) (auto intro: rtranclp.rtrancl_into_rtrancl istep.load)
  then have run: "(istep id)\<^sup>*\<^sup>* (stats_New 0, [], regs0) (stats_New 0, [script OHit [] [] 0 0], (load_next (stats_New 0) ^^ 8) regs0)"
    by (meson converse_rtranclp_into_rtranclp istep.arrive)
  have "r_pc ((load_next (stats_New 0) ^^ 8) regs0) = 8"
    by (simp add: load_next_def regs0_def numeral_eq_Suc Let_def)
  from snapshot_consistent [OF run this, of 0 0] run show ?thesis by simp
qed

text \<open>the memory of the tallies is bounded: after any sequence of counting steps and purges, each
  of the two maps has at most 4096 distinct names, whatever order Go's map iteration takes, and a
  prune keeps entries whose counts are at least those it drops.\<close>

theorem tallies_bounded:
  assumes "\<forall>m. mset (ord m) = mset m"
  shows "length (ct_topDomains (fold (stats_exec ord) ops (stats_New t))) \<le> 4096
     \<and> length (ct_topClients (fold (stats_exec ord) ops (stats_New t))) \<le> 4096
     \<and> (\<forall>m kv kv'. kv \<in> set (pruneBottomHalf ord m)
          \<and> kv' \<in> set (drop (length m div 2) (sort_key (\<lambda>kv. - int (snd kv)) (ord m))) \<longrightarrow> snd kv' \<le> snd kv)"
proof -
  have "length (ord m) = length m" for m using assms mset_eq_length by blast
  then have "\<forall>m kv kv'. kv \<in> set (pruneBottomHalf ord m)
      \<and> kv' \<in> set (drop (length m div 2) (sort_key (\<lambda>kv. - int (snd kv)) (ord m))) \<longrightarrow> snd kv' \<le> snd kv"
    using prune_keeps_top [of _ ord] assms by fastforce
  moreover have "counter_ok (fold (stats_exec ord) ops (stats_New t))" by (rule counter_ok_exec [OF assms counter_ok_New])
  ultimately show ?thesis by (simp only: counter_ok_def tally_ok_def topNMaxEntries_def)
qed

theorem tallies_bounded_witness:
  "length (ct_topClients (fold (stats_exec rev) [Step (MTally ''10.0.0.1'' [] False), PurgeTallies] (stats_New 0))) \<le> 4096
   \<and> pruneBottomHalf rev [(''a'', 1), (''b'', 7), (''c'', 3), (''d'', 3)] = [(''b'', 7), (''d'', 3)]"
proof -
  have "pruneBottomHalf rev [(''a'', 1), (''b'', 7), (''c'', 3), (''d'', 3)] = [(''b'', 7), (''d'', 3)]" by code_simp
  then show ?thesis using tallies_bounded [of rev "[Step (MTally ''10.0.0.1'' [] False), PurgeTallies]" 0] by simp
qed

text \<open>a Top list does not depend on the iteration order of the map: it is the entries of the map
  ordered by falling count and then by name, cut to \<open>n\<close> when \<open>n\<close> is positive.\<close>

theorem topN_deterministic:
  assumes "\<forall>m. mset (ord m) = mset m" "\<forall>m. mset (ord' m) = mset m"
  shows "topN ord c tg n = topN ord' c tg n
     \<and> sorted (map rank (topN ord c tg n))
     \<and> (0 < n \<longrightarrow> int (length (topN ord c tg n)) \<le> n)
     \<and> (\<forall>e \<in> set (topN ord c tg n). (en_Name e, en_Count e) \<in> set (target_map c tg))"
proof -
  let ?f = "\<lambda>kv. \<lparr>en_Name = fst kv, en_Count = snd kv\<rparr>" and ?m = "target_map c tg"
  have "mset (map ?f (ord ?m)) = mset (map ?f (ord' ?m))" using assms by simp
  then have "sort_key rank (map ?f (ord ?m)) = sort_key rank (map ?f (ord' ?m))"
    by (rule sort_key_unique) (rule inj_on_subset [OF rank_inj subset_UNIV])
  then have eq: "topN ord c tg n = topN ord' c tg n" by (simp only: topN_eq)
  obtain k where k: "topN ord c tg n = take k (sort_key rank (map ?f (ord ?m)))"
    and kn: "0 < n \<longrightarrow> int (length (topN ord c tg n)) \<le> n"
    by (rule that [of "if 0 < n then nat n else length (ord ?m)"]) (auto simp: topN_eq Let_def)
  have "sorted (map rank (topN ord c tg n))"
    unfolding k take_map [symmetric] by (rule sorted_wrt_take) simp
  moreover have "set (ord ?m) = set ?m" using assms(1) by (metis set_mset_mset)
  then have "\<forall>e \<in> set (topN ord c tg n). (en_Name e, en_Count e) \<in> set ?m"
    unfolding k using set_take_subset [of k "sort_key rank (map ?f (ord ?m))"] by fastforce
  ultimately show ?thesis using eq kn by blast
qed

theorem topN_deterministic_witness:
  "topN rev ((stats_New 0)\<lparr>ct_topDomains := [(''b'', 2), (''a'', 2), (''c'', 9)]\<rparr>) topNDomains 2 =
     [\<lparr>en_Name = ''c'', en_Count = 9\<rparr>, \<lparr>en_Name = ''a'', en_Count = 2\<rparr>]
   \<and> topN id ((stats_New 0)\<lparr>ct_topDomains := [(''b'', 2), (''a'', 2), (''c'', 9)]\<rparr>) topNDomains 2 =
     [\<lparr>en_Name = ''c'', en_Count = 9\<rparr>, \<lparr>en_Name = ''a'', en_Count = 2\<rparr>]"
proof -
  have "topN id ((stats_New 0)\<lparr>ct_topDomains := [(''b'', 2), (''a'', 2), (''c'', 9)]\<rparr>) topNDomains 2 =
     [\<lparr>en_Name = ''c'', en_Count = 9\<rparr>, \<lparr>en_Name = ''a'', en_Count = 2\<rparr>]" by code_simp
  then show ?thesis
    using topN_deterministic [of rev id "(stats_New 0)\<lparr>ct_topDomains := [(''b'', 2), (''a'', 2), (''c'', 9)]\<rparr>" topNDomains 2] by simp
qed

text \<open>the graph counts right: when the query log records everything and the events come in the
  order of their minutes, the series that \<open>Timeline\<close> returns from the ring of 1440 reused buckets
  equals the series computed from the whole event history, restricted to the last 24 hours. Its
  bucket starts are aligned and one bucket width apart, and it has window / bucket of them.\<close>

theorem timeline_counts:
  assumes "sorted (map (unix_minute \<circ> fst) evs)" "\<forall>te \<in> set evs. unix_minute (fst te) \<le> unix_minute now"
    and evs: "evs = concat (map graph_events ms)"
    and c: "c = fold (micro_sem ord) ms (SetQueryLogMode (stats_New t0) ''all'')"
    and bm: "bm = max 1 (go_div bucket minute)" and w: "w = max 1 (go_div (go_div (min window TimelineWindow) minute) bm)"
  shows "Timeline c window bucket now =
     map (\<lambda>i. series_bucket evs (unix_minute now) bm (unix_minute now div bm * bm - (w - 1) * bm + i * bm)) [0..w - 1]"
proof -
  let ?n = "unix_minute now" and ?t = "ct_timeline c"
  have "?t = fold ring_step evs (replicate (nat timelineMinutes) (empty_bucket 0))"
    using run_timeline [of "SetQueryLogMode (stats_New t0) ''all''" ord ms]
    by (simp add: c evs SetQueryLogMode_def stats_New_def)
  then have ring: "ring_read ?t m = bucket_spec evs m" if "?n - m < timelineMinutes" "m \<le> ?n" for m
    using ring_refines [OF assms(1,2), of m] that by simp
  have bm1: "1 \<le> bm" using bm by simp
  have "fold (add_minute ?t ?n) [start..min (start + bm - 1) ?n]
        \<lparr>tb_Start = start * 60, tb_Total = 0, tb_Blocked = 0, tb_Cached = 0, tb_Unresolved = 0, tb_UpstreamError = 0\<rparr>
      = series_bucket evs ?n bm start" if "start \<le> ?n" for start
  proof (cases "start + bm - 1 \<le> ?n")
    case True
    then show ?thesis using series_fold [of start "nat bm" ?n ?t evs] ring bm1 by (simp add: min_def)
  next
    case False
    then show ?thesis
      using series_fold [of start "nat (?n - start + 1)" ?n ?t evs] ring that
        series_cut [OF assms(2), of "?n - start + 1" bm start] by (simp add: min_def)
  qed
  moreover have "?n div bm * bm - (w - 1) * bm + i * bm \<le> ?n" if "i \<in> set [0..w - 1]" for i
  proof -
    have "?n div bm * bm \<le> ?n" using bm1 by (simp add: minus_mod_eq_div_mult [symmetric])
    moreover have "i * bm \<le> (w - 1) * bm" using that bm1 by (intro mult_right_mono) auto
    ultimately show ?thesis by linarith
  qed
  ultimately show ?thesis
    unfolding Timeline_def Let_def bm [symmetric] w [symmetric] by (intro map_cong refl) blast
qed

end
