(* ===== verification/Query_Log.thy ===== *)
theory Query_Log
  imports Net_Addr
begin

text \<open>
  The query-log records and the file sink, \<open>src/internal/querylog/logger.go\<close>. The interface that
  both sinks share (filter by mode, bounded queue, drop on overflow) is the locale
  \<open>queue_sink\<close>; it is interpreted on the file logger here and on the database logger in the
  theory \<open>Query_Db\<close>. The writer goroutine is a step function on the logger's state: one event of
  \<open>file_event\<close> is one pass of its select loop or one call from outside. Time formatting is the
  argument \<open>fmt\<close>, and each file operation that can fail is an outcome in \<open>trunc_env\<close>.
\<close>

section \<open>Model\<close>

subsection \<open>Records\<close>

datatype BlockSource = BlockedByName | BlockedByCNAME | OtherSource int

fun BlockSource_String :: "BlockSource \<Rightarrow> string" where
  "BlockSource_String BlockedByName = ''name''"
| "BlockSource_String BlockedByCNAME = ''cname''"
| "BlockSource_String (OtherSource n) = ''unknown''"

record Record =
  rec_ClientIP :: string
  rec_Domain :: string
  rec_Blocked :: bool
  rec_CacheHit :: bool
  rec_Rcode :: int
  rec_Synthesized :: bool
  rec_BlockSource :: BlockSource

definition isUnresolved :: "int \<Rightarrow> bool \<Rightarrow> bool" where
  "isUnresolved rcode synthesized = (synthesized \<and> rcode = 2)"

definition isUpstreamError :: "int \<Rightarrow> bool \<Rightarrow> bool" where
  "isUpstreamError rcode synthesized = (\<not> synthesized \<and> (rcode = 2 \<or> rcode = 5))"

definition rec_Unresolved :: "Record \<Rightarrow> bool" where
  "rec_Unresolved r = isUnresolved (rec_Rcode r) (rec_Synthesized r)"

definition rec_UpstreamError :: "Record \<Rightarrow> bool" where
  "rec_UpstreamError r = isUpstreamError (rec_Rcode r) (rec_Synthesized r)"

definition rec_Failed :: "Record \<Rightarrow> bool" where
  "rec_Failed r = (rec_Unresolved r \<or> rec_UpstreamError r)"

subsection \<open>MaskClientIP\<close>

text \<open>\<open>Mask\<close> with a /24 on an IPv4 and a /64 on an IPv6 address.\<close>

fun mask_subnet :: "addr \<Rightarrow> addr" where
  "mask_subnet (Addr4 a) = Addr4 (mask_top 24 a)"
| "mask_subnet (Addr6 a z) = Addr6 (mask_top 64 a) []"
| "mask_subnet NoAddr = NoAddr"

definition MaskClientIP :: "iptext \<Rightarrow> string \<Rightarrow> string \<Rightarrow> string" where
  "MaskClientIP T ip mode =
     (if mode = ''full'' then ip
      else if mode = ''subnet'' then
        (case ParseIP T ip of None \<Rightarrow> [] | Some parsed \<Rightarrow> AddrString T (mask_subnet parsed))
      else [])"

subsection \<open>The mode filter\<close>

definition wants :: "string \<Rightarrow> Record \<Rightarrow> bool" where
  "wants logQueries r = (logQueries \<noteq> ''none'' \<and> \<not> (logQueries = ''blocked'' \<and> \<not> rec_Blocked r))"

subsection \<open>FileLogger\<close>

record FileLogger =
  fl_stdout :: bool            \<comment> \<open>standard output: no closer, no path\<close>
  fl_logQueries :: string
  fl_ch :: "string list"       \<comment> \<open>queued lines, oldest first\<close>
  fl_written :: "string list"  \<comment> \<open>the lines in the file or on standard output\<close>
  fl_dropped :: nat
  fl_done :: bool

definition fileQueueSize :: nat where "fileQueueSize = 1024"

text \<open>\<open>None\<close>: the file could not be opened, and the caller turns the output off.\<close>

definition NewFileLogger :: "string option \<Rightarrow> string list \<Rightarrow> string \<Rightarrow> string \<Rightarrow> string + FileLogger" where
  "NewFileLogger open_err existing dest logQueries =
     (if dest = ''stdout''
      then Inr \<lparr>fl_stdout = True, fl_logQueries = logQueries, fl_ch = [], fl_written = [], fl_dropped = 0, fl_done = False\<rparr>
      else (case open_err of
          Some e \<Rightarrow> Inl e
        | None \<Rightarrow> Inr \<lparr>fl_stdout = False, fl_logQueries = logQueries, fl_ch = [], fl_written = existing,
                       fl_dropped = 0, fl_done = False\<rparr>))"

definition log_marker :: "Record \<Rightarrow> string" where
  "log_marker r =
     (if rec_Blocked r then (if rec_BlockSource r = BlockedByCNAME then '' CNAME'' else [])
      else if rec_CacheHit r then '' CACHED''
      else if rec_Failed r then '' FAILED'' else [])"

definition log_line :: "(time \<Rightarrow> string) \<Rightarrow> time \<Rightarrow> Record \<Rightarrow> string" where
  "log_line fmt now r =
     fmt now @ '' '' @ (if rec_Blocked r then ''BLOCK'' else ''ALLOW'') @ '' '' @ rec_ClientIP r @ '' ''
     @ rec_Domain r @ log_marker r @ [CHR 0x0A]"

definition FileLogger_Log :: "(time \<Rightarrow> string) \<Rightarrow> FileLogger \<Rightarrow> Record \<Rightarrow> time \<Rightarrow> FileLogger" where
  "FileLogger_Log fmt l r now =
     (if fl_logQueries l = ''none'' then l
      else if fl_logQueries l = ''blocked'' \<and> \<not> rec_Blocked r then l
      else if length (fl_ch l) < fileQueueSize then l\<lparr>fl_ch := fl_ch l @ [log_line fmt now r]\<rparr>
      else l\<lparr>fl_dropped := fl_dropped l + 1\<rparr>)"

datatype file_error = ErrStdoutNotPurgeable | ErrNotOverwritten string | TruncateErr string | FileClosed | CtxErr

record trunc_env =
  te_stat_err :: "string option"
  te_zero_err :: "string option"
  te_truncate_err :: "string option"
  te_truncateFile_err :: "string option"

definition truncate_log :: "trunc_env \<Rightarrow> FileLogger \<Rightarrow> FileLogger \<times> file_error option" where
  "truncate_log E l0 =
     (let l = l0\<lparr>fl_ch := []\<rparr> in
      if fl_stdout l then (l, Some ErrStdoutNotPurgeable)
      else
        let zerr = (case te_stat_err E of Some e \<Rightarrow> Some e | None \<Rightarrow> te_zero_err E);
            kept = (case te_truncate_err E of
                None \<Rightarrow> None
              | Some e \<Rightarrow> if te_stat_err E \<noteq> None \<or> te_truncateFile_err E \<noteq> None then Some e else None)
        in (case kept of
              Some e \<Rightarrow> (l, Some (TruncateErr e))
            | None \<Rightarrow> (l\<lparr>fl_written := []\<rparr>, map_option ErrNotOverwritten zerr)))"

text \<open>
  The select loop of the writer, and \<open>Log\<close> from a DNS goroutine. \<open>FWrite\<close> takes one line from the
  queue; \<open>FPurge\<close> is a \<open>Purge\<close> request that the writer accepts; \<open>FClose\<close> closes the done channel,
  after which the writer drains the queue and stops. A write error loses its line (\<open>ok\<close> false).
\<close>

datatype file_event = FLog Record time | FWrite bool | FPurge trunc_env | FClose "bool list"

fun write_lines :: "bool list \<Rightarrow> string list \<Rightarrow> string list" where
  "write_lines oks [] = []"
| "write_lines [] (x # xs) = x # xs"
| "write_lines (b # bs) (x # xs) = (if b then x # write_lines bs xs else write_lines bs xs)"

fun file_step :: "(time \<Rightarrow> string) \<Rightarrow> file_event \<Rightarrow> FileLogger \<Rightarrow> FileLogger" where
  "file_step fmt (FLog r now) l = FileLogger_Log fmt l r now"
| "file_step fmt (FWrite ok) l =
     (if fl_done l then l
      else (case fl_ch l of
          [] \<Rightarrow> l
        | x # xs \<Rightarrow> l\<lparr>fl_ch := xs, fl_written := fl_written l @ (if ok then [x] else [])\<rparr>))"
| "file_step fmt (FPurge E) l = (if fl_done l then l else fst (truncate_log E l))"
| "file_step fmt (FClose oks) l =
     (if fl_done l then l
      else l\<lparr>fl_done := True, fl_ch := [], fl_written := fl_written l @ write_lines oks (fl_ch l)\<rparr>)"

text \<open>What \<open>Purge\<close> returns to its caller. Its context can end while the request waits for the writer, which then
  never sees it, or while the caller waits for the answer, and then the writer purges all the same.\<close>

datatype purge_wait = Got_reply | Ended_before_send | Ended_before_reply

definition FileLogger_Purge :: "trunc_env \<Rightarrow> purge_wait \<Rightarrow> FileLogger \<Rightarrow> FileLogger \<times> file_error option" where
  "FileLogger_Purge E w l =
     (if fl_done l then (l, Some FileClosed)
      else (case w of
          Got_reply \<Rightarrow> truncate_log E l
        | Ended_before_send \<Rightarrow> (l, Some CtxErr)
        | Ended_before_reply \<Rightarrow> (fst (truncate_log E l), Some CtxErr)))"

subsection \<open>Multi\<close>

text \<open>\<open>Multi.Log\<close> over loggers of one kind of state, in order.\<close>

definition Multi_Log :: "('s \<Rightarrow> Record \<Rightarrow> time \<Rightarrow> 's) \<Rightarrow> 's list \<Rightarrow> Record \<Rightarrow> time \<Rightarrow> 's list" where
  "Multi_Log log ls r now = map (\<lambda>l. log l r now) ls"

section \<open>The interface of a sink\<close>

text \<open>
  A sink has a mode, a bounded queue and a count of refused entries. \<open>log\<close> ignores what the mode
  does not want, else appends to the queue if there is room, else counts a drop: it never waits
  and never touches what is already queued.
\<close>

locale queue_sink =
  fixes log :: "'s \<Rightarrow> Record \<Rightarrow> time \<Rightarrow> 's"
    and mode :: "'s \<Rightarrow> string"
    and queue :: "'s \<Rightarrow> 'e list"
    and drops :: "'s \<Rightarrow> nat"
    and entry_of :: "Record \<Rightarrow> time \<Rightarrow> 'e"
    and cap :: nat
  assumes log_unwanted: "\<not> wants (mode s) r \<Longrightarrow> log s r t = s"
    and log_room: "wants (mode s) r \<Longrightarrow> length (queue s) < cap \<Longrightarrow>
      queue (log s r t) = queue s @ [entry_of r t] \<and> drops (log s r t) = drops s"
    and log_full: "wants (mode s) r \<Longrightarrow> cap \<le> length (queue s) \<Longrightarrow>
      queue (log s r t) = queue s \<and> drops (log s r t) = Suc (drops s)"
    and log_mode: "mode (log s r t) = mode s"
begin

definition log_all :: "(Record \<times> time) list \<Rightarrow> 's \<Rightarrow> 's" where
  "log_all rs s = fold (\<lambda>(r, t) s. log s r t) rs s"

lemma log_all_Nil [simp]: "log_all [] s = s"
  by (simp add: log_all_def)

lemma log_all_Cons [simp]: "log_all ((r, t) # rs) s = log_all rs (log s r t)"
  by (simp add: log_all_def)

lemma log_all_mode [simp]: "mode (log_all rs s) = mode s"
  by (induction rs arbitrary: s) (auto simp: log_mode)

text \<open>Nothing is lost without being counted, and nothing is reordered.\<close>

lemma log_all_conserves:
  "length (queue (log_all rs s)) + drops (log_all rs s)
     = length (queue s) + drops s + length (filter (\<lambda>(r, t). wants (mode s) r) rs)"
proof (induction rs arbitrary: s)
  case (Cons rt rs)
  obtain r t where "rt = (r, t)" by force
  then show ?case
    using Cons [of "log s r t"] log_unwanted [of s r t] log_room [of s r t] log_full [of s r t] log_mode [of s r t]
    by (cases "wants (mode s) r"; cases "length (queue s) < cap") auto
qed simp

lemma log_all_bound: "length (queue s) \<le> cap \<Longrightarrow> length (queue (log_all rs s)) \<le> cap"
proof (induction rs arbitrary: s)
  case (Cons rt rs)
  obtain r t where rt: "rt = (r, t)" by force
  have "length (queue (log s r t)) \<le> cap"
    using Cons.prems log_unwanted [of s r t] log_room [of s r t] log_full [of s r t]
    by (cases "wants (mode s) r"; cases "length (queue s) < cap") auto
  then show ?case using Cons.IH by (simp add: rt)
qed simp

lemma log_all_queue:
  "\<exists>acc. queue (log_all rs s) = queue s @ acc
     \<and> subseq acc (map (\<lambda>(r, t). entry_of r t) (filter (\<lambda>(r, t). wants (mode s) r) rs))"
proof (induction rs arbitrary: s)
  case (Cons rt rs)
  obtain r t where rt: "rt = (r, t)" by force
  from Cons obtain acc where a: "queue (log_all rs (log s r t)) = queue (log s r t) @ acc"
    "subseq acc (map (\<lambda>(r, t). entry_of r t) (filter (\<lambda>(r, t). wants (mode s) r) rs))"
    unfolding log_mode [of s r t, symmetric] by blast
  show ?case
    using a rt log_unwanted [of s r t] log_room [of s r t] log_full [of s r t]
    by (cases "wants (mode s) r"; cases "length (queue s) < cap") auto
qed simp

lemma log_all_none: "mode s = ''none'' \<Longrightarrow> log_all rs s = s"
  by (induction rs) (auto simp: log_unwanted wants_def)

end

section \<open>Lemmas\<close>

interpretation fl: queue_sink "FileLogger_Log fmt" fl_logQueries fl_ch fl_dropped "\<lambda>r t. log_line fmt t r" fileQueueSize
  for fmt
  by unfold_locales (auto simp: FileLogger_Log_def wants_def)

lemma FileLogger_Log_simps [simp]:
  "fl_logQueries (FileLogger_Log fmt l r t) = fl_logQueries l" "fl_written (FileLogger_Log fmt l r t) = fl_written l"
  "fl_done (FileLogger_Log fmt l r t) = fl_done l" "fl_stdout (FileLogger_Log fmt l r t) = fl_stdout l"
  by (simp_all add: FileLogger_Log_def)

lemma set_write_lines: "set (write_lines oks xs) \<subseteq> set xs"
  by (induction oks xs rule: write_lines.induct) auto

lemma truncate_log_cases:
  "truncate_log E l = (l\<lparr>fl_ch := []\<rparr>, Some ErrStdoutNotPurgeable) \<and> fl_stdout l
   \<or> (\<exists>e. truncate_log E l = (l\<lparr>fl_ch := []\<rparr>, Some (TruncateErr e)))
   \<or> (\<exists>z. truncate_log E l = (l\<lparr>fl_ch := [], fl_written := []\<rparr>, z) \<and> (z = None \<or> (\<exists>e. z = Some (ErrNotOverwritten e))))"
  by (auto simp: truncate_log_def Let_def split: option.splits)

lemma truncate_log_mode [simp]: "fl_logQueries (fst (truncate_log E l)) = fl_logQueries l"
  using truncate_log_cases [of E l] by auto

definition file_holds :: "FileLogger \<Rightarrow> string set" where
  "file_holds l = set (fl_ch l) \<union> set (fl_written l)"

fun file_adds :: "(time \<Rightarrow> string) \<Rightarrow> string \<Rightarrow> file_event \<Rightarrow> string set" where
  "file_adds fmt M (FLog r t) = (if wants M r then {log_line fmt t r} else {})"
| "file_adds fmt M _ = {}"

lemma file_adds_iff: "x \<in> file_adds fmt M ev \<longleftrightarrow> (\<exists>r t. ev = FLog r t \<and> wants M r \<and> x = log_line fmt t r)"
  by (cases ev) auto

lemma FileLogger_Log_queue:
  "set (fl_ch (FileLogger_Log fmt l r t)) \<subseteq> set (fl_ch l) \<union> (if wants (fl_logQueries l) r then {log_line fmt t r} else {})"
  by (auto simp: FileLogger_Log_def wants_def)

interpretation flp: purgeable "file_step fmt" file_holds "file_adds fmt M" "\<lambda>l. fl_logQueries l = M"
  for fmt M
proof unfold_locales
  fix s :: FileLogger and ev
  assume "fl_logQueries s = M"
  then show "fl_logQueries (file_step fmt ev s) = M"
    by (cases ev) (auto split: list.splits)
next
  fix s :: FileLogger and ev
  assume m: "fl_logQueries s = M"
  show "file_holds (file_step fmt ev s) \<subseteq> file_holds s \<union> file_adds fmt M ev"
  proof (cases ev)
    case (FLog r t)
    then show ?thesis using FileLogger_Log_queue [of fmt s r t] m by (auto simp: file_holds_def split: if_splits)
  next
    case (FWrite b)
    then show ?thesis by (auto simp: file_holds_def split: list.splits)
  next
    case (FPurge E)
    then show ?thesis using truncate_log_cases [of E s] by (auto simp: file_holds_def)
  next
    case (FClose oks)
    then show ?thesis using set_write_lines [of oks "fl_ch s"] by (auto simp: file_holds_def)
  qed
qed

lemma mask_top_same:
  fixes a b :: "'a::len word"
  shows "same_top n a b \<Longrightarrow> mask_top n a = mask_top n b"
  by (simp add: same_top_def mask_top_def)

lemma mask_top_idem [simp]:
  fixes a :: "'a::len word"
  shows "mask_top n (mask_top n a) = mask_top n a"
proof -
  have "drop_bit k (push_bit k (drop_bit k a)) = drop_bit k a" for k
    by (rule bit_word_eqI) (auto simp: bit_simps dest: bit_imp_le_length)
  then show ?thesis by (simp add: mask_top_def)
qed

text \<open>Masking an IPv6 address to its /64 never gives an IPv4-mapped address from another.\<close>

lemma mask_subnet_mapped:
  "drop_bit 32 (mask_top 64 (a :: 128 word)) \<noteq> 0xffff"
proof
  assume h: "drop_bit 32 (mask_top 64 (a :: 128 word)) = 0xffff"
  have "bit (drop_bit 32 (mask_top 64 a)) 0 = bit (0xffff :: 128 word) 0" using h by simp
  then show False by (simp add: mask_top_def bit_simps)
qed

lemma mask_subnet_Unmap: "Unmap (mask_subnet (Unmap a)) = mask_subnet (Unmap a)"
  by (cases "Unmap a") (auto simp: mask_subnet_mapped)

lemma mask_subnet_idem: "mask_subnet (mask_subnet a) = mask_subnet a"
  by (cases a) auto

section \<open>Properties\<close>

text \<open>client masking. Under \<open>subnet\<close>, all clients of one /24 (IPv4, mapped addresses included) or one
  /64 (IPv6) are recorded as the same value, which masking leaves as it is; under any mode but
  \<open>full\<close> and \<open>subnet\<close> nothing is recorded, and under \<open>subnet\<close> nothing for a text that is no address.\<close>

theorem mask_client_anonymous:
  assumes "iptext_ok T" "a \<noteq> NoAddr" "b \<noteq> NoAddr" "Zone a = []" "Zone b = []"
    and "mask_subnet (Unmap a) = mask_subnet (Unmap b)"
  shows "MaskClientIP T (AddrString T a) ''subnet'' = MaskClientIP T (AddrString T b) ''subnet''
     \<and> MaskClientIP T (MaskClientIP T (AddrString T a) ''subnet'') ''subnet'' = MaskClientIP T (AddrString T a) ''subnet''
     \<and> (\<forall>ip mode. mode \<noteq> ''full'' \<and> mode \<noteq> ''subnet'' \<longrightarrow> MaskClientIP T ip mode = [])
     \<and> (\<forall>ip. ParseIP T ip = None \<longrightarrow> MaskClientIP T ip ''subnet'' = [])"
proof -
  have m: "MaskClientIP T (AddrString T a) ''subnet'' = AddrString T (mask_subnet (Unmap a))" if "a \<noteq> NoAddr" "Zone a = []" for a
    using that ParseIP_AddrString [OF assms(1)] by (simp add: MaskClientIP_def)
  have ne: "mask_subnet (Unmap a) \<noteq> NoAddr" using assms(2) by (cases a) auto
  have z: "Zone (mask_subnet (Unmap a)) = []" by (cases "Unmap a") auto
  have "MaskClientIP T (AddrString T (mask_subnet (Unmap a))) ''subnet'' = AddrString T (mask_subnet (Unmap a))"
    using m [OF ne z] by (simp add: mask_subnet_Unmap mask_subnet_idem)
  then show ?thesis using m assms(2-6) by (auto simp: MaskClientIP_def)
qed

theorem mask_client_anonymous_witness:
  "MaskClientIP demo_iptext (AddrString demo_iptext (Addr4 0xC0A80105)) ''subnet''
     = AddrString demo_iptext (Addr4 0xC0A80100)
   \<and> MaskClientIP demo_iptext (AddrString demo_iptext (Addr4 0xC0A801FE)) ''subnet''
     = AddrString demo_iptext (Addr4 0xC0A80100)"
proof -
  have "mask_subnet (Unmap (Addr4 0xC0A80105)) = mask_subnet (Unmap (Addr4 0xC0A801FE))" by code_simp
  from mask_client_anonymous [OF demo_iptext_ok _ _ _ _ this]
  have "MaskClientIP demo_iptext (AddrString demo_iptext (Addr4 0xC0A80105)) ''subnet''
     = MaskClientIP demo_iptext (AddrString demo_iptext (Addr4 0xC0A801FE)) ''subnet''" by simp
  moreover have "MaskClientIP demo_iptext (AddrString demo_iptext (Addr4 0xC0A80105)) ''subnet''
     = AddrString demo_iptext (Addr4 0xC0A80100)" by code_simp
  ultimately show ?thesis by simp
qed

text \<open>purging the file log: after a purge that emptied the file, whatever events follow, the file
  and the queue hold only lines logged after it, and only lines of queries that the mode records.\<close>

theorem file_purge_forgets:
  assumes "fl_logQueries l = M" "\<not> fl_done (fold (file_step fmt) pre l)"
    and "snd (truncate_log E (fold (file_step fmt) pre l)) \<in> {None, Some (ErrNotOverwritten z)}"
  shows "file_holds (fold (file_step fmt) (pre @ FPurge E # post) l)
     \<subseteq> {log_line fmt t r | r t. FLog r t \<in> set post \<and> wants M r}"
proof -
  have "file_holds (file_step fmt (FPurge E) (fold (file_step fmt) pre l)) = {}"
    using assms(2,3) truncate_log_cases [of E "fold (file_step fmt) pre l"] by (auto simp: file_holds_def)
  from flp.after_purge [OF assms(1) this, of post] show ?thesis
    unfolding UN_iff subset_iff file_adds_iff by fastforce
qed

definition demo_rec :: Record where
  "demo_rec = \<lparr>rec_ClientIP = [], rec_Domain = ''a.'', rec_Blocked = False, rec_CacheHit = False, rec_Rcode = 0,
     rec_Synthesized = False, rec_BlockSource = BlockedByName\<rparr>"

definition demo_file :: FileLogger where
  "demo_file = \<lparr>fl_stdout = False, fl_logQueries = ''all'', fl_ch = [], fl_written = [''old''], fl_dropped = 0, fl_done = False\<rparr>"

definition demo_trunc :: trunc_env where
  "demo_trunc = \<lparr>te_stat_err = None, te_zero_err = None, te_truncate_err = None, te_truncateFile_err = None\<rparr>"

theorem file_purge_forgets_witness:
  "file_holds (fold (file_step (\<lambda>t. [])) ([FLog demo_rec 0, FWrite True] @ FPurge demo_trunc # [FLog demo_rec 5]) demo_file)
   \<subseteq> {log_line (\<lambda>t. []) t r | r t. FLog r t \<in> set [FLog demo_rec 5] \<and> wants ''all'' r}
   \<and> fl_written (fold (file_step (\<lambda>t. [])) [FLog demo_rec 0, FWrite True] demo_file) = [''old'', '' ALLOW  a.'' @ [CHR 0x0A]]"
proof -
  let ?l = "fold (file_step (\<lambda>t. [])) [FLog demo_rec 0, FWrite True] demo_file"
  have "fl_logQueries demo_file = ''all''" by code_simp
  moreover have "\<not> fl_done ?l" by code_simp
  moreover have "snd (truncate_log demo_trunc ?l) \<in> {None, Some (ErrNotOverwritten [])}" by code_simp
  moreover have "fl_written ?l = [''old'', '' ALLOW  a.'' @ [CHR 0x0A]]" by code_simp
  ultimately show ?thesis using file_purge_forgets [of demo_file "''all''" "\<lambda>t. []" "[FLog demo_rec 0, FWrite True]" demo_trunc "[]"] by blast
qed

end
