(* ===== verification/Zero_File.thy ===== *)
theory Zero_File
  imports Go_Prelude
begin

text \<open>
  Overwriting a file with zeros before its blocks are freed, \<open>src/internal/querylog/zero.go\<close> and the
  Unix part of it in \<open>zero_unix.go\<close>. The file is the list of its bytes; what each system call
  returns is the record \<open>zero_env\<close>. The result is the content after the call, the list of what
  was done to the open file, in order, and the error.
\<close>

section \<open>Model\<close>

datatype refusal = NotRegular | ChangedWhileOpened | NotTheOpenLog | HardLinks nat

datatype zero_error = NotExist | OSErr string | ErrRefused refusal

record finfo =
  fi_regular :: bool
  fi_file :: nat        \<comment> \<open>the identity that \<open>os.SameFile\<close> compares\<close>
  fi_Size :: nat
  fi_Nlink :: "nat option"  \<comment> \<open>\<open>None\<close>: \<open>Sys\<close> holds no \<open>Stat_t\<close>\<close>

record zero_env =
  z_Lstat :: "zero_error + finfo"
  z_Open :: "zero_error option"
  z_Stat :: "zero_error + finfo"
  z_WriteAt :: "nat \<Rightarrow> zero_error option"   \<comment> \<open>the outcome of the write at an offset\<close>
  z_Sync1 :: "zero_error option"
  z_Sync2 :: "zero_error option"
  z_Close :: "zero_error option"

datatype zero_act = WriteZeros nat nat | SyncFile

definition zeroChunk :: nat where "zeroChunk = 65536"

definition zeroHead :: nat where "zeroHead = 32"

definition linkCount :: "finfo \<Rightarrow> nat" where
  "linkCount fi = (case fi_Nlink fi of Some n \<Rightarrow> n | None \<Rightarrow> 1)"

definition write_at :: "string \<Rightarrow> nat \<Rightarrow> nat \<Rightarrow> string" where
  "write_at bytes off n = take off bytes @ replicate n (CHR 0x00) @ drop (off + n) bytes"

text \<open>The loop over the rest of the file, \<open>zeroChunk\<close> bytes at a time.\<close>

function zero_loop ::
  "zero_env \<Rightarrow> nat \<Rightarrow> nat \<Rightarrow> string \<Rightarrow> string \<times> zero_act list \<times> zero_error option" where
  "zero_loop E sz off bytes =
     (if off < sz then
        let n = min (sz - off) zeroChunk in
        (case z_WriteAt E off of
           Some e \<Rightarrow> (bytes, [], Some e)
         | None \<Rightarrow> (case zero_loop E sz (off + zeroChunk) (write_at bytes off n) of
                       (b, acts, err) \<Rightarrow> (b, WriteZeros off n # acts, err)))
      else (bytes, [], None))"
  by pat_completeness auto
termination
  by (relation "measure (\<lambda>(E, sz, off, bytes). sz - off)") (auto simp: zeroChunk_def)

declare zero_loop.simps [simp del]

definition writeZeros ::
  "zero_env \<Rightarrow> finfo \<Rightarrow> finfo option \<Rightarrow> string \<Rightarrow> string \<times> zero_act list \<times> zero_error option" where
  "writeZeros E lfi want bytes =
     (case z_Stat E of
        Inl e \<Rightarrow> (bytes, [], Some e)
      | Inr fi \<Rightarrow>
          if \<not> fi_regular fi \<or> fi_file fi \<noteq> fi_file lfi then (bytes, [], Some (ErrRefused ChangedWhileOpened))
          else if (case want of Some w \<Rightarrow> fi_file fi \<noteq> fi_file w | None \<Rightarrow> False)
          then (bytes, [], Some (ErrRefused NotTheOpenLog))
          else if 1 < linkCount fi then (bytes, [], Some (ErrRefused (HardLinks (linkCount fi))))
          else
            let hd_n = min (fi_Size fi) zeroHead in
            (case z_WriteAt E 0 of
               Some e \<Rightarrow> (bytes, [], Some e)
             | None \<Rightarrow>
                 let b1 = write_at bytes 0 hd_n in
                 (case z_Sync1 E of
                    Some e \<Rightarrow> (b1, [WriteZeros 0 hd_n], Some e)
                  | None \<Rightarrow>
                      (case zero_loop E (fi_Size fi) hd_n b1 of
                         (b2, acts, Some e) \<Rightarrow> (b2, [WriteZeros 0 hd_n, SyncFile] @ acts, Some e)
                       | (b2, acts, None) \<Rightarrow>
                           (b2, [WriteZeros 0 hd_n, SyncFile] @ acts @ (if z_Sync2 E = None then [SyncFile] else []), z_Sync2 E)))))"

definition zeroFile ::
  "zero_env \<Rightarrow> finfo option \<Rightarrow> string \<Rightarrow> string \<times> zero_act list \<times> zero_error option" where
  "zeroFile E want bytes =
     (case z_Lstat E of
        Inl e \<Rightarrow> (bytes, [], Some e)
      | Inr lfi \<Rightarrow>
          if \<not> fi_regular lfi then (bytes, [], Some (ErrRefused NotRegular))
          else (case z_Open E of
              Some e \<Rightarrow> (bytes, [], Some e)
            | None \<Rightarrow>
                (case writeZeros E lfi want bytes of
                   (b, acts, err) \<Rightarrow> (b, acts, (if err = None then z_Close E else err)))))"

definition ZeroFile :: "zero_env \<Rightarrow> string \<Rightarrow> string \<times> zero_act list \<times> zero_error option" where
  "ZeroFile E bytes = zeroFile E None bytes"

text \<open>\<open>truncateFile\<close>: empty the file through a new handle if it is still the open log.\<close>

record truncate_env =
  t_Open :: "zero_error option"
  t_Stat :: "zero_error + finfo"
  t_Truncate :: "zero_error option"

definition truncateFile :: "truncate_env \<Rightarrow> finfo \<Rightarrow> string \<Rightarrow> string \<times> zero_error option" where
  "truncateFile E want bytes =
     (case t_Open E of
        Some e \<Rightarrow> (bytes, Some e)
      | None \<Rightarrow> (case t_Stat E of
          Inl e \<Rightarrow> (bytes, Some e)
        | Inr fi \<Rightarrow>
            if fi_file fi \<noteq> fi_file want then (bytes, Some (ErrRefused NotTheOpenLog))
            else (case t_Truncate E of Some e \<Rightarrow> (bytes, Some e) | None \<Rightarrow> ([], None))))"

section \<open>Lemmas\<close>

text \<open>The bytes up to \<open>n\<close> are zero and the length is that of the original.\<close>

definition zeroed_to :: "nat \<Rightarrow> string \<Rightarrow> bool" where
  "zeroed_to n b = (\<forall>i < min n (length b). b ! i = CHR 0x00)"

lemma length_write_at [simp]: "off + n \<le> length b \<Longrightarrow> length (write_at b off n) = length b"
  by (simp add: write_at_def)

lemma write_at_nth:
  "off + n \<le> length b \<Longrightarrow> i < length b \<Longrightarrow> write_at b off n ! i = (if off \<le> i \<and> i < off + n then CHR 0x00 else b ! i)"
  by (auto simp: write_at_def nth_append min_def)

lemma zeroed_write_at: "zeroed_to off b \<Longrightarrow> off + n \<le> length b \<Longrightarrow> zeroed_to (off + n) (write_at b off n)"
  by (auto simp: zeroed_to_def write_at_nth)

fun act_ok :: "nat \<Rightarrow> nat \<Rightarrow> zero_act \<Rightarrow> bool" where
  "act_ok lo sz (WriteZeros off n) = (lo \<le> off \<and> off + n \<le> sz)"
| "act_ok lo sz SyncFile = True"

lemma act_ok_mono: "lo \<le> lo' \<Longrightarrow> act_ok lo' sz a \<Longrightarrow> act_ok lo sz a"
  by (cases a) auto

lemma zero_loop_spec:
  "length b = sz \<Longrightarrow> zeroed_to off b \<Longrightarrow> zero_loop E sz off b = (b', acts, err) \<Longrightarrow>
     length b' = sz \<and> zeroed_to off b' \<and> (err = None \<longrightarrow> zeroed_to sz b') \<and> list_all (act_ok off sz) acts"
proof (induction E sz off b arbitrary: b' acts err rule: zero_loop.induct)
  case (1 E sz off b)
  show ?case
  proof (cases "off < sz \<and> z_WriteAt E off = None")
    case False
    then show ?thesis using "1.prems" by (auto simp: zero_loop.simps [of E sz off b] zeroed_to_def Let_def split: if_splits option.splits)
  next
    case True
    let ?n = "min (sz - off) zeroChunk" let ?b = "write_at b off ?n"
    obtain b2 acts2 err2 where r: "zero_loop E sz (off + zeroChunk) ?b = (b2, acts2, err2)" by (metis prod_cases3)
    have le: "off + ?n \<le> length b" using "1.prems"(1) True by linarith
    have z: "zeroed_to (off + ?n) ?b" using zeroed_write_at [OF "1.prems"(2) le] .
    have len: "length ?b = sz" using le "1.prems"(1) by simp
    have "zeroed_to (off + zeroChunk) ?b"
      using z len by (auto simp: zeroed_to_def min_def split: if_splits)
    from "1.IH" [OF _ refl _ len this r] True
    have IH: "length b2 = sz" "zeroed_to (off + zeroChunk) b2" "err2 = None \<longrightarrow> zeroed_to sz b2"
      "list_all (act_ok (off + zeroChunk) sz) acts2" by auto
    have res: "b' = b2" "acts = WriteZeros off ?n # acts2" "err = err2"
      using "1.prems"(3) True r by (auto simp: zero_loop.simps [of E sz off b] Let_def)
    have "list_all (act_ok off sz) acts2"
      using IH(4) act_ok_mono [of off "off + zeroChunk" sz] by (auto simp: list_all_iff)
    moreover have "zeroed_to off b2" using IH(2) by (simp add: zeroed_to_def)
    ultimately show ?thesis using IH res le "1.prems"(1) by simp
  qed
qed

lemma writeZeros_spec:
  assumes "writeZeros E lfi want b = (b', acts, err)" "z_Stat E = Inr fi" "length b = fi_Size fi"
  shows "length b' = length b
    \<and> (acts = [] \<longrightarrow> b' = b)
    \<and> (acts \<noteq> [] \<longrightarrow> zeroed_to zeroHead b' \<and> hd acts = WriteZeros 0 (min (fi_Size fi) zeroHead)
          \<and> (tl acts \<noteq> [] \<longrightarrow> hd (tl acts) = SyncFile) \<and> list_all (act_ok 0 (fi_Size fi)) acts
          \<and> fi_regular fi \<and> linkCount fi \<le> 1 \<and> fi_file fi = fi_file lfi
          \<and> (\<forall>w. want = Some w \<longrightarrow> fi_file fi = fi_file w))
    \<and> (err = None \<longrightarrow> b' = replicate (length b) (CHR 0x00))"
proof (cases "acts = []")
  case True
  then show ?thesis
    using assms by (auto simp: writeZeros_def Let_def split: if_splits option.splits sum.splits prod.splits)
next
  case False
  let ?h = "min (fi_Size fi) zeroHead" let ?b = "write_at b 0 ?h"
  have g: "fi_regular fi" "fi_file fi = fi_file lfi" "\<forall>w. want = Some w \<longrightarrow> fi_file fi = fi_file w" "linkCount fi \<le> 1" "z_WriteAt E 0 = None"
    using False assms(1,2) by (auto simp: writeZeros_def Let_def split: if_splits option.splits sum.splits prod.splits)
  have len: "length ?b = fi_Size fi" using assms(3) by simp
  have z: "zeroed_to ?h ?b" using zeroed_write_at [of 0 b ?h] assms(3) by (simp add: zeroed_to_def)
  show ?thesis
  proof (cases "z_Sync1 E")
    case (Some e)
    then have "b' = ?b" "acts = [WriteZeros 0 ?h]" "err = Some e"
      using assms(1,2) g by (auto simp: writeZeros_def Let_def split: option.splits)
    then show ?thesis using len z g assms(3) by (auto simp: zeroed_to_def min_def split: if_splits)
  next
    case None
    obtain b2 acts2 err2 where r: "zero_loop E (fi_Size fi) ?h ?b = (b2, acts2, err2)" by (metis prod_cases3)
    note sp = zero_loop_spec [OF len z r]
    have acts: "b' = b2" "\<exists>q. acts = [WriteZeros 0 ?h, SyncFile] @ acts2 @ q \<and> list_all (act_ok 0 (fi_Size fi)) q"
      and e: "err = None \<longrightarrow> err2 = None"
      using assms(1,2) g None r by (auto simp: writeZeros_def Let_def split: option.splits)
    have "err = None \<longrightarrow> b' = replicate (length b) (CHR 0x00)"
      using sp e acts(1) assms(3) by (auto simp: zeroed_to_def intro: nth_equalityI)
    moreover have "zeroed_to zeroHead b'" using sp acts(1) by (auto simp: zeroed_to_def)
    moreover have "list_all (act_ok 0 (fi_Size fi)) acts2" using sp act_ok_mono [of 0 ?h] by (auto simp: list_all_iff)
    ultimately show ?thesis using sp acts g assms(3) by auto
  qed
qed

section \<open>Properties\<close>

text \<open>the overwrite. It touches the file only if that is a regular file with one link, the one that
  was checked and, for the open log, that log itself. Its first write zeroes the first 32 bytes (a
  WAL header) and is synced before any other; no write goes past the end; whenever anything was
  written, even if an error follows, the header is zero; and without an error every byte is
  zero and the length is unchanged. A refusal leaves the file as it is.\<close>

theorem zeroFile_overwrites:
  assumes "zeroFile E want b = (b', acts, err)" "z_Stat E = Inr fi" "length b = fi_Size fi"
  shows "length b' = length b
    \<and> (acts = [] \<longrightarrow> b' = b)
    \<and> (acts \<noteq> [] \<longrightarrow> zeroed_to 32 b' \<and> hd acts = WriteZeros 0 (min (fi_Size fi) 32)
          \<and> (tl acts \<noteq> [] \<longrightarrow> hd (tl acts) = SyncFile) \<and> list_all (act_ok 0 (fi_Size fi)) acts
          \<and> fi_regular fi \<and> linkCount fi \<le> 1
          \<and> (\<exists>lfi. z_Lstat E = Inr lfi \<and> fi_regular lfi \<and> fi_file fi = fi_file lfi)
          \<and> (\<forall>w. want = Some w \<longrightarrow> fi_file fi = fi_file w))
    \<and> (err = None \<longrightarrow> b' = replicate (length b) (CHR 0x00))"
proof (cases "z_Lstat E")
  case (Inl e)
  then show ?thesis using assms(1) by (auto simp: zeroFile_def)
next
  case (Inr lfi)
  obtain b2 acts2 err2 where r: "writeZeros E lfi want b = (b2, acts2, err2)" by (metis prod_cases3)
  show ?thesis
  proof (cases "fi_regular lfi \<and> z_Open E = None")
    case True
    then have "b' = b2" "acts = acts2" "err = None \<longrightarrow> err2 = None"
      using assms(1) r Inr by (auto simp: zeroFile_def split: if_splits)
    then show ?thesis using writeZeros_spec [OF r assms(2,3)] True Inr by (auto simp: zeroHead_def)
  next
    case False
    then show ?thesis using assms(1) Inr by (auto simp: zeroFile_def split: if_splits option.splits)
  qed
qed

definition demo_finfo :: finfo where
  "demo_finfo = \<lparr>fi_regular = True, fi_file = 9, fi_Size = 40, fi_Nlink = Some 1\<rparr>"

definition demo_zero :: zero_env where
  "demo_zero = \<lparr>z_Lstat = Inr demo_finfo, z_Open = None, z_Stat = Inr demo_finfo, z_WriteAt = (\<lambda>off. None),
     z_Sync1 = None, z_Sync2 = None, z_Close = None\<rparr>"

theorem zeroFile_overwrites_witness:
  "zeroFile demo_zero None (replicate 40 (CHR ''q'')) =
     (replicate 40 (CHR 0x00), [WriteZeros 0 32, SyncFile, WriteZeros 32 8, SyncFile], None)"
proof -
  obtain b' acts err where r: "zeroFile demo_zero None (replicate 40 (CHR ''q'')) = (b', acts, err)" by (metis prod_cases3)
  have a: "acts = [WriteZeros 0 32, SyncFile, WriteZeros 32 8, SyncFile]" "err = None"
    using r by (simp_all add: zeroFile_def demo_zero_def demo_finfo_def writeZeros_def linkCount_def zeroHead_def
        zeroChunk_def zero_loop.simps Let_def)
  have "b' = replicate 40 (CHR 0x00)"
    using zeroFile_overwrites [OF r] a by (simp add: demo_zero_def demo_finfo_def)
  then show ?thesis using r a by simp
qed

end
