(* ===== verification/Query_Db.thy ===== *)
theory Query_Db
  imports Query_Log Zero_File "HOL-Library.Product_Lexorder"
begin

text \<open>
  The query database, \<open>src/internal/querylog/db.go\<close>. The table \<open>queries\<close> is the list of its rows in
  the order of their ids with the AUTOINCREMENT counter; each SQL statement of the source has the
  meaning of its text on that table. A timestamp is stored as RFC 3339 text in UTC with whole
  seconds; here it is the number of those seconds, which compares as the text does for the years
  0 to 9999. Whether a statement, a transaction or a system call fails is an outcome in an
  environment record. The writer goroutine and the pruner are the step function \<open>db_step\<close>, one
  event for each pass of their select loops and each call from outside.
\<close>

section \<open>Model\<close>

subsection \<open>State\<close>

record db_entry =
  de_ts :: time
  de_clientIP :: string
  de_domain :: string
  de_blocked :: bool
  de_cacheHit :: bool
  de_rcode :: int
  de_synthesized :: bool
  de_blockSource :: BlockSource

record db_row =
  row_id :: nat
  row_ts :: int
  row_client_ip :: string
  row_domain :: string
  row_blocked :: int
  row_cache_hit :: int
  row_rcode :: int
  row_synthesized :: int
  row_block_source :: BlockSource

record database =
  db_rows :: "db_row list"
  db_seq :: nat

record DBLogger =
  dl_db :: database
  dl_ch :: "db_entry list"
  dl_batch :: "db_entry list"
  dl_logQueries :: string
  dl_flushInterval :: duration
  dl_retentionDays :: int
  dl_dropped :: nat
  dl_done :: bool

definition flushBatchSize :: nat where "flushBatchSize = 100"
definition queryQueueSize :: nat where "queryQueueSize = 1000"

definition b2i :: "bool \<Rightarrow> int" where "b2i b = (if b then 1 else 0)"

subsection \<open>Log and flush\<close>

definition db_entry_of :: "Record \<Rightarrow> time \<Rightarrow> db_entry" where
  "db_entry_of r now = \<lparr>de_ts = now, de_clientIP = rec_ClientIP r, de_domain = rec_Domain r, de_blocked = rec_Blocked r,
     de_cacheHit = rec_CacheHit r, de_rcode = rec_Rcode r, de_synthesized = rec_Synthesized r,
     de_blockSource = rec_BlockSource r\<rparr>"

definition DBLogger_Log :: "DBLogger \<Rightarrow> Record \<Rightarrow> time \<Rightarrow> DBLogger" where
  "DBLogger_Log d r now =
     (if dl_logQueries d = ''none'' then d
      else if dl_logQueries d = ''blocked'' \<and> \<not> rec_Blocked r then d
      else if length (dl_ch d) < queryQueueSize then d\<lparr>dl_ch := dl_ch d @ [db_entry_of r now]\<rparr>
      else d\<lparr>dl_dropped := dl_dropped d + 1\<rparr>)"

record flush_env =
  fx_Begin :: bool
  fx_Prepare :: bool
  fx_Exec :: "nat \<Rightarrow> bool"   \<comment> \<open>whether the insert of the entry at an index of the batch succeeds\<close>
  fx_Commit :: bool

definition row_of :: "nat \<Rightarrow> db_entry \<Rightarrow> db_row" where
  "row_of i e = \<lparr>row_id = i, row_ts = de_ts e div second, row_client_ip = de_clientIP e, row_domain = de_domain e,
     row_blocked = b2i (de_blocked e), row_cache_hit = b2i (de_cacheHit e), row_rcode = de_rcode e,
     row_synthesized = b2i (de_synthesized e), row_block_source = de_blockSource e\<rparr>"

definition insert_row :: "db_entry \<Rightarrow> database \<Rightarrow> database" where
  "insert_row e db = db\<lparr>db_rows := db_rows db @ [row_of (db_seq db + 1) e], db_seq := db_seq db + 1\<rparr>"

fun exec_inserts :: "(nat \<Rightarrow> bool) \<Rightarrow> nat \<Rightarrow> db_entry list \<Rightarrow> database \<Rightarrow> database" where
  "exec_inserts ok i [] db = db"
| "exec_inserts ok i (e # es) db = exec_inserts ok (Suc i) es (if ok i then insert_row e db else db)"

definition flush :: "flush_env \<Rightarrow> db_entry list \<Rightarrow> database \<Rightarrow> database" where
  "flush E batch db =
     (if \<not> fx_Begin E then db
      else if \<not> fx_Prepare E then db
      else let db' = exec_inserts (fx_Exec E) 0 batch db in if fx_Commit E then db' else db)"

subsection \<open>wipeWAL\<close>

text \<open>The statements of the wipe, in the order they ran.\<close>

datatype wal_act = CheckpointRestart | DataVersion | BeginImmediate | ZeroWAL | Rollback | CheckpointTruncate

datatype db_error = SqlErr string | ErrWALBusy | ErrZero zero_error | ErrClosed | DbCtxErr | NamedErr string db_error

record wal_env =
  w_Checkpoint :: "db_error + int \<times> int \<times> int"   \<comment> \<open>busy, frames, copied\<close>
  w_Before :: "db_error + int"
  w_Begin :: "db_error option"
  w_After :: "db_error + int"
  w_Zero :: "zero_error option"
  w_Rollback :: "db_error option"
  w_Truncate :: "db_error option"

definition wipeWAL :: "wal_env \<Rightarrow> wal_act list \<times> db_error option" where
  "wipeWAL E =
     (case w_Checkpoint E of
        Inl e \<Rightarrow> ([CheckpointRestart], Some e)
      | Inr (busy, frames, copied) \<Rightarrow>
          if busy \<noteq> 0 \<or> frames \<noteq> copied then ([CheckpointRestart], Some ErrWALBusy)
          else (case w_Before E of
              Inl e \<Rightarrow> ([CheckpointRestart, DataVersion], Some e)
            | Inr before \<Rightarrow>
                (case w_Begin E of
                   Some e \<Rightarrow> ([CheckpointRestart, DataVersion, BeginImmediate], Some e)
                 | None \<Rightarrow>
                     let err1 = (case w_After E of Inl e \<Rightarrow> Some e
                                 | Inr after \<Rightarrow> if after \<noteq> before then Some ErrWALBusy else None);
                         zeroed = (err1 = None);
                         err2 = (if zeroed then (case w_Zero E of None \<Rightarrow> None | Some NotExist \<Rightarrow> None | Some z \<Rightarrow> Some (ErrZero z))
                                 else err1);
                         err3 = (if err2 = None then w_Rollback E else err2);
                         acts = [CheckpointRestart, DataVersion, BeginImmediate, DataVersion]
                                @ (if zeroed then [ZeroWAL] else []) @ [Rollback]
                     in if err3 \<noteq> None then (acts, err3)
                        else (acts @ [CheckpointTruncate], w_Truncate E))))"

subsection \<open>Purge and prune\<close>

record purge_env =
  pu_Conn :: "db_error option"
  pu_Delete :: "db_error option"
  pu_Sequence :: "db_error option"
  pu_Wipe1 :: wal_env
  pu_Vacuum :: "db_error option"
  pu_Wipe2 :: wal_env

datatype purge_stmt = StepDelete | StepSequence | StepWipe1 | StepVacuum | StepWipe2

fun step_err :: "purge_env \<Rightarrow> purge_stmt \<Rightarrow> db_error option" where
  "step_err E StepDelete = map_option (NamedErr ''DELETE FROM queries'') (pu_Delete E)"
| "step_err E StepSequence = map_option (NamedErr ''DELETE FROM sqlite_sequence'') (pu_Sequence E)"
| "step_err E StepWipe1 = map_option (NamedErr ''WAL overwrite'') (snd (wipeWAL (pu_Wipe1 E)))"
| "step_err E StepVacuum = map_option (NamedErr ''VACUUM'') (pu_Vacuum E)"
| "step_err E StepWipe2 = map_option (NamedErr ''WAL overwrite'') (snd (wipeWAL (pu_Wipe2 E)))"

fun step_effect :: "purge_stmt \<Rightarrow> database \<Rightarrow> database" where
  "step_effect StepDelete db = db\<lparr>db_rows := []\<rparr>"
| "step_effect StepSequence db = db\<lparr>db_seq := 0\<rparr>"
| "step_effect _ db = db"

fun run_purge_steps :: "purge_env \<Rightarrow> purge_stmt list \<Rightarrow> database \<Rightarrow> database \<times> db_error option" where
  "run_purge_steps E [] db = (db, None)"
| "run_purge_steps E (s # ss) db =
     (case step_err E s of Some e \<Rightarrow> (db, Some e) | None \<Rightarrow> run_purge_steps E ss (step_effect s db))"

definition purgeAll :: "purge_env \<Rightarrow> database \<Rightarrow> database \<times> db_error option" where
  "purgeAll E db =
     (case pu_Conn E of
        Some e \<Rightarrow> (db, Some e)
      | None \<Rightarrow> run_purge_steps E [StepDelete, StepSequence, StepWipe1, StepVacuum, StepWipe2] db)"

record prune_env =
  pr_Conn :: "db_error option"
  pr_Delete :: "db_error option"

text \<open>The cutoff: now less \<open>retentionDays\<close> days, in 64-bit durations, as whole seconds.\<close>

definition prune_cutoff :: "int \<Rightarrow> time \<Rightarrow> int" where
  "prune_cutoff days now = (now + wrap64 (wrap64 (- days * 24) * hour)) div second"

definition prune :: "prune_env \<Rightarrow> int \<Rightarrow> time \<Rightarrow> database \<Rightarrow> database" where
  "prune E days now db =
     (if pr_Conn E \<noteq> None \<or> pr_Delete E \<noteq> None then db
      else db\<lparr>db_rows := filter (\<lambda>r. \<not> row_ts r < prune_cutoff days now) (db_rows db)\<rparr>)"

subsection \<open>The goroutines\<close>

datatype db_event =
    DLog Record time
  | DRecv flush_env
  | DTick flush_env
  | DPurge purge_env
  | DPrune time prune_env
  | DClose flush_env

definition writer_recv :: "flush_env \<Rightarrow> DBLogger \<Rightarrow> DBLogger" where
  "writer_recv E d = (case dl_ch d of
       [] \<Rightarrow> d
     | e # es \<Rightarrow>
         let batch = dl_batch d @ [e]; d1 = d\<lparr>dl_ch := es, dl_batch := batch\<rparr> in
         if flushBatchSize \<le> length batch
         then d1\<lparr>dl_db := flush E batch (dl_db d1), dl_batch := []\<rparr> else d1)"

definition writer_tick :: "flush_env \<Rightarrow> DBLogger \<Rightarrow> DBLogger" where
  "writer_tick E d =
     (if 0 < length (dl_batch d) then d\<lparr>dl_db := flush E (dl_batch d) (dl_db d), dl_batch := []\<rparr> else d)"

definition writer_purge :: "purge_env \<Rightarrow> DBLogger \<Rightarrow> DBLogger \<times> db_error option" where
  "writer_purge E d =
     (let d1 = d\<lparr>dl_batch := [], dl_ch := []\<rparr>; (db, err) = purgeAll E (dl_db d1) in (d1\<lparr>dl_db := db\<rparr>, err))"

definition writer_stop :: "flush_env \<Rightarrow> DBLogger \<Rightarrow> DBLogger" where
  "writer_stop E d =
     (let batch = dl_batch d @ dl_ch d; d1 = d\<lparr>dl_ch := [], dl_batch := [], dl_done := True\<rparr> in
      if 0 < length batch then d1\<lparr>dl_db := flush E batch (dl_db d)\<rparr> else d1)"

fun db_step :: "db_event \<Rightarrow> DBLogger \<Rightarrow> DBLogger" where
  "db_step (DLog r now) d = DBLogger_Log d r now"
| "db_step (DRecv E) d = (if dl_done d then d else writer_recv E d)"
| "db_step (DTick E) d = (if dl_done d then d else writer_tick E d)"
| "db_step (DPurge E) d = (if dl_done d then d else fst (writer_purge E d))"
| "db_step (DPrune now E) d =
     (if dl_done d \<or> dl_retentionDays d \<le> 0 then d else d\<lparr>dl_db := prune E (dl_retentionDays d) now (dl_db d)\<rparr>)"
| "db_step (DClose E) d = (if dl_done d then d else writer_stop E d)"

definition DBLogger_Purge :: "purge_env \<Rightarrow> purge_wait \<Rightarrow> DBLogger \<Rightarrow> DBLogger \<times> db_error option" where
  "DBLogger_Purge E w d =
     (if dl_done d then (d, Some ErrClosed)
      else (case w of
          Got_reply \<Rightarrow> writer_purge E d
        | Ended_before_send \<Rightarrow> (d, Some DbCtxErr)
        | Ended_before_reply \<Rightarrow> (fst (writer_purge E d), Some DbCtxErr)))"

text \<open>\<open>NewDBLogger\<close>: the setup steps in order, with the error of each, then the writer starts on the
  migrated table.\<close>

definition NewDBLogger :: "(string \<times> db_error option) list \<Rightarrow> database \<Rightarrow> string \<Rightarrow> duration \<Rightarrow> int \<Rightarrow> db_error + DBLogger" where
  "NewDBLogger setup db logQueries flushInterval retentionDays =
     (if flushInterval \<le> 0 then Inl (SqlErr ''flush interval must be positive'')
      else (case find (\<lambda>se. snd se \<noteq> None) setup of
          Some (name, Some e) \<Rightarrow> Inl (NamedErr name e)
        | _ \<Rightarrow> Inr \<lparr>dl_db = db, dl_ch = [], dl_batch = [], dl_logQueries = logQueries, dl_flushInterval = flushInterval,
                    dl_retentionDays = retentionDays, dl_dropped = 0, dl_done = False\<rparr>))"

section \<open>Lemmas: the writer\<close>

interpretation dl: queue_sink DBLogger_Log dl_logQueries dl_ch dl_dropped db_entry_of queryQueueSize
  by unfold_locales (auto simp: DBLogger_Log_def wants_def)

lemma DBLogger_Log_frame [simp]:
  "dl_db (DBLogger_Log d r t) = dl_db d" "dl_batch (DBLogger_Log d r t) = dl_batch d" "dl_done (DBLogger_Log d r t) = dl_done d"
  "dl_retentionDays (DBLogger_Log d r t) = dl_retentionDays d" "dl_logQueries (DBLogger_Log d r t) = dl_logQueries d"
  by (simp_all add: DBLogger_Log_def)

text \<open>What the logger keeps about queries, in the order it was logged: the rows without their ids,
  then the batch, then the queue.\<close>

definition anon_row :: "db_row \<Rightarrow> db_row" where
  "anon_row r = r\<lparr>row_id := 0\<rparr>"

definition contents :: "DBLogger \<Rightarrow> db_row list" where
  "contents d = map anon_row (db_rows (dl_db d)) @ map (row_of 0) (dl_batch d @ dl_ch d)"

lemma anon_row_of [simp]: "anon_row (row_of i e) = row_of 0 e"
  by (simp add: anon_row_def row_of_def)

lemma subseq_set: "subseq xs ys \<Longrightarrow> set xs \<subseteq> set ys"
  by (auto dest: list_emb_set)

lemma exec_inserts_rows:
  "\<exists>acc. map anon_row (db_rows (exec_inserts ok i es db)) = map anon_row (db_rows db) @ acc
     \<and> subseq acc (map (row_of 0) es) \<and> ((\<forall>j. ok j) \<longrightarrow> acc = map (row_of 0) es)"
proof (induction ok i es db rule: exec_inserts.induct)
  case (2 ok i e es db)
  let ?db = "if ok i then insert_row e db else db"
  from 2 obtain acc where a: "map anon_row (db_rows (exec_inserts ok (Suc i) es ?db)) = map anon_row (db_rows ?db) @ acc"
    "subseq acc (map (row_of 0) es)" "(\<forall>j. ok j) \<longrightarrow> acc = map (row_of 0) es" by blast
  show ?case
  proof (cases "ok i")
    case True
    then have "map anon_row (db_rows (exec_inserts ok i (e # es) db)) = map anon_row (db_rows db) @ (row_of 0 e # acc)"
      using a(1) by (simp add: insert_row_def)
    then show ?thesis using a by (metis list.simps(9) subseq_Cons2)
  next
    case False
    then show ?thesis using a by (auto intro: list_emb_Cons)
  qed
qed simp

lemma flush_rows:
  "\<exists>acc. map anon_row (db_rows (flush E b db)) = map anon_row (db_rows db) @ acc \<and> set acc \<subseteq> row_of 0 ` set b
     \<and> (fx_Begin E \<and> fx_Prepare E \<and> fx_Commit E \<and> (\<forall>j. fx_Exec E j) \<longrightarrow> acc = map (row_of 0) b)"
proof -
  obtain acc where a: "map anon_row (db_rows (exec_inserts (fx_Exec E) 0 b db)) = map anon_row (db_rows db) @ acc"
    "subseq acc (map (row_of 0) b)" "(\<forall>j. fx_Exec E j) \<longrightarrow> acc = map (row_of 0) b" using exec_inserts_rows by blast
  have "set acc \<subseteq> row_of 0 ` set b" using subseq_set [OF a(2)] by simp
  with a show ?thesis by (cases "fx_Begin E \<and> fx_Prepare E \<and> fx_Commit E") (auto simp: flush_def Let_def)
qed

definition env_ok :: "flush_env \<Rightarrow> bool" where
  "env_ok E = (fx_Begin E \<and> fx_Prepare E \<and> fx_Commit E \<and> (\<forall>j. fx_Exec E j))"

lemma flush_ok: "env_ok E \<Longrightarrow> map anon_row (db_rows (flush E b db)) = map anon_row (db_rows db) @ map (row_of 0) b"
  using flush_rows [of E b db] by (auto simp: env_ok_def)

lemma flush_set: "anon_row ` set (db_rows (flush E b db)) \<subseteq> anon_row ` set (db_rows db) \<union> row_of 0 ` set b"
proof -
  obtain acc where "map anon_row (db_rows (flush E b db)) = map anon_row (db_rows db) @ acc" "set acc \<subseteq> row_of 0 ` set b"
    using flush_rows [of E b db] by blast
  then have "set (map anon_row (db_rows (flush E b db))) \<subseteq> set (map anon_row (db_rows db)) \<union> row_of 0 ` set b" by auto
  then show ?thesis by simp
qed

lemma purge_steps_set: "db_rows (fst (run_purge_steps E ss db)) = db_rows db \<or> db_rows (fst (run_purge_steps E ss db)) = []"
proof (induction ss arbitrary: db)
  case (Cons s ss)
  show ?case using Cons [of "step_effect s db"] by (cases s) (auto split: option.splits)
qed simp

lemma purgeAll_rows: "set (db_rows (fst (purgeAll E db))) \<subseteq> set (db_rows db)"
  using purge_steps_set [of E "[StepDelete, StepSequence, StepWipe1, StepVacuum, StepWipe2]" db]
  by (auto simp: purgeAll_def simp del: run_purge_steps.simps split: option.splits)

lemma purgeAll_done: "snd (purgeAll E db) = None \<Longrightarrow> db_rows (fst (purgeAll E db)) = [] \<and> db_seq (fst (purgeAll E db)) = 0"
  by (auto simp: purgeAll_def split: option.splits)

fun db_adds :: "string \<Rightarrow> db_event \<Rightarrow> db_row set" where
  "db_adds M (DLog r t) = (if wants M r then {row_of 0 (db_entry_of r t)} else {})"
| "db_adds M _ = {}"

lemma db_adds_iff: "x \<in> db_adds M ev \<longleftrightarrow> (\<exists>r t. ev = DLog r t \<and> wants M r \<and> x = row_of 0 (db_entry_of r t))"
  by (cases ev) auto

lemma set_contents: "set (contents d) = anon_row ` set (db_rows (dl_db d)) \<union> row_of 0 ` (set (dl_batch d) \<union> set (dl_ch d))"
  by (auto simp: contents_def)

lemma db_step_mode [simp]: "dl_logQueries (db_step ev d) = dl_logQueries d"
  by (cases ev) (auto simp: writer_recv_def writer_tick_def writer_purge_def writer_stop_def Let_def split: list.splits prod.splits)

lemma DBLogger_Log_ch:
  "set (dl_ch (DBLogger_Log d r t)) \<subseteq> set (dl_ch d) \<union> (if wants (dl_logQueries d) r then {db_entry_of r t} else {})"
  by (auto simp: DBLogger_Log_def wants_def)

interpretation dlp: purgeable db_step "\<lambda>d. set (contents d)" "db_adds M" "\<lambda>d. dl_logQueries d = M"
  for M
proof unfold_locales
  fix d :: DBLogger and ev
  assume m: "dl_logQueries d = M"
  show "set (contents (db_step ev d)) \<subseteq> set (contents d) \<union> db_adds M ev"
  proof (cases ev)
    case (DLog r t)
    then show ?thesis using DBLogger_Log_ch [of d r t] m by (auto simp: set_contents split: if_splits)
  next
    case (DRecv E)
    show ?thesis
    proof (cases "dl_ch d")
      case (Cons e es)
      then show ?thesis using flush_set [of E "dl_batch d @ [e]" "dl_db d"] DRecv
        by (auto simp: set_contents writer_recv_def Let_def)
    qed (use DRecv in \<open>auto simp: writer_recv_def\<close>)
  next
    case (DTick E)
    then show ?thesis using flush_set [of E "dl_batch d" "dl_db d"] by (auto simp: set_contents writer_tick_def)
  next
    case (DPurge E)
    then show ?thesis using purgeAll_rows [of E "dl_db d"] by (auto simp: set_contents writer_purge_def Let_def split: prod.splits)
  next
    case (DPrune now E)
    then show ?thesis by (auto simp: set_contents prune_def)
  next
    case (DClose E)
    then show ?thesis using flush_set [of E "dl_batch d @ dl_ch d" "dl_db d"] by (auto simp: set_contents writer_stop_def Let_def)
  qed
qed simp

subsection \<open>Nothing is lost\<close>

text \<open>Events that do not delete and whose database calls succeed.\<close>

fun keeps :: "db_event \<Rightarrow> bool" where
  "keeps (DLog r t) = True"
| "keeps (DRecv E) = env_ok E"
| "keeps (DTick E) = env_ok E"
| "keeps (DClose E) = env_ok E"
| "keeps _ = False"

fun wanted_of :: "string \<Rightarrow> db_event \<Rightarrow> db_row list" where
  "wanted_of M (DLog r t) = (if wants M r then [row_of 0 (db_entry_of r t)] else [])"
| "wanted_of M _ = []"

lemma keeps_step:
  assumes "keeps ev"
  shows "\<exists>acc. contents (db_step ev d) = contents d @ acc \<and> subseq acc (wanted_of (dl_logQueries d) ev)
     \<and> length acc + dl_dropped (db_step ev d) = dl_dropped d + length (wanted_of (dl_logQueries d) ev)"
proof (cases ev)
  case (DLog r t)
  then show ?thesis by (auto simp: contents_def DBLogger_Log_def wants_def)
next
  case (DRecv E)
  then have ok: "env_ok E" using assms by simp
  show ?thesis
  proof (cases "dl_ch d")
    case (Cons e es)
    then show ?thesis using flush_ok [OF ok, of "dl_batch d @ [e]" "dl_db d"] DRecv
      by (auto simp: contents_def writer_recv_def Let_def)
  qed (use DRecv in \<open>auto simp: writer_recv_def\<close>)
next
  case (DTick E)
  then have ok: "env_ok E" using assms by simp
  show ?thesis using flush_ok [OF ok, of "dl_batch d" "dl_db d"] DTick by (auto simp: contents_def writer_tick_def)
next
  case (DClose E)
  then have ok: "env_ok E" using assms by simp
  show ?thesis using flush_ok [OF ok, of "dl_batch d @ dl_ch d" "dl_db d"] DClose by (auto simp: contents_def writer_stop_def Let_def)
qed (use assms in auto)

lemma keeps_run:
  "list_all keeps evs \<Longrightarrow> \<exists>acc. contents (fold db_step evs d) = contents d @ acc
     \<and> subseq acc (concat (map (wanted_of (dl_logQueries d)) evs))
     \<and> length acc + dl_dropped (fold db_step evs d) = dl_dropped d + length (concat (map (wanted_of (dl_logQueries d)) evs))"
proof (induction evs arbitrary: d)
  case (Cons ev evs)
  let ?M = "dl_logQueries d"
  obtain a1 where a1: "contents (db_step ev d) = contents d @ a1" "subseq a1 (wanted_of ?M ev)"
    "length a1 + dl_dropped (db_step ev d) = dl_dropped d + length (wanted_of ?M ev)"
    using keeps_step [of ev d] Cons.prems by auto
  obtain a2 where a2: "contents (fold db_step evs (db_step ev d)) = contents (db_step ev d) @ a2"
    "subseq a2 (concat (map (wanted_of ?M) evs))"
    "length a2 + dl_dropped (fold db_step evs (db_step ev d)) = dl_dropped (db_step ev d) + length (concat (map (wanted_of ?M) evs))"
    using Cons.IH [of "db_step ev d"] Cons.prems by auto
  have "subseq (a1 @ a2) (wanted_of ?M ev @ concat (map (wanted_of ?M) evs))"
    using a1(2) a2(2) by (rule list_emb_append_mono)
  then show ?case using a1 a2 by (intro exI [of _ "a1 @ a2"]) simp
qed simp

definition db_bounded :: "DBLogger \<Rightarrow> bool" where
  "db_bounded d = (length (dl_ch d) \<le> queryQueueSize \<and> length (dl_batch d) < flushBatchSize)"

lemma db_bounded_step: "db_bounded d \<Longrightarrow> db_bounded (db_step ev d)"
  by (cases ev)
    (auto simp: db_bounded_def DBLogger_Log_def writer_recv_def writer_tick_def writer_purge_def writer_stop_def
      flushBatchSize_def Let_def split: list.splits prod.splits)

lemma db_bounded_run: "db_bounded d \<Longrightarrow> db_bounded (fold db_step evs d)"
  by (induction evs arbitrary: d) (simp_all add: db_bounded_step)

lemma wipeWAL_spec:
  "case wipeWAL E of (acts, err) \<Rightarrow>
     (ZeroWAL \<in> set acts \<longrightarrow> (\<exists>n. w_Checkpoint E = Inr (0, n, n)) \<and> (\<exists>v. w_Before E = Inr v \<and> w_After E = Inr v)
        \<and> w_Begin E = None) \<and>
     (CheckpointTruncate \<in> set acts \<longrightarrow> ZeroWAL \<in> set acts \<and> w_Zero E \<in> {None, Some NotExist} \<and> w_Rollback E = None) \<and>
     (BeginImmediate \<in> set acts \<and> w_Begin E = None \<longrightarrow> Rollback \<in> set acts) \<and>
     (err = None \<longrightarrow> acts = [CheckpointRestart, DataVersion, BeginImmediate, DataVersion, ZeroWAL, Rollback, CheckpointTruncate])"
  by (auto simp: wipeWAL_def Let_def split: sum.splits option.splits zero_error.splits)

section \<open>Properties\<close>

text \<open>purging the database: after a purge that reports success, no row is left and the row counter is
  reset, and whatever events follow, the table, the batch and the queue hold only queries logged
  after it that the mode records; so no batch in flight survives a purge.\<close>

theorem db_purge_forgets:
  assumes "dl_logQueries d = M" "\<not> dl_done (fold db_step pre d)"
    and "snd (writer_purge E (fold db_step pre d)) = None"
  shows "db_rows (dl_db (fold db_step (pre @ [DPurge E]) d)) = [] \<and> db_seq (dl_db (fold db_step (pre @ [DPurge E]) d)) = 0
     \<and> set (contents (fold db_step (pre @ DPurge E # post) d))
        \<subseteq> {row_of 0 (db_entry_of r t) | r t. DLog r t \<in> set post \<and> wants M r}"
proof -
  let ?d = "fold db_step pre d"
  have e: "snd (purgeAll E (dl_db ?d)) = None" using assms(3) by (auto simp: writer_purge_def Let_def split: prod.splits)
  have p: "dl_db (db_step (DPurge E) ?d) = fst (purgeAll E (dl_db ?d))" "dl_batch (db_step (DPurge E) ?d) = []"
    "dl_ch (db_step (DPurge E) ?d) = []"
    using assms(2) by (auto simp: writer_purge_def Let_def split: prod.splits)
  have "set (contents (db_step (DPurge E) ?d)) = {}"
    using p purgeAll_done [OF e] by (simp add: set_contents)
  from dlp.after_purge [OF assms(1) this, of post]
  have "set (contents (fold db_step (pre @ DPurge E # post) d)) \<subseteq> {row_of 0 (db_entry_of r t) | r t. DLog r t \<in> set post \<and> wants M r}"
    unfolding UN_iff subset_iff db_adds_iff by fastforce
  moreover have "fold db_step (pre @ [DPurge E]) d = db_step (DPurge E) ?d" by simp
  ultimately show ?thesis using p(1) purgeAll_done [OF e] by metis
qed

definition demo_flush :: flush_env where
  "demo_flush = \<lparr>fx_Begin = True, fx_Prepare = True, fx_Exec = (\<lambda>i. True), fx_Commit = True\<rparr>"

definition demo_wal :: wal_env where
  "demo_wal = \<lparr>w_Checkpoint = Inr (0, 3, 3), w_Before = Inr 1, w_Begin = None, w_After = Inr 1, w_Zero = None,
     w_Rollback = None, w_Truncate = None\<rparr>"

definition demo_purge :: purge_env where
  "demo_purge = \<lparr>pu_Conn = None, pu_Delete = None, pu_Sequence = None, pu_Wipe1 = demo_wal, pu_Vacuum = None, pu_Wipe2 = demo_wal\<rparr>"

definition demo_db :: DBLogger where
  "demo_db = \<lparr>dl_db = \<lparr>db_rows = [], db_seq = 0\<rparr>, dl_ch = [], dl_batch = [], dl_logQueries = ''all'', dl_flushInterval = second,
     dl_retentionDays = 7, dl_dropped = 0, dl_done = False\<rparr>"

theorem db_purge_forgets_witness:
  "length (db_rows (dl_db (fold db_step [DLog demo_rec 0, DRecv demo_flush, DTick demo_flush, DLog demo_rec 1] demo_db))) = 1
   \<and> set (contents (fold db_step ([DLog demo_rec 0, DRecv demo_flush, DTick demo_flush, DLog demo_rec 1] @ DPurge demo_purge # [DLog demo_rec 9]) demo_db))
       \<subseteq> {row_of 0 (db_entry_of r t) | r t. DLog r t \<in> set [DLog demo_rec 9] \<and> wants ''all'' r}"
proof -
  let ?d = "fold db_step [DLog demo_rec 0, DRecv demo_flush, DTick demo_flush, DLog demo_rec 1] demo_db"
  have a: "dl_logQueries demo_db = ''all''" "\<not> dl_done ?d" "snd (writer_purge demo_purge ?d) = None" "length (db_rows (dl_db ?d)) = 1"
    by code_simp+
  from db_purge_forgets [OF a(1) a(2) a(3), of "[DLog demo_rec 9]"] a(4) show ?thesis by blast
qed

text \<open>C36: the writer loses nothing by itself: as long as the database calls succeed and nothing is purged
  or pruned, the rows followed by the batch and the queue are what was there before followed by the
  recorded queries in the order they were logged, except for those refused by the full queue, and
  each of those is counted in \<open>Dropped\<close>. The queue never exceeds 1000 entries, the batch never 99.\<close>

theorem db_conserves:
  assumes "list_all keeps evs" "db_bounded d"
  shows "(\<exists>acc. contents (fold db_step evs d) = contents d @ acc
       \<and> subseq acc (concat (map (wanted_of (dl_logQueries d)) evs))
       \<and> length acc + (dl_dropped (fold db_step evs d) - dl_dropped d) = length (concat (map (wanted_of (dl_logQueries d)) evs)))
     \<and> length (dl_ch (fold db_step evs d)) \<le> 1000 \<and> length (dl_batch (fold db_step evs d)) < 100"
proof -
  have sub: "subseq acc xs \<Longrightarrow> length acc \<le> length xs" for acc xs :: "db_row list" by (rule list_emb_length)
  have "db_bounded (fold db_step evs d)" using assms(2) by (rule db_bounded_run)
  then show ?thesis
    using keeps_run [OF assms(1), of d] sub by (fastforce simp: db_bounded_def queryQueueSize_def flushBatchSize_def)
qed

theorem db_conserves_witness:
  "map row_ts (contents (fold db_step [DLog demo_rec 0, DRecv demo_flush, DTick demo_flush, DLog demo_rec second] demo_db)) = [0, 1]
   \<and> length (dl_ch (fold db_step [DLog demo_rec 0, DRecv demo_flush, DTick demo_flush, DLog demo_rec second] demo_db)) \<le> 1000"
proof -
  let ?evs = "[DLog demo_rec 0, DRecv demo_flush, DTick demo_flush, DLog demo_rec second]"
  have k: "list_all keeps ?evs" by (simp add: env_ok_def demo_flush_def)
  have b: "db_bounded demo_db" by (simp add: db_bounded_def demo_db_def flushBatchSize_def)
  have "map row_ts (contents (fold db_step ?evs demo_db)) = [0, 1]" by code_simp
  then show ?thesis using db_conserves [OF k b] by simp
qed

text \<open>the WAL is overwritten only when that is safe, and freed only after it was overwritten: zeros go
  in only after a checkpoint that copied every frame, under the write lock, with no other writer
  in between; the truncating checkpoint runs only after a successful overwrite (or with no WAL
  file); a transaction that was begun is always rolled back; and success means all seven steps ran
  in order.\<close>

theorem wipeWAL_safe:
  "case wipeWAL E of (acts, err) \<Rightarrow>
     (ZeroWAL \<in> set acts \<longrightarrow> (\<exists>n. w_Checkpoint E = Inr (0, n, n)) \<and> (\<exists>v. w_Before E = Inr v \<and> w_After E = Inr v)
        \<and> w_Begin E = None) \<and>
     (CheckpointTruncate \<in> set acts \<longrightarrow> ZeroWAL \<in> set acts \<and> w_Zero E \<in> {None, Some NotExist} \<and> w_Rollback E = None) \<and>
     (BeginImmediate \<in> set acts \<and> w_Begin E = None \<longrightarrow> Rollback \<in> set acts) \<and>
     (err = None \<longrightarrow> acts = [CheckpointRestart, DataVersion, BeginImmediate, DataVersion, ZeroWAL, Rollback, CheckpointTruncate])"
  by (rule wipeWAL_spec)

theorem wipeWAL_safe_witness:
  "wipeWAL demo_wal = ([CheckpointRestart, DataVersion, BeginImmediate, DataVersion, ZeroWAL, Rollback, CheckpointTruncate], None)
   \<and> ZeroWAL \<notin> set (fst (wipeWAL (demo_wal\<lparr>w_After := Inr 2\<rparr>)))"
proof -
  have "snd (wipeWAL demo_wal) = None" by code_simp
  moreover have "\<not> (\<exists>v. w_Before (demo_wal\<lparr>w_After := Inr 2\<rparr>) = Inr v \<and> w_After (demo_wal\<lparr>w_After := Inr 2\<rparr>) = Inr v)"
    by (simp add: demo_wal_def)
  ultimately show ?thesis
    using wipeWAL_safe [of demo_wal] wipeWAL_safe [of "demo_wal\<lparr>w_After := Inr 2\<rparr>"] by (auto split: prod.splits)
qed

end
