(* ===== verification/Query_Read.thy ===== *)
theory Query_Read
  imports Query_Db "HOL-Library.Multiset"
begin

text \<open>
  Reading the query database, the second half of \<open>src/internal/querylog/db.go\<close>: the filter, recent
  queries, export, top domains, the history series and the report on rows that are less masked
  than the current settings. A WHERE condition is a value of \<open>cond\<close> with the meaning of its SQL
  text in \<open>cond_holds\<close>; \<open>like\<close> is SQLite's LIKE with backslash as the escape character (ASCII case
  folded). Errors of the database are not modelled here: a read that fails returns no rows.
\<close>

section \<open>Model\<close>

record QueryRow =
  qr_TS :: int
  qr_ClientIP :: string
  qr_Domain :: string
  qr_Blocked :: bool
  qr_Rcode :: int
  qr_Synthesized :: bool
  qr_BlockedBy :: string

definition Outcome :: "QueryRow \<Rightarrow> string" where
  "Outcome r =
     (if qr_Blocked r then ''blocked''
      else if isUnresolved (qr_Rcode r) (qr_Synthesized r) then ''unresolved''
      else if isUpstreamError (qr_Rcode r) (qr_Synthesized r) then ''upstream_error''
      else ''allowed'')"

text \<open>\<open>scanRows\<close> on one row.\<close>

definition scan_row :: "db_row \<Rightarrow> QueryRow" where
  "scan_row r =
     \<lparr>qr_TS = row_ts r, qr_ClientIP = row_client_ip r, qr_Domain = row_domain r, qr_Blocked = (row_blocked r = 1),
      qr_Rcode = row_rcode r, qr_Synthesized = (row_synthesized r = 1),
      qr_BlockedBy = (if row_blocked r = 1 then BlockSource_String (row_block_source r) else [])\<rparr>"

subsection \<open>LIKE patterns\<close>

definition ReplaceByte :: "string \<Rightarrow> char \<Rightarrow> string \<Rightarrow> string" where
  "ReplaceByte s c r = concat (map (\<lambda>x. if x = c then r else [x]) s)"

abbreviation (input) backslash :: char where "backslash \<equiv> CHR 0x5C"

definition escapeLike :: "string \<Rightarrow> string" where
  "escapeLike s = ReplaceByte (ReplaceByte (ReplaceByte s backslash [backslash, backslash])
     (CHR ''%'') [backslash, CHR ''%'']) (CHR ''_'') [backslash, CHR ''_'']"

fun like :: "string \<Rightarrow> string \<Rightarrow> bool" where
  "like [] s = (s = [])"
| "like (p # ps) s =
     (if p = CHR ''%'' then like ps s \<or> (case s of [] \<Rightarrow> False | c # cs \<Rightarrow> like (p # ps) cs)
      else if p = backslash then
        (case ps of [] \<Rightarrow> False
         | q # qs \<Rightarrow> (case s of [] \<Rightarrow> False | c # cs \<Rightarrow> lower_byte q = lower_byte c \<and> like qs cs))
      else if p = CHR ''_'' then (case s of [] \<Rightarrow> False | c # cs \<Rightarrow> like ps cs)
      else (case s of [] \<Rightarrow> False | c # cs \<Rightarrow> lower_byte p = lower_byte c \<and> like ps cs))"

subsection \<open>The filter\<close>

record QueryFilter =
  qf_Domain :: string
  qf_Client :: string
  qf_Blocked :: "bool option"
  qf_Outcome :: string

datatype cond = DomainLike string | ClientIs string | BlockedIs int | UnresolvedCond | UpstreamErrorCond

fun cond_holds :: "cond \<Rightarrow> db_row \<Rightarrow> bool" where
  "cond_holds (DomainLike p) r = like p (row_domain r)"
| "cond_holds (ClientIs c) r = (row_client_ip r = c)"
| "cond_holds (BlockedIs b) r = (row_blocked r = b)"
| "cond_holds UnresolvedCond r = (row_synthesized r = 1 \<and> row_rcode r = 2)"
| "cond_holds UpstreamErrorCond r = (row_synthesized r = 0 \<and> (row_rcode r = 2 \<or> row_rcode r = 5))"

definition where_conds :: "unicode \<Rightarrow> QueryFilter \<Rightarrow> cond list" where
  "where_conds U f =
     (if qf_Domain f \<noteq> [] then [DomainLike (''%'' @ escapeLike (ToLower U (qf_Domain f)) @ ''%'')] else [])
     @ (if qf_Client f \<noteq> [] then [ClientIs (qf_Client f)] else [])
     @ (case qf_Blocked f of None \<Rightarrow> [] | Some b \<Rightarrow> [BlockedIs (b2i b)])
     @ (if qf_Outcome f = ''unresolved'' then [UnresolvedCond]
        else if qf_Outcome f = ''upstream-error'' then [UpstreamErrorCond] else [])"

definition row_matches :: "unicode \<Rightarrow> QueryFilter \<Rightarrow> db_row \<Rightarrow> bool" where
  "row_matches U f r = list_all (\<lambda>c. cond_holds c r) (where_conds U f)"

text \<open>LIMIT; a negative limit is no limit.\<close>

definition sql_limit :: "int \<Rightarrow> 'a list \<Rightarrow> 'a list" where
  "sql_limit n xs = (if n < 0 then xs else take (nat n) xs)"

definition Search :: "unicode \<Rightarrow> database \<Rightarrow> QueryFilter \<Rightarrow> int \<Rightarrow> QueryRow list" where
  "Search U db f n = map scan_row (sql_limit n (filter (row_matches U f) (rev (db_rows db))))"

definition no_filter :: QueryFilter where
  "no_filter = \<lparr>qf_Domain = [], qf_Client = [], qf_Blocked = None, qf_Outcome = []\<rparr>"

definition Recent :: "unicode \<Rightarrow> database \<Rightarrow> int \<Rightarrow> QueryRow list" where
  "Recent U db n = Search U db no_filter n"

text \<open>\<open>Export\<close>: one row at a time to \<open>yield\<close>, which may return an error and so stop it.\<close>

fun yield_rows :: "(QueryRow \<Rightarrow> string option) \<Rightarrow> db_row list \<Rightarrow> QueryRow list \<times> string option" where
  "yield_rows yield [] = ([], None)"
| "yield_rows yield (r # rs) =
     (case yield (scan_row r) of
        Some e \<Rightarrow> ([scan_row r], Some e)
      | None \<Rightarrow> (case yield_rows yield rs of (out, err) \<Rightarrow> (scan_row r # out, err)))"

definition Export :: "unicode \<Rightarrow> database \<Rightarrow> QueryFilter \<Rightarrow> int \<Rightarrow> (QueryRow \<Rightarrow> string option) \<Rightarrow> QueryRow list \<times> string option" where
  "Export U db f n yield =
     (let rows = filter (row_matches U f) (rev (db_rows db))
      in yield_rows yield (if 0 < n then sql_limit n rows else rows))"

subsection \<open>Top domains\<close>

definition TopBlocked :: "database \<Rightarrow> int \<Rightarrow> (string \<times> nat) list" where
  "TopBlocked db n =
     (let ds = map row_domain (filter (\<lambda>r. row_blocked r = 1) (db_rows db));
          groups = map (\<lambda>d. (d, count_list ds d)) (remdups ds)
      in sql_limit n (sort_key (\<lambda>(d, c). (- int c, d)) groups))"

subsection \<open>History\<close>

record Bucket =
  bk_Start :: int
  bk_Total :: nat
  bk_Blocked :: int
  bk_Cached :: int
  bk_Unresolved :: nat
  bk_UpstreamError :: nat

text \<open>The aggregate of one group of rows.\<close>

definition bucket_of :: "int \<Rightarrow> db_row list \<Rightarrow> Bucket" where
  "bucket_of start rs =
     \<lparr>bk_Start = start, bk_Total = length rs, bk_Blocked = sum_list (map row_blocked rs),
      bk_Cached = sum_list (map row_cache_hit rs),
      bk_Unresolved = length (filter (cond_holds UnresolvedCond) rs),
      bk_UpstreamError = length (filter (cond_holds UpstreamErrorCond) rs)\<rparr>"

text \<open>\<open>None\<close>: a zero bucket divides by zero, which panics.\<close>

definition History :: "database \<Rightarrow> duration \<Rightarrow> duration \<Rightarrow> time \<Rightarrow> time \<Rightarrow> Bucket list option" where
  "History db window bucket now now' =
     (if bucket = 0 then None
      else
        let bucketSecs = (let b = go_div bucket second in if b \<le> 0 then 1 else b);
            n = (let k = go_div window bucket in if k \<le> 0 then 1 else k);
            cutoff = (now - window) div second;
            rows = filter (\<lambda>r. cutoff \<le> row_ts r) (db_rows db);
            group = (\<lambda>r. go_div (row_ts r) bucketSecs * bucketSecs);
            counts = map_of (map (\<lambda>s. (s, bucket_of s (filter (\<lambda>r. group r = s) rows))) (remdups (map group rows)));
            last = go_div (now' div second) bucketSecs * bucketSecs;
            first = last - (n - 1) * bucketSecs
        in Some (map (\<lambda>i. let start = first + i * bucketSecs in
             (case counts start of Some b \<Rightarrow> b\<lparr>bk_Start := start\<rparr> | None \<Rightarrow> bucket_of start []))
           [0..n - 1]))"

subsection \<open>Stale rows\<close>

record StaleReport =
  sr_Rows :: nat
  sr_Newest :: "int option"
  sr_Expires :: "int option"

definition unmaskedClients :: "iptext \<Rightarrow> database \<Rightarrow> string list" where
  "unmaskedClients T db =
     filter (\<lambda>c. MaskClientIP T c ''subnet'' \<noteq> c)
       (remdups (filter (\<lambda>c. c \<noteq> []) (map row_client_ip (db_rows db))))"

definition stale_conds :: "iptext \<Rightarrow> string \<Rightarrow> string \<Rightarrow> database \<Rightarrow> (db_row \<Rightarrow> bool) list" where
  "stale_conds T logQueries clients db =
     (if logQueries = ''none'' then [\<lambda>r. True]
      else if logQueries = ''blocked'' then [\<lambda>r. row_blocked r = 0] else [])
     @ (if clients = ''drop'' \<or> clients = [] then [\<lambda>r. row_client_ip r \<noteq> []]
        else if clients = ''subnet'' then
          (let unmasked = unmaskedClients T db in if unmasked \<noteq> [] then [\<lambda>r. row_client_ip r \<in> set unmasked] else [])
        else [])"

definition StaleRows :: "iptext \<Rightarrow> DBLogger \<Rightarrow> string \<Rightarrow> StaleReport" where
  "StaleRows T d clients =
     (let zero = \<lparr>sr_Rows = 0, sr_Newest = None, sr_Expires = None\<rparr>;
          conds = stale_conds T (dl_logQueries d) clients (dl_db d);
          rows = filter (\<lambda>r. list_ex (\<lambda>c. c r) conds) (db_rows (dl_db d))
      in if conds = [] then zero
         else if rows = [] then zero
         else let newest = Max (set (map row_ts rows)) in
           \<lparr>sr_Rows = length rows, sr_Newest = Some newest,
            sr_Expires = (if 0 < dl_retentionDays d
              then Some (newest + wrap64 (wrap64 (dl_retentionDays d * 24) * hour) div second) else None)\<rparr>)"

section \<open>Lemmas\<close>

lemma escapeLike_eq:
  "escapeLike s = concat (map (\<lambda>x. if x = backslash \<or> x = CHR ''%'' \<or> x = CHR ''_'' then [backslash, x] else [x]) s)"
  by (induction s) (simp_all add: escapeLike_def ReplaceByte_def)

lemma like_escaped:
  "like (escapeLike t @ ps) s \<longleftrightarrow> (\<exists>m b. s = m @ b \<and> map lower_byte m = map lower_byte t \<and> like ps b)"
proof (induction t arbitrary: s)
  case Nil
  then show ?case by (simp add: escapeLike_eq)
next
  case (Cons x t)
  have step: "like (escapeLike (x # t) @ ps) s = (case s of [] \<Rightarrow> False | c # cs \<Rightarrow> lower_byte x = lower_byte c \<and> like (escapeLike t @ ps) cs)"
    by (auto simp: escapeLike_eq split: list.splits)
  note IH = Cons.IH
  show ?case
  proof (cases s)
    case (Cons c cs)
    have "like (escapeLike (x # t) @ ps) s \<longleftrightarrow> lower_byte c = lower_byte x \<and> like (escapeLike t @ ps) cs"
      using step Cons by (simp add: eq_commute [of "lower_byte x"])
    also have "\<dots> \<longleftrightarrow> (\<exists>m b. cs = m @ b \<and> map lower_byte (c # m) = map lower_byte (x # t) \<and> like ps b)"
      unfolding IH list.map list.inject by blast
    also have "\<dots> \<longleftrightarrow> (\<exists>m b. s = m @ b \<and> map lower_byte m = map lower_byte (x # t) \<and> like ps b)"
    proof
      assume "\<exists>m b. cs = m @ b \<and> map lower_byte (c # m) = map lower_byte (x # t) \<and> like ps b"
      then show "\<exists>m b. s = m @ b \<and> map lower_byte m = map lower_byte (x # t) \<and> like ps b"
        unfolding Cons by (metis append_Cons)
    qed (auto simp: Cons Cons_eq_append_conv)
    finally show ?thesis .
  next
    case Nil
    then show ?thesis using step by simp
  qed
qed

lemma like_percent: "like (CHR ''%'' # ps) s \<longleftrightarrow> (\<exists>a b. s = a @ b \<and> like ps b)"
proof (induction s)
  case (Cons c cs)
  have "like (CHR ''%'' # ps) (c # cs) \<longleftrightarrow> like ps (c # cs) \<or> like (CHR ''%'' # ps) cs" by simp
  then show ?case using Cons.IH by (auto simp: Cons_eq_append_conv)
qed simp

lemma like_substring:
  "like (CHR ''%'' # escapeLike t @ ''%'') s \<longleftrightarrow> (\<exists>a m b. s = a @ m @ b \<and> map lower_byte m = map lower_byte t)"
proof -
  have p: "like ''%'' b" for b using like_percent [of "[]" b] by simp
  have "like (CHR ''%'' # escapeLike t @ ''%'') s \<longleftrightarrow> (\<exists>a b. s = a @ b \<and> like (escapeLike t @ ''%'') b)"
    by (rule like_percent)
  then show ?thesis using p by (auto simp: like_escaped simp del: like.simps)
qed

lemma Contains_iff: "Contains s p \<longleftrightarrow> (\<exists>a b. s = a @ p @ b)"
proof (induction s)
  case (Cons x xs)
  then show ?case by (auto simp: HasPrefix_iff Cons_eq_append_conv)
qed auto

lemma lower_contains:
  "(\<exists>a m b. s = a @ m @ b \<and> map lower_byte m = map lower_byte t) \<longleftrightarrow> Contains (map lower_byte s) (map lower_byte t)"
proof
  assume "\<exists>a m b. s = a @ m @ b \<and> map lower_byte m = map lower_byte t"
  then obtain a m b where "map lower_byte s = map lower_byte a @ map lower_byte t @ map lower_byte b" by auto
  then show "Contains (map lower_byte s) (map lower_byte t)" unfolding Contains_iff by blast
next
  assume "Contains (map lower_byte s) (map lower_byte t)"
  then obtain a b where "map lower_byte s = a @ map lower_byte t @ b" unfolding Contains_iff by blast
  then obtain a' s' where 1: "s = a' @ s'" "map lower_byte s' = map lower_byte t @ b" by (metis map_eq_append_conv)
  then obtain m b' where "s' = m @ b'" "map lower_byte m = map lower_byte t" by (metis map_eq_append_conv)
  then show "\<exists>a m b. s = a @ m @ b \<and> map lower_byte m = map lower_byte t" using 1 by blast
qed

lemmas like_contains = trans [OF like_substring lower_contains]

text \<open>What the filter means, field by field.\<close>

definition filter_spec :: "unicode \<Rightarrow> QueryFilter \<Rightarrow> db_row \<Rightarrow> bool" where
  "filter_spec U f r =
     ((qf_Domain f = [] \<or> Contains (map lower_byte (row_domain r)) (map lower_byte (ToLower U (qf_Domain f))))
      \<and> (qf_Client f = [] \<or> row_client_ip r = qf_Client f)
      \<and> (case qf_Blocked f of None \<Rightarrow> True | Some b \<Rightarrow> row_blocked r = b2i b)
      \<and> (qf_Outcome f = ''unresolved'' \<longrightarrow> isUnresolved (row_rcode r) (row_synthesized r = 1))
      \<and> (qf_Outcome f = ''upstream-error'' \<longrightarrow> row_synthesized r = 0 \<and> isUpstreamError (row_rcode r) False))"

lemma row_matches_spec: "row_matches U f r = filter_spec U f r"
  by (auto simp: row_matches_def where_conds_def filter_spec_def like_contains isUnresolved_def
      isUpstreamError_def simp del: like.simps split: option.splits)

lemma yield_all: "list_all (\<lambda>r. yield (scan_row r) = None) rs \<Longrightarrow> yield_rows yield rs = (map scan_row rs, None)"
  by (induction rs) auto

lemma bucket_of_empty: "bucket_of s [] = \<lparr>bk_Start = s, bk_Total = 0, bk_Blocked = 0, bk_Cached = 0, bk_Unresolved = 0, bk_UpstreamError = 0\<rparr>"
  by (simp add: bucket_of_def)

lemma map_of_groups:
  "map_of (map (\<lambda>s. (s, f s)) (remdups xs)) k = (if k \<in> set xs then Some (f k) else None)"
  by (simp add: map_of_map_restrict)

lemma history_entry:
  "(case map_of (map (\<lambda>s. (s, bucket_of s (filter (\<lambda>r. g r = s) rows))) (remdups (map g rows))) start of
      Some b \<Rightarrow> b\<lparr>bk_Start := start\<rparr> | None \<Rightarrow> bucket_of start []) = bucket_of start (filter (\<lambda>r. g r = start) rows)"
proof (cases "start \<in> set (map g rows)")
  case True
  then show ?thesis unfolding map_of_groups by (simp add: bucket_of_def)
next
  case False
  then have "filter (\<lambda>r. g r = start) rows = []" by (auto simp: filter_empty_conv)
  with False show ?thesis unfolding map_of_groups by simp
qed

text \<open>\<open>unmaskedClients\<close> is exactly the non-empty values that masking would change.\<close>

lemma unmasked_iff: "r \<in> set (db_rows db) \<Longrightarrow>
    row_client_ip r \<in> set (unmaskedClients T db) \<longleftrightarrow> row_client_ip r \<noteq> [] \<and> MaskClientIP T (row_client_ip r) ''subnet'' \<noteq> row_client_ip r"
  by (auto simp: unmaskedClients_def)

text \<open>A row that the current settings would not have written like this.\<close>

definition row_stale :: "iptext \<Rightarrow> string \<Rightarrow> string \<Rightarrow> db_row \<Rightarrow> bool" where
  "row_stale T mode clients r =
     (mode = ''none'' \<or> (mode = ''blocked'' \<and> row_blocked r = 0)
      \<or> ((clients = ''drop'' \<or> clients = [] \<or> clients = ''subnet'') \<and> row_client_ip r \<noteq> MaskClientIP T (row_client_ip r) clients
         \<and> row_client_ip r \<noteq> []))"

lemma stale_conds_iff:
  assumes "r \<in> set (db_rows db)"
  shows "list_ex (\<lambda>c. c r) (stale_conds T mode clients db) = row_stale T mode clients r"
  using unmasked_iff [OF assms, of T]
  by (auto simp: stale_conds_def row_stale_def MaskClientIP_def Let_def)

section \<open>Properties\<close>

text \<open>a search returns, newest first and at most \<open>n\<close>, exactly the rows whose stored columns match the
  filter: the typed domain as a literal, case-insensitive substring (a typed percent sign,
  underscore or backslash is never a wildcard), the stored client, the block flag, and the same
  failure rule that \<open>Outcome\<close> and the log markers use. An export with a writer that accepts every
  row returns the same rows.\<close>

theorem search_exact:
  "Search U db f n = map scan_row (sql_limit n (filter (filter_spec U f) (rev (db_rows db))))
   \<and> (\<forall>yield. 0 < n \<and> (\<forall>q. yield q = None) \<longrightarrow> Export U db f n yield = (Search U db f n, None))"
  by (simp add: Search_def Export_def row_matches_spec [abs_def] Let_def yield_all list_all_iff)

definition demo_rows :: "db_row list" where
  "demo_rows = [row_of 1 (db_entry_of (demo_rec\<lparr>rec_Domain := ''a_b.test.''\<rparr>) 0), row_of 2 (db_entry_of (demo_rec\<lparr>rec_Domain := ''axb.test.''\<rparr>) second)]"

text \<open>the history series is complete and dense: with a bucket of whole seconds and rows stored at or
  after the epoch, it has window / bucket entries, one bucket apart, and each entry is the
  aggregate of exactly the rows inside the window whose time falls into it, empty ones included.\<close>

theorem history_dense:
  assumes "History db window bucket now now' = Some out" "second \<le> bucket"
    and w: "w = max 1 (go_div window bucket)" and b: "b = go_div bucket second" and l: "l = go_div (now' div second) b * b"
  shows "out = map (\<lambda>i. let start = l - (w - 1) * b + i * b in
       bucket_of start (filter (\<lambda>r. (now - window) div second \<le> row_ts r \<and> go_div (row_ts r) b * b = start) (db_rows db))) [0..w - 1]"
proof -
  have b1: "1 \<le> b" using assms(2) b by (simp add: go_div_def zdiv_mono1 [of second bucket second, simplified])
  have w1: "(if go_div window bucket \<le> 0 then 1 else go_div window bucket) = w" using w by (simp add: max_def)
  have bs: "(if go_div bucket second \<le> 0 then 1 else go_div bucket second) = b" using b b1 by simp
  have "bucket \<noteq> 0" using assms(2) by auto
  then have "out = map (\<lambda>i. let start = l - (w - 1) * b + i * b in
       bucket_of start (filter (\<lambda>r. go_div (row_ts r) b * b = start) (filter (\<lambda>r. (now - window) div second \<le> row_ts r) (db_rows db)))) [0..w - 1]"
    using assms(1) unfolding History_def Let_def w1 bs l [symmetric] history_entry by simp
  then show ?thesis by (simp add: filter_filter conj_commute)
qed

text \<open>the stale-row report is exact: it counts the stored rows that the current mode and client
  setting would not have written as they are, so it is zero exactly when every row is as
  private as the settings ask, and its newest time is that of one of those rows and the latest.\<close>

theorem staleRows_exact:
  "sr_Rows (StaleRows T d clients) = length (filter (row_stale T (dl_logQueries d) clients) (db_rows (dl_db d)))
   \<and> (sr_Newest (StaleRows T d clients) =
        (if filter (row_stale T (dl_logQueries d) clients) (db_rows (dl_db d)) = [] then None
         else Some (Max (row_ts ` set (filter (row_stale T (dl_logQueries d) clients) (db_rows (dl_db d)))))))"
proof -
  let ?rows = "db_rows (dl_db d)" and ?c = "stale_conds T (dl_logQueries d) clients (dl_db d)"
  have eq: "filter (\<lambda>r. list_ex (\<lambda>c. c r) ?c) ?rows = filter (row_stale T (dl_logQueries d) clients) ?rows"
    by (rule filter_cong [OF refl]) (rule stale_conds_iff)
  have "?c = [] \<Longrightarrow> filter (\<lambda>r. list_ex (\<lambda>c. c r) ?c) ?rows = []" by simp
  then show ?thesis
    unfolding StaleRows_def Let_def eq [symmetric] by (cases "?c = []") auto
qed

end
