(* ===== verification/Lan_Acl.thy ===== *)
theory Lan_Acl
  imports Dns_Msg
begin

text \<open>
  Which sources are on the local network, \<open>src/internal/dnsserver/lan.go\<close>. The interface addresses
  that a read returns, or its error, and the clock are arguments of \<open>refresh\<close> and of the
  operations that call it; each returns the state after the call. The log lines are left out, the
  state that limits them is kept.
\<close>

section \<open>Model\<close>

definition pfx4 :: "32 word \<Rightarrow> int \<Rightarrow> ip_prefix" where "pfx4 a b = \<lparr>p_Addr = Addr4 a, p_Bits = b\<rparr>"
definition pfx6 :: "128 word \<Rightarrow> int \<Rightarrow> ip_prefix" where "pfx6 a b = \<lparr>p_Addr = Addr6 a [], p_Bits = b\<rparr>"

definition lanRanges :: "ip_prefix list" where
  "lanRanges =
     [pfx4 0x7F000000 8, pfx6 1 128, pfx4 0x0A000000 8, pfx4 0xAC100000 12, pfx4 0xC0A80000 16, pfx4 0xA9FE0000 16,
      pfx6 (push_bit 120 0xFC) 7, pfx6 (push_bit 112 0xFE80) 10]"

definition lanRefreshInterval :: duration where "lanRefreshInterval = 30 * second"

definition readFailWarnInterval :: duration where "readFailWarnInterval = hour"

text \<open>A \<open>net.Addr\<close>: the bytes of an \<open>IPNet\<close> and the number of ones of its mask, or another type.\<close>

datatype net_addr = IPNet "8 word list" int | OtherNetAddr

record lanACL =
  la_onLink :: "ip_prefix list option"
  la_refreshed :: "time option"
  la_readFailWarned :: "time option"
  la_notAdmitted :: "ip_prefix list"

definition inLANRanges :: "ip_prefix \<Rightarrow> bool" where
  "inLANRanges p = list_ex (\<lambda>r. p_Bits r \<le> p_Bits p \<and> PfxContains r (p_Addr p)) lanRanges"

text \<open>The prefix of one interface address; \<open>None\<close> skips it.\<close>

definition link_prefix :: "net_addr \<Rightarrow> ip_prefix option" where
  "link_prefix ad = (case ad of
       OtherNetAddr \<Rightarrow> None
     | IPNet bytes ones \<Rightarrow>
         (case AddrFromSlice bytes of
            None \<Rightarrow> None
          | Some ip0 \<Rightarrow>
              let ip = Unmap ip0;
                  bits1 = (if Is4 ip \<and> 32 < ones then ones - 96 else ones);
                  bits = (if Is6 ip \<and> IsGlobalUnicast ip \<and> 64 < bits1 then 64 else bits1)
              in AddrPrefix ip bits))"

definition admit_link :: "net_addr \<Rightarrow> ip_prefix list \<times> ip_prefix list \<Rightarrow> ip_prefix list \<times> ip_prefix list" where
  "admit_link ad acc = (case link_prefix ad of
       None \<Rightarrow> acc
     | Some p \<Rightarrow>
         if Is4 (p_Addr p) \<and> \<not> inLANRanges p then (fst acc, List.insert p (snd acc)) else (fst acc @ [p], snd acc))"

definition refresh :: "time \<Rightarrow> string + net_addr list \<Rightarrow> lanACL \<Rightarrow> lanACL" where
  "refresh now addrs a =
     (if (case la_refreshed a of None \<Rightarrow> False | Some t \<Rightarrow> time_Sub now t < lanRefreshInterval) then a
      else
        let a1 = a\<lparr>la_refreshed := Some now\<rparr> in
        (case addrs of
           Inl e \<Rightarrow>
             (case la_readFailWarned a1 of
                None \<Rightarrow> a1\<lparr>la_readFailWarned := Some now\<rparr>
              | Some t \<Rightarrow> if readFailWarnInterval \<le> time_Sub now t then a1\<lparr>la_readFailWarned := Some now\<rparr> else a1)
         | Inr ads \<Rightarrow>
             (case fold admit_link ads ([], []) of
                (out, refused) \<Rightarrow> a1\<lparr>la_notAdmitted := refused, la_onLink := Some out\<rparr>)))"

definition newLANACL :: "time \<Rightarrow> string + net_addr list \<Rightarrow> lanACL" where
  "newLANACL now addrs =
     refresh now addrs \<lparr>la_onLink = None, la_refreshed = None, la_readFailWarned = None, la_notAdmitted = []\<rparr>"

definition lan_contains :: "lanACL \<Rightarrow> addr \<Rightarrow> bool" where
  "lan_contains a ip =
     (list_ex (\<lambda>p. PfxContains p ip) lanRanges
      \<or> (case la_onLink a of None \<Rightarrow> False | Some ps \<Rightarrow> list_ex (\<lambda>p. PfxContains p ip) ps))"

definition underGlobalV6 :: "lanACL \<Rightarrow> ip_prefix \<Rightarrow> bool" where
  "underGlobalV6 a p = (case la_onLink a of
       None \<Rightarrow> False
     | Some links \<Rightarrow>
         list_ex (\<lambda>l. Is6 (p_Addr l) \<and> IsGlobalUnicast (p_Addr l) \<and> \<not> IsPrivate (p_Addr l)
                       \<and> p_Bits l \<le> p_Bits p \<and> PfxContains l (p_Addr p)) links)"

definition ownGlobalV6 :: "time \<Rightarrow> string + net_addr list \<Rightarrow> lanACL \<Rightarrow> ip_prefix \<Rightarrow> bool \<times> lanACL" where
  "ownGlobalV6 now addrs a p =
     (if underGlobalV6 a p then (True, a) else let a' = refresh now addrs a in (underGlobalV6 a' p, a'))"

definition lan_allows :: "time \<Rightarrow> string + net_addr list \<Rightarrow> lanACL \<Rightarrow> addr \<Rightarrow> bool \<times> lanACL" where
  "lan_allows now addrs a ip0 =
     (let ip = WithoutZone (Unmap ip0) in
      if lan_contains a ip then (True, a) else let a' = refresh now addrs a in (lan_contains a' ip, a'))"

text \<open>The source of a query as the transport gives it: the bytes of a UDP or TCP address, no
  address, or the text of another type, which \<open>netip.ParseAddrPort\<close> (the argument) reads.\<close>

datatype remote = RemoteUDP "8 word list" | RemoteTCP "8 word list" | RemoteNil | RemoteOther string

definition remoteIP :: "(string \<Rightarrow> addr option) \<Rightarrow> remote \<Rightarrow> addr" where
  "remoteIP parse_addr_port w = (case w of
       RemoteUDP b \<Rightarrow> (case AddrFromSlice b of Some ip \<Rightarrow> ip | None \<Rightarrow> NoAddr)
     | RemoteTCP b \<Rightarrow> (case AddrFromSlice b of Some ip \<Rightarrow> ip | None \<Rightarrow> NoAddr)
     | RemoteNil \<Rightarrow> NoAddr
     | RemoteOther s \<Rightarrow> (case parse_addr_port s of Some ip \<Rightarrow> ip | None \<Rightarrow> NoAddr))"

text \<open>The reply of \<open>refuse\<close>; the counter of refused queries is part of the handler's state.\<close>

definition refuse_reply :: "dnslib \<Rightarrow> msg \<Rightarrow> msg" where
  "refuse_reply L req = SetRcode L zero_msg req RcodeRefused"

section \<open>Lemmas\<close>

text \<open>The invariant: an IPv4 subnet is on-link only inside \<open>lanRanges\<close>, and a global IPv6 subnet
  never wider in mask than /64.\<close>

definition link_ok :: "ip_prefix \<Rightarrow> bool" where
  "link_ok p = (p_Addr p \<noteq> NoAddr \<and> 0 \<le> p_Bits p \<and> (Is4 (p_Addr p) \<longrightarrow> inLANRanges p \<and> p_Bits p \<le> 32) \<and> p_Bits p \<le> 128)"

definition acl_ok :: "lanACL \<Rightarrow> bool" where
  "acl_ok a = (case la_onLink a of None \<Rightarrow> True | Some ps \<Rightarrow> list_all link_ok ps)"

lemma AddrPrefix_Some:
  "AddrPrefix a b = Some p \<Longrightarrow> a \<noteq> NoAddr \<Longrightarrow>
     p_Bits p = b \<and> 0 \<le> b \<and> p_Addr p \<noteq> NoAddr \<and> Is4 (p_Addr p) = Is4 a \<and> b \<le> 128 \<and> (Is4 a \<longrightarrow> b \<le> 32)"
  by (cases a) (auto split: if_splits)

lemma link_prefix_ok: "link_prefix ad = Some p \<Longrightarrow> Is4 (p_Addr p) \<longrightarrow> inLANRanges p \<Longrightarrow> link_ok p"
proof -
  assume p: "link_prefix ad = Some p" and r: "Is4 (p_Addr p) \<longrightarrow> inLANRanges p"
  obtain ip0 ip bits where ap: "AddrPrefix ip bits = Some p" "ip = Unmap ip0" "ip0 \<noteq> NoAddr"
    using p by (auto simp: link_prefix_def AddrFromSlice_def Let_def split: net_addr.splits option.splits if_splits)
  have "ip \<noteq> NoAddr" using ap(2,3) by (cases ip0) auto
  from AddrPrefix_Some [OF ap(1) this] r show "link_ok p" by (simp add: link_ok_def)
qed

lemma admit_link_ok: "list_all link_ok (fst acc) \<Longrightarrow> list_all link_ok (fst (admit_link ad acc))"
  by (auto simp: admit_link_def dest: link_prefix_ok split: option.splits)

lemma fold_admit_ok: "list_all link_ok (fst acc) \<Longrightarrow> list_all link_ok (fst (fold admit_link ads acc))"
  by (induction ads arbitrary: acc) (auto simp: admit_link_ok)

lemma refresh_onLink:
  "la_onLink (refresh now addrs a) = la_onLink a
   \<or> (\<exists>ads. addrs = Inr ads \<and> la_onLink (refresh now addrs a) = Some (fst (fold admit_link ads ([], []))))"
  by (auto simp: refresh_def Let_def split: option.splits sum.splits prod.splits)

lemma acl_ok_refresh [inv_intros]: "acl_ok a \<Longrightarrow> acl_ok (refresh now addrs a)"
  using refresh_onLink [of now addrs a] fold_admit_ok [of "([], [])"] by (auto simp: acl_ok_def)

lemma acl_ok_new [inv_intros]: "acl_ok (newLANACL now addrs)"
  unfolding newLANACL_def by (rule acl_ok_refresh) (simp add: acl_ok_def)

text \<open>A subnet inside a range holds only addresses of the range.\<close>

lemma same_top_chain: "m \<le> n \<Longrightarrow> same_top m a b \<Longrightarrow> same_top n b c \<Longrightarrow> same_top m a c"
  by (blast intro: same_top_trans same_top_mono)

lemma PfxContains_trans:
  assumes "PfxContains r (p_Addr p)" "p_Bits r \<le> p_Bits p" "PfxContains p x"
  shows "PfxContains r x"
proof -
  have le: "nat (p_Bits r) \<le> nat (p_Bits p)" using assms(2) by simp
  show ?thesis
    using assms by (cases x) (auto simp: PfxContains_def split: addr.splits intro: same_top_chain [OF le])
qed

lemma contains_v4:
  assumes "acl_ok a" "lan_contains a (Addr4 x)"
  shows "list_ex (\<lambda>p. PfxContains p (Addr4 x)) lanRanges"
proof (cases "list_ex (\<lambda>p. PfxContains p (Addr4 x)) lanRanges")
  case False
  then obtain p where p: "link_ok p" "PfxContains p (Addr4 x)"
    using assms by (auto simp: lan_contains_def acl_ok_def list_ex_iff list_all_iff split: option.splits)
  then have "Is4 (p_Addr p)" by (auto simp: PfxContains_def split: addr.splits)
  then obtain r where "r \<in> set lanRanges" "p_Bits r \<le> p_Bits p" "PfxContains r (p_Addr p)" "p_Bits p \<le> 32"
    using p(1) by (auto simp: link_ok_def inLANRanges_def list_ex_iff)
  then have "PfxContains r (Addr4 x)" using PfxContains_trans [of r p "Addr4 x"] p(2) by blast
  then show ?thesis using \<open>r \<in> set lanRanges\<close> by (auto simp: list_ex_iff)
qed

lemma acl_ok_allows [inv_intros]: "acl_ok a \<Longrightarrow> acl_ok (snd (lan_allows now addrs a ip))"
  by (auto simp: lan_allows_def Let_def intro: inv_intros)

lemma acl_ok_own [inv_intros]: "acl_ok a \<Longrightarrow> acl_ok (snd (ownGlobalV6 now addrs a p))"
  by (auto simp: ownGlobalV6_def Let_def intro: inv_intros)

lemma ranges_v4:
  "list_ex (\<lambda>p. PfxContains p (Addr4 x)) lanRanges \<longleftrightarrow>
     drop_bit 24 x = 127 \<or> drop_bit 24 x = 10 \<or> drop_bit 20 x = 0xAC1 \<or> drop_bit 16 x = 0xC0A8 \<or> drop_bit 16 x = 0xA9FE"
  by (auto simp: lanRanges_def pfx4_def pfx6_def PfxContains_def same_top_def)

lemma allows_v4:
  assumes "acl_ok a" "fst (lan_allows now addrs a ip)" "Unmap ip = Addr4 x"
  shows "list_ex (\<lambda>p. PfxContains p (Addr4 x)) lanRanges"
proof -
  have "\<exists>a'. acl_ok a' \<and> lan_contains a' (Addr4 x)"
    using assms acl_ok_refresh [OF assms(1), of now addrs] by (auto simp: lan_allows_def Let_def split: if_splits)
  then show ?thesis using contains_v4 by blast
qed

text \<open>Reachable states: from the start through any queries and reverse lookups.\<close>

inductive acl_reach :: "lanACL \<Rightarrow> bool" where
  start: "acl_reach (newLANACL now addrs)"
| query: "acl_reach a \<Longrightarrow> acl_reach (snd (lan_allows now addrs a ip))"
| reverse: "acl_reach a \<Longrightarrow> acl_reach (snd (ownGlobalV6 now addrs a p))"

lemma acl_reach_ok: "acl_reach a \<Longrightarrow> acl_ok a"
  by (induction rule: acl_reach.induct) (auto intro: inv_intros)

section \<open>Properties\<close>

text \<open>s-hole is never an open resolver on IPv4: in every state that interface reads and queries can
  lead to, whatever the interfaces of the host, an IPv4 source (a mapped one included) is
  answered only if it is loopback, private or link-local. And a failed interface read never
  admits anyone new.\<close>

theorem lan_never_public_v4:
  assumes "acl_reach a" "fst (lan_allows now addrs a ip)" "Unmap ip = Addr4 x"
  shows "(drop_bit 24 x = 127 \<or> drop_bit 24 x = 10 \<or> drop_bit 20 x = 0xAC1 \<or> drop_bit 16 x = 0xC0A8 \<or> drop_bit 16 x = 0xA9FE)
     \<and> (\<forall>now' e ip'. lan_contains (refresh now' (Inl e) a) ip' \<longrightarrow> lan_contains a ip')"
proof -
  have ok: "acl_ok a" using assms(1) by (rule acl_reach_ok)
  have "list_ex (\<lambda>p. PfxContains p (Addr4 x)) lanRanges" by (rule allows_v4 [OF ok assms(2,3)])
  moreover have "la_onLink (refresh now' (Inl e) a) = la_onLink a" for now' e
    by (auto simp: refresh_def Let_def split: option.splits)
  ultimately show ?thesis by (auto simp: ranges_v4 lan_contains_def)
qed

end
