(* ===== verification/Local_Names.thy ===== *)
theory Local_Names
  imports Lan_Acl Redact_Url
begin

text \<open>
  Names that stay on the local network, \<open>src/internal/dnsserver/localnames.go\<close>, and the reverse
  zones of \<open>src/internal/dnsserver/handler.go\<close> (\<open>reverseZones\<close>, \<open>isPrivatePTR\<close>, \<open>ip6Prefix\<close>). A name is
  in presentation form, lowercase with the trailing root dot, as the handler passes it. The loop
  of \<open>isPrivatePTR\<close> calls the library's \<open>NextLabel\<close>; it has fuel, and as many steps as the name has
  bytes are enough.
\<close>

section \<open>Model\<close>

datatype nameClass = publicName | localhostName | neverResolved | lanOnlyName

definition neverResolvedSuffixes :: "string list" where
  "neverResolvedSuffixes = [''invalid.'', ''onion.'', ''alt.'']"

definition lanOnlySuffixes :: "string list" where
  "lanOnlySuffixes = [''local.'', ''home.arpa.'', ''internal.'', ''test.'', ''intranet.'', ''private.'', ''corp.'',
     ''home.'', ''lan.'', ''localdomain.'', ''fritz.box.'']"

definition underSuffix :: "string \<Rightarrow> string \<Rightarrow> bool" where
  "underSuffix name sfx =
     (name = sfx \<or> (HasSuffix name sfx \<and> name ! (length name - length sfx - 1) = CHR ''.''))"

definition suffixClass :: "string \<Rightarrow> string list \<Rightarrow> nameClass" where
  "suffixClass name localDomains =
     (if underSuffix name ''localhost.'' then localhostName
      else if list_ex (underSuffix name) neverResolvedSuffixes then neverResolved
      else if list_ex (underSuffix name) lanOnlySuffixes then lanOnlyName
      else if list_ex (underSuffix name) localDomains then lanOnlyName
      else publicName)"

definition zoneType :: "u16 \<Rightarrow> bool" where
  "zoneType qtype = (qtype \<in> {TypeSOA, TypeNS, TypeDS, TypeDNSKEY, TypeRRSIG, TypeNSEC, TypeNSEC3, TypeNSEC3PARAM, TypeCDS, TypeCDNSKEY})"

definition classify :: "dnslib \<Rightarrow> u16 \<Rightarrow> string \<Rightarrow> string list \<Rightarrow> nameClass" where
  "classify L qtype name localDomains =
     (let c = suffixClass name localDomains in
      if c \<noteq> publicName then c
      else if CountLabel L name = 1 \<and> \<not> zoneType qtype then lanOnlyName
      else publicName)"

definition localSuffixes :: "unicode \<Rightarrow> dnslib \<Rightarrow> string list \<Rightarrow> string list" where
  "localSuffixes U L domains = map (\<lambda>d. Fqdn L (ToLower U d)) domains"

definition KeepsLocal :: "unicode \<Rightarrow> dnslib \<Rightarrow> string list \<Rightarrow> string \<Rightarrow> bool" where
  "KeepsLocal U L localDomains domain = (suffixClass (Fqdn L (ToLower U domain)) localDomains \<noteq> publicName)"

definition upstreamIP :: "urllib \<Rightarrow> iptext \<Rightarrow> string \<Rightarrow> addr option" where
  "upstreamIP K T up =
     (let host = (if Contains up ''://'' then map_option (\<lambda>p. url_Hostname K (ur_Host p)) (url_Parse K up)
                  else map_option fst (SplitHostPort up))
      in case host of
           None \<Rightarrow> None
         | Some h \<Rightarrow> map_option (\<lambda>ip. WithoutZone (Unmap ip)) (ParseAddr T h))"

text \<open>\<open>lanUpstreams\<close>: the upstreams with an address on the LAN, in order; a refresh may happen on the
  way, so the state is threaded through.\<close>

fun lanUpstreams :: "time \<Rightarrow> string + net_addr list \<Rightarrow> (string \<times> addr) list \<Rightarrow> lanACL \<Rightarrow> string list \<times> lanACL" where
  "lanUpstreams now addrs [] a = ([], a)"
| "lanUpstreams now addrs ((u, ip) # ups) a =
     (if \<not> IsValid ip then lanUpstreams now addrs ups a
      else (case lan_allows now addrs a ip of (ok, a') \<Rightarrow>
        (case lanUpstreams now addrs ups a' of (out, a'') \<Rightarrow> (if ok then u # out else out, a''))))"

definition localhostTTL :: u32 where "localhostTTL = 3600"

text \<open>The reply that \<open>writeLocalhost\<close> builds before it is sent.\<close>

definition localhost_reply :: "dnslib \<Rightarrow> msg \<Rightarrow> question \<Rightarrow> msg" where
  "localhost_reply L req q =
     (let resp = (SetReply L zero_msg req)\<lparr>m_Authoritative := True\<rparr>;
          hdr = \<lparr>h_Name = q_Name q, h_Rrtype = q_Qtype q, h_Class = ClassINET, h_Ttl = localhostTTL, rr_data = ROther []\<rparr>
      in if q_Qtype q = TypeA then resp\<lparr>m_Answer := m_Answer resp @ [hdr\<lparr>rr_data := RA (Addr4 0x7F000001)\<rparr>]\<rparr>
         else if q_Qtype q = TypeAAAA then resp\<lparr>m_Answer := m_Answer resp @ [hdr\<lparr>rr_data := RAAAA (Addr6 1 [])\<rparr>]\<rparr>
         else resp)"

subsection \<open>Reverse zones\<close>

definition reverseZones :: "string list" where
  "reverseZones =
     [''0.in-addr.arpa.'', ''10.in-addr.arpa.'', ''127.in-addr.arpa.'', ''254.169.in-addr.arpa.'', ''168.192.in-addr.arpa.'',
      ''2.0.192.in-addr.arpa.'', ''100.51.198.in-addr.arpa.'', ''113.0.203.in-addr.arpa.'', ''255.255.255.255.in-addr.arpa.'',
      Repeat ''0.'' 32 @ ''ip6.arpa.'', ''1.'' @ Repeat ''0.'' 31 @ ''ip6.arpa.'',
      ''c.f.ip6.arpa.'', ''d.f.ip6.arpa.'',
      ''8.e.f.ip6.arpa.'', ''9.e.f.ip6.arpa.'', ''a.e.f.ip6.arpa.'', ''b.e.f.ip6.arpa.'',
      ''8.b.d.0.1.0.0.2.ip6.arpa.'']
     @ map (\<lambda>i. Itoa i @ ''.172.in-addr.arpa.'') [16..31]
     @ map (\<lambda>i. Itoa i @ ''.100.in-addr.arpa.'') [64..127]"

fun zone_walk :: "dnslib \<Rightarrow> nat \<Rightarrow> string \<Rightarrow> nat \<Rightarrow> bool option" where
  "zone_walk L 0 name off = None"
| "zone_walk L (Suc fuel) name off =
     (if drop off name \<in> set reverseZones then Some True
      else (case NextLabel L name off of (off', end) \<Rightarrow>
        if end then Some False else zone_walk L fuel name off'))"

definition isPrivatePTR :: "unicode \<Rightarrow> dnslib \<Rightarrow> u16 \<Rightarrow> string \<Rightarrow> bool" where
  "isPrivatePTR U L qtype name0 =
     (if qtype \<noteq> TypePTR then False
      else let name = ToLower U name0 in zone_walk L (Suc (length name)) name 0 = Some True)"

text \<open>\<open>ip6Prefix\<close>: one pass over the labels; with \<open>n\<close> labels to come, the label is nibble \<open>n\<close> of the
  address, bits \<open>124 - 4 n\<close> and up: the high half of byte \<open>n / 2\<close> if \<open>n\<close> is even, the low half if not.\<close>

fun place_nibbles :: "string list \<Rightarrow> 128 word \<Rightarrow> 128 word option" where
  "place_nibbles [] b = Some b"
| "place_nibbles (l # ls) b =
     (if length l \<noteq> 1 then None
      else (case hex_value (hd l) of
         None \<Rightarrow> None
       | Some v \<Rightarrow> place_nibbles ls (b OR push_bit (124 - 4 * length ls) (of_nat v))))"

definition ip6Prefix :: "string \<Rightarrow> ip_prefix option" where
  "ip6Prefix name =
     (if \<not> HasSuffix name ''.ip6.arpa.'' then None
      else
        let labels = Split (TrimSuffix name ''.ip6.arpa.'') (CHR ''.'') in
        if 32 < length labels then None
        else (case place_nibbles labels 0 of
           None \<Rightarrow> None
         | Some b \<Rightarrow> Some (PrefixFrom (Addr6 b []) (int (length labels) * 4))))"

definition ownPrefixPTR :: "time \<Rightarrow> string + net_addr list \<Rightarrow> lanACL \<Rightarrow> u16 \<Rightarrow> string \<Rightarrow> bool \<times> lanACL" where
  "ownPrefixPTR now addrs a qtype name =
     (if qtype \<noteq> TypePTR then (False, a)
      else (case ip6Prefix name of None \<Rightarrow> (False, a) | Some p \<Rightarrow> ownGlobalV6 now addrs a p))"

section \<open>Lemmas\<close>

lemma underSuffix_iff: "underSuffix name sfx \<longleftrightarrow> under sfx name"
proof
  assume "underSuffix name sfx"
  then consider "name = sfx" | p where "name = p @ sfx" "name \<noteq> sfx" "name ! (length name - length sfx - 1) = CHR ''.''"
    unfolding underSuffix_def HasSuffix_iff by metis
  then show "under sfx name"
  proof cases
    case 2
    then have "p \<noteq> []" and "last p = CHR ''.''" by (auto simp: nth_append last_conv_nth)
    then have "name = butlast p @ CHR ''.'' # sfx" using 2(1) by (metis append.assoc append_Cons append_Nil append_butlast_last_id)
    then show ?thesis using under_label by metis
  qed simp
next
  assume "under sfx name"
  then show "underSuffix name sfx"
    by (auto simp: under_def underSuffix_def HasSuffix_def suffix_def nth_append)
qed

lemma lanUpstreams_lan:
  "u \<in> set (fst (lanUpstreams now addrs ups a)) \<Longrightarrow>
     \<exists>ip a'. (u, ip) \<in> set ups \<and> ip \<noteq> NoAddr \<and> fst (lan_allows now addrs a' ip) \<and> (acl_ok a \<longrightarrow> acl_ok a')"
proof (induction ups arbitrary: a)
  case (Cons x ups)
  obtain u' ip where x: "x = (u', ip)" by force
  obtain ok a1 where 1: "lan_allows now addrs a ip = (ok, a1)" by force
  have k: "acl_ok a \<longrightarrow> acl_ok a1" using acl_ok_allows [of a now addrs ip] 1 by simp
  show ?case
  proof (cases "IsValid ip")
    case False
    then show ?thesis using Cons.prems Cons.IH [of a] x by auto
  next
    case True
    show ?thesis
    proof (cases "u = u' \<and> ok")
      case True
      then show ?thesis using 1 \<open>IsValid ip\<close> x by (auto simp: IsValid_def intro!: exI [of _ ip] exI [of _ a])
    next
      case False
      then have "u \<in> set (fst (lanUpstreams now addrs ups a1))"
        using Cons.prems True 1 x by (auto split: prod.splits if_splits)
      then show ?thesis using Cons.IH [of a1] x k by auto
    qed
  qed
qed simp

text \<open>The walk over the labels of a name finds exactly the suffixes at label starts.\<close>

lemma label_ok_next: "label_ok L \<Longrightarrow> CHR 0x5C \<notin> set s \<Longrightarrow> off < length s \<Longrightarrow> NextLabel L s off = next_label s off"
  by (auto simp: label_ok_def)

lemma zone_walk_spec:
  assumes "label_ok L" "CHR 0x5C \<notin> set name"
  shows "off < length name \<Longrightarrow> length name - off < fuel \<Longrightarrow>
     zone_walk L fuel name off = Some (\<exists>z \<in> set reverseZones. z \<noteq> [] \<and> under z (drop off name))"
proof (induction fuel arbitrary: off)
  case (Suc fuel)
  have ne: "[] \<notin> set reverseZones" by (auto simp: reverseZones_def Repeat_def)
  let ?n = "drop off name"
  note nx = label_ok_next [OF assms Suc.prems(1)]
  show ?case
  proof (cases "?n \<in> set reverseZones")
    case True
    then have "?n \<noteq> []" "under ?n ?n" using ne by (auto simp del: drop_eq_Nil)
    with True show ?thesis by (simp del: drop_eq_Nil) blast
  next
    case False
    show ?thesis
    proof (cases "IndexByte ?n (CHR ''.'')")
      case None
      then have "CHR ''.'' \<notin> set ?n" by (simp add: IndexByte_None)
      then show ?thesis using False nx None under_no_dot [of ?n] by auto
    next
      case (Some i)
      let ?o = "off + i + 1"
      have i: "i < length ?n" "CHR ''.'' \<notin> set (take i ?n)" using IndexByte_Some [OF Some] by auto
      have sp: "?n = take i ?n @ CHR ''.'' # drop ?o name"
        using IndexByte_Some_split [OF Some] by (simp add: add.commute)
      have u: "under z ?n \<longleftrightarrow> z = ?n \<or> under z (drop ?o name)" for z
        using under_step [OF i(2), of z "drop ?o name"] sp by simp
      show ?thesis
      proof (cases "length name \<le> ?o")
        case True
        then have "drop ?o name = []" by simp
        then have "under z ?n \<longleftrightarrow> z = ?n \<or> z = []" for z using u [of z] by (auto simp: under_def suffix_def)
        then show ?thesis using False nx Some True by auto
      next
        case l: False
        then have "zone_walk L fuel name ?o = Some (\<exists>z \<in> set reverseZones. z \<noteq> [] \<and> under z (drop ?o name))"
          using Suc.prems i by (intro Suc.IH) auto
        then show ?thesis using False nx Some l u by auto
      qed
    qed
  qed
qed simp

lemma lower_byte_backslash: "lower_byte c = CHR 0x5C \<longleftrightarrow> c = CHR 0x5C"
proof -
  have "byte_of (CHR 0x5C) = 92" by (simp add: byte_of_def)
  then show ?thesis unfolding byte_of_inject [symmetric] byte_of_lower_byte by (auto simp: is_upper_def)
qed

lemma no_backslash_lower: "CHR 0x5C \<notin> set s \<Longrightarrow> CHR 0x5C \<notin> set (map lower_byte s)"
  unfolding set_map image_iff by (metis lower_byte_backslash)

lemma reverseZones_ne: "[] \<notin> set reverseZones"
  by (auto simp: reverseZones_def Repeat_def)

subsection \<open>Nibbles\<close>

text \<open>The reverse name of the first \<open>k\<close> nibbles of an address.\<close>

definition nibble :: "128 word \<Rightarrow> nat \<Rightarrow> 128 word" where
  "nibble a j = take_bit 4 (drop_bit (124 - 4 * j) a)"

definition hex_digit :: "nat \<Rightarrow> char" where
  "hex_digit v = ''0123456789abcdef'' ! v"

definition ip6_labels :: "128 word \<Rightarrow> nat \<Rightarrow> string list" where
  "ip6_labels a k = map (\<lambda>j. [hex_digit (unat (nibble a j))]) (rev [0..<k])"

definition ip6_name :: "128 word \<Rightarrow> nat \<Rightarrow> string" where
  "ip6_name a k = Join (ip6_labels a k) ''.'' @ ''.ip6.arpa.''"

lemma hex_digit_value: "v < 16 \<Longrightarrow> hex_value (hex_digit v) = Some v \<and> hex_digit v \<noteq> CHR ''.''"
proof -
  have "list_all (\<lambda>v. hex_value (hex_digit v) = Some v \<and> hex_digit v \<noteq> CHR ''.'') [0..<16]" by code_simp
  then show "v < 16 \<Longrightarrow> ?thesis" by (simp add: list_all_iff)
qed

lemma nibble_less: "unat (nibble a j) < 16"
proof -
  have "take_bit 4 (unat w) < 2 ^ 4" for w :: "128 word" by (rule take_bit_nat_less_exp)
  then show ?thesis by (simp add: nibble_def unsigned_take_bit_eq)
qed

lemma Split_Join_single: "ls \<noteq> [] \<Longrightarrow> \<forall>l \<in> set ls. length l = 1 \<and> c \<notin> set l \<Longrightarrow> Split (Join ls [c]) c = ls"
proof (induction ls "[c]" rule: Join.induct)
  case (2 w)
  then show ?case by (cases w) auto
next
  case (3 w v ws)
  then show ?case by (cases w) auto
qed simp

lemma bit_nibble_shift:
  "j < 32 \<Longrightarrow> bit (push_bit (124 - 4 * j) (nibble a j)) i \<longleftrightarrow> 124 - 4 * j \<le> i \<and> i < 128 - 4 * j \<and> bit a i"
  by (auto simp: nibble_def bit_simps dest: bit_imp_le_length)

lemma place_ip6:
  "k \<le> 32 \<Longrightarrow> \<exists>w. place_nibbles (ip6_labels a k) b = Some w \<and>
     (\<forall>i. bit w i \<longleftrightarrow> bit b i \<or> (128 - 4 * k \<le> i \<and> bit a i))"
proof (induction k arbitrary: b)
  case 0
  then show ?case by (auto simp: ip6_labels_def dest: bit_imp_le_length)
next
  case (Suc k)
  let ?b = "b OR push_bit (124 - 4 * k) (nibble a k)"
  obtain w where w: "place_nibbles (ip6_labels a k) ?b = Some w"
      "\<And>i. bit w i \<longleftrightarrow> bit ?b i \<or> (128 - 4 * k \<le> i \<and> bit a i)"
    using Suc.IH [of ?b] Suc.prems by auto
  have "place_nibbles (ip6_labels a (Suc k)) b = Some w"
    using w(1) hex_digit_value [OF nibble_less] by (simp add: ip6_labels_def)
  moreover have "bit w i \<longleftrightarrow> bit b i \<or> (128 - 4 * Suc k \<le> i \<and> bit a i)" for i
    using Suc.prems by (auto simp: w(2) bit_or_iff bit_nibble_shift)
  ultimately show ?case by blast
qed

lemma same_top_bits: "same_top n (a::128 word) b \<longleftrightarrow> (\<forall>i. 128 - n \<le> i \<longrightarrow> bit a i = bit b i)"
proof -
  have "same_top n a b \<longleftrightarrow> (\<forall>k. bit (drop_bit (128 - n) a) k = bit (drop_bit (128 - n) b) k)"
    by (auto simp: same_top_def intro: bit_word_eqI)
  then have "same_top n a b \<longleftrightarrow> (\<forall>k. bit a (128 - n + k) = bit b (128 - n + k))"
    by (simp only: bit_drop_bit_eq o_def)
  then show ?thesis by (auto simp only: le_iff_add)
qed

lemma ip6_labels_ok: "l \<in> set (ip6_labels a k) \<Longrightarrow> length l = 1 \<and> CHR ''.'' \<notin> set l"
  using hex_digit_value [OF nibble_less] by (auto simp: ip6_labels_def) metis

lemma ip6Prefix_name:
  assumes "1 \<le> k" "k \<le> 32"
  shows "\<exists>w. ip6Prefix (ip6_name a k) = Some (pfx6 w (4 * int k)) \<and> same_top (4 * k) w a"
proof -
  obtain w where w: "place_nibbles (ip6_labels a k) 0 = Some w" "\<And>i. bit w i \<longleftrightarrow> 128 - 4 * k \<le> i \<and> bit a i"
    using place_ip6 [OF assms(2), of a 0] by auto
  have "ip6_labels a k \<noteq> []" "length (ip6_labels a k) = k" using assms(1) by (auto simp: ip6_labels_def)
  then have "Split (Join (ip6_labels a k) ''.'') (CHR ''.'') = ip6_labels a k"
    using ip6_labels_ok by (intro Split_Join_single) auto
  then have "ip6Prefix (ip6_name a k) = Some (pfx6 w (4 * int k))"
    using w(1) assms(2) \<open>length (ip6_labels a k) = k\<close>
    by (simp add: ip6Prefix_def ip6_name_def Let_def HasSuffix_iff PrefixFrom_def pfx6_def)
  then show ?thesis using w(2) by (auto simp: same_top_bits)
qed

section \<open>Properties\<close>

text \<open>the class of a name is decided by whole labels only: a name is resolved as localhost exactly below
  \<open>localhost.\<close>; otherwise it is never resolved below one of the never-resolved suffixes; otherwise it
  stays on the LAN below a built-in suffix, below a configured local domain, or as a single label of
  a type that is not asked about a zone; and every other name is public.\<close>

theorem classify_exact:
  assumes "label_ok L" "CHR 0x5C \<notin> set name" "HasSuffix name ''.''"
  shows "classify L qtype name localDomains =
    (if under ''localhost.'' name then localhostName
     else if \<exists>s \<in> set neverResolvedSuffixes. under s name then neverResolved
     else if (\<exists>s \<in> set lanOnlySuffixes. under s name) \<or> (\<exists>s \<in> set localDomains. under s name)
        \<or> (name \<noteq> ''.'' \<and> count_list name (CHR ''.'') = 1 \<and> \<not> zoneType qtype) then lanOnlyName
     else publicName)"
  using assms by (auto simp: classify_def suffixClass_def underSuffix_iff list_ex_iff label_ok_def count_label_def Let_def)

theorem classify_exact_witness:
  "classify demo_dns TypeA ''nas.lan.'' [] = lanOnlyName \<and> classify demo_dns TypeA ''plan.'' [] = lanOnlyName
   \<and> classify demo_dns TypeDS ''plan.'' [] = publicName \<and> classify demo_dns TypeA ''x.plan.'' [] = publicName
   \<and> classify demo_dns TypeA ''a.corp.example.'' [''corp.example.''] = lanOnlyName"
proof -
  have "classify demo_dns TypeA ''x.plan.'' [] = publicName"
    by (subst classify_exact [OF demo_label_ok]) code_simp+
  moreover have "classify demo_dns TypeA ''nas.lan.'' [] = lanOnlyName" "classify demo_dns TypeA ''plan.'' [] = lanOnlyName"
    "classify demo_dns TypeDS ''plan.'' [] = publicName" "classify demo_dns TypeA ''a.corp.example.'' [''corp.example.''] = lanOnlyName"
    by code_simp+
  ultimately show ?thesis by simp
qed

text \<open>a reverse lookup counts as private exactly if it is a PTR query whose name, in any case, is a private
  reverse zone or a name below one; the walk over its labels always ends.\<close>

theorem isPrivatePTR_exact:
  assumes "label_ok L" "is_ascii name" "CHR 0x5C \<notin> set name" "name \<noteq> []"
  shows "isPrivatePTR U L qtype name \<longleftrightarrow>
    qtype = TypePTR \<and> (\<exists>z \<in> set reverseZones. under z (map lower_byte name))"
proof -
  have "zone_walk L (Suc (length name)) (map lower_byte name) 0 =
      Some (\<exists>z \<in> set reverseZones. z \<noteq> [] \<and> under z (drop 0 (map lower_byte name)))"
    using assms no_backslash_lower by (intro zone_walk_spec) auto
  moreover have "(\<exists>z \<in> set reverseZones. z \<noteq> [] \<and> under z n) = (\<exists>z \<in> set reverseZones. under z n)" for n
    using reverseZones_ne by metis
  ultimately show ?thesis using assms(2) by (simp add: isPrivatePTR_def ToLower_ascii Let_def del: zone_walk.simps)
qed

text \<open>a reverse name under \<open>ip6.arpa.\<close> is read as the prefix it names: the name of the first \<open>k\<close> nibbles of an
  address gives the prefix of \<open>4 k\<close> bits that holds exactly the addresses with those nibbles.\<close>

theorem ip6Prefix_reads_name:
  assumes "1 \<le> k" "k \<le> 32"
  shows "\<exists>p. ip6Prefix (ip6_name a k) = Some p \<and> p_Bits p = 4 * int k
     \<and> (\<forall>x. PfxContains p (Addr6 x []) \<longleftrightarrow> same_top (4 * k) a x)"
proof -
  obtain w where w: "ip6Prefix (ip6_name a k) = Some (pfx6 w (4 * int k))" "same_top (4 * k) w a"
    using ip6Prefix_name [OF assms] by blast
  then show ?thesis by (auto simp: pfx6_def PfxContains_def nat_mult_distrib same_top_def)
qed

end
