(* ===== verification/Failure_Log.thy ===== *)
theory Failure_Log
  imports Redact_Url "HOL-Library.AList"
begin

text \<open>
  The summaries of unresolved queries and of failed replies, \<open>src/internal/dnsserver/failures.go\<close>, and
  the error types they read (\<open>ForwardError\<close>, \<open>UpstreamCause\<close> of \<open>upstream.go\<close>). The maps are association lists
  with unique keys; \<open>flush\<close> sorts, so the order of the list does not show. A flush returns the
  fields of the line it logs, \<open>None\<close> when it logs nothing. The reporting loop is a function from the
  values of the fallback counter at its ticks to the lines.
\<close>

section \<open>Model\<close>

text \<open>An upstream's error: its text, and whether an expired or not yet valid certificate is in its
  chain (what \<open>clockSuspect\<close> finds through \<open>errors.As\<close>).\<close>

record up_error =
  ue_text :: string
  ue_expired :: bool

definition clockSuspect :: "up_error \<Rightarrow> bool" where
  "clockSuspect e = ue_expired e"

text \<open>What \<open>forward\<close> or the forward limit returns as error: the context's error, the causes of each
  upstream, or \<open>errForwardLimit\<close>.\<close>

datatype forward_error = CtxError string | ForwardError "(string \<times> up_error) list" | ErrForwardLimit

definition ForwardError_Error :: "(string \<times> up_error) list \<Rightarrow> string" where
  "ForwardError_Error causes =
     (if causes = [] then ''no upstream answered''
      else ''every upstream failed: '' @ Join (map (\<lambda>c. fst c @ '': '' @ ue_text (snd c)) causes) ''; '')"

definition forward_error_text :: "forward_error \<Rightarrow> string" where
  "forward_error_text e = (case e of
       CtxError t \<Rightarrow> t
     | ForwardError cs \<Rightarrow> ForwardError_Error cs
     | ErrForwardLimit \<Rightarrow> ''too many queries were waiting for an upstream'')"

record failureLog =
  fl_count :: nat
  fl_causes :: "(string \<times> string) list"
  fl_clock :: bool
  fl_limited :: bool

definition newFailureLog :: failureLog where
  "newFailureLog = \<lparr>fl_count = 0, fl_causes = [], fl_clock = False, fl_limited = False\<rparr>"

definition record_cause :: "urllib \<Rightarrow> string \<times> up_error \<Rightarrow> failureLog \<Rightarrow> failureLog" where
  "record_cause K c f = f\<lparr>fl_causes := AList.update (redact_URL K (fst c)) (ue_text (snd c)) (fl_causes f),
     fl_clock := (fl_clock f \<or> clockSuspect (snd c))\<rparr>"

definition failureLog_record :: "urllib \<Rightarrow> forward_error \<Rightarrow> failureLog \<Rightarrow> failureLog" where
  "failureLog_record K e f0 =
     (let f = f0\<lparr>fl_count := fl_count f0 + 1\<rparr> in
      case e of
        ForwardError causes \<Rightarrow> fold (record_cause K) causes f
      | ErrForwardLimit \<Rightarrow> f\<lparr>fl_limited := True, fl_causes := AList.update ''forward limit'' (forward_error_text e) (fl_causes f)\<rparr>
      | CtxError t \<Rightarrow> f\<lparr>fl_causes := AList.update ''query'' t (fl_causes f)\<rparr>)"

datatype hint = HintUpstreams | HintClock | HintLimitOnly | HintLimitSome

record failure_line =
  ln_queries :: nat
  ln_causes :: string
  ln_hint :: hint

definition failureLog_flush :: "failureLog \<Rightarrow> failure_line option \<times> failureLog" where
  "failureLog_flush f =
     (if fl_count f = 0 then (None, newFailureLog)
      else
        let ups = sort (map fst (fl_causes f));
            parts = map (\<lambda>u. u @ '': '' @ (case map_of (fl_causes f) u of Some t \<Rightarrow> t | None \<Rightarrow> [])) ups;
            hint = (if fl_clock f then HintClock
                    else if fl_limited f \<and> length (fl_causes f) = 1 then HintLimitOnly
                    else if fl_limited f then HintLimitSome else HintUpstreams)
        in (Some \<lparr>ln_queries = fl_count f, ln_causes = Join parts ''; '', ln_hint = hint\<rparr>, newFailureLog))"

definition maxReplyErrors :: nat where "maxReplyErrors = 8"

record replyLog =
  rl_count :: nat
  rl_errs :: "string list"

definition newReplyLog :: replyLog where
  "newReplyLog = \<lparr>rl_count = 0, rl_errs = []\<rparr>"

definition replyLog_record :: "net_error \<Rightarrow> replyLog \<Rightarrow> replyLog" where
  "replyLog_record err r =
     (let text = NetError err; r1 = r\<lparr>rl_count := rl_count r + 1\<rparr> in
      if length (rl_errs r1) < maxReplyErrors then r1\<lparr>rl_errs := List.insert text (rl_errs r1)\<rparr> else r1)"

definition replyLog_flush :: "replyLog \<Rightarrow> (nat \<times> string) option \<times> replyLog" where
  "replyLog_flush r =
     (if rl_count r = 0 then (None, newReplyLog)
      else (Some (rl_count r, Join (sort (rl_errs r)) ''; ''), newReplyLog))"

text \<open>One report of \<open>RunFailureReport\<close>: the two lines, the number of queries sent unencrypted since
  the last report if any, and the new value of \<open>last\<close>.\<close>

definition failure_report :: "nat \<Rightarrow> nat \<Rightarrow> failureLog \<Rightarrow> replyLog \<Rightarrow>
    (failure_line option \<times> (nat \<times> string) option \<times> nat option) \<times> nat \<times> failureLog \<times> replyLog" where
  "failure_report now prev f r =
     (case failureLog_flush f of (l1, f') \<Rightarrow>
      case replyLog_flush r of (l2, r') \<Rightarrow>
        ((l1, l2, if 0 < now - prev then Some (now - prev) else None), now, f', r'))"

text \<open>\<open>RunFailureReport\<close>: a report per tick and a last one when the context ends. Between two reports the
  handlers record errors; the counter's value at each report is part of the tick.\<close>

record report_tick =
  rt_failed :: "forward_error list"
  rt_replies :: "net_error list"
  rt_fallbacks :: nat

fun RunFailureReport :: "urllib \<Rightarrow> nat \<Rightarrow> failureLog \<Rightarrow> replyLog \<Rightarrow> report_tick list
    \<Rightarrow> (failure_line option \<times> (nat \<times> string) option \<times> nat option) list" where
  "RunFailureReport K prev f r [] = []"
| "RunFailureReport K prev f r (t # ts) =
     (case failure_report (rt_fallbacks t) prev (fold (failureLog_record K) (rt_failed t) f)
             (fold replyLog_record (rt_replies t) r) of
        (lines, prev', f', r') \<Rightarrow> lines # RunFailureReport K prev' f' r' ts)"

section \<open>Lemmas\<close>

definition flog_ok :: "failureLog \<Rightarrow> bool" where
  "flog_ok f = distinct (map fst (fl_causes f))"

lemma record_cause_count [simp]: "fl_count (record_cause K c f) = fl_count f" "fl_limited (record_cause K c f) = fl_limited f"
  by (simp_all add: record_cause_def)

lemma fold_cause_count [simp]: "fl_count (fold (record_cause K) cs f) = fl_count f"
  by (induction cs arbitrary: f) auto

lemma record_count [simp]: "fl_count (failureLog_record K e f) = fl_count f + 1"
  by (cases e) (auto simp: failureLog_record_def Let_def)

lemma fold_record_count [simp]: "fl_count (fold (failureLog_record K) es f) = fl_count f + length es"
  by (induction es arbitrary: f) auto

lemma reply_count [simp]: "rl_count (replyLog_record e r) = rl_count r + 1"
  by (simp add: replyLog_record_def Let_def)

lemma fold_reply_count [simp]: "rl_count (fold replyLog_record es r) = rl_count r + length es"
  by (induction es arbitrary: r) auto

lemma reply_bounded: "length (rl_errs r) \<le> maxReplyErrors \<Longrightarrow> length (rl_errs (replyLog_record e r)) \<le> maxReplyErrors"
  by (simp add: replyLog_record_def Let_def List.insert_def)

lemma fold_reply_bounded:
  "length (rl_errs r) \<le> maxReplyErrors \<Longrightarrow> length (rl_errs (fold replyLog_record es r)) \<le> maxReplyErrors"
  by (induction es arbitrary: r) (auto simp: reply_bounded)

text \<open>The keys of the causes: redacted upstreams and the two fixed words.\<close>

definition shown_keys :: "urllib \<Rightarrow> forward_error \<Rightarrow> string set" where
  "shown_keys K e = (case e of
       ForwardError cs \<Rightarrow> (\<lambda>c. redact_URL K (fst c)) ` set cs
     | ErrForwardLimit \<Rightarrow> {''forward limit''}
     | CtxError t \<Rightarrow> {''query''})"

lemma fold_cause_keys:
  "fst ` set (fl_causes (fold (record_cause K) cs f)) = fst ` set (fl_causes f) \<union> (\<lambda>c. redact_URL K (fst c)) ` set cs"
  by (induction cs arbitrary: f) (auto simp: record_cause_def dom_update)

lemma record_keys:
  "fst ` set (fl_causes (failureLog_record K e f)) = fst ` set (fl_causes f) \<union> shown_keys K e"
  by (cases e) (auto simp: failureLog_record_def Let_def fold_cause_keys shown_keys_def dom_update)

lemma fold_record_keys:
  "fst ` set (fl_causes (fold (failureLog_record K) es f)) = fst ` set (fl_causes f) \<union> (\<Union>e \<in> set es. shown_keys K e)"
  by (induction es arbitrary: f) (auto simp: record_keys)

lemma record_cause_ok: "flog_ok f \<Longrightarrow> flog_ok (record_cause K c f)"
  by (simp add: flog_ok_def record_cause_def distinct_update)

lemma fold_cause_ok: "flog_ok f \<Longrightarrow> flog_ok (fold (record_cause K) cs f)"
  by (induction cs arbitrary: f) (auto simp: record_cause_ok)

lemma record_ok [inv_intros]: "flog_ok f \<Longrightarrow> flog_ok (failureLog_record K e f)"
  by (cases e) (auto simp: failureLog_record_def Let_def flog_ok_def distinct_update intro!: fold_cause_ok [unfolded flog_ok_def])

lemma fold_record_ok: "flog_ok f \<Longrightarrow> flog_ok (fold (failureLog_record K) es f)"
  by (induction es arbitrary: f) (auto intro: inv_intros)

lemma flush_new: "snd (failureLog_flush f) = newFailureLog" "snd (replyLog_flush r) = newReplyLog"
  by (simp_all add: failureLog_flush_def replyLog_flush_def Let_def)

lemma flush_count: "(case fst (failureLog_flush f) of None \<Rightarrow> 0 | Some l \<Rightarrow> ln_queries l) = fl_count f"
  by (simp add: failureLog_flush_def Let_def)

lemma reply_flush_count: "(case fst (replyLog_flush r) of None \<Rightarrow> 0 | Some l \<Rightarrow> fst l) = rl_count r"
  by (simp add: replyLog_flush_def)

definition line_queries :: "failure_line option \<times> (nat \<times> string) option \<times> nat option \<Rightarrow> nat" where
  "line_queries l = (case fst l of None \<Rightarrow> 0 | Some q \<Rightarrow> ln_queries q)"

definition line_replies :: "failure_line option \<times> (nat \<times> string) option \<times> nat option \<Rightarrow> nat" where
  "line_replies l = (case fst (snd l) of None \<Rightarrow> 0 | Some q \<Rightarrow> fst q)"

definition line_fallbacks :: "failure_line option \<times> (nat \<times> string) option \<times> nat option \<Rightarrow> nat" where
  "line_fallbacks l = (case snd (snd l) of None \<Rightarrow> 0 | Some n \<Rightarrow> n)"

lemma report_unfold:
  "fst (snd (failure_report now prev f r)) = now"
  "snd (snd (failure_report now prev f r)) = (newFailureLog, newReplyLog)"
  "line_queries (fst (failure_report now prev f r)) = fl_count f"
  "line_replies (fst (failure_report now prev f r)) = rl_count r"
  "line_fallbacks (fst (failure_report now prev f r)) = now - prev"
  using flush_new(1) [of f] flush_new(2) [of r] flush_count [of f] reply_flush_count [of r]
  by (auto simp: failure_report_def line_queries_def line_replies_def line_fallbacks_def split: prod.splits)

lemma RunFailureReport_Cons:
  "RunFailureReport K prev f r (t # ts) =
     fst (failure_report (rt_fallbacks t) prev (fold (failureLog_record K) (rt_failed t) f) (fold replyLog_record (rt_replies t) r))
     # RunFailureReport K (rt_fallbacks t) newFailureLog newReplyLog ts"
  using report_unfold(1,2) [of "rt_fallbacks t" prev "fold (failureLog_record K) (rt_failed t) f" "fold replyLog_record (rt_replies t) r"]
  by (auto split: prod.splits)

section \<open>Properties\<close>

text \<open>no unresolved query, failed reply or unencrypted query is lost from the reports or counted twice: the
  line of each report counts exactly the errors recorded since the last one, and the counts of
  unencrypted queries add up to the growth of the counter; and the keys of the causes are
  redacted upstreams or one of two fixed words.\<close>

theorem failure_report_counts:
  assumes "sorted (n0 # map rt_fallbacks ts)"
  shows "map line_queries (RunFailureReport K n0 newFailureLog newReplyLog ts) = map (length \<circ> rt_failed) ts
   \<and> map line_replies (RunFailureReport K n0 newFailureLog newReplyLog ts) = map (length \<circ> rt_replies) ts
   \<and> n0 + sum_list (map line_fallbacks (RunFailureReport K n0 newFailureLog newReplyLog ts)) = last (n0 # map rt_fallbacks ts)
   \<and> fst ` set (fl_causes (fold (failureLog_record K) es newFailureLog)) = (\<Union>e \<in> set es. shown_keys K e)"
proof -
  have "map line_queries (RunFailureReport K n0 newFailureLog newReplyLog ts) = map (length \<circ> rt_failed) ts
   \<and> map line_replies (RunFailureReport K n0 newFailureLog newReplyLog ts) = map (length \<circ> rt_replies) ts
   \<and> n0 + sum_list (map line_fallbacks (RunFailureReport K n0 newFailureLog newReplyLog ts)) = last (n0 # map rt_fallbacks ts)"
    using assms
  proof (induction ts arbitrary: n0)
    case (Cons t ts)
    then have "sorted (rt_fallbacks t # map rt_fallbacks ts)" "n0 \<le> rt_fallbacks t" by auto
    with Cons.IH [of "rt_fallbacks t"] show ?case
      unfolding RunFailureReport_Cons by (simp add: report_unfold newFailureLog_def newReplyLog_def)
  qed simp
  then show ?thesis by (simp add: fold_record_keys newFailureLog_def)
qed

theorem failure_report_counts_witness:
  "map line_queries (RunFailureReport no_url 3 newFailureLog newReplyLog
     [\<lparr>rt_failed = [ErrForwardLimit, CtxError ''canceled''], rt_replies = [], rt_fallbacks = 3\<rparr>,
      \<lparr>rt_failed = [], rt_replies = [], rt_fallbacks = 5\<rparr>]) = [2, 0]"
  using failure_report_counts [of 3 "[\<lparr>rt_failed = [ErrForwardLimit, CtxError ''canceled''], rt_replies = [], rt_fallbacks = 3\<rparr>,
      \<lparr>rt_failed = [], rt_replies = [], rt_fallbacks = 5\<rparr>]" no_url "[]"] by simp

end
