(* ===== verification/Edns_Msg.thy ===== *)
theory Edns_Msg
  imports Lan_Acl Failure_Log
begin

text \<open>
  What s-hole puts into the messages it sends, \<open>src/internal/dnsserver/edns.go\<close>: the fresh query for an
  upstream, the OPT record of a reply, truncation and padding. A \<open>ResponseWriter\<close> is the record
  \<open>writer\<close>: the remote address, whether the connection is over TLS, and the error of the write, if
  any. \<open>send\<close> returns the message it writes and the log of failed replies.
\<close>

section \<open>Model\<close>

definition upstreamUDPSize :: u16 where "upstreamUDPSize = 1232"
definition queryPadBlock :: nat where "queryPadBlock = 128"
definition replyPadBlock :: nat where "replyPadBlock = 468"

definition upstreamQuery :: "dnslib \<Rightarrow> u16 \<Rightarrow> msg \<Rightarrow> msg" where
  "upstreamQuery L qid req =
     (let m = zero_msg\<lparr>m_Id := qid, m_Opcode := OpcodeQuery, m_RecursionDesired := m_RecursionDesired req,
                m_CheckingDisabled := m_CheckingDisabled req, m_AuthenticatedData := m_AuthenticatedData req,
                m_Question := [m_Question req ! 0]\<rparr>;
          do = (case IsEdns0 L req of None \<Rightarrow> False | Some opt \<Rightarrow> opt_Do L opt)
      in SetEdns0 L m upstreamUDPSize do)"

definition stripOPT :: "msg \<Rightarrow> msg" where
  "stripOPT resp = resp\<lparr>m_Extra := filter (\<lambda>rr. h_Rrtype rr \<noteq> TypeOPT) (m_Extra resp)\<rparr>"

record writer =
  w_remote :: remote
  w_tls :: bool
  w_err :: "net_error option"

definition fitUDP :: "dnslib \<Rightarrow> writer \<Rightarrow> msg \<Rightarrow> msg \<Rightarrow> msg" where
  "fitUDP L w req resp =
     (case w_remote w of
        RemoteUDP _ \<Rightarrow>
          let sz = (case IsEdns0 L req of
                      Some opt \<Rightarrow> if MinMsgSize < unat (opt_UDPSize L opt) then unat (opt_UDPSize L opt) else MinMsgSize
                    | None \<Rightarrow> MinMsgSize)
          in TruncateTo L resp sz
      | _ \<Rightarrow> resp)"

definition overTLS :: "writer \<Rightarrow> bool" where
  "overTLS w = w_tls w"

fun option_code :: "edns_option \<Rightarrow> u16" where
  "option_code (EDNS0_PADDING n) = 12"
| "option_code (OtherOption c s) = c"

definition wantsPadding :: "rr \<Rightarrow> bool" where
  "wantsPadding opt = list_ex (\<lambda>o'. option_code o' = 12) (options_of (rr_data opt))"

text \<open>The message with a padding option of \<open>k\<close> bytes appended to the OPT record at \<open>i\<close>.\<close>

definition with_padding :: "msg \<Rightarrow> nat \<Rightarrow> nat \<Rightarrow> msg" where
  "with_padding m i k = m\<lparr>m_Extra := (m_Extra m)[i := (m_Extra m ! i)\<lparr>rr_data :=
     ROPT (options_of (rr_data (m_Extra m ! i)) @ [EDNS0_PADDING k])\<rparr>]\<rparr>"

definition pad :: "dnslib \<Rightarrow> msg \<Rightarrow> nat \<Rightarrow> msg" where
  "pad L m block =
     (case IsEdns0_at L m of
        None \<Rightarrow> m
      | Some i \<Rightarrow>
          let n = MsgLen L (with_padding m i 0); r = n mod block in
          if r \<noteq> 0 \<and> n + block - r \<le> MaxMsgSize then with_padding m i (block - r) else with_padding m i 0)"

definition packDoH :: "dnslib \<Rightarrow> msg \<Rightarrow> string option" where
  "packDoH L q = Pack L (pad L (q\<lparr>m_Id := 0\<rparr>) queryPadBlock)"

text \<open>The reply as \<open>send\<close> writes it.\<close>

definition finish_reply :: "dnslib \<Rightarrow> writer \<Rightarrow> msg \<Rightarrow> msg \<Rightarrow> msg" where
  "finish_reply L w req resp0 =
     (let resp1 = resp0\<lparr>m_Id := m_Id req\<rparr>;
          opt = IsEdns0 L req;
          resp2 = (case opt of
              Some o' \<Rightarrow> if IsEdns0 L resp1 = None then SetEdns0 L resp1 (opt_UDPSize L o') (opt_Do L o') else resp1
            | None \<Rightarrow> if 0xF < m_Rcode resp1 then resp1\<lparr>m_Rcode := RcodeServerFailure\<rparr> else resp1);
          resp3 = fitUDP L w req resp2
      in case opt of
           Some o' \<Rightarrow> if overTLS w \<and> wantsPadding o' then pad L resp3 replyPadBlock else resp3
         | None \<Rightarrow> resp3)"

definition send :: "dnslib \<Rightarrow> writer \<Rightarrow> msg \<Rightarrow> msg \<Rightarrow> replyLog \<Rightarrow> msg \<times> replyLog" where
  "send L w req resp replies =
     (finish_reply L w req resp, case w_err w of None \<Rightarrow> replies | Some e \<Rightarrow> replyLog_record e replies)"

section \<open>Lemmas\<close>

lemma stripOPT_idem [simp]: "stripOPT (stripOPT m) = stripOPT m"
  by (simp add: stripOPT_def)

lemma stripOPT_no_opt: "list_all (\<lambda>r. \<not> is_opt r) (m_Extra (stripOPT m))"
  by (auto simp: stripOPT_def is_opt_def list_all_iff)

lemma stripOPT_fields [simp]:
  "m_Id (stripOPT m) = m_Id m" "m_Rcode (stripOPT m) = m_Rcode m" "m_Answer (stripOPT m) = m_Answer m"
  "m_Question (stripOPT m) = m_Question m" "m_Truncated (stripOPT m) = m_Truncated m" "m_Ns (stripOPT m) = m_Ns m"
  "m_Response (stripOPT m) = m_Response m" "m_Opcode (stripOPT m) = m_Opcode m"
  by (simp_all add: stripOPT_def)

lemma SetEdns0_fields:
  assumes "edns_ok L"
  shows "m_Id (SetEdns0 L m sz b) = m_Id m" "m_Answer (SetEdns0 L m sz b) = m_Answer m"
    "m_Rcode (SetEdns0 L m sz b) = m_Rcode m" "m_Question (SetEdns0 L m sz b) = m_Question m"
proof -
  obtain r where "SetEdns0 L m sz b = m\<lparr>m_Extra := m_Extra m @ [r]\<rparr>" using SetEdns0_obtain [OF assms] by blast
  then show "m_Id (SetEdns0 L m sz b) = m_Id m" "m_Answer (SetEdns0 L m sz b) = m_Answer m"
    "m_Rcode (SetEdns0 L m sz b) = m_Rcode m" "m_Question (SetEdns0 L m sz b) = m_Question m" by simp_all
qed

text \<open>The fresh query in closed form.\<close>

lemma upstreamQuery_form:
  assumes "edns_ok L"
  obtains r where "upstreamQuery L qid req = zero_msg\<lparr>m_Id := qid, m_RecursionDesired := m_RecursionDesired req,
      m_CheckingDisabled := m_CheckingDisabled req, m_AuthenticatedData := m_AuthenticatedData req,
      m_Question := [m_Question req ! 0], m_Extra := [r]\<rparr>"
    "is_opt r" "rr_data r = ROPT []" "opt_Do L r = do_bit L req" "opt_UDPSize L r = upstreamUDPSize"
proof -
  let ?m = "zero_msg\<lparr>m_Id := qid, m_Opcode := OpcodeQuery, m_RecursionDesired := m_RecursionDesired req,
      m_CheckingDisabled := m_CheckingDisabled req, m_AuthenticatedData := m_AuthenticatedData req,
      m_Question := [m_Question req ! 0]\<rparr>"
  obtain r where r: "SetEdns0 L ?m upstreamUDPSize (do_bit L req) = ?m\<lparr>m_Extra := m_Extra ?m @ [r]\<rparr>"
    "is_opt r" "rr_data r = ROPT []" "opt_Do L r = do_bit L req" "opt_UDPSize L r = upstreamUDPSize"
    using SetEdns0_obtain [OF assms] by blast
  show thesis
    by (rule that [OF _ r(2-5)]) (use r(1) in \<open>simp add: upstreamQuery_def do_bit_def zero_msg_def OpcodeQuery_def\<close>)
qed

text \<open>Padding keeps everything but the options of one record.\<close>

lemma pad_fields [simp]:
  "m_Id (pad L m b) = m_Id m" "m_Rcode (pad L m b) = m_Rcode m" "m_Question (pad L m b) = m_Question m"
  "m_Answer (pad L m b) = m_Answer m" "m_Truncated (pad L m b) = m_Truncated m"
  by (simp_all add: pad_def with_padding_def Let_def split: option.splits)

lemma with_padding_len:
  assumes "size_ok L" "i < length (m_Extra m)" "is_opt (m_Extra m ! i)"
  shows "MsgLen L (with_padding m i k) = MsgLen L (with_padding m i 0) + k"
  using assms unfolding size_ok_def with_padding_def by blast

lemma with_padding_opts: "i < length (m_Extra m) \<Longrightarrow> map is_opt (m_Extra (with_padding m i k)) = map is_opt (m_Extra m)"
  by (simp add: with_padding_def map_update is_opt_def list_eq_iff_nth_eq nth_list_update)

lemma pad_opts: "edns_ok L \<Longrightarrow> map is_opt (m_Extra (pad L m b)) = map is_opt (m_Extra m)"
  using edns_at [of L m] by (auto simp: pad_def Let_def with_padding_opts split: option.splits)

lemma filter_update_one:
  assumes "filter P xs = [r]" "i < length xs" "P (xs ! i)" "P y"
  shows "xs ! i = r \<and> filter P (xs[i := y]) = [y]"
proof -
  have "filter P (take i xs) @ xs ! i # filter P (drop (Suc i) xs) = [r]"
    using assms(1,3) id_take_nth_drop [OF assms(2)] by (metis filter.simps(2) filter_append)
  then have "filter P (take i xs) = []" "filter P (drop (Suc i) xs) = []" "xs ! i = r" by (auto simp: append_eq_Cons_conv)
  then show ?thesis using assms(2,4) by (simp add: upd_conv_take_nth_drop)
qed

text \<open>The one OPT record of a message after padding.\<close>

lemma pad_one_opt:
  assumes "edns_ok L" "filter is_opt (m_Extra m) = [r]" "rr_data r = ROPT []"
  shows "\<exists>n r'. filter is_opt (m_Extra (pad L m b)) = [r'] \<and> opt_Do L r' = opt_Do L r \<and> opt_UDPSize L r' = opt_UDPSize L r
     \<and> rr_data r' = ROPT [EDNS0_PADDING n]"
proof -
  have "\<not> list_all (\<lambda>r. \<not> is_opt r) (m_Extra m)" using assms(2) by (metis Ball_set filter_False not_Cons_self2)
  then obtain i where i: "IsEdns0_at L m = Some i" "i < length (m_Extra m)" "is_opt (m_Extra m ! i)"
    using edns_at [OF assms(1), of m] by (cases "IsEdns0_at L m") auto
  have same: "opt_Do L (r\<lparr>rr_data := d\<rparr>) = opt_Do L r \<and> opt_UDPSize L (r\<lparr>rr_data := d\<rparr>) = opt_UDPSize L r" for d
    using assms(1) unfolding edns_ok_def by blast
  have mi: "m_Extra m ! i = r" using filter_update_one [OF assms(2) i(2,3,3)] by blast
  have "is_opt (r\<lparr>rr_data := ROPT [EDNS0_PADDING k]\<rparr>)" for k using i(3) mi by (simp add: is_opt_def)
  then have "filter is_opt (m_Extra (with_padding m i k)) = [r\<lparr>rr_data := ROPT [EDNS0_PADDING k]\<rparr>]" for k
    using filter_update_one [OF assms(2) i(2,3)] assms(3) by (simp add: with_padding_def mi)
  then show ?thesis using i(1) same by (auto simp: pad_def Let_def)
qed

lemma truncate_facts:
  assumes "size_ok L" "512 \<le> n"
  shows "m_Id (TruncateTo L m n) = m_Id m" "m_Rcode (TruncateTo L m n) = m_Rcode m"
    "prefix (m_Answer (TruncateTo L m n)) (m_Answer m)"
    "m_Answer (TruncateTo L m n) \<noteq> m_Answer m \<Longrightarrow> m_Truncated (TruncateTo L m n)"
    "length (filter is_opt (m_Extra m)) \<le> 1 \<Longrightarrow> filter is_opt (m_Extra (TruncateTo L m n)) = filter is_opt (m_Extra m)"
    "MsgLen L m \<le> n \<Longrightarrow> m_Answer (TruncateTo L m n) = m_Answer m" "m_Question (TruncateTo L m n) = m_Question m"
  using assms unfolding size_ok_def by blast+

lemma fitUDP_facts:
  assumes "size_ok L"
  shows "m_Id (fitUDP L w req m) = m_Id m" "m_Rcode (fitUDP L w req m) = m_Rcode m"
    "prefix (m_Answer (fitUDP L w req m)) (m_Answer m)"
    "m_Answer (fitUDP L w req m) \<noteq> m_Answer m \<Longrightarrow> m_Truncated (fitUDP L w req m)"
    "length (filter is_opt (m_Extra m)) \<le> 1 \<Longrightarrow> filter is_opt (m_Extra (fitUDP L w req m)) = filter is_opt (m_Extra m)"
    "m_Question (fitUDP L w req m) = m_Question m"
  using truncate_facts [OF assms]
  by (auto simp: fitUDP_def Let_def MinMsgSize_def split: remote.splits option.splits)

text \<open>What every reply keeps of the message it was built from.\<close>

lemma finish_reply_keeps:
  assumes "edns_ok L" "size_ok L"
  shows "m_Question (finish_reply L w req m) = m_Question m" "prefix (m_Answer (finish_reply L w req m)) (m_Answer m)"
    "m_Id (finish_reply L w req m) = m_Id req"
    "m_Rcode (finish_reply L w req m) = m_Rcode m \<or> (15 < m_Rcode m \<and> m_Rcode (finish_reply L w req m) = RcodeServerFailure)"
proof -
  obtain m1 where m1: "m_Question m1 = m_Question m" "m_Answer m1 = m_Answer m" "m_Id m1 = m_Id req"
      "m_Rcode m1 = m_Rcode m \<or> (15 < m_Rcode m \<and> m_Rcode m1 = RcodeServerFailure)"
      "finish_reply L w req m = fitUDP L w req m1 \<or> finish_reply L w req m = pad L (fitUDP L w req m1) replyPadBlock"
  proof (rule that)
    let ?m = "case IsEdns0 L req of
        Some q \<Rightarrow> if IsEdns0 L (m\<lparr>m_Id := m_Id req\<rparr>) = None then SetEdns0 L (m\<lparr>m_Id := m_Id req\<rparr>) (opt_UDPSize L q) (opt_Do L q) else m\<lparr>m_Id := m_Id req\<rparr>
      | None \<Rightarrow> if 0xF < m_Rcode m then m\<lparr>m_Id := m_Id req, m_Rcode := RcodeServerFailure\<rparr> else m\<lparr>m_Id := m_Id req\<rparr>"
    show "m_Question ?m = m_Question m" "m_Answer ?m = m_Answer m" "m_Id ?m = m_Id req"
      "m_Rcode ?m = m_Rcode m \<or> (15 < m_Rcode m \<and> m_Rcode ?m = RcodeServerFailure)"
      by (auto simp: SetEdns0_fields [OF assms(1)] split: option.splits)
    show "finish_reply L w req m = fitUDP L w req ?m \<or> finish_reply L w req m = pad L (fitUDP L w req ?m) replyPadBlock"
      by (simp add: finish_reply_def Let_def split: option.splits)
  qed
  from m1(5) show "m_Question (finish_reply L w req m) = m_Question m" "prefix (m_Answer (finish_reply L w req m)) (m_Answer m)"
    "m_Id (finish_reply L w req m) = m_Id req"
    "m_Rcode (finish_reply L w req m) = m_Rcode m \<or> (15 < m_Rcode m \<and> m_Rcode (finish_reply L w req m) = RcodeServerFailure)"
    using m1(1-4) fitUDP_facts [OF assms(2), where w = w and req = req and m = m1] by auto
qed

text \<open>The reply before it is cut and padded.\<close>

definition opt_reply :: "dnslib \<Rightarrow> msg \<Rightarrow> msg \<Rightarrow> msg" where
  "opt_reply L req resp =
     (case IsEdns0 L req of
        Some o' \<Rightarrow> SetEdns0 L (resp\<lparr>m_Id := m_Id req\<rparr>) (opt_UDPSize L o') (opt_Do L o')
      | None \<Rightarrow> if 0xF < m_Rcode resp then resp\<lparr>m_Id := m_Id req, m_Rcode := RcodeServerFailure\<rparr> else resp\<lparr>m_Id := m_Id req\<rparr>)"

lemma finish_reply_form:
  assumes "edns_ok L" "list_all (\<lambda>r. \<not> is_opt r) (m_Extra resp)"
  shows "finish_reply L w req resp =
     (let m = fitUDP L w req (opt_reply L req resp) in
      case IsEdns0 L req of Some o' \<Rightarrow> if overTLS w \<and> wantsPadding o' then pad L m replyPadBlock else m | None \<Rightarrow> m)"
proof -
  have "IsEdns0 L (resp\<lparr>m_Id := m_Id req\<rparr>) = None" using assms by (simp add: IsEdns0_None)
  then show ?thesis by (simp add: finish_reply_def opt_reply_def Let_def split: option.splits)
qed

lemma opt_reply_facts:
  assumes "edns_ok L" "list_all (\<lambda>r. \<not> is_opt r) (m_Extra resp)"
  shows "m_Id (opt_reply L req resp) = m_Id req" "m_Answer (opt_reply L req resp) = m_Answer resp"
    "IsEdns0 L req = None \<Longrightarrow> filter is_opt (m_Extra (opt_reply L req resp)) = []"
    "IsEdns0 L req = None \<Longrightarrow> m_Rcode (opt_reply L req resp) \<le> 15"
    "IsEdns0 L req = Some q \<Longrightarrow> m_Rcode (opt_reply L req resp) = m_Rcode resp"
    "IsEdns0 L req = Some q \<Longrightarrow> \<exists>r. filter is_opt (m_Extra (opt_reply L req resp)) = [r] \<and> rr_data r = ROPT []
       \<and> opt_Do L r = opt_Do L q \<and> opt_UDPSize L r = opt_UDPSize L q"
proof -
  have no: "filter is_opt (m_Extra resp) = []" using assms(2) by (auto simp: filter_empty_conv list_all_iff)
  obtain r where r: "SetEdns0 L (resp\<lparr>m_Id := m_Id req\<rparr>) (opt_UDPSize L q) (opt_Do L q)
      = (resp\<lparr>m_Id := m_Id req\<rparr>)\<lparr>m_Extra := m_Extra (resp\<lparr>m_Id := m_Id req\<rparr>) @ [r]\<rparr>"
      "is_opt r" "rr_data r = ROPT []" "opt_Do L r = opt_Do L q" "opt_UDPSize L r = opt_UDPSize L q"
    using SetEdns0_obtain [OF assms(1)] by blast
  show "m_Id (opt_reply L req resp) = m_Id req" "m_Answer (opt_reply L req resp) = m_Answer resp"
    by (auto simp: opt_reply_def SetEdns0_fields [OF assms(1)] split: option.splits)
  show "IsEdns0 L req = None \<Longrightarrow> filter is_opt (m_Extra (opt_reply L req resp)) = []"
    "IsEdns0 L req = None \<Longrightarrow> m_Rcode (opt_reply L req resp) \<le> 15"
    using no by (simp_all add: opt_reply_def RcodeServerFailure_def)
  show "IsEdns0 L req = Some q \<Longrightarrow> m_Rcode (opt_reply L req resp) = m_Rcode resp"
    "IsEdns0 L req = Some q \<Longrightarrow> \<exists>r. filter is_opt (m_Extra (opt_reply L req resp)) = [r] \<and> rr_data r = ROPT []
       \<and> opt_Do L r = opt_Do L q \<and> opt_UDPSize L r = opt_UDPSize L q"
    using r no by (simp_all add: opt_reply_def)
qed

section \<open>Properties\<close>

text \<open>C38: nothing of the client's message but the question and four bits reaches an upstream: two requests that
  agree on the question and on RD, CD, AD and DO give the same query for the same fresh ID,
  whatever their own IDs, options and records; and that query has no records but one OPT record
  without options.\<close>

theorem upstream_query_private:
  assumes "edns_ok L" "m_Question a ! 0 = m_Question b ! 0" "m_RecursionDesired a = m_RecursionDesired b"
    "m_CheckingDisabled a = m_CheckingDisabled b" "m_AuthenticatedData a = m_AuthenticatedData b" "do_bit L a = do_bit L b"
  shows "upstreamQuery L qid a = upstreamQuery L qid b
    \<and> m_Question (upstreamQuery L qid a) = [m_Question a ! 0] \<and> m_Answer (upstreamQuery L qid a) = [] \<and> m_Ns (upstreamQuery L qid a) = []
    \<and> (\<exists>r. m_Extra (upstreamQuery L qid a) = [r] \<and> is_opt r \<and> options_of (rr_data r) = [])"
proof -
  obtain r where "upstreamQuery L qid a = zero_msg\<lparr>m_Id := qid, m_RecursionDesired := m_RecursionDesired a,
      m_CheckingDisabled := m_CheckingDisabled a, m_AuthenticatedData := m_AuthenticatedData a,
      m_Question := [m_Question a ! 0], m_Extra := [r]\<rparr>" "is_opt r" "rr_data r = ROPT []"
    using upstreamQuery_form [OF assms(1), of qid a] by metis
  then have "m_Question (upstreamQuery L qid a) = [m_Question a ! 0]" "m_Answer (upstreamQuery L qid a) = []"
    "m_Ns (upstreamQuery L qid a) = []" "m_Extra (upstreamQuery L qid a) = [r]" "options_of (rr_data r) = []"
    by (simp_all add: zero_msg_def)
  moreover have "upstreamQuery L qid a = upstreamQuery L qid b"
    using assms(2-6) by (simp add: upstreamQuery_def do_bit_def)
  ultimately show ?thesis using \<open>is_opt r\<close> by blast
qed

text \<open>A query with a cookie and a client subnet next to the same question without them.\<close>

definition tagged_query :: msg where
  "tagged_query = zero_msg\<lparr>m_Id := 7, m_RecursionDesired := True,
     m_Question := [\<lparr>q_Name = ''www.example.'', q_Qtype = TypeA, q_Qclass = ClassINET\<rparr>],
     m_Extra := [(opt_rr 4096 False)\<lparr>rr_data := ROPT [OtherOption 10 ''cookie'', OtherOption 8 ''subnet'', EDNS0_PADDING 3]\<rparr>]\<rparr>"

definition plain_query :: msg where
  "plain_query = tagged_query\<lparr>m_Id := 9, m_Extra := []\<rparr>"

theorem upstream_query_private_witness:
  "upstreamQuery demo_dns 5 tagged_query = upstreamQuery demo_dns 5 plain_query"
proof -
  have "do_bit demo_dns tagged_query = do_bit demo_dns plain_query" by code_simp
  with upstream_query_private [OF demo_edns_ok, of tagged_query plain_query 5] show ?thesis by (simp add: plain_query_def)
qed

text \<open>every reply that is sent answers its query: it has the query's ID, its answers are a prefix of the
  answers it was built with and TC is set if any is missing; without an OPT record in the query it
  has none, and no RCODE above 15; with one it has exactly one, with the query's size and DO bit
  and no option but the padding s-hole added itself.\<close>

theorem send_answers_query:
  assumes "edns_ok L" "size_ok L" "list_all (\<lambda>r. \<not> is_opt r) (m_Extra resp)"
    and "out = fst (send L w req resp replies)"
  shows "m_Id out = m_Id req \<and> prefix (m_Answer out) (m_Answer resp) \<and> (m_Answer out = m_Answer resp \<or> m_Truncated out)
    \<and> (case IsEdns0 L req of
         None \<Rightarrow> filter is_opt (m_Extra out) = [] \<and> m_Rcode out \<le> 15
       | Some q \<Rightarrow> m_Rcode out = m_Rcode resp \<and> (\<exists>r. filter is_opt (m_Extra out) = [r]
           \<and> opt_Do L r = opt_Do L q \<and> opt_UDPSize L r = opt_UDPSize L q
           \<and> (options_of (rr_data r) = [] \<or> (\<exists>n. options_of (rr_data r) = [EDNS0_PADDING n]))))"
proof -
  let ?m = "opt_reply L req resp" and ?f = "fitUDP L w req (opt_reply L req resp)"
  note o = opt_reply_facts [OF assms(1,3), of req]
  have one: "length (filter is_opt (m_Extra ?m)) = (if IsEdns0 L req = None then 0 else 1)" using o(3,6) by (cases "IsEdns0 L req") auto
  note f = fitUDP_facts [OF assms(2), where w = w and req = req and m = ?m]
  have fo: "filter is_opt (m_Extra ?f) = filter is_opt (m_Extra ?m)" using f(5) one by simp
  have out: "out = ?f \<or> (IsEdns0 L req \<noteq> None \<and> out = pad L ?f replyPadBlock)"
    using assms(4) unfolding send_def fst_conv finish_reply_form [OF assms(1,3)] by (auto simp: Let_def split: option.splits if_splits)
  have "m_Id out = m_Id req" "m_Answer out = m_Answer ?f" "m_Truncated out = m_Truncated ?f" "m_Rcode out = m_Rcode ?m"
    using out f(1,2) o(1) by auto
  moreover have "\<exists>r. filter is_opt (m_Extra out) = [r] \<and> opt_Do L r = opt_Do L q \<and> opt_UDPSize L r = opt_UDPSize L q
      \<and> (options_of (rr_data r) = [] \<or> (\<exists>n. options_of (rr_data r) = [EDNS0_PADDING n]))" if "IsEdns0 L req = Some q" for q
    using o(6) [OF that] fo out pad_one_opt [OF assms(1), of ?f] by (metis options_of.simps(1))
  moreover have "filter is_opt (m_Extra out) = []" if "IsEdns0 L req = None" using o(3) [OF that] fo out that by simp
  ultimately show ?thesis using f(3,4) o(2,4,5) by (cases "IsEdns0 L req") auto
qed

definition udp_writer :: writer where
  "udp_writer = \<lparr>w_remote = RemoteUDP [192, 168, 1, 9], w_tls = False, w_err = None\<rparr>"

definition tls_writer :: writer where
  "tls_writer = \<lparr>w_remote = RemoteTCP [192, 168, 1, 9], w_tls = True, w_err = None\<rparr>"

text \<open>padding hides the length: a message with an OPT record comes out with a length that is a multiple of
  the block, unless that multiple is over the DNS size limit; and padding changes nothing else.\<close>

theorem pad_fills_block:
  assumes "edns_ok L" "size_ok L" "0 < block" "IsEdns0 L m \<noteq> None"
  shows "(block dvd MsgLen L (pad L m block)
      \<or> MaxMsgSize < MsgLen L (pad L m block) + (block - MsgLen L (pad L m block) mod block))
    \<and> m_Question (pad L m block) = m_Question m \<and> m_Answer (pad L m block) = m_Answer m \<and> m_Id (pad L m block) = m_Id m"
proof -
  obtain i where i: "IsEdns0_at L m = Some i" using assms(4) by (auto simp: IsEdns0_def)
  then have o: "i < length (m_Extra m)" "is_opt (m_Extra m ! i)" using edns_at [OF assms(1), of m] by auto
  let ?n = "MsgLen L (with_padding m i 0)"
  show ?thesis
  proof (cases "?n mod block \<noteq> 0 \<and> ?n + block - ?n mod block \<le> MaxMsgSize")
    case True
    then have "pad L m block = with_padding m i (block - ?n mod block)" using i by (simp add: pad_def Let_def)
    moreover have "?n + (block - ?n mod block) = block * (?n div block) + block"
      using mult_div_mod_eq [of block ?n] mod_less_divisor [OF assms(3), of ?n] by linarith
    ultimately show ?thesis using with_padding_len [OF assms(2) o, of "block - ?n mod block"] pad_fields [of L m block] by simp
  next
    case False
    then have "pad L m block = with_padding m i 0" using i by (auto simp: pad_def Let_def)
    moreover have "?n mod block \<le> block" using assms(3) by (simp add: less_imp_le)
    ultimately show ?thesis using False pad_fields [of L m block] by auto
  qed
qed

theorem pad_fills_block_witness:
  "468 dvd MsgLen demo_dns (pad demo_dns tagged_query 468)"
proof -
  have "IsEdns0 demo_dns tagged_query \<noteq> None" by code_simp
  moreover have le: "MsgLen demo_dns (pad demo_dns tagged_query 468) \<le> 600"
    by (simp add: pad_def tagged_query_def last_opt_def is_opt_def opt_rr_def with_padding_def msg_len_def rr_len_def
      zero_msg_def MaxMsgSize_def)
  have "MsgLen demo_dns (pad demo_dns tagged_query 468) + (468 - MsgLen demo_dns (pad demo_dns tagged_query 468) mod 468) \<le> 600 + 468"
    using le by (intro add_mono) auto
  then have "\<not> MaxMsgSize < MsgLen demo_dns (pad demo_dns tagged_query 468) + (468 - MsgLen demo_dns (pad demo_dns tagged_query 468) mod 468)"
    by (simp only: MaxMsgSize_def)
  ultimately show ?thesis using pad_fills_block [OF demo_edns_ok demo_size_ok zero_less_numeral] by blast
qed

end
