(* ===== verification/Upstream.thy ===== *)
theory Upstream
  imports Edns_Msg
begin

text \<open>
  Forwarding a query to the configured resolvers, \<open>src/internal/dnsserver/upstream.go\<close>. The network is
  the record \<open>upnet\<close>: what the \<open>n\<close>-th attempt gets back over UDP, TCP or HTTPS, the outcome of
  the \<open>n\<close>-th look at the context, the clock at the end of the \<open>n\<close>-th attempt, and the
  texts of the errors of packing and unpacking. The tracker is
  shared by all queries under a mutex; a call sees the tracker at its start and its own updates.
  Besides the result, the model returns every packet that leaves the host (\<open>contact\<close>), in order.
\<close>

section \<open>Model\<close>

definition upstreamCooldown :: duration where "upstreamCooldown = 30 * second"

record upstreamTracker =
  ut_lastErr :: "string \<rightharpoonup> time"
  ut_transportFailures :: "string \<Rightarrow> nat"

definition newUpstreamTracker :: upstreamTracker where
  "newUpstreamTracker = \<lparr>ut_lastErr = Map.empty, ut_transportFailures = (\<lambda>u. 0)\<rparr>"

definition shouldSkip :: "upstreamTracker \<Rightarrow> string \<Rightarrow> time \<Rightarrow> bool" where
  "shouldSkip t ad now = (case ut_lastErr t ad of None \<Rightarrow> False | Some t0 \<Rightarrow> time_Sub now t0 < upstreamCooldown)"

definition recordFailure :: "string \<Rightarrow> time \<Rightarrow> upstreamTracker \<Rightarrow> upstreamTracker" where
  "recordFailure ad now t = t\<lparr>ut_lastErr := (ut_lastErr t)(ad \<mapsto> now),
     ut_transportFailures := (ut_transportFailures t)(ad := ut_transportFailures t ad + 1)\<rparr>"

definition recordSuccess :: "string \<Rightarrow> upstreamTracker \<Rightarrow> upstreamTracker" where
  "recordSuccess ad t = t\<lparr>ut_lastErr := (ut_lastErr t)(ad := None)\<rparr>"

definition is_https :: "string \<Rightarrow> bool" where
  "is_https u = HasPrefix u ''https://''"

definition countPlaintextFallback :: "string \<Rightarrow> string list \<Rightarrow> nat \<Rightarrow> nat" where
  "countPlaintextFallback used ups n =
     (if is_https used then n else if list_ex is_https ups then n + 1 else n)"

definition errReplyMismatch :: up_error where
  "errReplyMismatch = \<lparr>ue_text = ''reply does not match the query'', ue_expired = False\<rparr>"

definition checkReply :: "unicode \<Rightarrow> msg \<Rightarrow> msg \<Rightarrow> up_error option" where
  "checkReply U req resp =
     (if \<not> m_Response resp \<or> m_Opcode resp \<noteq> OpcodeQuery \<or> length (m_Question resp) \<noteq> 1 then Some errReplyMismatch
      else let got = m_Question resp ! 0; want = m_Question req ! 0 in
        if q_Qtype got \<noteq> q_Qtype want \<or> q_Qclass got \<noteq> q_Qclass want \<or> \<not> EqualFold U (q_Name got) (q_Name want)
        then Some errReplyMismatch else None)"

subsection \<open>The network, a parameter\<close>

text \<open>An HTTP exchange: the error of \<open>Do\<close> without the URL that a \<open>url.Error\<close> prints (a redirect is
  one, \<open>refuseRedirect\<close>), or the status and the body, which reads whole or fails.\<close>

datatype doh_reply = HttpErr up_error | HttpResp int "string + string"

record upnet =
  un_ctx :: "nat \<Rightarrow> string option"
  un_time :: "nat \<Rightarrow> time"
  un_udp :: "nat \<Rightarrow> string \<Rightarrow> msg \<Rightarrow> up_error + msg"
  un_tcp :: "nat \<Rightarrow> string \<Rightarrow> msg \<Rightarrow> up_error + msg"
  un_newreq :: "string \<Rightarrow> up_error option"
  un_http :: "nat \<Rightarrow> string \<Rightarrow> string \<Rightarrow> doh_reply"
  un_packErr :: string
  un_unpackErr :: "string \<Rightarrow> string"

datatype contact = ViaUDP string msg | ViaTCP string msg | ViaDoH string string

definition maxDoHResponse :: nat where "maxDoHResponse = MaxMsgSize"

definition wrap_err :: "string \<Rightarrow> up_error \<Rightarrow> up_error" where
  "wrap_err pre e = \<lparr>ue_text = pre @ '': '' @ ue_text e, ue_expired = ue_expired e\<rparr>"

definition text_err :: "string \<Rightarrow> up_error" where
  "text_err s = \<lparr>ue_text = s, ue_expired = False\<rparr>"

definition exchangeDoH :: "dnslib \<Rightarrow> urllib \<Rightarrow> upnet \<Rightarrow> nat \<Rightarrow> msg \<Rightarrow> string \<Rightarrow> (up_error + msg) \<times> contact list" where
  "exchangeDoH L K N n req up =
     (case packDoH L req of
        None \<Rightarrow> (Inl (text_err (''packing DoH query: '' @ un_packErr N)), [])
      | Some packed \<Rightarrow>
          (case un_newreq N up of
             Some e \<Rightarrow> (Inl (wrap_err ''building DoH request'' e), [])
           | None \<Rightarrow>
               let shown = redact_URL K up; sent = [ViaDoH up packed] in
               (case un_http N n up packed of
                  HttpErr e \<Rightarrow> (Inl (wrap_err (''DoH request to '' @ shown) e), sent)
                | HttpResp status body \<Rightarrow>
                    if status \<noteq> 200 then (Inl (text_err (''DoH request to '' @ shown @ '': status '' @ Itoa status)), sent)
                    else (case body of
                        Inl e \<Rightarrow> (Inl (text_err (''reading DoH response from '' @ shown @ '': '' @ e)), sent)
                      | Inr b \<Rightarrow>
                          (case Unpack L (take maxDoHResponse b) of
                             None \<Rightarrow> (Inl (text_err (''unpacking DoH response from '' @ shown @ '': '' @ un_unpackErr N b)), sent)
                           | Some out \<Rightarrow> (Inr (out\<lparr>m_Id := m_Id req\<rparr>), sent))))))"

definition exchange :: "unicode \<Rightarrow> dnslib \<Rightarrow> urllib \<Rightarrow> upnet \<Rightarrow> nat \<Rightarrow> msg \<Rightarrow> string \<Rightarrow> (up_error + msg) \<times> contact list" where
  "exchange U L K N n req up =
     (if is_https up then
        (case exchangeDoH L K N n req up of
           (Inl e, c) \<Rightarrow> (Inl e, c)
         | (Inr resp, c) \<Rightarrow> (case checkReply U req resp of Some e \<Rightarrow> (Inl e, c) | None \<Rightarrow> (Inr resp, c)))
      else
        (case un_udp N n up req of
           Inl e \<Rightarrow> (Inl e, [ViaUDP up req])
         | Inr resp \<Rightarrow>
             (case checkReply U req resp of
                Some e \<Rightarrow> (Inl e, [ViaUDP up req])
              | None \<Rightarrow>
                  if \<not> m_Truncated resp then (Inr resp, [ViaUDP up req])
                  else (case un_tcp N n up req of
                      Inl e \<Rightarrow> (Inr resp, [ViaUDP up req, ViaTCP up req])
                    | Inr full \<Rightarrow>
                        (if checkReply U req full \<noteq> None then Inr resp else Inr full, [ViaUDP up req, ViaTCP up req])))))"

text \<open>The state of one call: the shared tracker and counter, the set \<open>tried\<close>, the causes so far, and
  what the trace needs: looks at the context, upstreams attempted, packets sent.\<close>

record fwd =
  fw_tracker :: upstreamTracker
  fw_fallbacks :: nat
  fw_tried :: "string list"
  fw_causes :: "(string \<times> up_error) list"
  fw_looks :: nat
  fw_asked :: "string list"
  fw_sent :: "contact list"

text \<open>One attempt and its bookkeeping, the same in both sweeps.\<close>

definition attempt :: "unicode \<Rightarrow> dnslib \<Rightarrow> urllib \<Rightarrow> upnet \<Rightarrow> string list \<Rightarrow> msg \<Rightarrow> string \<Rightarrow> fwd \<Rightarrow> msg option \<times> fwd" where
  "attempt U L K N ups req up f =
     (let n = length (fw_asked f) in
      case exchange U L K N n req up of
        (Inr resp, c) \<Rightarrow>
          (Some resp, f\<lparr>fw_tracker := recordSuccess up (fw_tracker f),
             fw_fallbacks := countPlaintextFallback up ups (fw_fallbacks f),
             fw_asked := fw_asked f @ [up], fw_sent := fw_sent f @ c\<rparr>)
      | (Inl err, c) \<Rightarrow>
          (None, f\<lparr>fw_tracker := recordFailure up (un_time N n) (fw_tracker f), fw_causes := fw_causes f @ [(up, err)],
             fw_asked := fw_asked f @ [up], fw_sent := fw_sent f @ c\<rparr>))"

fun sweep1 :: "unicode \<Rightarrow> dnslib \<Rightarrow> urllib \<Rightarrow> upnet \<Rightarrow> string list \<Rightarrow> msg \<Rightarrow> time \<Rightarrow> string list \<Rightarrow> fwd
    \<Rightarrow> (forward_error + msg) option \<times> fwd" where
  "sweep1 U L K N ups req now [] f = (None, f)"
| "sweep1 U L K N ups req now (up # rest) f =
     (case un_ctx N (fw_looks f) of
        Some e \<Rightarrow> (Some (Inl (CtxError e)), f)
      | None \<Rightarrow>
          let f1 = f\<lparr>fw_looks := fw_looks f + 1\<rparr> in
          if shouldSkip (fw_tracker f1) up now then sweep1 U L K N ups req now rest f1
          else (case attempt U L K N ups req up (f1\<lparr>fw_tried := up # fw_tried f1\<rparr>) of
              (Some resp, f2) \<Rightarrow> (Some (Inr resp), f2)
            | (None, f2) \<Rightarrow> sweep1 U L K N ups req now rest f2))"

fun sweep2 :: "unicode \<Rightarrow> dnslib \<Rightarrow> urllib \<Rightarrow> upnet \<Rightarrow> string list \<Rightarrow> msg \<Rightarrow> string list \<Rightarrow> fwd
    \<Rightarrow> (forward_error + msg) option \<times> fwd" where
  "sweep2 U L K N ups req [] f = (None, f)"
| "sweep2 U L K N ups req (up # rest) f =
     (case un_ctx N (fw_looks f) of
        Some e \<Rightarrow> (Some (Inl (CtxError e)), f)
      | None \<Rightarrow>
          let f1 = f\<lparr>fw_looks := fw_looks f + 1\<rparr> in
          if up \<in> set (fw_tried f1) then sweep2 U L K N ups req rest f1
          else (case attempt U L K N ups req up f1 of
              (Some resp, f2) \<Rightarrow> (Some (Inr resp), f2)
            | (None, f2) \<Rightarrow> sweep2 U L K N ups req rest f2))"

definition forwardWith :: "unicode \<Rightarrow> dnslib \<Rightarrow> urllib \<Rightarrow> upnet \<Rightarrow> time \<Rightarrow> msg \<Rightarrow> string list \<Rightarrow> upstreamTracker \<Rightarrow> nat
    \<Rightarrow> (forward_error + msg) \<times> fwd" where
  "forwardWith U L K N now req ups tracker fallbacks =
     (let f0 = \<lparr>fw_tracker = tracker, fw_fallbacks = fallbacks, fw_tried = [], fw_causes = [], fw_looks = 0,
                fw_asked = [], fw_sent = []\<rparr>
      in case sweep1 U L K N ups req now ups f0 of
           (Some r, f1) \<Rightarrow> (r, f1)
         | (None, f1) \<Rightarrow>
             (case sweep2 U L K N ups req ups f1 of
                (Some r, f2) \<Rightarrow> (r, f2)
              | (None, f2) \<Rightarrow>
                  if fw_causes f2 = [] then
                    (case un_ctx N (fw_looks f2) of
                       Some e \<Rightarrow> (Inl (CtxError e), f2)
                     | None \<Rightarrow> (Inl (ForwardError []), f2))
                  else (Inl (ForwardError (fw_causes f2)), f2)))"

section \<open>Lemmas\<close>

subsection \<open>One attempt\<close>

definition answers :: "unicode \<Rightarrow> msg \<Rightarrow> msg \<Rightarrow> bool" where
  "answers U req resp \<longleftrightarrow> (m_Response resp \<and> m_Opcode resp = OpcodeQuery \<and>
     (\<exists>q. m_Question resp = [q] \<and> q_Qtype q = q_Qtype (m_Question req ! 0) \<and> q_Qclass q = q_Qclass (m_Question req ! 0)
        \<and> EqualFold U (q_Name q) (q_Name (m_Question req ! 0))))"

lemma checkReply_None: "checkReply U req resp = None \<longleftrightarrow> answers U req resp"
  by (auto simp: checkReply_def answers_def Let_def length_Suc_conv)

text \<open>The packets that an attempt may send: to the upstream itself, the query or its padded form, and
  never outside HTTPS to an HTTPS upstream.\<close>

definition safe_contact :: "dnslib \<Rightarrow> msg \<Rightarrow> string set \<Rightarrow> contact \<Rightarrow> bool" where
  "safe_contact L req S c = (case c of
       ViaUDP up m \<Rightarrow> up \<in> S \<and> \<not> is_https up \<and> m = req
     | ViaTCP up m \<Rightarrow> up \<in> S \<and> \<not> is_https up \<and> m = req
     | ViaDoH up b \<Rightarrow> up \<in> S \<and> is_https up \<and> packDoH L req = Some b)"

lemma exchangeDoH_safe: "is_https up \<Longrightarrow> list_all (safe_contact L req {up}) (snd (exchangeDoH L K N n req up))"
  by (auto simp: exchangeDoH_def Let_def safe_contact_def split: option.splits doh_reply.splits sum.splits)

lemma exchange_safe: "list_all (safe_contact L req {up}) (snd (exchange U L K N n req up))"
  using exchangeDoH_safe [of up L req K N n]
  by (auto simp: exchange_def safe_contact_def split: sum.splits option.splits prod.splits)

lemma exchange_answers: "fst (exchange U L K N n req up) = Inr resp \<Longrightarrow> answers U req resp"
  by (auto simp: exchange_def checkReply_None [symmetric] split: sum.splits option.splits prod.splits if_splits)

lemma safe_contact_mono: "safe_contact L req S c \<Longrightarrow> S \<subseteq> T \<Longrightarrow> safe_contact L req T c"
  by (auto simp: safe_contact_def split: contact.splits)

lemma attempt_frame:
  assumes "attempt U L K N ups req up f = (r, f')"
  shows "fw_asked f' = fw_asked f @ [up]" "fw_tried f' = fw_tried f" "fw_looks f' = fw_looks f"
    "r = None \<Longrightarrow> \<exists>e. fw_causes f' = fw_causes f @ [(up, e)]"
    "r \<noteq> None \<Longrightarrow> fw_causes f' = fw_causes f"
    "r = Some resp \<Longrightarrow> answers U req resp"
    "x \<noteq> up \<Longrightarrow> ut_lastErr (fw_tracker f') x = ut_lastErr (fw_tracker f) x"
    "list_all (safe_contact L req S) (fw_sent f) \<Longrightarrow> up \<in> S \<Longrightarrow> list_all (safe_contact L req S) (fw_sent f')"
proof -
  obtain e c where x: "exchange U L K N (length (fw_asked f)) req up = (e, c)" by force
  have c: "list_all (safe_contact L req {up}) c" using exchange_safe [of L req up U K N "length (fw_asked f)"] x by simp
  show "list_all (safe_contact L req S) (fw_sent f')" if "list_all (safe_contact L req S) (fw_sent f)" "up \<in> S"
  proof -
    have "list_all (safe_contact L req S) c" using c that(2) by (auto simp: list_all_iff intro: safe_contact_mono)
    then show ?thesis using assms that(1) x by (auto simp: attempt_def Let_def split: sum.splits)
  qed
qed (use assms exchange_answers [of U L K N "length (fw_asked f)" req up] in
     \<open>auto simp: attempt_def Let_def recordSuccess_def recordFailure_def split: sum.splits prod.splits\<close>)

lemma attempt_cause:
  assumes "attempt U L K N ups req up f = (None, f')"
  shows "\<exists>e n. fw_causes f' = fw_causes f @ [(up, e)] \<and> fst (exchange U L K N n req up) = Inl e"
  using assms by (auto simp: attempt_def Let_def split: sum.splits prod.splits) (metis fst_conv)

subsection \<open>The sweeps\<close>

text \<open>What a run over the upstreams \<open>todo\<close> does: it asks a prefix of them, all of them if it ends without
  a result, and stops only at a reply that answers the query or at the end of the context.\<close>

definition failed_with :: "unicode \<Rightarrow> dnslib \<Rightarrow> urllib \<Rightarrow> upnet \<Rightarrow> msg \<Rightarrow> string \<times> up_error \<Rightarrow> bool" where
  "failed_with U L K N req c = (\<exists>n. fst (exchange U L K N n req (fst c)) = Inl (snd c))"

definition swept :: "unicode \<Rightarrow> dnslib \<Rightarrow> urllib \<Rightarrow> upnet \<Rightarrow> msg \<Rightarrow> string list \<Rightarrow> fwd \<Rightarrow> (forward_error + msg) option \<Rightarrow> fwd \<Rightarrow> bool" where
  "swept U L K N req todo f r f' \<longleftrightarrow>
     (\<exists>as cs. fw_asked f' = fw_asked f @ as \<and> prefix as todo \<and> fw_causes f' = fw_causes f @ cs \<and> list_all (failed_with U L K N req) cs
        \<and> (r = None \<longrightarrow> as = todo \<and> map fst cs = todo))
     \<and> (\<forall>resp. r = Some (Inr resp) \<longrightarrow> answers U req resp)
     \<and> (\<forall>e. r = Some (Inl e) \<longrightarrow> (\<exists>t n. e = CtxError t \<and> un_ctx N n = Some t))
     \<and> (\<forall>S. list_all (safe_contact L req S) (fw_sent f) \<and> set todo \<subseteq> S \<longrightarrow> list_all (safe_contact L req S) (fw_sent f'))"

lemma sweptI:
  assumes "fw_asked f' = fw_asked f @ as \<and> prefix as todo \<and> fw_causes f' = fw_causes f @ cs \<and> list_all (failed_with U L K N req) cs
       \<and> (r = None \<longrightarrow> as = todo \<and> map fst cs = todo)"
    and "\<And>resp. r = Some (Inr resp) \<Longrightarrow> answers U req resp"
    and "\<And>e. r = Some (Inl e) \<Longrightarrow> \<exists>t n. e = CtxError t \<and> un_ctx N n = Some t"
    and "\<And>S. list_all (safe_contact L req S) (fw_sent f) \<Longrightarrow> set todo \<subseteq> S \<Longrightarrow> list_all (safe_contact L req S) (fw_sent f')"
  shows "swept U L K N req todo f r f'"
  unfolding swept_def by (intro conjI exI [of _ as] exI [of _ cs] allI impI assms(1)) (use assms(2-4) in auto)

lemma sweptD:
  assumes "swept U L K N req todo f r f'"
  shows "r = Some (Inr resp) \<Longrightarrow> answers U req resp"
    "r = Some (Inl e) \<Longrightarrow> \<exists>t n. e = CtxError t \<and> un_ctx N n = Some t"
    "list_all (safe_contact L req S) (fw_sent f) \<Longrightarrow> set todo \<subseteq> S \<Longrightarrow> list_all (safe_contact L req S) (fw_sent f')"
  using assms unfolding swept_def by simp_all

lemma swept_stop: "swept U L K N req todo f (Some (Inl (CtxError e))) f" if "un_ctx N n = Some e"
  using that by (auto simp: swept_def)

lemma swept_Nil: "swept U L K N req [] f None f"
  by (simp add: swept_def)

lemma swept_looks: "swept U L K N req todo (f\<lparr>fw_looks := n\<rparr>) r f' = swept U L K N req todo f r f'"
  by (simp add: swept_def)

lemma swept_tried: "swept U L K N req todo (f\<lparr>fw_tried := n\<rparr>) r f' = swept U L K N req todo f r f'"
  by (simp add: swept_def)

lemma swept_found:
  assumes "attempt U L K N ups req up f = (Some resp, f')"
  shows "swept U L K N req (up # todo) f (Some (Inr resp)) f'"
proof -
  note a = attempt_frame [OF assms]
  have "fw_causes f' = fw_causes f" using a(5) by simp
  moreover have "answers U req resp" using a(6) by simp
  ultimately show ?thesis using a(1,8) by (auto simp: swept_def)
qed

lemma swept_next:
  assumes "attempt U L K N ups req up f = (None, f1)" "swept U L K N req todo f1 r f'"
  shows "swept U L K N req (up # todo) f r f'"
proof -
  note a = attempt_frame [OF assms(1)]
  obtain e n where c: "fw_causes f1 = fw_causes f @ [(up, e)]" "fst (exchange U L K N n req up) = Inl e"
    using attempt_cause [OF assms(1)] by blast
  obtain as cs where as: "fw_asked f' = fw_asked f1 @ as" "prefix as todo" "fw_causes f' = fw_causes f1 @ cs"
      "list_all (failed_with U L K N req) cs" "r = None \<longrightarrow> as = todo \<and> map fst cs = todo"
    using assms(2) unfolding swept_def by blast
  have "fw_asked f' = fw_asked f @ (up # as) \<and> prefix (up # as) (up # todo) \<and> fw_causes f' = fw_causes f @ ((up, e) # cs)
      \<and> list_all (failed_with U L K N req) ((up, e) # cs) \<and> (r = None \<longrightarrow> up # as = up # todo \<and> map fst ((up, e) # cs) = up # todo)"
    using as a(1) c by (auto simp: failed_with_def)
  then show ?thesis
    by (rule sweptI) (use sweptD [OF assms(2)] a(8) in auto)
qed

lemma sweep1_spec:
  assumes "distinct rest" "\<forall>x \<in> set rest. ut_lastErr (fw_tracker f) x = ut_lastErr t0 x"
    "sweep1 U L K N ups req now rest f = (r, f')"
  shows "swept U L K N req (filter (\<lambda>u. \<not> shouldSkip t0 u now) rest) f r f'
    \<and> (r = None \<longrightarrow> set (fw_tried f') = set (fw_tried f) \<union> {u \<in> set rest. \<not> shouldSkip t0 u now})"
  using assms
proof (induction rest arbitrary: f)
  case Nil
  then show ?case by (auto simp: swept_Nil)
next
  case (Cons up rest)
  let ?f1 = "f\<lparr>fw_looks := fw_looks f + 1\<rparr>"
  have sk: "shouldSkip (fw_tracker f) up now = shouldSkip t0 up now" using Cons.prems(2) by (simp add: shouldSkip_def)
  show ?case
  proof (cases "un_ctx N (fw_looks f)")
    case (Some e)
    then show ?thesis using Cons.prems(3) swept_stop by auto
  next
    case ctx: None
    show ?thesis
    proof (cases "shouldSkip t0 up now")
      case True
      then show ?thesis using Cons.prems Cons.IH [of ?f1] ctx sk by (auto simp: swept_looks Let_def)
    next
      case False
      let ?f2 = "?f1\<lparr>fw_tried := up # fw_tried ?f1\<rparr>"
      obtain o' f3 where a: "attempt U L K N ups req up ?f2 = (o', f3)" by force
      note fr = attempt_frame [OF a]
      show ?thesis
      proof (cases o')
        case (Some resp)
        then have "r = Some (Inr resp)" "f' = f3" using Cons.prems(3) ctx sk False a by (auto simp: Let_def)
        then show ?thesis using swept_found [OF a [unfolded Some]] False by (simp add: swept_looks swept_tried)
      next
        case None
        then have s: "sweep1 U L K N ups req now rest f3 = (r, f')" using Cons.prems(3) ctx sk False a by (auto simp: Let_def)
        have "\<forall>x \<in> set rest. ut_lastErr (fw_tracker f3) x = ut_lastErr t0 x"
        proof
          fix x assume "x \<in> set rest"
          then have "x \<noteq> up" "ut_lastErr (fw_tracker f) x = ut_lastErr t0 x" using Cons.prems(1,2) by auto
          then show "ut_lastErr (fw_tracker f3) x = ut_lastErr t0 x" using fr(7) [of x] by simp
        qed
        with Cons.IH [OF _ this s] Cons.prems(1) have IH: "swept U L K N req (filter (\<lambda>u. \<not> shouldSkip t0 u now) rest) f3 r f'"
            "r = None \<longrightarrow> set (fw_tried f') = set (fw_tried f3) \<union> {u \<in> set rest. \<not> shouldSkip t0 u now}" by auto
        show ?thesis using swept_next [OF a [unfolded None] IH(1)] IH(2) fr(2) False by (auto simp: swept_looks swept_tried)
      qed
    qed
  qed
qed

lemma sweep2_spec:
  assumes "sweep2 U L K N ups req rest f = (r, f')"
  shows "swept U L K N req (filter (\<lambda>u. u \<notin> set (fw_tried f)) rest) f r f'"
  using assms
proof (induction rest arbitrary: f)
  case Nil
  then show ?case by (auto simp: swept_Nil)
next
  case (Cons up rest)
  let ?f1 = "f\<lparr>fw_looks := fw_looks f + 1\<rparr>"
  show ?case
  proof (cases "un_ctx N (fw_looks f)")
    case (Some e)
    then show ?thesis using Cons.prems swept_stop by auto
  next
    case ctx: None
    show ?thesis
    proof (cases "up \<in> set (fw_tried f)")
      case True
      then show ?thesis using Cons.prems Cons.IH [of ?f1] ctx by (auto simp: swept_looks Let_def)
    next
      case False
      obtain o' f3 where a: "attempt U L K N ups req up ?f1 = (o', f3)" by force
      show ?thesis
      proof (cases o')
        case (Some resp)
        then have "r = Some (Inr resp)" "f' = f3" using Cons.prems ctx False a by (auto simp: Let_def)
        then show ?thesis using swept_found [OF a [unfolded Some]] False by (simp add: swept_looks)
      next
        case None
        then have "sweep2 U L K N ups req rest f3 = (r, f')" using Cons.prems ctx False a by (auto simp: Let_def)
        then show ?thesis
          using swept_next [OF a [unfolded None] Cons.IH] attempt_frame(2) [OF a] False by (simp add: swept_looks)
      qed
    qed
  qed
qed

text \<open>The order of a query's attempts: the upstreams not in cooldown, then those in cooldown.\<close>

definition sweep_order :: "upstreamTracker \<Rightarrow> time \<Rightarrow> string list \<Rightarrow> string list" where
  "sweep_order t now ups = filter (\<lambda>u. \<not> shouldSkip t u now) ups @ filter (\<lambda>u. shouldSkip t u now) ups"

lemma sweep_order_simps: "set (sweep_order t now ups) = set ups" "distinct ups \<Longrightarrow> distinct (sweep_order t now ups)"
  by (auto simp: sweep_order_def)

lemma swept_trans:
  assumes "swept U L K N req as f None f1" "swept U L K N req bs f1 r f2"
  shows "swept U L K N req (as @ bs) f r f2"
proof -
  obtain c where c: "fw_asked f1 = fw_asked f @ as" "fw_causes f1 = fw_causes f @ c" "map fst c = as" "list_all (failed_with U L K N req) c"
    using assms(1) unfolding swept_def by blast
  obtain xs ds where d: "fw_asked f2 = fw_asked f1 @ xs" "prefix xs bs" "fw_causes f2 = fw_causes f1 @ ds"
      "list_all (failed_with U L K N req) ds" "r = None \<longrightarrow> xs = bs \<and> map fst ds = bs"
    using assms(2) unfolding swept_def by blast
  have "fw_asked f2 = fw_asked f @ (as @ xs) \<and> prefix (as @ xs) (as @ bs) \<and> fw_causes f2 = fw_causes f @ (c @ ds)
      \<and> list_all (failed_with U L K N req) (c @ ds) \<and> (r = None \<longrightarrow> as @ xs = as @ bs \<and> map fst (c @ ds) = as @ bs)"
    using c d by auto
  then show ?thesis
    by (rule sweptI) (use sweptD [OF assms(2)] sweptD(3) [OF assms(1)] in auto)
qed

lemma swept_grow: "swept U L K N req as f (Some r) f' \<Longrightarrow> swept U L K N req (as @ bs) f (Some r) f'"
  unfolding swept_def by (auto simp: prefix_append)

definition fwd0 :: "upstreamTracker \<Rightarrow> nat \<Rightarrow> fwd" where
  "fwd0 t n = \<lparr>fw_tracker = t, fw_fallbacks = n, fw_tried = [], fw_causes = [], fw_looks = 0, fw_asked = [], fw_sent = []\<rparr>"

lemma forwardWith_spec:
  assumes "distinct ups" "forwardWith U L K N now req ups t n = (r, f')"
  shows "\<exists>o'. swept U L K N req (sweep_order t now ups) (fwd0 t n) o' f'
     \<and> (o' = Some r \<or> (o' = None \<and> (r = Inl (ForwardError (fw_causes f')) \<or> (\<exists>e k. r = Inl (CtxError e) \<and> un_ctx N k = Some e))))"
proof -
  obtain r1 f1 where 1: "sweep1 U L K N ups req now ups (fwd0 t n) = (r1, f1)" by force
  note s1 = sweep1_spec [OF assms(1) _ 1, of t]
  have w1: "swept U L K N req (filter (\<lambda>u. \<not> shouldSkip t u now) ups) (fwd0 t n) r1 f1" using s1 by (simp add: fwd0_def)
  show ?thesis
  proof (cases r1)
    case (Some x)
    then have "r = x" "f' = f1" using assms(2) 1 by (simp_all add: forwardWith_def fwd0_def)
    then show ?thesis using swept_grow [OF w1 [unfolded Some]] Some by (auto simp: sweep_order_def)
  next
    case None
    obtain r2 f2 where 2: "sweep2 U L K N ups req ups f1 = (r2, f2)" by force
    have "set (fw_tried f1) = {u \<in> set ups. \<not> shouldSkip t u now}" using s1 None by (simp add: fwd0_def)
    then have "filter (\<lambda>u. u \<notin> set (fw_tried f1)) ups = filter (\<lambda>u. shouldSkip t u now) ups" by (auto intro: filter_cong)
    with swept_trans [OF w1 [unfolded None] sweep2_spec [OF 2]]
    have w: "swept U L K N req (sweep_order t now ups) (fwd0 t n) r2 f2" by (simp add: sweep_order_def)
    show ?thesis
    proof (cases r2)
      case (Some x)
      then have "r = x" "f' = f2" using assms(2) 1 2 None by (simp_all add: forwardWith_def fwd0_def)
      then show ?thesis using w Some by auto
    next
      case n2: None
      then have "f' = f2" "r = Inl (ForwardError (fw_causes f')) \<or> (\<exists>e k. r = Inl (CtxError e) \<and> un_ctx N k = Some e)"
        using assms(2) 1 2 None by (auto simp: forwardWith_def fwd0_def split: if_splits option.splits)
      then show ?thesis using w n2 by auto
    qed
  qed
qed

lemma fwd0_simps [simp]: "fw_asked (fwd0 t n) = []" "fw_causes (fwd0 t n) = []" "fw_sent (fwd0 t n) = []"
  by (simp_all add: fwd0_def)

text \<open>A forward that ends with no answer and no end of the context has failed at every upstream.\<close>

lemma forwardWith_total_failure:
  assumes "distinct ups" "forwardWith U L K N now req ups t n = (Inl (ForwardError cs), f')"
  shows "map fst cs = sweep_order t now ups \<and> fw_asked f' = sweep_order t now ups \<and> list_all (failed_with U L K N req) cs"
proof -
  obtain o' where o: "swept U L K N req (sweep_order t now ups) (fwd0 t n) o' f'"
      "o' = Some (Inl (ForwardError cs)) \<or> (o' = None \<and> cs = fw_causes f')"
    using forwardWith_spec [OF assms] by auto
  have "o' = None" using sweptD(2) [OF o(1)] o(2) by auto
  then show ?thesis using o unfolding swept_def by auto
qed

lemma forward_answered:
  assumes "distinct ups" "\<forall>k. un_ctx N k = None" "u \<in> set ups" "\<forall>k. \<exists>resp. fst (exchange U L K N k req u) = Inr resp"
  shows "\<exists>resp. fst (forwardWith U L K N now req ups t n) = Inr resp"
proof -
  obtain r f where f: "forwardWith U L K N now req ups t n = (r, f)" by force
  have "r \<noteq> Inl e" for e
  proof
    assume r: "r = Inl e"
    obtain o' where o: "swept U L K N req (sweep_order t now ups) (fwd0 t n) o' f"
        "o' = Some r \<or> r = Inl (ForwardError (fw_causes f))"
      using forwardWith_spec [OF assms(1) f] assms(2) by auto
    have "o' \<noteq> Some (Inl e)" using sweptD(2) [OF o(1)] assms(2) by fastforce
    then obtain cs where cs: "e = ForwardError cs" using o(2) r by auto
    have t: "map fst cs = sweep_order t now ups" "list_all (failed_with U L K N req) cs"
      using forwardWith_total_failure [OF assms(1)] f r cs by auto
    have "u \<in> set (map fst cs)" unfolding t(1) sweep_order_simps(1) by (rule assms(3))
    then obtain err where "(u, err) \<in> set cs" by auto
    then obtain k where "fst (exchange U L K N k req u) = Inl err" using t(2) by (auto simp: list_all_iff failed_with_def)
    with assms(4) show False by (metis Inl_Inr_False)
  qed
  then show ?thesis using f by (cases r) auto
qed

subsection \<open>Any list of upstreams\<close>

text \<open>What holds of the sweeps without an assumption on the list: only answers come back, and only the
  query goes out, to the upstreams of the list.\<close>

definition fwd_ok :: "unicode \<Rightarrow> dnslib \<Rightarrow> msg \<Rightarrow> string set \<Rightarrow> (forward_error + msg) option \<Rightarrow> fwd \<Rightarrow> bool" where
  "fwd_ok U L req S r f \<longleftrightarrow> (\<forall>resp. r = Some (Inr resp) \<longrightarrow> answers U req resp) \<and> list_all (safe_contact L req S) (fw_sent f)"

lemma attempt_ok:
  assumes "attempt U L K N ups req up f = (r, f')" "list_all (safe_contact L req S) (fw_sent f)" "up \<in> S"
  shows "list_all (safe_contact L req S) (fw_sent f')" "r = Some resp \<Longrightarrow> fwd_ok U L req S (Some (Inr resp)) f'"
  using attempt_frame(6,8) [OF assms(1)] assms(2,3) by (auto simp: fwd_ok_def)

lemma sweep1_ok:
  "list_all (safe_contact L req S) (fw_sent f) \<Longrightarrow> set rest \<subseteq> S \<Longrightarrow> sweep1 U L K N ups req now rest f = (r, f') \<Longrightarrow> fwd_ok U L req S r f'"
proof (induction rest arbitrary: f)
  case (Cons up rest)
  note IH = Cons.IH [of "f\<lparr>fw_looks := Suc (fw_looks f)\<rparr>"]
  show ?case using Cons IH
    by (auto simp: Let_def fwd_ok_def [where r = "Some (Inl _)"] dest: attempt_ok split: option.splits if_splits prod.splits)
qed (auto simp: fwd_ok_def)

lemma sweep2_ok:
  "list_all (safe_contact L req S) (fw_sent f) \<Longrightarrow> set rest \<subseteq> S \<Longrightarrow> sweep2 U L K N ups req rest f = (r, f') \<Longrightarrow> fwd_ok U L req S r f'"
proof (induction rest arbitrary: f)
  case (Cons up rest)
  note IH = Cons.IH [of "f\<lparr>fw_looks := Suc (fw_looks f)\<rparr>"]
  show ?case using Cons IH
    by (auto simp: Let_def fwd_ok_def [where r = "Some (Inl _)"] dest: attempt_ok split: option.splits if_splits prod.splits)
qed (auto simp: fwd_ok_def)

lemma forwardWith_ok:
  assumes "forwardWith U L K N now req ups t n = (r, f)"
  shows "(\<forall>resp. r = Inr resp \<longrightarrow> answers U req resp) \<and> list_all (safe_contact L req (set ups)) (fw_sent f)"
proof -
  let ?f0 = "\<lparr>fw_tracker = t, fw_fallbacks = n, fw_tried = [], fw_causes = [], fw_looks = 0, fw_asked = [], fw_sent = []\<rparr>"
  obtain r1 f1 where 1: "sweep1 U L K N ups req now ups ?f0 = (r1, f1)" by force
  have o1: "fwd_ok U L req (set ups) r1 f1" using sweep1_ok [OF _ _ 1, of "set ups"] by simp
  obtain r2 f2 where 2: "sweep2 U L K N ups req ups f1 = (r2, f2)" by force
  have o2: "fwd_ok U L req (set ups) r2 f2" using sweep2_ok [OF _ _ 2, of "set ups"] o1 by (simp add: fwd_ok_def)
  show ?thesis
    using assms 1 2 o1 o2 by (auto simp: forwardWith_def fwd_ok_def split: option.splits if_splits)
qed

section \<open>Properties\<close>

text \<open>C40: with an upstream list without duplicates, every query asks each upstream at most once, first those that have
  not failed within the cooldown and then the others, both in the configured order; and it gives up on the
  upstreams only after it has asked every one of them, with one cause for each. The configuration does not
  remove duplicates from the list.\<close>

theorem forward_asks_each_once:
  assumes "distinct ups" "forwardWith U L K N now req ups t n = (r, f)"
  shows "prefix (fw_asked f) (sweep_order t now ups) \<and> distinct (fw_asked f)
    \<and> (\<forall>cs. r = Inl (ForwardError cs) \<longrightarrow> map fst cs = sweep_order t now ups \<and> fw_asked f = sweep_order t now ups)"
proof -
  obtain o' where "swept U L K N req (sweep_order t now ups) (fwd0 t n) o' f" using forwardWith_spec [OF assms] by blast
  then have "prefix (fw_asked f) (sweep_order t now ups)" unfolding swept_def by auto
  moreover have "distinct (sweep_order t now ups)" using assms(1) by (rule sweep_order_simps)
  ultimately have "prefix (fw_asked f) (sweep_order t now ups)" "distinct (fw_asked f)" by (auto simp: prefix_def)
  moreover have "map fst cs = sweep_order t now ups \<and> fw_asked f = sweep_order t now ups" if "r = Inl (ForwardError cs)" for cs
    using forwardWith_total_failure [OF assms(1)] assms(2) that by blast
  ultimately show ?thesis by blast
qed

text \<open>A network in which nothing answers but the upstream \<open>9.9.9.9:53\<close>.\<close>

definition up_reply :: "msg \<Rightarrow> msg" where
  "up_reply req = req\<lparr>m_Response := True\<rparr>"

definition demo_net :: upnet where
  "demo_net = \<lparr>un_ctx = (\<lambda>n. None), un_time = (\<lambda>n. 0),
     un_udp = (\<lambda>n u m. if u = ''9.9.9.9:53'' then Inr (up_reply m) else Inl (text_err ''timeout'')),
     un_tcp = (\<lambda>n u m. Inl (text_err ''timeout'')), un_newreq = (\<lambda>u. None),
     un_http = (\<lambda>n u b. HttpErr (text_err ''timeout'')), un_packErr = [], un_unpackErr = (\<lambda>b. [])\<rparr>"

text \<open>The upstream list of the examples; the plain one failed one second ago.\<close>

definition demo_ups :: "string list" where
  "demo_ups = [''9.9.9.9:53'', ''https://dns.test/q'', ''1.1.1.1:53'']"

definition demo_tracker :: upstreamTracker where
  "demo_tracker = recordFailure ''9.9.9.9:53'' (99 * second) newUpstreamTracker"

lemma demo_exchange:
  "fst (exchange ascii_only demo_dns no_url demo_net k plain_query ''9.9.9.9:53'') = Inr (up_reply plain_query)"
  by (simp add: exchange_def is_https_def HasPrefix_def demo_net_def checkReply_def up_reply_def plain_query_def tagged_query_def
      zero_msg_def OpcodeQuery_def EqualFold_def ascii_only_def Let_def)

theorem forward_asks_each_once_witness:
  "distinct demo_ups \<and> sweep_order demo_tracker (100 * second) demo_ups = [''https://dns.test/q'', ''1.1.1.1:53'', ''9.9.9.9:53'']
   \<and> (case forwardWith ascii_only demo_dns no_url demo_net (100 * second) plain_query demo_ups demo_tracker 0 of
        (r, f) \<Rightarrow> prefix (fw_asked f) [''https://dns.test/q'', ''1.1.1.1:53'', ''9.9.9.9:53''])"
proof -
  have o: "sweep_order demo_tracker (100 * second) demo_ups = [''https://dns.test/q'', ''1.1.1.1:53'', ''9.9.9.9:53'']"
    and d: "distinct demo_ups"
    by (simp_all add: sweep_order_def demo_ups_def demo_tracker_def recordFailure_def newUpstreamTracker_def shouldSkip_def
      time_Sub_def upstreamCooldown_def)
  obtain r f where f: "forwardWith ascii_only demo_dns no_url demo_net (100 * second) plain_query demo_ups demo_tracker 0 = (r, f)"
    by force
  from forward_asks_each_once [OF d f] o d f show ?thesis by simp
qed

text \<open>only an answer to the query asked comes back, and only the query goes out: a reply is a response of
  opcode QUERY whose one question is the query's (names compared without case); every packet goes to
  a configured upstream, an HTTPS upstream is contacted over HTTPS only, and what is sent is the
  query itself or its padded form.\<close>

theorem forward_only_answers:
  assumes "forwardWith U L K N now req ups t n = (r, f)"
  shows "(case r of Inr resp \<Rightarrow> answers U req resp | Inl e \<Rightarrow> True) \<and> list_all (safe_contact L req (set ups)) (fw_sent f)"
  using forwardWith_ok [OF assms] by (auto split: sum.splits)

theorem forward_only_answers_witness:
  "\<exists>resp f. forwardWith ascii_only demo_dns no_url demo_net (100 * second) plain_query demo_ups demo_tracker 0 = (Inr resp, f)
     \<and> answers ascii_only plain_query resp"
proof -
  have d: "distinct demo_ups" by (simp add: demo_ups_def)
  obtain r f where f: "forwardWith ascii_only demo_dns no_url demo_net (100 * second) plain_query demo_ups demo_tracker 0 = (r, f)" by force
  obtain resp where "r = Inr resp"
    using forward_answered [OF d, of demo_net "''9.9.9.9:53''" ascii_only demo_dns no_url plain_query] demo_exchange f
    by (auto simp: demo_ups_def demo_net_def) (metis fst_conv)
  with forward_only_answers [OF f] f show ?thesis by auto
qed

text \<open>a query is answered whenever it can be: if the context does not end and some configured upstream
  would answer, then the query gets an answer, whatever the other upstreams do and whether or
  not that upstream is in its cooldown.\<close>

theorem forward_finds_answer:
  assumes "distinct ups" "\<forall>k. un_ctx N k = None" "u \<in> set ups" "\<forall>k. \<exists>resp. fst (exchange U L K N k req u) = Inr resp"
  shows "\<exists>resp. fst (forwardWith U L K N now req ups t n) = Inr resp"
  using assms by (rule forward_answered)

theorem forward_finds_answer_witness:
  "\<exists>resp. fst (forwardWith ascii_only demo_dns no_url demo_net (100 * second) plain_query demo_ups demo_tracker 0) = Inr resp"
  using forward_finds_answer [of demo_ups demo_net "''9.9.9.9:53''"] demo_exchange by (simp add: demo_ups_def demo_net_def)

end
