(* ===== verification/Query_Handler.thy ===== *)
theory Query_Handler
  imports Block_Store Response_Cache Stats_Counter Query_Log Local_Names Upstream
begin

text \<open>
  The handler of a DNS query, \<open>src/internal/dnsserver/handler.go\<close> and \<open>src/internal/dnsserver/cname.go\<close>,
  on top of the models of the components it calls. A query in flight is two atomic parts:
  \<open>serve_begin\<close> runs up to the point where the query either has its reply or holds a forward slot,
  \<open>serve_end\<close> forwards it, gives the slot back and finishes; \<open>ServeDNS\<close> is one after the other, and
  \<open>hstep\<close> interleaves the parts of any number of queries with changes of the lists. The functions of
  other packages are the record \<open>golibs\<close>, and what one query reads of the outside (clock, interface
  addresses, the fresh query ID, map orders) is \<open>query_env\<close>. The logger is an interface: the state
  holds the records that were handed to it, in order. The package-level counters and the shared
  upstream tracker are fields of the state.
\<close>

section \<open>Model\<close>

record golibs =
  lib_U :: unicode
  lib_L :: dnslib
  lib_K :: urllib
  lib_T :: iptext
  lib_AddrPort :: "string \<Rightarrow> addr option"

record query_env =
  qe_clock :: "nat \<Rightarrow> time"
  qe_addrs :: "nat \<Rightarrow> string + net_addr list"
  qe_visit :: "string list"
  qe_ord :: "tally \<Rightarrow> tally"
  qe_id :: u16

definition maxForwards :: nat where "maxForwards = 512"

record Handler =
  hd_store :: Store
  hd_counter :: Counter
  hd_upstreams :: "string list"
  hd_logged :: "Record list"
  hd_blockMode :: string
  hd_blockTTL :: u32
  hd_cache :: "Cache option"
  hd_localPTR :: bool
  hd_queryPrivacy :: string
  hd_logMode :: string
  hd_failures :: failureLog
  hd_replies :: replyLog
  hd_lan :: lanACL
  hd_upstreamIPs :: "addr list"
  hd_localDomains :: "string list"
  hd_slots :: nat
  hd_cnameInspection :: bool
  hd_refused :: nat
  hd_forwardLimited :: nat
  hd_tracker :: upstreamTracker
  hd_fallbacks :: nat

definition NewHandler :: "golibs \<Rightarrow> query_env \<Rightarrow> Store \<Rightarrow> Counter \<Rightarrow> string list \<Rightarrow> string \<Rightarrow> u32 \<Rightarrow> Cache option \<Rightarrow> bool
    \<Rightarrow> string \<Rightarrow> Handler" where
  "NewHandler G E store counter ups blockMode blockTTL c localPTR queryPrivacy =
     \<lparr>hd_store = store, hd_counter = counter, hd_upstreams = ups, hd_logged = [], hd_blockMode = blockMode,
      hd_blockTTL = blockTTL, hd_cache = c, hd_localPTR = localPTR, hd_queryPrivacy = queryPrivacy, hd_logMode = [],
      hd_failures = newFailureLog, hd_replies = newReplyLog, hd_lan = newLANACL (qe_clock E 0) (qe_addrs E 0),
      hd_upstreamIPs = map (\<lambda>u. case upstreamIP (lib_K G) (lib_T G) u of Some ip \<Rightarrow> ip | None \<Rightarrow> NoAddr) ups,
      hd_localDomains = [], hd_slots = 0, hd_cnameInspection = True,
      hd_refused = 0, hd_forwardLimited = 0, hd_tracker = newUpstreamTracker, hd_fallbacks = 0\<rparr>"

definition SetLocalDomains :: "golibs \<Rightarrow> string list \<Rightarrow> Handler \<Rightarrow> Handler" where
  "SetLocalDomains G domains h = h\<lparr>hd_localDomains := localSuffixes (lib_U G) (lib_L G) domains\<rparr>"

definition SetCNAMEInspection :: "bool \<Rightarrow> Handler \<Rightarrow> Handler" where
  "SetCNAMEInspection on h = h\<lparr>hd_cnameInspection := on\<rparr>"

definition hd_SetQueryLogMode :: "string \<Rightarrow> Handler \<Rightarrow> Handler" where
  "hd_SetQueryLogMode mode h = h\<lparr>hd_logMode := mode\<rparr>"

definition records :: "Handler \<Rightarrow> bool \<Rightarrow> bool" where
  "records h blocked =
     (if hd_logMode h = ''all'' then True else if hd_logMode h = ''blocked'' then blocked else False)"

definition tally_of :: "Handler \<Rightarrow> string \<Rightarrow> string \<Rightarrow> bool \<Rightarrow> string \<times> string" where
  "tally_of h clientIP domain blocked = (if \<not> records h blocked then ([], []) else (clientIP, domain))"

subsection \<open>Recording and replying\<close>

definition with_counter :: "(Counter \<Rightarrow> Counter) \<Rightarrow> Handler \<Rightarrow> Handler" where
  "with_counter f h = h\<lparr>hd_counter := f (hd_counter h)\<rparr>"

definition recordQuery :: "query_env \<Rightarrow> string \<Rightarrow> string \<Rightarrow> bool \<Rightarrow> Handler \<Rightarrow> Handler" where
  "recordQuery E clientIP domain blocked h =
     (case tally_of h clientIP domain blocked of (tc, td) \<Rightarrow>
        with_counter (RecordQuery (qe_ord E) (qe_clock E 4) tc td blocked) h)"

definition log_record :: "Record \<Rightarrow> Handler \<Rightarrow> Handler" where
  "log_record r h = h\<lparr>hd_logged := hd_logged h @ [r]\<rparr>"

text \<open>A \<open>Record\<close> literal that leaves the fields it does not name at their zero values.\<close>

definition zero_record :: "string \<Rightarrow> string \<Rightarrow> int \<Rightarrow> Record" where
  "zero_record clientIP domain rcode = \<lparr>rec_ClientIP = clientIP, rec_Domain = domain, rec_Blocked = False,
     rec_CacheHit = False, rec_Rcode = rcode, rec_Synthesized = False, rec_BlockSource = BlockedByName\<rparr>"

definition handler_send :: "golibs \<Rightarrow> writer \<Rightarrow> msg \<Rightarrow> msg \<Rightarrow> Handler \<Rightarrow> msg \<times> Handler" where
  "handler_send G w req resp h =
     (case send (lib_L G) w req resp (hd_replies h) of (out, replies) \<Rightarrow> (out, h\<lparr>hd_replies := replies\<rparr>))"

definition sinkhole_reply :: "dnslib \<Rightarrow> string \<Rightarrow> u32 \<Rightarrow> msg \<Rightarrow> question \<Rightarrow> msg" where
  "sinkhole_reply L blockMode blockTTL req q =
     (let resp = (SetReply L zero_msg req)\<lparr>m_Authoritative := True\<rparr> in
      if blockMode = ''nxdomain'' then SetRcode L resp req RcodeNameError
      else if q_Qtype q = TypeA then
        resp\<lparr>m_Answer := m_Answer resp @ [\<lparr>h_Name = q_Name q, h_Rrtype = TypeA, h_Class = ClassINET, h_Ttl = blockTTL,
          rr_data = RA (Addr4 0)\<rparr>]\<rparr>
      else if q_Qtype q = TypeAAAA then
        resp\<lparr>m_Answer := m_Answer resp @ [\<lparr>h_Name = q_Name q, h_Rrtype = TypeAAAA, h_Class = ClassINET, h_Ttl = blockTTL,
          rr_data = RAAAA (Addr6 0 [])\<rparr>]\<rparr>
      else resp)"

definition writeSinkhole :: "golibs \<Rightarrow> writer \<Rightarrow> msg \<Rightarrow> question \<Rightarrow> Handler \<Rightarrow> msg \<times> Handler" where
  "writeSinkhole G w req q h = handler_send G w req (sinkhole_reply (lib_L G) (hd_blockMode h) (hd_blockTTL h) req q) h"

definition writeBlocked :: "golibs \<Rightarrow> query_env \<Rightarrow> writer \<Rightarrow> msg \<Rightarrow> question \<Rightarrow> string \<Rightarrow> string \<Rightarrow> BlockSource \<Rightarrow> Handler
    \<Rightarrow> msg \<times> Handler" where
  "writeBlocked G E w req q clientIP domain source h =
     (let h1 = recordQuery E clientIP domain True h;
          h2 = (if source = BlockedByCNAME then with_counter RecordCNAMEBlocked h1 else h1);
          blockRcode = (if hd_blockMode h2 = ''nxdomain'' then RcodeNameError else RcodeSuccess);
          h3 = log_record ((zero_record clientIP domain blockRcode)\<lparr>rec_Blocked := True, rec_Synthesized := True,
                 rec_BlockSource := source\<rparr>) h2
      in writeSinkhole G w req q h3)"

definition writeRcode :: "golibs \<Rightarrow> writer \<Rightarrow> msg \<Rightarrow> int \<Rightarrow> Handler \<Rightarrow> msg \<times> Handler" where
  "writeRcode G w req rcode h = handler_send G w req (SetRcode (lib_L G) zero_msg req rcode) h"

definition nxdomain_reply :: "dnslib \<Rightarrow> msg \<Rightarrow> msg" where
  "nxdomain_reply L req = SetRcode L ((SetReply L zero_msg req)\<lparr>m_Authoritative := True\<rparr>) req RcodeNameError"

definition writeLocalNXDOMAIN :: "golibs \<Rightarrow> writer \<Rightarrow> msg \<Rightarrow> Handler \<Rightarrow> msg \<times> Handler" where
  "writeLocalNXDOMAIN G w req h = handler_send G w req (nxdomain_reply (lib_L G) req) h"

definition writeLocalhost :: "golibs \<Rightarrow> writer \<Rightarrow> msg \<Rightarrow> question \<Rightarrow> Handler \<Rightarrow> msg \<times> Handler" where
  "writeLocalhost G w req q h = handler_send G w req (localhost_reply (lib_L G) req q) h"

definition refuse :: "golibs \<Rightarrow> msg \<Rightarrow> Handler \<Rightarrow> msg \<times> Handler" where
  "refuse G req h = (refuse_reply (lib_L G) req, h\<lparr>hd_refused := hd_refused h + 1\<rparr>)"

subsection \<open>CNAME inspection\<close>

definition cname_targets :: "rr list \<Rightarrow> string list" where
  "cname_targets rs = concat (map (\<lambda>r. case rr_data r of RCNAME t \<Rightarrow> [t] | _ \<Rightarrow> []) rs)"

definition chainBlocked :: "golibs \<Rightarrow> Handler \<Rightarrow> string \<Rightarrow> msg \<Rightarrow> bool" where
  "chainBlocked G h domain resp =
     (if \<not> hd_cnameInspection h \<or> m_Rcode resp \<noteq> RcodeSuccess then False
      else if cname_targets (m_Answer resp) = [] \<or> IsAllowlisted (lib_U G) (hd_store h) domain then False
      else list_ex (IsBlocked (lib_U G) (hd_store h)) (cname_targets (m_Answer resp)))"

subsection \<open>ServeDNS\<close>

text \<open>What a query that waits for an upstream still needs: the local variables of \<open>ServeDNS\<close>.\<close>

record pending =
  pd_w :: writer
  pd_req :: msg
  pd_q :: question
  pd_clientIP :: string
  pd_domain :: string
  pd_upstreams :: "string list"

datatype begun = Answered msg | Waiting pending

definition answered :: "msg \<times> Handler \<Rightarrow> begun \<times> Handler" where
  "answered x = (Answered (fst x), snd x)"

text \<open>The branch of an unresolved query.\<close>

definition unresolved :: "golibs \<Rightarrow> query_env \<Rightarrow> writer \<Rightarrow> msg \<Rightarrow> string \<Rightarrow> string \<Rightarrow> forward_error \<Rightarrow> Handler \<Rightarrow> msg \<times> Handler" where
  "unresolved G E w req clientIP domain err h =
     (let h1 = h\<lparr>hd_failures := failureLog_record (lib_K G) err (hd_failures h)\<rparr>;
          h2 = recordQuery E clientIP domain False h1;
          h3 = with_counter (RecordForwardFailure (qe_clock E 5)) h2;
          h4 = log_record ((zero_record clientIP domain RcodeServerFailure)\<lparr>rec_Synthesized := True\<rparr>) h3
      in writeRcode G w req RcodeServerFailure h4)"

text \<open>From the cache lookup to the forward slot.\<close>

definition serve_lookup :: "golibs \<Rightarrow> query_env \<Rightarrow> writer \<Rightarrow> msg \<Rightarrow> question \<Rightarrow> string \<Rightarrow> string \<Rightarrow> string list \<Rightarrow> Handler
    \<Rightarrow> begun \<times> Handler" where
  "serve_lookup G E w req q clientIP domain ups h0 =
     (case (case hd_cache h0 of
              None \<Rightarrow> (h0, None)
            | Some c \<Rightarrow> (case cache_Get (lib_L G) c req (qe_clock E 2) (qe_clock E 3) of
                          (c', r) \<Rightarrow> (h0\<lparr>hd_cache := Some c'\<rparr>, r))) of
        (h, Some cached) \<Rightarrow>
          if chainBlocked G h domain cached then answered (writeBlocked G E w req q clientIP domain BlockedByCNAME h)
          else
            let h1 = recordQuery E clientIP domain False h;
                h2 = with_counter (RecordCacheHit (qe_clock E 5)) h1;
                h3 = log_record ((zero_record clientIP domain (m_Rcode cached))\<lparr>rec_CacheHit := True\<rparr>) h2
            in answered (handler_send G w req cached h3)
      | (h, None) \<Rightarrow>
          if hd_slots h < maxForwards then
            (Waiting \<lparr>pd_w = w, pd_req = req, pd_q = q, pd_clientIP = clientIP, pd_domain = domain, pd_upstreams = ups\<rparr>,
             h\<lparr>hd_slots := hd_slots h + 1\<rparr>)
          else answered (unresolved G E w req clientIP domain ErrForwardLimit (h\<lparr>hd_forwardLimited := hd_forwardLimited h + 1\<rparr>)))"

text \<open>From the name classes to the cache.\<close>

definition serve_name :: "golibs \<Rightarrow> query_env \<Rightarrow> writer \<Rightarrow> msg \<Rightarrow> question \<Rightarrow> string \<Rightarrow> string \<Rightarrow> Handler \<Rightarrow> begun \<times> Handler" where
  "serve_name G E w req q clientIP domain h0 =
     (let class = classify (lib_L G) (q_Qtype q) domain (hd_localDomains h0) in
      case (if class = lanOnlyName
            then (case lanUpstreams (qe_clock E 1) (qe_addrs E 1) (zip (hd_upstreams h0) (hd_upstreamIPs h0)) (hd_lan h0) of
                    (us, a) \<Rightarrow> (us, h0\<lparr>hd_lan := a\<rparr>))
            else (hd_upstreams h0, h0)) of
        (ups, h) \<Rightarrow>
          if class = localhostName \<or> class = neverResolved \<or> (class = lanOnlyName \<and> ups = []) then
            let h1 = recordQuery E clientIP domain False h;
                h2 = with_counter RecordLocalName h1
            in if class = localhostName
               then answered (writeLocalhost G w req q
                      (log_record ((zero_record clientIP domain RcodeSuccess)\<lparr>rec_Synthesized := True\<rparr>) h2))
               else answered (writeLocalNXDOMAIN G w req
                      (log_record ((zero_record clientIP domain RcodeNameError)\<lparr>rec_Synthesized := True\<rparr>) h2))
          else if IsBlocked (lib_U G) (hd_store h) domain
          then answered (writeBlocked G E w req q clientIP domain BlockedByName h)
          else serve_lookup G E w req q clientIP domain ups h)"

text \<open>The reverse lookups that are answered locally; a look at the own prefixes may refresh them.\<close>

definition local_ptr :: "golibs \<Rightarrow> query_env \<Rightarrow> u16 \<Rightarrow> string \<Rightarrow> Handler \<Rightarrow> bool \<times> Handler" where
  "local_ptr G E qtype domain h =
     (if \<not> hd_localPTR h then (False, h)
      else if isPrivatePTR (lib_U G) (lib_L G) qtype domain then (True, h)
      else (case ownPrefixPTR (qe_clock E 1) (qe_addrs E 1) (hd_lan h) qtype domain of
              (b, a) \<Rightarrow> (b, h\<lparr>hd_lan := a\<rparr>)))"

definition serve_begin :: "golibs \<Rightarrow> query_env \<Rightarrow> writer \<Rightarrow> msg \<Rightarrow> Handler \<Rightarrow> begun \<times> Handler" where
  "serve_begin G E w req h0 =
     (let ip = WithoutZone (Unmap (remoteIP (lib_AddrPort G) (w_remote w)));
          (allowed, a) = (if \<not> IsValid ip then (False, hd_lan h0) else lan_allows (qe_clock E 0) (qe_addrs E 0) (hd_lan h0) ip);
          h = h0\<lparr>hd_lan := a\<rparr>
      in if \<not> allowed then answered (refuse G req h)
         else if length (m_Question req) \<noteq> 1 then answered (writeRcode G w req RcodeServerFailure h)
         else if m_Opcode req \<noteq> OpcodeQuery then answered (writeRcode G w req RcodeNotImplemented h)
         else if \<not> m_RecursionDesired req then answered (writeRcode G w req RcodeRefused h)
         else
           let q = m_Question req ! 0;
               domain = ToLower (lib_U G) (q_Name q);
               clientIP = MaskClientIP (lib_T G) (AddrString (lib_T G) ip) (hd_queryPrivacy h)
           in case local_ptr G E (q_Qtype q) domain h of
                (True, h1) \<Rightarrow>
                  let h2 = recordQuery E clientIP domain False h1;
                      h3 = with_counter RecordLocalPTR h2;
                      h4 = log_record ((zero_record clientIP domain RcodeNameError)\<lparr>rec_Synthesized := True\<rparr>) h3
                  in answered (writeLocalNXDOMAIN G w req h4)
              | (False, h1) \<Rightarrow> serve_name G E w req q clientIP domain h1)"

text \<open>The forward with its slot, and everything after it; also the packets sent.\<close>

definition relay :: "golibs \<Rightarrow> query_env \<Rightarrow> pending \<Rightarrow> msg \<Rightarrow> Handler \<Rightarrow> msg \<times> Handler" where
  "relay G E p resp0 h =
     (let resp = stripOPT resp0;
          h1 = (case hd_cache h of
                  None \<Rightarrow> h
                | Some c \<Rightarrow> h\<lparr>hd_cache := Some (cache_Set (lib_L G) c (pd_req p) resp (qe_clock E 6) (qe_visit E))\<rparr>)
      in if chainBlocked G h1 (pd_domain p) resp
         then writeBlocked G E (pd_w p) (pd_req p) (pd_q p) (pd_clientIP p) (pd_domain p) BlockedByCNAME h1
         else
           let h2 = recordQuery E (pd_clientIP p) (pd_domain p) False h1;
               h3 = (if m_Rcode resp = RcodeServerFailure \<or> m_Rcode resp = RcodeRefused
                     then with_counter (RecordUpstreamError (qe_clock E 5)) h2 else h2);
               h4 = log_record (zero_record (pd_clientIP p) (pd_domain p) (m_Rcode resp)) h3
           in handler_send G (pd_w p) (pd_req p) resp h4)"

definition serve_end :: "golibs \<Rightarrow> query_env \<Rightarrow> upnet \<Rightarrow> pending \<Rightarrow> Handler \<Rightarrow> (msg \<times> Handler) \<times> contact list" where
  "serve_end G E N p h =
     (case forwardWith (lib_U G) (lib_L G) (lib_K G) N (qe_clock E 2) (upstreamQuery (lib_L G) (qe_id E) (pd_req p))
             (pd_upstreams p) (hd_tracker h) (hd_fallbacks h) of
        (r, f) \<Rightarrow>
          let h1 = h\<lparr>hd_tracker := fw_tracker f, hd_fallbacks := fw_fallbacks f, hd_slots := hd_slots h - 1\<rparr>
          in (case r of
                Inl err \<Rightarrow> unresolved G E (pd_w p) (pd_req p) (pd_clientIP p) (pd_domain p) err h1
              | Inr resp \<Rightarrow> relay G E p resp h1,
              fw_sent f))"

definition ServeDNS :: "golibs \<Rightarrow> query_env \<Rightarrow> query_env \<Rightarrow> upnet \<Rightarrow> writer \<Rightarrow> msg \<Rightarrow> Handler \<Rightarrow> (msg \<times> Handler) \<times> contact list" where
  "ServeDNS G E E' N w req h =
     (case serve_begin G E w req h of
        (Answered out, h') \<Rightarrow> ((out, h'), [])
      | (Waiting p, h') \<Rightarrow> serve_end G E' N p h')"

section \<open>Lemmas\<close>

subsection \<open>What each step leaves alone\<close>

text \<open>The configuration of a handler, which no query changes.\<close>

definition same_config :: "Handler \<Rightarrow> Handler \<Rightarrow> bool" where
  "same_config h h' \<longleftrightarrow> hd_store h' = hd_store h \<and> hd_upstreams h' = hd_upstreams h \<and> hd_blockMode h' = hd_blockMode h
     \<and> hd_blockTTL h' = hd_blockTTL h \<and> hd_localPTR h' = hd_localPTR h \<and> hd_queryPrivacy h' = hd_queryPrivacy h
     \<and> hd_logMode h' = hd_logMode h \<and> hd_upstreamIPs h' = hd_upstreamIPs h \<and> hd_localDomains h' = hd_localDomains h
     \<and> hd_cnameInspection h' = hd_cnameInspection h"

lemma same_config_refl [simp]: "same_config h h"
  by (simp add: same_config_def)

lemma same_config_trans: "same_config h h1 \<Longrightarrow> same_config h1 h2 \<Longrightarrow> same_config h h2"
  by (simp add: same_config_def)

text \<open>The traces of one query: one run of a script on the counter and one record. \<open>counted\<close> is the
  abstract view of a query that was answered to a LAN client: exactly one outcome, and the names
  that reach the tallies and the logger are the masked client and the name, or nothing.\<close>

definition outcome_record :: "outcome \<Rightarrow> Record \<Rightarrow> bool" where
  "outcome_record oc r \<longleftrightarrow>
     rec_Blocked r = (oc = OBlocked \<or> oc = OCname) \<and> rec_CacheHit r = (oc = OHit)
     \<and> rec_Unresolved r = (oc = OFailed) \<and> rec_UpstreamError r = (oc = OError)
     \<and> rec_Synthesized r = (oc \<notin> {OForwarded, OHit, OError}) \<and> (rec_Blocked r \<and> rec_BlockSource r = BlockedByCNAME) = (oc = OCname)"

text \<open>The cache holds successful replies only.\<close>

definition clean_cache :: "Handler \<Rightarrow> bool" where
  "clean_cache h \<longleftrightarrow> (case hd_cache h of None \<Rightarrow> True
     | Some c \<Rightarrow> \<forall>k e. map_of (c_entries c) k = Some e \<longrightarrow> m_Rcode (e_msg e) = RcodeSuccess)"

definition counted :: "query_env \<Rightarrow> string \<Rightarrow> string \<Rightarrow> Handler \<Rightarrow> outcome \<Rightarrow> Handler \<Rightarrow> bool" where
  "counted E cl dm h oc h' \<longleftrightarrow>
     (\<exists>r. hd_logged h' = hd_logged h @ [r] \<and> rec_ClientIP r = cl \<and> rec_Domain r = dm \<and> outcome_record oc r)
     \<and> hd_counter h' = (let (tc, td) = tally_of h cl dm (oc = OBlocked \<or> oc = OCname) in
          fold (micro_sem (qe_ord E)) (script oc tc td (qe_clock E 4) (qe_clock E 5)) (hd_counter h))"

lemma send_frame [simp]:
  "hd_counter (snd (handler_send G w req resp h)) = hd_counter h" "hd_logged (snd (handler_send G w req resp h)) = hd_logged h"
  "hd_slots (snd (handler_send G w req resp h)) = hd_slots h" "hd_cache (snd (handler_send G w req resp h)) = hd_cache h"
  "hd_lan (snd (handler_send G w req resp h)) = hd_lan h" "same_config h' (snd (handler_send G w req resp h)) = same_config h' h"
  "hd_tracker (snd (handler_send G w req resp h)) = hd_tracker h"
  by (simp_all add: handler_send_def same_config_def split: prod.splits)

lemma fst_send: "fst (handler_send G w req resp h) = finish_reply (lib_L G) w req resp"
  by (simp add: handler_send_def send_def)

lemma recordQuery_frame [simp]:
  "hd_logged (recordQuery E c d b h) = hd_logged h" "hd_slots (recordQuery E c d b h) = hd_slots h"
  "hd_cache (recordQuery E c d b h) = hd_cache h" "hd_lan (recordQuery E c d b h) = hd_lan h"
  "same_config h' (recordQuery E c d b h) = same_config h' h" "hd_replies (recordQuery E c d b h) = hd_replies h"
  "hd_blockMode (recordQuery E c d b h) = hd_blockMode h" "hd_blockTTL (recordQuery E c d b h) = hd_blockTTL h"
  "hd_tracker (recordQuery E c d b h) = hd_tracker h"
  by (simp_all add: recordQuery_def with_counter_def same_config_def split: prod.splits)

lemma with_counter_frame [simp]:
  "hd_logged (with_counter f h) = hd_logged h" "hd_slots (with_counter f h) = hd_slots h" "hd_cache (with_counter f h) = hd_cache h"
  "hd_lan (with_counter f h) = hd_lan h" "same_config h' (with_counter f h) = same_config h' h"
  "hd_counter (with_counter f h) = f (hd_counter h)" "hd_blockMode (with_counter f h) = hd_blockMode h"
  "hd_blockTTL (with_counter f h) = hd_blockTTL h" "hd_tracker (with_counter f h) = hd_tracker h"
  by (simp_all add: with_counter_def same_config_def)

lemma log_record_frame [simp]:
  "hd_logged (log_record r h) = hd_logged h @ [r]" "hd_slots (log_record r h) = hd_slots h" "hd_cache (log_record r h) = hd_cache h"
  "hd_lan (log_record r h) = hd_lan h" "same_config h' (log_record r h) = same_config h' h"
  "hd_counter (log_record r h) = hd_counter h" "hd_blockMode (log_record r h) = hd_blockMode h"
  "hd_blockTTL (log_record r h) = hd_blockTTL h" "hd_tracker (log_record r h) = hd_tracker h"
  by (simp_all add: log_record_def same_config_def)

lemma update_frame [simp]:
  "same_config h' (h\<lparr>hd_failures := f\<rparr>) = same_config h' h" "same_config h' (h\<lparr>hd_lan := a\<rparr>) = same_config h' h"
  "same_config h' (h\<lparr>hd_cache := c\<rparr>) = same_config h' h" "same_config h' (h\<lparr>hd_slots := n\<rparr>) = same_config h' h"
  "same_config h' (h\<lparr>hd_forwardLimited := n\<rparr>) = same_config h' h" "same_config h' (h\<lparr>hd_refused := n\<rparr>) = same_config h' h"
  "same_config h' (h\<lparr>hd_tracker := t\<rparr>) = same_config h' h" "same_config h' (h\<lparr>hd_fallbacks := n\<rparr>) = same_config h' h"
  by (simp_all add: same_config_def)

lemma tally_of_frame:
  "same_config h h' \<Longrightarrow> tally_of h' c d b = tally_of h c d b"
  by (simp add: tally_of_def records_def same_config_def)

text \<open>Every branch that answers, by its outcome. The counter before is that of \<open>h0\<close>.\<close>

lemma record_script:
  "hd_counter h = hd_counter h0 \<Longrightarrow> same_config h0 h \<Longrightarrow> b = (oc = OBlocked \<or> oc = OCname) \<Longrightarrow>
     fold (micro_sem (qe_ord E)) (outcome_steps oc (qe_clock E 5)) (hd_counter (recordQuery E cl dm b h)) =
     (let (tc, td) = tally_of h0 cl dm (oc = OBlocked \<or> oc = OCname) in
        fold (micro_sem (qe_ord E)) (script oc tc td (qe_clock E 4) (qe_clock E 5)) (hd_counter h0))"
  unfolding recordQuery_def script_RecordQuery by (simp add: tally_of_frame split: prod.splits)

text \<open>\<open>untouched\<close>: nothing was counted or logged yet.\<close>

definition untouched :: "Handler \<Rightarrow> Handler \<Rightarrow> bool" where
  "untouched h h' \<longleftrightarrow> hd_counter h' = hd_counter h \<and> hd_logged h' = hd_logged h \<and> same_config h h'"

lemma untouched_refl [simp]: "untouched h h"
  by (simp add: untouched_def)

lemma untouched_update [simp]:
  "untouched h (h'\<lparr>hd_failures := f\<rparr>) = untouched h h'" "untouched h (h'\<lparr>hd_lan := a\<rparr>) = untouched h h'"
  "untouched h (h'\<lparr>hd_cache := c\<rparr>) = untouched h h'" "untouched h (h'\<lparr>hd_slots := n\<rparr>) = untouched h h'"
  "untouched h (h'\<lparr>hd_forwardLimited := n\<rparr>) = untouched h h'" "untouched h (h'\<lparr>hd_refused := n\<rparr>) = untouched h h'"
  "untouched h (h'\<lparr>hd_tracker := t\<rparr>) = untouched h h'" "untouched h (h'\<lparr>hd_fallbacks := n\<rparr>) = untouched h h'"
  by (simp_all add: untouched_def)

lemma countedI:
  assumes "untouched h0 h" "b = (oc = OBlocked \<or> oc = OCname)"
    and "hd_counter h' = fold (micro_sem (qe_ord E)) (outcome_steps oc (qe_clock E 5)) (hd_counter (recordQuery E cl dm b h))"
    and "hd_logged h' = hd_logged h @ [r]" "rec_ClientIP r = cl" "rec_Domain r = dm" "outcome_record oc r"
  shows "counted E cl dm h0 oc h'"
  using assms record_script [of h h0 b oc E cl dm] by (auto simp: counted_def untouched_def)

lemmas outcome_simps = outcome_record_def zero_record_def rec_Unresolved_def rec_UpstreamError_def isUnresolved_def
  isUpstreamError_def dns_numbers

lemma counted_blocked:
  assumes "untouched h0 h" "src = BlockedByName \<or> src = BlockedByCNAME"
  shows "counted E cl dm h0 (if src = BlockedByCNAME then OCname else OBlocked) (snd (writeBlocked G E w req q cl dm src h))"
proof -
  let ?rc = "if hd_blockMode h = ''nxdomain'' then RcodeNameError else RcodeSuccess"
  let ?r = "(zero_record cl dm ?rc)\<lparr>rec_Blocked := True, rec_Synthesized := True, rec_BlockSource := src\<rparr>"
  have "hd_logged (snd (writeBlocked G E w req q cl dm src h)) = hd_logged h @ [?r]"
    by (simp add: writeBlocked_def writeSinkhole_def Let_def)
  moreover have "hd_counter (snd (writeBlocked G E w req q cl dm src h)) =
      fold (micro_sem (qe_ord E)) (outcome_steps (if src = BlockedByCNAME then OCname else OBlocked) (qe_clock E 5))
        (hd_counter (recordQuery E cl dm True h))"
    by (simp add: writeBlocked_def writeSinkhole_def Let_def)
  ultimately show ?thesis
    using assms(2) by (intro countedI [OF assms(1), where b = True and r = ?r]) (auto simp: outcome_simps)
qed

lemma counted_unresolved:
  "untouched h0 h \<Longrightarrow> counted E cl dm h0 OFailed (snd (unresolved G E w req cl dm err h))"
  by (rule countedI [where h = "h\<lparr>hd_failures := failureLog_record (lib_K G) err (hd_failures h)\<rparr>" and b = False])
    (auto simp: unresolved_def writeRcode_def Let_def outcome_simps)

lemma counted_hit:
  "untouched h0 h \<Longrightarrow> counted E cl dm h0 OHit (snd (handler_send G w req m
     (log_record ((zero_record cl dm RcodeSuccess)\<lparr>rec_CacheHit := True\<rparr>) (with_counter (RecordCacheHit (qe_clock E 5)) (recordQuery E cl dm False h)))))"
  by (erule countedI [where b = False]) (auto simp: outcome_simps)

lemma counted_local:
  "untouched h0 h \<Longrightarrow> (oc, f) \<in> {(OName, RecordLocalName), (OPtr, RecordLocalPTR)} \<Longrightarrow> rc \<in> {RcodeSuccess, RcodeNameError} \<Longrightarrow>
     counted E cl dm h0 oc (snd (handler_send G w req m
     (log_record ((zero_record cl dm rc)\<lparr>rec_Synthesized := True\<rparr>) (with_counter f (recordQuery E cl dm False h)))))"
  by (erule countedI [where b = False]) (auto simp: outcome_simps)

lemma counted_relay:
  assumes "untouched h0 h"
  shows "\<exists>oc \<in> {OCname, OError, OForwarded}. counted E (pd_clientIP p) (pd_domain p) h0 oc (snd (relay G E p resp h))"
proof -
  let ?m = "stripOPT resp"
  let ?h1 = "case hd_cache h of None \<Rightarrow> h
     | Some c \<Rightarrow> h\<lparr>hd_cache := Some (cache_Set (lib_L G) c (pd_req p) ?m (qe_clock E 6) (qe_visit E))\<rparr>"
  have u: "untouched h0 ?h1" using assms by (simp split: option.splits)
  show ?thesis
  proof (cases "chainBlocked G ?h1 (pd_domain p) ?m")
    case True
    then show ?thesis using counted_blocked [OF u, of BlockedByCNAME] by (auto simp: relay_def Let_def)
  next
    case False
    show ?thesis
    proof (cases "m_Rcode ?m = RcodeServerFailure \<or> m_Rcode ?m = RcodeRefused")
      case True
      then have "counted E (pd_clientIP p) (pd_domain p) h0 OError (snd (relay G E p resp h))"
        using False by (intro countedI [OF u, where b = False]) (auto simp: relay_def Let_def outcome_simps)
      then show ?thesis by blast
    next
      case f: False
      then have "counted E (pd_clientIP p) (pd_domain p) h0 OForwarded (snd (relay G E p resp h))"
        using False by (intro countedI [OF u, where b = False]) (auto simp: relay_def Let_def outcome_simps)
      then show ?thesis by blast
    qed
  qed
qed

lemma counted_end:
  assumes "untouched h0 h" "serve_end G E N p h = ((out, h'), cs)"
  shows "\<exists>oc \<in> {OCname, OError, OForwarded, OFailed}. counted E (pd_clientIP p) (pd_domain p) h0 oc h'"
proof -
  obtain r f where f: "forwardWith (lib_U G) (lib_L G) (lib_K G) N (qe_clock E 2) (upstreamQuery (lib_L G) (qe_id E) (pd_req p))
             (pd_upstreams p) (hd_tracker h) (hd_fallbacks h) = (r, f)" by force
  let ?h = "h\<lparr>hd_tracker := fw_tracker f, hd_fallbacks := fw_fallbacks f, hd_slots := hd_slots h - 1\<rparr>"
  have u: "untouched h0 ?h" using assms(1) by simp
  show ?thesis
  proof (cases r)
    case (Inl err)
    then have "h' = snd (unresolved G E (pd_w p) (pd_req p) (pd_clientIP p) (pd_domain p) err ?h)"
      using assms(2) f by (auto simp: serve_end_def Let_def)
    then show ?thesis using counted_unresolved [OF u] by blast
  next
    case (Inr resp)
    then have "h' = snd (relay G E p resp ?h)" using assms(2) f by (auto simp: serve_end_def Let_def)
    then show ?thesis using counted_relay [OF u] by blast
  qed
qed

subsection \<open>The two parts of a query\<close>

text \<open>Where a query may end up after its first part.\<close>

definition began :: "query_env \<Rightarrow> string \<Rightarrow> string \<Rightarrow> Handler \<Rightarrow> begun \<times> Handler \<Rightarrow> bool" where
  "began E cl dm h x \<longleftrightarrow> (case fst x of
       Answered out \<Rightarrow> \<exists>oc \<in> {OBlocked, OCname, OPtr, OName, OHit, OFailed}. counted E cl dm h oc (snd x)
     | Waiting p \<Rightarrow> untouched h (snd x) \<and> pd_clientIP p = cl \<and> pd_domain p = dm)"

lemma began_answered: "counted E cl dm h oc (snd x) \<Longrightarrow> oc \<in> {OBlocked, OCname, OPtr, OName, OHit, OFailed} \<Longrightarrow> began E cl dm h (answered x)"
  by (auto simp: began_def answered_def)

lemma began_lookup: "untouched h0 h \<Longrightarrow> clean_cache h \<Longrightarrow> began E cl dm h0 (serve_lookup G E w req q cl dm ups h)"
proof -
  assume u0: "untouched h0 h" and clean: "clean_cache h"
  obtain h1 r where x: "(case hd_cache h of None \<Rightarrow> (h, None)
       | Some c \<Rightarrow> (case cache_Get (lib_L G) c req (qe_clock E 2) (qe_clock E 3) of (c', r) \<Rightarrow> (h\<lparr>hd_cache := Some c'\<rparr>, r))) = (h1, r)" by force
  have u: "untouched h0 h1" using u0 x by (auto split: option.splits prod.splits)
  have e: "serve_lookup G E w req q cl dm ups h = (case (h1, r) of
        (h, Some cached) \<Rightarrow>
          if chainBlocked G h dm cached then answered (writeBlocked G E w req q cl dm BlockedByCNAME h)
          else
            let h1 = recordQuery E cl dm False h;
                h2 = with_counter (RecordCacheHit (qe_clock E 5)) h1;
                h3 = log_record ((zero_record cl dm (m_Rcode cached))\<lparr>rec_CacheHit := True\<rparr>) h2
            in answered (handler_send G w req cached h3)
      | (h, None) \<Rightarrow>
          if hd_slots h < maxForwards then
            (Waiting \<lparr>pd_w = w, pd_req = req, pd_q = q, pd_clientIP = cl, pd_domain = dm, pd_upstreams = ups\<rparr>,
             h\<lparr>hd_slots := hd_slots h + 1\<rparr>)
          else answered (unresolved G E w req cl dm ErrForwardLimit (h\<lparr>hd_forwardLimited := hd_forwardLimited h + 1\<rparr>)))"
    unfolding serve_lookup_def x ..
  have l: "untouched h0 (h1\<lparr>hd_forwardLimited := n\<rparr>)" for n using u by simp
  show ?thesis
  proof (cases r)
    case None
    then show ?thesis unfolding e using counted_unresolved [OF l] u by (auto simp: began_def answered_def)
  next
    case (Some m)
    have rc: "m_Rcode m = RcodeSuccess"
      using x clean Some by (auto simp: clean_cache_def cache_Get_def decrementTTLs_def split: option.splits prod.splits if_splits)
    show ?thesis unfolding e Some prod.case option.case Let_def rc
      using began_answered [OF counted_hit [OF u]] began_answered [OF counted_blocked [OF u, of BlockedByCNAME]] by simp
  qed
qed

lemma clean_cache_cong: "hd_cache h = hd_cache h' \<Longrightarrow> clean_cache h = clean_cache h'"
  by (simp add: clean_cache_def)

lemma began_name: "untouched h0 h \<Longrightarrow> clean_cache h \<Longrightarrow> began E cl dm h0 (serve_name G E w req q cl dm h)"
proof -
  assume u0: "untouched h0 h" and c0: "clean_cache h"
  let ?c = "classify (lib_L G) (q_Qtype q) dm (hd_localDomains h)"
  obtain ups h1 where x: "(if ?c = lanOnlyName
            then (case lanUpstreams (qe_clock E 1) (qe_addrs E 1) (zip (hd_upstreams h) (hd_upstreamIPs h)) (hd_lan h) of
                    (us, a) \<Rightarrow> (us, h\<lparr>hd_lan := a\<rparr>))
            else (hd_upstreams h, h)) = (ups, h1)" by force
  have u: "untouched h0 h1" using u0 x by (auto split: if_splits prod.splits)
  have "hd_cache h1 = hd_cache h" using x by (auto split: if_splits prod.splits)
  then have c: "clean_cache h1" using c0 clean_cache_cong by blast
  show ?thesis unfolding serve_name_def Let_def x prod.case writeLocalhost_def writeLocalNXDOMAIN_def
    using began_answered [OF counted_local [OF u, of OName RecordLocalName]]
      began_answered [OF counted_blocked [OF u, of BlockedByName]] began_lookup [OF u c] by simp
qed

lemma local_ptr_untouched: "untouched h0 h \<Longrightarrow> untouched h0 (snd (local_ptr G E qt dm h))"
  by (auto simp: local_ptr_def split: prod.splits)

text \<open>The source address as \<open>ServeDNS\<close> sees it, and the two names under which a query is recorded.\<close>

definition client_addr :: "golibs \<Rightarrow> writer \<Rightarrow> addr" where
  "client_addr G w = WithoutZone (Unmap (remoteIP (lib_AddrPort G) (w_remote w)))"

definition client_name :: "golibs \<Rightarrow> writer \<Rightarrow> Handler \<Rightarrow> string" where
  "client_name G w h = MaskClientIP (lib_T G) (AddrString (lib_T G) (client_addr G w)) (hd_queryPrivacy h)"

definition query_name :: "golibs \<Rightarrow> msg \<Rightarrow> string" where
  "query_name G req = ToLower (lib_U G) (q_Name (m_Question req ! 0))"

definition on_lan :: "golibs \<Rightarrow> query_env \<Rightarrow> writer \<Rightarrow> Handler \<Rightarrow> bool" where
  "on_lan G E w h \<longleftrightarrow> IsValid (client_addr G w) \<and> fst (lan_allows (qe_clock E 0) (qe_addrs E 0) (hd_lan h) (client_addr G w))"

definition well_formed :: "msg \<Rightarrow> bool" where
  "well_formed req \<longleftrightarrow> length (m_Question req) = 1 \<and> m_Opcode req = OpcodeQuery \<and> m_RecursionDesired req"

definition lan_after :: "golibs \<Rightarrow> query_env \<Rightarrow> writer \<Rightarrow> Handler \<Rightarrow> Handler" where
  "lan_after G E w h = h\<lparr>hd_lan := (if IsValid (client_addr G w)
     then snd (lan_allows (qe_clock E 0) (qe_addrs E 0) (hd_lan h) (client_addr G w)) else hd_lan h)\<rparr>"

lemma serve_begin_unfold:
  "serve_begin G E w req h =
     (let h1 = lan_after G E w h in
      if \<not> on_lan G E w h then answered (refuse G req h1)
      else if length (m_Question req) \<noteq> 1 then answered (writeRcode G w req RcodeServerFailure h1)
      else if m_Opcode req \<noteq> OpcodeQuery then answered (writeRcode G w req RcodeNotImplemented h1)
      else if \<not> m_RecursionDesired req then answered (writeRcode G w req RcodeRefused h1)
      else (case local_ptr G E (q_Qtype (m_Question req ! 0)) (query_name G req) h1 of
              (True, h2) \<Rightarrow> answered (writeLocalNXDOMAIN G w req
                 (log_record ((zero_record (client_name G w h) (query_name G req) RcodeNameError)\<lparr>rec_Synthesized := True\<rparr>)
                   (with_counter RecordLocalPTR (recordQuery E (client_name G w h) (query_name G req) False h2))))
            | (False, h2) \<Rightarrow> serve_name G E w req (m_Question req ! 0) (client_name G w h) (query_name G req) h2))"
  by (simp add: serve_begin_def Let_def client_addr_def [symmetric] on_lan_def lan_after_def client_name_def query_name_def
      split: prod.splits bool.splits)

lemma untouched_lan_after [simp]: "untouched h (lan_after G E w h)"
  by (simp add: lan_after_def)

lemma began_begin:
  assumes "on_lan G E w h" "well_formed req" "clean_cache h"
  shows "began E (client_name G w h) (query_name G req) h (serve_begin G E w req h)"
proof -
  obtain b h2 where p: "local_ptr G E (q_Qtype (m_Question req ! 0)) (query_name G req) (lan_after G E w h) = (b, h2)" by force
  have u: "untouched h h2" using local_ptr_untouched [OF untouched_lan_after] p by (metis snd_conv)
  have "hd_cache h2 = hd_cache h" using p by (auto simp: local_ptr_def lan_after_def split: if_splits prod.splits)
  then have c: "clean_cache h2" using assms(3) clean_cache_cong by blast
  show ?thesis
    using assms p began_name [OF u c] began_answered [OF counted_local [OF u, of OPtr RecordLocalPTR]]
    by (cases b) (simp_all add: serve_begin_unfold Let_def well_formed_def writeLocalNXDOMAIN_def)
qed

lemma begin_uncounted:
  assumes "\<not> (on_lan G E w h \<and> well_formed req)"
  shows "\<exists>out h'. serve_begin G E w req h = (Answered out, h') \<and> untouched h h' \<and> hd_cache h' = hd_cache h \<and> hd_slots h' = hd_slots h
     \<and> hd_tracker h' = hd_tracker h"
  using assms by (auto simp: serve_begin_unfold Let_def well_formed_def answered_def writeRcode_def refuse_def untouched_def lan_after_def)

text \<open>A query that is left waiting passed every check, and knows the upstreams it may ask.\<close>

lemma lookup_waiting:
  assumes "serve_lookup G E w req q cl dm ups h = (Waiting p, h')"
  shows "p = \<lparr>pd_w = w, pd_req = req, pd_q = q, pd_clientIP = cl, pd_domain = dm, pd_upstreams = ups\<rparr>
     \<and> hd_slots h < maxForwards \<and> hd_slots h' = hd_slots h + 1 \<and> hd_lan h' = hd_lan h \<and> hd_tracker h' = hd_tracker h"
  using assms by (auto simp: serve_lookup_def answered_def Let_def split: option.splits prod.splits if_splits)

lemma lookup_slots:
  assumes "serve_lookup G E w req q cl dm ups h = (Answered out, h')"
  shows "hd_slots h' = hd_slots h"
  using assms by (auto simp: serve_lookup_def answered_def Let_def unresolved_def writeBlocked_def writeSinkhole_def writeRcode_def
      split: option.splits prod.splits if_splits)

definition allowed_upstreams :: "golibs \<Rightarrow> query_env \<Rightarrow> msg \<Rightarrow> Handler \<Rightarrow> string list" where
  "allowed_upstreams G E req h =
     (if classify (lib_L G) (q_Qtype (m_Question req ! 0)) (query_name G req) (hd_localDomains h) = lanOnlyName
      then fst (lanUpstreams (qe_clock E 1) (qe_addrs E 1) (zip (hd_upstreams h) (hd_upstreamIPs h)) (hd_lan h))
      else hd_upstreams h)"

lemma name_waiting:
  assumes "serve_name G E w req (m_Question req ! 0) cl (query_name G req) h = (Waiting p, h')"
  shows "pd_req p = req \<and> pd_w p = w \<and> pd_domain p = query_name G req \<and> pd_upstreams p = allowed_upstreams G E req h \<and> hd_slots h < maxForwards \<and> hd_slots h' = hd_slots h + 1
     \<and> classify (lib_L G) (q_Qtype (m_Question req ! 0)) (query_name G req) (hd_localDomains h) \<in> {publicName, lanOnlyName}
     \<and> \<not> IsBlocked (lib_U G) (hd_store h) (query_name G req)"
proof -
  let ?c = "classify (lib_L G) (q_Qtype (m_Question req ! 0)) (query_name G req) (hd_localDomains h)"
  obtain ups h1 where x: "(if ?c = lanOnlyName
            then (case lanUpstreams (qe_clock E 1) (qe_addrs E 1) (zip (hd_upstreams h) (hd_upstreamIPs h)) (hd_lan h) of
                    (us, a) \<Rightarrow> (us, h\<lparr>hd_lan := a\<rparr>))
            else (hd_upstreams h, h)) = (ups, h1)" by force
  have h1: "hd_store h1 = hd_store h" "hd_slots h1 = hd_slots h" "ups = allowed_upstreams G E req h"
    using x by (auto simp: allowed_upstreams_def split: if_splits prod.splits)
  have l: "serve_lookup G E w req (m_Question req ! 0) cl (query_name G req) ups h1 = (Waiting p, h')"
    and c: "?c \<noteq> localhostName" "?c \<noteq> neverResolved" and b: "\<not> IsBlocked (lib_U G) (hd_store h1) (query_name G req)"
    using assms unfolding serve_name_def Let_def x prod.case by (auto simp: answered_def split: if_splits)
  have "?c \<in> {publicName, lanOnlyName}" using c by (cases ?c) auto
  then show ?thesis using lookup_waiting [OF l] b h1 by simp
qed

lemma name_slots:
  assumes "serve_name G E w req q cl dm h = (Answered out, h')"
  shows "hd_slots h' = hd_slots h"
proof -
  let ?c = "classify (lib_L G) (q_Qtype q) dm (hd_localDomains h)"
  obtain ups h1 where x: "(if ?c = lanOnlyName
            then (case lanUpstreams (qe_clock E 1) (qe_addrs E 1) (zip (hd_upstreams h) (hd_upstreamIPs h)) (hd_lan h) of
                    (us, a) \<Rightarrow> (us, h\<lparr>hd_lan := a\<rparr>))
            else (hd_upstreams h, h)) = (ups, h1)" by force
  have "hd_slots h1 = hd_slots h" using x by (auto split: if_splits prod.splits)
  then show ?thesis
    using assms lookup_slots [of G E w req q cl dm ups h1 out h'] unfolding serve_name_def Let_def x prod.case
    by (auto simp: answered_def writeLocalhost_def writeLocalNXDOMAIN_def writeBlocked_def writeSinkhole_def Let_def split: if_splits)
qed

lemma local_ptr_frame:
  "hd_slots (snd (local_ptr G E qt dm h)) = hd_slots h" "same_config h (snd (local_ptr G E qt dm h))"
  "\<not> fst (local_ptr G E qt dm h) \<Longrightarrow> hd_localPTR h \<Longrightarrow> \<not> isPrivatePTR (lib_U G) (lib_L G) qt dm"
  by (auto simp: local_ptr_def split: prod.splits if_splits)

lemma lan_after_frame [simp]:
  "hd_slots (lan_after G E w h) = hd_slots h" "same_config h (lan_after G E w h)" "hd_localPTR (lan_after G E w h) = hd_localPTR h"
  "hd_cache (lan_after G E w h) = hd_cache h"
  by (simp_all add: lan_after_def)

definition lan_state :: "golibs \<Rightarrow> query_env \<Rightarrow> writer \<Rightarrow> msg \<Rightarrow> Handler \<Rightarrow> Handler" where
  "lan_state G E w req h = snd (local_ptr G E (q_Qtype (m_Question req ! 0)) (query_name G req) (lan_after G E w h))"

lemma lan_state_frame: "same_config h (lan_state G E w req h)" "hd_slots (lan_state G E w req h) = hd_slots h"
  unfolding lan_state_def
  using same_config_trans [OF lan_after_frame(2) local_ptr_frame(2)] by (simp_all add: local_ptr_frame)

lemma begin_waiting:
  assumes "serve_begin G E w req h = (Waiting p, h')"
  shows "on_lan G E w h \<and> well_formed req \<and> pd_req p = req \<and> pd_w p = w \<and> pd_domain p = query_name G req
     \<and> pd_upstreams p = allowed_upstreams G E req (lan_state G E w req h)
     \<and> hd_slots h < maxForwards \<and> hd_slots h' = hd_slots h + 1
     \<and> classify (lib_L G) (q_Qtype (m_Question req ! 0)) (query_name G req) (hd_localDomains h) \<in> {publicName, lanOnlyName}
     \<and> \<not> IsBlocked (lib_U G) (hd_store h) (query_name G req)
     \<and> (hd_localPTR h \<longrightarrow> \<not> isPrivatePTR (lib_U G) (lib_L G) (q_Qtype (m_Question req ! 0)) (query_name G req))"
proof -
  have ok: "on_lan G E w h \<and> well_formed req" using begin_uncounted [of G E w h req] assms by auto
  obtain b h2 where p: "local_ptr G E (q_Qtype (m_Question req ! 0)) (query_name G req) (lan_after G E w h) = (b, h2)" by force
  have h2: "h2 = lan_state G E w req h" using p by (simp add: lan_state_def)
  have n: "\<not> b" "serve_name G E w req (m_Question req ! 0) (client_name G w h) (query_name G req) h2 = (Waiting p, h')"
    using assms ok p by (auto simp: serve_begin_unfold Let_def well_formed_def answered_def split: bool.splits)
  have ptr: "hd_localPTR h \<longrightarrow> \<not> isPrivatePTR (lib_U G) (lib_L G) (q_Qtype (m_Question req ! 0)) (query_name G req)"
    using local_ptr_frame(3) [of G E "q_Qtype (m_Question req ! 0)" "query_name G req" "lan_after G E w h"] p n(1) by auto
  have same: "hd_store h2 = hd_store h" "hd_localDomains h2 = hd_localDomains h" "hd_slots h2 = hd_slots h"
    using lan_state_frame [where h = h and G = G and E = E and w = w and req = req] by (simp_all add: h2 same_config_def)
  show ?thesis using name_waiting [OF n(2)] ok ptr same h2 by simp
qed

lemma begin_answered_slots:
  assumes "serve_begin G E w req h = (Answered out, h')"
  shows "hd_slots h' = hd_slots h"
proof (cases "on_lan G E w h \<and> well_formed req")
  case False
  then show ?thesis using begin_uncounted [OF False] assms by auto
next
  case True
  obtain b h2 where p: "local_ptr G E (q_Qtype (m_Question req ! 0)) (query_name G req) (lan_after G E w h) = (b, h2)" by force
  have "hd_slots h2 = hd_slots h" using lan_state_frame [where h = h and G = G and E = E and w = w and req = req] p by (simp add: lan_state_def)
  then show ?thesis
    using assms True p name_slots [of G E w req "m_Question req ! 0" "client_name G w h" "query_name G req" h2 out h']
    by (auto simp: serve_begin_unfold Let_def well_formed_def answered_def writeLocalNXDOMAIN_def split: bool.splits)
qed

lemma relay_slots: "hd_slots (snd (relay G E p m h)) = hd_slots h"
  by (auto simp: relay_def Let_def writeBlocked_def writeSinkhole_def split: option.splits)

lemma unresolved_slots: "hd_slots (snd (unresolved G E w req cl dm err h)) = hd_slots h"
  by (simp add: unresolved_def writeRcode_def Let_def)

lemma end_slots: "hd_slots (snd (fst (serve_end G E N p h))) = hd_slots h - 1"
  by (simp add: serve_end_def Let_def relay_slots unresolved_slots split: prod.splits sum.splits)

end
