(* ===== verification/Handler_Safety.thy ===== *)
theory Handler_Safety
  imports Query_Handler
begin

text \<open>
  The properties of the query handler. First what one query may do; then the invariant of every
  interleaving of queries, list changes, purges and sweeps, as a step relation on the handler and
  the queries that wait for an upstream.
\<close>

section \<open>Cached replies answer their key\<close>

definition cache_answers :: "golibs \<Rightarrow> Handler \<Rightarrow> bool" where
  "cache_answers G h \<longleftrightarrow> (case hd_cache h of None \<Rightarrow> True
     | Some c \<Rightarrow> cache_inv c \<and> (\<forall>k e. map_of (c_entries c) k = Some e \<longrightarrow> m_Rcode (e_msg e) = RcodeSuccess
          \<and> list_all (\<lambda>r. \<not> is_opt r) (m_Extra (e_msg e))
          \<and> (\<exists>req. keyOf (lib_L G) req = Some k \<and> answers (lib_U G) req (e_msg e))))"

lemma cache_answers_clean: "cache_answers G h \<Longrightarrow> clean_cache h"
  by (auto simp: cache_answers_def clean_cache_def split: option.splits)

lemma cache_answers_cong: "hd_cache h = hd_cache h' \<Longrightarrow> cache_answers G h = cache_answers G h'"
  by (simp add: cache_answers_def)

lemma answers_question: "m_Question a ! 0 = m_Question b ! 0 \<Longrightarrow> answers U a m = answers U b m"
  by (simp add: answers_def)

lemma answers_body:
  "m_Question m = m_Question m' \<Longrightarrow> m_Response m = m_Response m' \<Longrightarrow> m_Opcode m = m_Opcode m' \<Longrightarrow> answers U a m = answers U a m'"
  by (simp add: answers_def)

lemma keyOf_same_question:
  assumes "names_ok L" "keyOf L a = Some k" "keyOf L b = Some k"
  shows "m_Question a ! 0 = m_Question b ! 0"
  using keyOf_inject [OF assms] by simp

lemma cache_answers_Get:
  assumes "names_ok (lib_L G)" "cache_answers G h" "hd_cache h = Some c" "cache_Get (lib_L G) c req t t' = (c', r)"
  shows "cache_answers G (h\<lparr>hd_cache := Some c'\<rparr>)
     \<and> (\<forall>m. r = Some m \<longrightarrow> answers (lib_U G) req m \<and> m_Rcode m = RcodeSuccess \<and> list_all (\<lambda>r. \<not> is_opt r) (m_Extra m))"
proof -
  have e: "c_entries c' = c_entries c" using assms(4) by (auto simp: cache_Get_def split: option.splits if_splits)
  have i: "cache_inv c'" using cache_inv_Get [of c "lib_L G" req t t'] assms by (simp add: cache_answers_def)
  have "answers (lib_U G) req m \<and> m_Rcode m = RcodeSuccess \<and> list_all (\<lambda>r. \<not> is_opt r) (m_Extra m)" if m: "r = Some m" for m
  proof -
    obtain k en where k: "keyOf (lib_L G) req = Some k" "map_of (c_entries c) k = Some en"
      "m = decrementTTLs (e_msg en) (elapsed_secs (time_Sub t' (e_cached en)))"
      using assms(4) m by (auto simp: cache_Get_def split: option.splits if_splits)
    obtain req0 where r0: "keyOf (lib_L G) req0 = Some k" "answers (lib_U G) req0 (e_msg en)" "m_Rcode (e_msg en) = RcodeSuccess"
        "list_all (\<lambda>r. \<not> is_opt r) (m_Extra (e_msg en))"
      using assms(2,3) k(2) by (auto simp: cache_answers_def)
    have "answers (lib_U G) req (e_msg en)"
      using r0(2) answers_question [OF keyOf_same_question [OF assms(1) k(1) r0(1)]] by simp
    then show ?thesis using k(3) r0(3,4) answers_body [of m "e_msg en"]
      by (auto simp: decrementTTLs_def list_all_iff decrement_rr_def is_opt_def)
  qed
  then show ?thesis using assms(2,3) e i by (auto simp: cache_answers_def)
qed

lemma cache_answers_Set:
  assumes "cache_answers G h" "hd_cache h = Some c" "answers (lib_U G) req m" "list_all (\<lambda>r. \<not> is_opt r) (m_Extra m)"
  shows "cache_answers G (h\<lparr>hd_cache := Some (cache_Set (lib_L G) c req m t visit)\<rparr>)"
proof -
  have i: "cache_inv (cache_Set (lib_L G) c req m t visit)" using assms(1,2) by (auto simp: cache_answers_def intro: cache_inv_Set)
  have n: "answers (lib_U G) req (capTTLs m maxTTL)" using assms(3) answers_body [of "capTTLs m maxTTL" m] by (simp add: capTTLs_def)
  have x: "list_all (\<lambda>r. \<not> is_opt r) (m_Extra (capTTLs m maxTTL))"
    using assms(4) by (auto simp: capTTLs_def cap_rr_def list_all_iff is_opt_def)
  have "m_Rcode (e_msg e) = RcodeSuccess \<and> list_all (\<lambda>r. \<not> is_opt r) (m_Extra (e_msg e))
      \<and> (\<exists>req. keyOf (lib_L G) req = Some k \<and> answers (lib_U G) req (e_msg e))"
    if "map_of (c_entries (cache_Set (lib_L G) c req m t visit)) k = Some e" for k e
  proof (cases "map_of (c_entries c) k = Some e")
    case True
    then show ?thesis using assms(1,2) by (auto simp: cache_answers_def)
  next
    case False
    then have "cacheable m" "keyOf (lib_L G) req = Some k" "e = new_entry m t"
      using that by (auto simp: cache_Set_def dest: map_of_insert_entry split: if_splits option.splits)
    then show ?thesis using n x by (auto simp: new_entry_def Let_def cacheable_def capTTLs_def)
  qed
  then show ?thesis using i by (simp add: cache_answers_def)
qed

section \<open>One query\<close>

text \<open>Every reply is built for the query: one that s-hole makes itself repeats the question and has no
  CNAME record; one from upstream or cache answers the question and passed the inspection.\<close>

definition built_for :: "golibs \<Rightarrow> Handler \<Rightarrow> msg \<Rightarrow> msg \<Rightarrow> bool" where
  "built_for G h req m \<longleftrightarrow> (m_Question m = m_Question req \<and> cname_targets (m_Answer m) = [])
     \<or> (answers (lib_U G) req m \<and> \<not> chainBlocked G h (query_name G req) m)"

definition good_reply :: "golibs \<Rightarrow> Handler \<Rightarrow> msg \<Rightarrow> msg \<Rightarrow> bool" where
  "good_reply G h req out \<longleftrightarrow> m_Id out = m_Id req \<and>
     (\<exists>m. built_for G h req m \<and> m_Question out = m_Question m \<and> prefix (m_Answer out) (m_Answer m)
        \<and> (m_Rcode out = m_Rcode m \<or> m_Rcode out = RcodeServerFailure))"

lemma good_send:
  assumes "edns_ok (lib_L G)" "size_ok (lib_L G)" "built_for G h0 req m"
  shows "good_reply G h0 req (fst (handler_send G w req m h))"
  using finish_reply_keeps [OF assms(1,2), of w req m] assms(3) unfolding fst_send good_reply_def by blast

lemma chainBlocked_cong: "same_config h h' \<Longrightarrow> chainBlocked G h' dm m = chainBlocked G h dm m"
  by (simp add: chainBlocked_def same_config_def)

lemma built_for_cong: "same_config h h' \<Longrightarrow> built_for G h' req m = built_for G h req m"
  by (simp add: built_for_def chainBlocked_cong)

lemma set_reply_question:
  assumes "reply_ok L" "length (m_Question req) = 1"
  shows "m_Question (SetReply L m req) = m_Question req" "m_Question (SetRcode L m req c) = m_Question req"
    "m_Answer (SetReply L m req) = m_Answer m" "m_Answer (SetRcode L m req c) = m_Answer m"
proof -
  obtain q where q: "m_Question req = [q]" using assms(2) by (auto simp: length_Suc_conv)
  then have "m_Question (SetReply L m req) = [q] \<and> SetRcode L m req c = (SetReply L m req)\<lparr>m_Rcode := c\<rparr>"
    using assms(1) unfolding reply_ok_def by force
  moreover have "m_Answer (SetReply L m req) = m_Answer m" using assms(1) unfolding reply_ok_def by blast
  ultimately show "m_Question (SetReply L m req) = m_Question req" "m_Question (SetRcode L m req c) = m_Question req"
    "m_Answer (SetReply L m req) = m_Answer m" "m_Answer (SetRcode L m req c) = m_Answer m" using q by auto
qed

lemma built_replies:
  assumes "reply_ok (lib_L G)" "length (m_Question req) = 1"
  shows "built_for G h0 req (sinkhole_reply (lib_L G) bm bt req q)" "built_for G h0 req (nxdomain_reply (lib_L G) req)"
    "built_for G h0 req (localhost_reply (lib_L G) req q)" "built_for G h0 req (SetRcode (lib_L G) zero_msg req c)"
  using set_reply_question [OF assms]
  by (simp_all add: built_for_def sinkhole_reply_def nxdomain_reply_def localhost_reply_def Let_def cname_targets_def zero_msg_def)

text \<open>The state after a query keeps the cache sound; the reply is good.\<close>

definition served :: "golibs \<Rightarrow> Handler \<Rightarrow> msg \<Rightarrow> msg \<times> Handler \<Rightarrow> bool" where
  "served G h req x \<longleftrightarrow> good_reply G h req (fst x) \<and> cache_answers G (snd x)"

lemma served_send:
  assumes "edns_ok (lib_L G)" "size_ok (lib_L G)" "built_for G h0 req m" "cache_answers G h"
  shows "served G h0 req (handler_send G w req m h)"
  using good_send [OF assms(1-3)] assms(4) cache_answers_cong [of "snd (handler_send G w req m h)" h G] by (simp add: served_def)

lemma cache_answers_frame [simp]:
  "cache_answers G (recordQuery E c d b h) = cache_answers G h" "cache_answers G (with_counter f h) = cache_answers G h"
  "cache_answers G (log_record r h) = cache_answers G h" "cache_answers G (h\<lparr>hd_lan := a\<rparr>) = cache_answers G h"
  "cache_answers G (h\<lparr>hd_slots := n\<rparr>) = cache_answers G h" "cache_answers G (h\<lparr>hd_forwardLimited := n\<rparr>) = cache_answers G h"
  "cache_answers G (h\<lparr>hd_failures := fl\<rparr>) = cache_answers G h" "cache_answers G (h\<lparr>hd_tracker := t\<rparr>) = cache_answers G h"
  "cache_answers G (h\<lparr>hd_fallbacks := n\<rparr>) = cache_answers G h" "cache_answers G (lan_after G E w h) = cache_answers G h"
  by (simp_all add: cache_answers_def)

lemma local_ptr_cache: "cache_answers G (snd (local_ptr G' E qt dm h)) = cache_answers G h"
  by (simp add: local_ptr_def split: prod.splits)

lemma served_blocked:
  assumes "edns_ok (lib_L G)" "size_ok (lib_L G)" "reply_ok (lib_L G)" "length (m_Question req) = 1" "cache_answers G h"
  shows "served G h0 req (writeBlocked G E w req q cl dm src h)"
  unfolding writeBlocked_def writeSinkhole_def Let_def
  by (rule served_send [OF assms(1,2)]) (use built_replies [OF assms(3,4)] assms(5) in simp_all)

lemma served_unresolved:
  assumes "edns_ok (lib_L G)" "size_ok (lib_L G)" "reply_ok (lib_L G)" "length (m_Question req) = 1" "cache_answers G h"
  shows "served G h0 req (unresolved G E w req cl dm err h)"
  unfolding unresolved_def writeRcode_def Let_def
  by (rule served_send [OF assms(1,2)]) (use built_replies [OF assms(3,4)] assms(5) in simp_all)

text \<open>The libraries behave as documented.\<close>

definition libs_ok :: "golibs \<Rightarrow> bool" where
  "libs_ok G \<longleftrightarrow> names_ok (lib_L G) \<and> edns_ok (lib_L G) \<and> size_ok (lib_L G) \<and> reply_ok (lib_L G)"

definition begun_ok :: "golibs \<Rightarrow> Handler \<Rightarrow> msg \<Rightarrow> begun \<times> Handler \<Rightarrow> bool" where
  "begun_ok G h req x \<longleftrightarrow> cache_answers G (snd x) \<and> (case fst x of Answered out \<Rightarrow> good_reply G h req out | Waiting p \<Rightarrow> pd_req p = req)"

lemma begun_answered: "served G h0 req x \<Longrightarrow> begun_ok G h0 req (answered x)"
  by (simp add: begun_ok_def answered_def served_def)

lemma begun_lookup:
  assumes "libs_ok G" "length (m_Question req) = 1" "cache_answers G h" "same_config h0 h"
  shows "begun_ok G h0 req (serve_lookup G E w req q cl (query_name G req) ups h)"
proof -
  have G: "names_ok (lib_L G)" "edns_ok (lib_L G)" "size_ok (lib_L G)" "reply_ok (lib_L G)" using assms(1) by (simp_all add: libs_ok_def)
  obtain h1 r where x: "(case hd_cache h of None \<Rightarrow> (h, None)
       | Some c \<Rightarrow> (case cache_Get (lib_L G) c req (qe_clock E 2) (qe_clock E 3) of (c', r) \<Rightarrow> (h\<lparr>hd_cache := Some c'\<rparr>, r))) = (h1, r)" by force
  have c: "cache_answers G h1" and m: "\<And>m. r = Some m \<Longrightarrow> answers (lib_U G) req m"
    using x assms(3) cache_answers_Get [OF G(1) assms(3)] by (auto split: option.splits prod.splits)
  have sc: "same_config h0 h1" using x assms(4) by (auto split: option.splits prod.splits)
  show ?thesis
  proof (cases r)
    case None
    have "begun_ok G h0 req (answered (unresolved G E w req cl (query_name G req) ErrForwardLimit (h1\<lparr>hd_forwardLimited := n\<rparr>)))" for n
      by (rule begun_answered, rule served_unresolved [OF G(2-4) assms(2)]) (simp add: c)
    then show ?thesis unfolding serve_lookup_def x None prod.case option.case using c by (simp add: begun_ok_def)
  next
    case (Some msg)
    have "begun_ok G h0 req (answered (handler_send G w req msg (log_record r' (with_counter f (recordQuery E cl (query_name G req) False h1)))))"
      if "\<not> chainBlocked G h1 (query_name G req) msg" for r' f
      by (rule begun_answered, rule served_send [OF G(2,3)]) (use m Some c that chainBlocked_cong [OF sc] in \<open>simp_all add: built_for_def\<close>)
    then show ?thesis unfolding serve_lookup_def x Some prod.case option.case Let_def
      using begun_answered [OF served_blocked [OF G(2-4) assms(2) c]] by simp
  qed
qed

lemma begun_name:
  assumes "libs_ok G" "length (m_Question req) = 1" "cache_answers G h" "same_config h0 h"
  shows "begun_ok G h0 req (serve_name G E w req q cl (query_name G req) h)"
proof -
  have G: "edns_ok (lib_L G)" "size_ok (lib_L G)" "reply_ok (lib_L G)" using assms(1) by (simp_all add: libs_ok_def)
  let ?c = "classify (lib_L G) (q_Qtype q) (query_name G req) (hd_localDomains h)"
  obtain ups h1 where x: "(if ?c = lanOnlyName
            then (case lanUpstreams (qe_clock E 1) (qe_addrs E 1) (zip (hd_upstreams h) (hd_upstreamIPs h)) (hd_lan h) of
                    (us, a) \<Rightarrow> (us, h\<lparr>hd_lan := a\<rparr>))
            else (hd_upstreams h, h)) = (ups, h1)" by force
  have c: "cache_answers G h1" using x assms(3) by (auto split: if_splits prod.splits)
  have sc: "same_config h0 h1" using x assms(4) by (auto split: if_splits prod.splits)
  have "begun_ok G h0 req (answered (handler_send G w req m (log_record r (with_counter f (recordQuery E cl (query_name G req) False h1)))))"
    if "built_for G h0 req m" for m r f
    by (rule begun_answered, rule served_send [OF G(1,2) that]) (simp add: c)
  then show ?thesis unfolding serve_name_def Let_def x prod.case writeLocalhost_def writeLocalNXDOMAIN_def
    using begun_answered [OF served_blocked [OF G assms(2) c]] begun_lookup [OF assms(1,2) c sc] built_replies [OF G(3) assms(2)] by simp
qed

lemma begun_begin:
  assumes "libs_ok G" "on_lan G E w h" "well_formed req" "cache_answers G h"
  shows "begun_ok G h req (serve_begin G E w req h)"
proof -
  have G: "edns_ok (lib_L G)" "size_ok (lib_L G)" "reply_ok (lib_L G)" using assms(1) by (simp_all add: libs_ok_def)
  have len: "length (m_Question req) = 1" using assms(3) by (simp add: well_formed_def)
  obtain b h2 where p: "local_ptr G E (q_Qtype (m_Question req ! 0)) (query_name G req) (lan_after G E w h) = (b, h2)" by force
  have c: "cache_answers G h2" using local_ptr_cache [of G G E "q_Qtype (m_Question req ! 0)" "query_name G req" "lan_after G E w h"] p assms(4) by simp
  have sc: "same_config h h2" using lan_state_frame(1) [where h = h and G = G and E = E and w = w and req = req] p by (simp add: lan_state_def)
  have "begun_ok G h req (answered (handler_send G w req (nxdomain_reply (lib_L G) req) (log_record r (with_counter f (recordQuery E cl dm False h2)))))" for r f cl dm
    by (rule begun_answered, rule served_send [OF G(1,2)]) (use built_replies [OF G(3) len] c in simp_all)
  then show ?thesis
    using assms(2,3) p begun_name [OF assms(1) len c sc]
    by (cases b) (simp_all add: serve_begin_unfold Let_def well_formed_def writeLocalNXDOMAIN_def)
qed

lemma served_relay:
  assumes "libs_ok G" "length (m_Question (pd_req p)) = 1" "cache_answers G h" "answers (lib_U G) (pd_req p) resp"
    "pd_domain p = query_name G (pd_req p)" "same_config h0 h"
  shows "served G h0 (pd_req p) (relay G E p resp h)"
proof -
  have G: "edns_ok (lib_L G)" "size_ok (lib_L G)" "reply_ok (lib_L G)" using assms(1) by (simp_all add: libs_ok_def)
  have a: "answers (lib_U G) (pd_req p) (stripOPT resp)" using assms(4) answers_body [of "stripOPT resp" resp] by simp
  let ?h = "case hd_cache h of None \<Rightarrow> h
     | Some c \<Rightarrow> h\<lparr>hd_cache := Some (cache_Set (lib_L G) c (pd_req p) (stripOPT resp) (qe_clock E 6) (qe_visit E))\<rparr>"
  have c: "cache_answers G ?h" using assms(3) cache_answers_Set [OF assms(3) _ a stripOPT_no_opt] by (simp split: option.splits)
  have "same_config h0 ?h" using assms(6) by (simp split: option.splits)
  note cb = chainBlocked_cong [OF this]
  have "served G h0 (pd_req p) (handler_send G (pd_w p) (pd_req p) (stripOPT resp) h')"
    if "cache_answers G h'" "\<not> chainBlocked G ?h (pd_domain p) (stripOPT resp)" for h'
    by (rule served_send [OF G(1,2) _ that(1)]) (use that(2) cb assms(5) in \<open>simp add: built_for_def a\<close>)
  then show ?thesis unfolding relay_def Let_def using served_blocked [OF G assms(2) c] c by simp
qed

lemma served_end:
  assumes "libs_ok G" "length (m_Question (pd_req p)) = 1" "cache_answers G h"
    "pd_domain p = query_name G (pd_req p)" "same_config h0 h"
  shows "served G h0 (pd_req p) (fst (serve_end G E N p h))"
proof -
  have G: "edns_ok (lib_L G)" "size_ok (lib_L G)" "reply_ok (lib_L G)" using assms(1) by (simp_all add: libs_ok_def)
  let ?q = "upstreamQuery (lib_L G) (qe_id E) (pd_req p)"
  obtain r f where f: "forwardWith (lib_U G) (lib_L G) (lib_K G) N (qe_clock E 2) ?q
             (pd_upstreams p) (hd_tracker h) (hd_fallbacks h) = (r, f)" by force
  let ?h = "h\<lparr>hd_tracker := fw_tracker f, hd_fallbacks := fw_fallbacks f, hd_slots := hd_slots h - 1\<rparr>"
  have c: "cache_answers G ?h" and sc: "same_config h0 ?h" using assms(3,5) by simp_all
  have "m_Question ?q ! 0 = m_Question (pd_req p) ! 0"
    by (simp add: upstreamQuery_def Let_def SetEdns0_fields [OF G(1)])
  then have "answers (lib_U G) (pd_req p) resp" if "r = Inr resp" for resp
    using forwardWith_ok [OF f] that answers_question [of ?q "pd_req p"] by blast
  then show ?thesis using f served_relay [OF assms(1,2) c _ assms(4) sc] served_unresolved [OF G assms(2) c]
    by (simp add: serve_end_def Let_def split: sum.splits)
qed

section \<open>The counters and the log\<close>

text \<open>The counters are what counting the logged records gives.\<close>

definition log_matches :: "Handler \<Rightarrow> bool" where
  "log_matches h \<longleftrightarrow>
     ct_total (hd_counter h) = length (hd_logged h)
     \<and> ct_blocked (hd_counter h) = length (filter rec_Blocked (hd_logged h))
     \<and> ct_cnameBlocked (hd_counter h) = length (filter (\<lambda>r. rec_Blocked r \<and> rec_BlockSource r = BlockedByCNAME) (hd_logged h))
     \<and> ct_cacheHit (hd_counter h) = length (filter rec_CacheHit (hd_logged h))
     \<and> ct_forwardFailures (hd_counter h) = length (filter rec_Unresolved (hd_logged h))
     \<and> ct_upstreamErrors (hd_counter h) = length (filter rec_UpstreamError (hd_logged h))
     \<and> ct_localPTR (hd_counter h) + ct_localName (hd_counter h)
          = length (filter (\<lambda>r. rec_Synthesized r \<and> \<not> rec_Blocked r \<and> \<not> rec_Unresolved r) (hd_logged h))"

lemma script_counts:
  "ct_total (fold (micro_sem ord) (script oc cl dm t t') c) = ct_total c + 1"
    "ct_blocked (fold (micro_sem ord) (script oc cl dm t t') c) = ct_blocked c + of_bool (oc = OBlocked \<or> oc = OCname)"
    "ct_cnameBlocked (fold (micro_sem ord) (script oc cl dm t t') c) = ct_cnameBlocked c + of_bool (oc = OCname)"
    "ct_cacheHit (fold (micro_sem ord) (script oc cl dm t t') c) = ct_cacheHit c + of_bool (oc = OHit)"
    "ct_forwardFailures (fold (micro_sem ord) (script oc cl dm t t') c) = ct_forwardFailures c + of_bool (oc = OFailed)"
    "ct_upstreamErrors (fold (micro_sem ord) (script oc cl dm t t') c) = ct_upstreamErrors c + of_bool (oc = OError)"
    "ct_localPTR (fold (micro_sem ord) (script oc cl dm t t') c) + ct_localName (fold (micro_sem ord) (script oc cl dm t t') c) = ct_localPTR c + ct_localName c + of_bool (oc = OPtr \<or> oc = OName)"
  by (cases oc; simp add: script_def Let_def add_total_def graph_query_def tally_locked_def RecordCNAMEBlocked_def RecordLocalPTR_def
      RecordLocalName_def RecordCacheHit_def RecordForwardFailure_def RecordUpstreamError_def)+

lemma log_matches_counted:
  assumes "log_matches h" "counted E cl dm h oc h'"
  shows "log_matches h'"
proof -
  obtain r tc td where r: "hd_logged h' = hd_logged h @ [r]" "outcome_record oc r"
      "hd_counter h' = fold (micro_sem (qe_ord E)) (script oc tc td (qe_clock E 4) (qe_clock E 5)) (hd_counter h)"
    using assms(2) by (auto simp: counted_def split: prod.splits)
  have "rec_Synthesized r \<and> \<not> rec_Blocked r \<and> \<not> rec_Unresolved r \<longleftrightarrow> oc = OPtr \<or> oc = OName"
    using r(2) by (cases oc) (auto simp: outcome_record_def)
  then show ?thesis
    using assms(1) r(2) unfolding log_matches_def r(1,3) script_counts by (cases oc) (auto simp: outcome_record_def)
qed

lemma log_matches_untouched: "untouched h h' \<Longrightarrow> log_matches h' = log_matches h"
  by (simp add: log_matches_def untouched_def)

section \<open>Interleaving\<close>

text \<open>The handler and the queries that wait for an upstream. A step is one part of a query, a change
  of the lists or of the log mode, a purge of the cache, or a sweep of the cache.\<close>

inductive hstep :: "golibs \<Rightarrow> Handler \<times> pending list \<Rightarrow> Handler \<times> pending list \<Rightarrow> bool" for G where
  answer: "serve_begin G E w req h = (Answered out, h') \<Longrightarrow> hstep G (h, ps) (h', ps)"
| wait: "serve_begin G E w req h = (Waiting p, h') \<Longrightarrow> hstep G (h, ps) (h', p # ps)"
| finish: "i < length ps \<Longrightarrow> serve_end G E N (ps ! i) h = ((out, h'), cs) \<Longrightarrow> hstep G (h, ps) (h', take i ps @ drop (Suc i) ps)"
| lists: "hstep G (h, ps) (h\<lparr>hd_store := s\<rparr>, ps)"
| flush: "hstep G (h, ps) (h\<lparr>hd_cache := map_option cache_Flush (hd_cache h)\<rparr>, ps)"
| sweep: "hstep G (h, ps) (h\<lparr>hd_cache := map_option (\<lambda>c. fst (cleanupExpired c now)) (hd_cache h)\<rparr>, ps)"
| report: "hstep G (h, ps) (h\<lparr>hd_failures := snd (failureLog_flush (hd_failures h)), hd_replies := snd (replyLog_flush (hd_replies h))\<rparr>, ps)"
| forget: "hstep G (h, ps) (h\<lparr>hd_counter := ResetTimeline (ResetTallies (hd_counter h))\<rparr>, ps)"

inductive_cases hstep_cases: "hstep G (h, ps) s'"

definition hinv :: "golibs \<Rightarrow> Handler \<times> pending list \<Rightarrow> bool" where
  "hinv G s \<longleftrightarrow> hd_slots (fst s) = length (snd s) \<and> length (snd s) \<le> maxForwards \<and> cache_answers G (fst s) \<and> log_matches (fst s)
     \<and> (\<forall>p \<in> set (snd s). length (m_Question (pd_req p)) = 1 \<and> pd_domain p = query_name G (pd_req p))"

lemma hinv_begin:
  assumes "libs_ok G" "hinv G (h, ps)" "serve_begin G E w req h = (b, h')"
  shows "cache_answers G h' \<and> log_matches h'"
proof (cases "on_lan G E w h \<and> well_formed req")
  case False
  then obtain out where o: "b = Answered out" "untouched h h'" "hd_cache h' = hd_cache h"
    using begin_uncounted [OF False] assms(3) by auto
  then show ?thesis using assms(2) log_matches_untouched [OF o(2)] cache_answers_cong [of h h' G] by (simp add: hinv_def)
next
  case True
  have c: "cache_answers G h" and l: "log_matches h" using assms(2) by (simp_all add: hinv_def)
  have "cache_answers G h'" using begun_begin [OF assms(1) _ _ c, of E w req] True assms(3) by (simp add: begun_ok_def)
  moreover have "log_matches h'"
    using began_begin [of G E w h req] True cache_answers_clean [OF c] assms(3) l log_matches_untouched log_matches_counted
    by (auto simp: began_def split: begun.splits)
  ultimately show ?thesis by simp
qed

lemma hinv_end:
  assumes "libs_ok G" "hinv G (h, ps)" "p \<in> set ps" "serve_end G E N p h = ((out, h'), cs)"
  shows "cache_answers G h' \<and> log_matches h' \<and> good_reply G h (pd_req p) out"
proof -
  have c: "cache_answers G h" and l: "log_matches h" and q: "length (m_Question (pd_req p)) = 1" "pd_domain p = query_name G (pd_req p)" using assms(2,3) by (simp_all add: hinv_def)
  have "served G h (pd_req p) (out, h')" using served_end [OF assms(1) q(1) c q(2) same_config_refl, of E N] assms(4) by simp
  moreover have "log_matches h'" using counted_end [OF untouched_refl assms(4)] log_matches_counted [OF l] by blast
  ultimately show ?thesis by (simp add: served_def)
qed

lemma map_of_sweep: "cache_inv c \<Longrightarrow> map_of (c_entries (fst (cleanupExpired c now))) k = Some e \<Longrightarrow> map_of (c_entries c) k = Some e"
  by (auto simp: cleanupExpired_def Let_def cache_inv_def map_of_filter_snd [where P = "\<lambda>e. \<not> isExpired e now"] split: option.splits if_splits)

lemma cache_answers_sweep:
  "cache_answers G h \<Longrightarrow> cache_answers G (h\<lparr>hd_cache := map_option (\<lambda>c. fst (cleanupExpired c now)) (hd_cache h)\<rparr>)"
  by (auto simp: cache_answers_def dest: map_of_sweep intro: inv_intros split: option.splits)

lemma cache_answers_flush:
  "cache_answers G h \<Longrightarrow> cache_answers G (h\<lparr>hd_cache := map_option cache_Flush (hd_cache h)\<rparr>)"
  using cache_inv_Flush by (auto simp: cache_answers_def cache_Flush_def split: option.splits)

lemma hinv_step:
  assumes "libs_ok G" "hinv G s" "hstep G s s'"
  shows "hinv G s'"
  using assms(3,2)
proof cases
  case (answer E w req h out h' ps)
  then show ?thesis
    using hinv_begin [OF assms(1), of h ps E w req] begin_answered_slots [OF answer(3)] assms(2) by (simp add: hinv_def)
next
  case (wait E w req h p h' ps)
  then show ?thesis
    using hinv_begin [OF assms(1), of h ps E w req] begin_waiting [OF wait(3)] assms(2) by (simp add: hinv_def well_formed_def)
next
  case (finish i ps E N h out h' cs)
  have "hd_slots h' = hd_slots h - 1" using end_slots [of G E N "ps ! i" h] finish(4) by simp
  moreover have "set (take i ps @ drop (Suc i) ps) \<subseteq> set ps" by (auto dest: in_set_takeD in_set_dropD)
  ultimately show ?thesis
    using hinv_end [OF assms(1), of h ps "ps ! i" E N] finish assms(2) by (auto simp: hinv_def)
next
  case (lists h ps st)
  then show ?thesis using assms(2) by (simp add: hinv_def cache_answers_def log_matches_def)
next
  case (flush h ps)
  then show ?thesis using assms(2) cache_answers_flush [of G h] by (simp add: hinv_def log_matches_def)
next
  case (sweep h ps now)
  then show ?thesis using assms(2) cache_answers_sweep [of G h now] by (simp add: hinv_def log_matches_def)
next
  case (report h ps)
  then show ?thesis using assms(2) by (simp add: hinv_def cache_answers_def log_matches_def)
next
  case (forget h ps)
  then show ?thesis using assms(2) by (simp add: hinv_def cache_answers_def log_matches_def ResetTimeline_def ResetTallies_def)
qed

definition fresh_handler :: "Handler \<Rightarrow> bool" where
  "fresh_handler h \<longleftrightarrow> hd_slots h = 0 \<and> hd_logged h = [] \<and> (\<exists>t m. hd_counter h = (stats_New t)\<lparr>ct_graphMode := m\<rparr>) \<and> (\<forall>c. hd_cache h = Some c \<longrightarrow> (\<exists>n. c = cache_New n))"

lemma hinv_fresh: "fresh_handler h \<Longrightarrow> hinv G (h, [])"
  by (auto simp: fresh_handler_def hinv_def cache_answers_def log_matches_def stats_New_def cache_New_def cache_inv_def
      split: option.splits)

lemma hinv_reachable:
  assumes "libs_ok G" "fresh_handler h0" "(hstep G)\<^sup>*\<^sup>* (h0, []) s"
  shows "hinv G s"
  using assms(3) by (induction rule: rtranclp_induct) (auto intro: hinv_step [OF assms(1)] hinv_fresh [OF assms(2)])

section \<open>The client does not show\<close>

text \<open>Two writers of the same transport: the reply is the same for both.\<close>

fun is_udp :: "remote \<Rightarrow> bool" where
  "is_udp (RemoteUDP b) = True"
| "is_udp _ = False"

definition same_transport :: "writer \<Rightarrow> writer \<Rightarrow> bool" where
  "same_transport w w' \<longleftrightarrow> is_udp (w_remote w) = is_udp (w_remote w') \<and> w_tls w = w_tls w' \<and> w_err w = w_err w'"

lemma send_transport: "same_transport w w' \<Longrightarrow> handler_send G w' req m h = handler_send G w req m h"
proof -
  assume t: "same_transport w w'"
  then have f: "fitUDP L w' req m = fitUDP L w req m" for L m
    by (cases "w_remote w"; cases "w_remote w'") (auto simp: same_transport_def fitUDP_def)
  have "overTLS w' = overTLS w" "w_err w' = w_err w" using t by (simp_all add: overTLS_def same_transport_def)
  then show ?thesis by (simp only: handler_send_def send_def finish_reply_def f)
qed

definition rewriter :: "writer \<Rightarrow> begun \<times> Handler \<Rightarrow> begun \<times> Handler" where
  "rewriter w x = (case fst x of Answered out \<Rightarrow> x | Waiting p \<Rightarrow> (Waiting (p\<lparr>pd_w := w\<rparr>), snd x))"

lemma rewriter_simps [simp]:
  "rewriter w (answered x) = answered x" "rewriter w (Waiting p, h) = (Waiting (p\<lparr>pd_w := w\<rparr>), h)"
  by (simp_all add: rewriter_def answered_def)

lemma write_transport:
  assumes "same_transport w w'"
  shows "writeBlocked G E w' req q cl dm src h = writeBlocked G E w req q cl dm src h"
    "unresolved G E w' req cl dm err h = unresolved G E w req cl dm err h"
    "writeRcode G w' req rc h = writeRcode G w req rc h" "writeLocalNXDOMAIN G w' req h = writeLocalNXDOMAIN G w req h"
    "writeLocalhost G w' req q h = writeLocalhost G w req q h"
  by (simp_all add: writeBlocked_def writeSinkhole_def unresolved_def writeRcode_def writeLocalNXDOMAIN_def writeLocalhost_def
      send_transport [OF assms] Let_def)

lemma lookup_transport:
  "same_transport w w' \<Longrightarrow> serve_lookup G E w' req q cl dm ups h = rewriter w' (serve_lookup G E w req q cl dm ups h)"
  by (auto simp: serve_lookup_def write_transport send_transport Let_def split: option.splits prod.splits)

lemma name_transport:
  "same_transport w w' \<Longrightarrow> serve_name G E w' req q cl dm h = rewriter w' (serve_name G E w req q cl dm h)"
  by (auto simp: serve_name_def write_transport lookup_transport Let_def split: prod.splits)

lemma end_transport:
  "same_transport (pd_w p) w' \<Longrightarrow> serve_end G E N (p\<lparr>pd_w := w'\<rparr>) h = serve_end G E N p h"
  by (simp add: serve_end_def relay_def write_transport send_transport Let_def split: prod.splits sum.splits option.splits)

lemma begin_transport:
  assumes "same_transport w w'" "client_name G w h = client_name G w' h"
    and "IsValid (client_addr G w)" "IsValid (client_addr G w')"
    and "lan_contains (hd_lan h) (client_addr G w)" "lan_contains (hd_lan h) (client_addr G w')"
  shows "serve_begin G E w' req h = rewriter w' (serve_begin G E w req h)"
proof -
  have i: "WithoutZone (Unmap (client_addr G v)) = client_addr G v" for v by (simp add: client_addr_def)
  have l: "lan_allows t a (hd_lan h) (client_addr G w) = (True, hd_lan h)" "lan_allows t a (hd_lan h) (client_addr G w') = (True, hd_lan h)" for t a
    using assms(5,6) by (simp_all add: lan_allows_def i)
  have "lan_after G E w' h = lan_after G E w h" "on_lan G E w h" "on_lan G E w' h"
    using assms(3,4) l by (simp_all add: lan_after_def on_lan_def)
  then show ?thesis unfolding serve_begin_unfold
    using assms(2) by (auto simp: Let_def write_transport [OF assms(1)] name_transport [OF assms(1)] split: prod.splits bool.splits)
qed

section \<open>A concrete handler\<close>

definition demo_G :: golibs where
  "demo_G = \<lparr>lib_U = ascii_only, lib_L = demo_dns, lib_K = no_url, lib_T = demo_iptext, lib_AddrPort = (\<lambda>s. None)\<rparr>"

definition demo_E :: query_env where
  "demo_E = \<lparr>qe_clock = (\<lambda>k. 100 * second), qe_addrs = (\<lambda>k. Inr []), qe_visit = [], qe_ord = id, qe_id = 5\<rparr>"

definition demo_h :: Handler where
  "demo_h = hd_SetQueryLogMode ''all'' (NewHandler demo_G demo_E (Replace ascii_only NewStore [''ads.example'']) (stats_New 0) demo_ups
     ''zero_ip'' 60 None True ''subnet'')"

definition ask :: "string \<Rightarrow> msg" where
  "ask n = plain_query\<lparr>m_Question := [\<lparr>q_Name = n, q_Qtype = TypeA, q_Qclass = ClassINET\<rparr>]\<rparr>"

lemma demo_libs_ok: "libs_ok demo_G"
  by (simp add: libs_ok_def demo_G_def demo_names_ok demo_edns_ok demo_size_ok demo_reply_ok)

lemma demo_h_simps [simp]:
  "hd_lan demo_h = newLANACL (100 * second) (Inr [])" "hd_store demo_h = Replace ascii_only NewStore [''ads.example'']" "hd_cache demo_h = None"
  "hd_slots demo_h = 0" "hd_localPTR demo_h" "hd_localDomains demo_h = []" "hd_upstreams demo_h = demo_ups" "hd_queryPrivacy demo_h = ''subnet''"
  "hd_logged demo_h = []" "hd_counter demo_h = stats_New 0" "hd_tracker demo_h = newUpstreamTracker"
  by (simp_all add: demo_h_def NewHandler_def hd_SetQueryLogMode_def demo_E_def)

lemma demo_G_simps [simp]: "lib_U demo_G = ascii_only" "lib_L demo_G = demo_dns" "lib_K demo_G = no_url" "lib_T demo_G = demo_iptext"
  by (simp_all add: demo_G_def)

lemma demo_E_simps [simp]: "qe_clock demo_E k = 100 * second" "qe_addrs demo_E k = Inr []" "qe_id demo_E = 5"
  by (simp_all add: demo_E_def)

lemma demo_fresh: "fresh_handler demo_h"
  by (auto simp: fresh_handler_def stats_New_def intro!: exI [of _ "[]"])

lemma demo_addr: "client_addr demo_G udp_writer = Addr4 0xC0A80109"
  by code_simp

lemma demo_on_lan: "on_lan demo_G demo_E udp_writer demo_h"
proof -
  have "fst (lan_allows (100 * second) (Inr []) (newLANACL (100 * second) (Inr [])) (Addr4 0xC0A80109))" by code_simp
  then show ?thesis by (simp add: on_lan_def demo_addr IsValid_def)
qed

lemma demo_well_formed: "well_formed (ask n)"
  by (simp add: well_formed_def ask_def plain_query_def tagged_query_def zero_msg_def OpcodeQuery_def)

text \<open>A query for a name that is not on the list is left waiting, and then sends one packet.\<close>

lemma demo_waits: "\<exists>p h'. serve_begin demo_G demo_E udp_writer (ask ''www.example.'') demo_h = (Waiting p, h') \<and> pd_req p = ask ''www.example.''
   \<and> pd_upstreams p = demo_ups \<and> hd_tracker h' = newUpstreamTracker"
proof -
  have q: "m_Question (ask n) ! 0 = \<lparr>q_Name = n, q_Qtype = TypeA, q_Qclass = ClassINET\<rparr>" for n by (simp add: ask_def)
  have f: "ToLower ascii_only ''www.example.'' = ''www.example.''" "classify demo_dns TypeA ''www.example.'' [] = publicName"
    "\<not> IsBlocked ascii_only (Replace ascii_only NewStore [''ads.example'']) ''www.example.''" "TypeA \<noteq> TypePTR" by code_simp+
  then show ?thesis using demo_on_lan demo_well_formed [of "''www.example.''"]
    by (auto simp: serve_begin_unfold Let_def well_formed_def q query_name_def local_ptr_def isPrivatePTR_def ownPrefixPTR_def serve_name_def
        serve_lookup_def lan_after_def maxForwards_def)
qed

lemma serve_end_sent:
  "snd (serve_end G E N p h) = fw_sent (snd (forwardWith (lib_U G) (lib_L G) (lib_K G) N (qe_clock E 2) (upstreamQuery (lib_L G) (qe_id E) (pd_req p))
     (pd_upstreams p) (hd_tracker h) (hd_fallbacks h)))"
  by (simp add: serve_end_def Let_def case_prod_unfold)

lemma demo_forward:
  "fw_sent (snd (forwardWith ascii_only demo_dns no_url demo_net t (upstreamQuery demo_dns 5 (ask ''www.example.'')) demo_ups newUpstreamTracker n))
     = [ViaUDP ''9.9.9.9:53'' (upstreamQuery demo_dns 5 (ask ''www.example.''))]"
proof -
  let ?q = "upstreamQuery demo_dns 5 (ask ''www.example.'')"
  have q: "m_Question ?q = [\<lparr>q_Name = ''www.example.'', q_Qtype = TypeA, q_Qclass = ClassINET\<rparr>]" "m_Opcode ?q = OpcodeQuery" "\<not> m_Truncated ?q"
    by (simp_all add: upstreamQuery_def ask_def Let_def zero_msg_def)
  have "EqualFold ascii_only ''www.example.'' ''www.example.''" by code_simp
  then have "exchange ascii_only demo_dns no_url demo_net k ?q ''9.9.9.9:53'' = (Inr (up_reply ?q), [ViaUDP ''9.9.9.9:53'' ?q])" for k
    using q by (simp add: exchange_def is_https_def HasPrefix_def demo_net_def checkReply_def up_reply_def Let_def)
  then show ?thesis
    by (simp add: forwardWith_def demo_ups_def attempt_def Let_def demo_net_def [THEN arg_cong, of un_ctx] shouldSkip_def newUpstreamTracker_def)
qed

section \<open>Properties\<close>

text \<open>C6: a query from outside the LAN leaves no trace: it is answered REFUSED, nothing is sent upstream, and the
  handler's state differs in the count of refused queries and the refreshed interface addresses only.\<close>

theorem outside_leaves_no_trace:
  assumes "reply_ok (lib_L G)" "\<not> on_lan G E w h"
  shows "\<exists>out a. ServeDNS G E E' N w req h = ((out, h\<lparr>hd_lan := a, hd_refused := hd_refused h + 1\<rparr>), [])
     \<and> m_Rcode out = RcodeRefused \<and> m_Answer out = [] \<and> m_Id out = m_Id req"
proof -
  have "serve_begin G E w req h = answered (refuse G req (lan_after G E w h))" using assms(2) by (simp add: serve_begin_unfold Let_def)
  then have s: "ServeDNS G E E' N w req h = ((refuse_reply (lib_L G) req, (lan_after G E w h)\<lparr>hd_refused := hd_refused h + 1\<rparr>), [])"
    by (simp add: ServeDNS_def answered_def refuse_def lan_after_def)
  moreover have "m_Rcode (refuse_reply (lib_L G) req) = RcodeRefused \<and> m_Answer (refuse_reply (lib_L G) req) = []
      \<and> m_Id (refuse_reply (lib_L G) req) = m_Id req"
    using assms(1) unfolding reply_ok_def refuse_reply_def by (simp add: zero_msg_def)
  ultimately show ?thesis unfolding lan_after_def by blast
qed

theorem outside_leaves_no_trace_witness:
  "\<exists>out a. ServeDNS demo_G demo_E demo_E demo_net (udp_writer\<lparr>w_remote := RemoteUDP [8, 8, 8, 8]\<rparr>) (ask ''www.example.'') demo_h
     = ((out, demo_h\<lparr>hd_lan := a, hd_refused := hd_refused demo_h + 1\<rparr>), []) \<and> m_Rcode out = RcodeRefused"
proof -
  let ?w = "udp_writer\<lparr>w_remote := RemoteUDP [8, 8, 8, 8]\<rparr>"
  have "client_addr demo_G ?w = Addr4 0x08080808" by code_simp
  moreover have "\<not> fst (lan_allows (100 * second) (Inr []) (newLANACL (100 * second) (Inr [])) (Addr4 0x08080808))" by code_simp
  ultimately have "\<not> on_lan demo_G demo_E ?w demo_h" by (simp add: on_lan_def)
  from outside_leaves_no_trace [OF _ this] show ?thesis using demo_reply_ok by (metis demo_G_simps(2))
qed

text \<open>every query of a LAN client is recorded exactly once, with one outcome, and only under its masked name:
  serving it refines the one script of its outcome on the counters and hands the logger one
  record, which carries the masked client, the name in lower case and the same outcome; the
  tallies get those names only if the log mode records the query.\<close>

theorem query_recorded_once:
  assumes "on_lan G E w h" "well_formed req" "clean_cache h" "ServeDNS G E E' N w req h = ((out, h'), cs)"
  shows "\<exists>oc. counted E (client_name G w h) (query_name G req) h oc h' \<or> counted E' (client_name G w h) (query_name G req) h oc h'"
proof -
  obtain b h1 where b: "serve_begin G E w req h = (b, h1)" by force
  have g: "began E (client_name G w h) (query_name G req) h (b, h1)" using began_begin [OF assms(1-3)] b by simp
  show ?thesis
  proof (cases b)
    case (Answered o1)
    then show ?thesis using g assms(4) b by (auto simp: began_def ServeDNS_def)
  next
    case (Waiting p)
    then have "untouched h h1" "pd_clientIP p = client_name G w h" "pd_domain p = query_name G req" using g by (simp_all add: began_def)
    moreover have "serve_end G E' N p h1 = ((out, h'), cs)" using assms(4) b Waiting by (simp add: ServeDNS_def)
    ultimately show ?thesis using counted_end [of h h1] by metis
  qed
qed

text \<open>C1: what may leave the host: a query sends packets only if it came from the LAN, is a recursive QUERY with one
  question, is not blocked, is not a private reverse lookup that is answered locally, and is a
  public name or a LAN name; each packet is the fresh query (or its padded form) to a configured
  upstream, and for a LAN name to one whose IPv4 address is private, loopback or link-local.\<close>

theorem forwarding_guarded:
  assumes "acl_ok (hd_lan h)" "ServeDNS G E E' N w req h = (x, cs)" "cs \<noteq> []"
  shows "on_lan G E w h \<and> well_formed req \<and> \<not> IsBlocked (lib_U G) (hd_store h) (query_name G req)
    \<and> (hd_localPTR h \<longrightarrow> \<not> isPrivatePTR (lib_U G) (lib_L G) (q_Qtype (m_Question req ! 0)) (query_name G req))
    \<and> classify (lib_L G) (q_Qtype (m_Question req ! 0)) (query_name G req) (hd_localDomains h) \<in> {publicName, lanOnlyName}
    \<and> (\<exists>ups. list_all (safe_contact (lib_L G) (upstreamQuery (lib_L G) (qe_id E') req) (set ups)) cs \<and> set ups \<subseteq> set (hd_upstreams h)
        \<and> (classify (lib_L G) (q_Qtype (m_Question req ! 0)) (query_name G req) (hd_localDomains h) = lanOnlyName \<longrightarrow>
             (\<forall>u \<in> set ups. \<exists>ip. (u, ip) \<in> set (zip (hd_upstreams h) (hd_upstreamIPs h)) \<and> ip \<noteq> NoAddr
                \<and> (\<forall>a. Unmap ip = Addr4 a \<longrightarrow> list_ex (\<lambda>p. PfxContains p (Addr4 a)) lanRanges))))"
proof -
  obtain p h1 where b: "serve_begin G E w req h = (Waiting p, h1)" and e: "serve_end G E' N p h1 = (x, cs)"
    using assms(2,3) by (auto simp: ServeDNS_def split: begun.splits prod.splits)
  note bw = begin_waiting [OF b]
  let ?l = "lan_state G E w req h"
  have sc: "same_config h ?l" by (rule lan_state_frame)
  have acl: "acl_ok (hd_lan ?l)"
    using assms(1) by (auto simp: lan_state_def local_ptr_def lan_after_def ownPrefixPTR_def intro: inv_intros
        split: prod.splits option.splits) (metis acl_ok_allows acl_ok_own snd_conv)+
  have safe: "list_all (safe_contact (lib_L G) (upstreamQuery (lib_L G) (qe_id E') req) (set (pd_upstreams p))) cs"
    using e forwardWith_ok bw by (auto simp: serve_end_def Let_def split: prod.splits)
  let ?z = "zip (hd_upstreams h) (hd_upstreamIPs h)"
  have z: "zip (hd_upstreams ?l) (hd_upstreamIPs ?l) = ?z" "hd_localDomains ?l = hd_localDomains h" using sc by (simp_all add: same_config_def)
  have lan: "\<exists>ip. (u, ip) \<in> set ?z \<and> ip \<noteq> NoAddr \<and> (\<forall>a. Unmap ip = Addr4 a \<longrightarrow> list_ex (\<lambda>p. PfxContains p (Addr4 a)) lanRanges)"
    if "u \<in> set (pd_upstreams p)" "classify (lib_L G) (q_Qtype (m_Question req ! 0)) (query_name G req) (hd_localDomains h) = lanOnlyName" for u
  proof -
    have "pd_upstreams p = allowed_upstreams G E req ?l" using bw by blast
    then have mem: "u \<in> set (fst (lanUpstreams (qe_clock E 1) (qe_addrs E 1) ?z (hd_lan ?l)))"
      using that unfolding allowed_upstreams_def z by simp
    obtain ip a' where i: "(u, ip) \<in> set ?z" "ip \<noteq> NoAddr" "fst (lan_allows (qe_clock E 1) (qe_addrs E 1) a' ip)" "acl_ok a'"
      using lanUpstreams_lan [OF mem] acl by blast
    then show ?thesis using allows_v4 [OF i(4,3)] by blast
  qed
  have "set (pd_upstreams p) \<subseteq> set (hd_upstreams h)"
  proof (cases "classify (lib_L G) (q_Qtype (m_Question req ! 0)) (query_name G req) (hd_localDomains h) = lanOnlyName")
    case True
    then show ?thesis using lan set_zip_leftD by fast
  next
    case False
    then show ?thesis using bw sc z by (simp add: allowed_upstreams_def same_config_def)
  qed
  with bw safe lan show ?thesis by (intro conjI exI [of _ "pd_upstreams p"]) auto
qed

theorem forwarding_guarded_witness:
  "\<exists>x cs. ServeDNS demo_G demo_E demo_E demo_net udp_writer (ask ''www.example.'') demo_h = (x, cs) \<and> cs \<noteq> []
     \<and> (\<exists>ups. list_all (safe_contact demo_dns (upstreamQuery demo_dns 5 (ask ''www.example.'')) (set ups)) cs \<and> set ups \<subseteq> set demo_ups)"
proof -
  obtain p h' where b: "serve_begin demo_G demo_E udp_writer (ask ''www.example.'') demo_h = (Waiting p, h')"
    "pd_req p = ask ''www.example.''" "pd_upstreams p = demo_ups" "hd_tracker h' = newUpstreamTracker" using demo_waits by blast
  obtain x cs where e: "serve_end demo_G demo_E demo_net p h' = (x, cs)" by (metis prod.exhaust)
  have "cs = snd (serve_end demo_G demo_E demo_net p h')" using e by simp
  also have "\<dots> = fw_sent (snd (forwardWith ascii_only demo_dns no_url demo_net (100 * second) (upstreamQuery demo_dns 5 (ask ''www.example.''))
      demo_ups newUpstreamTracker (hd_fallbacks h')))"
    by (simp add: serve_end_sent b(2-4))
  finally have "cs \<noteq> []" unfolding demo_forward by simp
  moreover have s: "ServeDNS demo_G demo_E demo_E demo_net udp_writer (ask ''www.example.'') demo_h = (x, cs)" using b(1) e by (simp add: ServeDNS_def)
  moreover have "acl_ok (hd_lan demo_h)" by (simp add: acl_ok_new)
  ultimately show ?thesis using forwarding_guarded [OF _ s] by auto
qed

text \<open>C5: the LAN device behind a query leaves no trace but its masked address: two LAN clients whose masked
  addresses are equal get the same reply, cause the same packets and leave the handler in the same
  state, the counters, tallies, query records, cache and failure log included.\<close>

theorem client_not_visible:
  assumes "same_transport w w'" "client_name G w h = client_name G w' h"
    and "IsValid (client_addr G w)" "IsValid (client_addr G w')"
    and "lan_contains (hd_lan h) (client_addr G w)" "lan_contains (hd_lan h) (client_addr G w')"
  shows "ServeDNS G E E' N w' req h = ServeDNS G E E' N w req h"
proof -
  obtain b h1 where b: "serve_begin G E w req h = (b, h1)" by force
  have e: "serve_begin G E w' req h = rewriter w' (b, h1)" using begin_transport [OF assms] b by simp
  show ?thesis
  proof (cases b)
    case (Answered out)
    then show ?thesis using b e by (simp add: ServeDNS_def rewriter_def)
  next
    case (Waiting p)
    then have "pd_w p = w" using begin_waiting [of G E w req h p h1] b by simp
    then show ?thesis using b e Waiting end_transport [of p w' G E' N h1] assms(1) by (simp add: ServeDNS_def)
  qed
qed

theorem client_not_visible_witness:
  "ServeDNS demo_G demo_E demo_E demo_net (udp_writer\<lparr>w_remote := RemoteUDP [192, 168, 1, 77]\<rparr>) (ask ''www.example.'') demo_h
   = ServeDNS demo_G demo_E demo_E demo_net udp_writer (ask ''www.example.'') demo_h"
proof (rule client_not_visible)
  let ?w = "udp_writer\<lparr>w_remote := RemoteUDP [192, 168, 1, 77]\<rparr>"
  have a: "client_addr demo_G ?w = Addr4 0xC0A8014D" by code_simp
  show "same_transport udp_writer ?w" by (simp add: same_transport_def udp_writer_def)
  have "MaskClientIP demo_iptext (AddrString demo_iptext (Addr4 0xC0A80109)) ''subnet'' = MaskClientIP demo_iptext (AddrString demo_iptext (Addr4 0xC0A8014D)) ''subnet''"
    by code_simp
  then show "client_name demo_G udp_writer demo_h = client_name demo_G ?w demo_h" by (simp add: client_name_def a demo_addr)
  show "IsValid (client_addr demo_G udp_writer)" "IsValid (client_addr demo_G ?w)" by (simp_all add: a demo_addr IsValid_def)
  have "lan_contains (newLANACL (100 * second) (Inr [])) (Addr4 0xC0A80109)" "lan_contains (newLANACL (100 * second) (Inr [])) (Addr4 0xC0A8014D)"
    by code_simp+
  then show "lan_contains (hd_lan demo_h) (client_addr demo_G udp_writer)" "lan_contains (hd_lan demo_h) (client_addr demo_G ?w)"
    by (simp_all add: a demo_addr)
qed

text \<open>C3: the statistics agree with the query log in every state that any interleaving of queries, list changes,
  purges of the cache and sweeps can reach: the counters are what counting the logged records
  gives, outcome by outcome, so no query is counted twice, missed, or counted with another
  outcome than it is logged with.\<close>

theorem stats_match_log:
  assumes "libs_ok G" "fresh_handler h0" "(hstep G)\<^sup>*\<^sup>* (h0, []) (h, ps)"
  shows "ct_total (hd_counter h) = length (hd_logged h)
     \<and> ct_blocked (hd_counter h) = length (filter rec_Blocked (hd_logged h))
     \<and> ct_cnameBlocked (hd_counter h) = length (filter (\<lambda>r. rec_Blocked r \<and> rec_BlockSource r = BlockedByCNAME) (hd_logged h))
     \<and> ct_cacheHit (hd_counter h) = length (filter rec_CacheHit (hd_logged h))
     \<and> ct_forwardFailures (hd_counter h) = length (filter rec_Unresolved (hd_logged h))
     \<and> ct_upstreamErrors (hd_counter h) = length (filter rec_UpstreamError (hd_logged h))
     \<and> ct_localPTR (hd_counter h) + ct_localName (hd_counter h)
          = length (filter (\<lambda>r. rec_Synthesized r \<and> \<not> rec_Blocked r \<and> \<not> rec_Unresolved r) (hd_logged h))"
  using hinv_reachable [OF assms] by (simp add: hinv_def log_matches_def)

lemma demo_reach:
  "\<exists>p h'. (hstep demo_G)\<^sup>*\<^sup>* (demo_h, []) (h', [p]) \<and> serve_begin demo_G demo_E udp_writer (ask ''www.example.'') demo_h = (Waiting p, h')"
  using demo_waits by (meson hstep.wait r_into_rtranclp)

theorem stats_match_log_witness:
  "\<exists>p h'. (hstep demo_G)\<^sup>*\<^sup>* (demo_h, []) (h', [p]) \<and> ct_total (hd_counter h') = length (hd_logged h')"
  using demo_reach stats_match_log [OF demo_libs_ok demo_fresh] by blast

text \<open>C18: at most 512 queries wait for an upstream at any moment, in every reachable state, and the slots in use
  are exactly the queries that wait: none is lost or given back twice. A query that finds no slot
  is answered at once, and one that gets a slot is one of those that wait.\<close>

theorem forward_slots_bounded:
  assumes "libs_ok G" "fresh_handler h0" "(hstep G)\<^sup>*\<^sup>* (h0, []) (h, ps)"
  shows "length ps \<le> 512 \<and> hd_slots h = length ps
    \<and> (length ps = 512 \<longrightarrow> (\<forall>E w req. \<exists>out. fst (serve_begin G E w req h) = Answered out))"
proof -
  have i: "hinv G (h, ps)" by (rule hinv_reachable [OF assms])
  have "\<exists>out. fst (serve_begin G E w req h) = Answered out" if "length ps = 512" for E w req
  proof (cases "serve_begin G E w req h")
    case (Pair b h')
    have "b \<noteq> Waiting p" for p using begin_waiting [of G E w req h p h'] Pair i that by (auto simp: hinv_def maxForwards_def)
    then show ?thesis using Pair by (cases b) auto
  qed
  then show ?thesis using i by (simp add: hinv_def maxForwards_def)
qed

theorem forward_slots_bounded_witness:
  "\<exists>p h'. (hstep demo_G)\<^sup>*\<^sup>* (demo_h, []) (h', [p]) \<and> hd_slots h' = 1"
proof -
  obtain p h' where r: "(hstep demo_G)\<^sup>*\<^sup>* (demo_h, []) (h', [p])" using demo_reach by blast
  have "hd_slots h' = length [p]" using forward_slots_bounded [OF demo_libs_ok demo_fresh r] by (elim conjE)
  then show ?thesis using r by auto
qed

text \<open>C2: every reply answers its own query, in every reachable state: it has the query's ID and one question, of the
  query's type and class and with the query's name up to letter case; and with CNAME inspection
  on, a successful reply for a name that is not allowlisted leads to no blocked name.\<close>

theorem reply_answers_query:
  assumes "libs_ok G" "fresh_handler h0" "(hstep G)\<^sup>*\<^sup>* (h0, []) (h, ps)" "on_lan G E w h" "well_formed req"
    and "ServeDNS G E E' N w req h = ((out, h'), cs)"
  shows "m_Id out = m_Id req
    \<and> (\<exists>q. m_Question out = [q] \<and> q_Qtype q = q_Qtype (m_Question req ! 0) \<and> q_Qclass q = q_Qclass (m_Question req ! 0)
         \<and> (q_Name q = q_Name (m_Question req ! 0) \<or> EqualFold (lib_U G) (q_Name q) (q_Name (m_Question req ! 0))))
    \<and> (hd_cnameInspection h \<and> m_Rcode out = RcodeSuccess \<and> \<not> IsAllowlisted (lib_U G) (hd_store h) (query_name G req) \<longrightarrow>
         list_all (\<lambda>t. \<not> IsBlocked (lib_U G) (hd_store h) t) (cname_targets (m_Answer out)))"
proof -
  have i: "hinv G (h, ps)" by (rule hinv_reachable [OF assms(1-3)])
  then have c: "cache_answers G h" by (simp add: hinv_def)
  obtain b h1 where b: "serve_begin G E w req h = (b, h1)" by force
  have bo: "begun_ok G h req (b, h1)" using begun_begin [OF assms(1,4,5) c] b by simp
  have len: "length (m_Question req) = 1" using assms(5) by (simp add: well_formed_def)
  have good: "good_reply G h req out"
  proof (cases b)
    case (Answered o1)
    then show ?thesis using bo assms(6) b by (simp add: begun_ok_def ServeDNS_def)
  next
    case (Waiting p)
    have p: "pd_req p = req" "pd_domain p = query_name G req" using begin_waiting [of G E w req h p h1] b Waiting by simp_all
    have "same_config h h1" using began_begin [OF assms(4,5) cache_answers_clean [OF c]] b Waiting by (simp add: began_def untouched_def)
    then have "served G h req (fst (serve_end G E' N p h1))"
      using served_end [OF assms(1), of p h1 h E' N] p len bo by (simp add: begun_ok_def)
    then show ?thesis using assms(6) b Waiting by (simp add: ServeDNS_def served_def)
  qed
  then obtain m where m: "m_Id out = m_Id req" "built_for G h req m" "m_Question out = m_Question m" "prefix (m_Answer out) (m_Answer m)"
      "m_Rcode out = m_Rcode m \<or> m_Rcode out = RcodeServerFailure" by (auto simp: good_reply_def)
  obtain q0 where q0: "m_Question req = [q0]" using len by (auto simp: length_Suc_conv)
  have "set (cname_targets (m_Answer out)) \<subseteq> set (cname_targets (m_Answer m))"
    using set_mono_prefix [OF m(4)] by (auto simp: cname_targets_def)
  then show ?thesis using m(1-3,5) q0
    by (auto simp: built_for_def answers_def chainBlocked_def list_all_iff list_ex_iff RcodeServerFailure_def RcodeSuccess_def
        split: if_splits)
qed

theorem reply_answers_query_witness:
  "\<exists>out h' cs. ServeDNS demo_G demo_E demo_E demo_net udp_writer (ask ''ads.example.'') demo_h = ((out, h'), cs) \<and> m_Id out = m_Id (ask ''ads.example.'')"
proof -
  obtain out h' cs where s: "ServeDNS demo_G demo_E demo_E demo_net udp_writer (ask ''ads.example.'') demo_h = ((out, h'), cs)"
    by (metis prod.exhaust)
  from reply_answers_query [OF demo_libs_ok demo_fresh rtranclp.rtrancl_refl demo_on_lan demo_well_formed s] s show ?thesis by blast
qed

end
