(* ===== verification/Config_Load.thy ===== *)
theory Config_Load
  imports Go_Prelude Net_Addr List_Loader Redact_Url "HOL-Library.AList"
begin

text \<open>
  Loading the configuration, \<open>src/internal/config/config.go\<close>: the YAML document, the environment
  variables, the checks that span settings and the filters of the lists.

  A setting of the source is a pair of closures over a pointer into the configuration. Here it is a
  record of functions on the configuration itself: a scalar parser returns the error text, or the
  configuration with the value stored. Every text of a problem is built as the source builds it.

  The YAML parser, \<open>time.ParseDuration\<close>, \<open>net.ParseCIDR\<close>, \<open>strconv.Quote\<close>, \<open>Duration.String\<close> and the
  loading of a certificate pair are the parameter record \<open>conflib\<close>. The nodes the YAML parser returns
  are the type \<open>Node\<close>, with the kinds of \<open>yaml.v3\<close>.
\<close>

section \<open>Model\<close>

subsection \<open>The configuration\<close>

record DNS =
  DNS_Listen :: string
  DNS_DoTListen :: string
  DNS_DoTCert :: string
  DNS_DoTKey :: string
  DNS_Upstreams :: "string list"
  DNS_CacheEntries :: int
  DNS_LocalPTR :: bool
  DNS_LocalDomains :: "string list"

record Blocking =
  Blk_Lists :: "string list"
  Blk_Allowlist :: "string list"
  Blk_Reply :: string
  Blk_ReplyTTLSeconds :: u32
  Blk_RefreshInterval :: duration
  Blk_CacheDir :: string
  Blk_CNAMEInspection :: bool

text \<open>\<open>ClientNames\<close> is a Go map: an association list with one entry for each key.\<close>

record QueryLog =
  QL_Mode :: string
  QL_Clients :: string
  QL_Database :: string
  QL_File :: string
  QL_RetentionDays :: int
  QL_FlushInterval :: duration
  QL_ClientNames :: "(string \<times> string) list"

record Admin =
  Adm_Listen :: string
  Adm_Pprof :: bool

record Config =
  c_DNS :: DNS
  c_Blocking :: Blocking
  c_QueryLog :: QueryLog
  c_Admin :: Admin
  c_StatsInterval :: duration

definition DefaultUpstreams :: "string list" where
  "DefaultUpstreams = [''https://9.9.9.9/dns-query'', ''https://1.1.1.1/dns-query'', ''9.9.9.9:53'', ''1.1.1.1:53'']"

definition defaultListen :: string where "defaultListen = '':53''"
definition defaultCacheEntries :: int where "defaultCacheEntries = 2000"
definition defaultReplyTTL :: u32 where "defaultReplyTTL = 300"
definition defaultRefreshInterval :: duration where "defaultRefreshInterval = 24 * hour"
definition defaultCacheDir :: string where "defaultCacheDir = ''.''"
definition defaultRetentionDays :: int where "defaultRetentionDays = 7"
definition defaultFlushInterval :: duration where "defaultFlushInterval = 30 * second"
definition defaultAdminListen :: string where "defaultAdminListen = ''127.0.0.1:8080''"
definition defaultStatsInterval :: duration where "defaultStatsInterval = 5 * minute"

definition defaults :: Config where
  "defaults = \<lparr>
     c_DNS = \<lparr>DNS_Listen = defaultListen, DNS_DoTListen = [], DNS_DoTCert = [], DNS_DoTKey = [],
       DNS_Upstreams = DefaultUpstreams, DNS_CacheEntries = defaultCacheEntries, DNS_LocalPTR = True,
       DNS_LocalDomains = []\<rparr>,
     c_Blocking = \<lparr>Blk_Lists = [], Blk_Allowlist = [], Blk_Reply = ''zero_ip'',
       Blk_ReplyTTLSeconds = defaultReplyTTL, Blk_RefreshInterval = defaultRefreshInterval,
       Blk_CacheDir = defaultCacheDir, Blk_CNAMEInspection = True\<rparr>,
     c_QueryLog = \<lparr>QL_Mode = ''none'', QL_Clients = ''drop'', QL_Database = [], QL_File = [],
       QL_RetentionDays = defaultRetentionDays, QL_FlushInterval = defaultFlushInterval, QL_ClientNames = []\<rparr>,
     c_Admin = \<lparr>Adm_Listen = defaultAdminListen, Adm_Pprof = False\<rparr>,
     c_StatsInterval = defaultStatsInterval\<rparr>"

record Problem =
  pr_Key :: string
  pr_Detail :: string

definition Problem_String :: "Problem \<Rightarrow> string" where
  "Problem_String p = pr_Key p @ '': '' @ pr_Detail p"

subsection \<open>YAML nodes and the libraries\<close>

datatype node_kind = NoKind | DocumentNode | SequenceNode | MappingNode | ScalarNode | AliasNode

datatype Node = Node (n_Kind: node_kind) (n_Tag: string) (n_Value: string) (n_Content: "Node list")

record conflib =
  cf_U :: unicode
  cf_K :: urllib
  cf_T :: iptext
  cf_ParseCIDR :: "string \<Rightarrow> bool"            \<comment> \<open>\<open>net.ParseCIDR\<close> succeeds\<close>
  cf_ParseDuration :: "string \<Rightarrow> int option"
  cf_Quote :: "string \<Rightarrow> string"
  cf_DurationString :: "int \<Rightarrow> string"
  cf_LoadX509KeyPair :: "string \<Rightarrow> string \<Rightarrow> string option"  \<comment> \<open>the error text\<close>
  cf_Unmarshal :: "string \<Rightarrow> string + Node"

definition is_null :: "Node \<Rightarrow> bool" where
  "is_null n = (n_Kind n = ScalarNode \<and> n_Tag n = ''!!null'')"

text \<open>The loop \<open>for i := 0; i+1 < len(x); i += 2\<close> over the content of a mapping.\<close>

fun pairs :: "'a list \<Rightarrow> ('a \<times> 'a) list" where
  "pairs (k # v # r) = (k, v) # pairs r"
| "pairs r = []"

subsection \<open>Setting parsers\<close>

text \<open>A parser gets the update function of its field in place of the pointer.\<close>

type_synonym 'a field = "('a \<Rightarrow> 'a) \<Rightarrow> Config \<Rightarrow> Config"
type_synonym scalar = "string \<Rightarrow> Config \<Rightarrow> string + Config"
type_synonym node_setter = "Node \<Rightarrow> Config \<Rightarrow> Problem list \<times> (string + Config)"

definition IsOff :: "conflib \<Rightarrow> string \<Rightarrow> bool" where
  "IsOff L v = (v = [] \<or> EqualFold (cf_U L) v ''off'')"

definition setString :: "string field \<Rightarrow> string \<Rightarrow> scalar" where
  "setString dst def raw c = (if raw = [] then Inr (dst (\<lambda>_. def) c) else Inr (dst (\<lambda>_. raw) c))"

definition setPath :: "string field \<Rightarrow> scalar" where
  "setPath dst raw c = Inr (dst (\<lambda>_. raw) c)"

definition setOptional :: "conflib \<Rightarrow> string field \<Rightarrow> scalar" where
  "setOptional L dst raw c = (if IsOff L raw then Inr (dst (\<lambda>_. []) c) else Inr (dst (\<lambda>_. raw) c))"

definition setFile :: "conflib \<Rightarrow> string field \<Rightarrow> scalar" where
  "setFile L dst raw c =
     (if IsOff L raw then Inr (dst (\<lambda>_. []) c)
      else if EqualFold (cf_U L) raw ''stdout'' then Inr (dst (\<lambda>_. ''stdout'') c)
      else Inr (dst (\<lambda>_. raw) c))"

definition quoteJoin :: "conflib \<Rightarrow> string list \<Rightarrow> string" where
  "quoteJoin L vals = (let q = map (cf_Quote L) vals in
     case q of [] \<Rightarrow> [] | [x] \<Rightarrow> x | _ \<Rightarrow> Join (butlast q) '', '' @ '' or '' @ List.last q)"

definition setEnum :: "conflib \<Rightarrow> string field \<Rightarrow> string \<Rightarrow> string list \<Rightarrow> scalar" where
  "setEnum L dst def allowed raw c =
     (if raw = [] then Inr (dst (\<lambda>_. def) c)
      else if raw \<in> set allowed then Inr (dst (\<lambda>_. raw) c)
      else Inl (cf_Quote L raw @ '' is not allowed (use '' @ quoteJoin L allowed @ '')''))"

definition setInt :: "conflib \<Rightarrow> int field \<Rightarrow> int \<Rightarrow> int \<Rightarrow> scalar" where
  "setInt L dst lowest def raw c =
     (if raw = [] then Inr (dst (\<lambda>_. def) c)
      else case Atoi (TrimSpace raw) of
        None \<Rightarrow> Inl (cf_Quote L raw @ '' is not a whole number'')
      | Some n \<Rightarrow> if n < lowest then Inl (Itoa n @ '' is below '' @ Itoa lowest) else Inr (dst (\<lambda>_. n) c))"

definition setUint32 :: "conflib \<Rightarrow> u32 field \<Rightarrow> u32 \<Rightarrow> scalar" where
  "setUint32 L dst def raw c =
     (if raw = [] then Inr (dst (\<lambda>_. def) c)
      else case ParseUint10 (TrimSpace raw) 32 of
        None \<Rightarrow> Inl (cf_Quote L raw @ '' is not a whole number from 0 to 4294967295'')
      | Some n \<Rightarrow> Inr (dst (\<lambda>_. of_int n) c))"

definition setBool :: "conflib \<Rightarrow> bool field \<Rightarrow> bool \<Rightarrow> scalar" where
  "setBool L dst def raw c =
     (if raw = [] then Inr (dst (\<lambda>_. def) c)
      else let v = ToLower (cf_U L) (TrimSpace raw) in
        if v \<in> {''true'', ''yes'', ''1''} then Inr (dst (\<lambda>_. True) c)
        else if v \<in> {''false'', ''no'', ''0''} then Inr (dst (\<lambda>_. False) c)
        else Inl (cf_Quote L raw @ '' is not true or false''))"

definition setDuration :: "conflib \<Rightarrow> duration field \<Rightarrow> duration \<Rightarrow> scalar" where
  "setDuration L dst def raw c =
     (if raw = [] then Inr (dst (\<lambda>_. def) c)
      else case cf_ParseDuration L (TrimSpace raw) of
        None \<Rightarrow> Inl (cf_Quote L raw @ '' is not a duration such as 30s, 5m, or 24h'')
      | Some d \<Rightarrow> if d \<le> 0 then Inl (cf_Quote L raw @ '' must be positive'') else Inr (dst (\<lambda>_. d) c))"

text \<open>The loop over the entries of a list: \<open>None\<close> where it meets an entry that is not a scalar.\<close>

fun list_items :: "bool \<Rightarrow> Node list \<Rightarrow> string list option" where
  "list_items keepEmpty [] = Some []"
| "list_items keepEmpty (item # rest) =
     (if n_Kind item \<noteq> ScalarNode then None
      else let v = (if n_Tag item = ''!!null'' then [] else n_Value item) in
        if v = [] \<and> \<not> keepEmpty then list_items keepEmpty rest
        else map_option (Cons v) (list_items keepEmpty rest))"

definition listSetter :: "string list field \<Rightarrow> bool \<Rightarrow> node_setter" where
  "listSetter dst keepEmpty n c =
     (if is_null n then ([], Inr (dst (\<lambda>_. []) c))
      else if n_Kind n \<noteq> SequenceNode then ([], Inl ''must be a list'')
      else case list_items keepEmpty (n_Content n) of
        None \<Rightarrow> ([], Inl ''every list entry must be a single value'')
      | Some out \<Rightarrow> ([], Inr (dst (\<lambda>_. out) c)))"

definition setList :: "string list field \<Rightarrow> node_setter" where
  "setList dst = listSetter dst False"

definition setListKeepEmpty :: "string list field \<Rightarrow> node_setter" where
  "setListKeepEmpty dst = listSetter dst True"

fun map_items :: "(Node \<times> Node) list \<Rightarrow> (string \<times> string) list \<Rightarrow> (string \<times> string) list option" where
  "map_items [] out = Some out"
| "map_items ((k, v) # rest) out =
     (if n_Kind k \<noteq> ScalarNode \<or> n_Kind v \<noteq> ScalarNode then None
      else map_items rest (AList.update (n_Value k) (n_Value v) out))"

definition setMap :: "(string \<times> string) list field \<Rightarrow> node_setter" where
  "setMap dst n c =
     (if is_null n then ([], Inr (dst (\<lambda>_. []) c))
      else if n_Kind n \<noteq> MappingNode then ([], Inl ''must be a map of key: value pairs'')
      else case map_items (pairs (n_Content n)) [] of
        None \<Rightarrow> ([], Inl ''every entry must be key: value'')
      | Some out \<Rightarrow> ([], Inr (dst (\<lambda>_. out) c)))"

subsection \<open>Value printers\<close>

definition quoted :: "conflib \<Rightarrow> (Config \<Rightarrow> string) \<Rightarrow> Config \<Rightarrow> string" where
  "quoted L p c = cf_Quote L (p c)"

definition offOr :: "conflib \<Rightarrow> (Config \<Rightarrow> string) \<Rightarrow> Config \<Rightarrow> string" where
  "offOr L p c = (if p c = [] then ''off'' else cf_Quote L (p c))"

definition cf_itoa :: "(Config \<Rightarrow> int) \<Rightarrow> Config \<Rightarrow> string" where
  "cf_itoa p c = Itoa (p c)"

definition cf_btoa :: "(Config \<Rightarrow> bool) \<Rightarrow> Config \<Rightarrow> string" where
  "cf_btoa p c = (if p c then ''true'' else ''false'')"

definition dtoa :: "conflib \<Rightarrow> (Config \<Rightarrow> duration) \<Rightarrow> Config \<Rightarrow> string" where
  "dtoa L p c = cf_DurationString L (p c)"

definition count_of :: "string \<Rightarrow> (Config \<Rightarrow> 'a list) \<Rightarrow> Config \<Rightarrow> string" where
  "count_of what p c = Itoa (int (length (p c))) @ what"

subsection \<open>The settings\<close>

datatype setter = Scalar scalar | NodeSetter node_setter

record setting =
  s_key :: string
  s_set :: setter
  s_current :: "Config \<Rightarrow> string"

abbreviation (input) "dns_of f \<equiv> (\<lambda>c. f (c_DNS c))"
abbreviation (input) "blk_of f \<equiv> (\<lambda>c. f (c_Blocking c))"
abbreviation (input) "qlog_of f \<equiv> (\<lambda>c. f (c_QueryLog c))"
abbreviation (input) "adm_of f \<equiv> (\<lambda>c. f (c_Admin c))"

abbreviation (input) "in_dns u \<equiv> (\<lambda>f. c_DNS_update (u f))"
abbreviation (input) "in_blk u \<equiv> (\<lambda>f. c_Blocking_update (u f))"
abbreviation (input) "in_qlog u \<equiv> (\<lambda>f. c_QueryLog_update (u f))"
abbreviation (input) "in_adm u \<equiv> (\<lambda>f. c_Admin_update (u f))"

definition scalar_setting :: "string \<Rightarrow> scalar \<Rightarrow> (Config \<Rightarrow> string) \<Rightarrow> setting" where
  "scalar_setting k f cur = \<lparr>s_key = k, s_set = Scalar f, s_current = cur\<rparr>"

definition node_setting :: "string \<Rightarrow> node_setter \<Rightarrow> (Config \<Rightarrow> string) \<Rightarrow> setting" where
  "node_setting k f cur = \<lparr>s_key = k, s_set = NodeSetter f, s_current = cur\<rparr>"

definition settings :: "conflib \<Rightarrow> setting list" where
  "settings L = [
     scalar_setting ''dns.listen'' (setString (in_dns DNS_Listen_update) defaultListen) (quoted L (dns_of DNS_Listen)),
     scalar_setting ''dns.dot_listen'' (setOptional L (in_dns DNS_DoTListen_update)) (offOr L (dns_of DNS_DoTListen)),
     scalar_setting ''dns.dot_cert'' (setPath (in_dns DNS_DoTCert_update)) (quoted L (dns_of DNS_DoTCert)),
     scalar_setting ''dns.dot_key'' (setPath (in_dns DNS_DoTKey_update)) (quoted L (dns_of DNS_DoTKey)),
     node_setting ''dns.upstreams'' (setList (in_dns DNS_Upstreams_update)) (\<lambda>c. Join (DNS_Upstreams (c_DNS c)) '', ''),
     scalar_setting ''dns.cache_entries'' (setInt L (in_dns DNS_CacheEntries_update) 0 defaultCacheEntries) (cf_itoa (dns_of DNS_CacheEntries)),
     scalar_setting ''dns.local_ptr'' (setBool L (in_dns DNS_LocalPTR_update) True) (cf_btoa (dns_of DNS_LocalPTR)),
     node_setting ''dns.local_domains'' (setListKeepEmpty (in_dns DNS_LocalDomains_update)) (count_of '' domains'' (dns_of DNS_LocalDomains)),

     node_setting ''blocking.lists'' (setList (in_blk Blk_Lists_update)) (count_of '' lists'' (blk_of Blk_Lists)),
     node_setting ''blocking.allowlist'' (setList (in_blk Blk_Allowlist_update)) (count_of '' domains'' (blk_of Blk_Allowlist)),
     scalar_setting ''blocking.reply'' (setEnum L (in_blk Blk_Reply_update) ''zero_ip'' [''zero_ip'', ''nxdomain'']) (quoted L (blk_of Blk_Reply)),
     scalar_setting ''blocking.reply_ttl_seconds'' (setUint32 L (in_blk Blk_ReplyTTLSeconds_update) defaultReplyTTL) (\<lambda>c. Itoa (uint (Blk_ReplyTTLSeconds (c_Blocking c)))),
     scalar_setting ''blocking.refresh_interval'' (setDuration L (in_blk Blk_RefreshInterval_update) defaultRefreshInterval) (dtoa L (blk_of Blk_RefreshInterval)),
     scalar_setting ''blocking.cache_dir'' (setString (in_blk Blk_CacheDir_update) defaultCacheDir) (quoted L (blk_of Blk_CacheDir)),
     scalar_setting ''blocking.cname_inspection'' (setBool L (in_blk Blk_CNAMEInspection_update) True) (cf_btoa (blk_of Blk_CNAMEInspection)),

     scalar_setting ''query_log.mode'' (setEnum L (in_qlog QL_Mode_update) ''none'' [''none'', ''blocked'', ''all'']) (quoted L (qlog_of QL_Mode)),
     scalar_setting ''query_log.clients'' (setEnum L (in_qlog QL_Clients_update) ''drop'' [''drop'', ''subnet'', ''full'']) (quoted L (qlog_of QL_Clients)),
     scalar_setting ''query_log.database'' (setOptional L (in_qlog QL_Database_update)) (offOr L (qlog_of QL_Database)),
     scalar_setting ''query_log.file'' (setFile L (in_qlog QL_File_update)) (offOr L (qlog_of QL_File)),
     scalar_setting ''query_log.retention_days'' (setInt L (in_qlog QL_RetentionDays_update) 0 defaultRetentionDays) (cf_itoa (qlog_of QL_RetentionDays)),
     scalar_setting ''query_log.flush_interval'' (setDuration L (in_qlog QL_FlushInterval_update) defaultFlushInterval) (dtoa L (qlog_of QL_FlushInterval)),
     node_setting ''query_log.client_names'' (setMap (in_qlog QL_ClientNames_update)) (count_of '' labels'' (qlog_of QL_ClientNames)),

     scalar_setting ''admin.listen'' (setString (in_adm Adm_Listen_update) defaultAdminListen) (quoted L (adm_of Adm_Listen)),
     scalar_setting ''admin.pprof'' (setBool L (in_adm Adm_Pprof_update) False) (cf_btoa (adm_of Adm_Pprof)),

     scalar_setting ''stats_interval'' (setDuration L c_StatsInterval_update defaultStatsInterval) (dtoa L c_StatsInterval)]"

definition ToUpper :: "string \<Rightarrow> string" where
  "ToUpper s = map (\<lambda>c. if is_lower c then char_of (byte_of c - 32) else c) s"

definition envName :: "string \<Rightarrow> string" where
  "envName key = ''S_HOLE_'' @ ToUpper (ReplaceAll key ''.'' ''_'')"

definition sections :: "string list" where
  "sections = [''dns'', ''blocking'', ''query_log'', ''admin'']"

definition renamedKeys :: "(string \<times> string) list" where
  "renamedKeys = [
     (''listen'', ''dns.listen''), (''dot_listen'', ''dns.dot_listen''), (''tls_cert'', ''dns.dot_cert''),
     (''tls_key'', ''dns.dot_key''), (''upstreams'', ''dns.upstreams''), (''cache_size'', ''dns.cache_entries''),
     (''local_ptr'', ''dns.local_ptr''), (''blocklists'', ''blocking.lists''), (''whitelist'', ''blocking.allowlist''),
     (''block_mode'', ''blocking.reply''), (''block_ttl'', ''blocking.reply_ttl_seconds''),
     (''refresh_interval'', ''blocking.refresh_interval''), (''cache_dir'', ''blocking.cache_dir''),
     (''log_queries'', ''query_log.mode''), (''query_privacy'', ''query_log.clients''),
     (''query_db'', ''query_log.database''), (''log_file'', ''query_log.file''),
     (''query_db_retention_days'', ''query_log.retention_days''), (''db_flush_interval'', ''query_log.flush_interval''),
     (''client_names'', ''query_log.client_names''), (''api_listen'', ''admin.listen''), (''enable_pprof'', ''admin.pprof'')]"

definition renamedEnv :: "(string \<times> string) list" where
  "renamedEnv = [
     (''S_HOLE_LISTEN'', ''S_HOLE_DNS_LISTEN''), (''S_HOLE_DOT_LISTEN'', ''S_HOLE_DNS_DOT_LISTEN''),
     (''S_HOLE_TLS_CERT'', ''S_HOLE_DNS_DOT_CERT''), (''S_HOLE_TLS_KEY'', ''S_HOLE_DNS_DOT_KEY''),
     (''S_HOLE_CACHE_SIZE'', ''S_HOLE_DNS_CACHE_ENTRIES''), (''S_HOLE_LOCAL_PTR'', ''S_HOLE_DNS_LOCAL_PTR''),
     (''S_HOLE_BLOCK_MODE'', ''S_HOLE_BLOCKING_REPLY''), (''S_HOLE_BLOCK_TTL'', ''S_HOLE_BLOCKING_REPLY_TTL_SECONDS''),
     (''S_HOLE_REFRESH_INTERVAL'', ''S_HOLE_BLOCKING_REFRESH_INTERVAL''), (''S_HOLE_CACHE_DIR'', ''S_HOLE_BLOCKING_CACHE_DIR''),
     (''S_HOLE_LOG_QUERIES'', ''S_HOLE_QUERY_LOG_MODE''), (''S_HOLE_QUERY_PRIVACY'', ''S_HOLE_QUERY_LOG_CLIENTS''),
     (''S_HOLE_QUERY_DB'', ''S_HOLE_QUERY_LOG_DATABASE''), (''S_HOLE_LOG_FILE'', ''S_HOLE_QUERY_LOG_FILE''),
     (''S_HOLE_RETENTION_DAYS'', ''S_HOLE_QUERY_LOG_RETENTION_DAYS''), (''S_HOLE_DB_FLUSH_INTERVAL'', ''S_HOLE_QUERY_LOG_FLUSH_INTERVAL''),
     (''S_HOLE_API_LISTEN'', ''S_HOLE_ADMIN_LISTEN''), (''S_HOLE_ENABLE_PPROF'', ''S_HOLE_ADMIN_PPROF'')]"

definition otherEnv :: "string list" where
  "otherEnv = [''S_HOLE_LOG_FORMAT'', ''S_HOLE_ASCII_BANNER'']"

text \<open>\<open>lookup_setting\<close> is the map \<open>byKey\<close> of \<open>applyYAML\<close>.\<close>

definition lookup_setting :: "conflib \<Rightarrow> string \<Rightarrow> setting option" where
  "lookup_setting L key = find (\<lambda>s. s_key s = key) (settings L)"

subsection \<open>The YAML file\<close>

text \<open>The raw text of a scalar node; a null is the empty text.\<close>

definition raw_value :: "Node \<Rightarrow> string" where
  "raw_value val = (if n_Tag val = ''!!null'' then [] else n_Value val)"

definition applyNode :: "setting \<Rightarrow> Node \<Rightarrow> Config \<Rightarrow> Problem list \<times> Config" where
  "applyNode s val c = (case s_set s of
     NodeSetter f \<Rightarrow>
       (case f val c of
          (probs, Inl err) \<Rightarrow> (probs @ [\<lparr>pr_Key = s_key s, pr_Detail = err @ ''; using the default''\<rparr>], c)
        | (probs, Inr c') \<Rightarrow> (probs, c'))
   | Scalar f \<Rightarrow>
       if n_Kind val \<noteq> ScalarNode then
         ([\<lparr>pr_Key = s_key s, pr_Detail = ''must be a single value; using '' @ s_current s c\<rparr>], c)
       else (case f (raw_value val) c of
          Inl err \<Rightarrow> ([\<lparr>pr_Key = s_key s, pr_Detail = err @ ''; using '' @ s_current s c\<rparr>], c)
        | Inr c' \<Rightarrow> ([], c')))"

text \<open>The state of \<open>applyYAML\<close>: the configuration, the keys seen and the problems so far.\<close>

type_synonym yaml_state = "Config \<times> string list \<times> Problem list"

definition apply_key :: "conflib \<Rightarrow> string \<Rightarrow> Node \<Rightarrow> yaml_state \<Rightarrow> yaml_state" where
  "apply_key L key val st = (case st of (c, seen, probs) \<Rightarrow>
     let probs1 = (if key \<in> set seen
           then probs @ [\<lparr>pr_Key = key, pr_Detail = ''is set more than once; the last value is used''\<rparr>] else probs)
     in case lookup_setting L key of
          None \<Rightarrow> (c, key # seen, probs1 @ [\<lparr>pr_Key = key, pr_Detail = ''is not a known setting; it is ignored''\<rparr>])
        | Some s \<Rightarrow> (case applyNode s val c of (ps, c') \<Rightarrow> (c', key # seen, probs1 @ ps)))"

definition apply_top :: "conflib \<Rightarrow> Node \<times> Node \<Rightarrow> yaml_state \<Rightarrow> yaml_state" where
  "apply_top L kv st = (let k = n_Value (fst kv); v = snd kv in
     if k \<in> set sections then
       (if is_null v then st
        else if n_Kind v \<noteq> MappingNode then
          (case st of (c, seen, probs) \<Rightarrow>
             (c, seen, probs @ [\<lparr>pr_Key = k, pr_Detail = ''must be a section of settings; it is ignored''\<rparr>]))
        else fold (\<lambda>(kn, vn). apply_key L (k @ ''.'' @ n_Value kn) vn) (pairs (n_Content v)) st)
     else case map_of renamedKeys k of
       Some new \<Rightarrow> (case st of (c, seen, probs) \<Rightarrow>
         (c, seen, probs @ [\<lparr>pr_Key = k, pr_Detail = ''was renamed to '' @ new @ '' in s-hole 2.0; the old key is ignored''\<rparr>]))
     | None \<Rightarrow> apply_key L k v st)"

definition applyYAML :: "conflib \<Rightarrow> Node \<Rightarrow> Config \<Rightarrow> Problem list \<times> Config" where
  "applyYAML L root c =
     (if n_Kind root = NoKind \<or> n_Content root = [] then ([], c)
      else let doc = hd (n_Content root) in
        if is_null doc then ([], c)
        else if n_Kind doc \<noteq> MappingNode then
          ([\<lparr>pr_Key = ''config'', pr_Detail = ''the file must be a mapping of keys to values; the whole file is ignored and every setting uses its default''\<rparr>], c)
        else (case fold (apply_top L) (pairs (n_Content doc)) (c, [], []) of (c', _, probs) \<Rightarrow> (probs, c')))"

subsection \<open>The environment\<close>

definition apply_env_one :: "(string \<Rightarrow> string option) \<Rightarrow> setting \<Rightarrow> Problem list \<times> Config \<Rightarrow> Problem list \<times> Config" where
  "apply_env_one look s st = (case s_set s of
     NodeSetter f \<Rightarrow> st
   | Scalar f \<Rightarrow>
       (case look (envName (s_key s)) of
          None \<Rightarrow> st
        | Some v \<Rightarrow>
            (case f v (snd st) of
               Inl err \<Rightarrow> (fst st @ [\<lparr>pr_Key = envName (s_key s), pr_Detail = err @ ''; the variable is ignored and ''
                             @ s_key s @ '' stays '' @ s_current s (snd st)\<rparr>], snd st)
             | Inr c' \<Rightarrow> (fst st, c'))))"

definition is_scalar :: "setting \<Rightarrow> bool" where
  "is_scalar s = (case s_set s of Scalar f \<Rightarrow> True | NodeSetter f \<Rightarrow> False)"

definition known_env :: "conflib \<Rightarrow> string list" where
  "known_env L = map (\<lambda>s. envName (s_key s)) (filter is_scalar (settings L))"

definition unknown_env :: "conflib \<Rightarrow> string list \<Rightarrow> string list" where
  "unknown_env L environ = sort_Strings (filter (\<lambda>name. HasPrefix name ''S_HOLE_'' \<and> name \<notin> set (known_env L)
       \<and> name \<notin> set otherEnv) (map (\<lambda>kv. fst (Cut kv (CHR ''=''))) environ))"

definition unknown_problem :: "string \<Rightarrow> Problem" where
  "unknown_problem name = \<lparr>pr_Key = name, pr_Detail = (case map_of renamedEnv name of
       Some to \<Rightarrow> ''was renamed to '' @ to @ '' in s-hole 2.0; the old variable is ignored''
     | None \<Rightarrow> ''is not a known s-hole variable; it is ignored'')\<rparr>"

definition applyEnv :: "conflib \<Rightarrow> (string \<Rightarrow> string option) \<Rightarrow> string list \<Rightarrow> Config \<Rightarrow> Problem list \<times> Config" where
  "applyEnv L look environ c =
     (case fold (apply_env_one look) (settings L) ([], c) of (probs, c') \<Rightarrow>
        (probs @ map unknown_problem (unknown_env L environ), c'))"

subsection \<open>The filters of the lists\<close>

definition isHostPort :: "string \<Rightarrow> bool" where
  "isHostPort s = (case SplitHostPort s of None \<Rightarrow> False | Some (_, port) \<Rightarrow> port \<noteq> [])"

definition client_key :: "conflib \<Rightarrow> string \<Rightarrow> bool" where
  "client_key L key = (ParseIP (cf_T L) key \<noteq> None \<or> cf_ParseCIDR L key)"

definition filterClientNames :: "conflib \<Rightarrow> (string \<times> string) list \<Rightarrow> (string \<times> string) list \<times> string list" where
  "filterClientNames L m =
     (filter (\<lambda>(key, label). client_key L key) m,
      sort_Strings (map fst (filter (\<lambda>(key, label). \<not> client_key L key) m)))"

fun filterAllowlist :: "string list \<Rightarrow> string list \<times> string list" where
  "filterAllowlist [] = ([], [])"
| "filterAllowlist (d # rest) = (case filterAllowlist rest of (valid, dropped) \<Rightarrow>
     if ValidDomain d then (d # valid, dropped) else (valid, d # dropped))"

definition local_char :: "char \<Rightarrow> bool" where
  "local_char c = (is_lower c \<or> is_digit c \<or> c = CHR ''-'' \<or> c = CHR ''_'')"

definition local_label :: "string \<Rightarrow> bool" where
  "local_label label =
     (if label = [] \<or> 63 < length label \<or> hd label = CHR ''-'' \<or> List.last label = CHR ''-'' then False
      else list_all local_char label)"

definition validLocalDomain :: "string \<Rightarrow> bool" where
  "validLocalDomain d =
     (if d = [] \<or> 253 < length d then False else list_all local_label (Split d (CHR ''.'')))"

definition local_form :: "conflib \<Rightarrow> string \<Rightarrow> string" where
  "local_form L raw =
     (let d = ToLower (cf_U L) (TrimSpace raw);
          d = TrimPrefix d ''*.'';
          d = TrimPrefix d ''.''
      in TrimSuffix d ''.'')"

text \<open>The loop of \<open>filterLocalDomains\<close>: the keys of \<open>seen\<close> are the entries of \<open>valid\<close>.\<close>

fun local_loop :: "conflib \<Rightarrow> string list \<Rightarrow> string list \<times> string list \<Rightarrow> string list \<times> string list" where
  "local_loop L [] acc = acc"
| "local_loop L (raw # rest) (valid, dropped) = (let d = local_form L raw in
     if \<not> validLocalDomain d then local_loop L rest (valid, dropped @ [raw])
     else if d \<notin> set valid then local_loop L rest (valid @ [d], dropped)
     else local_loop L rest (valid, dropped))"

definition filterLocalDomains :: "conflib \<Rightarrow> string list \<Rightarrow> string list \<times> string list" where
  "filterLocalDomains L entries = local_loop L entries ([], [])"

definition normalizeDoHURL :: "conflib \<Rightarrow> string \<Rightarrow> string option" where
  "normalizeDoHURL L u = (case url_Parse (cf_K L) u of
     None \<Rightarrow> None
   | Some parsed \<Rightarrow>
       if ur_Scheme parsed \<noteq> ''https'' \<or> ur_User parsed \<noteq> None then None
       else if ur_Path parsed = [] \<or> ur_Path parsed = ''/'' then None
       else if ParseIP (cf_T L) (url_Hostname (cf_K L) (ur_Host parsed)) = None then None
       else Some (url_String (cf_K L) parsed))"

definition upstream_form :: "conflib \<Rightarrow> string \<Rightarrow> string option" where
  "upstream_form L u =
     (if Contains u ''://'' then normalizeDoHURL L u
      else case SplitHostPort u of
        None \<Rightarrow> None
      | Some (host, port) \<Rightarrow> if host = [] \<or> port = [] then None else Some u)"

fun filterUpstreams :: "conflib \<Rightarrow> string list \<Rightarrow> string list \<times> string list" where
  "filterUpstreams L [] = ([], [])"
| "filterUpstreams L (u # rest) = (case filterUpstreams L rest of (valid, dropped) \<Rightarrow>
     case upstream_form L u of Some v \<Rightarrow> (v # valid, dropped) | None \<Rightarrow> (valid, u # dropped))"

subsection \<open>The checks\<close>

definition checkDoT :: "conflib \<Rightarrow> Config \<Rightarrow> string option" where
  "checkDoT L c =
     (if DNS_DoTCert (c_DNS c) = [] \<or> DNS_DoTKey (c_DNS c) = []
      then Some ''dns.dot_listen is set, so dns.dot_cert and dns.dot_key are required''
      else map_option (\<lambda>e. ''dns.dot_cert/dns.dot_key: cannot load the DoT certificate: '' @ e)
             (cf_LoadX509KeyPair L (DNS_DoTCert (c_DNS c)) (DNS_DoTKey (c_DNS c))))"

definition listen_error :: "conflib \<Rightarrow> string \<Rightarrow> string" where
  "listen_error L s = ''dns.listen '' @ cf_Quote L s @ '': must be host:port, such as \":53\"''"

definition admin_problem :: "conflib \<Rightarrow> string \<Rightarrow> Problem" where
  "admin_problem L s = \<lparr>pr_Key = ''admin.listen'', pr_Detail = cf_Quote L s @ '' is not host:port; using '' @ cf_Quote L defaultAdminListen\<rparr>"

definition upstream_problem :: "conflib \<Rightarrow> string \<Rightarrow> Problem" where
  "upstream_problem L u = \<lparr>pr_Key = ''dns.upstreams'', pr_Detail = cf_Quote L (redact_URL (cf_K L) u)
     @ '' is malformed and is ignored (use IP:port, such as 9.9.9.9:53, or a DoH URL with an IP host and a path, such as https://9.9.9.9/dns-query, with no user name or password)''\<rparr>"

definition upstreams_error :: string where
  "upstreams_error = ''dns.upstreams: every entry is malformed, so s-hole cannot forward any query (use IP:port, such as 9.9.9.9:53, or a DoH URL such as https://9.9.9.9/dns-query)''"

definition local_problem :: "conflib \<Rightarrow> string \<Rightarrow> Problem" where
  "local_problem L d = \<lparr>pr_Key = ''dns.local_domains'', pr_Detail = cf_Quote L d @ '' is not a valid domain and is ignored (use a name such as home.example or lan)''\<rparr>"

definition allow_problem :: "conflib \<Rightarrow> string \<Rightarrow> Problem" where
  "allow_problem L d = \<lparr>pr_Key = ''blocking.allowlist'', pr_Detail = cf_Quote L d @ '' is not a valid domain and is ignored''\<rparr>"

definition client_problem :: "conflib \<Rightarrow> string \<Rightarrow> Problem" where
  "client_problem L k = \<lparr>pr_Key = ''query_log.client_names'', pr_Detail = ''key '' @ cf_Quote L k @ '' is not an IP address or a CIDR and is ignored''\<rparr>"

definition dot_problem :: "conflib \<Rightarrow> string \<Rightarrow> Problem" where
  "dot_problem L s = \<lparr>pr_Key = ''dns.dot_listen'', pr_Detail = cf_Quote L s @ '' is not host:port; DoT stays off''\<rparr>"

text \<open>The four parts of \<open>check\<close> in order: the admin address, the upstreams, the lists, DoT.\<close>

definition check_admin :: "conflib \<Rightarrow> Config \<Rightarrow> Problem list \<times> Config" where
  "check_admin L c =
     (if \<not> isHostPort (Adm_Listen (c_Admin c))
      then ([admin_problem L (Adm_Listen (c_Admin c))], c\<lparr>c_Admin := (c_Admin c)\<lparr>Adm_Listen := defaultAdminListen\<rparr>\<rparr>)
      else ([], c))"

definition check_upstreams :: "conflib \<Rightarrow> Config \<Rightarrow> Problem list \<times> (string + Config)" where
  "check_upstreams L c =
     (if DNS_Upstreams (c_DNS c) = []
      then ([], Inr (c\<lparr>c_DNS := (c_DNS c)\<lparr>DNS_Upstreams := DefaultUpstreams\<rparr>\<rparr>))
      else case filterUpstreams L (DNS_Upstreams (c_DNS c)) of (valid, dropped) \<Rightarrow>
        (map (upstream_problem L) dropped,
         if valid = [] then Inl upstreams_error
         else Inr (c\<lparr>c_DNS := (c_DNS c)\<lparr>DNS_Upstreams := valid\<rparr>\<rparr>)))"

definition check_lists :: "conflib \<Rightarrow> Config \<Rightarrow> Problem list \<times> Config" where
  "check_lists L c =
     (case filterLocalDomains L (DNS_LocalDomains (c_DNS c)) of (locals, badLocal) \<Rightarrow>
      case filterAllowlist (Blk_Allowlist (c_Blocking c)) of (allow, badDomains) \<Rightarrow>
      case filterClientNames L (QL_ClientNames (c_QueryLog c)) of (names, badKeys) \<Rightarrow>
        (map (local_problem L) badLocal @ map (allow_problem L) badDomains @ map (client_problem L) badKeys,
         c\<lparr>c_DNS := (c_DNS c)\<lparr>DNS_LocalDomains := locals\<rparr>,
           c_Blocking := (c_Blocking c)\<lparr>Blk_Allowlist := allow\<rparr>,
           c_QueryLog := (c_QueryLog c)\<lparr>QL_ClientNames := names\<rparr>\<rparr>))"

definition check_dot :: "conflib \<Rightarrow> Config \<Rightarrow> Problem list \<times> (string + Config)" where
  "check_dot L c =
     (if DNS_DoTListen (c_DNS c) \<noteq> [] then
        (if \<not> isHostPort (DNS_DoTListen (c_DNS c))
         then ([dot_problem L (DNS_DoTListen (c_DNS c))], Inr (c\<lparr>c_DNS := (c_DNS c)\<lparr>DNS_DoTListen := []\<rparr>\<rparr>))
         else case checkDoT L c of Some err \<Rightarrow> ([], Inl err) | None \<Rightarrow> ([], Inr c))
      else ([], Inr c))"

definition check :: "conflib \<Rightarrow> Config \<Rightarrow> Problem list \<times> (string + Config)" where
  "check L c =
     (if \<not> isHostPort (DNS_Listen (c_DNS c)) then ([], Inl (listen_error L (DNS_Listen (c_DNS c))))
      else case check_admin L c of (p1, c1) \<Rightarrow>
        (case check_upstreams L c1 of
           (p2, Inl err) \<Rightarrow> (p1 @ p2, Inl err)
         | (p2, Inr c2) \<Rightarrow>
             (case check_lists L c2 of (p3, c3) \<Rightarrow>
              case check_dot L c3 of (p4, r) \<Rightarrow> (p1 @ p2 @ p3 @ p4, r))))"

subsection \<open>Loading\<close>

definition apply_sources :: "conflib \<Rightarrow> Node \<Rightarrow> (string \<Rightarrow> string option) \<Rightarrow> string list \<Rightarrow> Problem list \<times> Config" where
  "apply_sources L root look environ =
     (case applyYAML L root defaults of (p1, c1) \<Rightarrow>
      case applyEnv L look environ c1 of (p2, c2) \<Rightarrow> (p1 @ p2, c2))"

definition load_config :: "conflib \<Rightarrow> string \<Rightarrow> (string \<Rightarrow> string option) \<Rightarrow> string list \<Rightarrow> Problem list \<times> (string + Config)" where
  "load_config L data look environ = (case cf_Unmarshal L data of
     Inl err \<Rightarrow> ([], Inl (''config is not valid YAML: '' @ err))
   | Inr root \<Rightarrow>
       (case apply_sources L root look environ of (p1, c) \<Rightarrow>
        case check L c of (p2, r) \<Rightarrow> (p1 @ p2, r)))"

text \<open>\<open>Load\<close>: the file is an argument, an error text or its bytes.\<close>

definition config_Load :: "conflib \<Rightarrow> string + string \<Rightarrow> (string \<Rightarrow> string option) \<Rightarrow> string list \<Rightarrow> Problem list \<times> (string + Config)" where
  "config_Load L file look environ = (case file of
     Inl err \<Rightarrow> ([], Inl err) | Inr data \<Rightarrow> load_config L data look environ)"

subsection \<open>Notes about the upstreams\<close>

definition UpstreamNotes :: "Config \<Rightarrow> string list" where
  "UpstreamNotes c =
     (let ups = DNS_Upstreams (c_DNS c);
          doh = length (filter (\<lambda>u. HasPrefix u ''https://'') ups);
          plain = length (filter (\<lambda>u. \<not> HasPrefix u ''https://'') ups)
      in (if length ups = 1 then [''single upstream configured; no forwarding fallback if it fails''] else [])
         @ (if 0 < doh \<and> plain = 0 then
              [''every upstream is DoH; if TLS fails (for example, the system clock is wrong), s-hole cannot resolve names until it works again'']
            else if 0 < doh \<and> 0 < plain then
              [''plain upstreams are a fallback; for a public name, s-hole uses one only when every DoH upstream has failed, and warns once a minute while it does'']
            else []))"

section \<open>Lemmas\<close>

subsection \<open>What a setting accepts\<close>

text \<open>The value that each kind of parser reads, without the place where it is stored.\<close>

definition dec_string :: "string \<Rightarrow> string \<Rightarrow> string option" where
  "dec_string def raw = Some (if raw = [] then def else raw)"

definition dec_optional :: "conflib \<Rightarrow> string \<Rightarrow> string option" where
  "dec_optional L raw = Some (if IsOff L raw then [] else raw)"

definition dec_file :: "conflib \<Rightarrow> string \<Rightarrow> string option" where
  "dec_file L raw = Some (if IsOff L raw then [] else if EqualFold (cf_U L) raw ''stdout'' then ''stdout'' else raw)"

definition dec_enum :: "string \<Rightarrow> string list \<Rightarrow> string \<Rightarrow> string option" where
  "dec_enum def allowed raw =
     (if raw = [] then Some def else if raw \<in> set allowed then Some raw else None)"

definition dec_int :: "int \<Rightarrow> int \<Rightarrow> string \<Rightarrow> int option" where
  "dec_int lowest def raw =
     (if raw = [] then Some def
      else case Atoi (TrimSpace raw) of None \<Rightarrow> None | Some n \<Rightarrow> if n < lowest then None else Some n)"

definition dec_bool :: "conflib \<Rightarrow> bool \<Rightarrow> string \<Rightarrow> bool option" where
  "dec_bool L def raw =
     (if raw = [] then Some def
      else let v = ToLower (cf_U L) (TrimSpace raw) in
        if v \<in> {''true'', ''yes'', ''1''} then Some True
        else if v \<in> {''false'', ''no'', ''0''} then Some False else None)"

text \<open>\<open>stores f dst dec\<close>: the parser stores what \<open>dec\<close> reads, and refuses what \<open>dec\<close> refuses.\<close>

definition stores :: "scalar \<Rightarrow> 'a field \<Rightarrow> (string \<Rightarrow> 'a option) \<Rightarrow> bool" where
  "stores f dst dec = (\<forall>raw c. case dec raw of
       None \<Rightarrow> \<exists>e. f raw c = Inl e | Some x \<Rightarrow> f raw c = Inr (dst (\<lambda>_. x) c))"

named_theorems stores_intros \<open>what each parser stores\<close>

lemma stores_setString [stores_intros]: "stores (setString dst def) dst (dec_string def)"
  by (simp add: stores_def setString_def dec_string_def)

lemma stores_setOptional [stores_intros]: "stores (setOptional L dst) dst (dec_optional L)"
  by (simp add: stores_def setOptional_def dec_optional_def)

lemma stores_setFile [stores_intros]: "stores (setFile L dst) dst (dec_file L)"
  by (simp add: stores_def setFile_def dec_file_def)

lemma stores_setEnum [stores_intros]: "stores (setEnum L dst def allowed) dst (dec_enum def allowed)"
  by (simp add: stores_def setEnum_def dec_enum_def)

lemma stores_setInt [stores_intros]: "stores (setInt L dst lowest def) dst (dec_int lowest def)"
  by (simp add: stores_def setInt_def dec_int_def split: option.split)

lemma stores_setBool [stores_intros]: "stores (setBool L dst def) dst (dec_bool L def)"
  by (simp add: stores_def setBool_def dec_bool_def Let_def)

lemma setting_fields [simp]:
  "s_key (scalar_setting k f cur) = k" "s_set (scalar_setting k f cur) = Scalar f"
  "s_key (node_setting k g cur) = k" "s_set (node_setting k g cur) = NodeSetter g"
  by (simp_all add: scalar_setting_def node_setting_def)

lemma settings_distinct: "distinct (map s_key (settings L))"
  by (simp add: settings_def)

lemma lookup_setting_Some: "lookup_setting L k = Some s \<Longrightarrow> s \<in> set (settings L) \<and> s_key s = k"
  by (auto simp: lookup_setting_def find_Some_iff)

lemma lookup_setting_key:
  assumes "s \<in> set (settings L)"
  shows "lookup_setting L (s_key s) = Some s"
proof -
  have "lookup_setting L (s_key s) \<noteq> None"
    using assms by (auto simp: lookup_setting_def find_None_iff)
  then obtain s' where s': "lookup_setting L (s_key s) = Some s'" by blast
  then have "s' \<in> set (settings L)" "s_key s' = s_key s" using lookup_setting_Some by blast+
  then have "s' = s" using assms settings_distinct [of L] by (auto simp: distinct_map inj_on_def)
  then show ?thesis using s' by simp
qed

lemma ReplaceAll_char: "ReplaceAll s [a] [b] = map (\<lambda>c. if c = a then b else c) s"
proof (induction s)
  case (Cons x s)
  then show ?case by (subst ReplaceAll.simps) (auto simp: HasPrefix_def)
qed (simp add: ReplaceAll.simps)

lemma setting_keys: "map s_key (settings L) =
    [''dns.listen'', ''dns.dot_listen'', ''dns.dot_cert'', ''dns.dot_key'', ''dns.upstreams'', ''dns.cache_entries'',
     ''dns.local_ptr'', ''dns.local_domains'', ''blocking.lists'', ''blocking.allowlist'', ''blocking.reply'',
     ''blocking.reply_ttl_seconds'', ''blocking.refresh_interval'', ''blocking.cache_dir'', ''blocking.cname_inspection'',
     ''query_log.mode'', ''query_log.clients'', ''query_log.database'', ''query_log.file'', ''query_log.retention_days'',
     ''query_log.flush_interval'', ''query_log.client_names'', ''admin.listen'', ''admin.pprof'', ''stats_interval'']
     "
  by (simp add: settings_def)

lemma setting_envs: "map (\<lambda>s. envName (s_key s)) (settings L) =
    [''S_HOLE_DNS_LISTEN'', ''S_HOLE_DNS_DOT_LISTEN'', ''S_HOLE_DNS_DOT_CERT'', ''S_HOLE_DNS_DOT_KEY'',
     ''S_HOLE_DNS_UPSTREAMS'', ''S_HOLE_DNS_CACHE_ENTRIES'', ''S_HOLE_DNS_LOCAL_PTR'', ''S_HOLE_DNS_LOCAL_DOMAINS'',
     ''S_HOLE_BLOCKING_LISTS'', ''S_HOLE_BLOCKING_ALLOWLIST'', ''S_HOLE_BLOCKING_REPLY'', ''S_HOLE_BLOCKING_REPLY_TTL_SECONDS'',
     ''S_HOLE_BLOCKING_REFRESH_INTERVAL'', ''S_HOLE_BLOCKING_CACHE_DIR'', ''S_HOLE_BLOCKING_CNAME_INSPECTION'',
     ''S_HOLE_QUERY_LOG_MODE'', ''S_HOLE_QUERY_LOG_CLIENTS'', ''S_HOLE_QUERY_LOG_DATABASE'', ''S_HOLE_QUERY_LOG_FILE'',
     ''S_HOLE_QUERY_LOG_RETENTION_DAYS'', ''S_HOLE_QUERY_LOG_FLUSH_INTERVAL'', ''S_HOLE_QUERY_LOG_CLIENT_NAMES'',
     ''S_HOLE_ADMIN_LISTEN'', ''S_HOLE_ADMIN_PPROF'', ''S_HOLE_STATS_INTERVAL'']"
proof -
  have "map (\<lambda>s. envName (s_key s)) (settings L) = map envName (map s_key (settings L))" by simp
  then show ?thesis
    by (simp add: setting_keys envName_def ToUpper_def ReplaceAll_char is_lower_def byte_of_def of_char_def char_of_def bit_Suc_0_iff)
qed

lemma envName_distinct: "distinct (map (\<lambda>s. envName (s_key s)) (settings L))"
  by (simp add: setting_envs)

subsection \<open>The document as a list of assignments\<close>

text \<open>\<open>yaml_entries\<close> lists the assignments of the document in order, each with its full key; \<open>apply_entry\<close>
  is the effect of one of them.\<close>

definition top_entries :: "Node \<times> Node \<Rightarrow> (string \<times> Node) list" where
  "top_entries kv = (let k = n_Value (fst kv); v = snd kv in
     if k \<in> set sections then
       (if is_null v \<or> n_Kind v \<noteq> MappingNode then []
        else map (\<lambda>(kn, vn). (k @ ''.'' @ n_Value kn, vn)) (pairs (n_Content v)))
     else if map_of renamedKeys k \<noteq> None then [] else [(k, v)])"

definition yaml_entries :: "Node \<Rightarrow> (string \<times> Node) list" where
  "yaml_entries root =
     (if n_Kind root = NoKind \<or> n_Content root = [] then []
      else let doc = hd (n_Content root) in
        if n_Kind doc \<noteq> MappingNode then [] else concat (map top_entries (pairs (n_Content doc))))"

definition apply_entry :: "conflib \<Rightarrow> string \<times> Node \<Rightarrow> Config \<Rightarrow> Config" where
  "apply_entry L kv c = (case lookup_setting L (fst kv) of None \<Rightarrow> c | Some s \<Rightarrow> snd (applyNode s (snd kv) c))"

lemma apply_key_config: "fst (apply_key L k v (c, seen, ps)) = apply_entry L (k, v) c"
  by (simp add: apply_key_def apply_entry_def Let_def split: option.split prod.split)

lemma fold_apply_key_config:
  "fst (fold (\<lambda>(kn, vn). apply_key L (pre @ n_Value kn) vn) kvs st)
   = fold (apply_entry L) (map (\<lambda>(kn, vn). (pre @ n_Value kn, vn)) kvs) (fst st)"
proof (induction kvs arbitrary: st)
  case (Cons kv kvs)
  obtain c seen ps where "st = (c, seen, ps)" using prod.exhaust by metis
  then show ?case using Cons.IH by (cases kv) (simp add: apply_key_config)
qed simp

lemma apply_top_config: "fst (apply_top L kv st) = fold (apply_entry L) (top_entries kv) (fst st)"
proof -
  obtain c seen ps where st: "st = (c, seen, ps)" using prod.exhaust by metis
  show ?thesis
    using fold_apply_key_config [of L "n_Value (fst kv) @ ''.''"]
    by (auto simp: apply_top_def top_entries_def Let_def st apply_key_config split: option.split)
qed

lemma fold_apply_top_config:
  "fst (fold (apply_top L) kvs st) = fold (apply_entry L) (concat (map top_entries kvs)) (fst st)"
  by (induction kvs arbitrary: st) (simp_all add: apply_top_config)

lemma applyYAML_config: "snd (applyYAML L root c) = fold (apply_entry L) (yaml_entries root) c"
proof -
  have "snd (case x of (c', _, ps) \<Rightarrow> (ps, c')) = fst x" for x :: yaml_state
    by (simp split: prod.split)
  then show ?thesis
    by (auto simp: applyYAML_def yaml_entries_def Let_def is_null_def fold_apply_top_config)
qed

subsection \<open>Invariants of the settings\<close>

text \<open>What every parser keeps holds of the configuration that the file and the environment give.\<close>

definition setting_keeps :: "(Config \<Rightarrow> bool) \<Rightarrow> setting \<Rightarrow> bool" where
  "setting_keeps P s = (case s_set s of
     Scalar f \<Rightarrow> \<forall>raw c c'. P c \<longrightarrow> f raw c = Inr c' \<longrightarrow> P c'
   | NodeSetter f \<Rightarrow> \<forall>n c ps c'. P c \<longrightarrow> f n c = (ps, Inr c') \<longrightarrow> P c')"

named_theorems keeps_intros \<open>what a setting with each kind of parser keeps\<close>

lemma keeps_setString [keeps_intros]:
  "(\<And>x c. P c \<Longrightarrow> P (dst (\<lambda>_. x) c)) \<Longrightarrow> setting_keeps P (scalar_setting k (setString dst def) cur)"
  by (simp add: setting_keeps_def scalar_setting_def setString_def)

lemma keeps_setPath [keeps_intros]:
  "(\<And>x c. P c \<Longrightarrow> P (dst (\<lambda>_. x) c)) \<Longrightarrow> setting_keeps P (scalar_setting k (setPath dst) cur)"
  by (auto simp: setting_keeps_def scalar_setting_def setPath_def)

lemma keeps_setOptional [keeps_intros]:
  "(\<And>x c. P c \<Longrightarrow> x = [] \<or> \<not> IsOff L x \<Longrightarrow> P (dst (\<lambda>_. x) c)) \<Longrightarrow> setting_keeps P (scalar_setting k (setOptional L dst) cur)"
  by (auto simp: setting_keeps_def scalar_setting_def setOptional_def split: if_splits)

lemma keeps_setFile [keeps_intros]:
  "(\<And>x c. P c \<Longrightarrow> x = [] \<or> x = ''stdout'' \<or> \<not> IsOff L x \<Longrightarrow> P (dst (\<lambda>_. x) c)) \<Longrightarrow>
   setting_keeps P (scalar_setting k (setFile L dst) cur)"
  by (auto simp: setting_keeps_def scalar_setting_def setFile_def split: if_splits)

lemma keeps_setEnum [keeps_intros]:
  "(\<And>x c. P c \<Longrightarrow> x \<in> set (def # allowed) \<Longrightarrow> P (dst (\<lambda>_. x) c)) \<Longrightarrow>
   setting_keeps P (scalar_setting k (setEnum L dst def allowed) cur)"
  by (auto simp: setting_keeps_def scalar_setting_def setEnum_def split: if_splits)

lemma keeps_setInt [keeps_intros]:
  "(\<And>x c. P c \<Longrightarrow> x = def \<or> lowest \<le> x \<Longrightarrow> P (dst (\<lambda>_. x) c)) \<Longrightarrow>
   setting_keeps P (scalar_setting k (setInt L dst lowest def) cur)"
  by (auto simp: setting_keeps_def scalar_setting_def setInt_def split: if_splits option.splits)

lemma keeps_setUint32 [keeps_intros]:
  "(\<And>x c. P c \<Longrightarrow> P (dst (\<lambda>_. x) c)) \<Longrightarrow> setting_keeps P (scalar_setting k (setUint32 L dst def) cur)"
  by (auto simp: setting_keeps_def scalar_setting_def setUint32_def split: if_splits option.splits)

lemma keeps_setBool [keeps_intros]:
  "(\<And>x c. P c \<Longrightarrow> P (dst (\<lambda>_. x) c)) \<Longrightarrow> setting_keeps P (scalar_setting k (setBool L dst def) cur)"
  by (auto simp: setting_keeps_def scalar_setting_def setBool_def Let_def split: if_splits)

lemma keeps_setDuration [keeps_intros]:
  "(\<And>x c. P c \<Longrightarrow> x = def \<or> 0 < x \<Longrightarrow> P (dst (\<lambda>_. x) c)) \<Longrightarrow>
   setting_keeps P (scalar_setting k (setDuration L dst def) cur)"
  by (auto simp: setting_keeps_def scalar_setting_def setDuration_def split: if_splits option.splits)

lemma keeps_listSetter:
  "(\<And>x c. P c \<Longrightarrow> P (dst (\<lambda>_. x) c)) \<Longrightarrow> setting_keeps P (node_setting k (listSetter dst keep) cur)"
  by (auto simp: setting_keeps_def node_setting_def listSetter_def split: if_splits option.splits)

lemma keeps_setList [keeps_intros]:
  "(\<And>x c. P c \<Longrightarrow> P (dst (\<lambda>_. x) c)) \<Longrightarrow> setting_keeps P (node_setting k (setList dst) cur)"
  by (simp add: setList_def keeps_listSetter)

lemma keeps_setListKeepEmpty [keeps_intros]:
  "(\<And>x c. P c \<Longrightarrow> P (dst (\<lambda>_. x) c)) \<Longrightarrow> setting_keeps P (node_setting k (setListKeepEmpty dst) cur)"
  by (simp add: setListKeepEmpty_def keeps_listSetter)

lemma map_items_distinct:
  "distinct (map fst out) \<Longrightarrow> map_items kvs out = Some out' \<Longrightarrow> distinct (map fst out')"
  by (induction kvs out rule: map_items.induct) (auto simp: distinct_update split: if_splits)

lemma keeps_setMap [keeps_intros]:
  "(\<And>x c. P c \<Longrightarrow> distinct (map fst x) \<Longrightarrow> P (dst (\<lambda>_. x) c)) \<Longrightarrow> setting_keeps P (node_setting k (setMap dst) cur)"
  using map_items_distinct [of "[]"]
  by (auto simp: setting_keeps_def node_setting_def setMap_def split: if_splits option.splits)

lemma applyNode_keeps: "setting_keeps P s \<Longrightarrow> P c \<Longrightarrow> P (snd (applyNode s val c))"
  by (auto simp: setting_keeps_def applyNode_def split: setter.splits sum.splits prod.splits)

lemma apply_env_one_keeps: "setting_keeps P s \<Longrightarrow> P (snd st) \<Longrightarrow> P (snd (apply_env_one look s st))"
  by (auto simp: setting_keeps_def apply_env_one_def split: setter.splits sum.splits option.splits)

lemma fold_env_keeps:
  "\<forall>s \<in> set ss. setting_keeps P s \<Longrightarrow> P (snd st) \<Longrightarrow> P (snd (fold (apply_env_one look) ss st))"
  by (induction ss arbitrary: st) (simp_all add: apply_env_one_keeps)

lemma fold_entry_keeps:
  "\<forall>s \<in> set (settings L). setting_keeps P s \<Longrightarrow> P c \<Longrightarrow> P (fold (apply_entry L) kvs c)"
proof (induction kvs arbitrary: c)
  case (Cons kv kvs)
  have "P (apply_entry L kv c)"
    using Cons.prems lookup_setting_Some [of L "fst kv"]
    by (auto simp: apply_entry_def applyNode_keeps split: option.split)
  then show ?case using Cons by simp
qed simp

lemma applyEnv_config: "snd (applyEnv L look environ c) = snd (fold (apply_env_one look) (settings L) ([], c))"
  by (simp add: applyEnv_def split: prod.split)

lemma apply_sources_config:
  "snd (apply_sources L root look environ)
   = snd (fold (apply_env_one look) (settings L) ([], fold (apply_entry L) (yaml_entries root) defaults))"
proof -
  obtain p1 c1 where c1: "applyYAML L root defaults = (p1, c1)" by fastforce
  then have "c1 = fold (apply_entry L) (yaml_entries root) defaults"
    using applyYAML_config [of L root defaults] by simp
  then show ?thesis using applyEnv_config [of L look environ c1]
    by (auto simp: apply_sources_def c1 split: prod.splits)
qed

lemma sources_keep:
  assumes "\<forall>s \<in> set (settings L). setting_keeps P s" "P defaults"
  shows "P (snd (apply_sources L root look environ))"
  using assms by (simp add: apply_sources_config fold_entry_keeps fold_env_keeps)

subsection \<open>Precedence of the sources\<close>

text \<open>The raw values that the operator gives for a scalar key, weakest first: those of the file in order, then
  the environment variable. The value in effect is the last one that the setting can read.\<close>

definition given_values :: "Node \<Rightarrow> (string \<Rightarrow> string option) \<Rightarrow> string \<Rightarrow> string list" where
  "given_values root look key =
     map (\<lambda>kv. raw_value (snd kv)) (filter (\<lambda>kv. fst kv = key \<and> n_Kind (snd kv) = ScalarNode) (yaml_entries root))
     @ (case look (envName key) of None \<Rightarrow> [] | Some v \<Rightarrow> [v])"

definition in_effect :: "(string \<Rightarrow> 'v option) \<Rightarrow> 'v \<Rightarrow> string list \<Rightarrow> 'v" where
  "in_effect dec def vs = fold (\<lambda>v cur. case dec v of None \<Rightarrow> cur | Some x \<Rightarrow> x) vs def"

lemma in_effect_given: "in_effect dec def vs = def \<or> (\<exists>v \<in> set vs. dec v = Some (in_effect dec def vs))"
  by (induction vs rule: rev_induct) (auto simp: in_effect_def split: option.split)

locale scalar_field =
  fixes L :: conflib and key :: string and get :: "Config \<Rightarrow> 'v" and dst :: "'v field" and dec :: "string \<Rightarrow> 'v option"
  assumes own: "\<exists>s \<in> set (settings L). s_key s = key \<and> (\<exists>f. s_set s = Scalar f \<and> stores f dst dec)"
    and get_dst: "get (dst (\<lambda>_. x) c) = x"
    and others: "s \<in> set (settings L) \<Longrightarrow> s_key s \<noteq> key \<Longrightarrow> setting_keeps (\<lambda>c. get c = x) s"
begin

lemma own_setting:
  obtains s f where "lookup_setting L key = Some s" "s_key s = key" "s_set s = Scalar f" "stores f dst dec"
    "s \<in> set (settings L)"
  using own lookup_setting_key by metis

lemma entry_other: "fst kv \<noteq> key \<Longrightarrow> get (apply_entry L kv c) = get c"
  using others lookup_setting_Some [of L "fst kv"] applyNode_keeps [of "\<lambda>c'. get c' = get c"]
  by (auto simp: apply_entry_def split: option.split)

lemma entry_own:
  "get (apply_entry L (key, v) c)
   = (if n_Kind v = ScalarNode then (case dec (raw_value v) of None \<Rightarrow> get c | Some x \<Rightarrow> x) else get c)"
proof -
  obtain s f where s: "lookup_setting L key = Some s" "s_set s = Scalar f" "stores f dst dec"
    using own_setting by metis
  have "case dec (raw_value v) of None \<Rightarrow> \<exists>e. f (raw_value v) c = Inl e | Some x \<Rightarrow> f (raw_value v) c = Inr (dst (\<lambda>_. x) c)"
    using s(3) by (simp add: stores_def)
  then show ?thesis using s(1,2)
    by (auto simp: apply_entry_def applyNode_def get_dst split: option.splits)
qed

lemma entries_effect:
  "get (fold (apply_entry L) kvs c)
   = in_effect dec (get c) (map (\<lambda>kv. raw_value (snd kv)) (filter (\<lambda>kv. fst kv = key \<and> n_Kind (snd kv) = ScalarNode) kvs))"
proof (induction kvs arbitrary: c)
  case (Cons kv kvs)
  obtain k v where kv: "kv = (k, v)" by fastforce
  show ?case
  proof (cases "k = key")
    case True
    then show ?thesis using Cons.IH entry_own [of v c] by (simp add: kv in_effect_def)
  next
    case False
    then show ?thesis using Cons.IH entry_other [of kv c] by (simp add: kv)
  qed
qed (simp add: in_effect_def)

lemma env_other: "s \<in> set (settings L) \<Longrightarrow> s_key s \<noteq> key \<Longrightarrow> get (snd (apply_env_one look s st)) = get (snd st)"
  using others apply_env_one_keeps [of "\<lambda>c'. get c' = get (snd st)"] by blast

lemma env_own:
  assumes "s \<in> set (settings L)" "s_key s = key"
  shows "get (snd (apply_env_one look s st))
     = in_effect dec (get (snd st)) (case look (envName key) of None \<Rightarrow> [] | Some v \<Rightarrow> [v])"
proof -
  obtain f where f: "s_set s = Scalar f" "stores f dst dec"
    using own_setting lookup_setting_key [OF assms(1)] assms(2) by (metis option.inject)
  have "case dec v of None \<Rightarrow> \<exists>e. f v c = Inl e | Some x \<Rightarrow> f v c = Inr (dst (\<lambda>_. x) c)" for v c
    using f(2) by (simp add: stores_def)
  from this [of "the (look (envName key))" "snd st"] show ?thesis using f(1) assms(2)
    by (cases "look (envName key)")
       (auto simp: apply_env_one_def in_effect_def get_dst split: option.splits)
qed

lemma envs_effect:
  assumes "set ss \<subseteq> set (settings L)" "distinct (map s_key ss)"
  shows "get (snd (fold (apply_env_one look) ss st))
     = (if key \<in> s_key ` set ss
        then in_effect dec (get (snd st)) (case look (envName key) of None \<Rightarrow> [] | Some v \<Rightarrow> [v])
        else get (snd st))"
  using assms
proof (induction ss arbitrary: st)
  case (Cons s ss)
  then have IH: "get (snd (fold (apply_env_one look) ss st'))
     = (if key \<in> s_key ` set ss
        then in_effect dec (get (snd st')) (case look (envName key) of None \<Rightarrow> [] | Some v \<Rightarrow> [v])
        else get (snd st'))" for st' by simp
  show ?case
  proof (cases "s_key s = key")
    case True
    then have "key \<notin> s_key ` set ss" using Cons.prems(2) by auto
    then show ?thesis using IH [of "apply_env_one look s st"] env_own [of s look st] True Cons.prems(1) by simp
  next
    case False
    then show ?thesis using IH [of "apply_env_one look s st"] env_other [of s look st] Cons.prems(1) by simp
  qed
qed simp

lemma sources_effect:
  "get (snd (apply_sources L root look environ)) = in_effect dec (get defaults) (given_values root look key)"
proof -
  have "key \<in> s_key ` set (settings L)" using own by auto
  then have "get (snd (apply_sources L root look environ))
     = in_effect dec (get (fold (apply_entry L) (yaml_entries root) defaults)) (case look (envName key) of None \<Rightarrow> [] | Some v \<Rightarrow> [v])"
    using envs_effect [of "settings L"] settings_distinct by (simp add: apply_sources_config)
  then show ?thesis
    by (simp add: entries_effect given_values_def in_effect_def)
qed

end

text \<open>A setting that the checks leave alone.\<close>

locale final_field = scalar_field +
  assumes check_keeps: "check L c = (ps, Inr c') \<Longrightarrow> get c' = get c"
begin

lemma load_effect:
  assumes "load_config L data look environ = (probs, Inr c)" "cf_Unmarshal L data = Inr root"
  shows "get c = in_effect dec (get defaults) (given_values root look key)"
proof -
  obtain p1 c1 where c1: "apply_sources L root look environ = (p1, c1)" by fastforce
  obtain p2 r where r: "check L c1 = (p2, r)" by fastforce
  then have "r = Inr c" using assms c1 by (simp add: load_config_def)
  then have "get c = get c1" using check_keeps r by simp
  then show ?thesis using sources_effect [of root look environ] c1 by simp
qed

end

lemma check_upstreams_keeps:
  "check_upstreams L c = (ps, Inr c') \<Longrightarrow> \<exists>ups. ups \<noteq> [] \<and> c' = c\<lparr>c_DNS := (c_DNS c)\<lparr>DNS_Upstreams := ups\<rparr>\<rparr>"
  by (auto simp: check_upstreams_def DefaultUpstreams_def split: if_splits prod.splits)

lemma check_dot_keeps:
  "check_dot L c = (ps, Inr c') \<Longrightarrow> \<exists>d. c' = c\<lparr>c_DNS := (c_DNS c)\<lparr>DNS_DoTListen := d\<rparr>\<rparr>"
  by (auto simp: check_dot_def intro: exI [of _ "DNS_DoTListen (c_DNS c)"] split: if_splits option.splits)

lemma check_stages:
  assumes "check L c = (ps, Inr c')"
  obtains p1 c1 p2 c2 p3 c3 p4 where "isHostPort (DNS_Listen (c_DNS c))" "check_admin L c = (p1, c1)"
    "check_upstreams L c1 = (p2, Inr c2)" "check_lists L c2 = (p3, c3)" "check_dot L c3 = (p4, Inr c')"
    "ps = p1 @ p2 @ p3 @ p4"
  using assms by (auto simp: check_def split: if_splits prod.splits sum.splits)

text \<open>The checks change six fields and no other.\<close>

lemma check_frame:
  assumes "check L c = (ps, Inr c')"
  shows "\<exists>a u l d w n. c' = c\<lparr>c_DNS := (c_DNS c)\<lparr>DNS_Upstreams := u, DNS_LocalDomains := l, DNS_DoTListen := d\<rparr>,
     c_Blocking := (c_Blocking c)\<lparr>Blk_Allowlist := w\<rparr>, c_QueryLog := (c_QueryLog c)\<lparr>QL_ClientNames := n\<rparr>,
     c_Admin := (c_Admin c)\<lparr>Adm_Listen := a\<rparr>\<rparr>"
proof -
  obtain p1 c1 p2 c2 p3 c3 p4 where st: "check_admin L c = (p1, c1)"
    "check_upstreams L c1 = (p2, Inr c2)" "check_lists L c2 = (p3, c3)" "check_dot L c3 = (p4, Inr c')"
    using check_stages [OF assms] by metis
  have "\<exists>a. c1 = c\<lparr>c_Admin := (c_Admin c)\<lparr>Adm_Listen := a\<rparr>\<rparr>"
    using st(1) by (auto simp: check_admin_def intro: exI [of _ "Adm_Listen (c_Admin c)"] split: if_splits)
  then obtain a where c1: "c1 = c\<lparr>c_Admin := (c_Admin c)\<lparr>Adm_Listen := a\<rparr>\<rparr>" by blast
  obtain u where c2: "c2 = c1\<lparr>c_DNS := (c_DNS c1)\<lparr>DNS_Upstreams := u\<rparr>\<rparr>"
    using check_upstreams_keeps [OF st(2)] by blast
  obtain l w n where c3: "c3 = c2\<lparr>c_DNS := (c_DNS c2)\<lparr>DNS_LocalDomains := l\<rparr>,
     c_Blocking := (c_Blocking c2)\<lparr>Blk_Allowlist := w\<rparr>, c_QueryLog := (c_QueryLog c2)\<lparr>QL_ClientNames := n\<rparr>\<rparr>"
    using st(3) by (auto simp: check_lists_def split: prod.splits)
  obtain d where c': "c' = c3\<lparr>c_DNS := (c_DNS c3)\<lparr>DNS_DoTListen := d\<rparr>\<rparr>"
    using check_dot_keeps [OF st(4)] by blast
  show ?thesis unfolding c' c3 c2 c1
    by (rule exI [of _ a], rule exI [of _ u], rule exI [of _ l], rule exI [of _ d], rule exI [of _ w], rule exI [of _ n]) simp
qed

interpretation mode_f: final_field L "''query_log.mode''" "qlog_of QL_Mode" "in_qlog QL_Mode_update"
    "dec_enum ''none'' [''none'', ''blocked'', ''all'']" for L
  by unfold_locales (auto simp: settings_def stores_intros intro!: keeps_intros dest!: check_frame)

interpretation clients_f: final_field L "''query_log.clients''" "qlog_of QL_Clients" "in_qlog QL_Clients_update"
    "dec_enum ''drop'' [''drop'', ''subnet'', ''full'']" for L
  by unfold_locales (auto simp: settings_def stores_intros intro!: keeps_intros dest!: check_frame)

interpretation database_f: final_field L "''query_log.database''" "qlog_of QL_Database" "in_qlog QL_Database_update"
    "dec_optional L" for L
  by unfold_locales (auto simp: settings_def stores_intros intro!: keeps_intros dest!: check_frame)

interpretation file_f: final_field L "''query_log.file''" "qlog_of QL_File" "in_qlog QL_File_update"
    "dec_file L" for L
  by unfold_locales (auto simp: settings_def stores_intros intro!: keeps_intros dest!: check_frame)

interpretation retention_f: final_field L "''query_log.retention_days''" "qlog_of QL_RetentionDays" "in_qlog QL_RetentionDays_update"
    "dec_int 0 defaultRetentionDays" for L
  by unfold_locales (auto simp: settings_def stores_intros intro!: keeps_intros dest!: check_frame)

interpretation ptr_f: final_field L "''dns.local_ptr''" "dns_of DNS_LocalPTR" "in_dns DNS_LocalPTR_update"
    "dec_bool L True" for L
  by unfold_locales (auto simp: settings_def stores_intros intro!: keeps_intros dest!: check_frame)

interpretation cname_f: final_field L "''blocking.cname_inspection''" "blk_of Blk_CNAMEInspection" "in_blk Blk_CNAMEInspection_update"
    "dec_bool L True" for L
  by unfold_locales (auto simp: settings_def stores_intros intro!: keeps_intros dest!: check_frame)

interpretation listen_f: final_field L "''dns.listen''" "dns_of DNS_Listen" "in_dns DNS_Listen_update"
    "dec_string defaultListen" for L
  by unfold_locales (auto simp: settings_def stores_intros intro!: keeps_intros dest!: check_frame)

interpretation pprof_f: final_field L "''admin.pprof''" "adm_of Adm_Pprof" "in_adm Adm_Pprof_update"
    "dec_bool L False" for L
  by unfold_locales (auto simp: settings_def stores_intros intro!: keeps_intros dest!: check_frame)

interpretation dot_f: scalar_field L "''dns.dot_listen''" "dns_of DNS_DoTListen" "in_dns DNS_DoTListen_update"
    "dec_optional L" for L
  by unfold_locales (auto simp: settings_def stores_intros intro!: keeps_intros)

subsection \<open>The filters\<close>

definition doh_endpoint :: "conflib \<Rightarrow> string \<Rightarrow> bool" where
  "doh_endpoint L u = (\<exists>p. url_Parse (cf_K L) u = Some p \<and> ur_Scheme p = ''https'' \<and> ur_User p = None
     \<and> ur_Path p \<noteq> [] \<and> ur_Path p \<noteq> ''/'' \<and> ParseIP (cf_T L) (url_Hostname (cf_K L) (ur_Host p)) \<noteq> None)"

definition plain_endpoint :: "string \<Rightarrow> bool" where
  "plain_endpoint u = (\<not> Contains u ''://'' \<and> (\<exists>h p. SplitHostPort u = Some (h, p) \<and> h \<noteq> [] \<and> p \<noteq> []))"

lemma upstream_form_ok:
  assumes "url_ok (cf_K L)" "ParseIP (cf_T L) [] = None" "upstream_form L u = Some v"
  shows "doh_endpoint L v \<or> plain_endpoint v"
proof (cases "Contains u ''://''")
  case True
  then obtain p where p: "url_Parse (cf_K L) u = Some p" "v = url_String (cf_K L) p" "ur_Scheme p = ''https''"
      "ur_User p = None" "ur_Path p \<noteq> []" "ur_Path p \<noteq> ''/''" "ParseIP (cf_T L) (url_Hostname (cf_K L) (ur_Host p)) \<noteq> None"
    using assms(3) by (auto simp: upstream_form_def normalizeDoHURL_def split: option.splits if_splits)
  have "ur_Host p \<noteq> []" using assms(1,2) p(7) by (auto simp: url_ok_def)
  then obtain p' where "url_Parse (cf_K L) v = Some p'" "same_parts p' p"
    using url_okD [OF assms(1) p(1), of "ur_User p" "ur_RawQuery p"] p(2,3) by auto
  then show ?thesis using p by (auto simp: doh_endpoint_def same_parts_def)
next
  case False
  then show ?thesis using assms(3)
    by (auto simp: upstream_form_def plain_endpoint_def split: option.splits if_splits)
qed

lemma filterUpstreams_spec:
  "filterUpstreams L us = (List.map_filter (upstream_form L) us, filter (\<lambda>u. upstream_form L u = None) us)"
  by (induction us) (auto simp: List.map_filter_simps split: option.split)

lemma filterAllowlist_spec: "filterAllowlist es = (filter ValidDomain es, filter (\<lambda>d. \<not> ValidDomain d) es)"
  by (induction es) auto

definition firsts :: "'a list \<Rightarrow> 'a list" where
  "firsts xs = rev (remdups (rev xs))"

lemma firsts_snoc: "firsts (xs @ [x]) = (if x \<in> set xs then firsts xs else firsts xs @ [x])"
  by (simp add: firsts_def)

lemma firsts_known: "x \<in> set xs \<Longrightarrow> firsts (xs @ x # ys) = firsts (xs @ ys)"
  by (induction ys rule: rev_induct) (simp_all add: firsts_snoc flip: append_assoc append_Cons)

lemma set_firsts [simp]: "set (firsts xs) = set xs"
  by (simp add: firsts_def)

lemma distinct_firsts [simp]: "distinct (firsts xs)"
  by (simp add: firsts_def)

lemma firsts_id: "distinct xs \<Longrightarrow> firsts xs = xs"
  by (simp add: firsts_def distinct_remdups_id)

lemma local_loop_spec:
  "local_loop L es (firsts vs, ds)
   = (firsts (vs @ filter validLocalDomain (map (local_form L) es)),
      ds @ filter (\<lambda>e. \<not> validLocalDomain (local_form L e)) es)"
proof (induction es arbitrary: vs ds)
  case (Cons e es)
  show ?case
    using Cons.IH [of vs] Cons.IH [of "vs @ [local_form L e]"]
    by (cases "local_form L e \<in> set vs") (simp_all add: Let_def firsts_snoc firsts_known)
qed simp

lemma filterLocalDomains_spec:
  "filterLocalDomains L es
   = (firsts (filter validLocalDomain (map (local_form L) es)),
      filter (\<lambda>e. \<not> validLocalDomain (local_form L e)) es)"
  using local_loop_spec [of L es "[]" "[]"] by (simp add: filterLocalDomains_def firsts_def)

lemma space_seqs_bytes: "q \<in> set space_seqs \<Longrightarrow> \<exists>b \<in> set q. b < 33 \<or> 128 \<le> b"
  by (auto simp: space_seqs_def)

lemma TrimSpace_graphic:
  assumes "\<forall>c \<in> set s. 33 \<le> byte_of c \<and> byte_of c < 128"
  shows "TrimSpace s = s"
proof -
  have no: "\<not> set q \<subseteq> byte_of ` set s" if "q \<in> set space_seqs" for q
    using space_seqs_bytes [OF that] assms by fastforce
  then have "space_len s = 0" "space_len_end s = 0"
    unfolding space_len_def space_len_end_def
    by (auto split: option.split simp: find_Some_iff dest!: set_mono_prefix set_mono_suffix nth_mem)
  then show ?thesis by (simp add: TrimSpace_def TrimLeftSpace.simps [of s] TrimRightSpace.simps [of s])
qed

lemma Split_chars: "c \<in> set s \<Longrightarrow> c = sep \<or> (\<exists>w \<in> set (Split s sep). c \<in> set w)"
  by (induction s) (auto split: list.splits)

lemma Split_not_Nil [simp]: "Split s c \<noteq> []"
  by (induction s) (auto split: list.splits)

lemma Split_end: "Split (s @ [c]) c = Split s c @ [[]]"
  by (induction s) (auto split: list.splits)

lemma local_char_byte: "local_char c \<Longrightarrow> 45 \<le> byte_of c \<and> byte_of c < 123 \<and> \<not> is_upper c"
  by (auto simp: local_char_def is_lower_def is_digit_def is_upper_def byte_of_def)

lemma valid_local_chars:
  assumes "validLocalDomain d" "c \<in> set d"
  shows "45 \<le> byte_of c \<and> byte_of c < 123 \<and> \<not> is_upper c"
  using Split_chars [OF assms(2), of "CHR ''.''"]
proof
  assume "c = CHR ''.''"
  then show ?thesis by (simp add: is_upper_def byte_of_def)
next
  assume "\<exists>w \<in> set (Split d (CHR ''.'')). c \<in> set w"
  then have "local_char c"
    using assms(1) by (auto simp: validLocalDomain_def list_all_iff local_label_def split: if_splits)
  then show ?thesis by (rule local_char_byte)
qed

lemma valid_local_ends:
  assumes "validLocalDomain d"
  shows "d \<noteq> []" "hd d \<noteq> CHR ''.''" "List.last d \<noteq> CHR ''.''"
proof -
  have no: "[] \<notin> set (Split d (CHR ''.''))" and d: "d \<noteq> []"
    using assms by (auto simp: validLocalDomain_def list_all_iff local_label_def split: if_splits)
  show "d \<noteq> []" by (rule d)
  show "hd d \<noteq> CHR ''.''" using no d by (cases d) auto
  show "List.last d \<noteq> CHR ''.''"
    using no d Split_end [of "butlast d" "CHR ''.''"] by (metis append_butlast_last_id in_set_conv_decomp)
qed

text \<open>A name in stored form is its own stored form.\<close>

lemma local_form_valid:
  assumes "validLocalDomain d"
  shows "local_form L d = d"
proof -
  note ch = valid_local_chars [OF assms]
  have trim: "TrimSpace d = d" using ch by (intro TrimSpace_graphic) force
  have asc: "is_ascii d" using ch by (force simp: is_ascii_def list_all_iff)
  then have low: "ToLower U d = d" for U
    using ch by (simp add: ToLower_ascii lower_byte_id map_idI)
  have star: "\<not> HasPrefix d ''*.''"
  proof
    assume "HasPrefix d ''*.''"
    then have "CHR ''*'' \<in> set d" by (auto simp: HasPrefix_def prefix_def)
    then show False using ch [of "CHR ''*''"] by (simp add: byte_of_def)
  qed
  have "\<not> HasPrefix d ''.''" "\<not> HasSuffix d ''.''"
    using valid_local_ends [OF assms] by (auto simp: HasPrefix_def prefix_def HasSuffix_def suffix_def)
  then show ?thesis by (simp add: local_form_def trim low TrimPrefix_def TrimSuffix_def star)
qed

subsection \<open>The loaded configuration\<close>

definition settings_ok :: "Config \<Rightarrow> bool" where
  "settings_ok c = (QL_Mode (c_QueryLog c) \<in> {''none'', ''blocked'', ''all''}
     \<and> QL_Clients (c_QueryLog c) \<in> {''drop'', ''subnet'', ''full''}
     \<and> Blk_Reply (c_Blocking c) \<in> {''zero_ip'', ''nxdomain''}
     \<and> 0 < Blk_RefreshInterval (c_Blocking c) \<and> 0 < QL_FlushInterval (c_QueryLog c) \<and> 0 < c_StatsInterval c
     \<and> 0 \<le> DNS_CacheEntries (c_DNS c) \<and> 0 \<le> QL_RetentionDays (c_QueryLog c)
     \<and> distinct (map fst (QL_ClientNames (c_QueryLog c))))"

lemma sources_settings_ok: "settings_ok (snd (apply_sources L root look environ))"
proof (rule sources_keep)
  show "settings_ok defaults"
    by (simp add: settings_ok_def defaults_def defaultRefreshInterval_def defaultFlushInterval_def
        defaultStatsInterval_def defaultCacheEntries_def defaultRetentionDays_def)
  show "\<forall>s \<in> set (settings L). setting_keeps settings_ok s"
    unfolding settings_def set_simps ball_simps
    by (intro conjI TrueI keeps_intros)
       (auto simp: settings_ok_def defaultRefreshInterval_def defaultFlushInterval_def
        defaultStatsInterval_def defaultCacheEntries_def defaultRetentionDays_def)
qed

text \<open>What the rest of the program may rely on.\<close>

definition config_ok :: "conflib \<Rightarrow> Config \<Rightarrow> bool" where
  "config_ok L c = (settings_ok c
     \<and> isHostPort (DNS_Listen (c_DNS c)) \<and> isHostPort (Adm_Listen (c_Admin c))
     \<and> DNS_Upstreams (c_DNS c) \<noteq> []
     \<and> (DNS_Upstreams (c_DNS c) = DefaultUpstreams
        \<or> (\<forall>u \<in> set (DNS_Upstreams (c_DNS c)). doh_endpoint L u \<or> plain_endpoint u))
     \<and> (\<forall>d \<in> set (DNS_LocalDomains (c_DNS c)). validLocalDomain d) \<and> distinct (DNS_LocalDomains (c_DNS c))
     \<and> (\<forall>d \<in> set (Blk_Allowlist (c_Blocking c)). ValidDomain d)
     \<and> (\<forall>(k, l) \<in> set (QL_ClientNames (c_QueryLog c)). client_key L k)
     \<and> (DNS_DoTListen (c_DNS c) \<noteq> [] \<longrightarrow> isHostPort (DNS_DoTListen (c_DNS c))
          \<and> DNS_DoTCert (c_DNS c) \<noteq> [] \<and> DNS_DoTKey (c_DNS c) \<noteq> []
          \<and> cf_LoadX509KeyPair L (DNS_DoTCert (c_DNS c)) (DNS_DoTKey (c_DNS c)) = None))"

lemma check_admin_ok: "check_admin L c = (ps, c') \<Longrightarrow> isHostPort (Adm_Listen (c_Admin c'))"
proof -
  have "isHostPort defaultAdminListen" by (simp add: defaultAdminListen_def isHostPort_def SplitHostPort_def LastIndexByte_def)
  then show "check_admin L c = (ps, c') \<Longrightarrow> ?thesis" by (auto simp: check_admin_def split: if_splits)
qed

lemma check_upstreams_ok:
  assumes "url_ok (cf_K L)" "ParseIP (cf_T L) [] = None" "check_upstreams L c = (ps, Inr c')"
  shows "DNS_Upstreams (c_DNS c') \<noteq> []
     \<and> (DNS_Upstreams (c_DNS c') = DefaultUpstreams
        \<or> (\<forall>u \<in> set (DNS_Upstreams (c_DNS c')). doh_endpoint L u \<or> plain_endpoint u))"
proof (cases "DNS_Upstreams (c_DNS c) = []")
  case True
  then show ?thesis using assms(3) by (auto simp: check_upstreams_def DefaultUpstreams_def)
next
  case False
  then have "DNS_Upstreams (c_DNS c') = List.map_filter (upstream_form L) (DNS_Upstreams (c_DNS c))"
    "DNS_Upstreams (c_DNS c') \<noteq> []"
    using assms(3) by (auto simp: check_upstreams_def filterUpstreams_spec split: if_splits)
  moreover have "doh_endpoint L u \<or> plain_endpoint u" if u: "u \<in> set (List.map_filter (upstream_form L) us)" for u us
  proof -
    obtain x where "upstream_form L x = Some u" using u by (auto simp: List.map_filter_def)
    then show ?thesis by (rule upstream_form_ok [OF assms(1,2)])
  qed
  ultimately show ?thesis by metis
qed

lemma check_lists_ok:
  "check_lists L c = (ps, c') \<Longrightarrow>
     (\<forall>d \<in> set (DNS_LocalDomains (c_DNS c')). validLocalDomain d) \<and> distinct (DNS_LocalDomains (c_DNS c'))
     \<and> (\<forall>d \<in> set (Blk_Allowlist (c_Blocking c')). ValidDomain d)
     \<and> (\<forall>(k, l) \<in> set (QL_ClientNames (c_QueryLog c')). client_key L k)"
  by (auto simp: check_lists_def filterLocalDomains_spec filterAllowlist_spec filterClientNames_def)

lemma check_lists_settings: "check_lists L c = (ps, c') \<Longrightarrow> settings_ok c \<Longrightarrow> settings_ok c'"
  by (clarsimp simp only: check_lists_def filterLocalDomains_spec filterAllowlist_spec filterClientNames_def prod.case prod.inject)
     (simp add: settings_ok_def distinct_map_filter)

lemma check_dot_ok:
  "check_dot L c = (ps, Inr c') \<Longrightarrow> DNS_DoTListen (c_DNS c') \<noteq> [] \<Longrightarrow>
     isHostPort (DNS_DoTListen (c_DNS c')) \<and> DNS_DoTCert (c_DNS c') \<noteq> [] \<and> DNS_DoTKey (c_DNS c') \<noteq> []
     \<and> cf_LoadX509KeyPair L (DNS_DoTCert (c_DNS c')) (DNS_DoTKey (c_DNS c')) = None"
  by (auto simp: check_dot_def checkDoT_def split: if_splits option.splits)

lemma check_ok:
  assumes "url_ok (cf_K L)" "ParseIP (cf_T L) [] = None" "settings_ok c" "check L c = (ps, Inr c')"
  shows "config_ok L c'"
proof -
  obtain p1 c1 p2 c2 p3 c3 p4 where st: "isHostPort (DNS_Listen (c_DNS c))" "check_admin L c = (p1, c1)"
    "check_upstreams L c1 = (p2, Inr c2)" "check_lists L c2 = (p3, c3)" "check_dot L c3 = (p4, Inr c')"
    using check_stages [OF assms(4)] by metis
  have c1: "settings_ok c1 \<and> DNS_Listen (c_DNS c1) = DNS_Listen (c_DNS c)"
    using st(2) assms(3) by (auto simp: check_admin_def settings_ok_def split: if_splits)
  obtain u where c2: "c2 = c1\<lparr>c_DNS := (c_DNS c1)\<lparr>DNS_Upstreams := u\<rparr>\<rparr>"
    using check_upstreams_keeps [OF st(3)] by blast
  obtain l w n where c3: "c3 = c2\<lparr>c_DNS := (c_DNS c2)\<lparr>DNS_LocalDomains := l\<rparr>,
     c_Blocking := (c_Blocking c2)\<lparr>Blk_Allowlist := w\<rparr>, c_QueryLog := (c_QueryLog c2)\<lparr>QL_ClientNames := n\<rparr>\<rparr>"
    using st(4) by (auto simp: check_lists_def split: prod.splits)
  obtain d where c': "c' = c3\<lparr>c_DNS := (c_DNS c3)\<lparr>DNS_DoTListen := d\<rparr>\<rparr>"
    using check_dot_keeps [OF st(5)] by blast
  have "settings_ok c3" using check_lists_settings [OF st(4)] c1 by (simp add: c2 settings_ok_def)
  then have "settings_ok c'" by (simp add: c' settings_ok_def)
  then show ?thesis
    using st(1) c1 check_admin_ok [OF st(2)] check_upstreams_ok [OF assms(1,2) st(3)] check_lists_ok [OF st(4)]
      check_dot_ok [OF st(5)]
    by (simp add: config_ok_def c' c3 c2)
qed

subsection \<open>Fatal mistakes\<close>

definition fatal :: "conflib \<Rightarrow> Config \<Rightarrow> bool" where
  "fatal L c = (\<not> isHostPort (DNS_Listen (c_DNS c))
     \<or> (DNS_Upstreams (c_DNS c) \<noteq> [] \<and> (\<forall>u \<in> set (DNS_Upstreams (c_DNS c)). upstream_form L u = None))
     \<or> (DNS_DoTListen (c_DNS c) \<noteq> [] \<and> isHostPort (DNS_DoTListen (c_DNS c))
        \<and> (DNS_DoTCert (c_DNS c) = [] \<or> DNS_DoTKey (c_DNS c) = []
           \<or> cf_LoadX509KeyPair L (DNS_DoTCert (c_DNS c)) (DNS_DoTKey (c_DNS c)) \<noteq> None)))"

lemma map_filter_Nil: "List.map_filter f xs = [] \<longleftrightarrow> (\<forall>x \<in> set xs. f x = None)"
  by (induction xs) (auto simp: List.map_filter_simps split: option.splits)

lemma check_upstreams_fails:
  "isl (snd (check_upstreams L c)) \<longleftrightarrow>
     DNS_Upstreams (c_DNS c) \<noteq> [] \<and> (\<forall>u \<in> set (DNS_Upstreams (c_DNS c)). upstream_form L u = None)"
  by (auto simp: check_upstreams_def filterUpstreams_spec map_filter_Nil)

lemma check_dot_fails:
  "isl (snd (check_dot L c)) \<longleftrightarrow> DNS_DoTListen (c_DNS c) \<noteq> [] \<and> isHostPort (DNS_DoTListen (c_DNS c))
     \<and> (DNS_DoTCert (c_DNS c) = [] \<or> DNS_DoTKey (c_DNS c) = []
        \<or> cf_LoadX509KeyPair L (DNS_DoTCert (c_DNS c)) (DNS_DoTKey (c_DNS c)) \<noteq> None)"
  by (auto simp: check_dot_def checkDoT_def split: option.split)

lemma check_lists_dns:
  "c_DNS (snd (check_lists L c)) = (c_DNS c)\<lparr>DNS_LocalDomains := DNS_LocalDomains (c_DNS (snd (check_lists L c)))\<rparr>"
  by (simp add: check_lists_def split: prod.split)

lemma check_fails: "isl (snd (check L c)) \<longleftrightarrow> fatal L c"
proof (cases "isHostPort (DNS_Listen (c_DNS c))")
  case True
  obtain p1 c1 where c1: "check_admin L c = (p1, c1)" by fastforce
  then have d1: "c_DNS c1 = c_DNS c" by (auto simp: check_admin_def split: if_splits)
  obtain p2 r2 where r2: "check_upstreams L c1 = (p2, r2)" by fastforce
  show ?thesis
  proof (cases r2)
    case (Inl e)
    then have "isl (snd (check_upstreams L c1))" using r2 by simp
    then have "fatal L c" unfolding check_upstreams_fails d1 fatal_def by blast
    moreover have "isl (snd (check L c))" using True Inl c1 r2 by (simp add: check_def)
    ultimately show ?thesis by simp
  next
    case (Inr c2)
    obtain u where c2: "c2 = c1\<lparr>c_DNS := (c_DNS c1)\<lparr>DNS_Upstreams := u\<rparr>\<rparr>"
      using check_upstreams_keeps r2 Inr by blast
    have up: "\<not> isl (snd (check_upstreams L c1))" using r2 Inr by simp
    obtain p3 c3 where c3: "check_lists L c2 = (p3, c3)" by fastforce
    then obtain l where d3: "c_DNS c3 = (c_DNS c)\<lparr>DNS_Upstreams := u, DNS_LocalDomains := l\<rparr>"
      using check_lists_dns [of L c2] c2 d1 by simp
    have "isl (snd (check L c)) = isl (snd (check_dot L c3))"
      using True c1 r2 Inr c3 by (simp add: check_def split: prod.split)
    then show ?thesis using True up unfolding check_upstreams_fails check_dot_fails d1 d3 fatal_def by auto
  qed
qed (simp add: check_def fatal_def)

end
