(* ===== verification/Config_Safety.thy ===== *)
theory Config_Safety
  imports Config_Load
begin

text \<open>
  What loading a configuration promises (\<open>src/internal/config/config.go\<close>): every mistake is reported,
  an unreported setting is in effect as written, and a loaded configuration is well-formed.
\<close>

section \<open>Lemmas\<close>

subsection \<open>Reported mistakes\<close>

abbreviation (input) "reports st \<equiv> pr_Key ` set (snd (snd st))"

definition reported_ok :: "(string \<times> Node \<Rightarrow> bool) \<Rightarrow> (string \<times> Node) list \<Rightarrow> yaml_state \<Rightarrow> bool" where
  "reported_ok acc es st = (set (fst (snd st)) = fst ` set es
     \<and> (\<forall>kv \<in> set es. fst kv \<notin> reports st \<longrightarrow> acc kv)
     \<and> (\<forall>k. k \<notin> reports st \<longrightarrow> length (filter (\<lambda>kv. fst kv = k) es) \<le> 1))"

definition accepting :: "conflib \<Rightarrow> (string \<times> Node \<Rightarrow> bool) \<Rightarrow> bool" where
  "accepting L acc = (\<forall>k v s c. lookup_setting L k = Some s \<longrightarrow> k \<notin> pr_Key ` set (fst (applyNode s v c)) \<longrightarrow> acc (k, v))"

lemma reported_more: "reported_ok acc es (c, seen, ps) \<Longrightarrow> reported_ok acc es (c', seen, ps @ qs)"
  by (auto simp: reported_ok_def)

lemma reported_key:
  assumes acc: "accepting L acc" and ok: "reported_ok acc es (c, seen, ps)"
  shows "reported_ok acc (es @ [(k, v)]) (apply_key L k v (c, seen, ps))"
proof -
  define qs where "qs = (if k \<in> set seen then [\<lparr>pr_Key = k, pr_Detail = ''is set more than once; the last value is used''\<rparr>] else [])"
  obtain c' rs where st: "apply_key L k v (c, seen, ps) = (c', k # seen, ps @ qs @ rs)"
    and rs: "k \<notin> pr_Key ` set rs \<Longrightarrow> acc (k, v)"
  proof (cases "lookup_setting L k")
    case None
    show ?thesis
      by (rule that [of c "[\<lparr>pr_Key = k, pr_Detail = ''is not a known setting; it is ignored''\<rparr>]"])
         (simp_all add: apply_key_def None qs_def)
  next
    case (Some s)
    obtain rs c' where n: "applyNode s v c = (rs, c')" by fastforce
    have "k \<notin> pr_Key ` set rs \<Longrightarrow> acc (k, v)" using acc Some n unfolding accepting_def by (metis fst_conv)
    then show ?thesis by (intro that [of c' rs]) (simp_all add: apply_key_def Some n qs_def)
  qed
  have len: "length (filter (\<lambda>kv. fst kv = k) es) = 0" if "k \<notin> set seen"
    using that ok by (force simp: reported_ok_def filter_empty_conv)
  have "k \<in> pr_Key ` set qs" if "k \<in> set seen" using that by (simp add: qs_def)
  then show ?thesis using ok rs len unfolding st reported_ok_def by auto
qed

lemma reported_keys:
  assumes "accepting L acc" "reported_ok acc es st"
  shows "reported_ok acc (es @ map (\<lambda>(kn, vn). (pre @ n_Value kn, vn)) kvs)
     (fold (\<lambda>(kn, vn). apply_key L (pre @ n_Value kn) vn) kvs st)"
  using assms(2)
proof (induction kvs arbitrary: es st)
  case (Cons kv kvs)
  obtain kn vn where kv: "kv = (kn, vn)" by fastforce
  obtain c seen ps where "st = (c, seen, ps)" using prod.exhaust by metis
  then have "reported_ok acc (es @ [(pre @ n_Value kn, vn)]) (apply_key L (pre @ n_Value kn) vn st)"
    using reported_key [OF assms(1)] Cons.prems by simp
  from Cons.IH [OF this] show ?case by (simp add: kv)
qed simp

lemma reported_top:
  assumes "accepting L acc" "reported_ok acc es st"
  shows "reported_ok acc (es @ top_entries kv) (apply_top L kv st)"
proof -
  obtain c seen ps where st: "st = (c, seen, ps)" using prod.exhaust by metis
  show ?thesis
    using assms reported_keys [OF assms, of "n_Value (fst kv) @ ''.''" "pairs (n_Content (snd kv))"]
      reported_key [OF assms(1), of es c seen ps "n_Value (fst kv)" "snd kv"] reported_more
    by (auto simp: apply_top_def top_entries_def Let_def st split: option.split)
qed

lemma reported_tops:
  "accepting L acc \<Longrightarrow> reported_ok acc es st \<Longrightarrow>
   reported_ok acc (es @ concat (map top_entries kvs)) (fold (apply_top L) kvs st)"
proof (induction kvs arbitrary: es st)
  case (Cons kv kvs)
  from Cons.IH [OF Cons.prems(1) reported_top [OF Cons.prems]] show ?case by simp
qed simp

lemma yaml_reported:
  assumes "accepting L acc"
  shows "(\<forall>kv \<in> set (yaml_entries root). fst kv \<notin> pr_Key ` set (fst (applyYAML L root c)) \<longrightarrow> acc kv)
     \<and> (\<forall>k. k \<notin> pr_Key ` set (fst (applyYAML L root c)) \<longrightarrow> length (filter (\<lambda>kv. fst kv = k) (yaml_entries root)) \<le> 1)"
proof -
  have "reported_ok acc [] (c, [], [])" by (simp add: reported_ok_def)
  from reported_tops [OF assms this]
  have "reported_ok acc (concat (map top_entries kvs)) (fold (apply_top L) kvs (c, [], []))" for kvs by simp
  then show ?thesis
    by (auto simp: applyYAML_def yaml_entries_def Let_def is_null_def reported_ok_def split: prod.split)
qed

lemma apply_env_one_more: "set (fst st) \<subseteq> set (fst (apply_env_one look s st))"
  by (auto simp: apply_env_one_def split: setter.split option.split sum.split)

lemma fold_env_more: "set (fst st) \<subseteq> set (fst (fold (apply_env_one look) ss st))"
proof (induction ss arbitrary: st)
  case (Cons s ss)
  then show ?case using apply_env_one_more [of st look s] by fastforce
qed simp

text \<open>The value of the strongest source that gives one.\<close>

definition strongest :: "(string \<Rightarrow> 'v option) \<Rightarrow> 'v \<Rightarrow> Node \<Rightarrow> (string \<Rightarrow> string option) \<Rightarrow> string \<Rightarrow> 'v" where
  "strongest dec def root look key = (case look (envName key) of
     Some v \<Rightarrow> the (dec v)
   | None \<Rightarrow> (case map_of (yaml_entries root) key of Some n \<Rightarrow> the (dec (raw_value n)) | None \<Rightarrow> def))"

context scalar_field
begin

lemma accepting_own: "accepting L (\<lambda>kv. fst kv = key \<longrightarrow> n_Kind (snd kv) = ScalarNode \<and> dec (raw_value (snd kv)) \<noteq> None)"
proof -
  obtain s f where s: "lookup_setting L key = Some s" "s_key s = key" "s_set s = Scalar f" "stores f dst dec"
    using own_setting by metis
  have "n_Kind v = ScalarNode \<and> dec (raw_value v) \<noteq> None" if r: "key \<notin> pr_Key ` set (fst (applyNode s v c))" for v c
  proof -
    have kind: "n_Kind v = ScalarNode" using r s(2,3) by (auto simp: applyNode_def split: if_splits)
    have "case dec (raw_value v) of None \<Rightarrow> \<exists>e. f (raw_value v) c = Inl e | Some x \<Rightarrow> f (raw_value v) c = Inr (dst (\<lambda>_. x) c)"
      using s(4) by (simp add: stores_def)
    then show ?thesis using r s(2,3) kind by (auto simp: applyNode_def split: option.splits)
  qed
  then show ?thesis using s(1) by (auto simp: accepting_def)
qed

lemma env_accepted:
  assumes "envName key \<notin> pr_Key ` set (fst (applyEnv L look environ c))" "look (envName key) = Some v"
  shows "dec v \<noteq> None"
proof
  assume none: "dec v = None"
  obtain s f where s: "s_key s = key" "s_set s = Scalar f" "stores f dst dec" "s \<in> set (settings L)"
    using own_setting by metis
  then obtain xs ys where split: "settings L = xs @ s # ys" by (meson split_list)
  define st where "st = fold (apply_env_one look) xs ([], c)"
  have "case dec v of None \<Rightarrow> \<exists>e. f v (snd st) = Inl e | Some x \<Rightarrow> f v (snd st) = Inr (dst (\<lambda>_. x) (snd st))"
    using s(3) by (simp add: stores_def)
  then have "\<exists>e. f v (snd st) = Inl e" by (simp add: none)
  then have "envName key \<in> pr_Key ` set (fst (apply_env_one look s st))"
    using assms(2) s(1,2) by (auto simp: apply_env_one_def)
  then have "envName key \<in> pr_Key ` set (fst (fold (apply_env_one look) (settings L) ([], c)))"
    using fold_env_more [of "apply_env_one look s st" look ys] by (auto simp: split st_def)
  then show False using assms(1) by (auto simp: applyEnv_def split: prod.splits)
qed

lemma sources_unreported:
  assumes "apply_sources L root look environ = (ps, c)" "key \<notin> pr_Key ` set ps" "envName key \<notin> pr_Key ` set ps"
  shows "get c = strongest dec (get defaults) root look key"
proof -
  obtain p1 c1 where y: "applyYAML L root defaults = (p1, c1)" by fastforce
  obtain p2 c2 where e: "applyEnv L look environ c1 = (p2, c2)" by fastforce
  have ps: "ps = p1 @ p2" using assms(1) y e by (simp add: apply_sources_def)
  let ?es = "filter (\<lambda>kv. fst kv = key) (yaml_entries root)"
  have "key \<notin> pr_Key ` set (fst (applyYAML L root defaults))" using assms(2) ps y by auto
  then have acc: "\<forall>kv \<in> set ?es. n_Kind (snd kv) = ScalarNode \<and> dec (raw_value (snd kv)) \<noteq> None" and one: "length ?es \<le> 1"
    using yaml_reported [OF accepting_own, of root defaults] by auto
  have env: "dec v \<noteq> None" if "look (envName key) = Some v" for v
    using env_accepted [of look environ c1 v] that assms(3) ps e by (simp add: image_Un)
  have gv: "given_values root look key = map (\<lambda>kv. raw_value (snd kv)) ?es @ (case look (envName key) of None \<Rightarrow> [] | Some v \<Rightarrow> [v])"
  proof -
    have "filter (\<lambda>kv. fst kv = key \<and> n_Kind (snd kv) = ScalarNode) (yaml_entries root) = ?es"
      using acc by (intro filter_cong) auto
    then show ?thesis by (simp add: given_values_def)
  qed
  have get: "get c = in_effect dec (get defaults) (given_values root look key)"
    using sources_effect [of root look environ] assms(1) by simp
  show ?thesis
  proof (cases ?es)
    case Nil
    then have "map_of (yaml_entries root) key = None" by (auto simp: map_of_eq_None_iff filter_empty_conv)
    then show ?thesis using get gv Nil env
      by (auto simp: strongest_def in_effect_def split: option.split)
  next
    case (Cons kv r)
    then have es: "?es = [kv]" using one by simp
    then have "set ?es = {kv}" by simp
    then have kv: "kv \<in> set (yaml_entries root)" "fst kv = key" and uniq: "\<forall>kv' \<in> set (yaml_entries root). fst kv' = key \<longrightarrow> kv' = kv"
      by auto
    then obtain n where n: "map_of (yaml_entries root) key = Some n"
      by (metis map_of_eq_None_iff image_eqI not_None_eq)
    then have "kv = (key, n)" using uniq map_of_SomeD by fastforce
    then show ?thesis using get gv es env n acc
      by (auto simp: strongest_def in_effect_def split: option.split)
  qed
qed

end

lemma load_stages:
  assumes "load_config L data look environ = (ps, Inr c)" "cf_Unmarshal L data = Inr root"
  obtains p1 c1 p2 where "apply_sources L root look environ = (p1, c1)" "check L c1 = (p2, Inr c)" "ps = p1 @ p2"
  using assms by (auto simp: load_config_def split: prod.splits)

text \<open>No problem names the key or its environment variable.\<close>

definition unreported :: "Problem list \<Rightarrow> string \<Rightarrow> bool" where
  "unreported ps key = (\<forall>p \<in> set ps. pr_Key p \<noteq> key \<and> pr_Key p \<noteq> envName key)"

context final_field
begin

lemma load_unreported:
  assumes "load_config L data look environ = (ps, Inr c)" "cf_Unmarshal L data = Inr root" "unreported ps key"
  shows "get c = strongest dec (get defaults) root look key"
proof -
  obtain p1 c1 p2 where st: "apply_sources L root look environ = (p1, c1)" "check L c1 = (p2, Inr c)" "ps = p1 @ p2"
    using load_stages [OF assms(1,2)] by metis
  then have "key \<notin> pr_Key ` set p1" "envName key \<notin> pr_Key ` set p1"
    using assms(3) by (auto simp: unreported_def)
  then have "get c1 = strongest dec (get defaults) root look key"
    by (rule sources_unreported [OF st(1)])
  then show ?thesis using check_keeps [OF st(2)] by simp
qed

end

lemma defaults_fields [simp]:
  "QL_Mode (c_QueryLog defaults) = ''none''" "QL_Clients (c_QueryLog defaults) = ''drop''"
  "QL_Database (c_QueryLog defaults) = []" "QL_File (c_QueryLog defaults) = []"
  "QL_RetentionDays (c_QueryLog defaults) = defaultRetentionDays" "DNS_LocalPTR (c_DNS defaults)"
  "Blk_CNAMEInspection (c_Blocking defaults)" "\<not> Adm_Pprof (c_Admin defaults)" "DNS_Listen (c_DNS defaults) = defaultListen"
  by (simp_all add: defaults_def)

subsection \<open>A closed example\<close>

text \<open>A file that records every query, with a mistake in \<open>query_log.clients\<close> and in one upstream, and an unknown key.\<close>

abbreviation (input) "ynode v \<equiv> Node ScalarNode ''!!str'' v []"

definition demo_root :: Node where
  "demo_root = Node DocumentNode [] [] [Node MappingNode ''!!map'' [] [
     ynode ''query_log'', Node MappingNode ''!!map'' [] [
       ynode ''mode'', ynode ''all'', ynode ''clients'', ynode ''everything''],
     ynode ''dns'', Node MappingNode ''!!map'' [] [
       ynode ''upstreams'', Node SequenceNode ''!!seq'' [] [ynode ''1.1.1.1'', ynode ''9.9.9.9:53'']],
     ynode ''color'', ynode ''blue'']]"

definition demo_conf :: conflib where
  "demo_conf = \<lparr>cf_U = ascii_only, cf_K = demo_url, cf_T = demo_iptext, cf_ParseCIDR = (\<lambda>s. False),
     cf_ParseDuration = (\<lambda>s. None), cf_Quote = (\<lambda>s. s), cf_DurationString = (\<lambda>d. []),
     cf_LoadX509KeyPair = (\<lambda>a b. None), cf_Unmarshal = (\<lambda>s. Inr demo_root)\<rparr>"

definition demo_look :: "string \<Rightarrow> string option" where
  "demo_look n = (if n = ''S_HOLE_QUERY_LOG_MODE'' then Some ''blocked'' else None)"

lemmas env_simps = envName_def ToUpper_def ReplaceAll_char is_lower_def byte_of_def of_char_def char_of_def bit_Suc_0_iff

lemma demo_entries: "yaml_entries demo_root = [(''query_log.mode'', ynode ''all''), (''query_log.clients'', ynode ''everything''),
   (''dns.upstreams'', Node SequenceNode ''!!seq'' [] [ynode ''1.1.1.1'', ynode ''9.9.9.9:53'']), (''color'', ynode ''blue'')]"
  by (simp add: demo_root_def yaml_entries_def top_entries_def sections_def renamedKeys_def is_null_def) 

lemma demo_applied: "fold (apply_entry demo_conf) (yaml_entries demo_root) defaults =
   defaults\<lparr>c_QueryLog := (c_QueryLog defaults)\<lparr>QL_Mode := ''all''\<rparr>, c_DNS := (c_DNS defaults)\<lparr>DNS_Upstreams := [''1.1.1.1'', ''9.9.9.9:53'']\<rparr>\<rparr>"
  by (simp add: demo_entries apply_entry_def lookup_setting_def settings_def applyNode_def setEnum_def raw_value_def setList_def listSetter_def is_null_def)

lemma demo_sources: "snd (apply_sources demo_conf demo_root demo_look []) =
   defaults\<lparr>c_QueryLog := (c_QueryLog defaults)\<lparr>QL_Mode := ''blocked''\<rparr>, c_DNS := (c_DNS defaults)\<lparr>DNS_Upstreams := [''1.1.1.1'', ''9.9.9.9:53'']\<rparr>\<rparr>"
  by (simp add: apply_sources_config demo_applied apply_env_one_def settings_def demo_look_def env_simps setEnum_def)

lemma demo_not_fatal: "\<not> fatal demo_conf (snd (apply_sources demo_conf demo_root demo_look []))"
  by (simp add: demo_sources fatal_def upstream_form_def defaults_def defaultListen_def isHostPort_def SplitHostPort_def LastIndexByte_def HasPrefix_def)

lemma demo_loads:
  obtains ps c where "load_config demo_conf [] demo_look [] = (ps, Inr c)"
proof -
  obtain p1 c1 where c1: "apply_sources demo_conf demo_root demo_look [] = (p1, c1)" by fastforce
  obtain p2 r where r: "check demo_conf c1 = (p2, r)" by fastforce
  then obtain c where "r = Inr c"
    using demo_not_fatal check_fails [of demo_conf c1] c1 by (cases r) auto
  then have "load_config demo_conf [] demo_look [] = (p1 @ p2, Inr c)"
    using c1 r by (simp add: load_config_def demo_conf_def)
  then show thesis by (rule that)
qed

lemma demo_lib [simp]: "cf_Unmarshal demo_conf s = Inr demo_root" "cf_K demo_conf = demo_url"
  by (simp_all add: demo_conf_def)

section \<open>Properties\<close>

text \<open>C9: a configuration that loads is well-formed. The mode, the client privacy and the reply are among their
  documented values, the intervals are positive (a ticker panics on another value), the sizes are not
  negative; both listen addresses have a port; there is at least one upstream, and unless the list is the
  default one each upstream is host:port or an HTTPS URL with an IP host, a path and no user info; the local domains
  and the allowlist hold valid domains only, the client names valid addresses or prefixes only; and DoT is on only
  with a certificate pair that loads. The URLs of the block lists are not checked by the loader.\<close>

theorem loaded_config_valid:
  assumes "url_ok (cf_K L)" "ParseIP (cf_T L) [] = None" "load_config L data look environ = (ps, Inr c)"
  shows "config_ok L c"
proof -
  obtain root where root: "cf_Unmarshal L data = Inr root"
    using assms(3) by (auto simp: load_config_def split: sum.splits)
  obtain p1 c1 p2 where st: "apply_sources L root look environ = (p1, c1)" "check L c1 = (p2, Inr c)"
    using load_stages [OF assms(3) root] by metis
  have "settings_ok c1" using sources_settings_ok [of L root look environ] st(1) by simp
  then show ?thesis using check_ok [OF assms(1,2)] st(2) by blast
qed

theorem loaded_config_valid_witness:
  "\<exists>ps c. load_config demo_conf [] demo_look [] = (ps, Inr c) \<and> config_ok demo_conf c"
proof -
  obtain ps c where l: "load_config demo_conf [] demo_look [] = (ps, Inr c)" by (rule demo_loads)
  have "config_ok demo_conf c" by (rule loaded_config_valid [OF _ _ l]) (simp add: demo_url_ok, code_simp)
  with l show ?thesis by blast
qed

text \<open>C10: the environment overrides the file, the file overrides the default, and a value that the setting
  cannot read changes nothing: the value in effect of each privacy setting is the last readable one, or the
  default, which records no query and no client. So a mistake never makes s-hole less private.\<close>

theorem settings_precedence:
  assumes "load_config L data look environ = (ps, Inr c)" "cf_Unmarshal L data = Inr root"
  shows "QL_Mode (c_QueryLog c) = in_effect (dec_enum ''none'' [''none'', ''blocked'', ''all'']) ''none'' (given_values root look ''query_log.mode'')
    \<and> QL_Clients (c_QueryLog c) = in_effect (dec_enum ''drop'' [''drop'', ''subnet'', ''full'']) ''drop'' (given_values root look ''query_log.clients'')
    \<and> QL_Database (c_QueryLog c) = in_effect (dec_optional L) [] (given_values root look ''query_log.database'')
    \<and> QL_File (c_QueryLog c) = in_effect (dec_file L) [] (given_values root look ''query_log.file'')
    \<and> QL_RetentionDays (c_QueryLog c) = in_effect (dec_int 0 7) 7 (given_values root look ''query_log.retention_days'')
    \<and> DNS_LocalPTR (c_DNS c) = in_effect (dec_bool L True) True (given_values root look ''dns.local_ptr'')
    \<and> Blk_CNAMEInspection (c_Blocking c) = in_effect (dec_bool L True) True (given_values root look ''blocking.cname_inspection'')
    \<and> Adm_Pprof (c_Admin c) = in_effect (dec_bool L False) False (given_values root look ''admin.pprof'')"
  using mode_f.load_effect [OF assms] clients_f.load_effect [OF assms] database_f.load_effect [OF assms]
    file_f.load_effect [OF assms] retention_f.load_effect [OF assms] ptr_f.load_effect [OF assms]
    cname_f.load_effect [OF assms] pprof_f.load_effect [OF assms]
  by (simp add: defaultRetentionDays_def)

lemma demo_given:
  "given_values demo_root demo_look ''query_log.mode'' = [''all'', ''blocked'']"
  "given_values demo_root demo_look ''query_log.clients'' = [''everything'']"
  by (simp_all add: given_values_def demo_entries demo_look_def env_simps raw_value_def)

theorem settings_precedence_witness:
  "\<exists>ps c. load_config demo_conf [] demo_look [] = (ps, Inr c)
     \<and> QL_Mode (c_QueryLog c) = ''blocked'' \<and> QL_Clients (c_QueryLog c) = ''drop''"
proof -
  obtain ps c where l: "load_config demo_conf [] demo_look [] = (ps, Inr c)" by (rule demo_loads)
  show ?thesis
    using l settings_precedence [OF l demo_lib(1)] by (simp add: demo_given in_effect_def dec_enum_def)
qed

text \<open>C33: each of the nine settings that decide what is recorded and where queries are taken (mode, clients, database, file,
  retention, reverse lookups, CNAME inspection, profiling, DNS listen address) is either reported or in effect as
  written. If neither the key nor its environment variable is named by a problem, the loaded value is the
  environment's, or else the file's, or else the default.\<close>

theorem unreported_in_effect:
  assumes "load_config L data look environ = (ps, Inr c)" "cf_Unmarshal L data = Inr root"
  shows "(unreported ps ''query_log.mode'' \<longrightarrow>
      QL_Mode (c_QueryLog c) = strongest (dec_enum ''none'' [''none'', ''blocked'', ''all'']) ''none'' root look ''query_log.mode'')
   \<and> (unreported ps ''query_log.clients'' \<longrightarrow>
      QL_Clients (c_QueryLog c) = strongest (dec_enum ''drop'' [''drop'', ''subnet'', ''full'']) ''drop'' root look ''query_log.clients'')
   \<and> (unreported ps ''query_log.database'' \<longrightarrow>
      QL_Database (c_QueryLog c) = strongest (dec_optional L) [] root look ''query_log.database'')
   \<and> (unreported ps ''query_log.file'' \<longrightarrow>
      QL_File (c_QueryLog c) = strongest (dec_file L) [] root look ''query_log.file'')
   \<and> (unreported ps ''query_log.retention_days'' \<longrightarrow>
      QL_RetentionDays (c_QueryLog c) = strongest (dec_int 0 7) 7 root look ''query_log.retention_days'')
   \<and> (unreported ps ''dns.local_ptr'' \<longrightarrow>
      DNS_LocalPTR (c_DNS c) = strongest (dec_bool L True) True root look ''dns.local_ptr'')
   \<and> (unreported ps ''blocking.cname_inspection'' \<longrightarrow>
      Blk_CNAMEInspection (c_Blocking c) = strongest (dec_bool L True) True root look ''blocking.cname_inspection'')
   \<and> (unreported ps ''admin.pprof'' \<longrightarrow>
      Adm_Pprof (c_Admin c) = strongest (dec_bool L False) False root look ''admin.pprof'')
   \<and> (unreported ps ''dns.listen'' \<longrightarrow>
      DNS_Listen (c_DNS c) = strongest (dec_string '':53'') '':53'' root look ''dns.listen'')"
  using mode_f.load_unreported [OF assms] clients_f.load_unreported [OF assms] retention_f.load_unreported [OF assms]
    database_f.load_unreported [OF assms] file_f.load_unreported [OF assms] cname_f.load_unreported [OF assms]
    pprof_f.load_unreported [OF assms] ptr_f.load_unreported [OF assms] listen_f.load_unreported [OF assms]
  by (simp add: defaultRetentionDays_def defaultListen_def)

definition check_names :: "string set" where
  "check_names = {''admin.listen'', ''dns.upstreams'', ''dns.local_domains'', ''blocking.allowlist'',
     ''query_log.client_names'', ''dns.dot_listen''}"

lemma check_keys: "pr_Key ` set (fst (check L c)) \<subseteq> check_names"
proof -
  have a: "pr_Key ` set (fst (check_admin L c)) \<subseteq> check_names" for c
    by (simp add: check_admin_def admin_problem_def check_names_def)
  have u: "pr_Key ` set (fst (check_upstreams L c)) \<subseteq> check_names" for c
    by (auto simp: check_upstreams_def upstream_problem_def check_names_def split: prod.split)
  have l: "pr_Key ` set (fst (check_lists L c)) \<subseteq> check_names" for c
    by (auto simp: check_lists_def local_problem_def allow_problem_def client_problem_def check_names_def split: prod.split)
  have d: "pr_Key ` set (fst (check_dot L c)) \<subseteq> check_names" for c
    by (auto simp: check_dot_def dot_problem_def check_names_def split: option.split)
  obtain p1 c1 where c1: "check_admin L c = (p1, c1)" by fastforce
  obtain p2 r where r: "check_upstreams L c1 = (p2, r)" by fastforce
  have p12: "pr_Key ` set p1 \<subseteq> check_names" "pr_Key ` set p2 \<subseteq> check_names"
    using a [of c] u [of c1] c1 r by simp_all
  show ?thesis
  proof (cases r)
    case (Inl e)
    then show ?thesis using p12 by (simp add: check_def c1 r image_Un)
  next
    case (Inr c2)
    obtain p3 c3 where c3: "check_lists L c2 = (p3, c3)" by fastforce
    obtain p4 r' where r': "check_dot L c3 = (p4, r')" by fastforce
    have "pr_Key ` set p3 \<subseteq> check_names" "pr_Key ` set p4 \<subseteq> check_names"
      using l [of c2] d [of c3] c3 r' by simp_all
    then show ?thesis using p12 by (simp add: check_def c1 r Inr c3 r' image_Un)
  qed
qed

lemma demo_problems:
  assumes "load_config demo_conf [] demo_look [] = (ps, Inr c)"
  shows "unreported ps ''query_log.mode''"
proof -
  obtain p1 c1 where y: "applyYAML demo_conf demo_root defaults = (p1, c1)" by fastforce
  obtain p2 c2 where e: "applyEnv demo_conf demo_look [] c1 = (p2, c2)" by fastforce
  have "map pr_Key (fst (applyYAML demo_conf demo_root defaults)) = [''query_log.clients'', ''color'']"
    by (simp add: applyYAML_def demo_root_def apply_top_def apply_key_def sections_def renamedKeys_def is_null_def
        lookup_setting_def settings_def applyNode_def setEnum_def raw_value_def setList_def listSetter_def Let_def)
  then have k1: "pr_Key ` set p1 \<subseteq> {''query_log.clients'', ''color''}"
    unfolding y by (metis fst_conv list.set_map set_eq_subset list.simps(15) empty_set)
  have "fst (applyEnv demo_conf demo_look [] c1) = []"
    by (simp add: applyEnv_def apply_env_one_def settings_def demo_look_def env_simps setEnum_def unknown_env_def sort_Strings_def)
  then have "ps = p1 @ fst (check demo_conf c2)"
    using assms by (simp add: load_config_def apply_sources_def y e split: prod.splits)
  moreover have "k \<notin> pr_Key ` set p1" "k \<notin> pr_Key ` set (fst (check demo_conf c2))"
    if "k \<in> {''query_log.mode'', ''S_HOLE_QUERY_LOG_MODE''}" for k
    using that k1 check_keys [of demo_conf c2] by (auto simp: check_names_def)
  ultimately show ?thesis by (auto simp: unreported_def env_simps)
qed

theorem unreported_in_effect_witness:
  "\<exists>ps c. load_config demo_conf [] demo_look [] = (ps, Inr c) \<and> unreported ps ''query_log.mode''
     \<and> QL_Mode (c_QueryLog c) = ''blocked''"
proof -
  obtain ps c where l: "load_config demo_conf [] demo_look [] = (ps, Inr c)" by (rule demo_loads)
  show ?thesis
    using l demo_problems [OF l] unreported_in_effect [OF l demo_lib(1)]
    by (simp add: strongest_def demo_look_def env_simps dec_enum_def)
qed

text \<open>C32: loading fails exactly for the documented fatal mistakes: a file that cannot be read, text that is not YAML, a
  malformed \<open>dns.listen\<close>, an upstream list in which every entry is malformed, or DoT on without a certificate
  pair that loads. Every other mistake is worked around.\<close>

theorem load_fails_exactly:
  "isl (snd (config_Load L src look environ)) \<longleftrightarrow>
     isl src \<or> isl (cf_Unmarshal L (projr src))
     \<or> fatal L (snd (apply_sources L (projr (cf_Unmarshal L (projr src))) look environ))"
proof (cases src)
  case src: (Inr data)
  show ?thesis
  proof (cases "cf_Unmarshal L data")
    case (Inr root)
    obtain p1 c1 where c1: "apply_sources L root look environ = (p1, c1)" by fastforce
    obtain p2 r where r: "check L c1 = (p2, r)" by fastforce
    have "snd (config_Load L src look environ) = r" using src Inr c1 r by (simp add: config_Load_def load_config_def)
    then show ?thesis using check_fails [of L c1] src Inr c1 r by simp
  qed (simp add: src config_Load_def load_config_def)
qed (simp add: config_Load_def)

text \<open>\<open>filterLocalDomains\<close> keeps the stored form of each entry that is a DNS name, in order and once, and
  returns every other entry as dropped; what it keeps it would keep unchanged if it were given again.\<close>

theorem local_domains_stable:
  "filterLocalDomains L es = (firsts (filter validLocalDomain (map (local_form L) es)),
     filter (\<lambda>e. \<not> validLocalDomain (local_form L e)) es)
   \<and> filterLocalDomains L (fst (filterLocalDomains L es)) = (fst (filterLocalDomains L es), [])"
proof -
  let ?v = "firsts (filter validLocalDomain (map (local_form L) es))"
  have v: "\<forall>d \<in> set ?v. validLocalDomain d" by simp
  then have "map (local_form L) ?v = ?v" by (intro map_idI local_form_valid) blast
  moreover have "filter validLocalDomain ?v = ?v" using v by (simp add: filter_id_conv)
  moreover have "filter (\<lambda>e. \<not> validLocalDomain (local_form L e)) ?v = []"
    using v local_form_valid by (metis (mono_tags, lifting) filter_False)
  ultimately show ?thesis by (simp add: filterLocalDomains_spec firsts_id)
qed

end
