(* ===== verification/Config_Privacy.thy ===== *)
theory Config_Privacy
  imports Config_Safety
begin

text \<open>
  The privacy warnings of a loaded configuration, \<open>src/internal/config/privacy.go\<close>: one for each setting
  that is less private or less secure than its default.
\<close>

section \<open>Model\<close>

record Warning =
  wn_Key :: string
  wn_Detail :: string
  wn_Hint :: string

definition maxPrivateRetentionDays :: int where
  "maxPrivateRetentionDays = defaultRetentionDays"

definition isLoopbackListen :: "conflib \<Rightarrow> string \<Rightarrow> bool" where
  "isLoopbackListen L addr = (case SplitHostPort addr of
     None \<Rightarrow> False
   | Some (host, _) \<Rightarrow>
       if EqualFold (cf_U L) host ''localhost'' then True
       else (case ParseIP (cf_T L) host of None \<Rightarrow> False | Some ip \<Rightarrow> IsLoopback ip))"

definition warn_mode :: "Config \<Rightarrow> Warning list" where
  "warn_mode c =
     (if QL_Mode (c_QueryLog c) = ''all'' then
        [\<lparr>wn_Key = ''query_log.mode'', wn_Detail = ''every query is recorded: the history shows each site every device uses'',
          wn_Hint = ''set query_log.mode to \"none\", or \"blocked\" to record blocked queries only''\<rparr>]
      else if QL_Mode (c_QueryLog c) = ''blocked'' then
        [\<lparr>wn_Key = ''query_log.mode'', wn_Detail = ''blocked queries are recorded: the history shows which trackers and ads each app contacts'',
          wn_Hint = ''set query_log.mode to \"none\"''\<rparr>]
      else [])"

definition warn_clients :: "Config \<Rightarrow> Warning list" where
  "warn_clients c =
     (if QL_Clients (c_QueryLog c) = ''full'' then
        [\<lparr>wn_Key = ''query_log.clients'',
          wn_Detail = ''the address of each device is recorded, so each query can be traced to a device''
            @ (if QL_ClientNames (c_QueryLog c) \<noteq> [] then '', and client_names labels name the devices'' else []),
          wn_Hint = ''set query_log.clients to \"drop\"''\<rparr>]
      else if QL_Clients (c_QueryLog c) = ''subnet'' then
        [\<lparr>wn_Key = ''query_log.clients'', wn_Detail = ''the subnet of each device is recorded'',
          wn_Hint = ''set query_log.clients to \"drop\"''\<rparr>]
      else [])"

definition warn_file :: "Config \<Rightarrow> Warning list" where
  "warn_file c =
     (if QL_File (c_QueryLog c) = [] then []
      else if QL_File (c_QueryLog c) = ''stdout'' then
        [\<lparr>wn_Key = ''query_log.file'', wn_Detail = ''query lines go to standard output: the system journal or the container log, which retention and purge cannot reach'',
          wn_Hint = ''set query_log.file to \"off\"''\<rparr>]
      else
        [\<lparr>wn_Key = ''query_log.file'', wn_Detail = ''query lines go to '' @ QL_File (c_QueryLog c) @ '', which retention does not shorten'',
          wn_Hint = ''set query_log.file to \"off\", or delete the file with s-hole -purge''\<rparr>])"

definition warn_retention :: "Config \<Rightarrow> Warning list" where
  "warn_retention c =
     (if QL_Database (c_QueryLog c) \<noteq> [] then
        (if QL_RetentionDays (c_QueryLog c) = 0 then
           [\<lparr>wn_Key = ''query_log.retention_days'', wn_Detail = ''the query history is kept forever'',
             wn_Hint = ''set query_log.retention_days to '' @ Itoa maxPrivateRetentionDays\<rparr>]
         else if maxPrivateRetentionDays < QL_RetentionDays (c_QueryLog c) then
           [\<lparr>wn_Key = ''query_log.retention_days'',
             wn_Detail = ''the query history is kept for '' @ Itoa (QL_RetentionDays (c_QueryLog c)) @ '' days'',
             wn_Hint = ''set query_log.retention_days to '' @ Itoa maxPrivateRetentionDays @ '' or less''\<rparr>]
         else [])
      else [])"

definition warn_admin :: "conflib \<Rightarrow> Config \<Rightarrow> Warning list" where
  "warn_admin L c =
     (if \<not> isLoopbackListen L (Adm_Listen (c_Admin c)) then
        [\<lparr>wn_Key = ''admin.listen'', wn_Detail = ''the dashboard and API on '' @ Adm_Listen (c_Admin c)
            @ '' have no login and use plain HTTP: every device that can reach them can read the stored history and change the allowlist, and a device on the network path can read the traffic'',
          wn_Hint = ''set admin.listen to \"127.0.0.1:8080\"''\<rparr>]
      else [])
     @ (if Adm_Pprof (c_Admin c) then
        [\<lparr>wn_Key = ''admin.pprof'', wn_Detail = ''the Go profiler is exposed on the admin address and shows the internal state of the process'',
          wn_Hint = ''set admin.pprof to false when the investigation is done''\<rparr>]
      else [])"

definition warn_dns :: "Config \<Rightarrow> Warning list" where
  "warn_dns c =
     (if \<not> DNS_LocalPTR (c_DNS c) then
        [\<lparr>wn_Key = ''dns.local_ptr'', wn_Detail = ''reverse lookups for LAN addresses go upstream and tell the upstream which addresses the LAN uses'',
          wn_Hint = ''set dns.local_ptr to true, unless a resolver on the LAN serves those reverse zones''\<rparr>]
      else [])
     @ (if \<not> list_ex (\<lambda>u. HasPrefix u ''https://'') (DNS_Upstreams (c_DNS c)) then
        [\<lparr>wn_Key = ''dns.upstreams'', wn_Detail = ''every upstream is plain DNS: the internet provider can read and change every forwarded query'',
          wn_Hint = ''put a DoH upstream first, such as https://9.9.9.9/dns-query''\<rparr>]
      else [])"

definition warn_blocking :: "conflib \<Rightarrow> Config \<Rightarrow> Warning list" where
  "warn_blocking L c =
     (if \<not> Blk_CNAMEInspection (c_Blocking c) then
        [\<lparr>wn_Key = ''blocking.cname_inspection'', wn_Detail = ''s-hole does not check CNAME targets, so it does not block a tracker behind a subdomain of a site'',
          wn_Hint = ''set blocking.cname_inspection to true''\<rparr>]
      else [])
     @ map (\<lambda>u. \<lparr>wn_Key = ''blocking.lists'', wn_Detail = redact_URL (cf_K L) u
            @ '' is downloaded over plain HTTP: anyone on the network path can change the list and unblock trackers'',
          wn_Hint = ''use the https:// URL of the list''\<rparr>)
         (filter (\<lambda>u. HasPrefix (ToLower (cf_U L) u) ''http://'') (Blk_Lists (c_Blocking c)))"

definition Warnings :: "conflib \<Rightarrow> Config \<Rightarrow> Warning list" where
  "Warnings L c =
     warn_mode c
     @ (if QL_Mode (c_QueryLog c) \<noteq> ''none'' then warn_clients c @ warn_file c @ warn_retention c else [])
     @ warn_admin L c @ warn_dns c @ warn_blocking L c"

section \<open>Lemmas\<close>

text \<open>\<open>less_private L c k\<close>: the setting \<open>k\<close> has an effect and is less private or less secure than its default.\<close>

definition less_private :: "conflib \<Rightarrow> Config \<Rightarrow> string \<Rightarrow> bool" where
  "less_private L c k = (let q = c_QueryLog c; recording = QL_Mode q \<noteq> ''none'' in
     (k = ''query_log.mode'' \<and> recording)
   \<or> (k = ''query_log.clients'' \<and> recording \<and> QL_Clients q \<noteq> ''drop'')
   \<or> (k = ''query_log.file'' \<and> recording \<and> QL_File q \<noteq> [])
   \<or> (k = ''query_log.retention_days'' \<and> recording \<and> QL_Database q \<noteq> [] \<and> QL_RetentionDays q \<notin> {1..7})
   \<or> (k = ''admin.listen'' \<and> \<not> isLoopbackListen L (Adm_Listen (c_Admin c)))
   \<or> (k = ''admin.pprof'' \<and> Adm_Pprof (c_Admin c))
   \<or> (k = ''dns.local_ptr'' \<and> \<not> DNS_LocalPTR (c_DNS c))
   \<or> (k = ''dns.upstreams'' \<and> (\<forall>u \<in> set (DNS_Upstreams (c_DNS c)). \<not> HasPrefix u ''https://''))
   \<or> (k = ''blocking.cname_inspection'' \<and> \<not> Blk_CNAMEInspection (c_Blocking c))
   \<or> (k = ''blocking.lists'' \<and> (\<exists>u \<in> set (Blk_Lists (c_Blocking c)). HasPrefix (ToLower (cf_U L) u) ''http://'')))"

text \<open>The warnings of each part, by key.\<close>

definition warns :: "Warning list \<Rightarrow> string \<Rightarrow> bool" where
  "warns ws k = (k \<in> wn_Key ` set ws)"

lemma warns_append [simp]: "warns (a @ b) k \<longleftrightarrow> warns a k \<or> warns b k"
  by (auto simp: warns_def)

lemma warns_Nil [simp]: "\<not> warns [] k"
  by (simp add: warns_def)

lemma warns_one [simp]: "warns [\<lparr>wn_Key = a, wn_Detail = d, wn_Hint = h\<rparr>] k \<longleftrightarrow> k = a"
  by (auto simp: warns_def)

lemma warns_if [simp]: "warns (if b then x else y) k \<longleftrightarrow> (if b then warns x k else warns y k)"
  by simp

lemma warns_map:
  "warns (map (\<lambda>u. \<lparr>wn_Key = a, wn_Detail = d u, wn_Hint = h u\<rparr>) us) k \<longleftrightarrow> k = a \<and> us \<noteq> []"
  by (cases us) (auto simp: warns_def)

lemmas warns_rules = warns_append warns_Nil warns_one warns_if warns_map

lemma warns_mode:
  "QL_Mode (c_QueryLog c) \<in> {''none'', ''blocked'', ''all''} \<Longrightarrow>
   warns (warn_mode c) k \<longleftrightarrow> k = ''query_log.mode'' \<and> QL_Mode (c_QueryLog c) \<noteq> ''none''"
  unfolding warn_mode_def warns_rules by auto

lemma warns_clients:
  "QL_Clients (c_QueryLog c) \<in> {''drop'', ''subnet'', ''full''} \<Longrightarrow>
   warns (warn_clients c) k \<longleftrightarrow> k = ''query_log.clients'' \<and> QL_Clients (c_QueryLog c) \<noteq> ''drop''"
  unfolding warn_clients_def warns_rules by auto

lemma warns_file: "warns (warn_file c) k \<longleftrightarrow> k = ''query_log.file'' \<and> QL_File (c_QueryLog c) \<noteq> []"
  unfolding warn_file_def warns_rules by auto

lemma warns_retention:
  "0 \<le> QL_RetentionDays (c_QueryLog c) \<Longrightarrow>
   warns (warn_retention c) k \<longleftrightarrow>
     k = ''query_log.retention_days'' \<and> QL_Database (c_QueryLog c) \<noteq> [] \<and> QL_RetentionDays (c_QueryLog c) \<notin> {1..7}"
  unfolding warn_retention_def warns_rules maxPrivateRetentionDays_def defaultRetentionDays_def by auto

lemma warns_admin:
  "warns (warn_admin L c) k \<longleftrightarrow> (k = ''admin.listen'' \<and> \<not> isLoopbackListen L (Adm_Listen (c_Admin c)))
     \<or> (k = ''admin.pprof'' \<and> Adm_Pprof (c_Admin c))"
  unfolding warn_admin_def warns_rules by auto

lemma warns_dns:
  "warns (warn_dns c) k \<longleftrightarrow> (k = ''dns.local_ptr'' \<and> \<not> DNS_LocalPTR (c_DNS c))
     \<or> (k = ''dns.upstreams'' \<and> (\<forall>u \<in> set (DNS_Upstreams (c_DNS c)). \<not> HasPrefix u ''https://''))"
  unfolding warn_dns_def warns_rules list_ex_iff by auto

lemma warns_blocking:
  "warns (warn_blocking L c) k \<longleftrightarrow> (k = ''blocking.cname_inspection'' \<and> \<not> Blk_CNAMEInspection (c_Blocking c))
     \<or> (k = ''blocking.lists'' \<and> (\<exists>u \<in> set (Blk_Lists (c_Blocking c)). HasPrefix (ToLower (cf_U L) u) ''http://''))"
  unfolding warn_blocking_def warns_rules filter_empty_conv by auto

lemma warns_all:
  assumes "settings_ok c"
  shows "warns (Warnings L c) k \<longleftrightarrow> less_private L c k"
proof -
  have ok: "QL_Mode (c_QueryLog c) \<in> {''none'', ''blocked'', ''all''}" "QL_Clients (c_QueryLog c) \<in> {''drop'', ''subnet'', ''full''}"
    "0 \<le> QL_RetentionDays (c_QueryLog c)"
    using assms by (simp_all add: settings_ok_def)
  show ?thesis
    unfolding Warnings_def less_private_def Let_def
    using warns_mode [OF ok(1), of k] warns_clients [OF ok(2), of k] warns_retention [OF ok(3), of k]
    by (cases "QL_Mode (c_QueryLog c) = ''none''")
       (simp_all only: warns_rules warns_file warns_admin warns_dns warns_blocking if_True if_False not_True_eq_False
         not_False_eq_True simp_thms disj_assoc)
qed

section \<open>Properties\<close>

text \<open>C34: the warnings are exact. For a configuration whose settings hold documented values, a warning names a
  key exactly if that setting has an effect and is less private or less secure than its default; in
  particular the default configuration gives none where 127.0.0.1 is read as a loopback address.\<close>

theorem warnings_exact:
  assumes "settings_ok c"
  shows "(\<forall>k. k \<in> wn_Key ` set (Warnings L c) \<longleftrightarrow> less_private L c k)
     \<and> (ParseAddr (cf_T L) ''127.0.0.1'' = Some (Addr4 0x7F000001) \<longrightarrow> Warnings L defaults = [])"
proof
  show "\<forall>k. k \<in> wn_Key ` set (Warnings L c) \<longleftrightarrow> less_private L c k"
    using warns_all [OF assms] by (simp add: warns_def)
  show "ParseAddr (cf_T L) ''127.0.0.1'' = Some (Addr4 0x7F000001) \<longrightarrow> Warnings L defaults = []"
  proof
    assume p: "ParseAddr (cf_T L) ''127.0.0.1'' = Some (Addr4 0x7F000001)"
    have "SplitHostPort defaultAdminListen = Some (''127.0.0.1'', ''8080'')"
      by (simp add: defaultAdminListen_def SplitHostPort_def LastIndexByte_def)
    then have "isLoopbackListen L defaultAdminListen"
      using p by (simp add: isLoopbackListen_def ParseIP_def IsLoopback_def EqualFold_def)
    then show "Warnings L defaults = []"
      by (simp add: Warnings_def defaults_def warn_mode_def warn_admin_def warn_dns_def warn_blocking_def
          DefaultUpstreams_def HasPrefix_def)
  qed
qed

text \<open>A configuration that records every query with the full address, on a library that reads 127.0.0.1.\<close>

definition demo_warn_lib :: conflib where
  "demo_warn_lib = demo_conf\<lparr>cf_T := demo_iptext\<lparr>ParseAddr := (\<lambda>s. if s = ''127.0.0.1'' then Some (Addr4 0x7F000001) else None)\<rparr>\<rparr>"

definition demo_recording :: Config where
  "demo_recording = defaults\<lparr>c_QueryLog := (c_QueryLog defaults)\<lparr>QL_Mode := ''all'', QL_Clients := ''full''\<rparr>\<rparr>"

lemma demo_recording_ok: "settings_ok demo_recording"
  by (simp add: settings_ok_def demo_recording_def defaults_def defaultRefreshInterval_def defaultFlushInterval_def
      defaultStatsInterval_def defaultCacheEntries_def defaultRetentionDays_def)

theorem warnings_exact_witness:
  "''query_log.clients'' \<in> wn_Key ` set (Warnings demo_warn_lib demo_recording)
     \<and> ''query_log.file'' \<notin> wn_Key ` set (Warnings demo_warn_lib demo_recording)
     \<and> Warnings demo_warn_lib defaults = []"
  using warnings_exact [OF demo_recording_ok, of demo_warn_lib]
  by (simp add: less_private_def demo_recording_def demo_warn_lib_def demo_iptext_def)

end
