(* ===== verification/Api_Guard.thy ===== *)
theory Api_Guard
  imports Go_Prelude Net_Addr Redact_Url Lan_Acl "HOL-Library.AList"
begin

text \<open>
  What stands before the routes of the admin server: the security headers, the Host check, the Fetch
  Metadata check and the cross-origin check of \<open>src/internal/api/security.go\<close>, the check that a request
  comes from this machine (\<open>src/internal/api/purge.go\<close>), and the client labels of
  \<open>src/internal/api/clientnames.go\<close>.

  A request is the record of what the handlers read of it: \<open>rq_Header\<close> is \<open>Header.Get\<close>, empty for an
  absent header, \<open>rq_Query\<close> is \<open>URL.Query().Get\<close>. The header map of a reply is an association list with one
  value for each name. \<open>http.CrossOriginProtection\<close> of the standard library is \<open>cop_Check\<close>, without bypass
  patterns and trusted origins, as \<open>secure\<close> creates it. \<open>mime.ParseMediaType\<close>, \<open>net.ParseCIDR\<close>, the JSON
  decoder, the mux's path cleaning, the static file server and the profiling handlers are the parameter record \<open>httplib\<close>.
\<close>

section \<open>Model\<close>

record request =
  rq_Method :: string
  rq_Host :: string
  rq_Path :: string
  rq_RemoteAddr :: string
  rq_Header :: "string \<Rightarrow> string"
  rq_Query :: "string \<Rightarrow> string"
  rq_Body :: string

type_synonym headers = "(string \<times> string) list"

record httplib =
  hl_U :: unicode
  hl_K :: urllib
  hl_T :: iptext
  hl_MediaType :: "string \<Rightarrow> string option"
  hl_ParseCIDR :: "string \<Rightarrow> (nat \<times> (addr \<Rightarrow> bool)) option"   \<comment> \<open>the prefix length and \<open>IPNet.Contains\<close>\<close>
  hl_domain :: "string \<Rightarrow> string option"       \<comment> \<open>the body as \<open>{"domain": ...}\<close>\<close>
  hl_confirm :: "string \<Rightarrow> bool option"        \<comment> \<open>the body as \<open>{"confirm": ...}\<close>\<close>
  hl_ParseDuration :: "string \<Rightarrow> int option"
  hl_Quote :: "string \<Rightarrow> string"
  hl_stamp :: "time \<Rightarrow> string"              \<comment> \<open>\<open>Format("20060102T150405Z")\<close>\<close>
  hl_cleanPath :: "string \<Rightarrow> string"
  hl_redirectCode :: int                       \<comment> \<open>the status of a redirect to the clean path\<close>
  hl_FileServer :: "request \<Rightarrow> headers \<Rightarrow> int \<times> headers \<times> string"
  hl_pprof :: "request \<Rightarrow> headers \<Rightarrow> int \<times> headers \<times> string"

definition set_header :: "string \<Rightarrow> string \<Rightarrow> headers \<Rightarrow> headers" where
  "set_header k v hs = AList.update k v hs"

definition securityHeaders :: headers where
  "securityHeaders = [
     (''Cache-Control'', ''no-store''),
     (''X-Content-Type-Options'', ''nosniff''),
     (''Referrer-Policy'', ''no-referrer''),
     (''X-Frame-Options'', ''DENY''),
     (''Cross-Origin-Resource-Policy'', ''same-origin''),
     (''Content-Security-Policy'', ''default-src 'self'; script-src 'self'; style-src 'self' 'unsafe-inline'; img-src 'self' data:; connect-src 'self'; object-src 'none'; base-uri 'none'; form-action 'self'; frame-ancestors 'none'' @ [CHR 0x27])]"

subsection \<open>The checks\<close>

definition fetchAllowed :: "request \<Rightarrow> bool" where
  "fetchAllowed r =
     (if rq_Header r ''Sec-Fetch-Site'' \<in> {[], ''same-origin'', ''none''} then True
      else rq_Method r = ''GET'' \<and> rq_Path r = ''/'' \<and> rq_Header r ''Sec-Fetch-Mode'' = ''navigate''
        \<and> rq_Header r ''Sec-Fetch-Dest'' = ''document'')"

text \<open>\<open>os.Hostname\<close> is an argument, \<open>None\<close> for an error.\<close>

definition localHostnames :: "unicode \<Rightarrow> string option \<Rightarrow> string list" where
  "localHostnames U hostname = (case hostname of
     None \<Rightarrow> []
   | Some n \<Rightarrow>
       if n = [] then []
       else let name = ToLower U (TrimSuffix n ''.'');
                short = fst (Cut name (CHR ''.''))
            in [name] @ (if short \<noteq> name then [short] else []) @ [short @ ''.local''])"

text \<open>\<open>strings.Trim\<close> with a set of ASCII bytes.\<close>

definition TrimChars :: "string \<Rightarrow> string \<Rightarrow> string" where
  "TrimChars s cs = rev (dropWhile (\<lambda>c. c \<in> set cs) (rev (dropWhile (\<lambda>c. c \<in> set cs) s)))"

definition host_part :: "string \<Rightarrow> string" where
  "host_part hostHeader =
     TrimSuffix (TrimChars (case SplitHostPort hostHeader of None \<Rightarrow> hostHeader | Some (h, _) \<Rightarrow> h) ''[]'') ''.''"

definition hostAllowed :: "httplib \<Rightarrow> string list \<Rightarrow> string \<Rightarrow> bool" where
  "hostAllowed H hostnames hostHeader =
     (let host = host_part hostHeader in
      if host = [] then True
      else if ParseAddr (hl_T H) host \<noteq> None then True
      else let host = ToLower (hl_U H) host in
        if host = ''localhost'' then True else host \<in> set hostnames)"

definition hostHint :: "string list \<Rightarrow> request \<Rightarrow> string" where
  "hostHint hostnames r =
     (let port = (case SplitHostPort (rq_Host r) of None \<Rightarrow> [] | Some (_, p) \<Rightarrow> '':'' @ p)
      in ''s-hole answers only requests addressed to its IP address or to localhost''
         @ (if hostnames \<noteq> [] then '', or to this machine's name. Open the dashboard as http://''
              @ List.last hostnames @ port @ '' or by IP address''
            else ''. Open the dashboard by IP address''))"

definition isJSON :: "httplib \<Rightarrow> request \<Rightarrow> bool" where
  "isJSON H r = (hl_MediaType H (rq_Header r ''Content-Type'') = Some ''application/json'')"

definition cop_Check :: "urllib \<Rightarrow> request \<Rightarrow> bool" where
  "cop_Check K r =
     (if rq_Method r \<in> {''GET'', ''HEAD'', ''OPTIONS''} then True
      else let site = rq_Header r ''Sec-Fetch-Site''; origin = rq_Header r ''Origin'' in
        if site \<in> {''same-origin'', ''none''} then True
        else if site \<noteq> [] then False
        else if origin = [] then True
        else (case url_Parse K origin of None \<Rightarrow> False | Some o' \<Rightarrow> ur_Host o' = rq_Host r))"

subsection \<open>Replies\<close>

text \<open>A reply: the status, the headers and the body, of type \<open>'b\<close>.\<close>

record 'b reply =
  rp_Status :: int
  rp_Headers :: headers
  rp_Body :: 'b

definition http_Error :: "headers \<Rightarrow> 'b \<Rightarrow> int \<Rightarrow> 'b reply" where
  "http_Error hs b code =
     \<lparr>rp_Status = code,
      rp_Headers = set_header ''X-Content-Type-Options'' ''nosniff''
        (set_header ''Content-Type'' ''text/plain; charset=utf-8'' (AList.delete ''Content-Length'' hs)),
      rp_Body = b\<rparr>"

text \<open>\<open>secure\<close>: \<open>text\<close> makes a body of an error text, \<open>next\<close> is the mux with the headers set so far.\<close>

definition secure :: "httplib \<Rightarrow> string list \<Rightarrow> (string \<Rightarrow> 'b) \<Rightarrow> (request \<Rightarrow> headers \<Rightarrow> 's \<Rightarrow> 'b reply \<times> 's)
    \<Rightarrow> request \<Rightarrow> 's \<Rightarrow> 'b reply \<times> 's" where
  "secure H hostnames txt mux r s =
     (let hs = fold (\<lambda>(k, v). set_header k v) securityHeaders [] in
      if \<not> hostAllowed H hostnames (rq_Host r) then (http_Error hs (txt (hostHint hostnames r)) 421, s)
      else if \<not> fetchAllowed r then
        (http_Error hs (txt ''s-hole refused a request from another site. Open the dashboard directly: type its address or use a bookmark'') 403, s)
      else if \<not> cop_Check (hl_K H) r then
        (http_Error hs (txt ''s-hole refused a cross-site request: the dashboard accepts changes only from its own page'') 403, s)
      else mux r hs s)"

text \<open>\<open>keepNoStore\<close> around the static file server.\<close>

definition keepNoStore :: "httplib \<Rightarrow> (string \<Rightarrow> 'b) \<Rightarrow> request \<Rightarrow> headers \<Rightarrow> 'b reply" where
  "keepNoStore H txt r hs = (case hl_FileServer H r hs of (code, hs', b) \<Rightarrow>
     \<lparr>rp_Status = code, rp_Headers = set_header ''Cache-Control'' ''no-store'' hs', rp_Body = txt b\<rparr>)"

subsection \<open>Requests from this machine\<close>

text \<open>\<open>addrs\<close> is the outcome of \<open>net.InterfaceAddrs\<close>.\<close>

definition fromThisMachine :: "httplib \<Rightarrow> string + net_addr list \<Rightarrow> string \<Rightarrow> bool" where
  "fromThisMachine H addrs remoteAddr =
     (let host = (case SplitHostPort remoteAddr of None \<Rightarrow> remoteAddr | Some (h, _) \<Rightarrow> h) in
      case ParseAddr (hl_T H) host of
        None \<Rightarrow> False
      | Some a \<Rightarrow>
          let ip = WithoutZone (Unmap a) in
          if IsLoopback ip then True
          else (case addrs of
            Inl _ \<Rightarrow> False
          | Inr as \<Rightarrow> list_ex (\<lambda>n. case n of
                IPNet bytes ones \<Rightarrow> (case AddrFromSlice bytes of None \<Rightarrow> False | Some own \<Rightarrow> Unmap own = ip)
              | OtherNetAddr \<Rightarrow> False) as))"

subsection \<open>Client labels\<close>

record cidrLabel =
  cl_ones :: nat
  cl_contains :: "addr \<Rightarrow> bool"
  cl_label :: string

record clientLabeler =
  lb_exact :: "(string \<times> string) list"
  lb_cidrs :: "cidrLabel list"

text \<open>\<open>m\<close> lists the map in the order the loop visits it; \<open>sort_key\<close> is stable like \<open>sort.SliceStable\<close>.\<close>

fun label_entries :: "httplib \<Rightarrow> (string \<times> string) list \<Rightarrow> (string \<times> string) list \<times> cidrLabel list" where
  "label_entries H [] = ([], [])"
| "label_entries H ((key, label) # rest) = (case label_entries H rest of (ex, cs) \<Rightarrow>
     if ParseIP (hl_T H) key \<noteq> None then ((key, label) # ex, cs)
     else case hl_ParseCIDR H key of
       None \<Rightarrow> (ex, cs)
     | Some (ones, inside) \<Rightarrow> (ex, \<lparr>cl_ones = ones, cl_contains = inside, cl_label = label\<rparr> # cs))"

definition newClientLabeler :: "httplib \<Rightarrow> (string \<times> string) list \<Rightarrow> clientLabeler" where
  "newClientLabeler H m = (case label_entries H m of (ex, cs) \<Rightarrow>
     \<lparr>lb_exact = ex, lb_cidrs = sort_key (\<lambda>c. - int (cl_ones c)) cs\<rparr>)"

definition label_of :: "httplib \<Rightarrow> clientLabeler option \<Rightarrow> string \<Rightarrow> string" where
  "label_of H l stored = (case l of
     None \<Rightarrow> []
   | Some lb \<Rightarrow>
       if stored = [] then []
       else case map_of (lb_exact lb) stored of
         Some lbl \<Rightarrow> lbl
       | None \<Rightarrow>
           (case ParseIP (hl_T H) stored of
              None \<Rightarrow> []
            | Some ip \<Rightarrow>
                (case find (\<lambda>c. cl_contains c ip) (lb_cidrs lb) of None \<Rightarrow> [] | Some c \<Rightarrow> cl_label c)))"

section \<open>Lemmas\<close>

definition has_security :: "headers \<Rightarrow> bool" where
  "has_security hs = (\<forall>(k, v) \<in> set securityHeaders. map_of hs k = Some v)"

lemma has_security_iff:
  "has_security hs \<longleftrightarrow> map_of hs ''Cache-Control'' = Some ''no-store''
     \<and> (\<forall>(k, v) \<in> set (tl securityHeaders). map_of hs k = Some v)"
  by (simp add: has_security_def securityHeaders_def)

lemma security_keys: "fst ` set securityHeaders = {''Cache-Control'', ''X-Content-Type-Options'', ''Referrer-Policy'',
   ''X-Frame-Options'', ''Cross-Origin-Resource-Policy'', ''Content-Security-Policy''}"
  by (simp add: securityHeaders_def)

lemma map_of_set_header: "map_of (set_header k v hs) j = (if j = k then Some v else map_of hs j)"
  by (simp add: set_header_def update_conv')

lemma has_security_set:
  assumes "has_security hs" "k \<in> fst ` set securityHeaders \<Longrightarrow> (k, v) \<in> set securityHeaders"
  shows "has_security (set_header k v hs)"
proof -
  have "distinct (map fst securityHeaders)" by (simp add: securityHeaders_def)
  then have "v' = v" if "(k, v') \<in> set securityHeaders" for v'
    using that assms(2) by (metis eq_key_imp_eq_value fst_conv image_eqI)
  then show ?thesis using assms(1) by (auto simp: has_security_def map_of_set_header)
qed

lemma has_security_start: "has_security (fold (\<lambda>(k, v). set_header k v) securityHeaders [])"
  by (simp add: has_security_def securityHeaders_def map_of_set_header)

lemma has_security_delete: "has_security hs \<Longrightarrow> k \<notin> fst ` set securityHeaders \<Longrightarrow> has_security (AList.delete k hs)"
  by (force simp: has_security_def delete_conv')

lemma http_Error_secure: "has_security hs \<Longrightarrow> has_security (rp_Headers (http_Error hs b code))"
  unfolding http_Error_def
  by (simp, intro has_security_set has_security_delete) (simp_all add: securityHeaders_def)

text \<open>\<open>http.FileServer\<close> removes no header of the reply but \<open>Cache-Control\<close> and changes none of these; the
  profiling handlers set no header of this list but \<open>X-Content-Type-Options\<close>, to the same value.\<close>

definition fileserver_ok :: "httplib \<Rightarrow> bool" where
  "fileserver_ok H = (\<forall>r hs. has_security hs \<longrightarrow>
     (\<forall>(k, v) \<in> set (tl securityHeaders). map_of (fst (snd (hl_FileServer H r hs))) k = Some v)
     \<and> has_security (fst (snd (hl_pprof H r hs))))"

lemma keepNoStore_secure:
  assumes "fileserver_ok H" "has_security hs"
  shows "has_security (rp_Headers (keepNoStore H txt r hs))"
proof -
  obtain code hs' b where fs: "hl_FileServer H r hs = (code, hs', b)" using prod.exhaust by metis
  then have "\<forall>(k, v) \<in> set (tl securityHeaders). map_of hs' k = Some v"
    using assms unfolding fileserver_ok_def by (metis fst_conv snd_conv)
  then show ?thesis
    by (simp add: keepNoStore_def fs has_security_iff map_of_set_header securityHeaders_def)
qed

lemma label_entries_exact:
  "fst (label_entries H m) = filter (\<lambda>kl. ParseIP (hl_T H) (fst kl) \<noteq> None) m"
  by (induction H m rule: label_entries.induct) (auto split: prod.split option.split)

lemma label_entries_cidr:
  "c \<in> set (snd (label_entries H m)) \<longleftrightarrow> (\<exists>k. (k, cl_label c) \<in> set m \<and> ParseIP (hl_T H) k = None
     \<and> hl_ParseCIDR H k = Some (cl_ones c, cl_contains c))"
proof (induction m)
  case (Cons kl m)
  obtain k l where kl: "kl = (k, l)" by fastforce
  show ?case using Cons.IH by (auto simp: kl split: prod.splits option.splits)
qed simp

lemma find_sorted_max:
  assumes "find P (sort_key (\<lambda>c. - int (f c)) xs) = Some c"
  shows "c \<in> set xs \<and> P c \<and> (\<forall>d \<in> set xs. P d \<longrightarrow> f d \<le> f c)"
proof -
  let ?ys = "sort_key (\<lambda>c. - int (f c)) xs"
  obtain i where i: "i < length ?ys" "P (?ys ! i)" "c = ?ys ! i" "\<forall>j < i. \<not> P (?ys ! j)"
    using assms by (auto simp: find_Some_iff)
  have "f d \<le> f c" if d: "d \<in> set xs" "P d" for d
  proof -
    have "d \<in> set ?ys" using d by simp
    then obtain j where j: "j < length ?ys" "d = ?ys ! j" by (metis in_set_conv_nth)
    then have "i \<le> j" using i(4) d(2) by (meson not_le)
    then have "map (\<lambda>c. - int (f c)) ?ys ! i \<le> map (\<lambda>c. - int (f c)) ?ys ! j"
      using j by (intro sorted_nth_mono sorted_sort_key) simp_all
    then show ?thesis using i(1,3) j by simp
  qed
  moreover have "c \<in> set ?ys" unfolding i(3) by (rule nth_mem [OF i(1)])
  ultimately show ?thesis using i(2,3) by simp
qed

lemma label_of_new:
  assumes "stored \<noteq> []" "distinct (map fst m)"
  shows "label_of H (Some (newClientLabeler H m)) stored =
    (case ParseIP (hl_T H) stored of
       None \<Rightarrow> []
     | Some ip \<Rightarrow> (case map_of m stored of
         Some l \<Rightarrow> l
       | None \<Rightarrow> (case find (\<lambda>c. cl_contains c ip) (sort_key (\<lambda>c. - int (cl_ones c)) (snd (label_entries H m))) of
           None \<Rightarrow> [] | Some c \<Rightarrow> cl_label c)))"
proof -
  obtain ex cs where e: "label_entries H m = (ex, cs)" by fastforce
  have ex: "ex = filter (\<lambda>kl. ParseIP (hl_T H) (fst kl) \<noteq> None) m" using label_entries_exact [of H m] e by simp
  have "map_of ex stored = (if ParseIP (hl_T H) stored = None then None else map_of m stored)"
    unfolding ex by (induction m) auto
  then show ?thesis using assms(1) by (simp add: label_of_def newClientLabeler_def e split: option.split)
qed

text \<open>The prefix lengths and labels of the entries whose subnet contains an address.\<close>

definition covering :: "httplib \<Rightarrow> (string \<times> string) list \<Rightarrow> addr \<Rightarrow> (nat \<times> string) set" where
  "covering H m ip = {(ones, lbl). \<exists>k inside. (k, lbl) \<in> set m \<and> ParseIP (hl_T H) k = None
     \<and> hl_ParseCIDR H k = Some (ones, inside) \<and> inside ip}"

lemma covering_image:
  "covering H m ip = (\<lambda>c. (cl_ones c, cl_label c)) ` {c \<in> set (snd (label_entries H m)). cl_contains c ip}"
proof (intro set_eqI iffI)
  fix x assume "x \<in> covering H m ip"
  then obtain ones lbl k inside where x: "x = (ones, lbl)" "(k, lbl) \<in> set m" "ParseIP (hl_T H) k = None"
    "hl_ParseCIDR H k = Some (ones, inside)" "inside ip" by (auto simp: covering_def)
  then have "\<lparr>cl_ones = ones, cl_contains = inside, cl_label = lbl\<rparr> \<in> {c \<in> set (snd (label_entries H m)). cl_contains c ip}"
    by (auto simp: label_entries_cidr)
  then show "x \<in> (\<lambda>c. (cl_ones c, cl_label c)) ` {c \<in> set (snd (label_entries H m)). cl_contains c ip}"
    using x(1) by (force intro: image_eqI)
qed (auto simp: covering_def label_entries_cidr)

lemma label_of_covering:
  assumes "stored \<noteq> []" "distinct (map fst m)" "ParseIP (hl_T H) stored = Some ip" "stored \<notin> fst ` set m"
  shows "if covering H m ip = {} then label_of H (Some (newClientLabeler H m)) stored = []
     else \<exists>ones. (ones, label_of H (Some (newClientLabeler H m)) stored) \<in> covering H m ip
       \<and> (\<forall>(ones', lbl) \<in> covering H m ip. ones' \<le> ones)"
proof -
  let ?f = "find (\<lambda>c. cl_contains c ip) (sort_key (\<lambda>c. - int (cl_ones c)) (snd (label_entries H m)))"
  have lbl: "label_of H (Some (newClientLabeler H m)) stored = (case ?f of None \<Rightarrow> [] | Some c \<Rightarrow> cl_label c)"
    using label_of_new [OF assms(1,2)] assms(3,4) by (simp add: map_of_eq_None_iff [THEN iffD2])
  show ?thesis
  proof (cases ?f)
    case None
    then have "covering H m ip = {}" by (auto simp: covering_image find_None_iff)
    moreover have "label_of H (Some (newClientLabeler H m)) stored = []" using lbl None by simp
    ultimately show ?thesis by simp
  next
    case (Some c)
    then show ?thesis unfolding covering_image using lbl find_sorted_max [OF Some] by force
  qed
qed

section \<open>Properties\<close>

text \<open>the label of a stored client value is the one of its own entry, or else of an entry whose subnet contains
  it, with no longer prefix among the entries that contain it; a value that is empty or no address, and a value
  that no entry covers, has no label. So a label says no more than the stored value.\<close>

theorem client_label_most_specific:
  assumes "distinct (map fst m)"
  shows "label_of H (Some (newClientLabeler H m)) [] = []
    \<and> (\<forall>stored. ParseIP (hl_T H) stored = None \<longrightarrow> label_of H (Some (newClientLabeler H m)) stored = [])
    \<and> (\<forall>stored ip. stored \<noteq> [] \<and> ParseIP (hl_T H) stored = Some ip \<longrightarrow>
       (case map_of m stored of
          Some l \<Rightarrow> label_of H (Some (newClientLabeler H m)) stored = l
        | None \<Rightarrow>
            if covering H m ip = {} then label_of H (Some (newClientLabeler H m)) stored = []
            else \<exists>ones. (ones, label_of H (Some (newClientLabeler H m)) stored) \<in> covering H m ip
              \<and> (\<forall>(ones', lbl) \<in> covering H m ip. ones' \<le> ones)))"
proof (intro conjI allI impI, goal_cases)
  case 1
  show ?case by (simp add: label_of_def)
next
  case (2 stored)
  then show ?case using label_of_new [OF _ assms, of stored H] by (cases "stored = []") (simp_all add: label_of_def)
next
  case (3 stored ip)
  show ?case
  proof (cases "map_of m stored")
    case None
    then have "stored \<notin> fst ` set m" by (simp add: map_of_eq_None_iff)
    then show ?thesis using 3 None label_of_covering [OF _ assms, of stored H ip] by simp
  next
    case (Some l)
    then show ?thesis using 3 label_of_new [OF _ assms, of stored H] by simp
  qed
qed

text \<open>A library for closed examples: the key \<open>"n"\<close> is a subnet of prefix length 24 that contains every address.\<close>

definition demo_http :: httplib where
  "demo_http = \<lparr>hl_U = ascii_only, hl_K = demo_url, hl_T = demo_iptext,
     hl_MediaType = (\<lambda>s. Some s),
     hl_ParseCIDR = (\<lambda>k. if k = ''n'' then Some (24, \<lambda>a. True) else if k = ''w'' then Some (16, \<lambda>a. True) else None),
     hl_domain = (\<lambda>b. Some b), hl_confirm = (\<lambda>b. Some (b = ''yes'')), hl_ParseDuration = (\<lambda>s. None),
     hl_Quote = (\<lambda>s. s), hl_stamp = (\<lambda>t. []), hl_cleanPath = (\<lambda>p. p), hl_redirectCode = 307, hl_FileServer = (\<lambda>r hs. (200, hs, [])),
     hl_pprof = (\<lambda>r hs. (200, hs, []))\<rparr>"

definition demo_names :: "(string \<times> string) list" where
  "demo_names = [(''w'', ''house''), (''n'', ''kitchen'')]"

theorem client_label_most_specific_witness:
  "distinct (map fst demo_names) \<and> label_of demo_http (Some (newClientLabeler demo_http demo_names)) ''4'' = ''kitchen''"
proof -
  have d: "distinct (map fst demo_names)" by (simp add: demo_names_def)
  have p: "ParseIP (hl_T demo_http) ''4'' = Some (Addr4 0)" "ParseIP (hl_T demo_http) ''w'' = None" "ParseIP (hl_T demo_http) ''n'' = None"
    by (simp_all add: demo_http_def ParseIP_def demo_iptext_def of_bits_def)
  have q: "hl_ParseCIDR demo_http ''w'' = Some (16, \<lambda>a. True)" "hl_ParseCIDR demo_http ''n'' = Some (24, \<lambda>a. True)"
    by (simp_all add: demo_http_def)
  have c: "\<exists>x. x \<in> covering demo_http demo_names (Addr4 0) \<and> 24 \<le> fst x"
    by (rule exI [of _ "(24, ''kitchen'')"]) (auto simp: covering_def demo_names_def p(3) q(2) intro: exI [of _ "''n''"])
  have e: "lbl = ''kitchen''" if "(ones, lbl) \<in> covering demo_http demo_names (Addr4 0)" "24 \<le> ones" for ones lbl
    using that by (auto simp: covering_def demo_names_def q)
  have m: "map_of demo_names ''4'' = None" by (simp add: demo_names_def)
  define lbl where "lbl = label_of demo_http (Some (newClientLabeler demo_http demo_names)) ''4''"
  note all = conjunct2 [OF conjunct2 [OF client_label_most_specific [OF d, of demo_http]]]
  have "covering demo_http demo_names (Addr4 0) \<noteq> {}" using c by blast
  then obtain ones where "(ones, lbl) \<in> covering demo_http demo_names (Addr4 0)"
      "\<forall>(ones', l) \<in> covering demo_http demo_names (Addr4 0). ones' \<le> ones"
    using all [rule_format, of "''4''" "Addr4 0"] p(1) unfolding m lbl_def by auto
  then have "lbl = ''kitchen''" using c e by fastforce
  with d show ?thesis by (simp add: lbl_def)
qed

end
