(* ===== verification/Api_Metrics.thy ===== *)
theory Api_Metrics
  imports Block_Store Stats_Counter Redact_Url
begin

text \<open>
  The Prometheus page, the readiness and liveness probes, \<open>src/internal/api/metrics.go\<close>. A metric is a record of its
  name, help text, kind and samples; \<open>render_metric\<close> is the text that the handler writes for it. What the
  handler reads through function fields of the server (the upstream failures, the DoT state, the cache, the
  drop counters, the runtime samples) is the argument \<open>scrape\<close>, with \<open>None\<close> for an unset field.
\<close>

section \<open>Model\<close>

text \<open>\<open>strings.NewReplacer\<close> with one-byte keys replaces byte by byte.\<close>

definition escape_byte :: "char \<Rightarrow> string" where
  "escape_byte c =
     (if c = CHR 0x5C then [CHR 0x5C, CHR 0x5C]
      else if c = CHR 0x22 then [CHR 0x5C, CHR 0x22]
      else if c = CHR 0x0A then [CHR 0x5C, CHR ''n''] else [c])"

definition escapeLabel :: "string \<Rightarrow> string" where
  "escapeLabel v = concat (map escape_byte v)"

record metric =
  mt_Name :: string
  mt_Help :: string
  mt_Kind :: string
  mt_Samples :: "(string \<times> int) list"

definition one_metric :: "string \<Rightarrow> string \<Rightarrow> string \<Rightarrow> (string \<times> int) list \<Rightarrow> metric" where
  "one_metric n h k ss = \<lparr>mt_Name = n, mt_Help = h, mt_Kind = k, mt_Samples = ss\<rparr>"

definition label_text :: "string \<Rightarrow> string \<Rightarrow> string" where
  "label_text l v = ''{'' @ l @ ''='' @ [CHR 0x22] @ escapeLabel v @ [CHR 0x22] @ ''}''"

definition newline :: string where "newline = [CHR 0x0A]"

definition render_metric :: "metric \<Rightarrow> string" where
  "render_metric m =
     ''# HELP '' @ mt_Name m @ '' '' @ mt_Help m @ newline
     @ ''# TYPE '' @ mt_Name m @ '' '' @ mt_Kind m @ newline
     @ concat (map (\<lambda>(l, v). mt_Name m @ l @ '' '' @ Itoa v @ newline) (mt_Samples m))"

record scrape =
  sc_failures :: "(string \<times> nat) list option"
  sc_dot :: "(time \<times> nat) option"                 \<comment> \<open>the expiry and the reload failures\<close>
  sc_cache :: "(nat \<times> nat \<times> nat) option"           \<comment> \<open>misses, size, dropped\<close>
  sc_dbDropped :: "nat option"
  sc_refused :: "nat option"
  sc_forwardLimited :: "nat option"
  sc_fallbacks :: "nat option"
  sc_fileDropped :: "nat option"
  sc_goroutines :: "nat option"
  sc_heapObjects :: "nat option"
  sc_heapUnused :: "nat option"

definition counters_of :: "Summary \<Rightarrow> metric list" where
  "counters_of snap = [
     one_metric ''shole_queries_total'' ''Total DNS queries handled.'' ''counter'' [([], int (su_TotalQueries snap))],
     one_metric ''shole_blocked_total'' ''Total DNS queries that matched a blocklist.'' ''counter'' [([], int (su_BlockedCount snap))],
     one_metric ''shole_cname_blocked_total'' ''Total DNS queries blocked because a CNAME target in the answer matched a blocklist (a subset of shole_blocked_total).'' ''counter'' [([], int (su_CNAMEBlockedCount snap))],
     one_metric ''shole_local_ptr_total'' ''Total PTR queries for private reverse zones and the LAN's own IPv6 prefix answered locally with NXDOMAIN.'' ''counter'' [([], int (su_LocalPTRCount snap))],
     one_metric ''shole_local_names_total'' ''Total queries for local-only names answered here and never forwarded (localhost, .onion, .invalid, .alt, or a LAN name with no LAN upstream).'' ''counter'' [([], int (su_LocalNameCount snap))],
     one_metric ''shole_cache_hits_total'' ''Total DNS responses served from the in-memory cache.'' ''counter'' [([], int (su_CacheHits snap))],
     one_metric ''shole_forward_failures_total'' ''Total DNS queries s-hole could not resolve (every upstream failed or the forward limit was reached, so it synthesized a SERVFAIL).'' ''counter'' [([], int (su_ForwardFailures snap))],
     one_metric ''shole_upstream_errors_total'' ''Total failure rcodes (SERVFAIL/REFUSED) relayed from a live upstream.'' ''counter'' [([], int (su_UpstreamErrors snap))]]"

definition upstream_metrics :: "urllib \<Rightarrow> (string \<times> nat) list option \<Rightarrow> metric list" where
  "upstream_metrics K failures = (case failures of
     None \<Rightarrow> []
   | Some fs \<Rightarrow> if fs = [] then [] else [
       one_metric ''shole_upstream_transport_failures_total'' ''Per-upstream cumulative transport failures (no usable answer: a timeout, a refused connection, a reply that does not match the query, or for a DoH upstream a non-200 status, a redirect, or an unparsable body) seen by the forward cooldown tracker.'' ''counter'' (map (\<lambda>(a, n). (label_text ''upstream'' (redact_URL K a), int n)) fs)])"

definition dot_metrics :: "(time \<times> nat) option \<Rightarrow> metric list" where
  "dot_metrics st = (case st of
     None \<Rightarrow> []
   | Some (notAfter, fails) \<Rightarrow> [
       one_metric ''shole_dot_certificate_expiry_timestamp_seconds'' ''Unix time when the DNS-over-TLS certificate being served expires.'' ''gauge'' [([], notAfter div second)],
       one_metric ''shole_dot_certificate_reload_failures_total'' ''Reloads whose certificate files did not load; the listener kept the previous certificate.'' ''counter'' [([], int fails)]])"

definition cache_metrics :: "(nat \<times> nat \<times> nat) option \<Rightarrow> metric list" where
  "cache_metrics st = (case st of
     None \<Rightarrow> []
   | Some (misses, sz, dropped) \<Rightarrow> [
       one_metric ''shole_cache_misses_total'' ''DNS cache misses (sent upstream, or refused at the forward limit).'' ''counter'' [([], int misses)],
       one_metric ''shole_cache_size'' ''Current number of entries in the DNS response cache.'' ''gauge'' [([], int sz)],
       one_metric ''shole_cache_dropped_total'' ''DNS cache entries dropped because the cache was full of unexpired entries.'' ''counter'' [([], int dropped)]])"

definition store_metrics :: "urllib \<Rightarrow> Store \<Rightarrow> metric list" where
  "store_metrics K s = [
     one_metric ''shole_blocklist_size'' ''Current number of domains in the block set.'' ''gauge'' [([], int (Len s))]]
     @ (if Sources s = [] then [] else [
     one_metric ''shole_blocklist_source_size'' ''Domains contributed by one blocklist source (pre-dedup).'' ''gauge'' (map (\<lambda>src. (label_text ''url'' (redact_URL K (src_URL src)), int (src_Count src))) (Sources s)),
     one_metric ''shole_blocklist_source_stale'' ''Whether a blocklist source is serving stale or no data (1) or fresh data (0).'' ''gauge'' (map (\<lambda>src. (label_text ''url'' (redact_URL K (src_URL src)), if src_Stale src then 1 else 0)) (Sources s))])
     @ [one_metric ''shole_allowlist_size'' ''Current number of domains in the runtime allowlist.'' ''gauge'' [([], int (AllowlistLen s))]]"

definition optional_metric :: "nat option \<Rightarrow> (int \<Rightarrow> metric) \<Rightarrow> metric list" where
  "optional_metric v f = (case v of None \<Rightarrow> [] | Some n \<Rightarrow> [f (int n)])"

definition drop_metrics :: "scrape \<Rightarrow> metric list" where
  "drop_metrics sc =
     optional_metric (sc_dbDropped sc) (\<lambda>n. one_metric ''shole_query_log_dropped_total'' ''Query log entries dropped because the writer queue was full.'' ''counter'' [([], n)])
     @ optional_metric (sc_refused sc) (\<lambda>n. one_metric ''shole_refused_total'' ''Queries refused because they came from outside the LAN.'' ''counter'' [([], n)])
     @ optional_metric (sc_forwardLimited sc) (\<lambda>n. one_metric ''shole_forward_limited_total'' ''Queries answered SERVFAIL at once because the limit of queries waiting for an upstream was reached.'' ''counter'' [([], n)])
     @ optional_metric (sc_fallbacks sc) (\<lambda>n. one_metric ''shole_upstream_plaintext_fallback_total'' ''Queries sent to a plain upstream because every DoH upstream had failed.'' ''counter'' [([], n)])
     @ optional_metric (sc_fileDropped sc) (\<lambda>n. one_metric ''shole_query_log_file_dropped_total'' ''Query log lines dropped because the file or standard-output writer fell behind.'' ''counter'' [([], n)])"

definition writeRuntimeGauges :: "scrape \<Rightarrow> metric list" where
  "writeRuntimeGauges sc =
     optional_metric (sc_goroutines sc) (\<lambda>n. one_metric ''shole_goroutines'' ''Current number of goroutines.'' ''gauge'' [([], n)])
     @ optional_metric (sc_heapObjects sc) (\<lambda>n. one_metric ''shole_memory_alloc_bytes'' ''Bytes of allocated heap objects (live and not-yet-freed).'' ''gauge'' [([], n)])
     @ (case (sc_heapObjects sc, sc_heapUnused sc) of
          (Some a, Some b) \<Rightarrow> [one_metric ''shole_memory_heap_inuse_bytes'' ''Bytes in in-use heap spans (allocated objects plus span fragmentation).'' ''gauge'' [([], int a + int b)]]
        | _ \<Rightarrow> [])"

definition metrics_of :: "urllib \<Rightarrow> Summary \<Rightarrow> Store \<Rightarrow> scrape \<Rightarrow> metric list" where
  "metrics_of K snap s sc =
     counters_of snap @ upstream_metrics K (sc_failures sc) @ dot_metrics (sc_dot sc) @ cache_metrics (sc_cache sc)
     @ store_metrics K s @ drop_metrics sc @ writeRuntimeGauges sc"

definition metrics_page :: "urllib \<Rightarrow> Summary \<Rightarrow> Store \<Rightarrow> scrape \<Rightarrow> string" where
  "metrics_page K snap s sc = concat (map render_metric (metrics_of K snap s sc))"

section \<open>Lemmas\<close>

text \<open>Reading a quoted label value, as a scraper does: the value and the rest after the closing quote.\<close>

fun read_label :: "string \<Rightarrow> (string \<times> string) option" where
  "read_label [] = None"
| "read_label [c] = (if c = CHR 0x22 then Some ([], []) else None)"
| "read_label (c # d # s) =
     (if c = CHR 0x22 then Some ([], d # s)
      else if c = CHR 0x0A then None
      else if c = CHR 0x5C then
        (if d = CHR 0x5C then map_option (\<lambda>(v, r). (CHR 0x5C # v, r)) (read_label s)
         else if d = CHR 0x22 then map_option (\<lambda>(v, r). (CHR 0x22 # v, r)) (read_label s)
         else if d = CHR ''n'' then map_option (\<lambda>(v, r). (CHR 0x0A # v, r)) (read_label s)
         else None)
      else map_option (\<lambda>(v, r). (c # v, r)) (read_label (d # s)))"

lemma read_label_plain:
  "c \<notin> {CHR 0x22, CHR 0x0A, CHR 0x5C} \<Longrightarrow> read_label (c # s) = map_option (\<lambda>(v, r). (c # v, r)) (read_label s)"
  by (cases s) auto

lemma read_escaped: "read_label (escapeLabel v @ CHR 0x22 # rest) = Some (v, rest)"
proof (induction v)
  case Nil
  show ?case by (cases rest) (simp_all add: escapeLabel_def)
next
  case (Cons c v)
  then show ?case
    by (cases "c \<in> {CHR 0x22, CHR 0x0A, CHR 0x5C}") (auto simp: escapeLabel_def escape_byte_def read_label_plain)
qed

lemma escape_no_newline: "CHR 0x0A \<notin> set (escapeLabel v)"
  by (auto simp: escapeLabel_def escape_byte_def split: if_splits)

section \<open>Properties\<close>

text \<open>a label value cannot break the line format: whatever the value, the text of a labelled sample holds no line
  break, and a scraper that reads the quoted value gets back exactly the value and the closing brace, so a value
  never adds a second label or a second sample.\<close>

theorem metric_label_roundtrip:
  "CHR 0x0A \<notin> set (escapeLabel v) \<and> label_text l v = ''{'' @ l @ ''='' @ [CHR 0x22] @ escapeLabel v @ [CHR 0x22] @ ''}''
   \<and> read_label (escapeLabel v @ [CHR 0x22] @ ''}'') = Some (v, ''}'')"
  using read_escaped [of v "''}''"] by (simp add: escape_no_newline label_text_def)

end
