(* ===== verification/Error_Log.thy ===== *)
theory Error_Log
  imports Net_Addr Redact_Url
begin

text \<open>
  The error log of the admin server, \<open>src/internal/api/errorlog.go\<close>: every address in a line of \<open>net/http\<close> is replaced. The pattern
  is a value of a small type of regular expressions (classes, greedy repetition of a class, sequence, choice, option, word boundary) with
  the leftmost-first matching of Go's \<open>regexp\<close>. The repetition is over bytes; a class that the pattern
  repeats and that has bytes above 0x7F has all of them, so a longer code point is taken as a whole.
\<close>

section \<open>Regular expressions\<close>

datatype re = Many "char \<Rightarrow> bool" nat "nat option" | Seq re re | Alt re re | Opt re | Bound

definition is_digit_char :: "char \<Rightarrow> bool" where
  "is_digit_char c \<longleftrightarrow> 48 \<le> byte_of c \<and> byte_of c \<le> 57"

definition is_letter :: "char \<Rightarrow> bool" where
  "is_letter c \<longleftrightarrow> 65 \<le> byte_of c \<and> byte_of c \<le> 90 \<or> 97 \<le> byte_of c \<and> byte_of c \<le> 122"

definition is_hex :: "char \<Rightarrow> bool" where
  "is_hex c \<longleftrightarrow> is_digit_char c \<or> 65 \<le> byte_of c \<and> byte_of c \<le> 70 \<or> 97 \<le> byte_of c \<and> byte_of c \<le> 102"

definition is_word :: "char \<Rightarrow> bool" where
  "is_word c \<longleftrightarrow> is_digit_char c \<or> is_letter c \<or> c = CHR ''_''"

definition is_ws :: "char \<Rightarrow> bool" where
  "is_ws c \<longleftrightarrow> byte_of c \<in> {9, 10, 12, 13, 32}"

fun word_at :: "char option \<Rightarrow> bool" where
  "word_at None = False"
| "word_at (Some c) = is_word c"

definition prev_at :: "char option \<Rightarrow> string \<Rightarrow> nat \<Rightarrow> char option" where
  "prev_at p s n = (if n = 0 then p else Some (s ! (n - 1)))"

definition next_at :: "string \<Rightarrow> char option" where
  "next_at s = (case s of [] \<Rightarrow> None | c # _ \<Rightarrow> Some c)"

text \<open>The lengths of the matches at the start of a text, in the order in which they are tried; \<open>p\<close> is the byte before the text.\<close>

fun lens :: "re \<Rightarrow> char option \<Rightarrow> string \<Rightarrow> nat list" where
  "lens (Many P lo hi) p s =
     (let run = length (takeWhile P s); top = (case hi of None \<Rightarrow> run | Some h \<Rightarrow> min run h) in rev [lo..<Suc top])"
| "lens (Seq a b) p s = concat (map (\<lambda>n. map ((+) n) (lens b (prev_at p s n) (drop n s))) (lens a p s))"
| "lens (Alt a b) p s = lens a p s @ lens b p s"
| "lens (Opt a) p s = lens a p s @ [0]"
| "lens Bound p s = (if word_at p \<noteq> word_at (next_at s) then [0] else [])"

text \<open>\<open>ReplaceAllStringFunc\<close>; the pattern below has no empty match.\<close>

function replace_matches :: "re \<Rightarrow> (string \<Rightarrow> string) \<Rightarrow> char option \<Rightarrow> string \<Rightarrow> string" where
  "replace_matches r f p [] = []"
| "replace_matches r f p (c # cs) = (case lens r p (c # cs) of
     Suc n # _ \<Rightarrow> f (take (Suc n) (c # cs)) @ replace_matches r f (prev_at p (c # cs) (Suc n)) (drop (Suc n) (c # cs))
   | _ \<Rightarrow> c # replace_matches r f (Some c) cs)"
  by pat_completeness auto
termination
  by (relation "measure (\<lambda>(r, f, p, s). length s)") auto

declare replace_matches.simps(2) [simp del]

section \<open>The error log\<close>

abbreviation (input) one :: "(char \<Rightarrow> bool) \<Rightarrow> re" where "one P \<equiv> Many P 1 (Some 1)"
abbreviation (input) lit :: "char \<Rightarrow> re" where "lit c \<equiv> one ((=) c)"

definition hex_colon_dot :: "char \<Rightarrow> bool" where "hex_colon_dot c \<longleftrightarrow> is_hex c \<or> c = CHR '':'' \<or> c = CHR ''.''"
definition hex_dot :: "char \<Rightarrow> bool" where "hex_dot c \<longleftrightarrow> is_hex c \<or> c = CHR ''.''"
definition zone_char :: "char \<Rightarrow> bool" where "zone_char c \<longleftrightarrow> is_word c \<or> c = CHR ''.'' \<or> c = CHR ''-''"
definition bracket_zone :: "char \<Rightarrow> bool" where "bracket_zone c \<longleftrightarrow> c \<noteq> CHR '']'' \<and> \<not> is_ws c"

definition port_re :: re where "port_re = Opt (Seq (lit (CHR '':'')) (Many is_digit_char 1 None))"
definition octet_re :: re where "octet_re = Many is_digit_char 1 (Some 3)"
definition dot_octet_re :: re where "dot_octet_re = Seq (lit (CHR ''.'')) octet_re"

definition bracket_re :: re where
  "bracket_re = Seq (lit (CHR ''['')) (Seq (Many hex_colon_dot 1 None)
     (Seq (Opt (Seq (lit (CHR ''%'')) (Many bracket_zone 1 None))) (Seq (lit (CHR '']'')) port_re)))"

definition ipv4_re :: re where
  "ipv4_re = Seq Bound (Seq octet_re (Seq dot_octet_re (Seq dot_octet_re (Seq dot_octet_re (Seq port_re Bound)))))"

definition ipv6_re :: re where
  "ipv6_re = Seq (Many is_hex 0 None) (Seq (lit (CHR '':'')) (Seq (Many hex_colon_dot 0 None) (Seq (lit (CHR '':''))
     (Seq (Many hex_dot 0 None) (Opt (Seq (lit (CHR ''%'')) (Many zone_char 1 None)))))))"

definition addrPattern :: re where
  "addrPattern = Alt bracket_re (Alt ipv4_re ipv6_re)"

definition isAddr :: "iptext \<Rightarrow> string \<Rightarrow> bool" where
  "isAddr T s \<longleftrightarrow> ParseAddr T s \<noteq> None"

definition CutPrefix :: "string \<Rightarrow> string \<Rightarrow> string \<times> bool" where
  "CutPrefix s pre = (if HasPrefix s pre then (drop (length pre) s, True) else (s, False))"

definition CutSuffix :: "string \<Rightarrow> string \<Rightarrow> string \<times> bool" where
  "CutSuffix s suf = (if HasSuffix s suf then (take (length s - length suf) s, True) else (s, False))"

text \<open>A bare IPv6 match with a colon of the text around it left outside.\<close>

definition bare_try :: "iptext \<Rightarrow> string \<Rightarrow> string \<times> string \<Rightarrow> string option" where
  "bare_try T m pp = (case pp of (pre, post) \<Rightarrow>
     let (a1, ok1) = CutPrefix m pre; (a2, ok2) = (if ok1 then CutSuffix a1 post else (a1, False))
     in if ok2 \<and> isAddr T a2 then Some (pre @ ''client'' @ post) else None)"

fun first_some :: "'a option list \<Rightarrow> 'a option" where
  "first_some [] = None"
| "first_some (None # xs) = first_some xs"
| "first_some (Some x # xs) = Some x"

definition redact_match :: "iptext \<Rightarrow> string \<Rightarrow> string" where
  "redact_match T m =
     (if HasPrefix m ''['' then
        (case IndexByte m (CHR '']'') of
           Some i \<Rightarrow> if isAddr T (drop 1 (take i m)) then ''client'' else m
         | None \<Rightarrow> m)
      else if count_list m (CHR '':'') \<le> 1 then (if isAddr T (fst (Cut m (CHR '':''))) then ''client'' else m)
      else (case first_some (map (bare_try T m) [([], []), ([], '':''), ('':'', []), ('':'', '':'')]) of Some r \<Rightarrow> r | None \<Rightarrow> m))"

definition redactAddrs :: "iptext \<Rightarrow> string \<Rightarrow> string" where
  "redactAddrs T s = replace_matches addrPattern (redact_match T) None s"

text \<open>What \<open>Write\<close> logs: the first line, and the stack trace if there is one.\<close>

definition errorLog_Write :: "iptext \<Rightarrow> string \<Rightarrow> string \<times> string option" where
  "errorLog_Write T p =
     (let text = redactAddrs T (rev (dropWhile (\<lambda>c. c = CHR 0x0A) (rev p)));
          (msg, stack, found) = Cut text (CHR 0x0A)
      in (msg, if stack \<noteq> [] then Some stack else None))"

section \<open>Lemmas\<close>

subsection \<open>A match does not cross a separator\<close>

text \<open>A byte that no class of the expression has, and that is no word byte.\<close>

fun rejects :: "re \<Rightarrow> char \<Rightarrow> bool" where
  "rejects (Many P lo hi) c \<longleftrightarrow> \<not> P c"
| "rejects (Seq a b) c \<longleftrightarrow> rejects a c \<and> rejects b c"
| "rejects (Alt a b) c \<longleftrightarrow> rejects a c \<and> rejects b c"
| "rejects (Opt a) c \<longleftrightarrow> rejects a c"
| "rejects Bound c \<longleftrightarrow> \<not> is_word c"

lemma takeWhile_sep: "\<not> P c \<Longrightarrow> takeWhile P (u @ c # v) = takeWhile P u"
  by (induction u) auto

lemma lens_le: "n \<in> set (lens r p s) \<Longrightarrow> n \<le> length s"
proof (induction r arbitrary: n p s)
  case (Many P lo hi)
  then show ?case using length_takeWhile_le [of P s] by (auto simp: Let_def split: option.splits)
next
  case (Seq a b)
  then obtain k m where "k \<in> set (lens a p s)" "m \<in> set (lens b (prev_at p s k) (drop k s))" "n = k + m" by auto
  then show ?case using Seq.IH(1) [of k p s] Seq.IH(2) [of m "prev_at p s k" "drop k s"] by simp
qed (auto split: if_splits)

lemma lens_sep: "rejects r c \<Longrightarrow> lens r p (u @ c # v) = lens r p u"
proof (induction r arbitrary: p u)
  case (Many P lo hi)
  then show ?case by (simp add: takeWhile_sep)
next
  case (Seq a b)
  have "map ((+) n) (lens b (prev_at p (u @ c # v) n) (drop n (u @ c # v))) = map ((+) n) (lens b (prev_at p u n) (drop n u))"
    if "n \<in> set (lens a p u)" for n
  proof -
    have "n \<le> length u" by (rule lens_le [OF that])
    then have "prev_at p (u @ c # v) n = prev_at p u n" "drop n (u @ c # v) = drop n u @ c # v" by (auto simp: prev_at_def nth_append)
    then show ?thesis using Seq by simp
  qed
  then show ?case using Seq by (simp cong: map_cong)
next
  case Bound
  then show ?case by (cases u) (auto simp: next_at_def)
qed auto

lemma lens_prev: "word_at p = word_at p' \<Longrightarrow> lens r p s = lens r p' s"
proof (induction r arbitrary: p p' s)
  case (Seq a b)
  have "lens b (prev_at p s n) (drop n s) = lens b (prev_at p' s n) (drop n s)" for n
    using Seq.IH(2) [of "prev_at p s n" "prev_at p' s n" "drop n s"] Seq.prems by (auto simp: prev_at_def)
  then show ?case using Seq.IH(1) [OF Seq.prems, of s] by simp
next
  case (Alt a b)
  show ?case using Alt.IH(1) [OF Alt.prems, of s] Alt.IH(2) [OF Alt.prems, of s] by simp
next
  case (Opt a)
  show ?case using Opt.IH [OF Opt.prems, of s] by simp
qed simp_all

lemma replace_prev:
  assumes "word_at p = word_at p'"
  shows "replace_matches r f p s = replace_matches r f p' s"
proof (cases s)
  case (Cons c cs)
  show ?thesis unfolding Cons replace_matches.simps(2) lens_prev [OF assms] by (simp add: prev_at_def split: list.splits nat.splits)
qed simp

text \<open>Hence a text is rewritten piece by piece.\<close>

lemma replace_sep:
  assumes "rejects r c" "\<not> is_word c" "\<And>p. lens r p [] = []"
  shows "replace_matches r f p (u @ c # v) = replace_matches r f p u @ c # replace_matches r f None v"
proof (induction u arbitrary: p rule: length_induct)
  case (1 u)
  show ?case
  proof (cases u)
    case Nil
    have "lens r p (c # v) = []" using lens_sep [OF assms(1), of p "[]" v] assms(3) by simp
    moreover have "replace_matches r f (Some c) v = replace_matches r f None v" by (rule replace_prev) (simp add: assms(2))
    ultimately show ?thesis using Nil by (simp add: replace_matches.simps(2))
  next
    case (Cons a as)
    have l: "lens r p (a # as @ c # v) = lens r p (a # as)" using lens_sep [OF assms(1), of p "a # as" v] by simp
    show ?thesis
    proof (cases "\<exists>n t. lens r p (a # as) = Suc n # t")
      case True
      then obtain n t where n: "lens r p (a # as) = Suc n # t" by blast
      then have "n \<le> length as" using lens_le [of "Suc n" r p "a # as"] by simp
      then have s: "take (Suc n) (a # as @ c # v) = take (Suc n) (a # as)" "drop (Suc n) (a # as @ c # v) = drop n as @ c # v"
        "prev_at p (a # as @ c # v) (Suc n) = prev_at p (a # as) (Suc n)" by (auto simp: prev_at_def nth_append nth_Cons')
      have "length (drop n as) < length u" using Cons by simp
      then have "replace_matches r f (prev_at p (a # as) (Suc n)) (drop n as @ c # v)
          = replace_matches r f (prev_at p (a # as) (Suc n)) (drop n as) @ c # replace_matches r f None v" using 1 by blast
      then show ?thesis unfolding Cons append_Cons replace_matches.simps(2) l n by (simp only: s list.case nat.case) simp
    next
      case False
      have "replace_matches r f (Some a) (as @ c # v) = replace_matches r f (Some a) as @ c # replace_matches r f None v"
        using 1 Cons by simp
      then show ?thesis unfolding Cons append_Cons replace_matches.simps(2) l using False by (auto split: list.splits nat.splits)
    qed
  qed
qed

subsection \<open>What is read first\<close>

text \<open>The expression first reads \<open>x\<close> of the text \<open>x @ s\<close>.\<close>

definition reads :: "re \<Rightarrow> char option \<Rightarrow> string \<Rightarrow> string \<Rightarrow> bool" where
  "reads r p x s \<longleftrightarrow> (\<exists>t. lens r p (x @ s) = length x # t)"

definition before :: "char option \<Rightarrow> string \<Rightarrow> char option" where
  "before p x = (if x = [] then p else Some (last x))"

lemma before_simps [simp]: "before p [] = p" "x \<noteq> [] \<Longrightarrow> before p x = Some (last x)" "before (before p x) y = before p (x @ y)"
  by (auto simp: before_def)

lemma reads_Seq:
  assumes "reads a p x (y @ s)" "reads b (before p x) y s"
  shows "reads (Seq a b) p (x @ y) s"
proof -
  obtain t where t: "lens a p (x @ y @ s) = length x # t" using assms(1) by (auto simp: reads_def)
  obtain t' where t': "lens b (before p x) (y @ s) = length y # t'" using assms(2) by (auto simp: reads_def)
  have "prev_at p (x @ y @ s) (length x) = before p x" by (auto simp: prev_at_def before_def nth_append last_conv_nth)
  then show ?thesis using t t' by (simp add: reads_def)
qed

lemma reads_Many:
  assumes "list_all P x" "s = [] \<or> \<not> P (hd s)" "lo \<le> length x" "\<And>h. hi = Some h \<Longrightarrow> length x \<le> h"
  shows "reads (Many P lo hi) p x s"
proof -
  have "takeWhile P (x @ s) = x" using assms(1,2) by (cases s) (auto simp: list_all_iff takeWhile_append)
  moreover have "(case hi of None \<Rightarrow> length x | Some h \<Rightarrow> min (length x) h) = length x"
    using assms(4) by (cases hi) (simp_all add: min_absorb1)
  moreover have "rev [lo..<Suc (length x)] = length x # rev [lo..<length x]" using assms(3) by simp
  ultimately show ?thesis unfolding reads_def lens.simps Let_def by metis
qed

lemma reads_lit: "reads (lit c) p [c] s"
proof -
  have "min (length (takeWhile ((=) c) (c # s))) 1 = 1" by simp
  then show ?thesis by (simp add: reads_def)
qed

lemma reads_Opt: "reads a p x s \<Longrightarrow> reads (Opt a) p x s" "lens a p s = [] \<Longrightarrow> reads (Opt a) p [] s"
  by (auto simp: reads_def)

lemma reads_Alt: "reads a p x s \<Longrightarrow> reads (Alt a b) p x s" "lens a p (x @ s) = [] \<Longrightarrow> reads b p x s \<Longrightarrow> reads (Alt a b) p x s"
  by (auto simp: reads_def)

lemma reads_Bound: "word_at p \<noteq> word_at (next_at s) \<Longrightarrow> reads Bound p [] s"
  by (simp add: reads_def)

lemma lens_lit_no: "s = [] \<or> hd s \<noteq> c \<Longrightarrow> lens (Seq (lit c) b) p s = []"
  by (cases s) auto

lemma replace_reads:
  assumes "reads r p x s" "x \<noteq> []"
  shows "replace_matches r f p (x @ s) = f x @ replace_matches r f (before p x) s"
proof -
  obtain c cs where x: "x = c # cs" using assms(2) by (cases x) auto
  obtain t where t: "lens r p (c # (cs @ s)) = Suc (length cs) # t" using assms(1) x by (auto simp: reads_def)
  have "prev_at p (c # (cs @ s)) (Suc (length cs)) = before p x"
    unfolding x by (auto simp: prev_at_def before_def nth_append last_conv_nth nth_Cons' split: if_splits)
  then show ?thesis unfolding x append_Cons replace_matches.simps(2) t by simp
qed

subsection \<open>Addresses\<close>

definition octet :: "string \<Rightarrow> bool" where
  "octet x \<longleftrightarrow> 1 \<le> length x \<and> length x \<le> 3 \<and> list_all is_digit_char x"

definition digits :: "string \<Rightarrow> bool" where
  "digits x \<longleftrightarrow> x \<noteq> [] \<and> list_all is_digit_char x"

lemma class_facts [simp]:
  "\<not> is_digit_char (CHR ''.'')" "\<not> is_digit_char (CHR '':'')" "\<not> is_digit_char (CHR ''['')" "\<not> is_digit_char (CHR '']'')" "\<not> is_word (CHR '':'')"
  "\<not> hex_colon_dot (CHR ''%'')" "\<not> hex_colon_dot (CHR '']'')" "\<not> bracket_zone (CHR '']'')" "\<not> is_word (CHR '' '')" "\<not> is_hex (CHR '':'')"
  by code_simp+

lemma digit_word: "is_digit_char c \<Longrightarrow> is_word c"
  by (simp add: is_word_def)

lemma digits_last: "digits x \<Longrightarrow> is_word (last x)"
  by (auto simp: digits_def list_all_iff digit_word)

lemma reads_port: "digits port \<Longrightarrow> s = [] \<or> \<not> is_digit_char (hd s) \<Longrightarrow> reads port_re p (CHR '':'' # port) s"
proof -
  assume d: "digits port" "s = [] \<or> \<not> is_digit_char (hd s)"
  have "reads (Many is_digit_char 1 None) (before p '':'') port s"
    using d by (intro reads_Many) (auto simp: digits_def Suc_le_eq)
  from reads_Seq [OF reads_lit this] show ?thesis unfolding port_re_def by (intro reads_Opt(1)) simp
qed

lemma reads_octet: "octet x \<Longrightarrow> s = [] \<or> \<not> is_digit_char (hd s) \<Longrightarrow> reads octet_re p x s"
  unfolding octet_re_def by (intro reads_Many) (auto simp: octet_def)

lemma reads_dot_octet: "octet x \<Longrightarrow> s = [] \<or> \<not> is_digit_char (hd s) \<Longrightarrow> reads dot_octet_re p (CHR ''.'' # x) s"
  unfolding dot_octet_re_def using reads_Seq [OF reads_lit reads_octet, of x s "CHR ''.''" p] by simp

lemma reads_ipv4:
  assumes "octet a" "octet b" "octet c" "octet d" "digits port" "\<not> word_at p" "s = [] \<or> \<not> is_word (hd s)"
  shows "reads ipv4_re p (a @ (CHR ''.'' # b) @ (CHR ''.'' # c) @ (CHR ''.'' # d) @ (CHR '':'' # port)) s"
proof -
  have s: "s = [] \<or> \<not> is_digit_char (hd s)" using assms(7) digit_word by blast
  have ne: "a \<noteq> []" using assms(1) by (auto simp: octet_def)
  have w: "is_word (hd a)" using ne hd_in_set [OF ne] assms(1) digit_word by (auto simp: octet_def list_all_iff)
  have last: "is_word (last port)" "port \<noteq> []" using digits_last assms(5) by (auto simp: digits_def)
  have e: "reads Bound (before q (CHR '':'' # port)) [] s" for q
    using last assms(7) by (intro reads_Bound) (cases s; auto simp: next_at_def)
  have 1: "reads (Seq port_re Bound) q (CHR '':'' # port) s" for q
    using reads_Seq [OF reads_port [OF assms(5), of "[] @ s"] e] s by simp
  have 2: "reads (Seq dot_octet_re (Seq port_re Bound)) q ((CHR ''.'' # d) @ (CHR '':'' # port)) s" for q
    by (rule reads_Seq [OF reads_dot_octet [OF assms(4)] 1]) simp
  have 3: "reads (Seq dot_octet_re (Seq dot_octet_re (Seq port_re Bound))) q ((CHR ''.'' # c) @ (CHR ''.'' # d) @ (CHR '':'' # port)) s" for q
    by (rule reads_Seq [OF reads_dot_octet [OF assms(3)] 2]) simp
  have 4: "reads (Seq dot_octet_re (Seq dot_octet_re (Seq dot_octet_re (Seq port_re Bound)))) q
      ((CHR ''.'' # b) @ (CHR ''.'' # c) @ (CHR ''.'' # d) @ (CHR '':'' # port)) s" for q
    by (rule reads_Seq [OF reads_dot_octet [OF assms(2)] 3]) simp
  have 5: "reads (Seq octet_re (Seq dot_octet_re (Seq dot_octet_re (Seq dot_octet_re (Seq port_re Bound))))) q
      (a @ (CHR ''.'' # b) @ (CHR ''.'' # c) @ (CHR ''.'' # d) @ (CHR '':'' # port)) s" for q
    by (rule reads_Seq [OF reads_octet [OF assms(1)] 4]) simp
  have 0: "reads Bound p [] ((a @ (CHR ''.'' # b) @ (CHR ''.'' # c) @ (CHR ''.'' # d) @ (CHR '':'' # port)) @ s)"
    using assms(6) w ne by (intro reads_Bound) (cases a; simp add: next_at_def)
  show ?thesis unfolding ipv4_re_def using reads_Seq [OF 0 5] by simp
qed

lemma reads_bracket:
  assumes "v \<noteq> []" "list_all hex_colon_dot v" "z = [] \<or> (\<exists>zs. z = CHR ''%'' # zs \<and> zs \<noteq> [] \<and> list_all bracket_zone zs)" "digits port"
    and "s = [] \<or> \<not> is_digit_char (hd s)"
  shows "reads bracket_re p (''['' @ v @ z @ '']'' @ (CHR '':'' # port)) s"
proof -
  let ?tail = "'']'' @ (CHR '':'' # port)"
  have 1: "reads (Seq (lit (CHR '']'')) port_re) q ?tail s" for q by (rule reads_Seq [OF reads_lit reads_port [OF assms(4,5)]])
  have 2: "reads (Opt (Seq (lit (CHR ''%'')) (Many bracket_zone 1 None))) q z (?tail @ s)" for q
  proof (cases "z = []")
    case True
    then show ?thesis using reads_Opt(2) [OF lens_lit_no] by simp
  next
    case False
    then obtain zs where zs: "z = CHR ''%'' # zs" "zs \<noteq> []" "list_all bracket_zone zs" using assms(3) by blast
    then have "reads (Many bracket_zone 1 None) (before q ''%'') zs (?tail @ s)" by (intro reads_Many) (auto simp: Suc_le_eq)
    from reads_Seq [OF reads_lit this] show ?thesis unfolding zs(1) by (intro reads_Opt(1)) simp
  qed
  have 3: "reads (Many hex_colon_dot 1 None) q v ((z @ ?tail) @ s)" for q
    using assms(1-3) by (intro reads_Many) (auto simp: Suc_le_eq)
  show ?thesis unfolding bracket_re_def using reads_Seq [OF reads_lit reads_Seq [OF 3 reads_Seq [OF 2 1]], of "CHR ''[''" p] by simp
qed

text \<open>The text of a remote address as \<open>net/http\<close> prints it: \<open>host:port\<close>, with an IPv6 host in brackets.\<close>

definition remote4 :: "iptext \<Rightarrow> string \<Rightarrow> bool" where
  "remote4 T ra \<longleftrightarrow> (\<exists>a b c d port. octet a \<and> octet b \<and> octet c \<and> octet d \<and> digits port
     \<and> isAddr T (a @ (CHR ''.'' # b) @ (CHR ''.'' # c) @ (CHR ''.'' # d)) \<and> ra = a @ (CHR ''.'' # b) @ (CHR ''.'' # c) @ (CHR ''.'' # d) @ (CHR '':'' # port))"

definition remote6 :: "iptext \<Rightarrow> string \<Rightarrow> bool" where
  "remote6 T ra \<longleftrightarrow> (\<exists>v z port. v \<noteq> [] \<and> list_all hex_colon_dot v \<and> (z = [] \<or> (\<exists>zs. z = CHR ''%'' # zs \<and> zs \<noteq> [] \<and> list_all bracket_zone zs))
     \<and> digits port \<and> isAddr T (v @ z) \<and> ra = ''['' @ v @ z @ '']'' @ (CHR '':'' # port))"

lemma octet_no_colon: "octet x \<Longrightarrow> CHR '':'' \<notin> set x" "octet x \<Longrightarrow> x \<noteq> []"
  by (auto simp: octet_def list_all_iff dest: bspec [of _ _ "CHR '':''"])

lemma digits_no_colon: "digits x \<Longrightarrow> CHR '':'' \<notin> set x"
  by (auto simp: digits_def list_all_iff)

lemma redact_remote4: "remote4 T ra \<Longrightarrow> redact_match T ra = ''client''"
proof -
  assume "remote4 T ra"
  then obtain a b c d port where o: "octet a" "octet b" "octet c" "octet d" "digits port"
    and ad: "isAddr T (a @ (CHR ''.'' # b) @ (CHR ''.'' # c) @ (CHR ''.'' # d))"
    and ra: "ra = (a @ (CHR ''.'' # b) @ (CHR ''.'' # c) @ (CHR ''.'' # d)) @ CHR '':'' # port" by (auto simp: remote4_def)
  let ?h = "a @ (CHR ''.'' # b) @ (CHR ''.'' # c) @ (CHR ''.'' # d)"
  have n: "CHR '':'' \<notin> set ?h" using octet_no_colon(1) o by auto
  have p: "\<not> HasPrefix ra ''[''"
    using o(1) ra by (cases a) (auto simp: octet_def HasPrefix_def)
  have "count_list ra (CHR '':'') \<le> 1" using n digits_no_colon [OF o(5)] ra by (simp add: count_list_0_iff)
  moreover have "fst (Cut ra (CHR '':'')) = ?h" unfolding ra Cut_append [OF n] by simp
  ultimately show ?thesis using p ad by (simp add: redact_match_def)
qed

lemma redact_remote6: "remote6 T ra \<Longrightarrow> redact_match T ra = ''client''"
proof -
  assume "remote6 T ra"
  then obtain v z port where v: "list_all hex_colon_dot v" "z = [] \<or> (\<exists>zs. z = CHR ''%'' # zs \<and> zs \<noteq> [] \<and> list_all bracket_zone zs)"
    and ad: "isAddr T (v @ z)" and ra: "ra = (''['' @ v @ z) @ CHR '']'' # (CHR '':'' # port)" by (auto simp: remote6_def)
  have "CHR '']'' \<notin> set v" "\<And>zs. list_all bracket_zone zs \<Longrightarrow> CHR '']'' \<notin> set zs"
    using v(1) class_facts(7,8) by (auto simp: list_all_iff simp del: class_facts)
  then have "CHR '']'' \<notin> set (''['' @ v @ z)" using v(2) by auto
  then have "IndexByte ra (CHR '']'') = Some (length (''['' @ v @ z))" unfolding ra by (rule IndexByte_append_notin)
  then show ?thesis using ad by (simp add: redact_match_def ra HasPrefix_def)
qed

lemma colon_alone: "lens addrPattern p '':'' = []"
  by (cases p) (simp_all add: addrPattern_def bracket_re_def ipv4_re_def ipv6_re_def octet_re_def)

lemma pattern_sep: "rejects addrPattern (CHR '' '')" "lens addrPattern p [] = []"
proof -
  show "rejects addrPattern (CHR '' '')" by code_simp
  show "lens addrPattern p [] = []" by (cases p) (simp_all add: addrPattern_def bracket_re_def ipv4_re_def ipv6_re_def octet_re_def)
qed

lemma redact_space: "redactAddrs T (u @ CHR '' '' # v) = redactAddrs T u @ CHR '' '' # redactAddrs T v"
  unfolding redactAddrs_def by (rule replace_sep) (simp_all add: pattern_sep)

lemma remote_read: "remote4 T ra \<or> remote6 T ra \<Longrightarrow> reads addrPattern None ra '':'' \<and> ra \<noteq> []"
proof (elim disjE)
  assume "remote4 T ra"
  then obtain a b c d port where o: "octet a" "octet b" "octet c" "octet d" "digits port"
    and ra: "ra = a @ (CHR ''.'' # b) @ (CHR ''.'' # c) @ (CHR ''.'' # d) @ (CHR '':'' # port)" by (auto simp: remote4_def)
  have "lens bracket_re None (ra @ '':'') = []"
    unfolding bracket_re_def using o(1) ra by (intro lens_lit_no) (cases a; auto simp: octet_def)
  then show ?thesis using reads_Alt(2) [OF _ reads_Alt(1) [OF reads_ipv4 [OF o, of None "'':''"]]] ra unfolding addrPattern_def by simp
next
  assume "remote6 T ra"
  then obtain v z port where v: "v \<noteq> []" "list_all hex_colon_dot v" "z = [] \<or> (\<exists>zs. z = CHR ''%'' # zs \<and> zs \<noteq> [] \<and> list_all bracket_zone zs)" "digits port"
    and ra: "ra = ''['' @ v @ z @ '']'' @ (CHR '':'' # port)" by (auto simp: remote6_def)
  show ?thesis using reads_Alt(1) [OF reads_bracket [OF v, of "'':''" None]] ra unfolding addrPattern_def by simp
qed

section \<open>Property\<close>

text \<open>C8: No line of the admin server's error log shows who the client was. Wherever \<open>net/http\<close> prints a remote address, IPv4 or IPv6, with
  or without a zone, between a space and a colon, the log has the word client in its place, and the text before and
  after is treated on its own: two lines that differ only in the client are logged alike.\<close>

theorem redact_hides_remote:
  assumes "remote4 T ra \<or> remote6 T ra"
  shows "redactAddrs T (u @ '' '' @ ra @ '': '' @ v) = redactAddrs T u @ '' client: '' @ redactAddrs T v"
proof -
  have "redact_match T ra = ''client''" using assms redact_remote4 redact_remote6 by blast
  moreover have "replace_matches addrPattern (redact_match T) (before None ra) '':'' = '':''"
    using colon_alone by (simp add: replace_matches.simps(2))
  ultimately have r: "redactAddrs T (ra @ '':'') = ''client:''"
    unfolding redactAddrs_def using replace_reads [of addrPattern None ra "'':''" "redact_match T"] remote_read [OF assms] by simp
  have "redactAddrs T (u @ CHR '' '' # ((ra @ '':'') @ CHR '' '' # v)) = redactAddrs T u @ CHR '' '' # (redactAddrs T (ra @ '':'') @ CHR '' '' # redactAddrs T v)"
    by (simp only: redact_space)
  then show ?thesis unfolding r by simp
qed

definition demo_quad :: iptext where
  "demo_quad = \<lparr>ParseAddr = (\<lambda>s. if s = ''192.0.2.1'' then Some (Addr4 0xC0000201) else None), AddrString = (\<lambda>a. ''192.0.2.1'')\<rparr>"

theorem redact_hides_remote_witness:
  "redactAddrs demo_quad (''http: panic serving'' @ '' '' @ ''192.0.2.1:5678'' @ '': '' @ ''boom'') = ''http: panic serving client: boom''"
proof -
  have o: "octet ''192''" "octet ''0''" "octet ''2''" "octet ''1''" "digits ''5678''" by code_simp+
  have "isAddr demo_quad ''192.0.2.1''" by (simp add: isAddr_def demo_quad_def)
  then have "remote4 demo_quad ''192.0.2.1:5678''" unfolding remote4_def using o
    by (intro exI [of _ "''192''"] exI [of _ "''0''"] exI [of _ "''2''"] exI [of _ "''1''"] exI [of _ "''5678''"]) simp
  then have "redactAddrs demo_quad (''http: panic serving'' @ '' '' @ ''192.0.2.1:5678'' @ '': '' @ ''boom'')
      = redactAddrs demo_quad ''http: panic serving'' @ '' client: '' @ redactAddrs demo_quad ''boom''" by (intro redact_hides_remote disjI1)
  moreover have "redactAddrs demo_quad ''http: panic serving'' = ''http: panic serving''" "redactAddrs demo_quad ''boom'' = ''boom''" by code_simp+
  ultimately show ?thesis by simp
qed

end
