(* ===== verification/Admin_Api.thy ===== *)
theory Admin_Api
  imports Api_Guard Api_Metrics List_Loader Query_Read
begin

text \<open>
  The admin REST API, \<open>src/internal/api/api.go\<close> and the handlers of \<open>purge.go\<close>. A handler is a function of the
  request, the headers set so far and the server, to the reply and the server. \<open>serve\<close> is the whole path of a
  request: the checks of \<open>Api_Guard\<close>, the mux, the handler. The value that \<open>writeJSON\<close> encodes is the body of the
  reply; the audit lines, which name the requester, are kept in the server, and so are the calls of the reload
  and purge functions that main wires in. What a handler asks of its environment (clocks, the order of a map,
  the outcome of a database read, of a reload and of a purge) is the argument \<open>api_env\<close>. The profiling handlers
  of \<open>net/http/pprof\<close> and the static files are library code.
\<close>

section \<open>Model\<close>

subsection \<open>The server\<close>

record PrivacyInfo =
  pi_Mode :: string
  pi_Clients :: string
  pi_Database :: bool
  pi_File :: string
  pi_RetentionDays :: int

record PurgeStep =
  ps_What :: string
  ps_Result :: string
  ps_Failed :: bool

type_synonym PurgeReport = "PurgeStep list"

definition report_Failed :: "PurgeReport \<Rightarrow> bool" where
  "report_Failed r = list_ex ps_Failed r"

datatype api_call = CallReload | CallPurge

record audit =
  au_domain :: string
  au_client :: "string option"

record Server =
  sv_counter :: Counter
  sv_db :: "DBLogger option"
  sv_store :: Store
  sv_enablePprof :: bool
  sv_privacy :: PrivacyInfo
  sv_labeler :: "clientLabeler option"
  sv_hostnames :: "string list"
  sv_exports :: nat              \<comment> \<open>slots of \<open>exportSem\<close> in use\<close>
  sv_purgeFn :: bool             \<comment> \<open>whether a purge function is wired\<close>
  sv_audit :: "audit list"
  sv_calls :: "api_call list"

definition no_privacy :: PrivacyInfo where
  "no_privacy = \<lparr>pi_Mode = [], pi_Clients = [], pi_Database = False, pi_File = [], pi_RetentionDays = 0\<rparr>"

definition api_New :: "httplib \<Rightarrow> string option \<Rightarrow> Counter \<Rightarrow> DBLogger option \<Rightarrow> Store \<Rightarrow> Server" where
  "api_New H hostname counter db store =
     \<lparr>sv_counter = counter, sv_db = db, sv_store = store, sv_enablePprof = False, sv_privacy = no_privacy,
      sv_labeler = None, sv_hostnames = localHostnames (hl_U H) hostname, sv_exports = 0, sv_purgeFn = False,
      sv_audit = [], sv_calls = []\<rparr>"

definition EnablePprof :: "bool \<Rightarrow> Server \<Rightarrow> Server" where
  "EnablePprof on s = s\<lparr>sv_enablePprof := on\<rparr>"

definition SetPrivacy :: "PrivacyInfo \<Rightarrow> Server \<Rightarrow> Server" where
  "SetPrivacy p s = s\<lparr>sv_privacy := p\<rparr>"

definition SetClientNames :: "httplib \<Rightarrow> (string \<times> string) list \<Rightarrow> Server \<Rightarrow> Server" where
  "SetClientNames H m s = s\<lparr>sv_labeler := Some (newClientLabeler H m)\<rparr>"

definition SetPurge :: "Server \<Rightarrow> Server" where
  "SetPurge s = s\<lparr>sv_purgeFn := True\<rparr>"

definition privacyInfo :: "Server \<Rightarrow> PrivacyInfo" where
  "privacyInfo s =
     (let p = sv_privacy s;
          p = (if pi_Mode p = [] then p\<lparr>pi_Mode := ''none''\<rparr> else p);
          p = (if pi_Clients p = [] then p\<lparr>pi_Clients := ''drop''\<rparr> else p)
      in if pi_File p = [] then p\<lparr>pi_File := ''off''\<rparr> else p)"

record DoTStatus =
  ds_Listen :: string
  ds_Names :: "string list"
  ds_NotAfter :: time
  ds_State :: string
  ds_LastReload :: "time option"   \<comment> \<open>\<open>None\<close> is the zero time\<close>
  ds_LastReloadError :: string
  ds_ReloadFailures :: nat

record api_env =
  ae_now :: "nat \<Rightarrow> time"           \<comment> \<open>the readings of the clock in order\<close>
  ae_ord :: "tally \<Rightarrow> tally"
  ae_dbError :: bool                \<comment> \<open>a database read fails\<close>
  ae_yield :: "QueryRow \<Rightarrow> string option"  \<comment> \<open>the outcome of writing an exported row\<close>
  ae_metaErr :: bool                \<comment> \<open>the export envelope does not encode\<close>
  ae_headErr :: bool                \<comment> \<open>the start of the envelope is not written\<close>
  ae_addrs :: "string + net_addr list"
  ae_reload :: bool                 \<comment> \<open>the reload function starts a reload\<close>
  ae_purge :: PurgeReport
  ae_warnings :: "string list"
  ae_dot :: "DoTStatus option"
  ae_scrape :: scrape

subsection \<open>Bodies\<close>

record clientEntry =
  ce_Name :: string
  ce_Count :: nat
  ce_Label :: string

record dotResponse =
  dr_Enabled :: bool
  dr_Listen :: string
  dr_Names :: "string list"
  dr_NotAfter :: "time option"
  dr_ExpiresInDays :: "int option"
  dr_State :: string
  dr_LastReload :: "time option"
  dr_LastReloadError :: string

record statsResponse =
  sr_Summary :: Summary
  sr_BlocklistSize :: nat
  sr_TopClients :: "clientEntry list"
  sr_Sources :: "SourceStatus list"
  sr_Privacy :: PrivacyInfo
  sr_Warnings :: "string list"
  sr_DoT :: dotResponse

record queryRow =
  qw_Row :: QueryRow
  qw_Label :: string
  qw_Outcome :: string

datatype series = MemorySeries "TimelineBucket list" | StoredSeries "Bucket list"

record historyResponse =
  hr_Window :: int
  hr_Bucket :: int
  hr_Source :: string
  hr_Logging :: string
  hr_Series :: series

record exportMeta =
  em_Clients :: string
  em_Mode :: string
  em_ExportedAt :: time
  em_Filter :: QueryFilter

datatype api_body =
    Text string
  | JStats statsResponse
  | JCheck Explanation
  | JQueries "queryRow list"
  | CSVExport "string list list"
  | JExport exportMeta "queryRow list" bool   \<comment> \<open>whether the document is closed\<close>
  | JTop "(string \<times> nat) list"
  | JHistory historyResponse
  | JAllowlist "string list"
  | JStatus "(string \<times> string) list"
  | JPurge PurgeReport

type_synonym handler = "httplib \<Rightarrow> api_env \<Rightarrow> request \<Rightarrow> headers \<Rightarrow> Server \<Rightarrow> api_body reply \<times> Server"

definition writeJSON_code :: "headers \<Rightarrow> api_body \<Rightarrow> int \<Rightarrow> api_body reply" where
  "writeJSON_code hs b code = \<lparr>rp_Status = code, rp_Headers = set_header ''Content-Type'' ''application/json'' hs, rp_Body = b\<rparr>"

definition writeJSON :: "headers \<Rightarrow> api_body \<Rightarrow> api_body reply" where
  "writeJSON hs b = writeJSON_code hs b 200"

subsection \<open>Statistics\<close>

text \<open>\<open>dotSummary\<close>, with the days in exact arithmetic.\<close>

definition no_dot :: dotResponse where
  "no_dot = \<lparr>dr_Enabled = False, dr_Listen = [], dr_Names = [], dr_NotAfter = None, dr_ExpiresInDays = None, dr_State = [],
     dr_LastReload = None, dr_LastReloadError = []\<rparr>"

definition dotSummary :: "DoTStatus option \<Rightarrow> time \<Rightarrow> dotResponse" where
  "dotSummary status now = (case status of
     None \<Rightarrow> no_dot
   | Some st \<Rightarrow> \<lparr>dr_Enabled = True, dr_Listen = ds_Listen st, dr_Names = ds_Names st, dr_NotAfter = Some (ds_NotAfter st),
       dr_ExpiresInDays = Some (time_Sub (ds_NotAfter st) now div (24 * hour)), dr_State = ds_State st,
       dr_LastReload = ds_LastReload st, dr_LastReloadError = ds_LastReloadError st\<rparr>)"

definition redactSources :: "urllib \<Rightarrow> SourceStatus list \<Rightarrow> SourceStatus list" where
  "redactSources K srcs = map (\<lambda>src. src\<lparr>src_URL := redact_URL K (src_URL src)\<rparr>) srcs"

definition handleStats :: handler where
  "handleStats H E r hs s =
     (let snap = Snapshot (ae_ord E) (sv_counter s) (ae_now E 0) 10
      in (writeJSON hs (JStats \<lparr>sr_Summary = snap, sr_BlocklistSize = Len (sv_store s),
            sr_TopClients = map (\<lambda>e. \<lparr>ce_Name = en_Name e, ce_Count = en_Count e, ce_Label = label_of H (sv_labeler s) (en_Name e)\<rparr>) (su_TopClients snap),
            sr_Sources = redactSources (hl_K H) (Sources (sv_store s)), sr_Privacy = privacyInfo s,
            sr_Warnings = ae_warnings E, sr_DoT = dotSummary (ae_dot E) (ae_now E 1)\<rparr>), s))"

definition handleCheck :: handler where
  "handleCheck H E r hs s =
     (let domain = rq_Query r ''domain'' in
      if \<not> ValidDomain domain then (http_Error hs (Text ''invalid or missing domain'') 400, s)
      else (writeJSON hs (JCheck (Explain (hl_U H) (sv_store s) domain)), s))"

subsection \<open>Query history\<close>

definition defaultQueriesLimit :: int where "defaultQueriesLimit = 50"
definition maxQueriesLimit :: int where "maxQueriesLimit = 1000"

definition parseLimit :: "request \<Rightarrow> int" where
  "parseLimit r = (case Atoi (rq_Query r ''limit'') of
     None \<Rightarrow> defaultQueriesLimit
   | Some n \<Rightarrow> if n \<le> 0 then defaultQueriesLimit else min n maxQueriesLimit)"

definition parseQueryFilter :: "request \<Rightarrow> QueryFilter" where
  "parseQueryFilter r =
     \<lparr>qf_Domain = TrimSpace (rq_Query r ''domain''), qf_Client = TrimSpace (rq_Query r ''client''),
      qf_Blocked = (if rq_Query r ''blocked'' = ''true'' then Some True
        else if rq_Query r ''blocked'' = ''false'' then Some False else None),
      qf_Outcome = (if rq_Query r ''outcome'' = ''unresolved'' then ''unresolved''
        else if rq_Query r ''outcome'' \<in> {''upstream-error'', ''upstream_error''} then ''upstream-error'' else [])\<rparr>"

definition label_row :: "httplib \<Rightarrow> Server \<Rightarrow> QueryRow \<Rightarrow> queryRow" where
  "label_row H s row = \<lparr>qw_Row = row, qw_Label = label_of H (sv_labeler s) (qr_ClientIP row), qw_Outcome = Outcome row\<rparr>"

definition internal_error :: "headers \<Rightarrow> api_body reply" where
  "internal_error hs = http_Error hs (Text ''internal error'') 500"

definition handleQueries :: handler where
  "handleQueries H E r hs s = (case sv_db s of
     None \<Rightarrow> (writeJSON hs (JQueries []), s)
   | Some db \<Rightarrow>
       if ae_dbError E then (internal_error hs, s)
       else (writeJSON hs (JQueries (map (label_row H s) (Search (hl_U H) (dl_db db) (parseQueryFilter r) (parseLimit r)))), s))"

definition maxConcurrentExports :: nat where "maxConcurrentExports = 2"

definition csvSanitize :: "string \<Rightarrow> string" where
  "csvSanitize s = (case s of
     [] \<Rightarrow> s
   | c # _ \<Rightarrow> if c \<in> {CHR ''='', CHR ''+'', CHR ''-'', CHR 0x40, CHR 0x09, CHR 0x0D} then CHR 0x27 # s else s)"

definition exportCSVColumns :: "string list" where
  "exportCSVColumns = [''ts'', ''client_ip'', ''label'', ''domain'', ''blocked'', ''outcome'', ''rcode'', ''synthesized'', ''blocked_by'']"

definition FormatBool :: "bool \<Rightarrow> string" where
  "FormatBool b = (if b then ''true'' else ''false'')"

text \<open>The time stamp column is the text of the stored value, here its number of seconds.\<close>

definition csv_record :: "httplib \<Rightarrow> Server \<Rightarrow> QueryRow \<Rightarrow> string list" where
  "csv_record H s row = [Itoa (qr_TS row), csvSanitize (qr_ClientIP row),
     csvSanitize (label_of H (sv_labeler s) (qr_ClientIP row)), csvSanitize (qr_Domain row), FormatBool (qr_Blocked row),
     Outcome row, Itoa (qr_Rcode row), FormatBool (qr_Synthesized row), qr_BlockedBy row]"

definition exportCSV :: "httplib \<Rightarrow> api_env \<Rightarrow> QueryFilter \<Rightarrow> int \<Rightarrow> Server \<Rightarrow> api_body" where
  "exportCSV H E f limit s = CSVExport (exportCSVColumns # (case sv_db s of
     None \<Rightarrow> []
   | Some db \<Rightarrow> if ae_dbError E then []
       else map (csv_record H s) (fst (Export (hl_U H) (dl_db db) f limit (ae_yield E)))))"

definition exportJSON :: "httplib \<Rightarrow> api_env \<Rightarrow> headers \<Rightarrow> QueryFilter \<Rightarrow> int \<Rightarrow> string \<Rightarrow> string \<Rightarrow> Server \<Rightarrow> api_body reply" where
  "exportJSON H E hs f limit clients mode s =
     (let m = \<lparr>em_Clients = clients, em_Mode = mode, em_ExportedAt = ae_now E 1, em_Filter = f\<rparr>;
          hs' = set_header ''Content-Type'' ''application/json'' hs
      in if ae_metaErr E then internal_error hs'
         else if ae_headErr E then \<lparr>rp_Status = 200, rp_Headers = hs', rp_Body = JExport m [] False\<rparr>
         else \<lparr>rp_Status = 200, rp_Headers = hs', rp_Body = (case sv_db s of
             None \<Rightarrow> JExport m [] True
           | Some db \<Rightarrow> if ae_dbError E then JExport m [] False
               else (case Export (hl_U H) (dl_db db) f limit (ae_yield E) of (rows, err) \<Rightarrow>
                 JExport m (map (label_row H s) rows) (err = None)))\<rparr>)"

definition export_limit :: "request \<Rightarrow> int" where
  "export_limit r = (case Atoi (rq_Query r ''limit'') of Some n \<Rightarrow> if 0 < n then n else 0 | None \<Rightarrow> 0)"

definition handleQueriesExport :: handler where
  "handleQueriesExport H E r hs s =
     (let format = (if rq_Query r ''format'' = [] then ''csv'' else rq_Query r ''format'') in
      if format \<noteq> ''csv'' \<and> format \<noteq> ''json'' then (http_Error hs (Text ''invalid format: expected \"csv\" or \"json\"'') 400, s)
      else if maxConcurrentExports \<le> sv_exports s then
        (http_Error (set_header ''Retry-After'' ''5'' hs) (Text ''too many concurrent exports in progress'') 429, s)
      else
        let f = parseQueryFilter r; limit = export_limit r;
            clients = pi_Clients (privacyInfo s);
            mode = (case sv_db s of None \<Rightarrow> ''off'' | Some db \<Rightarrow> dl_logQueries db);
            hs' = set_header ''X-Shole-Query-Log-Mode'' mode (set_header ''X-Shole-Query-Log-Clients'' clients
              (set_header ''Content-Disposition'' (''attachment; filename='' @ [CHR 0x22] @ ''s-hole-queries-'' @ clients @ ''-''
                 @ hl_stamp H (ae_now E 0) @ ''.'' @ format @ [CHR 0x22]) hs))
        in if format = ''json'' then (exportJSON H E hs' f limit clients mode s, s)
           else (\<lparr>rp_Status = 200, rp_Headers = set_header ''Content-Type'' ''text/csv; charset=utf-8'' hs',
                  rp_Body = exportCSV H E f limit s\<rparr>, s))"

definition handleTopBlocked :: handler where
  "handleTopBlocked H E r hs s = (case sv_db s of
     None \<Rightarrow> (writeJSON hs (JTop []), s)
   | Some db \<Rightarrow> if ae_dbError E then (internal_error hs, s)
       else (writeJSON hs (JTop (TopBlocked (dl_db db) (parseLimit r))), s))"

subsection \<open>Volume over time\<close>

definition defaultHistoryWindow :: duration where "defaultHistoryWindow = 24 * hour"
definition defaultHistoryBucket :: duration where "defaultHistoryBucket = hour"
definition minHistoryBucket :: duration where "minHistoryBucket = minute"
definition maxHistoryWindow :: duration where "maxHistoryWindow = 30 * 24 * hour"
definition maxHistoryBuckets :: int where "maxHistoryBuckets = 1000"

text \<open>The product of a day count and 24 hours wraps at 64 bits.\<close>

definition parseFlexDuration :: "httplib \<Rightarrow> string \<Rightarrow> duration option" where
  "parseFlexDuration H s =
     (if HasSuffix s ''d'' then map_option (\<lambda>n. wrap64 (wrap64 (n * 24) * hour)) (Atoi (TrimSuffix s ''d''))
      else hl_ParseDuration H s)"

definition parseDurationParam :: "httplib \<Rightarrow> request \<Rightarrow> string \<Rightarrow> duration \<Rightarrow> duration" where
  "parseDurationParam H r name def =
     (let v = rq_Query r name in
      if v = [] then def
      else case parseFlexDuration H v of None \<Rightarrow> def | Some d \<Rightarrow> if d \<le> 0 then def else d)"

definition clampHistory :: "duration \<Rightarrow> duration \<Rightarrow> duration \<times> duration" where
  "clampHistory w b =
     (let window = (if maxHistoryWindow < w then maxHistoryWindow else w);
          window = (if window < minHistoryBucket then minHistoryBucket else window);
          bucket = (if b < minHistoryBucket then minHistoryBucket else b);
          bucket = (if window < bucket then window else bucket)
      in if maxHistoryBuckets < go_div window bucket
         then (window, go_div (go_div window second + maxHistoryBuckets - 1) maxHistoryBuckets * second)
         else (window, bucket))"

definition parseHistoryParams :: "httplib \<Rightarrow> request \<Rightarrow> duration \<times> duration" where
  "parseHistoryParams H r =
     clampHistory (parseDurationParam H r ''window'' defaultHistoryWindow) (parseDurationParam H r ''bucket'' defaultHistoryBucket)"

text \<open>A bucket of zero would panic in \<open>History\<close>; \<open>clampHistory_bounds\<close> below shows that it cannot occur.\<close>

definition handleHistory :: handler where
  "handleHistory H E r hs s = (case parseHistoryParams H r of (window, bucket) \<Rightarrow>
     let memory = (\<lambda>_::unit. let window = (if TimelineWindow < window then TimelineWindow else window);
              bucket = (if window < bucket then window else bucket)
          in writeJSON hs (JHistory \<lparr>hr_Window = go_div window second, hr_Bucket = go_div bucket second, hr_Source = ''memory'',
               hr_Logging = GraphMode (sv_counter s), hr_Series = MemorySeries (Timeline (sv_counter s) window bucket (ae_now E 0))\<rparr>))
     in case sv_db s of
          None \<Rightarrow> (memory (), s)
        | Some db \<Rightarrow>
            if dl_logQueries db = ''none'' \<or> window \<le> TimelineWindow then (memory (), s)
            else if ae_dbError E then (internal_error hs, s)
            else (case History (dl_db db) window bucket (ae_now E 0) (ae_now E 1) of
                None \<Rightarrow> (internal_error hs, s)
              | Some series \<Rightarrow> (writeJSON hs (JHistory \<lparr>hr_Window = go_div window second, hr_Bucket = go_div bucket second,
                  hr_Source = ''database'', hr_Logging = dl_logQueries db, hr_Series = StoredSeries series\<rparr>), s)))"

subsection \<open>The allowlist\<close>

definition maxRequestBytes :: nat where "maxRequestBytes = 64 * 1024"
definition maxAllowlistEntries :: int where "maxAllowlistEntries = 1000"

text \<open>\<open>clientIP\<close> and \<open>auditAttrs\<close>: what the audit line keeps of the requester.\<close>

definition clientIP :: "request \<Rightarrow> string" where
  "clientIP r = (case SplitHostPort (rq_RemoteAddr r) of Some (host, _) \<Rightarrow> host | None \<Rightarrow> rq_RemoteAddr r)"

definition auditAttrs :: "httplib \<Rightarrow> request \<Rightarrow> string \<Rightarrow> Server \<Rightarrow> audit" where
  "auditAttrs H r domain s =
     (if pi_Mode (sv_privacy s) \<noteq> ''all'' \<and> pi_Mode (sv_privacy s) \<noteq> ''blocked'' then \<lparr>au_domain = domain, au_client = None\<rparr>
      else let client = MaskClientIP (hl_T H) (clientIP r) (pi_Clients (sv_privacy s))
        in \<lparr>au_domain = domain, au_client = (if client \<noteq> [] then Some client else None)\<rparr>)"

definition log_audit :: "audit \<Rightarrow> Server \<Rightarrow> Server" where
  "log_audit a s = s\<lparr>sv_audit := sv_audit s @ [a]\<rparr>"

definition handleAllowlistList :: handler where
  "handleAllowlistList H E r hs s = (writeJSON hs (JAllowlist (sorted_list_of_set (GetAllowlist (sv_store s)))), s)"

definition secondLevelLabels :: "string list" where
  "secondLevelLabels = [''co'', ''com'', ''org'', ''net'', ''gov'', ''ac'', ''edu'']"

definition publicSuffixLike :: "unicode \<Rightarrow> string \<Rightarrow> bool" where
  "publicSuffixLike U domain = (case Cut (ToLower U (TrimSuffix domain ''.'')) (CHR ''.'') of (first, rest, ok) \<Rightarrow>
     ok \<and> \<not> Contains rest ''.'' \<and> first \<in> set secondLevelLabels)"

definition handleAllowlistAdd :: handler where
  "handleAllowlistAdd H E r hs s =
     (if \<not> isJSON H r then (http_Error hs (Text ''Content-Type must be application/json'') 415, s)
      else
        let bad = (http_Error hs (Text ''invalid body: expected {\"domain\":\"...\"}'') 400, s) in
        case hl_domain H (take maxRequestBytes (rq_Body r)) of
          None \<Rightarrow> bad
        | Some d \<Rightarrow>
            let domain = TrimSpace d in
            if domain = [] then bad
            else if \<not> ValidDomain domain then
              (http_Error hs (Text ''invalid domain (max 253 chars, must contain a dot, alphanumerics/hyphen/underscore only, no empty label, no label that starts or ends with a hyphen)'') 400, s)
            else if publicSuffixLike (hl_U H) domain then
              (http_Error hs (Text (''s-hole refused '' @ hl_Quote H domain
                 @ '': it looks like a public suffix, so the entry would unblock every site under it. Add the site's own name, for example example.''
                 @ ToLower (hl_U H) (TrimSuffix domain ''.''))) 400, s)
            else (case AddToAllowlistLimited (hl_U H) (sv_store s) domain maxAllowlistEntries of (store, added) \<Rightarrow>
              if \<not> added then
                (http_Error hs (Text (''s-hole refused '' @ hl_Quote H domain @ '': the allowlist is full: it holds '' @ Itoa maxAllowlistEntries
                   @ '' entries added through the dashboard or the API. Remove an entry first, or add the domain to blocking.allowlist in the config file and restart s-hole'')) 409,
                 s\<lparr>sv_store := store\<rparr>)
              else (writeJSON hs (JStatus [(''domain'', domain), (''status'', ''allowlisted'')]),
                 log_audit (auditAttrs H r domain s) (s\<lparr>sv_store := store\<rparr>))))"

definition handleAllowlistRemove :: handler where
  "handleAllowlistRemove H E r hs s =
     (let domain = TrimSpace (rq_Query r ''domain'') in
      if domain = [] then (http_Error hs (Text ''missing ?domain= query parameter'') 400, s)
      else (writeJSON hs (JStatus [(''domain'', domain), (''status'', ''removed'')]),
        log_audit (auditAttrs H r domain s) (s\<lparr>sv_store := RemoveFromAllowlist (hl_U H) (sv_store s) domain\<rparr>)))"

subsection \<open>Reload and purge\<close>

definition handleReload :: handler where
  "handleReload H E r hs s =
     (writeJSON hs (JStatus [(''status'', if ae_reload E then ''reload triggered'' else ''reload queued'')]),
      s\<lparr>sv_calls := sv_calls s @ [CallReload]\<rparr>)"

definition handlePurge :: handler where
  "handlePurge H E r hs s =
     (if \<not> fromThisMachine H (ae_addrs E) (rq_RemoteAddr r) then
        (http_Error hs (Text ''the query history can be deleted only from the s-hole host: open the dashboard there, or run `s-hole -purge` (in Docker: docker exec <container> s-hole -purge)'') 403, s)
      else if \<not> isJSON H r then (http_Error hs (Text ''Content-Type must be application/json'') 415, s)
      else if hl_confirm H (take maxRequestBytes (rq_Body r)) \<noteq> Some True then
        (http_Error hs (Text ''invalid body: expected {\"confirm\": true}'') 400, s)
      else if \<not> sv_purgeFn s then (http_Error hs (Text ''purge is not available'') 503, s)
      else (writeJSON_code hs (JPurge (ae_purge E)) (if report_Failed (ae_purge E) then 500 else 200),
            s\<lparr>sv_calls := sv_calls s @ [CallPurge]\<rparr>))"

subsection \<open>Probes and metrics\<close>

definition plain_text :: "headers \<Rightarrow> string \<Rightarrow> int \<Rightarrow> string \<Rightarrow> api_body reply" where
  "plain_text hs ctype code b = \<lparr>rp_Status = code, rp_Headers = set_header ''Content-Type'' ctype hs, rp_Body = Text b\<rparr>"

definition handleHealth :: handler where
  "handleHealth H E r hs s = (plain_text hs ''text/plain; charset=utf-8'' 200 (''ok'' @ newline), s)"

definition handleReady :: handler where
  "handleReady H E r hs s =
     (if Len (sv_store s) = 0 then (plain_text hs ''text/plain; charset=utf-8'' 503 (''blocklist empty'' @ newline), s)
      else (plain_text hs ''text/plain; charset=utf-8'' 200 (''ok'' @ newline), s))"

definition handleMetrics :: handler where
  "handleMetrics H E r hs s =
     (plain_text hs ''text/plain; version=0.0.4; charset=utf-8'' 200
        (metrics_page (hl_K H) (Snapshot (ae_ord E) (sv_counter s) (ae_now E 0) 0) (sv_store s) (ae_scrape E)), s)"

subsection \<open>The mux\<close>

text \<open>
  The routes of \<open>handler\<close>, with the rules of Go's mux: a pattern for GET matches HEAD as well; a request that matches
  no other pattern, by path or by method, goes to the pattern \<open>"/"\<close>, the static files.
\<close>

definition is_get :: "request \<Rightarrow> bool" where
  "is_get r = (rq_Method r \<in> {''GET'', ''HEAD''})"

definition api_routes :: "(string \<times> string \<times> handler) list" where
  "api_routes = [
     (''GET'', ''/api/stats'', handleStats), (''GET'', ''/api/check'', handleCheck), (''GET'', ''/api/queries'', handleQueries),
     (''GET'', ''/api/queries/export'', handleQueriesExport), (''GET'', ''/api/top-blocked'', handleTopBlocked),
     (''GET'', ''/api/history'', handleHistory), (''GET'', ''/api/allowlist'', handleAllowlistList),
     (''POST'', ''/api/allowlist'', handleAllowlistAdd), (''DELETE'', ''/api/allowlist'', handleAllowlistRemove),
     (''POST'', ''/api/reload'', handleReload), (''POST'', ''/api/purge'', handlePurge), (''GET'', ''/healthz'', handleHealth),
     (''GET'', ''/readyz'', handleReady), (''GET'', ''/metrics'', handleMetrics)]"

definition method_matches :: "string \<Rightarrow> request \<Rightarrow> bool" where
  "method_matches m r = (rq_Method r = m \<or> (m = ''GET'' \<and> rq_Method r = ''HEAD''))"

text \<open>\<open>registerPprof\<close>: every path below the prefix for GET, and one for POST.\<close>

definition pprof_route :: "request \<Rightarrow> bool" where
  "pprof_route r = ((HasPrefix (rq_Path r) ''/debug/pprof/'' \<and> method_matches ''GET'' r)
     \<or> (rq_Path r = ''/debug/pprof/symbol'' \<and> rq_Method r = ''POST''))"

definition api_handler :: handler where
  "api_handler H E r hs s =
     (if rq_Method r \<noteq> ''CONNECT'' \<and> hl_cleanPath H (rq_Path r) \<noteq> rq_Path r
      then (\<lparr>rp_Status = hl_redirectCode H, rp_Headers = set_header ''Location'' (hl_cleanPath H (rq_Path r))
              (if is_get r then set_header ''Content-Type'' ''text/html; charset=utf-8'' hs else hs), rp_Body = Text []\<rparr>, s)
      else case find (\<lambda>(m, p, h). p = rq_Path r \<and> method_matches m r) api_routes of
        Some (m, p, h) \<Rightarrow> h H E r hs s
      | None \<Rightarrow>
          if sv_enablePprof s \<and> pprof_route r then
            (case hl_pprof H r hs of (code, hs', b) \<Rightarrow> (\<lparr>rp_Status = code, rp_Headers = hs', rp_Body = Text b\<rparr>, s))
          else (keepNoStore H Text r hs, s))"

definition serve :: "httplib \<Rightarrow> api_env \<Rightarrow> request \<Rightarrow> Server \<Rightarrow> api_body reply \<times> Server" where
  "serve H E r s = secure H (sv_hostnames s) Text (api_handler H E) r s"

section \<open>Lemmas\<close>

subsection \<open>Headers\<close>

definition keeps_security :: "handler \<Rightarrow> bool" where
  "keeps_security h = (\<forall>H E r hs s. has_security hs \<longrightarrow> has_security (rp_Headers (fst (h H E r hs s))))"

lemma set_other [simp]:
  "has_security hs \<Longrightarrow> k \<notin> fst ` set securityHeaders \<Longrightarrow> has_security (set_header k v hs)"
  by (rule has_security_set) simp_all

lemma api_headers [simp]:
  "''Content-Type'' \<notin> fst ` set securityHeaders" "''Retry-After'' \<notin> fst ` set securityHeaders"
  "''Location'' \<notin> fst ` set securityHeaders" "''Content-Disposition'' \<notin> fst ` set securityHeaders"
  "''X-Shole-Query-Log-Mode'' \<notin> fst ` set securityHeaders" "''X-Shole-Query-Log-Clients'' \<notin> fst ` set securityHeaders"
  unfolding security_keys by simp_all

lemma writeJSON_secure [simp]:
  "has_security hs \<Longrightarrow> has_security (rp_Headers (writeJSON_code hs b code))"
  "has_security hs \<Longrightarrow> has_security (rp_Headers (writeJSON hs b))"
  by (simp_all add: writeJSON_def writeJSON_code_def)

lemma plain_text_secure [simp]: "has_security hs \<Longrightarrow> has_security (rp_Headers (plain_text hs ct code b))"
  by (simp add: plain_text_def)

lemma internal_error_secure [simp]: "has_security hs \<Longrightarrow> has_security (rp_Headers (internal_error hs))"
  by (simp add: internal_error_def http_Error_secure)

lemmas secure_simps = keeps_security_def http_Error_secure Let_def

lemma keeps_security_reads:
  "keeps_security handleStats" "keeps_security handleCheck" "keeps_security handleQueries" "keeps_security handleTopBlocked"
  "keeps_security handleAllowlistList" "keeps_security handleHealth" "keeps_security handleReady" "keeps_security handleMetrics"
  by (simp_all add: secure_simps handleStats_def handleCheck_def handleQueries_def handleTopBlocked_def
      handleAllowlistList_def handleHealth_def handleReady_def handleMetrics_def split: option.split)

lemma keeps_security_history: "keeps_security handleHistory"
  by (simp add: secure_simps handleHistory_def split: option.split prod.split)

lemma keeps_security_export: "keeps_security handleQueriesExport"
  by (simp add: secure_simps handleQueriesExport_def exportJSON_def)

lemma keeps_security_writes:
  "keeps_security handleAllowlistAdd" "keeps_security handleAllowlistRemove" "keeps_security handleReload" "keeps_security handlePurge"
  by (simp_all add: secure_simps handleAllowlistAdd_def handleAllowlistRemove_def handleReload_def handlePurge_def
      split: option.split prod.split)

lemma routes_secure: "(m, p, h) \<in> set api_routes \<Longrightarrow> keeps_security h"
  by (auto simp: api_routes_def keeps_security_reads keeps_security_history keeps_security_export keeps_security_writes)

lemma api_handler_secure:
  assumes "fileserver_ok H" "has_security hs"
  shows "has_security (rp_Headers (fst (api_handler H E r hs s)))"
proof (cases "find (\<lambda>(m, p, h). p = rq_Path r \<and> method_matches m r) api_routes")
  case None
  have "has_security (fst (snd (hl_pprof H r hs)))" using assms by (simp add: fileserver_ok_def)
  then show ?thesis using assms None keepNoStore_secure [OF assms, of Text r]
    by (auto simp: api_handler_def split: prod.split)
next
  case (Some mph)
  obtain m p h where mph: "mph = (m, p, h)" using prod.exhaust by metis
  then have "keeps_security h" using Some routes_secure by (auto simp: find_Some_iff) (metis nth_mem)
  then show ?thesis using assms(2) Some mph by (simp add: api_handler_def keeps_security_def)
qed

subsection \<open>Effects\<close>

definition reads_only :: "handler \<Rightarrow> bool" where
  "reads_only h = (\<forall>H E r hs s. snd (h H E r hs s) = s)"

lemma reads_only_handlers:
  "reads_only handleStats" "reads_only handleCheck" "reads_only handleQueries" "reads_only handleTopBlocked"
  "reads_only handleAllowlistList" "reads_only handleHealth" "reads_only handleReady" "reads_only handleMetrics"
  "reads_only handleHistory" "reads_only handleQueriesExport"
  by (simp_all add: reads_only_def Let_def handleStats_def handleCheck_def handleQueries_def handleTopBlocked_def
      handleAllowlistList_def handleHealth_def handleReady_def handleMetrics_def handleHistory_def handleQueriesExport_def
      split: option.split prod.split)

lemma get_reads_only: "(''GET'', p, h) \<in> set api_routes \<Longrightarrow> reads_only h"
  by (auto simp: api_routes_def reads_only_handlers)

text \<open>The changes a handler can make, each with what the request had to be.\<close>

definition added :: "httplib \<Rightarrow> request \<Rightarrow> Server \<Rightarrow> Server \<Rightarrow> bool" where
  "added H r s s' = (\<exists>d. isJSON H r \<and> ValidDomain d \<and> \<not> publicSuffixLike (hl_U H) d
     \<and> AddToAllowlistLimited (hl_U H) (sv_store s) d maxAllowlistEntries = (sv_store s', True)
     \<and> s' = log_audit (auditAttrs H r d s) (s\<lparr>sv_store := sv_store s'\<rparr>))"

definition removed :: "httplib \<Rightarrow> request \<Rightarrow> Server \<Rightarrow> Server \<Rightarrow> bool" where
  "removed H r s s' = (\<exists>d. d \<noteq> [] \<and> s' = log_audit (auditAttrs H r d s) (s\<lparr>sv_store := RemoveFromAllowlist (hl_U H) (sv_store s) d\<rparr>))"

definition purged :: "httplib \<Rightarrow> api_env \<Rightarrow> request \<Rightarrow> Server \<Rightarrow> Server \<Rightarrow> bool" where
  "purged H E r s s' = (fromThisMachine H (ae_addrs E) (rq_RemoteAddr r) \<and> isJSON H r
     \<and> hl_confirm H (take maxRequestBytes (rq_Body r)) = Some True \<and> s' = s\<lparr>sv_calls := sv_calls s @ [CallPurge]\<rparr>)"

lemma AddLimited_False: "AddToAllowlistLimited U st d l = (st', False) \<Longrightarrow> st' = st"
  by (auto simp: AddToAllowlistLimited_def Let_def split: if_splits)

lemma add_effect: "snd (handleAllowlistAdd H E r hs s) = s \<or> added H r s (snd (handleAllowlistAdd H E r hs s))"
proof (cases "hl_domain H (take maxRequestBytes (rq_Body r))")
  case (Some d)
  obtain st b where st: "AddToAllowlistLimited (hl_U H) (sv_store s) (TrimSpace d) maxAllowlistEntries = (st, b)" by fastforce
  show ?thesis
  proof (cases "isJSON H r \<and> TrimSpace d \<noteq> [] \<and> ValidDomain (TrimSpace d) \<and> \<not> publicSuffixLike (hl_U H) (TrimSpace d) \<and> b")
    case True
    then have s': "snd (handleAllowlistAdd H E r hs s) = log_audit (auditAttrs H r (TrimSpace d) s) (s\<lparr>sv_store := st\<rparr>)"
      by (simp add: handleAllowlistAdd_def Let_def Some st)
    show ?thesis unfolding s' added_def using True st
      by (intro disjI2 exI [of _ "TrimSpace d"]) (simp add: log_audit_def)
  next
    case False
    moreover have "b \<or> s\<lparr>sv_store := st\<rparr> = s" using AddLimited_False [of "hl_U H" "sv_store s"] st by (cases b) auto
    ultimately have "snd (handleAllowlistAdd H E r hs s) = s"
      unfolding handleAllowlistAdd_def Let_def Some st option.case prod.case by (simp only: if_distrib [of snd] snd_conv) presburger
    then show ?thesis ..
  qed
qed (simp add: handleAllowlistAdd_def Let_def)

lemma remove_effect: "snd (handleAllowlistRemove H E r hs s) = s \<or> removed H r s (snd (handleAllowlistRemove H E r hs s))"
  by (auto simp: handleAllowlistRemove_def removed_def Let_def)

lemma purge_effect: "snd (handlePurge H E r hs s) = s \<or> purged H E r s (snd (handlePurge H E r hs s))"
  by (simp add: handlePurge_def purged_def)

lemma write_routes:
  assumes "(m, p, h) \<in> set api_routes" "m \<noteq> ''GET''"
  shows "(m, p, h) \<in> {(''POST'', ''/api/allowlist'', handleAllowlistAdd), (''DELETE'', ''/api/allowlist'', handleAllowlistRemove),
     (''POST'', ''/api/reload'', handleReload), (''POST'', ''/api/purge'', handlePurge)}"
  using assms by (auto simp: api_routes_def)

lemma api_handler_effect:
  assumes "snd (api_handler H E r hs s) \<noteq> s"
  defines "s' \<equiv> snd (api_handler H E r hs s)"
  shows "(rq_Method r = ''POST'' \<and> rq_Path r = ''/api/allowlist'' \<and> added H r s s')
     \<or> (rq_Method r = ''DELETE'' \<and> rq_Path r = ''/api/allowlist'' \<and> removed H r s s')
     \<or> (rq_Method r = ''POST'' \<and> rq_Path r = ''/api/reload'' \<and> s' = s\<lparr>sv_calls := sv_calls s @ [CallReload]\<rparr>)
     \<or> (rq_Method r = ''POST'' \<and> rq_Path r = ''/api/purge'' \<and> purged H E r s s')"
proof (cases "find (\<lambda>(m, p, h). p = rq_Path r \<and> method_matches m r) api_routes")
  case None
  then show ?thesis using assms(1) by (auto simp: api_handler_def split: if_splits prod.splits)
next
  case (Some mph)
  obtain m p h where mph: "mph = (m, p, h)" using prod.exhaust by metis
  have "mph \<in> set api_routes" "p = rq_Path r" "method_matches m r"
    using Some mph by (auto simp: find_Some_iff) (metis nth_mem)
  note in_routes = this
  have s': "s' = snd (h H E r hs s)" using assms Some mph by (simp add: api_handler_def split: if_splits)
  have "m \<noteq> ''GET''"
    using get_reads_only [of p h] in_routes(1) mph s' assms by (auto simp: reads_only_def)
  then have meth: "rq_Method r = m" and w: "(m, p, h) \<in> {(''POST'', ''/api/allowlist'', handleAllowlistAdd), (''DELETE'', ''/api/allowlist'', handleAllowlistRemove),
     (''POST'', ''/api/reload'', handleReload), (''POST'', ''/api/purge'', handlePurge)}"
    using in_routes write_routes mph by (auto simp: method_matches_def)
  have ne: "s' \<noteq> s" using assms by simp
  from w consider "m = ''POST''" "p = ''/api/allowlist''" "h = handleAllowlistAdd"
    | "m = ''DELETE''" "p = ''/api/allowlist''" "h = handleAllowlistRemove"
    | "m = ''POST''" "p = ''/api/reload''" "h = handleReload" | "m = ''POST''" "p = ''/api/purge''" "h = handlePurge" by auto
  then show ?thesis
  proof cases
    case 1 then show ?thesis using add_effect [of H E r hs s] ne s' meth in_routes(2) by simp
  next
    case 2 then show ?thesis using remove_effect [of H E r hs s] ne s' meth in_routes(2) by simp
  next
    case 3 then show ?thesis using s' meth in_routes(2) by (simp add: handleReload_def)
  next
    case 4 then show ?thesis using purge_effect [of H E r hs s] ne s' meth in_routes(2) by simp
  qed
qed

lemma serve_effect:
  assumes "snd (serve H E r s) \<noteq> s"
  shows "hostAllowed H (sv_hostnames s) (rq_Host r) \<and> fetchAllowed r \<and> cop_Check (hl_K H) r
     \<and> snd (serve H E r s) = snd (api_handler H E r (fold (\<lambda>(k, v). set_header k v) securityHeaders []) s)"
  using assms by (simp add: serve_def secure_def Let_def split: if_splits)

lemma serve_secure: "fileserver_ok H \<Longrightarrow> has_security (rp_Headers (fst (serve H E r s)))"
  using has_security_start
  by (simp add: serve_def secure_def Let_def http_Error_secure api_handler_secure)

lemma added_audit:
  assumes "added H r s s'"
  shows "\<exists>d. sv_audit s' = sv_audit s @ [auditAttrs H r d s]"
proof -
  obtain d where "s' = log_audit (auditAttrs H r d s) (s\<lparr>sv_store := sv_store s'\<rparr>)" using assms unfolding added_def by blast
  then have "sv_audit s' = sv_audit (log_audit (auditAttrs H r d s) (s\<lparr>sv_store := sv_store s'\<rparr>))" by (rule arg_cong)
  then show ?thesis by (auto simp: log_audit_def)
qed

lemma serve_audit:
  "sv_audit (snd (serve H E r s)) = sv_audit s \<or> (\<exists>d. sv_audit (snd (serve H E r s)) = sv_audit s @ [auditAttrs H r d s])"
proof (cases "snd (serve H E r s) = s")
  case False
  let ?s = "snd (serve H E r s)"
  from api_handler_effect [of H E r "fold (\<lambda>(k, v). set_header k v) securityHeaders []" s]
  have "added H r s ?s \<or> removed H r s ?s \<or> ?s = s\<lparr>sv_calls := sv_calls s @ [CallReload]\<rparr> \<or> purged H E r s ?s"
    using serve_effect [OF False] False by auto
  then show ?thesis
    using added_audit [of H r s ?s] by (elim disjE) (auto simp: removed_def purged_def log_audit_def)
qed simp

subsection \<open>History parameters\<close>

lemma div_bound:
  fixes B W :: int
  assumes "0 < B" "n \<le> W div B"
  shows "n * B \<le> W"
proof -
  have "n * B \<le> (W div B) * B" using assms by (intro mult_right_mono) auto
  also have "\<dots> \<le> W" using div_mult_mod_eq [of W B] pos_mod_sign [of B W] assms(1) by linarith
  finally show ?thesis .
qed

lemma widened_bucket:
  assumes "minute \<le> B" "1000 < W div B" "q = (W div second + 999) div 1000"
  shows "60 \<le> q \<and> q * second \<le> W \<and> W div (q * second) \<le> 1000"
proof -
  define k where "k = W div second"
  have "1001 * B \<le> W" using div_bound [of B 1001 W] assms(1,2) by simp
  then have big: "60060 * second \<le> W" using assms(1) by linarith
  have k: "k * second \<le> W" "W < (k + 1) * second" by (simp_all add: k_def)
  have "60060 * second div second \<le> W div second" using big by (rule zdiv_mono1) simp
  then have k6: "60060 \<le> k" by (simp add: k_def)
  have q: "1000 * q \<le> k + 999" "k \<le> 1000 * q" by (simp_all add: assms(3) k_def)
  have q60: "60 \<le> q" using q(2) k6 by linarith
  have "W < 1001 * (q * second)" using k(2) q(2) q60 by (simp add: algebra_simps)
  then have "\<not> 1001 \<le> W div (q * second)" using div_bound [of "q * second" 1001 W] q60 by linarith
  moreover have "q * second \<le> W" using q(1) k(1) k6 q60 by (simp add: algebra_simps)
  ultimately show ?thesis using q60 by simp
qed

lemma clampHistory_bounds:
  assumes "clampHistory w b = (window, bucket)"
  shows "minute \<le> bucket \<and> bucket \<le> window \<and> window \<le> 30 * 24 * hour \<and> go_div window bucket \<le> 1000"
proof -
  define W where "W = (let window = (if maxHistoryWindow < w then maxHistoryWindow else w) in if window < minHistoryBucket then minHistoryBucket else window)"
  define B where "B = (let bucket = (if b < minHistoryBucket then minHistoryBucket else b) in if W < bucket then W else bucket)"
  have W: "minute \<le> W" "W \<le> 30 * 24 * hour" by (simp_all add: W_def Let_def maxHistoryWindow_def minHistoryBucket_def)
  have B: "minute \<le> B" "B \<le> W" using W by (simp_all add: B_def Let_def minHistoryBucket_def)
  have c: "clampHistory w b = (if maxHistoryBuckets < go_div W B
      then (W, go_div (go_div W second + maxHistoryBuckets - 1) maxHistoryBuckets * second) else (W, B))"
    by (simp add: clampHistory_def W_def B_def Let_def)
  have div: "go_div W B = W div B" "go_div W second = W div second" using W B by (simp_all add: go_div_pos)
  show ?thesis
  proof (cases "1000 < W div B")
    case False
    then show ?thesis using assms c W B div by (simp add: maxHistoryBuckets_def)
  next
    case True
    define q where "q = (W div second + 999) div 1000"
    have "0 \<le> W div second" using W by simp
    then have win: "window = W" "bucket = q * second"
      using assms c True div by (auto simp: maxHistoryBuckets_def q_def go_div_pos add.commute)
    have q: "60 \<le> q" "q * second \<le> W" "W div (q * second) \<le> 1000" using widened_bucket [OF B(1) True q_def] by blast+
    then have "go_div W (q * second) \<le> 1000" using W by (simp add: go_div_pos)
    then show ?thesis using q W unfolding win by simp
  qed
qed

subsection \<open>A closed example\<close>

definition demo_server :: Server where
  "demo_server = SetPurge (api_New demo_http (Some ''pi.lan'') (stats_New 0) None demo_store)"

definition demo_api_env :: api_env where
  "demo_api_env = \<lparr>ae_now = (\<lambda>n. 0), ae_ord = (\<lambda>t. t), ae_dbError = False, ae_yield = (\<lambda>r. None), ae_metaErr = False,
     ae_headErr = False, ae_addrs = Inl [], ae_reload = True, ae_purge = [], ae_warnings = [], ae_dot = None,
     ae_scrape = \<lparr>sc_failures = None, sc_dot = None, sc_cache = None, sc_dbDropped = None, sc_refused = None,
       sc_forwardLimited = None, sc_fallbacks = None, sc_fileDropped = None, sc_goroutines = None, sc_heapObjects = None,
       sc_heapUnused = None\<rparr>\<rparr>"

definition demo_request :: "string \<Rightarrow> string \<Rightarrow> string \<Rightarrow> request" where
  "demo_request m p b = \<lparr>rq_Method = m, rq_Host = ''localhost'', rq_Path = p, rq_RemoteAddr = ''4'',
     rq_Header = (\<lambda>k. if k = ''Content-Type'' then ''application/json'' else []), rq_Query = (\<lambda>k. []), rq_Body = b\<rparr>"

section \<open>Properties\<close>

text \<open>C7: nothing changes through the admin server but by a request that passed every check. If a request changes the
  server, or calls the reload or the purge function, then its Host names this machine, no browser marked it as sent
  by another site (and an \<open>Origin\<close> header, if no such mark is there, has the same host), its method is POST or DELETE,
  and it is one of four: an addition of a valid domain that is no public suffix, sent as JSON, within the limit of
  entries; a removal; a reload; or a purge, confirmed in a JSON body, from this machine.\<close>

theorem admin_change_guarded:
  assumes "snd (serve H E r s) \<noteq> s"
  shows "hostAllowed H (sv_hostnames s) (rq_Host r)
    \<and> rq_Header r ''Sec-Fetch-Site'' \<in> {[], ''same-origin'', ''none''}
    \<and> (rq_Header r ''Sec-Fetch-Site'' = [] \<and> rq_Header r ''Origin'' \<noteq> [] \<longrightarrow>
        (\<exists>p. url_Parse (hl_K H) (rq_Header r ''Origin'') = Some p \<and> ur_Host p = rq_Host r))
    \<and> ((rq_Method r = ''POST'' \<and> rq_Path r = ''/api/allowlist'' \<and> added H r s (snd (serve H E r s)))
     \<or> (rq_Method r = ''DELETE'' \<and> rq_Path r = ''/api/allowlist'' \<and> removed H r s (snd (serve H E r s)))
     \<or> (rq_Method r = ''POST'' \<and> rq_Path r = ''/api/reload'' \<and> snd (serve H E r s) = s\<lparr>sv_calls := sv_calls s @ [CallReload]\<rparr>)
     \<or> (rq_Method r = ''POST'' \<and> rq_Path r = ''/api/purge'' \<and> purged H E r s (snd (serve H E r s))))"
proof -
  let ?hs = "fold (\<lambda>(k, v). set_header k v) securityHeaders []"
  have st: "hostAllowed H (sv_hostnames s) (rq_Host r)" "fetchAllowed r" "cop_Check (hl_K H) r"
      "snd (serve H E r s) = snd (api_handler H E r ?hs s)"
    using serve_effect [OF assms] by blast+
  then have eff: "(rq_Method r = ''POST'' \<and> rq_Path r = ''/api/allowlist'' \<and> added H r s (snd (serve H E r s)))
     \<or> (rq_Method r = ''DELETE'' \<and> rq_Path r = ''/api/allowlist'' \<and> removed H r s (snd (serve H E r s)))
     \<or> (rq_Method r = ''POST'' \<and> rq_Path r = ''/api/reload'' \<and> snd (serve H E r s) = s\<lparr>sv_calls := sv_calls s @ [CallReload]\<rparr>)
     \<or> (rq_Method r = ''POST'' \<and> rq_Path r = ''/api/purge'' \<and> purged H E r s (snd (serve H E r s)))"
    using api_handler_effect [of H E r ?hs s] assms by simp
  then have "rq_Method r \<in> {''POST'', ''DELETE''}" by blast
  then have m: "rq_Method r \<notin> {''GET'', ''HEAD'', ''OPTIONS''}" by auto
  then have site: "rq_Header r ''Sec-Fetch-Site'' \<in> {[], ''same-origin'', ''none''}"
    using st(2) by (simp add: fetchAllowed_def split: if_splits)
  have "rq_Header r ''Sec-Fetch-Site'' = [] \<and> rq_Header r ''Origin'' \<noteq> [] \<longrightarrow>
        (\<exists>p. url_Parse (hl_K H) (rq_Header r ''Origin'') = Some p \<and> ur_Host p = rq_Host r)"
    using st(3) m by (auto simp: cop_Check_def Let_def split: if_splits option.splits)
  then show ?thesis using st(1) site eff by blast
qed

lemma demo_reload:
  "snd (serve demo_http demo_api_env (demo_request ''POST'' ''/api/reload'' []) demo_server)
   = demo_server\<lparr>sv_calls := [CallReload]\<rparr>"
  by (simp add: serve_def secure_def Let_def hostAllowed_def host_part_def demo_request_def demo_http_def demo_server_def
      SplitHostPort_def LastIndexByte_def TrimChars_def TrimSuffix_def HasSuffix_def fetchAllowed_def cop_Check_def
      api_handler_def api_routes_def method_matches_def handleReload_def SetPurge_def api_New_def ToLower_def is_ascii_def
      demo_iptext_def lower_byte_def is_upper_def byte_of_def suffix_to_prefix)

theorem admin_change_guarded_witness:
  "snd (serve demo_http demo_api_env (demo_request ''POST'' ''/api/reload'' []) demo_server) \<noteq> demo_server
   \<and> hostAllowed demo_http (sv_hostnames demo_server) ''localhost''"
proof -
  have ne: "snd (serve demo_http demo_api_env (demo_request ''POST'' ''/api/reload'' []) demo_server) \<noteq> demo_server"
    unfolding demo_reload by (auto simp: demo_server_def SetPurge_def api_New_def)
  then show ?thesis using admin_change_guarded [OF ne] by (simp add: demo_request_def)
qed

text \<open>every reply of the admin server carries the security headers with the values of the source, error replies,
  redirects and static files included, if the file server and the profiling handlers leave them alone.\<close>

theorem admin_headers_always:
  assumes "fileserver_ok H"
  shows "\<forall>(k, v) \<in> set securityHeaders. map_of (rp_Headers (fst (serve H E r s))) k = Some v"
  using serve_secure [OF assms] by (simp add: has_security_def)

lemma demo_fileserver_ok: "fileserver_ok demo_http"
  by (auto simp: fileserver_ok_def demo_http_def has_security_iff)

theorem admin_headers_always_witness:
  "fileserver_ok demo_http
   \<and> map_of (rp_Headers (fst (serve demo_http demo_api_env (demo_request ''GET'' ''/missing'' []) demo_server))) ''Cache-Control'' = Some ''no-store''"
  using demo_fileserver_ok admin_headers_always [OF demo_fileserver_ok, of demo_api_env "demo_request ''GET'' ''/missing'' []" demo_server]
  by (simp add: securityHeaders_def)

text \<open>an audit line holds no more of the requester than the query log would: a request adds at most one line, and the
  address in it is the one masked with \<open>query_log.clients\<close>, and is absent unless \<open>query_log.mode\<close> records queries.\<close>

theorem audit_masks_requester:
  "\<exists>new. sv_audit (snd (serve H E r s)) = sv_audit s @ new \<and> length new \<le> 1
     \<and> list_all (\<lambda>a. au_client a = None \<or> (pi_Mode (sv_privacy s) \<in> {''all'', ''blocked''}
          \<and> au_client a = Some (MaskClientIP (hl_T H) (clientIP r) (pi_Clients (sv_privacy s))))) new"
proof -
  have masked: "au_client (auditAttrs H r d s) = None \<or> (pi_Mode (sv_privacy s) \<in> {''all'', ''blocked''}
          \<and> au_client (auditAttrs H r d s) = Some (MaskClientIP (hl_T H) (clientIP r) (pi_Clients (sv_privacy s))))" for d
    by (auto simp: auditAttrs_def Let_def)
  from serve_audit [of H E r s] show ?thesis
  proof (elim disjE exE)
    fix d assume "sv_audit (snd (serve H E r s)) = sv_audit s @ [auditAttrs H r d s]"
    then show ?thesis using masked [of d] by (intro exI [of _ "[auditAttrs H r d s]"]) simp
  qed (intro exI [of _ "[]"], simp)
qed

text \<open>whatever \<open>?window=\<close> and \<open>?bucket=\<close> say, the history is asked for buckets of at least a minute that fit in the
  window, a window of at most 30 days, and at most 1000 buckets; so the division by the bucket cannot fail.\<close>

theorem history_params_bounded:
  "case parseHistoryParams H r of (window, bucket) \<Rightarrow>
     minute \<le> bucket \<and> bucket \<le> window \<and> window \<le> 30 * 24 * hour \<and> go_div window bucket \<le> 1000"
  using clampHistory_bounds by (simp add: parseHistoryParams_def split: prod.split)

end
