(* ===== verification/Runs.thy ===== *)
theory Runs
  imports Main
begin

text \<open>
  Runs of labelled step relations, shared by the theories that model interleavings (the reload gate, the
  process, the admin server, the connection limit). A run is the list of its labels, so that a property
  can speak of the order of events. The locale \<open>stable\<close> is the contract of an invariant: it is
  interpreted on each step relation of the model.
\<close>

inductive run_of :: "('s \<Rightarrow> 'e \<Rightarrow> 's \<Rightarrow> bool) \<Rightarrow> 's \<Rightarrow> 'e list \<Rightarrow> 's \<Rightarrow> bool"
  for step where
  run_Nil [intro!, simp]: "run_of step s [] s"
| run_Cons: "step s e t \<Longrightarrow> run_of step t tr u \<Longrightarrow> run_of step s (e # tr) u"

inductive_simps run_Nil_iff [simp]: "run_of step s [] u"
inductive_simps run_Cons_iff [simp]: "run_of step s (e # tr) u"

lemma run_append: "run_of step s (xs @ ys) u \<longleftrightarrow> (\<exists>t. run_of step s xs t \<and> run_of step t ys u)"
  by (induction xs arbitrary: s) auto

lemma run_snoc: "run_of step s (xs @ [e]) u \<longleftrightarrow> (\<exists>t. run_of step s xs t \<and> step t e u)"
  by (auto simp: run_append)

lemma run_split:
  assumes "run_of step s (xs @ e # ys) u"
  obtains t t' where "run_of step s xs t" "step t e t'" "run_of step t' ys u"
  using assms by (auto simp: run_append)

locale stable =
  fixes step :: "'s \<Rightarrow> 'e \<Rightarrow> 's \<Rightarrow> bool" and inv :: "'s \<Rightarrow> bool"
  assumes kept: "inv s \<Longrightarrow> step s e t \<Longrightarrow> inv t"
begin

lemma kept_run: "run_of step s tr t \<Longrightarrow> inv s \<Longrightarrow> inv t"
  by (induction rule: run_of.induct) (auto intro: kept)

text \<open>Every state along a run that starts in the invariant has it, so each label is enabled in such a state.\<close>

lemma kept_label:
  assumes "run_of step s tr u" "inv s" "e \<in> set tr"
  shows "\<exists>t t'. inv t \<and> step t e t'"
  using assms by (induction rule: run_of.induct) (auto intro: kept)

end

text \<open>A measure that every step decreases bounds the length of the runs.\<close>

locale decreasing = stable step inv
  for step :: "'s \<Rightarrow> 'e \<Rightarrow> 's \<Rightarrow> bool" and inv +
  fixes weight :: "'s \<Rightarrow> nat"
  assumes decrease: "inv s \<Longrightarrow> step s e t \<Longrightarrow> weight t < weight s"
begin

lemma run_bounded: "run_of step s tr t \<Longrightarrow> inv s \<Longrightarrow> length tr + weight t \<le> weight s"
proof (induction rule: run_of.induct)
  case (run_Cons s e t tr u)
  then have "length tr + weight u \<le> weight t" "weight t < weight s" by (blast intro: kept decrease)+
  then show ?case by simp
qed simp

lemma drains: "inv s \<Longrightarrow> \<exists>tr t. run_of step s tr t \<and> (\<nexists>e u. step t e u)"
proof (induction "weight s" arbitrary: s rule: less_induct)
  case less
  show ?case
  proof (cases "\<exists>e t. step s e t")
    case True
    then obtain e t where st: "step s e t" by blast
    have "weight t < weight s" "inv t" using decrease [OF less.prems st] kept [OF less.prems st] by auto
    from less.hyps [OF this] show ?thesis using st by (blast intro: run_Cons)
  qed (blast intro: run_Nil)
qed

end

end
