(* ===== verification/Reload_Gate.thy ===== *)
theory Reload_Gate
  imports Runs "HOL-Library.Multiset"
begin

text \<open>
  The single-flight gate of the reloads, \<open>newReloadFn\<close> in \<open>src/cmd/s-hole/main.go\<close>. The record \<open>gate\<close> holds
  the variables that the mutex guards, the wait group's counter and whether the context is cancelled. The
  mutex makes \<open>reload\<close>, \<open>stop\<close> and the end of a pass atomic, so each is one function on the gate. The
  goroutines that \<open>reload\<close> starts are the list of workers; \<open>gate_step\<close> interleaves them with the callers.
\<close>

section \<open>Model\<close>

record gate =
  gt_running :: bool
  gt_queued :: bool
  gt_closed :: bool
  gt_cancelled :: bool       \<comment> \<open>\<open>ctx.Err() != nil\<close>\<close>
  gt_wg :: nat

definition newReloadFn :: gate where
  "newReloadFn = \<lparr>gt_running = False, gt_queued = False, gt_closed = False, gt_cancelled = False, gt_wg = 0\<rparr>"

definition stop_reloads :: "gate \<Rightarrow> gate" where
  "stop_reloads g = g\<lparr>gt_closed := True\<rparr>"

definition cancel_run :: "gate \<Rightarrow> gate" where
  "cancel_run g = g\<lparr>gt_cancelled := True\<rparr>"

text \<open>\<open>reload_fn\<close> returns whether it started a goroutine, whose first pass begins then.\<close>

definition reload_fn :: "gate \<Rightarrow> gate \<times> bool" where
  "reload_fn g =
     (if gt_closed g \<or> gt_cancelled g then (g, False)
      else if gt_running g then (g\<lparr>gt_queued := True\<rparr>, False)
      else (g\<lparr>gt_running := True, gt_wg := gt_wg g + 1\<rparr>, True))"

text \<open>The part of the loop after \<open>work()\<close>: whether the goroutine makes one more pass.\<close>

definition next_pass :: "gate \<Rightarrow> gate \<times> bool" where
  "next_pass g =
     (let again = gt_queued g \<and> \<not> gt_closed g \<and> \<not> gt_cancelled g;
          g1 = g\<lparr>gt_queued := False\<rparr>
      in (if again then g1 else g1\<lparr>gt_running := False\<rparr>, again))"

definition wg_done :: "gate \<Rightarrow> gate" where
  "wg_done g = g\<lparr>gt_wg := gt_wg g - 1\<rparr>"

text \<open>A goroutine is inside \<open>work()\<close>, or has left the loop and still owes the deferred \<open>wg.Done\<close>.\<close>

datatype worker = Working | Leaving

record reloads =
  rl_gate :: gate
  rl_workers :: "worker list"

definition no_reloads :: reloads where
  "no_reloads = \<lparr>rl_gate = newReloadFn, rl_workers = []\<rparr>"

datatype gate_event =
    Request bool             \<comment> \<open>a call of \<open>reload\<close> and its result\<close>
  | Pass_end nat bool        \<comment> \<open>the pass of a goroutine ends, and whether it starts another\<close>
  | Worker_exit nat          \<comment> \<open>its \<open>wg.Done\<close>\<close>
  | Cancel_ctx
  | Close_gate

definition without :: "nat \<Rightarrow> 'a list \<Rightarrow> 'a list" where
  "without i xs = take i xs @ drop (Suc i) xs"

inductive gate_step :: "reloads \<Rightarrow> gate_event \<Rightarrow> reloads \<Rightarrow> bool" where
  gate_request: "reload_fn (rl_gate s) = (g, r) \<Longrightarrow>
     gate_step s (Request r) \<lparr>rl_gate = g, rl_workers = rl_workers s @ (if r then [Working] else [])\<rparr>"
| gate_pass: "i < length (rl_workers s) \<Longrightarrow> rl_workers s ! i = Working \<Longrightarrow> next_pass (rl_gate s) = (g, again) \<Longrightarrow>
     gate_step s (Pass_end i again)
       \<lparr>rl_gate = g, rl_workers = (rl_workers s)[i := (if again then Working else Leaving)]\<rparr>"
| gate_exit: "i < length (rl_workers s) \<Longrightarrow> rl_workers s ! i = Leaving \<Longrightarrow>
     gate_step s (Worker_exit i) \<lparr>rl_gate = wg_done (rl_gate s), rl_workers = without i (rl_workers s)\<rparr>"
| gate_cancel: "gate_step s Cancel_ctx (s\<lparr>rl_gate := cancel_run (rl_gate s)\<rparr>)"
| gate_close: "gate_step s Close_gate (s\<lparr>rl_gate := stop_reloads (rl_gate s)\<rparr>)"

inductive_cases gate_stepE: "gate_step s e t"
inductive_simps gate_step_request: "gate_step s (Request r) t"
inductive_simps gate_step_pass: "gate_step s (Pass_end i a) t"
inductive_simps gate_step_exit: "gate_step s (Worker_exit i) t"

text \<open>The steps of the goroutines alone, with no new caller.\<close>

fun of_worker :: "gate_event \<Rightarrow> bool" where
  "of_worker (Pass_end _ _) = True"
| "of_worker (Worker_exit _) = True"
| "of_worker _ = False"

definition worker_step :: "reloads \<Rightarrow> gate_event \<Rightarrow> reloads \<Rightarrow> bool" where
  "worker_step s e t \<longleftrightarrow> of_worker e \<and> gate_step s e t"

text \<open>An event that begins a pass of \<open>work\<close>.\<close>

fun starts_pass :: "gate_event \<Rightarrow> bool" where
  "starts_pass (Request r) = r"
| "starts_pass (Pass_end _ again) = again"
| "starts_pass _ = False"

section \<open>Invariant\<close>

definition passes :: "reloads \<Rightarrow> nat" where
  "passes s = count_list (rl_workers s) Working"

definition gate_ok :: "reloads \<Rightarrow> bool" where
  "gate_ok s \<longleftrightarrow> gt_wg (rl_gate s) = length (rl_workers s)
     \<and> passes s = (if gt_running (rl_gate s) then 1 else 0)
     \<and> (gt_queued (rl_gate s) \<longrightarrow> gt_running (rl_gate s))"

definition shut :: "reloads \<Rightarrow> bool" where
  "shut s \<longleftrightarrow> gt_closed (rl_gate s) \<or> gt_cancelled (rl_gate s)"

lemmas gate_defs = newReloadFn_def stop_reloads_def cancel_run_def reload_fn_def next_pass_def wg_done_def Let_def

lemma count_update:
  "i < length xs \<Longrightarrow> count_list (xs[i := y]) x + (if xs ! i = x then 1 else 0)
     = count_list xs x + (if y = x then 1 else 0)"
proof (induction xs arbitrary: i)
  case (Cons a xs)
  show ?case
  proof (cases i)
    case (Suc j)
    then show ?thesis using Cons.IH [of j] Cons.prems by auto
  qed simp
qed simp

lemma count_without:
  assumes "i < length xs"
  shows "count_list (without i xs) x + (if xs ! i = x then 1 else 0) = count_list xs x"
  using arg_cong [OF id_take_nth_drop [OF assms], of "\<lambda>l. count_list l x"] by (auto simp: without_def)

lemma length_without: "i < length xs \<Longrightarrow> length (without i xs) = length xs - 1"
  by (auto simp: without_def)

lemma worker_counts:
  assumes "i < length xs"
  shows "xs ! i = Working \<Longrightarrow> xs[i := Working] = xs"
    and "xs ! i = Working \<Longrightarrow> count_list (xs[i := Leaving]) Working = count_list xs Working - 1"
    and "xs ! i = Leaving \<Longrightarrow> count_list (without i xs) Working = count_list xs Working"
  using count_update [OF assms, of Leaving Working] count_without [OF assms, of Working]
  by (auto simp: list_update_same_conv [OF assms])

lemma working_in: "i < length xs \<Longrightarrow> xs ! i = Working \<Longrightarrow> count_list xs Working > 0"
  by (metis count_list_0_iff gr0I nth_mem)

lemma gate_ok_init [simp]: "gate_ok no_reloads"
  by (simp add: gate_ok_def no_reloads_def gate_defs passes_def)

lemma gate_ok_step: "gate_ok s \<Longrightarrow> gate_step s e t \<Longrightarrow> gate_ok t"
  by (auto simp: gate_ok_def passes_def gate_defs worker_counts length_without split: if_splits
      dest: working_in elim!: gate_stepE)

interpretation gate_inv: stable gate_step gate_ok
  by unfold_locales (rule gate_ok_step)

section \<open>Draining\<close>

definition drain_weight :: "reloads \<Rightarrow> nat" where
  "drain_weight s = passes s + length (rl_workers s) + (if gt_queued (rl_gate s) then 1 else 0)"

lemma worker_step_less: "gate_ok s \<Longrightarrow> worker_step s e t \<Longrightarrow> drain_weight t < drain_weight s"
  by (auto simp: worker_step_def drain_weight_def gate_ok_def passes_def gate_defs worker_counts length_without
      split: if_splits dest: working_in elim!: gate_stepE)

interpretation drain: decreasing worker_step gate_ok drain_weight
  by unfold_locales (auto simp: worker_step_def intro: gate_ok_step worker_step_less)

lemma worker_progress: "rl_workers s \<noteq> [] \<Longrightarrow> \<exists>e t. worker_step s e t"
proof -
  assume "rl_workers s \<noteq> []"
  then have i: "0 < length (rl_workers s)" by simp
  obtain g again where n: "next_pass (rl_gate s) = (g, again)" by fastforce
  show ?thesis
  proof (cases "rl_workers s ! 0")
    case Working
    then show ?thesis using gate_pass [OF i Working n] by (auto simp: worker_step_def intro: exI [of _ "Pass_end 0 again"])
  next
    case Leaving
    then show ?thesis using gate_exit [OF i Leaving] by (auto simp: worker_step_def intro: exI [of _ "Worker_exit 0"])
  qed
qed

lemma worker_stuck:
  assumes "gate_ok s" "\<nexists>e t. worker_step s e t"
  shows "gt_wg (rl_gate s) = 0 \<and> \<not> gt_running (rl_gate s) \<and> \<not> gt_queued (rl_gate s)"
proof -
  have "rl_workers s = []" using worker_progress assms(2) by blast
  then show ?thesis using assms(1) by (auto simp: gate_ok_def passes_def split: if_splits)
qed

section \<open>Requests\<close>

text \<open>A request that did not start a pass waits in the queue until a pass starts.\<close>

lemma queued_waits:
  assumes "gate_step s e t" "gt_queued (rl_gate s)" "\<not> starts_pass e" "e \<noteq> Cancel_ctx" "e \<noteq> Close_gate" "\<not> shut s"
  shows "gt_queued (rl_gate t) \<and> \<not> shut t"
  using assms by (auto simp: gate_defs shut_def split: if_splits elim!: gate_stepE)

lemma open_kept: "gate_step s e t \<Longrightarrow> e \<noteq> Cancel_ctx \<Longrightarrow> e \<noteq> Close_gate \<Longrightarrow> shut t = shut s"
  by (auto simp: gate_defs shut_def split: if_splits elim!: gate_stepE)

lemma open_run: "run_of gate_step s tr t \<Longrightarrow> Cancel_ctx \<notin> set tr \<Longrightarrow> Close_gate \<notin> set tr \<Longrightarrow> shut t = shut s"
  by (induction rule: run_of.induct) (auto simp: open_kept)

lemma queued_run:
  assumes "run_of gate_step s tr t" "gt_queued (rl_gate s)" "\<not> shut s" "Cancel_ctx \<notin> set tr" "Close_gate \<notin> set tr"
    "\<forall>e \<in> set tr. \<not> starts_pass e"
  shows "gt_queued (rl_gate t)"
  using assms by (induction rule: run_of.induct) (use queued_waits in auto)

lemma request_false: "gate_step s (Request False) t \<Longrightarrow> \<not> shut s \<Longrightarrow> gt_queued (rl_gate t) \<and> \<not> shut t"
  by (auto simp: gate_defs shut_def split: if_splits elim!: gate_stepE)

lemma shut_step: "gate_step s e t \<Longrightarrow> shut s \<Longrightarrow> shut t \<and> \<not> starts_pass e \<and> passes t \<le> passes s \<and> gt_wg (rl_gate t) \<le> gt_wg (rl_gate s)"
  by (auto simp: gate_defs shut_def passes_def worker_counts split: if_splits elim!: gate_stepE)

lemma shut_run: "run_of gate_step s tr t \<Longrightarrow> shut s \<Longrightarrow>
   shut t \<and> (\<forall>e \<in> set tr. \<not> starts_pass e) \<and> passes t \<le> passes s \<and> gt_wg (rl_gate t) \<le> gt_wg (rl_gate s)"
  by (induction rule: run_of.induct) (use shut_step in \<open>fastforce+\<close>)

lemma no_worker: "gate_ok s \<Longrightarrow> gt_wg (rl_gate s) = 0 \<Longrightarrow> gate_step s e t \<Longrightarrow> \<not> of_worker e"
  by (auto simp: gate_ok_def elim!: gate_stepE)

section \<open>Properties\<close>

text \<open>C11: Single flight and no lost request. In every run of any number of callers and goroutines at most one pass
  runs at a time, the wait group counts the goroutines that are alive, and a request that is made before
  shutdown is followed by the start of a pass, or one is queued behind the pass that is running.\<close>

theorem reload_not_lost:
  assumes "run_of gate_step no_reloads (before @ Request started # after) s"
    and "Cancel_ctx \<notin> set (before @ after)" and "Close_gate \<notin> set (before @ after)"
  shows "passes s \<le> 1 \<and> gt_wg (rl_gate s) = length (rl_workers s)
     \<and> (started \<or> (\<exists>e \<in> set after. starts_pass e) \<or> gt_queued (rl_gate s) \<and> passes s = 1)"
proof -
  from assms(1) obtain t t' where t: "run_of gate_step no_reloads before t" "gate_step t (Request started) t'"
    "run_of gate_step t' after s" by (rule run_split)
  have ok: "gate_ok s" using gate_inv.kept_run [OF assms(1)] by simp
  have "\<not> shut t" using open_run [OF t(1)] assms(2,3) by (simp add: no_reloads_def gate_defs shut_def)
  then have "gt_queued (rl_gate s)" if "\<not> started" "\<forall>e \<in> set after. \<not> starts_pass e"
    using that queued_run [OF t(3)] request_false [of t t'] t(2) assms(2,3) by auto
  with ok show ?thesis by (auto simp: gate_ok_def split: if_splits)
qed

lemma demo_request:
  "gate_step no_reloads (Request True) \<lparr>rl_gate = newReloadFn\<lparr>gt_running := True, gt_wg := 1\<rparr>, rl_workers = [Working]\<rparr>"
  by (simp add: gate_step_request no_reloads_def gate_defs)

lemma demo_queue:
  "gate_step \<lparr>rl_gate = newReloadFn\<lparr>gt_running := True, gt_wg := 1\<rparr>, rl_workers = [Working]\<rparr> (Request False)
     \<lparr>rl_gate = newReloadFn\<lparr>gt_running := True, gt_queued := True, gt_wg := 1\<rparr>, rl_workers = [Working]\<rparr>"
  by (simp add: gate_step_request gate_defs)

lemma demo_again:
  "gate_step \<lparr>rl_gate = newReloadFn\<lparr>gt_running := True, gt_queued := True, gt_wg := 1\<rparr>, rl_workers = [Working]\<rparr> (Pass_end 0 True)
     \<lparr>rl_gate = newReloadFn\<lparr>gt_running := True, gt_wg := 1\<rparr>, rl_workers = [Working]\<rparr>"
  by (simp add: gate_step_pass gate_defs)

lemma demo_closed:
  "gate_step \<lparr>rl_gate = newReloadFn\<lparr>gt_running := True, gt_wg := 1\<rparr>, rl_workers = [Working]\<rparr> Close_gate
     \<lparr>rl_gate = newReloadFn\<lparr>gt_running := True, gt_closed := True, gt_wg := 1\<rparr>, rl_workers = [Working]\<rparr>"
  by (auto intro!: gate_close [THEN back_subst [where P = "gate_step _ _"]] simp: gate_defs)

lemma demo_ends:
  "run_of gate_step \<lparr>rl_gate = newReloadFn\<lparr>gt_running := True, gt_closed := True, gt_wg := 1\<rparr>, rl_workers = [Working]\<rparr>
     [Request False, Pass_end 0 False, Worker_exit 0] \<lparr>rl_gate = newReloadFn\<lparr>gt_closed := True\<rparr>, rl_workers = []\<rparr>"
  by (simp add: gate_step_request gate_step_pass gate_step_exit gate_defs without_def)

text \<open>A reload starts, a second request is queued, and the running goroutine takes it up.\<close>

theorem reload_not_lost_witness:
  "run_of gate_step no_reloads [Request True, Request False, Pass_end 0 True]
       \<lparr>rl_gate = newReloadFn\<lparr>gt_running := True, gt_wg := 1\<rparr>, rl_workers = [Working]\<rparr>
   \<and> (\<exists>e \<in> set [Pass_end 0 True]. starts_pass e)"
proof -
  have r: "run_of gate_step no_reloads [Request True, Request False, Pass_end 0 True]
       \<lparr>rl_gate = newReloadFn\<lparr>gt_running := True, gt_wg := 1\<rparr>, rl_workers = [Working]\<rparr>"
    using demo_request demo_queue demo_again by (blast intro: run_Cons run_Nil)
  then show ?thesis using reload_not_lost [of "[Request True]" False "[Pass_end 0 True]"] by (simp del: run_Cons_iff)
qed

text \<open>C12: The goroutines end. From every reachable state, the steps of the goroutines alone come to an end after
  at most as many steps as passes, goroutines and queued requests; where none is left the wait group is at zero
  and neither a pass nor a queued request remains. So a queued request does get its pass.\<close>

theorem reloads_drain:
  assumes "run_of gate_step no_reloads tr s"
  shows "(\<forall>q t. run_of worker_step s q t \<longrightarrow> length q \<le> drain_weight s
       \<and> ((\<nexists>e u. worker_step t e u) \<longrightarrow> gt_wg (rl_gate t) = 0 \<and> \<not> gt_running (rl_gate t) \<and> \<not> gt_queued (rl_gate t)))
     \<and> (\<exists>q t. run_of worker_step s q t \<and> (\<nexists>e u. worker_step t e u))"
proof -
  have ok: "gate_ok s" using gate_inv.kept_run [OF assms] by simp
  have "length q \<le> drain_weight s" "gate_ok t" if "run_of worker_step s q t" for q t
    using drain.run_bounded [OF that ok] drain.kept_run [OF that ok] by auto
  then show ?thesis using worker_stuck drain.drains [OF ok] by blast
qed

theorem reloads_drain_witness:
  "run_of gate_step no_reloads [Request True] \<lparr>rl_gate = newReloadFn\<lparr>gt_running := True, gt_wg := 1\<rparr>, rl_workers = [Working]\<rparr>
   \<and> (\<exists>q t. run_of worker_step \<lparr>rl_gate = newReloadFn\<lparr>gt_running := True, gt_wg := 1\<rparr>, rl_workers = [Working]\<rparr> q t
        \<and> length q \<le> 2 \<and> gt_wg (rl_gate t) = 0)"
proof -
  let ?s = "\<lparr>rl_gate = newReloadFn\<lparr>gt_running := True, gt_wg := 1\<rparr>, rl_workers = [Working]\<rparr>"
  have r: "run_of gate_step no_reloads [Request True] ?s" using demo_request by (blast intro: run_Cons run_Nil)
  have "drain_weight ?s = 2" by (simp add: drain_weight_def passes_def gate_defs)
  then show ?thesis using r reloads_drain [OF r] by metis
qed

text \<open>The gate stays closed. After \<open>stop\<close> or the cancellation no pass starts, whatever is requested and
  however the goroutines run on; once the wait group has reached zero after that, no goroutine runs again.\<close>

theorem no_pass_after_stop:
  assumes "run_of gate_step no_reloads (before @ e # after) s" and "e = Close_gate \<or> e = Cancel_ctx"
  shows "(\<forall>x \<in> set after. \<not> starts_pass x)
     \<and> (\<forall>later t. gt_wg (rl_gate s) = 0 \<longrightarrow> run_of gate_step s later t \<longrightarrow>
          gt_wg (rl_gate t) = 0 \<and> list_all (\<lambda>x. \<not> of_worker x) later)"
proof -
  from assms(1) obtain u u' where u: "run_of gate_step no_reloads before u" "gate_step u e u'" "run_of gate_step u' after s"
    by (rule run_split)
  have shut: "shut u'" using u(2) assms(2) by (auto simp: shut_def gate_defs elim!: gate_stepE)
  have s: "shut s" "gate_ok s" using shut_run [OF u(3) shut] gate_inv.kept_run [OF assms(1)] by auto
  have "gt_wg (rl_gate t) = 0 \<and> list_all (\<lambda>x. \<not> of_worker x) later"
    if "run_of gate_step s later t" "gt_wg (rl_gate s) = 0" for later t
    using that s
  proof (induction rule: run_of.induct)
    case (run_Cons s e t tr u)
    then show ?case using shut_step [of s e t] gate_ok_step [of s e t] no_worker [of s e t] by auto
  qed simp
  then show ?thesis using shut_run [OF u(3) shut] by blast
qed

theorem no_pass_after_stop_witness:
  "run_of gate_step no_reloads [Request True, Close_gate, Request False, Pass_end 0 False, Worker_exit 0]
       \<lparr>rl_gate = newReloadFn\<lparr>gt_closed := True\<rparr>, rl_workers = []\<rparr>
   \<and> (\<forall>later t. run_of gate_step \<lparr>rl_gate = newReloadFn\<lparr>gt_closed := True\<rparr>, rl_workers = []\<rparr> later t \<longrightarrow> gt_wg (rl_gate t) = 0)"
proof -
  have r: "run_of gate_step no_reloads ([Request True] @ Close_gate # [Request False, Pass_end 0 False, Worker_exit 0])
       \<lparr>rl_gate = newReloadFn\<lparr>gt_closed := True\<rparr>, rl_workers = []\<rparr>"
    using demo_request demo_closed demo_ends by (auto simp del: run_Cons_iff intro: run_Cons)
  have "gt_wg (rl_gate \<lparr>rl_gate = newReloadFn\<lparr>gt_closed := True\<rparr>, rl_workers = []\<rparr>) = 0" by (simp add: gate_defs)
  then show ?thesis using no_pass_after_stop [OF r] r by (simp del: run_Cons_iff)
qed

end
