(* ===== verification/Process_Life.thy ===== *)
theory Process_Life
  imports Reload_Gate "HOL-Library.Sublist"
begin

text \<open>
  The life of the process from the moment its parts are started: \<open>shutdown\<close>, \<open>doStop\<close>, \<open>blockUntilStopped\<close>
  and \<open>waitWithDeadline\<close> of \<open>src/cmd/s-hole/main.go\<close>, and the start and stop of the admin server, \<open>Serve\<close> and
  \<open>Shutdown\<close> of \<open>src/internal/api/api.go\<close>. Both are step relations on small states: every goroutine of the
  program is a rule, and a run is the list of the events in the order in which they happen.
\<close>

section \<open>The process\<close>

subsection \<open>Model\<close>

text \<open>The calls of \<open>shutdown\<close> in its order. \<open>waitForReload\<close> is two calls, \<open>stopReloads\<close> and \<open>waitWithDeadline\<close>;
  the last one is the \<open>close(done)\<close> of \<open>doStop\<close>.\<close>

datatype teardown = CancelTickers | LogStats | StopDNS | DrainHTTP | StopReloads | WaitReload
  | CloseCache | CloseFileLog | CloseDB | CloseDone

definition shutdown_calls :: "teardown list" where
  "shutdown_calls = [CancelTickers, LogStats, StopDNS, DrainHTTP, StopReloads, WaitReload, CloseCache, CloseFileLog, CloseDB, CloseDone]"

text \<open>\<open>main\<close> in \<open>blockUntilStopped\<close>: in the \<open>select\<close>, or in the branch of a serve error; under the Windows service manager
  in \<open>service.Run\<close>: in the \<open>select\<close> of \<open>Execute\<close>, or in its call of \<open>stop\<close>; or gone with an exit code.\<close>

datatype main_state = Blocked | Stopping | In_service | Service_stopping | Exited nat

record process =
  pr_reloads :: reloads
  pr_todo :: "teardown list option"     \<comment> \<open>the calls \<open>doStop\<close> has left, \<open>None\<close> before its first call\<close>
  pr_done :: bool                       \<comment> \<open>\<open>done\<close> is closed\<close>
  pr_main :: main_state

definition started :: "bool \<Rightarrow> process" where
  "started scm = \<lparr>pr_reloads = no_reloads, pr_todo = None, pr_done = False, pr_main = (if scm then In_service else Blocked)\<rparr>"

text \<open>\<open>stopOnce.Do\<close>: only the first call runs the teardown.\<close>

definition doStop :: "process \<Rightarrow> process" where
  "doStop p = (case pr_todo p of None \<Rightarrow> p\<lparr>pr_todo := Some shutdown_calls\<rparr> | Some _ \<Rightarrow> p)"

definition on_gate :: "(gate \<Rightarrow> gate) \<Rightarrow> process \<Rightarrow> process" where
  "on_gate f p = p\<lparr>pr_reloads := (pr_reloads p)\<lparr>rl_gate := f (rl_gate (pr_reloads p))\<rparr>\<rparr>"

text \<open>The effect of a call on the state; a failed drain or close is logged and the next call follows.\<close>

fun teardown_effect :: "teardown \<Rightarrow> process \<Rightarrow> process" where
  "teardown_effect CancelTickers p = on_gate cancel_run p"
| "teardown_effect StopReloads p = on_gate stop_reloads p"
| "teardown_effect CloseDone p = p\<lparr>pr_done := True\<rparr>"
| "teardown_effect _ p = p"

text \<open>\<open>waitWithDeadline\<close> returns when the wait group is at zero, or at the deadline, which is the outcome \<open>False\<close>.\<close>

definition may_return :: "teardown \<Rightarrow> bool \<Rightarrow> process \<Rightarrow> bool" where
  "may_return a ok p \<longleftrightarrow> a = WaitReload \<and> ok \<longrightarrow> gt_wg (rl_gate (pr_reloads p)) = 0"

datatype proc_event =
    Reload_event gate_event             \<comment> \<open>a caller of the reload function or a goroutine of it\<close>
  | Query                               \<comment> \<open>the DNS handler works on a query: cache, loggers, counters\<close>
  | Admin_request                       \<comment> \<open>the admin server works on a request\<close>
  | Stop_signal                         \<comment> \<open>a signal calls \<open>doStop\<close>\<close>
  | Serve_failed                        \<comment> \<open>\<open>blockUntilStopped\<close> or \<open>Execute\<close> receives a serve error\<close>
  | Serve_ended                         \<comment> \<open>\<open>Execute\<close> receives the clean end of \<open>Start\<close>, which only \<open>stopDNS\<close> causes\<close>
  | Scm_stop                            \<comment> \<open>\<open>Execute\<close> receives a stop or shutdown control\<close>
  | Run_failed                          \<comment> \<open>\<open>svc.Run\<close> returns an error and \<open>main\<close> calls \<open>os.Exit(1)\<close>\<close>
  | Teardown teardown bool              \<comment> \<open>a call of \<open>shutdown\<close> returns, and whether without an error\<close>
  | Exit nat

inductive proc_step :: "process \<Rightarrow> proc_event \<Rightarrow> process \<Rightarrow> bool" where
  proc_reload: "\<nexists>c. pr_main p = Exited c \<Longrightarrow> gate_step (pr_reloads p) e r \<Longrightarrow> e \<noteq> Cancel_ctx \<Longrightarrow> e \<noteq> Close_gate \<Longrightarrow>
     proc_step p (Reload_event e) (p\<lparr>pr_reloads := r\<rparr>)"
| proc_query: "\<nexists>c. pr_main p = Exited c \<Longrightarrow> proc_step p Query p"
| proc_admin: "\<nexists>c. pr_main p = Exited c \<Longrightarrow> proc_step p Admin_request p"
| proc_signal: "\<nexists>c. pr_main p = Exited c \<Longrightarrow> proc_step p Stop_signal (doStop p)"
| proc_failed: "pr_main p = Blocked \<Longrightarrow> proc_step p Serve_failed ((doStop p)\<lparr>pr_main := Stopping\<rparr>)"
| proc_scm_failed: "pr_main p = In_service \<Longrightarrow> proc_step p Serve_failed ((doStop p)\<lparr>pr_main := Service_stopping\<rparr>)"
| proc_scm_ended: "pr_main p = In_service \<Longrightarrow> pr_todo p = Some rest \<Longrightarrow> StopDNS \<notin> set rest \<Longrightarrow>
     proc_step p Serve_ended ((doStop p)\<lparr>pr_main := Service_stopping\<rparr>)"
| proc_scm_stop: "pr_main p = In_service \<Longrightarrow> proc_step p Scm_stop ((doStop p)\<lparr>pr_main := Service_stopping\<rparr>)"
| proc_run_failed: "pr_main p \<in> {In_service, Service_stopping} \<Longrightarrow> proc_step p Run_failed (p\<lparr>pr_main := Exited 1\<rparr>)"
| proc_teardown: "\<nexists>c. pr_main p = Exited c \<Longrightarrow> pr_todo p = Some (a # rest) \<Longrightarrow> may_return a ok p \<Longrightarrow>
     proc_step p (Teardown a ok) ((teardown_effect a p)\<lparr>pr_todo := Some rest\<rparr>)"
| proc_exit0: "pr_main p = Blocked \<Longrightarrow> pr_done p \<Longrightarrow> proc_step p (Exit 0) (p\<lparr>pr_main := Exited 0\<rparr>)"
| proc_exit_scm: "pr_main p = Service_stopping \<Longrightarrow> pr_done p \<Longrightarrow> proc_step p (Exit 0) (p\<lparr>pr_main := Exited 0\<rparr>)"
| proc_exit1: "pr_main p = Stopping \<Longrightarrow> pr_done p \<Longrightarrow> proc_step p (Exit 1) (p\<lparr>pr_main := Exited 1\<rparr>)"

inductive_cases proc_stepE: "proc_step p e q"
inductive_simps proc_step_teardown: "proc_step p (Teardown a ok) q"
inductive_simps proc_step_query: "proc_step p Query q"
inductive_simps proc_step_signal: "proc_step p Stop_signal q"
inductive_simps proc_step_reload: "proc_step p (Reload_event e) q"
inductive_simps proc_step_exit: "proc_step p (Exit c) q"

lemmas proc_steps = proc_step_teardown proc_step_query proc_step_signal proc_step_reload proc_step_exit

text \<open>The calls of \<open>shutdown\<close> that a run shows, in order.\<close>

definition calls :: "proc_event list \<Rightarrow> teardown list" where
  "calls tr = concat (map (\<lambda>e. case e of Teardown a _ \<Rightarrow> [a] | _ \<Rightarrow> []) tr)"

text \<open>What the program relies on. \<open>dns.Server.Shutdown\<close> of the DNS library returns when no handler runs, and the
  closed sockets bring no query; \<open>http.Server.Shutdown\<close> without an error has drained every request.\<close>

definition dns_stops :: "proc_event list \<Rightarrow> bool" where
  "dns_stops tr \<longleftrightarrow> (\<forall>a ok b. tr = a @ Teardown StopDNS ok # b \<longrightarrow> Query \<notin> set b)"

definition http_drains :: "proc_event list \<Rightarrow> bool" where
  "http_drains tr \<longleftrightarrow> (\<forall>a b. tr = a @ Teardown DrainHTTP True # b \<longrightarrow> Admin_request \<notin> set b)"

subsection \<open>Invariant\<close>

lemma calls_simps [simp]: "calls [] = []" "calls (xs @ ys) = calls xs @ calls ys"
  "calls (e # xs) = (case e of Teardown a _ \<Rightarrow> [a] | _ \<Rightarrow> []) @ calls xs"
  by (auto simp: calls_def)

text \<open>The calls seen so far and the calls left are together the calls of \<open>shutdown\<close>, and \<open>done\<close> is closed after all.\<close>

definition in_order :: "teardown list \<Rightarrow> process \<Rightarrow> bool" where
  "in_order done p \<longleftrightarrow> (case pr_todo p of None \<Rightarrow> done = [] | Some rest \<Rightarrow> done @ rest = shutdown_calls)
     \<and> (pr_done p \<longleftrightarrow> pr_todo p = Some [])"

lemma doStop_simps [simp]:
  "pr_reloads (doStop p) = pr_reloads p" "pr_done (doStop p) = pr_done p" "pr_main (doStop p) = pr_main p"
  "pr_todo (doStop p) = Some (case pr_todo p of None \<Rightarrow> shutdown_calls | Some r \<Rightarrow> r)"
  by (auto simp: doStop_def split: option.splits)

lemma on_gate_simps [simp]:
  "pr_done (on_gate f p) = pr_done p" "pr_main (on_gate f p) = pr_main p" "pr_todo (on_gate f p) = pr_todo p"
  "pr_reloads (on_gate f p) = (pr_reloads p)\<lparr>rl_gate := f (rl_gate (pr_reloads p))\<rparr>"
  by (auto simp: on_gate_def)

lemma effect_simps [simp]: "pr_main (teardown_effect a p) = pr_main p" "pr_todo (teardown_effect a p) = pr_todo p"
  "pr_done (teardown_effect a p) = (pr_done p \<or> a = CloseDone)"
  by (cases a; simp)+

lemma split_calls:
  assumes "done @ a # rest = shutdown_calls"
  shows "a = CloseDone \<longleftrightarrow> rest = []"
proof -
  have "distinct (done @ a # rest)" "last (done @ a # rest) = CloseDone" using assms by (simp_all add: shutdown_calls_def)
  then show ?thesis by (cases rest rule: rev_cases) auto
qed

lemma in_order_step:
  assumes "in_order (calls tr) p" "proc_step p e q"
  shows "in_order (calls (tr @ [e])) q"
  using assms(2)
proof (cases rule: proc_step.cases)
  case (proc_teardown a rest ok)
  then have "calls tr @ a # rest = shutdown_calls" "\<not> pr_done p" using assms(1) by (auto simp: in_order_def)
  then show ?thesis using proc_teardown split_calls [of "calls tr" a rest] by (auto simp: in_order_def)
qed (use assms(1) in \<open>auto simp: in_order_def shutdown_calls_def split: option.splits\<close>)

lemma in_order_run: "run_of proc_step (started scm) tr p \<Longrightarrow> in_order (calls tr) p"
proof (induction tr arbitrary: p rule: rev_induct)
  case Nil
  then show ?case by (simp add: in_order_def started_def)
next
  case (snoc e tr)
  then obtain t where "run_of proc_step (started scm) tr t" "proc_step t e p" by (auto simp: run_snoc)
  then show ?case using snoc.IH in_order_step by blast
qed

lemma gate_of_effect:
  "pr_reloads (teardown_effect a p) = pr_reloads p
   \<or> gate_step (pr_reloads p) Cancel_ctx (pr_reloads (teardown_effect a p))
   \<or> gate_step (pr_reloads p) Close_gate (pr_reloads (teardown_effect a p))"
  using gate_cancel [of "pr_reloads p"] gate_close [of "pr_reloads p"] by (cases a) auto

text \<open>The reloads of a process make steps of the gate, so the gate's invariant holds, and a shut gate stays shut.\<close>

lemma proc_gate: "proc_step p e q \<Longrightarrow> pr_reloads q = pr_reloads p \<or> (\<exists>g. gate_step (pr_reloads p) g (pr_reloads q))"
  using gate_of_effect by (fastforce elim!: proc_stepE)

definition gate_quiet :: "process \<Rightarrow> bool" where
  "gate_quiet p \<longleftrightarrow> gate_ok (pr_reloads p) \<and> shut (pr_reloads p) \<and> gt_wg (rl_gate (pr_reloads p)) = 0"

interpretation proc_gate_inv: stable proc_step "\<lambda>p. gate_ok (pr_reloads p)"
  by unfold_locales (use proc_gate gate_ok_step in metis)

interpretation proc_shut: stable proc_step "\<lambda>p. shut (pr_reloads p)"
  by unfold_locales (use proc_gate shut_step in metis)

interpretation proc_quiet: stable proc_step gate_quiet
proof
  fix p e q assume "gate_quiet p" "proc_step p e q"
  then show "gate_quiet q" using proc_gate [of p e q] gate_ok_step shut_step unfolding gate_quiet_def
    by (metis le_zero_eq)
qed

lemma quiet_no_worker: "gate_quiet p \<Longrightarrow> proc_step p (Reload_event e) q \<Longrightarrow> \<not> of_worker e"
  using no_worker by (auto simp: gate_quiet_def elim!: proc_stepE)

lemma called_split: "a \<in> set (calls tr) \<Longrightarrow> \<exists>x ok y. tr = x @ Teardown a ok # y"
  by (auto simp: calls_def split: proc_event.splits dest!: split_list)

lemma shut_after_cancel:
  assumes "run_of proc_step (started scm) tr p" "CancelTickers \<in> set (calls tr)"
  shows "shut (pr_reloads p)"
proof -
  obtain x ok y where "tr = x @ Teardown CancelTickers ok # y" using called_split assms(2) by blast
  then obtain s t where st: "proc_step s (Teardown CancelTickers ok) t" "run_of proc_step t y p"
    using assms(1) run_split [of proc_step "started scm" x] by metis
  then have "shut (pr_reloads t)" by (auto elim!: proc_stepE simp: shut_def cancel_run_def)
  with st(2) show ?thesis by (rule proc_shut.kept_run)
qed

lemma prior_calls:
  assumes "run_of proc_step (started scm) (x @ Teardown a ok # y) p"
  shows "calls x = takeWhile (\<lambda>b. b \<noteq> a) shutdown_calls"
proof -
  from assms obtain s t where s: "run_of proc_step (started scm) x s" "proc_step s (Teardown a ok) t" by (rule run_split)
  then obtain rest where "pr_todo s = Some (a # rest)" by (auto elim!: proc_stepE)
  then have r: "calls x @ a # rest = shutdown_calls" using in_order_run [OF s(1)] by (auto simp: in_order_def)
  have "distinct (calls x @ a # rest)" unfolding r by (simp add: shutdown_calls_def)
  then have "takeWhile (\<lambda>b. b \<noteq> a) (calls x @ a # rest) = calls x" by (subst takeWhile_append2) auto
  then show ?thesis by (simp add: r)
qed

text \<open>After a successful wait the gate is closed and no goroutine is left.\<close>

lemma quiet_after_wait:
  assumes "run_of proc_step (started scm) tr p" "Teardown WaitReload True \<in> set tr"
  shows "gate_quiet p"
proof -
  obtain x y where tr: "tr = x @ Teardown WaitReload True # y" using split_list [OF assms(2)] by blast
  from assms(1) obtain s t where st: "run_of proc_step (started scm) x s" "proc_step s (Teardown WaitReload True) t" "run_of proc_step t y p"
    unfolding tr by (rule run_split)
  have "CancelTickers \<in> set (calls x)" using prior_calls [of scm x WaitReload True y p] assms(1) tr by (simp add: shutdown_calls_def)
  then have "shut (pr_reloads s)" using shut_after_cancel st(1) by blast
  moreover have "gate_ok (pr_reloads s)" using proc_gate_inv.kept_run [OF st(1)] by (simp add: started_def)
  ultimately have "gate_quiet t" using st(2) by (auto simp: gate_quiet_def may_return_def elim!: proc_stepE)
  with st(3) show ?thesis by (rule proc_quiet.kept_run)
qed

lemma exit_all: "run_of proc_step (started scm) tr p \<Longrightarrow> Exit c \<in> set tr \<Longrightarrow> calls tr = shutdown_calls"
proof -
  assume r: "run_of proc_step (started scm) tr p" and "Exit c \<in> set tr"
  then obtain x y where tr: "tr = x @ Exit c # y" using split_list by fast
  with r obtain s t where s: "run_of proc_step (started scm) x s" "proc_step s (Exit c) t" by (auto elim: run_split)
  then have "pr_todo s = Some []" using in_order_run [OF s(1)] by (auto simp: in_order_def elim!: proc_stepE)
  then have x: "calls x = shutdown_calls" using in_order_run [OF s(1)] by (auto simp: in_order_def)
  have "length (calls tr) \<le> length shutdown_calls"
    using in_order_run [OF r] by (auto simp: in_order_def split: option.splits dest: arg_cong [of _ _ length])
  then have "calls y = []" using x tr by simp
  then show "calls tr = shutdown_calls" using x tr by simp
qed

text \<open>What the state of \<open>main\<close> says of the events before it.\<close>

definition alive :: "proc_event list \<Rightarrow> bool" where
  "alive tr \<longleftrightarrow> Run_failed \<notin> set tr \<and> (\<forall>d. Exit d \<notin> set tr)"

lemma alive_snoc [simp]: "alive (tr @ [e]) \<longleftrightarrow> alive tr \<and> e \<noteq> Run_failed \<and> (\<forall>d. e \<noteq> Exit d)"
  by (auto simp: alive_def)

fun main_tells :: "bool \<Rightarrow> main_state \<Rightarrow> proc_event list \<Rightarrow> bool" where
  "main_tells scm Blocked tr \<longleftrightarrow> \<not> scm \<and> Serve_failed \<notin> set tr \<and> alive tr"
| "main_tells scm Stopping tr \<longleftrightarrow> \<not> scm \<and> Serve_failed \<in> set tr \<and> alive tr"
| "main_tells scm In_service tr \<longleftrightarrow> scm \<and> alive tr"
| "main_tells scm Service_stopping tr \<longleftrightarrow> scm \<and> alive tr"
| "main_tells scm (Exited c) tr \<longleftrightarrow>
     (if Run_failed \<in> set tr then scm \<and> c = 1 \<and> (\<forall>d. Exit d \<notin> set tr)
      else (\<forall>d. Exit d \<in> set tr \<longleftrightarrow> d = c) \<and> c = (if Serve_failed \<in> set tr \<and> \<not> scm then 1 else 0))"

lemma main_tells_step:
  assumes "main_tells scm (pr_main p) tr" "proc_step p e q"
  shows "main_tells scm (pr_main q) (tr @ [e])"
  using assms(2) by (cases rule: proc_step.cases; use assms(1) in \<open>cases "pr_main p"; auto simp: alive_def split: if_splits\<close>)

lemma main_run: "run_of proc_step (started scm) tr p \<Longrightarrow> main_tells scm (pr_main p) tr"
proof (induction tr arbitrary: p rule: rev_induct)
  case (snoc e tr)
  then obtain t where "run_of proc_step (started scm) tr t" "proc_step t e p" by (auto simp: run_snoc)
  then show ?case using snoc.IH main_tells_step by blast
qed (simp add: started_def alive_def)

interpretation stop_inv: stable proc_step "\<lambda>p. pr_todo p \<noteq> None"
  by unfold_locales (auto elim!: proc_stepE)

definition stop_request :: "proc_event \<Rightarrow> bool" where
  "stop_request e \<longleftrightarrow> e \<in> {Stop_signal, Serve_failed, Scm_stop}"

lemma stop_begins:
  assumes "run_of proc_step (started scm) tr p" "e \<in> set tr" "stop_request e"
  shows "pr_todo p \<noteq> None"
proof -
  obtain x y where "tr = x @ e # y" using split_list [OF assms(2)] by blast
  then obtain t t' where t: "proc_step t e t'" "run_of proc_step t' y p"
    using assms(1) run_split [of proc_step "started scm" x] by metis
  have "pr_todo t' \<noteq> None" using t(1) assms(3) by (auto simp: stop_request_def elim!: proc_stepE)
  with t(2) show ?thesis by (rule stop_inv.kept_run)
qed

text \<open>Each call of \<open>shutdown\<close> can return, the wait at its deadline, so the teardown reaches the end.\<close>

lemma teardown_runs:
  assumes "pr_todo p = Some rest" "\<nexists>c. pr_main p = Exited c"
  shows "\<exists>q. run_of proc_step p (map (\<lambda>a. Teardown a False) rest) q \<and> pr_todo q = Some [] \<and> pr_main q = pr_main p"
  using assms
proof (induction rest arbitrary: p)
  case (Cons a rest)
  have st: "proc_step p (Teardown a False) ((teardown_effect a p)\<lparr>pr_todo := Some rest\<rparr>)"
    using Cons.prems by (intro proc_teardown) (auto simp: may_return_def)
  from Cons.IH [of "(teardown_effect a p)\<lparr>pr_todo := Some rest\<rparr>"] Cons.prems(2) show ?case
    using st by (auto intro: run_Cons)
qed auto

lemma teardown_exits:
  assumes "run_of proc_step (started scm) tr p" "pr_todo p = Some rest" "alive tr"
  shows "\<exists>q c mid. run_of proc_step p (map (\<lambda>a. Teardown a False) rest @ mid @ [Exit c]) q \<and> set mid \<subseteq> {Serve_ended}"
proof -
  have ne: "\<nexists>c. pr_main p = Exited c" using main_run [OF assms(1)] assms(3) by (auto simp: alive_def split: if_splits)
  then obtain q where q: "run_of proc_step p (map (\<lambda>a. Teardown a False) rest) q" "pr_todo q = Some []" "pr_main q = pr_main p"
    using teardown_runs [OF assms(2)] by auto
  have "in_order (calls (tr @ map (\<lambda>a. Teardown a False) rest)) q"
    by (rule in_order_run) (use assms(1) q(1) in \<open>auto simp: run_append simp del: calls_simps\<close>)
  then have d: "pr_done q" using q(2) by (simp add: in_order_def)
  have "\<exists>c mid q'. run_of proc_step q (mid @ [Exit c]) q' \<and> set mid \<subseteq> {Serve_ended}"
  proof (cases "pr_main q")
    case In_service
    let ?q = "(doStop q)\<lparr>pr_main := Service_stopping\<rparr>"
    have "proc_step q Serve_ended ?q" using In_service q(2) by (rule proc_scm_ended) simp
    moreover have "proc_step ?q (Exit 0) (?q\<lparr>pr_main := Exited 0\<rparr>)" using d by (intro proc_exit_scm) simp_all
    ultimately have "run_of proc_step q ([Serve_ended] @ [Exit 0]) (?q\<lparr>pr_main := Exited 0\<rparr>)" by (auto intro: run_of.intros)
    then show ?thesis by (intro exI [of _ 0] exI [of _ "[Serve_ended]"]) auto
  next
    case (Exited c)
    then show ?thesis using ne q(3) by simp
  next
    case Blocked
    then have "run_of proc_step q ([] @ [Exit 0]) (q\<lparr>pr_main := Exited 0\<rparr>)" using proc_exit0 [OF _ d] by simp
    then show ?thesis by (metis empty_set empty_subsetI)
  next
    case Stopping
    then have "run_of proc_step q ([] @ [Exit 1]) (q\<lparr>pr_main := Exited 1\<rparr>)" using proc_exit1 [OF _ d] by simp
    then show ?thesis by (metis empty_set empty_subsetI)
  next
    case Service_stopping
    then have "run_of proc_step q ([] @ [Exit 0]) (q\<lparr>pr_main := Exited 0\<rparr>)" using proc_exit_scm [OF _ d] by simp
    then show ?thesis by (metis empty_set empty_subsetI)
  qed
  then show ?thesis using q(1) run_append [of proc_step p] by blast
qed

subsection \<open>Properties\<close>

text \<open>C13: One teardown, in order, before every clean exit, in the terminal and under the Windows service manager. However signals,
  service controls, a failed DNS server and the rest of the program interleave, the teardown cancels the tickers, logs the
  last line, stops DNS, drains the admin server, stops and awaits the reloads, and only then closes the cache, the log
  file and the database, each at most once. The process exits after the last of these calls, with code 1 exactly if
  the DNS server had failed in the terminal; the one exit without it is a failed \<open>svc.Run\<close>, which exits with 1.
  From every state after a stop request the teardown and the exit can follow, whatever the reloads do.\<close>

theorem shutdown_complete:
  assumes "run_of proc_step (started scm) tr p"
  shows "prefix (calls tr) [CancelTickers, LogStats, StopDNS, DrainHTTP, StopReloads, WaitReload, CloseCache, CloseFileLog, CloseDB, CloseDone]
     \<and> (\<forall>c. Exit c \<in> set tr \<longrightarrow> last (calls tr) = CloseDone \<and> length (calls tr) = 10
          \<and> c = (if Serve_failed \<in> set tr \<and> \<not> scm then 1 else 0))
     \<and> (\<forall>c. pr_main p = Exited c \<longrightarrow> Exit c \<in> set tr \<or> Run_failed \<in> set tr \<and> scm \<and> c = 1)
     \<and> (list_ex stop_request tr \<and> alive tr \<longrightarrow>
         (\<exists>rest mid c q. length rest \<le> 10 \<and> set mid \<subseteq> {Serve_ended}
            \<and> run_of proc_step p (map (\<lambda>a. Teardown a False) rest @ mid @ [Exit c]) q))"
proof -
  have o: "in_order (calls tr) p" by (rule in_order_run [OF assms])
  then have pre: "prefix (calls tr) shutdown_calls"
    by (cases "pr_todo p") (auto simp: in_order_def prefix_def dest: sym)
  have m: "main_tells scm (pr_main p) tr" by (rule main_run [OF assms])
  have ex: "calls tr = shutdown_calls \<and> c = (if Serve_failed \<in> set tr \<and> \<not> scm then 1 else 0)" if "Exit c \<in> set tr" for c
    using exit_all [OF assms that] m that by (cases "pr_main p") (auto simp: alive_def split: if_splits)
  have gone: "Exit c \<in> set tr \<or> Run_failed \<in> set tr \<and> scm \<and> c = 1" if "pr_main p = Exited c" for c
    using m that by (auto split: if_splits)
  have "\<exists>rest mid c q. length rest \<le> 10 \<and> set mid \<subseteq> {Serve_ended}
      \<and> run_of proc_step p (map (\<lambda>a. Teardown a False) rest @ mid @ [Exit c]) q"
    if sg: "list_ex stop_request tr" and al: "alive tr"
  proof -
    obtain rest where r: "pr_todo p = Some rest" using stop_begins [OF assms] sg by (auto simp: list_ex_iff)
    then have "length (calls tr @ rest) = 10" using o by (simp add: in_order_def shutdown_calls_def)
    then have "length rest \<le> 10" by simp
    then show ?thesis using teardown_exits [OF assms r al] by blast
  qed
  with pre ex gone show ?thesis by (simp add: shutdown_calls_def)
qed

text \<open>A query, a signal, and the teardown of a process without a reload.\<close>

definition demo_life :: "proc_event list" where
  "demo_life = [Query, Stop_signal, Teardown CancelTickers True, Teardown LogStats True, Teardown StopDNS True,
     Teardown DrainHTTP True, Teardown StopReloads True, Teardown WaitReload True]"

definition demo_shut :: reloads where
  "demo_shut = \<lparr>rl_gate = newReloadFn\<lparr>gt_closed := True, gt_cancelled := True\<rparr>, rl_workers = []\<rparr>"

lemma demo_life_runs:
  "run_of proc_step (started False) demo_life
     \<lparr>pr_reloads = demo_shut, pr_todo = Some [CloseCache, CloseFileLog, CloseDB, CloseDone], pr_done = False, pr_main = Blocked\<rparr>"
  by (simp add: demo_life_def demo_shut_def proc_steps started_def shutdown_calls_def may_return_def doStop_def on_gate_def
      no_reloads_def gate_defs)

lemma demo_closes:
  "run_of proc_step
     \<lparr>pr_reloads = demo_shut, pr_todo = Some [CloseCache, CloseFileLog, CloseDB, CloseDone], pr_done = False, pr_main = Blocked\<rparr>
     [Teardown CloseCache True, Reload_event (Request False), Teardown CloseFileLog True, Teardown CloseDB False, Teardown CloseDone True, Exit 0]
     \<lparr>pr_reloads = demo_shut, pr_todo = Some [], pr_done = True, pr_main = Exited 0\<rparr>"
  by (simp add: demo_shut_def proc_steps may_return_def gate_step_request gate_defs)

lemma demo_life_all:
  "run_of proc_step (started False) (demo_life @ Teardown CloseCache True #
     [Reload_event (Request False), Teardown CloseFileLog True, Teardown CloseDB False, Teardown CloseDone True, Exit 0])
     \<lparr>pr_reloads = demo_shut, pr_todo = Some [], pr_done = True, pr_main = Exited 0\<rparr>"
  unfolding run_append using demo_life_runs demo_closes by blast

theorem shutdown_complete_witness:
  "length (calls (demo_life @ Teardown CloseCache True #
     [Reload_event (Request False), Teardown CloseFileLog True, Teardown CloseDB False, Teardown CloseDone True, Exit 0])) = 10
   \<and> (\<exists>rest mid c q. length rest \<le> 10 \<and> set mid \<subseteq> {Serve_ended} \<and> run_of proc_step
        \<lparr>pr_reloads = demo_shut, pr_todo = Some [CloseCache, CloseFileLog, CloseDB, CloseDone], pr_done = False, pr_main = Blocked\<rparr>
        (map (\<lambda>a. Teardown a False) rest @ mid @ [Exit c]) q)"
proof -
  let ?all = "demo_life @ Teardown CloseCache True #
     [Reload_event (Request False), Teardown CloseFileLog True, Teardown CloseDB False, Teardown CloseDone True, Exit 0]"
  have s: "list_ex stop_request demo_life \<and> alive demo_life" by (simp add: demo_life_def stop_request_def alive_def)
  have e: "Exit 0 \<in> set ?all" by simp
  have "length (calls ?all) = 10" using shutdown_complete [OF demo_life_all] e by blast
  moreover note shutdown_complete [OF demo_life_runs]
  ultimately show ?thesis using s by blast
qed

text \<open>Nothing touches a closed store. If the DNS library and the HTTP server keep their shutdown contracts, the drain
  ended without an error and the wait for the reloads before its deadline, then after the cache, the log file
  or the database is closed no query, no admin request and no pass of a reload runs.\<close>

theorem closed_untouched:
  assumes "run_of proc_step (started scm) (before @ Teardown a ok # after) p" "a \<in> {CloseCache, CloseFileLog, CloseDB}"
    and "dns_stops (before @ Teardown a ok # after)" "http_drains (before @ Teardown a ok # after)"
    and "Teardown DrainHTTP True \<in> set before" "Teardown WaitReload True \<in> set before"
  shows "Query \<notin> set after \<and> Admin_request \<notin> set after
     \<and> (\<forall>e. Reload_event e \<in> set after \<longrightarrow> \<not> of_worker e \<and> \<not> starts_pass e)"
proof -
  have "StopDNS \<in> set (calls before)" using prior_calls [OF assms(1)] assms(2) by (auto simp: shutdown_calls_def)
  then obtain x k y where "before = x @ Teardown StopDNS k # y" using called_split by blast
  then have q: "Query \<notin> set after" using assms(3) unfolding dns_stops_def by fastforce
  obtain x y where "before = x @ Teardown DrainHTTP True # y" using split_list [OF assms(5)] by blast
  then have h: "Admin_request \<notin> set after" using assms(4) unfolding http_drains_def by fastforce
  obtain s t where s: "run_of proc_step (started scm) before s" "proc_step s (Teardown a ok) t" "run_of proc_step t after p"
    using assms(1) by (rule run_split)
  have "gate_quiet t" using proc_quiet.kept [OF quiet_after_wait [OF s(1) assms(6)] s(2)] .
  have "\<not> of_worker e \<and> \<not> starts_pass e" if e: "Reload_event e \<in> set after" for e
  proof -
    obtain u u' where u: "gate_quiet u" "proc_step u (Reload_event e) u'"
      using proc_quiet.kept_label [OF s(3) \<open>gate_quiet t\<close> e] by blast
    then have "gate_step (pr_reloads u) e (pr_reloads u')" by (auto elim!: proc_stepE)
    then show ?thesis using u quiet_no_worker shut_step by (auto simp: gate_quiet_def)
  qed
  with q h show ?thesis by blast
qed

theorem closed_untouched_witness:
  "Query \<notin> set [Reload_event (Request False), Teardown CloseFileLog True, Teardown CloseDB False, Teardown CloseDone True, Exit 0]
   \<and> \<not> starts_pass (Request False)"
proof -
  let ?after = "[Reload_event (Request False), Teardown CloseFileLog True, Teardown CloseDB False, Teardown CloseDone True, Exit 0]"
  have d: "dns_stops (demo_life @ Teardown CloseCache True # ?after)"
    by (simp add: dns_stops_def demo_life_def Cons_eq_append_conv)
  have h: "http_drains (demo_life @ Teardown CloseCache True # ?after)"
    by (simp add: http_drains_def demo_life_def Cons_eq_append_conv)
  have i: "CloseCache \<in> {CloseCache, CloseFileLog, CloseDB}" by simp
  have b: "Teardown DrainHTTP True \<in> set demo_life" "Teardown WaitReload True \<in> set demo_life" by (simp_all add: demo_life_def)
  show ?thesis using closed_untouched [OF demo_life_all i d h b] by simp
qed

end
