(* ===== verification/Admin_Server.thy ===== *)
theory Admin_Server
  imports Runs
begin

text \<open>
  The start and the stop of the admin server, \<open>Serve\<close> and \<open>Shutdown\<close> of \<open>src/internal/api/api.go\<close>. The two run in
  different goroutines and share two atomics, \<open>shutdownRequested\<close> and \<open>httpServer\<close>. Each access of an atomic is
  one step, so that every interleaving of the two is a run. Of \<open>net/http\<close> the model keeps what the code
  uses: \<open>Shutdown\<close> marks the server and closes its listener, \<open>Serve\<close> on a marked server closes the listener and returns
  \<open>ErrServerClosed\<close>, and the accept loop of a marked server ends.
\<close>

section \<open>Model\<close>

text \<open>Where \<open>Serve\<close> is: before the store, before the check, before \<open>hs.Serve\<close>, in its loop, or back with its error.\<close>

datatype serve_pc = Serve_enter | Serve_stored | Serve_checked | Serve_loop | Serve_back bool

text \<open>Where \<open>Shutdown\<close> is: not called, after the flag, after the load with its result, after \<open>hs.Shutdown\<close> began, or back.\<close>

datatype stop_pc = Stop_idle | Stop_flagged | Stop_loaded bool | Stop_draining | Stop_back

record admin_server =
  as_shutdownRequested :: bool
  as_httpServer :: bool                 \<comment> \<open>the pointer is stored\<close>
  as_marked :: bool                     \<comment> \<open>\<open>http.Server\<close> is shutting down\<close>
  as_listening :: bool                  \<comment> \<open>the listener is open\<close>
  as_serve :: serve_pc
  as_stop :: stop_pc

definition admin_bound :: admin_server where
  "admin_bound = \<lparr>as_shutdownRequested = False, as_httpServer = False, as_marked = False, as_listening = True,
     as_serve = Serve_enter, as_stop = Stop_idle\<rparr>"

datatype admin_event = Serve_step | Stop_step | Accept_conn | Accept_fails

text \<open>\<open>Serve\<close> up to the call of \<open>hs.Serve\<close> and its return; \<open>False\<close> is a nil error.\<close>

definition serve_next :: "admin_server \<Rightarrow> admin_server option" where
  "serve_next s = (case as_serve s of
     Serve_enter \<Rightarrow> Some (s\<lparr>as_httpServer := True, as_serve := Serve_stored\<rparr>)
   | Serve_stored \<Rightarrow> Some (if as_shutdownRequested s then s\<lparr>as_listening := False, as_serve := Serve_back False\<rparr>
       else s\<lparr>as_serve := Serve_checked\<rparr>)
   | Serve_checked \<Rightarrow> Some (if as_marked s then s\<lparr>as_listening := False, as_serve := Serve_back False\<rparr>
       else s\<lparr>as_serve := Serve_loop\<rparr>)
   | Serve_loop \<Rightarrow> if as_marked s then Some (s\<lparr>as_listening := False, as_serve := Serve_back False\<rparr>) else None
   | Serve_back _ \<Rightarrow> None)"

definition stop_next :: "admin_server \<Rightarrow> admin_server option" where
  "stop_next s = (case as_stop s of
     Stop_idle \<Rightarrow> Some (s\<lparr>as_shutdownRequested := True, as_stop := Stop_flagged\<rparr>)
   | Stop_flagged \<Rightarrow> Some (s\<lparr>as_stop := Stop_loaded (as_httpServer s)\<rparr>)
   | Stop_loaded stored \<Rightarrow> Some (if stored
       then s\<lparr>as_marked := True, as_listening := as_listening s \<and> as_serve s \<noteq> Serve_loop, as_stop := Stop_draining\<rparr>
       else s\<lparr>as_stop := Stop_back\<rparr>)
   | Stop_draining \<Rightarrow> Some (s\<lparr>as_stop := Stop_back\<rparr>)
   | Stop_back \<Rightarrow> None)"

inductive admin_step :: "admin_server \<Rightarrow> admin_event \<Rightarrow> admin_server \<Rightarrow> bool" where
  admin_serve: "serve_next s = Some t \<Longrightarrow> admin_step s Serve_step t"
| admin_stop: "stop_next s = Some t \<Longrightarrow> admin_step s Stop_step t"
| admin_accept: "as_serve s = Serve_loop \<Longrightarrow> \<not> as_marked s \<Longrightarrow> as_listening s \<Longrightarrow> admin_step s Accept_conn s"
| admin_broken: "as_serve s = Serve_loop \<Longrightarrow> \<not> as_marked s \<Longrightarrow>
     admin_step s Accept_fails (s\<lparr>as_listening := False, as_serve := Serve_back True\<rparr>)"

inductive_cases admin_stepE: "admin_step s e t"

text \<open>The steps that \<open>Serve\<close> makes on its own after the shutdown.\<close>

definition serve_step :: "admin_server \<Rightarrow> admin_event \<Rightarrow> admin_server \<Rightarrow> bool" where
  "serve_step s e t \<longleftrightarrow> e = Serve_step \<and> admin_step s e t"

section \<open>Invariant\<close>

text \<open>The flag is set before the load. So a \<open>Shutdown\<close> that found no server left the flag for a \<open>Serve\<close> that has yet
  to check it, and one that found a server marks it.\<close>

definition handed_over :: "admin_server \<Rightarrow> bool" where
  "handed_over s \<longleftrightarrow>
     (as_shutdownRequested s \<longleftrightarrow> as_stop s \<noteq> Stop_idle)
   \<and> (as_httpServer s \<longleftrightarrow> as_serve s \<noteq> Serve_enter)
   \<and> (as_stop s = Stop_loaded False \<or> as_stop s = Stop_back \<and> \<not> as_marked s \<longrightarrow> as_serve s \<notin> {Serve_checked, Serve_loop, Serve_back True})
   \<and> (as_stop s = Stop_draining \<longrightarrow> as_marked s) \<and> (as_marked s \<longrightarrow> as_stop s \<in> {Stop_draining, Stop_back})
   \<and> (as_listening s \<longrightarrow> (\<forall>b. as_serve s \<noteq> Serve_back b))"

lemma handed_over_init: "handed_over admin_bound"
  by (simp add: handed_over_def admin_bound_def)

lemma handed_over_serve: "handed_over s \<Longrightarrow> serve_next s = Some t \<Longrightarrow> handed_over t"
  by (cases "as_serve s") (auto simp: serve_next_def handed_over_def split: if_splits)

lemma handed_over_stop: "handed_over s \<Longrightarrow> stop_next s = Some t \<Longrightarrow> handed_over t"
  by (cases "as_stop s") (auto simp: stop_next_def handed_over_def split: if_splits)

lemma handed_over_step: "handed_over s \<Longrightarrow> admin_step s e t \<Longrightarrow> handed_over t"
  by (erule admin_stepE) (auto intro: handed_over_serve handed_over_stop, auto simp: handed_over_def)

lemma stop_final: "as_stop s = Stop_back \<Longrightarrow> admin_step s e t \<Longrightarrow> as_stop t = Stop_back"
  by (erule admin_stepE; cases "as_serve s") (auto simp: serve_next_def stop_next_def split: if_splits)

interpretation admin_inv: stable admin_step handed_over
  by unfold_locales (rule handed_over_step)

interpretation admin_stopped: stable admin_step "\<lambda>s. handed_over s \<and> as_stop s = Stop_back"
  by unfold_locales (blast intro: handed_over_step stop_final)

primrec serve_left :: "serve_pc \<Rightarrow> nat" where
  "serve_left Serve_enter = 3"
| "serve_left Serve_stored = 2"
| "serve_left Serve_checked = 2"
| "serve_left Serve_loop = 1"
| "serve_left (Serve_back _) = 0"

definition serve_weight :: "admin_server \<Rightarrow> nat" where
  "serve_weight s = serve_left (as_serve s)"

lemma serve_shorter:
  assumes "handed_over s" "as_stop s = Stop_back" "serve_next s = Some t"
  shows "serve_weight t < serve_weight s"
  using assms by (cases "as_serve s") (auto simp: serve_next_def serve_weight_def handed_over_def split: if_splits)

lemma serve_step_iff: "serve_step s e t \<longleftrightarrow> e = Serve_step \<and> serve_next s = Some t"
  by (auto simp: serve_step_def intro: admin_serve elim: admin_stepE)

interpretation serve_ends: decreasing serve_step "\<lambda>s. handed_over s \<and> as_stop s = Stop_back" serve_weight
proof
  fix s e t assume a: "handed_over s \<and> as_stop s = Stop_back" "serve_step s e t"
  then have "admin_step s e t" by (auto simp: serve_step_def)
  with a(1) show "handed_over t \<and> as_stop t = Stop_back" by (rule admin_stopped.kept)
  show "serve_weight t < serve_weight s" using a serve_shorter by (simp add: serve_step_iff)
qed

lemma serve_stuck:
  assumes "handed_over s" "as_stop s = Stop_back" "\<nexists>e t. serve_step s e t"
  shows "(\<exists>b. as_serve s = Serve_back b) \<and> \<not> as_listening s"
proof -
  have "serve_next s = None" using assms(3) by (cases "serve_next s") (auto simp: serve_step_iff)
  then show ?thesis using assms(1,2) by (cases "as_serve s") (auto simp: serve_next_def handed_over_def split: if_splits)
qed

lemma stopped_no_accept:
  assumes "handed_over s" "as_stop s = Stop_back"
  shows "\<not> admin_step s Accept_conn t"
  using assms by (auto simp: handed_over_def elim!: admin_stepE)

section \<open>Properties\<close>

text \<open>The admin server stops. Whenever \<open>Shutdown\<close> has returned, however its steps interleaved with those of \<open>Serve\<close>,
  no connection is accepted any more, and \<open>Serve\<close> comes back within three of its own steps with the listener
  closed: it never stays in the accept loop that nobody would drain.\<close>

theorem admin_server_stops:
  assumes "run_of admin_step admin_bound before r" "as_stop r = Stop_back" "run_of admin_step r after s"
  shows "Accept_conn \<notin> set after
     \<and> (\<forall>q t. run_of serve_step s q t \<longrightarrow> length q \<le> 3
          \<and> ((\<nexists>e u. serve_step t e u) \<longrightarrow> (\<exists>b. as_serve t = Serve_back b) \<and> \<not> as_listening t))
     \<and> (\<exists>q t. run_of serve_step s q t \<and> (\<nexists>e u. serve_step t e u))"
proof -
  have r: "handed_over r \<and> as_stop r = Stop_back"
    using admin_inv.kept_run [OF assms(1) handed_over_init] assms(2) by simp
  then have s: "handed_over s \<and> as_stop s = Stop_back" using admin_stopped.kept_run [OF assms(3)] by blast
  have "Accept_conn \<notin> set after"
    using admin_stopped.kept_label [OF assms(3) r, of Accept_conn] stopped_no_accept by blast
  moreover have "length q \<le> 3 \<and> ((\<nexists>e u. serve_step t e u) \<longrightarrow> (\<exists>b. as_serve t = Serve_back b) \<and> \<not> as_listening t)"
    if q: "run_of serve_step s q t" for q t
  proof -
    have "length q \<le> serve_weight s" using serve_ends.run_bounded [OF q s] by simp
    moreover have "serve_weight s \<le> 3" by (cases "as_serve s") (simp_all add: serve_weight_def)
    ultimately show ?thesis using serve_ends.kept_run [OF q s] serve_stuck by auto
  qed
  ultimately show ?thesis using serve_ends.drains [OF s] by blast
qed

text \<open>\<open>Shutdown\<close> finds no server and returns; \<open>Serve\<close> then stores it, sees the flag and closes the listener.\<close>

theorem admin_server_stops_witness:
  "run_of admin_step admin_bound [Stop_step, Stop_step, Stop_step]
     (admin_bound\<lparr>as_shutdownRequested := True, as_stop := Stop_back\<rparr>)
   \<and> (\<exists>q t. run_of serve_step (admin_bound\<lparr>as_shutdownRequested := True, as_stop := Stop_back\<rparr>) q t
        \<and> length q \<le> 3 \<and> \<not> as_listening t)"
proof -
  let ?r = "admin_bound\<lparr>as_shutdownRequested := True, as_stop := Stop_back\<rparr>"
  have r: "run_of admin_step admin_bound [Stop_step, Stop_step, Stop_step] ?r"
    by (auto simp: admin_bound_def stop_next_def intro!: exI conjI admin_stop)
  have b: "as_stop ?r = Stop_back" by simp
  show ?thesis using r admin_server_stops [OF r b run_Nil] by blast
qed

end
