(* ===== verification/Dot_Server.thy ===== *)
theory Dot_Server
  imports Runs Go_Prelude Net_Addr
begin

text \<open>
  The DNS listeners, \<open>src/internal/dnsserver/server.go\<close> and \<open>src/internal/dnsserver/dot.go\<close>: the certificate of the
  DNS-over-TLS listener with its reload, the limit on open connections, the sockets and the servers on
  them. \<open>tls.LoadX509KeyPair\<close> and \<open>x509.ParseCertificate\<close> are outcomes that a load is given; the serve loops belong
  to the DNS library, so the error that each returns is an argument of \<open>Start\<close>.
\<close>

section \<open>The certificate\<close>

subsection \<open>Model\<close>

abbreviation (input) day :: duration where "day \<equiv> 86400000000000"

definition certExpiryWarnWindow :: duration where "certExpiryWarnWindow = 14 * day"

record leaf =
  lf_DNSNames :: "string list"
  lf_IPAddresses :: "addr list"
  lf_NotAfter :: time

text \<open>The outcome of \<open>LoadX509KeyPair\<close>: an error, or a certificate whose leaf is set or has yet to be parsed.\<close>

datatype key_pair = Pair_error string | Pair_parsed leaf | Pair_unparsed "string + leaf"

record CertReloader =
  cr_certFile :: string
  cr_keyFile :: string
  cr_current :: "leaf option"
  cr_failures :: nat
  cr_lastReload :: "time option"
  cr_lastErr :: string

definition cert_load :: "key_pair \<Rightarrow> CertReloader \<Rightarrow> CertReloader \<times> string option" where
  "cert_load k r = (case k of
     Pair_error e \<Rightarrow> (r, Some (''loading DoT certificate: '' @ e))
   | Pair_parsed lf \<Rightarrow> (r\<lparr>cr_current := Some lf\<rparr>, None)
   | Pair_unparsed (Inl e) \<Rightarrow> (r, Some (''parsing DoT certificate: '' @ e))
   | Pair_unparsed (Inr lf) \<Rightarrow> (r\<lparr>cr_current := Some lf\<rparr>, None))"

definition cert_Reload :: "key_pair \<Rightarrow> time \<Rightarrow> CertReloader \<Rightarrow> CertReloader \<times> string option" where
  "cert_Reload k now r =
     (let (r1, err) = cert_load k r;
          r2 = r1\<lparr>cr_lastReload := Some now, cr_lastErr := (case err of None \<Rightarrow> [] | Some e \<Rightarrow> e)\<rparr>;
          r3 = (if err \<noteq> None \<and> cr_current r2 \<noteq> None then r2\<lparr>cr_failures := cr_failures r2 + 1\<rparr> else r2)
      in (r3, err))"

definition NewCertReloader :: "string \<Rightarrow> string \<Rightarrow> key_pair \<Rightarrow> time \<Rightarrow> string + CertReloader" where
  "NewCertReloader certFile keyFile k now =
     (case cert_Reload k now \<lparr>cr_certFile = certFile, cr_keyFile = keyFile, cr_current = None, cr_failures = 0,
             cr_lastReload = None, cr_lastErr = []\<rparr> of
        (r, Some err) \<Rightarrow> Inl err
      | (r, None) \<Rightarrow> Inr r)"

definition CertExpired :: string where "CertExpired = ''expired''"
definition CertReloadFailed :: string where "CertReloadFailed = ''reload_failed''"
definition CertExpiring :: string where "CertExpiring = ''expiring''"
definition CertOK :: string where "CertOK = ''ok''"

definition certState :: "time \<Rightarrow> bool \<Rightarrow> time \<Rightarrow> string" where
  "certState notAfter reloadFailed now =
     (if \<not> now < notAfter then CertExpired
      else if reloadFailed then CertReloadFailed
      else if time_Sub notAfter now < certExpiryWarnWindow then CertExpiring
      else CertOK)"

record CertStatus =
  cs_Names :: "string list"
  cs_NotAfter :: time
  cs_State :: string
  cs_LastReload :: "time option"
  cs_LastReloadError :: string
  cs_ReloadFailures :: nat

text \<open>\<open>Status\<close> panics without a certificate, the outcome \<open>None\<close>; \<open>NewCertReloader\<close> never returns such a reloader.\<close>

definition cert_Status :: "iptext \<Rightarrow> CertReloader \<Rightarrow> time \<Rightarrow> CertStatus option" where
  "cert_Status T r now = (case cr_current r of
     None \<Rightarrow> None
   | Some lf \<Rightarrow> Some \<lparr>cs_Names = lf_DNSNames lf @ map (\<lambda>a. AddrString T (Unmap a)) (lf_IPAddresses lf), cs_NotAfter = lf_NotAfter lf,
       cs_State = certState (lf_NotAfter lf) (cr_lastErr r \<noteq> []) now, cs_LastReload = cr_lastReload r,
       cs_LastReloadError = cr_lastErr r, cs_ReloadFailures = cr_failures r\<rparr>)"

definition GetCertificate :: "CertReloader \<Rightarrow> leaf option" where
  "GetCertificate r = cr_current r"

definition cert_NotAfter :: "CertReloader \<Rightarrow> time option" where
  "cert_NotAfter r = map_option lf_NotAfter (cr_current r)"

definition expiryWarning :: "time \<Rightarrow> time \<Rightarrow> string \<times> string" where
  "expiryWarning notAfter now =
     (let st = certState notAfter False now in
      if st = CertExpired then (''DoT certificate expired'',
        ''clients that check the certificate reject it. Renew the certificate, then reload s-hole'')
      else if st = CertExpiring then (''DoT certificate expires soon'',
        ''the certificate expires within '' @ Itoa (certExpiryWarnWindow div day) @ '' days. Renew it, then reload s-hole'')
      else ([], []))"

definition ExpiryWarning :: "CertReloader \<Rightarrow> time \<Rightarrow> (string \<times> string) option" where
  "ExpiryWarning r now = map_option (\<lambda>n. expiryWarning n now) (cert_NotAfter r)"

subsection \<open>Specification and lemmas\<close>

text \<open>What a load brings: the leaf, or nothing.\<close>

fun loaded_leaf :: "key_pair \<Rightarrow> leaf option" where
  "loaded_leaf (Pair_error _) = None"
| "loaded_leaf (Pair_parsed lf) = Some lf"
| "loaded_leaf (Pair_unparsed (Inl _)) = None"
| "loaded_leaf (Pair_unparsed (Inr lf)) = Some lf"

text \<open>The abstract certificate after a list of loads: the last leaf that loaded, the number of failed loads, and
  whether the last one failed.\<close>

definition last_leaf :: "leaf \<Rightarrow> (key_pair \<times> time) list \<Rightarrow> leaf" where
  "last_leaf lf ks = last (lf # List.map_filter (loaded_leaf \<circ> fst) ks)"

definition failed_loads :: "(key_pair \<times> time) list \<Rightarrow> nat" where
  "failed_loads ks = length (filter (\<lambda>(k, _). loaded_leaf k = None) ks)"

definition reload_all :: "(key_pair \<times> time) list \<Rightarrow> CertReloader \<Rightarrow> CertReloader" where
  "reload_all ks r = fold (\<lambda>(k, now) r. fst (cert_Reload k now r)) ks r"

lemma cert_load_leaf: "cert_load k r =
   (case loaded_leaf k of Some lf \<Rightarrow> (r\<lparr>cr_current := Some lf\<rparr>, None) | None \<Rightarrow> (r, snd (cert_load k r)))"
  "loaded_leaf k = None \<Longrightarrow> \<exists>e. snd (cert_load k r) = Some e \<and> e \<noteq> []"
  by (cases k rule: loaded_leaf.cases; simp add: cert_load_def)+

lemma Reload_fields:
  assumes "fst (cert_Reload k now r) = r'"
  shows "cr_current r' = (case loaded_leaf k of Some lf \<Rightarrow> Some lf | None \<Rightarrow> cr_current r)"
    "cr_failures r' = cr_failures r + (if loaded_leaf k = None \<and> cr_current r \<noteq> None then 1 else 0)"
    "cr_lastReload r' = Some now" "cr_lastErr r' = [] \<longleftrightarrow> loaded_leaf k \<noteq> None"
  using cert_load_leaf [of k r] assms
  by (auto simp: cert_Reload_def Let_def split: option.splits prod.splits if_splits)

lemma reload_all_fields:
  assumes "cr_current r = Some lf"
  shows "cr_current (reload_all ks r) = Some (last_leaf lf ks) \<and> cr_failures (reload_all ks r) = cr_failures r + failed_loads ks"
  using assms
proof (induction ks arbitrary: r lf)
  case (Cons k ks)
  obtain p now where k: "k = (p, now)" by fastforce
  let ?r = "fst (cert_Reload p now r)"
  note f = Reload_fields [OF refl, of p now r]
  have "cr_current ?r = Some (case loaded_leaf p of None \<Rightarrow> lf | Some l \<Rightarrow> l)"
    using f(1) Cons.prems by (auto split: option.splits)
  from Cons.IH [OF this] f(2) Cons.prems show ?case
    by (auto simp: reload_all_def last_leaf_def failed_loads_def k map_filter_simps split: option.splits)
qed (simp add: reload_all_def last_leaf_def failed_loads_def map_filter_simps)

lemma reload_all_last:
  "ks \<noteq> [] \<Longrightarrow> cr_lastReload (reload_all ks r) = Some (snd (last ks))
     \<and> (cr_lastErr (reload_all ks r) = [] \<longleftrightarrow> loaded_leaf (fst (last ks)) \<noteq> None)"
proof (induction ks rule: rev_induct)
  case (snoc k ks)
  obtain p now where "k = (p, now)" by fastforce
  then show ?case using Reload_fields [OF refl, of p now "reload_all ks r"] by (simp add: reload_all_def)
qed simp

lemma New_fields:
  assumes "NewCertReloader c f k now = Inr r"
  shows "\<exists>lf. loaded_leaf k = Some lf \<and> cr_current r = Some lf \<and> cr_failures r = 0 \<and> cr_lastErr r = []"
  using assms by (cases k rule: loaded_leaf.cases) (auto simp: NewCertReloader_def cert_Reload_def cert_load_def)

subsection \<open>Property\<close>

text \<open>C28: The certificate that is served is the last one that loaded. After a successful start and any sequence of reloads
  the listener presents the last certificate whose files loaded, so a failed reload changes nothing that a
  client sees; every failed reload is counted once, and the status names the most severe condition: expired,
  then a failed last reload, then an expiry within 14 days.\<close>

theorem cert_serves_last_good:
  assumes "NewCertReloader certFile keyFile k0 t0 = Inr r"
  shows "\<exists>lf st. loaded_leaf k0 = Some lf \<and> GetCertificate (reload_all ks r) = Some (last_leaf lf ks)
     \<and> cert_Status T (reload_all ks r) now = Some st \<and> cs_NotAfter st = lf_NotAfter (last_leaf lf ks)
     \<and> cs_ReloadFailures st = failed_loads ks
     \<and> (cs_LastReloadError st \<noteq> [] \<longleftrightarrow> ks \<noteq> [] \<and> loaded_leaf (fst (last ks)) = None)
     \<and> cs_State st = (if cs_NotAfter st \<le> now then ''expired''
          else if cs_LastReloadError st \<noteq> [] then ''reload_failed''
          else if cs_NotAfter st - now < 14 * day then ''expiring'' else ''ok'')"
proof -
  obtain lf where lf: "loaded_leaf k0 = Some lf" "cr_current r = Some lf" "cr_failures r = 0" "cr_lastErr r = []"
    using New_fields [OF assms] by blast
  have f: "cr_current (reload_all ks r) = Some (last_leaf lf ks)" "cr_failures (reload_all ks r) = failed_loads ks"
    using reload_all_fields [OF lf(2), of ks] lf(3) by auto
  have e: "cr_lastErr (reload_all ks r) \<noteq> [] \<longleftrightarrow> ks \<noteq> [] \<and> loaded_leaf (fst (last ks)) = None"
    using reload_all_last [of ks r] lf(4) by (cases "ks = []") (auto simp: reload_all_def)
  have "time_Sub n now < 14 * day \<longleftrightarrow> n - now < 14 * day" for n by (auto simp: time_Sub_def)
  then show ?thesis
    using lf(1) f e by (simp add: GetCertificate_def cert_Status_def certState_def certExpiryWarnWindow_def
        CertExpired_def CertReloadFailed_def CertExpiring_def CertOK_def not_less)
qed

definition demo_leaf :: "time \<Rightarrow> leaf" where
  "demo_leaf n = \<lparr>lf_DNSNames = [''dns.home''], lf_IPAddresses = [], lf_NotAfter = n\<rparr>"

theorem cert_serves_last_good_witness:
  "\<exists>r st. NewCertReloader ''c'' ''k'' (Pair_parsed (demo_leaf (30 * day))) 0 = Inr r
     \<and> cert_Status demo_iptext (reload_all [(Pair_error ''bad'', 1)] r) 2 = Some st
     \<and> cs_State st = ''reload_failed'' \<and> cs_ReloadFailures st = 1"
proof -
  let ?r = "\<lparr>cr_certFile = ''c'', cr_keyFile = ''k'', cr_current = Some (demo_leaf (30 * day)), cr_failures = 0,
     cr_lastReload = Some 0, cr_lastErr = []\<rparr>"
  have r: "NewCertReloader ''c'' ''k'' (Pair_parsed (demo_leaf (30 * day))) 0 = Inr ?r"
    by (simp add: NewCertReloader_def cert_Reload_def cert_load_def)
  show ?thesis
    using cert_serves_last_good [OF r, of "[(Pair_error ''bad'', 1)]" demo_iptext 2] r
    by (auto simp: last_leaf_def failed_loads_def demo_leaf_def map_filter_simps)
qed

section \<open>The connection limit\<close>

subsection \<open>Model\<close>

definition maxDoTConns :: nat where "maxDoTConns = 256"
definition maxTCPConns :: nat where "maxTCPConns = 256"

text \<open>A \<open>limitListener\<close>: the capacity and the fill of \<open>slots\<close>, whether \<open>done\<close> is closed, how many calls of \<open>Accept\<close> hold a
  slot and wait in the inner listener, and the connections handed out, each with the state of its \<open>once\<close>.\<close>

record limitListener =
  ll_cap :: nat
  ll_slots :: nat
  ll_done :: bool
  ll_inner :: nat
  ll_conns :: "bool list"              \<comment> \<open>whether the connection has released its slot\<close>

definition newLimitListener :: "nat \<Rightarrow> limitListener" where
  "newLimitListener n = \<lparr>ll_cap = n, ll_slots = 0, ll_done = False, ll_inner = 0, ll_conns = []\<rparr>"

text \<open>\<open>limitConn.Close\<close>: the slot is released by the first call only.\<close>

definition limitConn_Close :: "nat \<Rightarrow> limitListener \<Rightarrow> limitListener" where
  "limitConn_Close i l = (if ll_conns l ! i then l
     else l\<lparr>ll_slots := ll_slots l - 1, ll_conns := (ll_conns l)[i := True]\<rparr>)"

definition limitListener_Close :: "limitListener \<Rightarrow> limitListener" where
  "limitListener_Close l = l\<lparr>ll_done := True\<rparr>"

datatype limit_event = Take_slot | Accept_closed | Accept_ok | Accept_error | Conn_close nat | Listener_close

text \<open>\<open>Accept\<close> is two steps: the \<open>select\<close> that takes a slot or sees \<open>done\<close>, and the return of the inner \<open>Accept\<close>.\<close>

inductive limit_step :: "limitListener \<Rightarrow> limit_event \<Rightarrow> limitListener \<Rightarrow> bool" where
  limit_take: "ll_slots l < ll_cap l \<Longrightarrow> limit_step l Take_slot (l\<lparr>ll_slots := ll_slots l + 1, ll_inner := ll_inner l + 1\<rparr>)"
| limit_closed: "ll_done l \<Longrightarrow> limit_step l Accept_closed l"
| limit_ok: "0 < ll_inner l \<Longrightarrow> limit_step l Accept_ok (l\<lparr>ll_inner := ll_inner l - 1, ll_conns := ll_conns l @ [False]\<rparr>)"
| limit_error: "0 < ll_inner l \<Longrightarrow> 0 < ll_slots l \<Longrightarrow>
     limit_step l Accept_error (l\<lparr>ll_inner := ll_inner l - 1, ll_slots := ll_slots l - 1\<rparr>)"
| limit_conn: "i < length (ll_conns l) \<Longrightarrow> ll_conns l ! i \<or> 0 < ll_slots l \<Longrightarrow> limit_step l (Conn_close i) (limitConn_Close i l)"
| limit_listener: "limit_step l Listener_close (limitListener_Close l)"

inductive_cases limit_stepE: "limit_step l e k"

definition open_conns :: "limitListener \<Rightarrow> nat" where
  "open_conns l = count_list (ll_conns l) False"

definition slots_ok :: "nat \<Rightarrow> limitListener \<Rightarrow> bool" where
  "slots_ok n l \<longleftrightarrow> ll_cap l = n \<and> ll_slots l = ll_inner l + open_conns l \<and> ll_slots l \<le> n"

lemma count_release: "i < length xs \<Longrightarrow> \<not> xs ! i \<Longrightarrow> Suc (count_list (xs[i := True]) False) = count_list xs False"
proof (induction xs arbitrary: i)
  case (Cons a xs)
  then show ?case by (cases i) auto
qed simp

lemma slots_ok_step: "slots_ok n l \<Longrightarrow> limit_step l e k \<Longrightarrow> slots_ok n k"
  by (erule limit_stepE) (use count_release in \<open>fastforce simp: slots_ok_def open_conns_def limitConn_Close_def limitListener_Close_def\<close>)+

interpretation limit_inv: stable limit_step "slots_ok n" for n
  by unfold_locales (rule slots_ok_step)

lemma slots_ok_new: "slots_ok n (newLimitListener n)"
  by (simp add: slots_ok_def newLimitListener_def open_conns_def)

lemma release_enabled: "slots_ok n l \<Longrightarrow> i < length (ll_conns l) \<Longrightarrow> limit_step l (Conn_close i) (limitConn_Close i l)"
proof (rule limit_conn)
  assume a: "slots_ok n l" "i < length (ll_conns l)"
  show "ll_conns l ! i \<or> 0 < ll_slots l"
  proof (rule disjCI)
    assume "\<not> 0 < ll_slots l"
    then have "False \<notin> set (ll_conns l)" using a(1) by (simp add: slots_ok_def open_conns_def count_list_0_iff)
    then show "ll_conns l ! i" using a(2) by (metis (full_types) nth_mem)
  qed
qed

interpretation closed_inv: stable limit_step ll_done
  by unfold_locales (auto simp: limitConn_Close_def limitListener_Close_def elim!: limit_stepE)

lemma closed_after:
  assumes "run_of limit_step s tr l" "Listener_close \<in> set tr"
  shows "ll_done l"
proof -
  obtain x y where "tr = x @ Listener_close # y" using split_list [OF assms(2)] by blast
  then obtain t t' where t: "limit_step t Listener_close t'" "run_of limit_step t' y l"
    using assms(1) run_split [of limit_step s x] by metis
  have "ll_done t'" using t(1) by (auto simp: limitListener_Close_def elim!: limit_stepE)
  with t(2) show ?thesis by (rule closed_inv.kept_run)
qed

subsection \<open>Property\<close>

text \<open>C19: The limit holds and no slot leaks. In every run of the TCP or DoT listener, whatever is accepted, fails or is closed, and
  however often one connection is closed, the slots in use are the open connections and the accepts on their
  way, at most the limit of 256; a release never blocks; and once the listener is closed an \<open>Accept\<close> that waits for
  a slot can return.\<close>

theorem connections_limited:
  assumes "run_of limit_step (newLimitListener maxTCPConns) tr l"
  shows "open_conns l + ll_inner l = ll_slots l \<and> open_conns l \<le> 256
     \<and> (\<forall>i < length (ll_conns l). limit_step l (Conn_close i) (limitConn_Close i l))
     \<and> (0 < ll_inner l \<longrightarrow> (\<exists>k. limit_step l Accept_error k))
     \<and> (ll_slots l = 256 \<and> Listener_close \<in> set tr \<longrightarrow> limit_step l Accept_closed l)"
proof -
  have ok: "slots_ok 256 l" using limit_inv.kept_run [OF assms slots_ok_new] by (simp add: maxTCPConns_def)
  then have "limit_step l (Conn_close i) (limitConn_Close i l)" if "i < length (ll_conns l)" for i
    using release_enabled that by blast
  moreover have "\<exists>k. limit_step l Accept_error k" if "0 < ll_inner l"
    using limit_error [OF that] ok that by (auto simp: slots_ok_def)
  moreover have "limit_step l Accept_closed l" if "Listener_close \<in> set tr"
    using limit_closed closed_after [OF assms that] by blast
  ultimately show ?thesis using ok by (auto simp: slots_ok_def)
qed

theorem connections_limited_witness:
  "\<exists>l. run_of limit_step (newLimitListener maxTCPConns) [Take_slot, Accept_ok, Conn_close 0, Conn_close 0, Listener_close] l
     \<and> open_conns l = 0 \<and> ll_slots l = 0"
proof -
  let ?l = "\<lparr>ll_cap = 256, ll_slots = 0, ll_done = True, ll_inner = 0, ll_conns = [True]\<rparr>"
  have 1: "limit_step (newLimitListener maxTCPConns) Take_slot \<lparr>ll_cap = 256, ll_slots = 1, ll_done = False, ll_inner = 1, ll_conns = []\<rparr>"
    using limit_take [of "newLimitListener maxTCPConns"] by (simp add: newLimitListener_def maxTCPConns_def)
  have 2: "limit_step \<lparr>ll_cap = 256, ll_slots = 1, ll_done = False, ll_inner = 1, ll_conns = []\<rparr> Accept_ok
      \<lparr>ll_cap = 256, ll_slots = 1, ll_done = False, ll_inner = 0, ll_conns = [False]\<rparr>"
    using limit_ok [of "\<lparr>ll_cap = 256, ll_slots = 1, ll_done = False, ll_inner = 1, ll_conns = []\<rparr>"] by simp
  have 3: "limit_step \<lparr>ll_cap = 256, ll_slots = 1, ll_done = False, ll_inner = 0, ll_conns = [False]\<rparr> (Conn_close 0)
      \<lparr>ll_cap = 256, ll_slots = 0, ll_done = False, ll_inner = 0, ll_conns = [True]\<rparr>"
    using limit_conn [of 0 "\<lparr>ll_cap = 256, ll_slots = 1, ll_done = False, ll_inner = 0, ll_conns = [False]\<rparr>"]
    by (simp add: limitConn_Close_def)
  have 4: "limit_step \<lparr>ll_cap = 256, ll_slots = 0, ll_done = False, ll_inner = 0, ll_conns = [True]\<rparr> (Conn_close 0)
      \<lparr>ll_cap = 256, ll_slots = 0, ll_done = False, ll_inner = 0, ll_conns = [True]\<rparr>"
    using limit_conn [of 0 "\<lparr>ll_cap = 256, ll_slots = 0, ll_done = False, ll_inner = 0, ll_conns = [True]\<rparr>"]
    by (simp add: limitConn_Close_def)
  have 5: "limit_step \<lparr>ll_cap = 256, ll_slots = 0, ll_done = False, ll_inner = 0, ll_conns = [True]\<rparr> Listener_close ?l"
    using limit_listener [of "\<lparr>ll_cap = 256, ll_slots = 0, ll_done = False, ll_inner = 0, ll_conns = [True]\<rparr>"]
    by (simp add: limitListener_Close_def)
  have r: "run_of limit_step (newLimitListener maxTCPConns) [Take_slot, Accept_ok, Conn_close 0, Conn_close 0, Listener_close] ?l"
    using 1 2 3 4 5 by (blast intro: run_Cons run_Nil)
  have "open_conns ?l + ll_inner ?l = ll_slots ?l" using connections_limited [OF r] by blast
  then have "open_conns ?l = 0 \<and> ll_slots ?l = 0" by simp
  with r show ?thesis by blast
qed

section \<open>The servers\<close>

subsection \<open>Model\<close>

text \<open>Sockets are bound before anything serves. The result of \<open>Listen\<close> comes with whether the UDP socket is left open.\<close>

definition dns_Listen :: "string option \<Rightarrow> string option \<Rightarrow> (string + limitListener) \<times> bool" where
  "dns_Listen udpErr tcpErr = (case udpErr of
     Some e \<Rightarrow> (Inl (''dns: '' @ e), False)
   | None \<Rightarrow> (case tcpErr of Some e \<Rightarrow> (Inl (''dns: '' @ e), False) | None \<Rightarrow> (Inr (newLimitListener maxTCPConns), True)))"

definition ListenDoT :: "string \<Rightarrow> string option \<Rightarrow> string + limitListener" where
  "ListenDoT addr err = (case err of
     Some e \<Rightarrow> Inl (''dot: listen on '' @ addr @ '': '' @ e) | None \<Rightarrow> Inr (newLimitListener maxDoTConns))"

text \<open>A server of the DNS library with its sockets, \<open>None\<close> for none, else whether it is open.\<close>

record dns_server =
  dv_Net :: string
  dv_PacketConn :: "bool option"
  dv_Listener :: "bool option"

record DnsServer =
  dn_udp :: dns_server
  dn_tcp :: dns_server
  dn_dot :: "dns_server option"

definition NewServer :: DnsServer where
  "NewServer = \<lparr>dn_udp = \<lparr>dv_Net = ''udp'', dv_PacketConn = Some True, dv_Listener = None\<rparr>,
     dn_tcp = \<lparr>dv_Net = ''tcp'', dv_PacketConn = None, dv_Listener = Some True\<rparr>, dn_dot = None\<rparr>"

definition EnableDoT :: "DnsServer \<Rightarrow> DnsServer" where
  "EnableDoT s = s\<lparr>dn_dot := Some \<lparr>dv_Net = ''tcp-tls'', dv_PacketConn = None, dv_Listener = Some True\<rparr>\<rparr>"

definition servers :: "DnsServer \<Rightarrow> dns_server list" where
  "servers s = [dn_udp s, dn_tcp s] @ (case dn_dot s of None \<Rightarrow> [] | Some d \<Rightarrow> [d])"

text \<open>An error of a serve loop: one that wraps \<open>net.ErrClosed\<close>, or another.\<close>

datatype serve_error = Closed_listener string | Serve_error string

fun isClosedListener :: "serve_error \<Rightarrow> bool" where
  "isClosedListener (Closed_listener _) = True"
| "isClosedListener (Serve_error _) = False"

fun serve_listener :: "serve_error option \<Rightarrow> string option" where
  "serve_listener (Some e) = (if isClosedListener e then None else (case e of Serve_error m \<Rightarrow> Some m | Closed_listener m \<Rightarrow> Some m))"
| "serve_listener None = None"

text \<open>\<open>Start\<close> receives one value for each server, here in the order in which they arrive, and returns at the first error; the
  others are drained and logged.\<close>

fun dns_Start :: "serve_error option list \<Rightarrow> string option \<times> string list" where
  "dns_Start [] = (None, [])"
| "dns_Start (e # es) = (case serve_listener e of
     Some m \<Rightarrow> (Some (''dns: '' @ m), concat (map (\<lambda>e. case serve_listener e of Some m \<Rightarrow> [m] | None \<Rightarrow> []) es))
   | None \<Rightarrow> dns_Start es)"

text \<open>\<open>Shutdown\<close> closes the sockets of every server whatever the library's own shutdown returned.\<close>

definition close_sockets :: "dns_server \<Rightarrow> dns_server" where
  "close_sockets v = v\<lparr>dv_PacketConn := map_option (\<lambda>_. False) (dv_PacketConn v), dv_Listener := map_option (\<lambda>_. False) (dv_Listener v)\<rparr>"

definition dns_Shutdown :: "DnsServer \<Rightarrow> DnsServer" where
  "dns_Shutdown s = s\<lparr>dn_udp := close_sockets (dn_udp s), dn_tcp := close_sockets (dn_tcp s), dn_dot := map_option close_sockets (dn_dot s)\<rparr>"

subsection \<open>Lemmas\<close>

text \<open>\<open>Start\<close> fails exactly if some server failed with an error other than a closed socket, with the first such
  error, and reports every later one.\<close>

lemma Start_first_error:
  "dns_Start es = (case List.map_filter serve_listener es of [] \<Rightarrow> (None, []) | m # ms \<Rightarrow> (Some (''dns: '' @ m), ms))"
proof (induction es)
  case (Cons e es)
  have "concat (map (\<lambda>e. case serve_listener e of Some m \<Rightarrow> [m] | None \<Rightarrow> []) es) = List.map_filter serve_listener es"
    by (induction es) (auto simp: map_filter_simps split: option.splits)
  with Cons show ?case by (simp add: map_filter_simps split: option.split)
qed (simp add: map_filter_simps)

lemma Shutdown_closes: "v \<in> set (servers (dns_Shutdown s)) \<Longrightarrow> dv_PacketConn v \<noteq> Some True \<and> dv_Listener v \<noteq> Some True"
  by (auto simp: servers_def dns_Shutdown_def close_sockets_def split: option.splits)

end
