(* ===== verification/Host_Report.thy ===== *)
theory Host_Report
  imports List_Loader Lan_Acl Local_Names Query_Read Config_Privacy
begin

text \<open>
  What s-hole tells its operator while it runs: the privacy report, \<open>src/cmd/s-hole/report.go\<close>, and the check whether the host
  uses s-hole as its own resolver, \<open>src/cmd/s-hole/resolvcheck.go\<close>. The counts that the report reads through function
  fields, the content of the resolver files and the host's addresses are arguments; the result of an
  operation is its new state and the lines it logs.
\<close>

section \<open>The host's resolver\<close>

subsection \<open>Model\<close>

definition notShole :: "addr list" where
  "notShole = [Addr4 0x7F000035, Addr4 0x7F000036, Addr4 0x7F00000B]"

definition resolvFiles :: "string list" where
  "resolvFiles = [''/etc/resolv.conf'', ''/run/systemd/resolve/resolv.conf'']"

text \<open>A \<open>bufio.Scanner\<close> with its default buffer of 64 KiB.\<close>

definition resolv_lines :: "string \<Rightarrow> string list" where
  "resolv_lines s = map drop_cr (takeWhile (\<lambda>l. length l < 65536) (raw_lines s))"

definition line_server :: "iptext \<Rightarrow> string \<Rightarrow> addr option" where
  "line_server T l = (case Fields l of
     kw # v # _ \<Rightarrow> if kw = ''nameserver'' then map_option WithoutZone (ParseAddr T v) else None
   | _ \<Rightarrow> None)"

text \<open>The files in order, \<open>None\<close> for one that cannot be opened.\<close>

definition nameservers :: "iptext \<Rightarrow> string option list \<Rightarrow> addr list" where
  "nameservers T files = concat (map (\<lambda>f. case f of None \<Rightarrow> [] | Some s \<Rightarrow> List.map_filter (line_server T) (resolv_lines s)) files)"

definition line_domains :: "string \<Rightarrow> string list" where
  "line_domains l = (case Fields l of
     kw # v # vs \<Rightarrow> if kw = ''search'' \<or> kw = ''domain'' then v # vs else [] | _ \<Rightarrow> [])"

definition add_search :: "unicode \<Rightarrow> (string \<Rightarrow> bool) \<Rightarrow> string \<Rightarrow> string list \<Rightarrow> string list" where
  "add_search U isName v out =
     (let d = TrimSuffix (ToLower U v) ''.'' in
      if \<not> isName d \<or> d = [] \<or> d \<in> set out then out else out @ [d])"

definition searchDomains :: "unicode \<Rightarrow> (string \<Rightarrow> bool) \<Rightarrow> string option list \<Rightarrow> string list" where
  "searchDomains U isName files =
     fold (add_search U isName)
       (concat (map (\<lambda>f. case f of None \<Rightarrow> [] | Some s \<Rightarrow> concat (map line_domains (resolv_lines s))) files)) []"

text \<open>The domains that are logged as not local.\<close>

definition logSearchDomains :: "(string \<Rightarrow> bool) \<Rightarrow> string list \<Rightarrow> string list" where
  "logSearchDomains keepsLocal domains = filter (\<lambda>d. \<not> keepsLocal d) domains"

text \<open>Where s-hole listens: on every address, on one, or on none that a resolver can reach.\<close>

definition bound_addr :: "iptext \<Rightarrow> string \<Rightarrow> (addr option) option" where
  "bound_addr T dnsListen = (case SplitHostPort dnsListen of
     None \<Rightarrow> None
   | Some (host, port) \<Rightarrow>
       if port \<noteq> ''53'' then None
       else if host = [] then Some None
       else (case ParseAddr T host of
           None \<Rightarrow> None
         | Some a \<Rightarrow> if IsUnspecified (Unmap a) then Some None else Some (Some (Unmap a))))"

definition is_this_shole :: "addr list \<Rightarrow> addr option \<Rightarrow> addr \<Rightarrow> bool" where
  "is_this_shole own bound s \<longleftrightarrow> s \<notin> set notShole \<and> (IsLoopback s \<or> s \<in> set own) \<and> (bound = None \<or> bound = Some s)"

definition hostUsesShole :: "iptext \<Rightarrow> addr list \<Rightarrow> addr list \<Rightarrow> string \<Rightarrow> addr option" where
  "hostUsesShole T servers own dnsListen = (case bound_addr T dnsListen of
     None \<Rightarrow> None | Some b \<Rightarrow> find (is_this_shole own b) (map Unmap servers))"

definition ownAddrs :: "string + net_addr list \<Rightarrow> addr list" where
  "ownAddrs addrs = (case addrs of
     Inl _ \<Rightarrow> []
   | Inr as \<Rightarrow> List.map_filter (\<lambda>a. case a of IPNet bs _ \<Rightarrow> map_option Unmap (AddrFromSlice bs) | OtherNetAddr \<Rightarrow> None) as)"

datatype resolver_line = Uses_shole addr | No_longer_uses

text \<open>One check: \<open>warned\<close> and the line.\<close>

definition resolver_check :: "addr option \<Rightarrow> bool \<Rightarrow> bool \<times> resolver_line option" where
  "resolver_check found warned = (case found of
     Some a \<Rightarrow> (True, if warned then None else Some (Uses_shole a))
   | None \<Rightarrow> (False, if warned then Some No_longer_uses else None))"

fun runResolverCheck :: "addr option list \<Rightarrow> bool \<Rightarrow> resolver_line list" where
  "runResolverCheck [] warned = []"
| "runResolverCheck (f # fs) warned = (case resolver_check f warned of
     (w, line) \<Rightarrow> (case line of None \<Rightarrow> [] | Some l \<Rightarrow> [l]) @ runResolverCheck fs w)"

subsection \<open>Lemmas\<close>

lemma uses_shole_iff:
  "hostUsesShole T servers own dnsListen \<noteq> None \<longleftrightarrow>
     (\<exists>b. bound_addr T dnsListen = Some b \<and> (\<exists>s \<in> set servers. is_this_shole own b (Unmap s)))"
  by (cases "bound_addr T dnsListen") (auto simp: hostUsesShole_def find_None_iff simp del: not_None_eq)

fun is_warning :: "resolver_line \<Rightarrow> bool" where
  "is_warning (Uses_shole _) = True"
| "is_warning No_longer_uses = False"

text \<open>Each line reports a change: the lines are a warning and its end in turn, and the last one tells the last check.\<close>

fun alternates :: "bool \<Rightarrow> resolver_line list \<Rightarrow> bool" where
  "alternates w [] = True"
| "alternates w (l # ls) = (is_warning l \<noteq> w \<and> alternates (is_warning l) ls)"

lemma runResolverCheck_alternates:
  "alternates w (runResolverCheck fs w)
   \<and> (if runResolverCheck fs w = [] then w else is_warning (last (runResolverCheck fs w))) = (if fs = [] then w else last fs \<noteq> None)"
proof (induction fs arbitrary: w)
  case (Cons f fs)
  show ?case using Cons.IH [of "f \<noteq> None"]
    by (cases f; cases w) (simp_all add: resolver_check_def split: if_splits)
qed simp

section \<open>The privacy report\<close>

subsection \<open>Model\<close>

type_synonym u64 = "64 word"

record privacyReport =
  pv_settings :: "Warning list"
  pv_plaintext :: bool                  \<comment> \<open>whether the function is set\<close>
  pv_lastPlaintext :: u64
  pv_refused :: bool
  pv_lastRefused :: u64
  pv_stale :: StaleReport

definition staleWarning :: "(int \<Rightarrow> string) \<Rightarrow> StaleReport \<Rightarrow> string" where
  "staleWarning date r =
     ''the query database holds '' @ (if sr_Rows r = 1 then ''1 row'' else Itoa (int (sr_Rows r)) @ '' rows'')
     @ '' written under a less private setting; ''
     @ (case sr_Expires r of
          None \<Rightarrow> ''retention does not remove them, because query_log.retention_days is 0''
        | Some t \<Rightarrow> ''retention removes the last of them by '' @ date t)
     @ ''. Run s-hole -purge to delete all history now''"

text \<open>\<open>checkStale\<close> keeps the last report when the read fails; the second result is whether it logs the warning.\<close>

definition checkStale :: "string + StaleReport \<Rightarrow> bool \<Rightarrow> privacyReport \<Rightarrow> privacyReport \<times> bool" where
  "checkStale outcome announce p = (case outcome of
     Inl _ \<Rightarrow> (p, False)
   | Inr r \<Rightarrow> (p\<lparr>pv_stale := r\<rparr>, announce \<and> 0 < sr_Rows r))"

text \<open>\<open>runStaleChecks\<close> on the outcomes of its hourly checks.\<close>

definition runStaleChecks :: "(string + StaleReport) list \<Rightarrow> privacyReport \<Rightarrow> privacyReport" where
  "runStaleChecks outcomes p = fold (\<lambda>outcome p. fst (checkStale outcome False p)) outcomes p"

definition setting_items :: "(int \<Rightarrow> string) \<Rightarrow> privacyReport \<Rightarrow> string list" where
  "setting_items date p = map (\<lambda>w. wn_Key w @ '': '' @ wn_Detail w) (pv_settings p)
     @ (if 0 < sr_Rows (pv_stale p) then [''query_log.database: '' @ staleWarning date (pv_stale p)] else [])"

definition plaintext_item :: "u64 \<Rightarrow> string \<Rightarrow> string" where
  "plaintext_item n since = ''dns.upstreams: '' @ Itoa (uint n) @ '' queries were sent unencrypted since '' @ since @ '', because every DoH upstream had failed''"

definition refused_item :: "u64 \<Rightarrow> string \<Rightarrow> string" where
  "refused_item n since = ''dns.listen: '' @ Itoa (uint n) @ '' queries from outside the LAN were refused since '' @ since"

definition report_current :: "(int \<Rightarrow> string) \<Rightarrow> u64 \<Rightarrow> u64 \<Rightarrow> privacyReport \<Rightarrow> string list" where
  "report_current date plaintext refused p =
     setting_items date p
     @ (if pv_plaintext p \<and> 0 < plaintext then [plaintext_item plaintext ''startup''] else [])
     @ (if pv_refused p \<and> 0 < refused then [refused_item refused ''startup''] else [])"

text \<open>\<open>logPeriodic\<close>: the line, if there is any item, and the counts for the next one.\<close>

definition logPeriodic :: "(int \<Rightarrow> string) \<Rightarrow> u64 \<Rightarrow> u64 \<Rightarrow> privacyReport \<Rightarrow> privacyReport \<times> string list" where
  "logPeriodic date plaintext refused p =
     (let n = plaintext - pv_lastPlaintext p; m = refused - pv_lastRefused p;
          items = setting_items date p
            @ (if pv_plaintext p \<and> 0 < n then [plaintext_item n ''the last stats line''] else [])
            @ (if pv_refused p \<and> 0 < m then [refused_item m ''the last stats line''] else [])
      in (p\<lparr>pv_lastPlaintext := (if pv_plaintext p then plaintext else pv_lastPlaintext p),
            pv_lastRefused := (if pv_refused p then refused else pv_lastRefused p)\<rparr>, items))"

subsection \<open>Lemmas\<close>

text \<open>The counts that the periodic lines show for a sequence of readings.\<close>

fun shown_fallbacks :: "(int \<Rightarrow> string) \<Rightarrow> (u64 \<times> u64) list \<Rightarrow> privacyReport \<Rightarrow> u64 list" where
  "shown_fallbacks date [] p = []"
| "shown_fallbacks date ((n, m) # ns) p = (n - pv_lastPlaintext p) # shown_fallbacks date ns (fst (logPeriodic date n m p))"

text \<open>Together the lines show every fallback once, modulo the width of the counter.\<close>

lemma shown_sum:
  "pv_plaintext p \<Longrightarrow> sum_list (shown_fallbacks date ns p) = last (pv_lastPlaintext p # map fst ns) - pv_lastPlaintext p"
  by (induction date ns p rule: shown_fallbacks.induct) (auto simp: logPeriodic_def Let_def)

end
