(* ===== verification/Purge_All.thy ===== *)
theory Purge_All
  imports Admin_Api Query_Db Zero_File Config_Load Response_Cache
begin

text \<open>
  Deleting the history, \<open>src/cmd/s-hole/purge.go\<close>: the purge of a running s-hole over its database, log file, list
  cache, counters and response cache; the purge of the files of an s-hole that is not running; the
  commands \<open>-purge\<close> and \<open>-healthcheck\<close>. The outcomes of the system calls are records, the text of an error is a
  function of the environment, and the file system of an offline purge is a map from paths to contents.
\<close>

section \<open>Model\<close>

definition step_of :: "string \<Rightarrow> string \<Rightarrow> bool \<Rightarrow> PurgeStep" where
  "step_of what result failed = \<lparr>ps_What = what, ps_Result = result, ps_Failed = failed\<rparr>"

definition journalNote :: string where
  "journalNote = ''query lines went to standard output (the system journal or the container log), which s-hole cannot change. ''
     @ ''To delete them, clear the journal (journalctl --rotate && journalctl --vacuum-time=1s, which deletes the logs of every service) ''
     @ ''or recreate the container''"

subsection \<open>A running s-hole\<close>

record purgeTargets =
  pt_db :: "DBLogger option"
  pt_fileLog :: "FileLogger option"
  pt_counter :: Counter
  pt_dnsCache :: "Cache option"
  pt_resetGraph :: bool                 \<comment> \<open>whether the function is set\<close>
  pt_cached :: "string list"            \<comment> \<open>the names in \<open>blocking.cache_dir\<close>\<close>

record online_env =
  on_db :: purge_env
  on_dbWait :: purge_wait
  on_file :: trunc_env
  on_fileWait :: purge_wait
  on_glob :: "string option"
  on_rm :: "string \<Rightarrow> string option"
  on_dbText :: "db_error \<Rightarrow> string"     \<comment> \<open>\<open>err.Error()\<close>\<close>
  on_fileText :: "file_error \<Rightarrow> string"

definition purge_db :: "online_env \<Rightarrow> DBLogger option \<Rightarrow> DBLogger option \<times> PurgeStep" where
  "purge_db E d = (case d of
     None \<Rightarrow> (None, step_of ''query database'' ''off, nothing stored'' False)
   | Some l \<Rightarrow> (case DBLogger_Purge (on_db E) (on_dbWait E) l of
       (l', Some e) \<Rightarrow> (Some l', step_of ''query database'' (''delete failed: '' @ on_dbText E e) True)
     | (l', None) \<Rightarrow> (Some l', step_of ''query database'' ''every row deleted and the file rewritten'' False)))"

definition purge_file :: "online_env \<Rightarrow> FileLogger option \<Rightarrow> FileLogger option \<times> PurgeStep" where
  "purge_file E f = (case f of
     None \<Rightarrow> (None, step_of ''query log file'' ''off, nothing stored'' False)
   | Some l \<Rightarrow> (case FileLogger_Purge (on_file E) (on_fileWait E) l of
       (l', None) \<Rightarrow> (Some l', step_of ''query log file'' ''emptied'' False)
     | (l', Some ErrStdoutNotPurgeable) \<Rightarrow> (Some l', step_of ''query log output'' journalNote False)
     | (l', Some (ErrNotOverwritten z)) \<Rightarrow> (Some l', step_of ''query log file'' (on_fileText E (ErrNotOverwritten z)) True)
     | (l', Some e) \<Rightarrow> (Some l', step_of ''query log file'' (''empty failed: '' @ on_fileText E e) True)))"

definition purge_lists :: "online_env \<Rightarrow> string list \<Rightarrow> string list \<times> PurgeStep" where
  "purge_lists E names = (case PurgeCache (on_glob E) (on_rm E) names of
     (left, n, Some e) \<Rightarrow> (left, step_of ''downloaded blocklists'' (Itoa (int n) @ '' files deleted, then: '' @ e) True)
   | (left, n, None) \<Rightarrow> (left, step_of ''downloaded blocklists'' (Itoa (int n) @ '' files deleted; the next reload downloads them again'') False))"

text \<open>\<open>purgeTargets.purge\<close>: every step runs whatever the others did.\<close>

definition targets_purge :: "online_env \<Rightarrow> purgeTargets \<Rightarrow> purgeTargets \<times> PurgeReport" where
  "targets_purge E t =
     (let (db, s1) = purge_db E (pt_db t);
          (fl, s2) = purge_file E (pt_fileLog t);
          (names, s3) = purge_lists E (pt_cached t);
          c1 = ResetTallies (pt_counter t);
          c2 = (if pt_resetGraph t then ResetTimeline c1 else c1)
      in (t\<lparr>pt_db := db, pt_fileLog := fl, pt_cached := names, pt_counter := c2, pt_dnsCache := map_option cache_Flush (pt_dnsCache t)\<rparr>,
          [s1, s2, s3, step_of ''Top Domains and Top Clients'' ''emptied'' False]
          @ (if pt_resetGraph t then [step_of ''per-minute graph'' ''emptied'' False] else [])
          @ (if pt_dnsCache t \<noteq> None then [step_of ''DNS response cache'' ''emptied'' False] else [])))"

subsection \<open>The files of an s-hole that is not running\<close>

type_synonym files = "string \<Rightarrow> string option"

record offline_env =
  of_zero :: "string \<Rightarrow> zero_env"        \<comment> \<open>the calls of \<open>ZeroFile\<close> on an existing path\<close>
  of_remove :: "string \<Rightarrow> string option"
  of_abs :: "string \<Rightarrow> string option"
  of_glob :: "string option"
  of_rm :: "string \<Rightarrow> string option"
  of_zeroText :: "string \<Rightarrow> zero_error \<Rightarrow> string"

text \<open>\<open>ZeroFile\<close> on a path: \<open>Lstat\<close> of a path that names no file fails with \<open>ErrNotExist\<close>.\<close>

definition zero_path :: "offline_env \<Rightarrow> files \<Rightarrow> string \<Rightarrow> files \<times> zero_error option" where
  "zero_path E fs p = (case fs p of
     None \<Rightarrow> (fs, Some NotExist)
   | Some b \<Rightarrow> (case ZeroFile (of_zero E p) b of (b', _, err) \<Rightarrow> (fs(p \<mapsto> b'), err)))"

text \<open>One path of \<open>wipe\<close>: the files, what \<open>os.Remove\<close> removed so far with its content, whether a path existed, and the errors.\<close>

type_synonym wiping = "files \<times> (string \<times> string) list \<times> bool \<times> string list"

definition wipe_one :: "offline_env \<Rightarrow> string \<Rightarrow> wiping \<Rightarrow> wiping" where
  "wipe_one E p st = (case st of (fs, gone, found, errs) \<Rightarrow>
     (case zero_path E fs p of
        (fs1, Some NotExist) \<Rightarrow> (fs1, gone, found, errs)
      | (fs1, Some e) \<Rightarrow> (fs1, gone, True, errs @ [of_zeroText E p e])
      | (fs1, None) \<Rightarrow> (case of_remove E p of
            Some e \<Rightarrow> (fs1, gone, True, errs @ [e])
          | None \<Rightarrow> (fs1(p := None), gone @ [(p, the (fs1 p))], True, errs))))"

definition joinErrs :: "string list \<Rightarrow> string option" where
  "joinErrs msgs = (if msgs = [] then None else Some (Join msgs ''; ''))"

definition wipe :: "offline_env \<Rightarrow> string list \<Rightarrow> files \<Rightarrow> files \<times> (string \<times> string) list \<times> bool \<times> string option" where
  "wipe E paths fs = (case fold (wipe_one E) paths (fs, [], False, []) of
     (fs', gone, found, errs) \<Rightarrow> (fs', gone, found, joinErrs errs))"

definition abs_or :: "offline_env \<Rightarrow> string \<Rightarrow> string" where
  "abs_or E p = (case of_abs E p of Some a \<Rightarrow> a | None \<Rightarrow> p)"

text \<open>The step of one configured output with its texts; the last component is the contribution to \<open>notFound\<close>.\<close>

definition wipe_step :: "offline_env \<Rightarrow> string \<Rightarrow> string \<Rightarrow> string \<Rightarrow> string list \<Rightarrow> files \<Rightarrow> files \<times> (string \<times> string) list \<times> PurgeStep \<times> bool" where
  "wipe_step E what ok path paths fs = (case wipe E paths fs of
     (fs', gone, found, Some e) \<Rightarrow> (fs', gone, step_of what (''delete failed: '' @ e) True, False)
   | (fs', gone, found, None) \<Rightarrow>
       if \<not> found then (fs', gone, step_of what (''not found at '' @ abs_or E path) False, True)
       else (fs', gone, step_of what ok False, False))"

definition offline_db :: "offline_env \<Rightarrow> Config \<Rightarrow> files \<Rightarrow> files \<times> (string \<times> string) list \<times> PurgeStep \<times> bool" where
  "offline_db E c fs = (let db = QL_Database (c_QueryLog c) in
     if db = [] then (fs, [], step_of ''query database'' ''off, nothing stored'' False, False)
     else wipe_step E ''query database'' ''files deleted'' db [db, db @ ''-wal'', db @ ''-shm''] fs)"

definition offline_file :: "offline_env \<Rightarrow> Config \<Rightarrow> files \<Rightarrow> files \<times> (string \<times> string) list \<times> PurgeStep \<times> bool" where
  "offline_file E c fs = (let f = QL_File (c_QueryLog c) in
     if f = [] then (fs, [], step_of ''query log file'' ''off, nothing stored'' False, False)
     else if f = ''stdout'' then (fs, [], step_of ''query log output'' journalNote False, False)
     else wipe_step E ''query log file'' ''deleted'' f [f] fs)"

definition offline_lists :: "offline_env \<Rightarrow> Config \<Rightarrow> string list \<Rightarrow> string list \<times> PurgeStep" where
  "offline_lists E c names = (case PurgeCache (of_glob E) (of_rm E) names of
     (left, n, Some e) \<Rightarrow> (left, step_of ''downloaded blocklists'' (Itoa (int n) @ '' files deleted, then: '' @ e) True)
   | (left, n, None) \<Rightarrow>
       if n = 0 \<and> Blk_Lists (c_Blocking c) \<noteq> [] then
         (left, step_of ''downloaded blocklists'' (''none found in '' @ abs_or E (Blk_CacheDir (c_Blocking c))) False)
       else (left, step_of ''downloaded blocklists'' (Itoa (int n) @ '' files deleted'') False))"

record offline_result =
  or_files :: files
  or_names :: "string list"
  or_gone :: "(string \<times> string) list"   \<comment> \<open>the paths removed, each with its content when it was removed\<close>
  or_report :: PurgeReport
  or_notFound :: bool

definition purgeOffline :: "offline_env \<Rightarrow> Config \<Rightarrow> files \<Rightarrow> string list \<Rightarrow> offline_result" where
  "purgeOffline E c fs names =
     (let (fs1, gone1, s1, nf1) = offline_db E c fs;
          (fs2, gone2, s2, nf2) = offline_file E c fs1;
          (left, s3) = offline_lists E c names
      in \<lparr>or_files = fs2, or_names = left, or_gone = gone1 @ gone2, or_report = [s1, s2, s3], or_notFound = nf1 \<or> nf2\<rparr>)"

subsection \<open>The commands\<close>

definition JoinHostPort :: "string \<Rightarrow> string \<Rightarrow> string" where
  "JoinHostPort host port = (if CHR '':'' \<in> set host then ''['' @ host @ '']:'' @ port else host @ '':'' @ port)"

definition localAdminAddr :: "iptext \<Rightarrow> string \<Rightarrow> string option" where
  "localAdminAddr T adminListen = (case SplitHostPort adminListen of
     None \<Rightarrow> None
   | Some (host, port) \<Rightarrow>
       let wild = (host = [] \<or> (case ParseIP T host of Some ip \<Rightarrow> IsUnspecified ip | None \<Rightarrow> False))
       in Some (JoinHostPort (if wild then ''127.0.0.1'' else host) port))"

text \<open>The outcome of the request to the running s-hole: an error of the client, of which one is a refused connection, or the
  reply's status line, the first megabyte of its body, and the report that this decodes to.\<close>

datatype api_reply = Conn_refused | Client_error string | Api_reply string string "PurgeReport option"

datatype purge_error = Not_running | Bad_address | Purge_failed string

definition purgeViaAPI :: "iptext \<Rightarrow> string \<Rightarrow> (string \<Rightarrow> api_reply) \<Rightarrow> purge_error + PurgeReport" where
  "purgeViaAPI T adminListen post = (case localAdminAddr T adminListen of
     None \<Rightarrow> Inl Bad_address
   | Some addr \<Rightarrow> (case post (''http://'' @ addr @ ''/api/purge'') of
       Conn_refused \<Rightarrow> Inl Not_running
     | Client_error e \<Rightarrow> Inl (Purge_failed e)
     | Api_reply status body rep \<Rightarrow> (case rep of
         Some (s # ss) \<Rightarrow> Inr (s # ss)
       | _ \<Rightarrow> Inl (Purge_failed (''the running s-hole refused the purge: '' @ status @ '' '' @ TrimSpace body)))))"

text \<open>The exit code, and what an offline purge did when it ran.\<close>

definition runPurge :: "iptext \<Rightarrow> (Problem list \<times> (string + Config)) \<Rightarrow> (string \<Rightarrow> api_reply) \<Rightarrow> offline_env \<Rightarrow> files \<Rightarrow> string list
    \<Rightarrow> int \<times> offline_result option" where
  "runPurge T loaded post E fs names = (case snd loaded of
     Inl err \<Rightarrow> (1, None)
   | Inr cfg \<Rightarrow> (case purgeViaAPI T (Adm_Listen (c_Admin cfg)) post of
       Inr rep \<Rightarrow> (if report_Failed rep then 1 else 0, None)
     | Inl Not_running \<Rightarrow> (let r = purgeOffline E cfg fs names in (if report_Failed (or_report r) then 1 else 0, Some r))
     | Inl _ \<Rightarrow> (1, None)))"

text \<open>\<open>runHealthcheck\<close>: the reply of \<open>/readyz\<close> is its status code, or none for an error.\<close>

definition runHealthcheck :: "iptext \<Rightarrow> (Problem list \<times> (string + Config)) \<Rightarrow> (string \<Rightarrow> int option) \<Rightarrow> int" where
  "runHealthcheck T loaded get = (case snd loaded of
     Inl err \<Rightarrow> 1
   | Inr cfg \<Rightarrow> (case localAdminAddr T (Adm_Listen (c_Admin cfg)) of
       None \<Rightarrow> 1
     | Some addr \<Rightarrow> if get (''http://'' @ addr @ ''/readyz'') = Some 200 then 0 else 1))"

section \<open>Lemmas\<close>

subsection \<open>Online\<close>

lemma PurgeCache_keeps:
  "subseq (fst (PurgeCache bad rm names)) names
   \<and> filter (\<lambda>m. \<not> purge_matches m) (fst (PurgeCache bad rm names)) = filter (\<lambda>m. \<not> purge_matches m) names"
  by (auto simp: PurgeCache_def purge_fold split: option.split intro!: filter_cong)

lemma PurgeCache_ok: "PurgeCache bad rm names = (left, n, None) \<Longrightarrow> list_all (\<lambda>m. \<not> purge_matches m) left"
proof -
  assume r: "PurgeCache bad rm names = (left, n, None)"
  then have left: "left = filter (\<lambda>m. \<not> (purge_matches m \<and> rm m = None)) names"
    and e: "(case filter (\<lambda>m. purge_matches m \<and> rm m \<noteq> None) names of [] \<Rightarrow> None | m # _ \<Rightarrow> rm m) = None"
    by (auto simp: PurgeCache_def purge_fold split: option.splits)
  have "filter (\<lambda>m. purge_matches m \<and> rm m \<noteq> None) names = []"
  proof (rule ccontr)
    assume "\<not> ?thesis"
    then obtain m ms where m: "filter (\<lambda>m. purge_matches m \<and> rm m \<noteq> None) names = m # ms" by (auto simp: neq_Nil_conv)
    then have "m \<in> set (filter (\<lambda>m. purge_matches m \<and> rm m \<noteq> None) names)" by simp
    then show False using e m by simp
  qed
  then show ?thesis using left by (auto simp: list_all_iff filter_empty_conv)
qed

lemma writer_purge_ok:
  assumes "writer_purge E l = (l', None)"
  shows "contents l' = [] \<and> db_seq (dl_db l') = 0"
proof -
  have "snd (purgeAll E (dl_db l)) = None" and l: "l' = l\<lparr>dl_batch := [], dl_ch := [], dl_db := fst (purgeAll E (dl_db l))\<rparr>"
    using assms by (auto simp: writer_purge_def Let_def split: prod.splits)
  then show ?thesis using purgeAll_done by (simp add: contents_def)
qed

lemma purge_db_ok: "purge_db E d = (d', s) \<Longrightarrow> \<not> ps_Failed s \<Longrightarrow> d' = Some l' \<Longrightarrow> contents l' = [] \<and> db_seq (dl_db l') = 0"
  using writer_purge_ok
  by (fastforce simp: purge_db_def step_of_def DBLogger_Purge_def split: option.splits prod.splits if_splits purge_wait.splits)

lemma purge_file_ok:
  assumes "purge_file E f = (f', s)" "\<not> ps_Failed s" "f' = Some l'"
  shows "fl_ch l' = [] \<and> (fl_written l' = [] \<or> fl_stdout l')"
proof -
  obtain l where f: "f = Some l" using assms(1,3) by (cases f) (auto simp: purge_file_def)
  obtain err where r: "FileLogger_Purge (on_file E) (on_fileWait E) l = (l', err)" "err \<in> {None, Some ErrStdoutNotPurgeable}"
    using assms f by (auto simp: purge_file_def step_of_def split: prod.splits option.splits file_error.splits)
  then have "truncate_log (on_file E) l = (l', err)"
    by (auto simp: FileLogger_Purge_def split: if_splits purge_wait.splits)
  then show ?thesis using r(2) truncate_log_cases [of "on_file E" l] by auto
qed

lemma purge_lists_ok: "purge_lists E names = (left, s) \<Longrightarrow> \<not> ps_Failed s \<Longrightarrow> list_all (\<lambda>m. \<not> purge_matches m) left"
  using PurgeCache_ok by (fastforce simp: purge_lists_def step_of_def split: prod.splits option.splits)

subsection \<open>Offline\<close>

text \<open>The system calls on an existing file do not say that it does not exist, and \<open>Stat\<close> gives its size.\<close>

definition present :: "zero_env \<Rightarrow> bool" where
  "present E \<longleftrightarrow> z_Lstat E \<noteq> Inl NotExist \<and> z_Open E \<noteq> Some NotExist \<and> z_Stat E \<noteq> Inl NotExist
     \<and> (\<forall>off. z_WriteAt E off \<noteq> Some NotExist) \<and> z_Sync1 E \<noteq> Some NotExist \<and> z_Sync2 E \<noteq> Some NotExist \<and> z_Close E \<noteq> Some NotExist"

definition files_ok :: "offline_env \<Rightarrow> files \<Rightarrow> bool" where
  "files_ok E fs \<longleftrightarrow> (\<forall>p b. fs p = Some b \<longrightarrow> present (of_zero E p) \<and> (\<forall>fi. z_Stat (of_zero E p) = Inr fi \<longrightarrow> length b = fi_Size fi))"

lemma zero_loop_present: "present E \<Longrightarrow> snd (snd (zero_loop E sz off b)) \<noteq> Some NotExist"
proof (induction E sz off b rule: zero_loop.induct)
  case (1 E sz off b)
  then show ?case by (subst zero_loop.simps) (auto simp: present_def Let_def split: option.splits prod.splits)
qed

lemma writeZeros_present:
  assumes "present E"
  shows "snd (snd (writeZeros E lfi want b)) \<noteq> Some NotExist"
proof (cases "z_Stat E")
  case (Inr fi)
  let ?h = "min (fi_Size fi) zeroHead"
  obtain b2 acts err where z: "zero_loop E (fi_Size fi) ?h (write_at b 0 ?h) = (b2, acts, err)" by (metis prod_cases3)
  have "err \<noteq> Some NotExist" using zero_loop_present [OF assms, of "fi_Size fi" ?h "write_at b 0 ?h"] z by simp
  then show ?thesis using assms z Inr
    by (cases "z_WriteAt E 0"; cases "z_Sync1 E"; cases err) (auto simp: writeZeros_def Let_def present_def)
qed (use assms in \<open>auto simp: writeZeros_def present_def\<close>)

lemma ZeroFile_present:
  assumes "present E"
  shows "snd (snd (ZeroFile E b)) \<noteq> Some NotExist"
proof (cases "z_Lstat E")
  case (Inr lfi)
  obtain b2 acts err where z: "writeZeros E lfi None b = (b2, acts, err)" by (metis prod_cases3)
  have "err \<noteq> Some NotExist" using writeZeros_present [OF assms, of lfi None b] z by simp
  then show ?thesis using assms z Inr by (cases "z_Open E") (auto simp: ZeroFile_def zeroFile_def present_def)
qed (use assms in \<open>auto simp: ZeroFile_def zeroFile_def present_def\<close>)

lemma ZeroFile_result:
  assumes "\<forall>fi. z_Stat E = Inr fi \<longrightarrow> length b = fi_Size fi" "ZeroFile E b = (b', acts, err)"
  shows "length b' = length b" "err = None \<Longrightarrow> b' = replicate (length b) (CHR 0x00)"
proof -
  have "length b' = length b \<and> (err = None \<longrightarrow> b' = replicate (length b) (CHR 0x00))"
  proof (cases "z_Stat E")
    case (Inl e)
    then show ?thesis using assms(2)
      by (auto simp: ZeroFile_def zeroFile_def writeZeros_def split: sum.splits option.splits if_splits)
  next
    case (Inr fi)
    then show ?thesis using zeroFile_overwrites [of E None b b' acts err fi] assms by (simp add: ZeroFile_def)
  qed
  then show "length b' = length b" "err = None \<Longrightarrow> b' = replicate (length b) (CHR 0x00)" by auto
qed

text \<open>A wipe removes files or overwrites them in place: it creates none and changes no length.\<close>

definition shrinks :: "files \<Rightarrow> files \<Rightarrow> bool" where
  "shrinks fs fs' \<longleftrightarrow> (\<forall>q b'. fs' q = Some b' \<longrightarrow> (\<exists>b. fs q = Some b \<and> length b' = length b))"

lemma shrinks_refl [simp]: "shrinks fs fs"
  by (simp add: shrinks_def)

lemma shrinks_trans: "shrinks a b \<Longrightarrow> shrinks b c \<Longrightarrow> shrinks a c"
  unfolding shrinks_def by metis

lemma shrinks_none: "shrinks fs fs' \<Longrightarrow> fs q = None \<Longrightarrow> fs' q = None"
  by (cases "fs' q") (fastforce simp: shrinks_def)+

lemma files_ok_shrinks: "files_ok E fs \<Longrightarrow> shrinks fs fs' \<Longrightarrow> files_ok E fs'"
  unfolding files_ok_def shrinks_def by metis

text \<open>What was removed held only zeros, as many as the file had bytes.\<close>

definition zeroed :: "files \<Rightarrow> (string \<times> string) list \<Rightarrow> bool" where
  "zeroed fs gone \<longleftrightarrow> (\<forall>(q, b) \<in> set gone. \<exists>b0. fs q = Some b0 \<and> b = replicate (length b0) (CHR 0x00))"

lemma zeroed_append [simp]: "zeroed fs (xs @ ys) \<longleftrightarrow> zeroed fs xs \<and> zeroed fs ys" "zeroed fs []"
  unfolding zeroed_def by (simp_all add: ball_Un)

lemma zeroed_shrinks: "zeroed fs' gone \<Longrightarrow> shrinks fs fs' \<Longrightarrow> zeroed fs gone"
  unfolding zeroed_def shrinks_def by fastforce

lemma wipe_one_spec:
  assumes "files_ok E fs" "wipe_one E p (fs, gone, found, errs) = (fs', gone', found', errs')"
  shows "\<exists>new e. gone' = gone @ new \<and> errs' = errs @ e \<and> shrinks fs fs' \<and> zeroed fs new \<and> (\<forall>q. q \<noteq> p \<longrightarrow> fs' q = fs q)
     \<and> (e = [] \<longrightarrow> fs' p = None) \<and> (found' \<longleftrightarrow> found \<or> fs p \<noteq> None) \<and> fst ` set new \<subseteq> {p}"
proof (cases "fs p")
  case None
  then show ?thesis using assms(2) by (auto simp: wipe_one_def zero_path_def)
next
  case (Some b)
  obtain b' acts err where z: "ZeroFile (of_zero E p) b = (b', acts, err)" by (metis prod_cases3)
  have st: "\<forall>fi. z_Stat (of_zero E p) = Inr fi \<longrightarrow> length b = fi_Size fi" and "present (of_zero E p)"
    using assms(1) Some by (auto simp: files_ok_def)
  then have ne: "err \<noteq> Some NotExist" using ZeroFile_present [of "of_zero E p" b] z by simp
  note r = ZeroFile_result [OF st z]
  have sh: "shrinks fs (fs(p \<mapsto> b'))" "shrinks fs (fs(p := None))" using Some r(1) by (auto simp: shrinks_def)
  show ?thesis
  proof (cases err)
    case None
    then show ?thesis using assms(2) Some z sh r
      by (cases "of_remove E p") (auto simp: wipe_one_def zero_path_def zeroed_def)
  next
    case (Some e)
    with ne have "e \<noteq> NotExist" by simp
    then show ?thesis using assms(2) \<open>fs p = Some b\<close> z Some sh
      by (cases e) (auto simp: wipe_one_def zero_path_def)
  qed
qed

lemma wipe_fold:
  assumes "files_ok E fs" "fold (wipe_one E) ps (fs, gone, found, errs) = (fs', gone', found', errs')"
  shows "\<exists>new e. gone' = gone @ new \<and> errs' = errs @ e \<and> shrinks fs fs' \<and> zeroed fs new \<and> (\<forall>q. q \<notin> set ps \<longrightarrow> fs' q = fs q)
     \<and> (e = [] \<longrightarrow> (\<forall>p \<in> set ps. fs' p = None)) \<and> (found' \<longleftrightarrow> found \<or> (\<exists>p \<in> set ps. fs p \<noteq> None)) \<and> fst ` set new \<subseteq> set ps"
  using assms
proof (induction ps arbitrary: fs gone found errs)
  case Nil
  then show ?case by auto
next
  case (Cons p ps)
  obtain fs1 g1 f1 e1 where w: "wipe_one E p (fs, gone, found, errs) = (fs1, g1, f1, e1)" by (metis prod_cases4)
  from wipe_one_spec [OF Cons.prems(1) w] obtain n1 x1 where 1: "g1 = gone @ n1" "e1 = errs @ x1" "shrinks fs fs1" "zeroed fs n1"
    "\<forall>q. q \<noteq> p \<longrightarrow> fs1 q = fs q" "x1 = [] \<longrightarrow> fs1 p = None" "f1 \<longleftrightarrow> found \<or> fs p \<noteq> None" "fst ` set n1 \<subseteq> {p}" by blast
  have "files_ok E fs1" using files_ok_shrinks [OF Cons.prems(1) 1(3)] .
  moreover have "fold (wipe_one E) ps (fs1, g1, f1, e1) = (fs', gone', found', errs')" using Cons.prems(2) w by simp
  ultimately obtain n2 x2 where 2: "gone' = g1 @ n2" "errs' = e1 @ x2" "shrinks fs1 fs'" "zeroed fs1 n2"
    "\<forall>q. q \<notin> set ps \<longrightarrow> fs' q = fs1 q" "x2 = [] \<longrightarrow> (\<forall>p \<in> set ps. fs' p = None)"
    "found' \<longleftrightarrow> f1 \<or> (\<exists>p \<in> set ps. fs1 p \<noteq> None)" "fst ` set n2 \<subseteq> set ps" using Cons.IH [of fs1 g1 f1 e1] by blast
  have f: "(\<exists>q \<in> set ps. fs1 q \<noteq> None) \<or> fs p \<noteq> None \<longleftrightarrow> (\<exists>q \<in> set ps. fs q \<noteq> None) \<or> fs p \<noteq> None"
    using 1(5) shrinks_none [OF 1(3)] by metis
  have n: "x1 = [] \<longrightarrow> fs' p = None" using 1(6) shrinks_none [OF 2(3)] by blast
  have o: "\<forall>q. q \<notin> set (p # ps) \<longrightarrow> fs' q = fs q" using 1(5) 2(5) by simp
  have z: "zeroed fs (n1 @ n2)" using zeroed_shrinks [OF 2(4) 1(3)] 1(4) by simp
  have e: "x1 @ x2 = [] \<longrightarrow> (\<forall>q \<in> set (p # ps). fs' q = None)" using n 2(6) by simp
  have fo: "found' \<longleftrightarrow> found \<or> (\<exists>q \<in> set (p # ps). fs q \<noteq> None)"
    unfolding 2(7) 1(7) list.set bex_simps using f by blast
  have g: "fst ` set (n1 @ n2) \<subseteq> set (p # ps)" using 1(8) 2(8) by (simp add: image_Un le_supI1 le_supI2 subset_insertI2) blast
  have "gone' = gone @ n1 @ n2" "errs' = errs @ x1 @ x2" using 1(1,2) 2(1,2) by simp_all
  then show ?case using o z e fo g shrinks_trans [OF 1(3) 2(3)] by blast
qed

lemma wipe_spec:
  assumes "files_ok E fs" "wipe E ps fs = (fs', gone, found, err)"
  shows "shrinks fs fs'" "zeroed fs gone" "\<And>q. q \<notin> set ps \<Longrightarrow> fs' q = fs q"
    "err = None \<Longrightarrow> p \<in> set ps \<Longrightarrow> fs' p = None" "found \<longleftrightarrow> (\<exists>p \<in> set ps. fs p \<noteq> None)"
proof -
  obtain errs where w: "fold (wipe_one E) ps (fs, [], False, []) = (fs', gone, found, errs)" "err = joinErrs errs"
    using assms(2) by (auto simp: wipe_def split: prod.splits)
  from wipe_fold [OF assms(1) w(1)] w(2) show "shrinks fs fs'" "zeroed fs gone" "\<And>q. q \<notin> set ps \<Longrightarrow> fs' q = fs q"
    "err = None \<Longrightarrow> p \<in> set ps \<Longrightarrow> fs' p = None" "found \<longleftrightarrow> (\<exists>p \<in> set ps. fs p \<noteq> None)"
    by (auto simp: joinErrs_def split: if_splits)
qed

text \<open>The paths that hold personal data under a configuration.\<close>

definition db_paths :: "Config \<Rightarrow> string list" where
  "db_paths c = (let db = QL_Database (c_QueryLog c) in if db = [] then [] else [db, db @ ''-wal'', db @ ''-shm''])"

definition log_paths :: "Config \<Rightarrow> string list" where
  "log_paths c = (let f = QL_File (c_QueryLog c) in if f = [] \<or> f = ''stdout'' then [] else [f])"

text \<open>One stage of the offline purge.\<close>

definition stage :: "files \<Rightarrow> string list \<Rightarrow> files \<times> (string \<times> string) list \<times> PurgeStep \<times> bool \<Rightarrow> bool" where
  "stage fs ps r \<longleftrightarrow> (case r of (fs', gone, s, nf) \<Rightarrow> shrinks fs fs' \<and> zeroed fs gone \<and> (\<forall>q. q \<notin> set ps \<longrightarrow> fs' q = fs q)
     \<and> (\<not> ps_Failed s \<longrightarrow> (\<forall>p \<in> set ps. fs' p = None)) \<and> (\<not> ps_Failed s \<and> ps \<noteq> [] \<and> (\<forall>p \<in> set ps. fs p = None) \<longrightarrow> nf))"

lemma stage_wipe: "files_ok E fs \<Longrightarrow> ps \<noteq> [] \<Longrightarrow> stage fs ps (wipe_step E what ok path ps fs)"
proof -
  assume ok: "files_ok E fs" and ne: "ps \<noteq> []"
  obtain fs' gone found err where w: "wipe E ps fs = (fs', gone, found, err)" by (metis prod_cases4)
  show ?thesis using wipe_spec [OF ok w] ne by (cases err) (auto simp: stage_def wipe_step_def w step_of_def)
qed

lemma stage_off: "stage fs [] (fs, [], s, False)"
  by (simp add: stage_def)

lemma stage_db: "files_ok E fs \<Longrightarrow> stage fs (db_paths c) (offline_db E c fs)"
  by (cases "QL_Database (c_QueryLog c) = []") (simp_all add: offline_db_def db_paths_def Let_def stage_off stage_wipe)

lemma stage_file: "files_ok E fs \<Longrightarrow> stage fs (log_paths c) (offline_file E c fs)"
  by (cases "QL_File (c_QueryLog c) = [] \<or> QL_File (c_QueryLog c) = ''stdout''")
     (auto simp: offline_file_def log_paths_def Let_def stage_off stage_wipe simp del: split_paired_All)

section \<open>Properties\<close>

text \<open>C15: A purge of a running s-hole that reports no failed step has emptied every store: the database holds no row, none waits in its batch
  or queue and the row counter is reset, the log file and its queue are empty (standard output apart, which
  s-hole cannot change), no downloaded list is left, and, whatever fails elsewhere, the tallies, the graph and the response
  cache are empty. The counts since the start stay.\<close>

theorem purge_reports_truth:
  assumes "targets_purge E t = (t', rep)"
  shows "(\<not> report_Failed rep \<longrightarrow>
       (\<forall>d. pt_db t' = Some d \<longrightarrow> contents d = [] \<and> db_seq (dl_db d) = 0)
     \<and> (\<forall>f. pt_fileLog t' = Some f \<longrightarrow> fl_ch f = [] \<and> (fl_written f = [] \<or> fl_stdout f))
     \<and> list_all (\<lambda>m. \<not> purge_matches m) (pt_cached t'))
   \<and> ct_topDomains (pt_counter t') = [] \<and> ct_topClients (pt_counter t') = []
   \<and> (pt_resetGraph t \<longrightarrow> list_all (\<lambda>b. b = empty_bucket 0) (ct_timeline (pt_counter t')))
   \<and> (\<forall>c. pt_dnsCache t' = Some c \<longrightarrow> c_entries c = []) \<and> ct_total (pt_counter t') = ct_total (pt_counter t) \<and> rep \<noteq> []"
proof -
  obtain db s1 where 1: "purge_db E (pt_db t) = (db, s1)" by force
  obtain fl s2 where 2: "purge_file E (pt_fileLog t) = (fl, s2)" by force
  obtain names s3 where 3: "purge_lists E (pt_cached t) = (names, s3)" by force
  have f: "pt_db t' = db" "pt_fileLog t' = fl" "pt_cached t' = names" "rep \<noteq> []"
    "pt_counter t' = (if pt_resetGraph t then ResetTimeline (ResetTallies (pt_counter t)) else ResetTallies (pt_counter t))"
    "pt_dnsCache t' = map_option cache_Flush (pt_dnsCache t)"
    using assms by (auto simp: targets_purge_def 1 2 3 Let_def)
  have "report_Failed rep \<longleftrightarrow> ps_Failed s1 \<or> ps_Failed s2 \<or> ps_Failed s3"
    using assms by (cases "pt_resetGraph t"; cases "pt_dnsCache t") (auto simp: targets_purge_def 1 2 3 report_Failed_def step_of_def)
  then have ok: "ps_Failed s1 = False \<and> ps_Failed s2 = False \<and> ps_Failed s3 = False" if "\<not> report_Failed rep" using that by blast
  have d: "contents d = [] \<and> db_seq (dl_db d) = 0" if "\<not> report_Failed rep" "pt_db t' = Some d" for d
    using purge_db_ok [OF 1] ok [OF that(1)] that(2) f(1) by blast
  have l: "fl_ch g = [] \<and> (fl_written g = [] \<or> fl_stdout g)" if "\<not> report_Failed rep" "pt_fileLog t' = Some g" for g
    using purge_file_ok [OF 2] ok [OF that(1)] that(2) f(2) by blast
  have c: "list_all (\<lambda>m. \<not> purge_matches m) (pt_cached t')" if "\<not> report_Failed rep"
    using purge_lists_ok [OF 3] ok [OF that] f(3) by simp
  have m: "ct_topDomains (pt_counter t') = []" "ct_topClients (pt_counter t') = []" "ct_total (pt_counter t') = ct_total (pt_counter t)"
    "pt_resetGraph t \<longrightarrow> list_all (\<lambda>b. b = empty_bucket 0) (ct_timeline (pt_counter t'))"
    unfolding f(5) by (simp_all add: ResetTallies_def ResetTimeline_def timeline_reset_def list_all_iff)
  have h: "c_entries x = []" if "pt_dnsCache t' = Some x" for x using that f(6) by (auto simp: cache_Flush_def)
  show ?thesis using d l c m h f(4) by blast
qed

definition demo_targets :: purgeTargets where
  "demo_targets = \<lparr>pt_db = Some demo_db, pt_fileLog = Some demo_file, pt_counter = stats_New 0, pt_dnsCache = None, pt_resetGraph = True,
     pt_cached = [''list.txt'']\<rparr>"

definition demo_online :: online_env where
  "demo_online = \<lparr>on_db = demo_purge, on_dbWait = Got_reply, on_file = demo_trunc, on_fileWait = Got_reply, on_glob = None, on_rm = (\<lambda>m. None),
     on_dbText = (\<lambda>e. []), on_fileText = (\<lambda>e. [])\<rparr>"

theorem purge_reports_truth_witness:
  "\<exists>t' rep f. targets_purge demo_online demo_targets = (t', rep) \<and> \<not> report_Failed rep
     \<and> pt_fileLog t' = Some f \<and> fl_ch f = [] \<and> list_all (\<lambda>m. \<not> purge_matches m) (pt_cached t')"
proof -
  obtain t' rep where r: "targets_purge demo_online demo_targets = (t', rep)" by force
  have "\<not> report_Failed (snd (targets_purge demo_online demo_targets)) \<and> pt_fileLog (fst (targets_purge demo_online demo_targets)) \<noteq> None"
    by code_simp
  then have nf: "\<not> report_Failed rep" and "pt_fileLog t' \<noteq> None" using r by simp_all
  then obtain f where "pt_fileLog t' = Some f" by auto
  then show ?thesis using purge_reports_truth [OF r] r nf by blast
qed

text \<open>C16: An offline purge overwrites the query history before it deletes it, and says so. Every file of the database (with its two
  companions) and the log file that it removes held only zeros when it was removed, and of all files outside the cache of the
  lists it touches no other; in the cache directory it deletes downloaded lists, without an overwrite, and nothing else; if no
  step failed none of those files is left; and if the database or the log file is configured and nothing was found at
  its paths, the report says that nothing was found.\<close>

theorem offline_purge_overwrites:
  assumes "files_ok E fs" "purgeOffline E c fs names = r"
  shows "zeroed fs (or_gone r)
   \<and> (\<forall>p. p \<notin> set (db_paths c @ log_paths c) \<longrightarrow> or_files r p = fs p)
   \<and> subseq (or_names r) names \<and> filter (\<lambda>m. \<not> purge_matches m) (or_names r) = filter (\<lambda>m. \<not> purge_matches m) names
   \<and> (\<not> report_Failed (or_report r) \<longrightarrow> (\<forall>p \<in> set (db_paths c @ log_paths c). or_files r p = None)
        \<and> list_all (\<lambda>m. \<not> purge_matches m) (or_names r)
        \<and> (db_paths c \<noteq> [] \<and> (\<forall>p \<in> set (db_paths c). fs p = None) \<or> log_paths c \<noteq> [] \<and> (\<forall>p \<in> set (log_paths c). fs p = None)
             \<longrightarrow> or_notFound r))"
proof -
  obtain fs1 g1 s1 nf1 where 1: "offline_db E c fs = (fs1, g1, s1, nf1)" by (metis prod_cases4)
  obtain fs2 g2 s2 nf2 where 2: "offline_file E c fs1 = (fs2, g2, s2, nf2)" by (metis prod_cases4)
  obtain left s3 where 3: "offline_lists E c names = (left, s3)" by force
  have st1: "stage fs (db_paths c) (fs1, g1, s1, nf1)" using stage_db [OF assms(1), of c] 1 by simp
  then have sh: "shrinks fs fs1" by (simp add: stage_def)
  have st2: "stage fs1 (log_paths c) (fs2, g2, s2, nf2)" using stage_file [OF files_ok_shrinks [OF assms(1) sh], of c] 2 by simp
  have r: "r = \<lparr>or_files = fs2, or_names = left, or_gone = g1 @ g2, or_report = [s1, s2, s3], or_notFound = nf1 \<or> nf2\<rparr>"
    using assms(2) by (simp add: purgeOffline_def 1 2 3 Let_def)
  have l: "\<not> ps_Failed s3 \<longrightarrow> list_all (\<lambda>m. \<not> purge_matches m) left"
    using 3 PurgeCache_ok [of "of_glob E" "of_rm E" names] by (auto simp: offline_lists_def step_of_def split: prod.splits option.splits if_splits)
  have k: "subseq left names \<and> filter (\<lambda>m. \<not> purge_matches m) left = filter (\<lambda>m. \<not> purge_matches m) names"
    using PurgeCache_keeps [of "of_glob E" "of_rm E" names] 3
    by (auto simp: offline_lists_def split: prod.splits option.splits if_splits)
  have z: "zeroed fs (g1 @ g2)" using st1 st2 sh zeroed_shrinks by (auto simp: stage_def)
  have o: "fs2 p = fs p" if "p \<notin> set (db_paths c @ log_paths c)" for p using st1 st2 that by (auto simp: stage_def)
  have n: "fs2 p = None" if "\<not> ps_Failed s1" "\<not> ps_Failed s2" "p \<in> set (db_paths c @ log_paths c)" for p
    using st1 st2 that shrinks_none [of fs1 fs2 p] by (auto simp: stage_def)
  have nf: "nf1 \<or> nf2" if "\<not> ps_Failed s1" "\<not> ps_Failed s2"
    "db_paths c \<noteq> [] \<and> (\<forall>p \<in> set (db_paths c). fs p = None) \<or> log_paths c \<noteq> [] \<and> (\<forall>p \<in> set (log_paths c). fs p = None)"
    using st1 st2 that shrinks_none [OF sh] by (auto simp: stage_def)
  show ?thesis unfolding r using z o n nf l k by (simp add: report_Failed_def)
qed

definition demo_offline :: offline_env where
  "demo_offline = \<lparr>of_zero = (\<lambda>p. demo_zero), of_remove = (\<lambda>p. None), of_abs = (\<lambda>p. None), of_glob = None, of_rm = (\<lambda>m. None),
     of_zeroText = (\<lambda>p e. [])\<rparr>"

definition demo_keeping :: Config where
  "demo_keeping = defaults\<lparr>c_QueryLog := (c_QueryLog defaults)\<lparr>QL_Database := ''q.db''\<rparr>\<rparr>"

lemma demo_offline_runs:
  "purgeOffline demo_offline demo_keeping [''q.db'' \<mapsto> replicate 40 (CHR ''q'')] [] =
     \<lparr>or_files = Map.empty, or_names = [], or_gone = [(''q.db'', replicate 40 (CHR 0x00))],
      or_report = [step_of ''query database'' ''files deleted'' False, step_of ''query log file'' ''off, nothing stored'' False,
        snd (offline_lists demo_offline demo_keeping [])], or_notFound = False\<rparr>"
proof -
  have z: "ZeroFile demo_zero (replicate 40 (CHR ''q'')) = (replicate 40 (CHR 0x00), [WriteZeros 0 32, SyncFile, WriteZeros 32 8, SyncFile], None)"
    unfolding ZeroFile_def by (rule zeroFile_overwrites_witness)
  have l: "fst (offline_lists demo_offline demo_keeping []) = []"
    by (simp add: offline_lists_def PurgeCache_def demo_offline_def demo_keeping_def defaults_def)
  have d: "offline_db demo_offline demo_keeping [''q.db'' \<mapsto> replicate 40 (CHR ''q'')] =
     (Map.empty, [(''q.db'', replicate 40 (CHR 0x00))], step_of ''query database'' ''files deleted'' False, False)"
    by (simp add: offline_db_def demo_keeping_def wipe_step_def wipe_def wipe_one_def zero_path_def z demo_offline_def joinErrs_def)
  have f: "offline_file demo_offline demo_keeping fs = (fs, [], step_of ''query log file'' ''off, nothing stored'' False, False)" for fs
    by (simp add: offline_file_def demo_keeping_def defaults_def)
  show ?thesis using l by (cases "offline_lists demo_offline demo_keeping []") (simp add: purgeOffline_def d f)
qed

theorem offline_purge_overwrites_witness:
  "\<exists>r. purgeOffline demo_offline demo_keeping [''q.db'' \<mapsto> replicate 40 (CHR ''q'')] [] = r
     \<and> or_gone r \<noteq> [] \<and> zeroed [''q.db'' \<mapsto> replicate 40 (CHR ''q'')] (or_gone r) \<and> or_files r ''q.db'' = None"
proof -
  let ?fs = "[''q.db'' \<mapsto> replicate 40 (CHR ''q'')]"
  have ok: "files_ok demo_offline ?fs"
    by (auto simp: files_ok_def demo_offline_def demo_zero_def demo_finfo_def present_def split: if_splits)
  have "\<not> ps_Failed (snd (offline_lists demo_offline demo_keeping []))"
    by (simp add: offline_lists_def PurgeCache_def demo_offline_def demo_keeping_def defaults_def step_of_def)
  then have "\<not> report_Failed (or_report (purgeOffline demo_offline demo_keeping ?fs []))" "or_gone (purgeOffline demo_offline demo_keeping ?fs []) \<noteq> []"
    unfolding demo_offline_runs by (simp_all add: report_Failed_def step_of_def)
  moreover have "''q.db'' \<in> set (db_paths demo_keeping)" by (simp add: db_paths_def demo_keeping_def)
  ultimately show ?thesis using offline_purge_overwrites [OF ok refl, of demo_keeping "[]"] by auto
qed

end
