(* ===== verification/Startup.thy ===== *)
theory Startup
  imports Handler_Safety Query_Db Config_Safety Admin_Api
begin

text \<open>
  How \<open>main\<close> in \<open>src/cmd/s-hole/main.go\<close> puts the parts together, and what that means for what is recorded: the loggers, the
  counter, the handler and the admin server that it builds from a loaded configuration, and the running
  system, in which every record of the handler goes to the log file and the database while their writers
  work on their own. The outcomes of opening the files, the clock and the first load of the lists are the
  record \<open>start_env\<close>.
\<close>

section \<open>Model\<close>

subsection \<open>The parts\<close>

definition fileKind :: "string \<Rightarrow> string" where
  "fileKind file = (if file = [] then ''off'' else if file = ''stdout'' then ''stdout'' else ''file'')"

text \<open>An output that cannot be opened is off; it never falls back to another one.\<close>

definition newFileLogger :: "string option \<Rightarrow> string list \<Rightarrow> QueryLog \<Rightarrow> FileLogger option" where
  "newFileLogger open_err existing ql =
     (if QL_File ql = [] then None
      else (case NewFileLogger open_err existing (QL_File ql) (QL_Mode ql) of Inl _ \<Rightarrow> None | Inr l \<Rightarrow> Some l))"

record start_env =
  st_clock :: time
  st_query :: query_env                 \<comment> \<open>what \<open>NewHandler\<close> reads: the clock and the interfaces\<close>
  st_path :: pathlib
  st_disk :: disk
  st_fetch :: "fetch_env list"          \<comment> \<open>the outcome of each list, in the order of \<open>blocking.lists\<close>\<close>
  st_fileErr :: "string option"
  st_fileOld :: "string list"
  st_dbSetup :: "(string \<times> db_error option) list"
  st_dbOld :: database
  st_hostname :: "string option"

definition first_lists :: "golibs \<Rightarrow> start_env \<Rightarrow> Config \<Rightarrow> Store" where
  "first_lists G S c =
     fst (Update (lib_U G) (st_path S) (SetAllowlist (lib_U G) NewStore (Blk_Allowlist (c_Blocking c))) (st_disk S)
            (zip (st_fetch S) (Blk_Lists (c_Blocking c))) (Blk_CacheDir (c_Blocking c)) CacheFirst)"

definition open_db :: "start_env \<Rightarrow> QueryLog \<Rightarrow> DBLogger option" where
  "open_db S ql =
     (if QL_Database ql = [] then None
      else (case NewDBLogger (st_dbSetup S) (st_dbOld S) (QL_Mode ql) (QL_FlushInterval ql) (QL_RetentionDays ql) of
              Inl _ \<Rightarrow> None | Inr d \<Rightarrow> Some d))"

definition start_counter :: "start_env \<Rightarrow> Config \<Rightarrow> Counter" where
  "start_counter S c = SetQueryLogMode (stats_New (st_clock S)) (QL_Mode (c_QueryLog c))"

definition start_cache :: "Config \<Rightarrow> Cache option" where
  "start_cache c = (if 0 < DNS_CacheEntries (c_DNS c) then Some (cache_New (DNS_CacheEntries (c_DNS c))) else None)"

definition start_handler :: "golibs \<Rightarrow> start_env \<Rightarrow> Config \<Rightarrow> Handler" where
  "start_handler G S c =
     SetCNAMEInspection (Blk_CNAMEInspection (c_Blocking c))
       (SetLocalDomains G (DNS_LocalDomains (c_DNS c))
         (hd_SetQueryLogMode (QL_Mode (c_QueryLog c))
           (NewHandler G (st_query S) (first_lists G S c) (start_counter S c) (DNS_Upstreams (c_DNS c)) (Blk_Reply (c_Blocking c))
              (Blk_ReplyTTLSeconds (c_Blocking c)) (start_cache c) (DNS_LocalPTR (c_DNS c)) (QL_Clients (c_QueryLog c)))))"

definition start_server :: "httplib \<Rightarrow> golibs \<Rightarrow> start_env \<Rightarrow> Config \<Rightarrow> Server" where
  "start_server H G S c =
     (let ql = c_QueryLog c; db = open_db S ql;
          s1 = api_New H (st_hostname S) (start_counter S c) db (first_lists G S c);
          s2 = SetPrivacy \<lparr>pi_Mode = QL_Mode ql, pi_Clients = QL_Clients ql, pi_Database = (db \<noteq> None),
                 pi_File = fileKind (QL_File ql), pi_RetentionDays = QL_RetentionDays ql\<rparr> s1;
          s3 = SetPurge (SetClientNames H (QL_ClientNames ql) s2)
      in if Adm_Pprof (c_Admin c) then EnablePprof True s3 else s3)"

subsection \<open>The running system\<close>

record running =
  ru_handler :: Handler
  ru_waiting :: "pending list"
  ru_file :: "FileLogger option"
  ru_db :: "DBLogger option"

definition startup :: "golibs \<Rightarrow> start_env \<Rightarrow> Config \<Rightarrow> running" where
  "startup G S c = \<lparr>ru_handler = start_handler G S c, ru_waiting = [],
     ru_file = newFileLogger (st_fileErr S) (st_fileOld S) (c_QueryLog c), ru_db = open_db S (c_QueryLog c)\<rparr>"

text \<open>\<open>buildMultiLogger\<close>: a record goes to the outputs that are on, each of which reads the clock on its own.\<close>

definition multi_file :: "(time \<Rightarrow> string) \<Rightarrow> time \<Rightarrow> Record list \<Rightarrow> FileLogger option \<Rightarrow> FileLogger option" where
  "multi_file fmt t rs f = map_option (fold (\<lambda>r l. FileLogger_Log fmt l r t) rs) f"

definition multi_db :: "time \<Rightarrow> Record list \<Rightarrow> DBLogger option \<Rightarrow> DBLogger option" where
  "multi_db t rs d = map_option (fold (\<lambda>r l. DBLogger_Log l r t) rs) d"

definition new_records :: "Handler \<Rightarrow> Handler \<Rightarrow> Record list" where
  "new_records h h' = drop (length (hd_logged h)) (hd_logged h')"

fun is_log_event :: "file_event \<Rightarrow> bool" where
  "is_log_event (FLog _ _) = True"
| "is_log_event _ = False"

fun is_row_event :: "db_event \<Rightarrow> bool" where
  "is_row_event (DLog _ _) = True"
| "is_row_event _ = False"

inductive run_step :: "golibs \<Rightarrow> (time \<Rightarrow> string) \<Rightarrow> running \<Rightarrow> running \<Rightarrow> bool" for G fmt where
  run_handler: "hstep G (ru_handler s, ru_waiting s) (h, ps) \<Longrightarrow>
     run_step G fmt s \<lparr>ru_handler = h, ru_waiting = ps, ru_file = multi_file fmt t (new_records (ru_handler s) h) (ru_file s),
       ru_db = multi_db t' (new_records (ru_handler s) h) (ru_db s)\<rparr>"
| run_file: "\<not> is_log_event e \<Longrightarrow> run_step G fmt s (s\<lparr>ru_file := map_option (file_step fmt e) (ru_file s)\<rparr>)"
| run_db: "\<not> is_row_event e' \<Longrightarrow> run_step G fmt s (s\<lparr>ru_db := map_option (db_step e') (ru_db s)\<rparr>)"

section \<open>Lemmas\<close>

subsection \<open>The handler\<close>

text \<open>No query changes the configuration of the handler.\<close>

lemma config_writes [simp]:
  "same_config h0 (snd (writeBlocked G E w req q cl dm src h)) = same_config h0 h"
  "same_config h0 (snd (writeRcode G w req rc h)) = same_config h0 h"
  "same_config h0 (snd (writeLocalNXDOMAIN G w req h)) = same_config h0 h"
  "same_config h0 (snd (writeLocalhost G w req q h)) = same_config h0 h"
  "same_config h0 (snd (unresolved G E w req cl dm err h)) = same_config h0 h"
  "same_config h0 (snd (refuse G req h)) = same_config h0 h"
  by (simp_all add: writeBlocked_def writeSinkhole_def writeRcode_def writeLocalNXDOMAIN_def writeLocalhost_def unresolved_def
      refuse_def Let_def)

lemma snd_answered [simp]: "snd (answered x) = snd x"
  by (simp add: answered_def)

lemma config_lookup: "same_config h0 h \<Longrightarrow> same_config h0 (snd (serve_lookup G E w req q cl dm ups h))"
  by (auto simp: serve_lookup_def Let_def split: option.splits prod.splits)

lemma config_name: "same_config h0 h \<Longrightarrow> same_config h0 (snd (serve_name G E w req q cl dm h))"
  using config_lookup by (auto simp: serve_name_def Let_def split: prod.splits)

lemma config_ptr: "same_config h0 h \<Longrightarrow> same_config h0 (snd (local_ptr G E qt dm h))"
  using same_config_trans local_ptr_frame(2) by blast

lemma config_begin: "same_config h (snd (serve_begin G E w req h))"
proof -
  have a: "same_config h (lan_after G E w h)" by simp
  obtain b h2 where p: "local_ptr G E (q_Qtype (m_Question req ! 0)) (query_name G req) (lan_after G E w h) = (b, h2)" by force
  have "same_config h h2" using config_ptr [OF a, of G E "q_Qtype (m_Question req ! 0)" "query_name G req"] p by simp
  then show ?thesis using config_name [of h h2] by (auto simp: serve_begin_unfold Let_def p split: bool.splits)
qed

lemma config_relay: "same_config h0 h \<Longrightarrow> same_config h0 (snd (relay G E p m h))"
  by (auto simp: relay_def Let_def split: option.splits)

lemma config_end: "same_config h (snd (fst (serve_end G E N p h)))"
  by (auto simp: serve_end_def Let_def config_relay split: prod.splits sum.splits)

subsection \<open>The counter in the mode none\<close>

definition quiet_counter :: "Counter \<Rightarrow> bool" where
  "quiet_counter c \<longleftrightarrow> ct_graphMode c = ''none'' \<and> ct_topDomains c = [] \<and> ct_topClients c = []
     \<and> list_all (\<lambda>b. b = empty_bucket 0) (ct_timeline c)"

lemma quiet_no_graph: "quiet_counter c \<Longrightarrow> \<not> graphs c b"
  by (simp add: quiet_counter_def graphs_def)

lemma quiet_micro:
  "quiet_counter c \<Longrightarrow> a \<in> set (script oc [] [] t t') \<Longrightarrow> quiet_counter (micro_sem ord a c)"
  using quiet_no_graph [of c]
  by (cases oc) (auto simp: script_def quiet_counter_def add_total_def graph_query_def tally_locked_def prune_if_full_def
      RecordCNAMEBlocked_def RecordLocalPTR_def RecordLocalName_def RecordCacheHit_def RecordForwardFailure_def
      RecordUpstreamError_def graphs_def Let_def)

lemma quiet_fold: "quiet_counter c \<Longrightarrow> set as \<subseteq> set (script oc [] [] t t') \<Longrightarrow> quiet_counter (fold (micro_sem ord) as c)"
  by (induction as arbitrary: c) (auto intro: quiet_micro)

lemma quiet_counted:
  assumes "counted E cl dm h oc h'" "hd_logMode h = ''none''" "quiet_counter (hd_counter h)"
  shows "quiet_counter (hd_counter h')"
proof -
  have "hd_counter h' = fold (micro_sem (qe_ord E)) (script oc [] [] (qe_clock E 4) (qe_clock E 5)) (hd_counter h)"
    using assms(1,2) by (simp add: counted_def tally_of_def records_def)
  then show ?thesis using quiet_fold [OF assms(3) order_refl] by simp
qed

lemma quiet_start: "QL_Mode (c_QueryLog c) = ''none'' \<Longrightarrow> quiet_counter (start_counter S c)"
  by (simp add: quiet_counter_def start_counter_def SetQueryLogMode_def stats_New_def list_all_iff)

lemma quiet_forget: "quiet_counter c \<Longrightarrow> quiet_counter (ResetTimeline (ResetTallies c))"
  by (simp add: quiet_counter_def ResetTimeline_def ResetTallies_def timeline_reset_def list_all_iff)

subsection \<open>The top lists and the graph\<close>

text \<open>No count is above the number of the records that the list may count; \<open>P\<close> says which records count for a name.\<close>

definition tally_within :: "(Record \<Rightarrow> string \<Rightarrow> bool) \<Rightarrow> Record list \<Rightarrow> tally \<Rightarrow> bool" where
  "tally_within P rs m \<longleftrightarrow> (\<forall>(k, n) \<in> set m. 0 < n \<and> n \<le> length (filter (\<lambda>r. P r k) rs))"

definition client_counts :: "string \<Rightarrow> Record \<Rightarrow> string \<Rightarrow> bool" where
  "client_counts M r k \<longleftrightarrow> wants M r \<and> rec_ClientIP r = k"

definition domain_counts :: "string \<Rightarrow> Record \<Rightarrow> string \<Rightarrow> bool" where
  "domain_counts M r k \<longleftrightarrow> wants M r \<and> rec_Blocked r \<and> rec_Domain r = k"

definition only_blocked :: "minuteBucket \<Rightarrow> bool" where
  "only_blocked b \<longleftrightarrow> mb_total b = mb_blocked b \<and> mb_cached b = 0 \<and> mb_unresolved b = 0 \<and> mb_upstreamError b = 0"

definition graph_within :: "string \<Rightarrow> Record list \<Rightarrow> timeline \<Rightarrow> bool" where
  "graph_within M rs t \<longleftrightarrow> sum_list (map mb_total t) \<le> length (filter (wants M) rs) \<and> (M \<noteq> ''all'' \<longrightarrow> list_all only_blocked t)"

definition lists_ok :: "string \<Rightarrow> Record list \<Rightarrow> Counter \<Rightarrow> bool" where
  "lists_ok M rs c \<longleftrightarrow> ct_graphMode c = (if M = ''all'' \<or> M = ''blocked'' then M else ''none'')
     \<and> tally_within (client_counts M) rs (ct_topClients c) \<and> tally_within (domain_counts M) rs (ct_topDomains c)
     \<and> graph_within M rs (ct_timeline c)"

lemma tally_within_snoc: "tally_within P rs m \<Longrightarrow> tally_within P (rs @ [r]) m"
  by (auto simp: tally_within_def)

lemma tally_within_inc:
  assumes "tally_within P rs m" "P r k"
  shows "tally_within P (rs @ [r]) (tally_inc k m)"
proof -
  let ?v = "Suc (case map_of m k of None \<Rightarrow> 0 | Some v \<Rightarrow> v)"
  have "set (AList.update k ?v m) \<subseteq> insert (k, ?v) (set m)" by (induction m) auto
  moreover have "?v \<le> length (filter (\<lambda>r. P r k) (rs @ [r]))"
    using assms by (auto simp: tally_within_def split: option.split dest!: map_of_SomeD)
  ultimately show ?thesis using tally_within_snoc [OF assms(1), of r] by (auto simp: tally_within_def tally_inc_def)
qed

lemma tally_within_prune: "tally_within P rs m \<Longrightarrow> tally_within P rs (prune_if_full ord m)"
  using prune_subset [of ord m] by (auto simp: tally_within_def prune_if_full_def)

lemma sum_update_le:
  fixes g :: "minuteBucket \<Rightarrow> nat"
  shows "g x \<le> g (t ! i) + k \<Longrightarrow> sum_list (map g (t[i := x])) \<le> sum_list (map g t) + k"
proof (induction t arbitrary: i)
  case (Cons a t)
  then show ?case by (cases i) auto
qed simp

lemma bump_at_total:
  assumes "\<And>b. mb_total (f b) \<le> mb_total b + k"
  shows "sum_list (map mb_total (bump_at t now f)) \<le> sum_list (map mb_total t) + k"
proof -
  have "sum_list (map mb_total (timeline_at t now)) \<le> sum_list (map mb_total t) + 0"
    unfolding timeline_at_def Let_def using sum_update_le [of mb_total "empty_bucket (unix_minute now)" t _ 0]
    by (simp add: empty_bucket_def)
  then show ?thesis
    using sum_update_le [of mb_total _ "timeline_at t now" "slot_of (unix_minute now)" k] assms
    by (fastforce simp: bump_at_def Let_def intro: order_trans)
qed

lemma bump_at_blocked:
  assumes "list_all only_blocked t" "\<And>b. only_blocked b \<Longrightarrow> only_blocked (f b)"
  shows "list_all only_blocked (bump_at t now f)"
proof -
  have e: "only_blocked (empty_bucket m)" for m by (simp add: only_blocked_def empty_bucket_def)
  have upd: "list_all only_blocked (xs[i := x])" if "list_all only_blocked xs" "only_blocked x" for xs i x
    using that set_update_subset_insert [of xs i x] by (auto simp: list_all_iff)
  have t': "list_all only_blocked (timeline_at t now)" using assms(1) e upd by (simp add: timeline_at_def Let_def)
  show ?thesis
  proof (cases "slot_of (unix_minute now) < length (timeline_at t now)")
    case True
    then show ?thesis using t' assms(2) upd by (simp add: bump_at_def Let_def list_all_length)
  qed (use t' in \<open>simp add: bump_at_def Let_def list_update_beyond\<close>)
qed

lemma graph_within_snoc: "graph_within M rs t \<Longrightarrow> graph_within M (rs @ [r]) t"
  by (auto simp: graph_within_def)

lemma graph_within_bump:
  assumes "graph_within M rs t" "\<And>b. mb_total (f b) = mb_total b" "M = ''all''"
  shows "graph_within M rs (bump_at t now f)"
  using bump_at_total [of f 0 t now] assms by (simp add: graph_within_def)

lemma graph_within_query:
  assumes "graph_within M rs t" "wants M r" "M = ''all'' \<or> bl"
  shows "graph_within M (rs @ [r]) (bump_at t now (\<lambda>b. let b1 = b\<lparr>mb_total := mb_total b + 1\<rparr> in if bl then b1\<lparr>mb_blocked := mb_blocked b1 + 1\<rparr> else b1))"
proof -
  let ?f = "\<lambda>b. let b1 = b\<lparr>mb_total := mb_total b + 1\<rparr> in if bl then b1\<lparr>mb_blocked := mb_blocked b1 + 1\<rparr> else b1"
  have "sum_list (map mb_total (bump_at t now ?f)) \<le> sum_list (map mb_total t) + 1"
    by (rule bump_at_total) (simp add: Let_def)
  moreover have "list_all only_blocked (bump_at t now ?f)" if "list_all only_blocked t" bl
    by (rule bump_at_blocked [OF that(1)]) (use that(2) in \<open>simp add: Let_def only_blocked_def\<close>)
  ultimately show ?thesis using assms by (auto simp: graph_within_def)
qed

lemma lists_outcome:
  "lists_ok M rs c \<Longrightarrow> lists_ok M rs (fold (micro_sem ord) (outcome_steps oc t) c)"
  by (cases oc) (auto simp: lists_ok_def RecordCNAMEBlocked_def RecordLocalPTR_def RecordLocalName_def RecordCacheHit_def
      RecordForwardFailure_def RecordUpstreamError_def graphs_def Let_def intro!: graph_within_bump split: if_splits)

lemma lists_query:
  assumes "lists_ok M rs c" "rec_Blocked r = b" "rec_ClientIP r = cl" "rec_Domain r = dm"
    and "(tc, td) = (if M = ''all'' \<or> M = ''blocked'' \<and> b then (cl, dm) else ([], []))"
  shows "lists_ok M (rs @ [r]) (RecordQuery ord t tc td b c)"
proof -
  let ?rec = "M = ''all'' \<or> M = ''blocked'' \<and> b"
  have w: "wants M r" if ?rec using that assms(2) by (auto simp: wants_def)
  have g: "graphs (add_total c) b = ?rec" using assms(1) by (auto simp: lists_ok_def graphs_def add_total_def)
  have gr: "graph_within M (rs @ [r]) (ct_timeline (graph_query t b (add_total c)))"
  proof (cases ?rec)
    case True
    then have "M = ''all'' \<or> b" by blast
    from graph_within_query [OF _ w [OF True] this, of rs "ct_timeline c" t] show ?thesis
      using assms(1) g True by (simp add: graph_query_def lists_ok_def add_total_def)
  next
    case False
    then have "graph_query t b (add_total c) = add_total c" using g by (auto simp: graph_query_def)
    then show ?thesis using assms(1) graph_within_snoc by (simp add: lists_ok_def add_total_def)
  qed
  have cl: "tally_within (client_counts M) (rs @ [r]) (if tc \<noteq> [] then tally_inc tc (ct_topClients c) else ct_topClients c)"
    using assms w tally_within_inc [of "client_counts M" rs "ct_topClients c" r tc] tally_within_snoc
    by (auto simp: lists_ok_def client_counts_def split: if_splits)
  have dm: "tally_within (domain_counts M) (rs @ [r]) (if b \<and> td \<noteq> [] then tally_inc td (ct_topDomains c) else ct_topDomains c)"
    using assms w tally_within_inc [of "domain_counts M" rs "ct_topDomains c" r td] tally_within_snoc
    by (auto simp: lists_ok_def domain_counts_def split: if_splits)
  have f: "ct_topClients (graph_query t b (add_total c)) = ct_topClients c" "ct_topDomains (graph_query t b (add_total c)) = ct_topDomains c"
    "ct_graphMode (graph_query t b (add_total c)) = ct_graphMode c" for b
    by (simp_all add: graph_query_def add_total_def)
  show ?thesis using gr tally_within_prune [OF cl, of ord] tally_within_prune [OF dm, of ord] assms(1)
    by (auto simp: RecordQuery_def tally_locked_def lists_ok_def f)
qed

lemma lists_counted:
  assumes "counted E cl dm h oc h'" "hd_logMode h = M" "lists_ok M (hd_logged h) (hd_counter h)"
  shows "lists_ok M (hd_logged h') (hd_counter h')"
proof -
  let ?b = "oc = OBlocked \<or> oc = OCname"
  obtain r where r: "hd_logged h' = hd_logged h @ [r]" "rec_ClientIP r = cl" "rec_Domain r = dm" "rec_Blocked r = ?b"
    using assms(1) by (auto simp: counted_def outcome_record_def)
  obtain tc td where t: "tally_of h cl dm ?b = (tc, td)" by fastforce
  then have "(tc, td) = (if M = ''all'' \<or> M = ''blocked'' \<and> ?b then (cl, dm) else ([], []))"
    using assms(2) by (auto simp: tally_of_def records_def split: if_splits)
  from lists_query [OF assms(3) r(4,2,3) this]
  have "lists_ok M (hd_logged h') (RecordQuery (qe_ord E) (qe_clock E 4) tc td ?b (hd_counter h))" by (simp add: r(1))
  then show ?thesis using lists_outcome assms(1) t by (simp add: counted_def script_RecordQuery)
qed

lemma lists_start: "lists_ok (QL_Mode (c_QueryLog c)) [] (start_counter S c)"
proof -
  have "mb_total (empty_bucket 0) = 0" by (simp add: empty_bucket_def)
  moreover have "only_blocked (empty_bucket 0)" by (simp add: only_blocked_def empty_bucket_def)
  ultimately show ?thesis
    by (simp add: lists_ok_def start_counter_def SetQueryLogMode_def stats_New_def tally_within_def graph_within_def list_all_iff)
qed

lemma lists_forget: "lists_ok M rs c \<Longrightarrow> lists_ok M rs (ResetTimeline (ResetTallies c))"
proof -
  have "sum_list (map (mb_total \<circ> (\<lambda>b. empty_bucket 0)) t) = 0" for t :: timeline
    by (simp add: empty_bucket_def comp_def)
  note this [THEN eq_imp_le, THEN order_trans, OF le0, simp]
  have "list_all only_blocked (map (\<lambda>b. empty_bucket 0) t)" for t :: timeline
    by (simp add: list_all_iff only_blocked_def empty_bucket_def)
  then show "lists_ok M rs c \<Longrightarrow> ?thesis"
    by (simp add: lists_ok_def ResetTimeline_def ResetTallies_def timeline_reset_def tally_within_def graph_within_def)
qed

subsection \<open>The invariant of the running system\<close>

definition masked :: "golibs \<Rightarrow> string \<Rightarrow> string \<Rightarrow> bool" where
  "masked G clients v \<longleftrightarrow> (\<exists>a. v = MaskClientIP (lib_T G) (AddrString (lib_T G) a) clients)"

definition handler_ok :: "golibs \<Rightarrow> string \<Rightarrow> string \<Rightarrow> Handler \<times> pending list \<Rightarrow> bool" where
  "handler_ok G M K s \<longleftrightarrow> hinv G s \<and> hd_logMode (fst s) = M \<and> hd_queryPrivacy (fst s) = K
     \<and> (\<forall>p \<in> set (snd s). masked G K (pd_clientIP p)) \<and> (\<forall>r \<in> set (hd_logged (fst s)). masked G K (rec_ClientIP r))
     \<and> (M = ''none'' \<longrightarrow> quiet_counter (hd_counter (fst s))) \<and> lists_ok M (hd_logged (fst s)) (hd_counter (fst s))"

lemma handler_ok_begin:
  assumes "libs_ok G" "handler_ok G M K (h, ps)" "serve_begin G E w req h = (b, h')"
  shows "hd_logMode h' = M \<and> hd_queryPrivacy h' = K \<and> (\<forall>r \<in> set (hd_logged h'). masked G K (rec_ClientIP r))
     \<and> (M = ''none'' \<longrightarrow> quiet_counter (hd_counter h')) \<and> lists_ok M (hd_logged h') (hd_counter h') \<and> (\<forall>p. b = Waiting p \<longrightarrow> masked G K (pd_clientIP p)) \<and> prefix (hd_logged h) (hd_logged h')"
proof -
  have sc: "hd_logMode h' = M \<and> hd_queryPrivacy h' = K"
    using config_begin [of h G E w req] assms(2,3) by (simp add: same_config_def handler_ok_def)
  show ?thesis
  proof (cases "on_lan G E w h \<and> well_formed req")
    case False
    then have "\<exists>out. b = Answered out" "untouched h h'" using begin_uncounted [OF False] assms(3) by auto
    then show ?thesis using sc assms(2) by (auto simp: untouched_def handler_ok_def)
  next
    case True
    have "clean_cache h" using assms(1,2) cache_answers_clean by (auto simp: handler_ok_def hinv_def)
    then have bg: "began E (client_name G w h) (query_name G req) h (b, h')" using began_begin [of G E w h req] True assms(3) by simp
    have m: "masked G K (client_name G w h)" using assms(2) by (auto simp: masked_def client_name_def handler_ok_def)
    show ?thesis
    proof (cases b)
      case (Answered out)
      then obtain oc where c: "counted E (client_name G w h) (query_name G req) h oc h'" using bg by (auto simp: began_def)
      then obtain r where "hd_logged h' = hd_logged h @ [r]" "rec_ClientIP r = client_name G w h" by (auto simp: counted_def)
      then show ?thesis using sc m assms(2) Answered quiet_counted [OF c] lists_counted [OF c] by (auto simp: handler_ok_def)
    next
      case (Waiting p)
      then show ?thesis using bg sc m assms(2) by (auto simp: began_def untouched_def handler_ok_def)
    qed
  qed
qed

lemma handler_ok_end:
  assumes "handler_ok G M K (h, ps)" "p \<in> set ps" "serve_end G E N p h = ((out, h'), cs)"
  shows "hd_logMode h' = M \<and> hd_queryPrivacy h' = K \<and> (\<forall>r \<in> set (hd_logged h'). masked G K (rec_ClientIP r))
     \<and> (M = ''none'' \<longrightarrow> quiet_counter (hd_counter h')) \<and> lists_ok M (hd_logged h') (hd_counter h') \<and> prefix (hd_logged h) (hd_logged h')"
proof -
  have sc: "hd_logMode h' = M \<and> hd_queryPrivacy h' = K"
    using config_end [of h G E N p] assms(1,3) by (simp add: same_config_def handler_ok_def)
  obtain oc where c: "counted E (pd_clientIP p) (pd_domain p) h oc h'" using counted_end [OF untouched_refl assms(3)] by blast
  then obtain r where "hd_logged h' = hd_logged h @ [r]" "rec_ClientIP r = pd_clientIP p" by (auto simp: counted_def)
  then show ?thesis using sc assms(1,2) quiet_counted [OF c] lists_counted [OF c] by (auto simp: handler_ok_def)
qed

lemma handler_ok_keep:
  assumes "handler_ok G M K (h, ps)" "hinv G (h', ps)" "hd_logMode h' = hd_logMode h" "hd_queryPrivacy h' = hd_queryPrivacy h"
    "hd_logged h' = hd_logged h" "quiet_counter (hd_counter h) \<Longrightarrow> quiet_counter (hd_counter h')"
    "lists_ok M (hd_logged h) (hd_counter h) \<Longrightarrow> lists_ok M (hd_logged h) (hd_counter h')"
  shows "handler_ok G M K (h', ps) \<and> prefix (hd_logged h) (hd_logged h')"
  using assms by (simp add: handler_ok_def)

lemma handler_ok_step:
  assumes "libs_ok G" "handler_ok G M K (h, ps)" "hstep G (h, ps) (h', ps')"
  shows "handler_ok G M K (h', ps') \<and> prefix (hd_logged h) (hd_logged h')"
proof -
  have i: "hinv G (h', ps')" using hinv_step [OF assms(1) _ assms(3)] assms(2) by (simp add: handler_ok_def)
  have w: "\<forall>p \<in> set ps. masked G K (pd_clientIP p)" using assms(2) by (simp add: handler_ok_def)
  from assms(3) show ?thesis
  proof cases
    case (answer E w req out)
    then show ?thesis using handler_ok_begin [OF assms(1,2) answer(2)] w i by (simp add: handler_ok_def)
  next
    case (wait E w req p)
    then show ?thesis using handler_ok_begin [OF assms(1,2) wait(2)] w i by (simp add: handler_ok_def)
  next
    case (finish j E N out cs)
    have j: "ps ! j \<in> set ps" using finish(2) by simp
    have "\<forall>p \<in> set ps'. masked G K (pd_clientIP p)" using w finish(1) by (auto dest: in_set_takeD in_set_dropD)
    then show ?thesis using handler_ok_end [OF assms(2) j finish(3)] i by (simp add: handler_ok_def)
  next
    case (lists s)
    show ?thesis using handler_ok_keep [OF assms(2), of h'] i lists by simp
  next
    case flush
    show ?thesis using handler_ok_keep [OF assms(2), of h'] i flush by simp
  next
    case (sweep now)
    show ?thesis using handler_ok_keep [OF assms(2), of h'] i sweep by simp
  next
    case report
    show ?thesis using handler_ok_keep [OF assms(2), of h'] i report by simp
  next
    case forget
    show ?thesis using handler_ok_keep [OF assms(2), of h'] i forget quiet_forget lists_forget by simp
  qed
qed

text \<open>What the outputs hold comes from before the start, or is a record of the handler that the mode wants.\<close>

definition file_ok :: "(time \<Rightarrow> string) \<Rightarrow> string \<Rightarrow> string set \<Rightarrow> Record set \<Rightarrow> FileLogger \<Rightarrow> bool" where
  "file_ok fmt M old R l \<longleftrightarrow> fl_logQueries l = M \<and> file_holds l \<subseteq> old \<union> {log_line fmt t r | t r. r \<in> R \<and> wants M r}"

definition db_ok :: "string \<Rightarrow> db_row set \<Rightarrow> Record set \<Rightarrow> DBLogger \<Rightarrow> bool" where
  "db_ok M old R d \<longleftrightarrow> dl_logQueries d = M \<and> set (contents d) \<subseteq> old \<union> {row_of 0 (db_entry_of r t) | t r. r \<in> R \<and> wants M r}"

lemma file_ok_log: "file_ok fmt M old R l \<Longrightarrow> r \<in> R \<Longrightarrow> file_ok fmt M old R (FileLogger_Log fmt l r t)"
proof -
  assume ok: "file_ok fmt M old R l" and r: "r \<in> R"
  then have m: "fl_logQueries l = M" by (simp add: file_ok_def)
  have "file_holds (FileLogger_Log fmt l r t) \<subseteq> file_holds l \<union> file_adds fmt M (FLog r t)"
    "fl_logQueries (FileLogger_Log fmt l r t) = M"
    using flp.step_holds [OF m, of fmt "FLog r t"] flp.step_ok [OF m, of fmt "FLog r t"] by simp_all
  moreover have "file_adds fmt M (FLog r t) \<subseteq> {log_line fmt t r | t r. r \<in> R \<and> wants M r}" using r by auto
  ultimately show ?thesis using ok unfolding file_ok_def by blast
qed

lemma file_ok_logs:
  "file_ok fmt M old R l \<Longrightarrow> set rs \<subseteq> R \<Longrightarrow> file_ok fmt M old R (fold (\<lambda>r l. FileLogger_Log fmt l r t) rs l)"
  by (induction rs arbitrary: l) (simp_all add: file_ok_log)

lemma file_ok_step: "file_ok fmt M old R l \<Longrightarrow> \<not> is_log_event e \<Longrightarrow> file_ok fmt M old R (file_step fmt e l)"
proof -
  assume ok: "file_ok fmt M old R l" and e: "\<not> is_log_event e"
  then have m: "fl_logQueries l = M" by (simp add: file_ok_def)
  have "file_adds fmt M e = {}" using e by (cases e) simp_all
  then show ?thesis using flp.step_holds [OF m, of fmt e] flp.step_ok [OF m, of fmt e] ok unfolding file_ok_def by blast
qed

lemma db_ok_log: "db_ok M old R d \<Longrightarrow> r \<in> R \<Longrightarrow> db_ok M old R (DBLogger_Log d r t)"
proof -
  assume ok: "db_ok M old R d" and r: "r \<in> R"
  then have m: "dl_logQueries d = M" by (simp add: db_ok_def)
  have "set (contents (DBLogger_Log d r t)) \<subseteq> set (contents d) \<union> db_adds M (DLog r t)"
    "dl_logQueries (DBLogger_Log d r t) = M"
    using dlp.step_holds [OF m, of "DLog r t"] dlp.step_ok [OF m, of "DLog r t"] by simp_all
  moreover have "db_adds M (DLog r t) \<subseteq> {row_of 0 (db_entry_of r t) | t r. r \<in> R \<and> wants M r}" using r by auto
  ultimately show ?thesis using ok unfolding db_ok_def by blast
qed

lemma db_ok_logs: "db_ok M old R d \<Longrightarrow> set rs \<subseteq> R \<Longrightarrow> db_ok M old R (fold (\<lambda>r d. DBLogger_Log d r t) rs d)"
  by (induction rs arbitrary: d) (simp_all add: db_ok_log)

lemma db_ok_step: "db_ok M old R d \<Longrightarrow> \<not> is_row_event e \<Longrightarrow> db_ok M old R (db_step e d)"
proof -
  assume ok: "db_ok M old R d" and e: "\<not> is_row_event e"
  then have m: "dl_logQueries d = M" by (simp add: db_ok_def)
  have "db_adds M e = {}" using e by (cases e) simp_all
  then show ?thesis using dlp.step_holds [OF m, of e] dlp.step_ok [OF m, of e] ok unfolding db_ok_def by blast
qed

lemma ok_mono: "file_ok fmt M old R l \<Longrightarrow> R \<subseteq> R' \<Longrightarrow> file_ok fmt M old R' l"
  "db_ok M old' R d \<Longrightarrow> R \<subseteq> R' \<Longrightarrow> db_ok M old' R' d"
  unfolding file_ok_def db_ok_def by blast+

definition run_ok :: "golibs \<Rightarrow> (time \<Rightarrow> string) \<Rightarrow> string \<Rightarrow> string \<Rightarrow> string set \<Rightarrow> db_row set \<Rightarrow> running \<Rightarrow> bool" where
  "run_ok G fmt M K oldF oldD s \<longleftrightarrow> handler_ok G M K (ru_handler s, ru_waiting s)
     \<and> (\<forall>l. ru_file s = Some l \<longrightarrow> file_ok fmt M oldF (set (hd_logged (ru_handler s))) l)
     \<and> (\<forall>d. ru_db s = Some d \<longrightarrow> db_ok M oldD (set (hd_logged (ru_handler s))) d)"

lemma run_ok_step:
  assumes "libs_ok G" "run_ok G fmt M K oldF oldD s" "run_step G fmt s s'"
  shows "run_ok G fmt M K oldF oldD s'"
  using assms(3)
proof cases
  case (run_handler h ps t t')
  have "handler_ok G M K (ru_handler s, ru_waiting s)" using assms(2) by (simp add: run_ok_def)
  from handler_ok_step [OF assms(1) this run_handler(2)]
  have hk: "handler_ok G M K (h, ps)" and pre: "prefix (hd_logged (ru_handler s)) (hd_logged h)" by simp_all
  have sub: "set (hd_logged (ru_handler s)) \<subseteq> set (hd_logged h)" using pre by (auto simp: prefix_def)
  have new: "set (new_records (ru_handler s) h) \<subseteq> set (hd_logged h)" by (auto simp: new_records_def dest: in_set_dropD)
  have f: "file_ok fmt M oldF (set (hd_logged h)) l'" if r: "multi_file fmt t (new_records (ru_handler s) h) (ru_file s) = Some l'" for l'
  proof -
    obtain l where l: "ru_file s = Some l" "l' = fold (\<lambda>r l. FileLogger_Log fmt l r t) (new_records (ru_handler s) h) l"
      using r by (auto simp: multi_file_def)
    have "file_ok fmt M oldF (set (hd_logged (ru_handler s))) l" using assms(2) l(1) by (simp add: run_ok_def)
    then show ?thesis unfolding l(2) by (rule file_ok_logs [OF ok_mono(1) [OF _ sub] new])
  qed
  have d: "db_ok M oldD (set (hd_logged h)) d'" if r: "multi_db t' (new_records (ru_handler s) h) (ru_db s) = Some d'" for d'
  proof -
    obtain d where d: "ru_db s = Some d" "d' = fold (\<lambda>r d. DBLogger_Log d r t') (new_records (ru_handler s) h) d"
      using r by (auto simp: multi_db_def)
    have "db_ok M oldD (set (hd_logged (ru_handler s))) d" using assms(2) d(1) by (simp add: run_ok_def)
    then show ?thesis unfolding d(2) by (rule db_ok_logs [OF ok_mono(2) [OF _ sub] new])
  qed
  show ?thesis unfolding run_handler(1) using hk f d by (simp add: run_ok_def)
next
  case (run_file e)
  then show ?thesis using assms(2) file_ok_step by (auto simp: run_ok_def)
next
  case (run_db e')
  then show ?thesis using assms(2) db_ok_step by (auto simp: run_ok_def)
qed

lemma fresh_start: "fresh_handler (start_handler G S c)"
  by (auto simp: fresh_handler_def start_handler_def SetCNAMEInspection_def SetLocalDomains_def hd_SetQueryLogMode_def NewHandler_def
      start_counter_def SetQueryLogMode_def start_cache_def Let_def split: if_splits)

lemma start_handler_simps [simp]:
  "hd_logMode (start_handler G S c) = QL_Mode (c_QueryLog c)" "hd_queryPrivacy (start_handler G S c) = QL_Clients (c_QueryLog c)"
  "hd_logged (start_handler G S c) = []" "hd_counter (start_handler G S c) = start_counter S c"
  by (simp_all add: start_handler_def SetCNAMEInspection_def SetLocalDomains_def hd_SetQueryLogMode_def NewHandler_def Let_def)

lemma file_ok_start: "newFileLogger err old ql = Some l \<Longrightarrow> file_ok fmt (QL_Mode ql) (set old) R l"
  by (auto simp: newFileLogger_def NewFileLogger_def file_ok_def file_holds_def split: if_splits option.splits)

lemma db_ok_start: "open_db S ql = Some d \<Longrightarrow> db_ok (QL_Mode ql) (set (map anon_row (db_rows (st_dbOld S)))) R d"
  by (auto simp: open_db_def NewDBLogger_def db_ok_def contents_def split: if_splits option.splits)

lemma run_ok_start:
  "run_ok G fmt (QL_Mode (c_QueryLog c)) (QL_Clients (c_QueryLog c)) (set (st_fileOld S)) (set (map anon_row (db_rows (st_dbOld S))))
     (startup G S c)"
  unfolding run_ok_def startup_def running.simps
  using hinv_fresh [OF fresh_start] quiet_start lists_start file_ok_start db_ok_start by (simp add: handler_ok_def)

section \<open>Property\<close>

text \<open>C4: What is recorded follows the two privacy settings, end to end. From every configuration, in every run of the started system, with
  queries, reloads, purges and the writers of the log file and the database interleaved in any way: the
  client of every record is an address masked as \<open>query_log.clients\<close> says; each line of the log file (its queue
  included) and each row of the database (its batch and queue included) was there before the start or is a
  record that \<open>query_log.mode\<close> wants; the count of a client or a domain in the top lists is at most the number of such
  records with that masked client, or of such blocked records with that domain; the graph counts at most the records that the mode
  wants, and unless the mode is \<open>all\<close> only blocked queries; and under the mode \<open>none\<close>, the default, the outputs gain
  nothing and the top lists and the graph stay empty.\<close>

theorem recording_follows_mode:
  assumes "libs_ok G" "(run_step G fmt)\<^sup>*\<^sup>* (startup G S c) s"
  shows "(\<forall>r \<in> set (hd_logged (ru_handler s)). masked G (QL_Clients (c_QueryLog c)) (rec_ClientIP r))
   \<and> (\<forall>l. ru_file s = Some l \<longrightarrow> file_holds l \<subseteq> set (st_fileOld S) \<union>
        {log_line fmt t r | t r. r \<in> set (hd_logged (ru_handler s)) \<and> wants (QL_Mode (c_QueryLog c)) r})
   \<and> (\<forall>d. ru_db s = Some d \<longrightarrow> set (contents d) \<subseteq> set (map anon_row (db_rows (st_dbOld S))) \<union>
        {row_of 0 (db_entry_of r t) | t r. r \<in> set (hd_logged (ru_handler s)) \<and> wants (QL_Mode (c_QueryLog c)) r})
   \<and> (\<forall>(k, n) \<in> set (ct_topClients (hd_counter (ru_handler s))). 0 < n
        \<and> n \<le> length (filter (\<lambda>r. wants (QL_Mode (c_QueryLog c)) r \<and> rec_ClientIP r = k) (hd_logged (ru_handler s))))
   \<and> (\<forall>(k, n) \<in> set (ct_topDomains (hd_counter (ru_handler s))). 0 < n
        \<and> n \<le> length (filter (\<lambda>r. wants (QL_Mode (c_QueryLog c)) r \<and> rec_Blocked r \<and> rec_Domain r = k) (hd_logged (ru_handler s))))
   \<and> sum_list (map mb_total (ct_timeline (hd_counter (ru_handler s)))) \<le> length (filter (wants (QL_Mode (c_QueryLog c))) (hd_logged (ru_handler s)))
   \<and> (QL_Mode (c_QueryLog c) \<noteq> ''all'' \<longrightarrow> list_all only_blocked (ct_timeline (hd_counter (ru_handler s))))
   \<and> (QL_Mode (c_QueryLog c) = ''none'' \<longrightarrow>
        (\<forall>l. ru_file s = Some l \<longrightarrow> file_holds l \<subseteq> set (st_fileOld S))
      \<and> (\<forall>d. ru_db s = Some d \<longrightarrow> set (contents d) \<subseteq> set (map anon_row (db_rows (st_dbOld S))))
      \<and> ct_topDomains (hd_counter (ru_handler s)) = [] \<and> ct_topClients (hd_counter (ru_handler s)) = []
      \<and> list_all (\<lambda>b. b = empty_bucket 0) (ct_timeline (hd_counter (ru_handler s))))"
proof -
  let ?M = "QL_Mode (c_QueryLog c)" let ?K = "QL_Clients (c_QueryLog c)"
  have ok: "run_ok G fmt ?M ?K (set (st_fileOld S)) (set (map anon_row (db_rows (st_dbOld S)))) s"
    using assms(2)
  proof (induction rule: rtranclp_induct)
    case base
    show ?case by (rule run_ok_start)
  next
    case (step y z)
    show ?case by (rule run_ok_step [OF assms(1) step.IH step.hyps(2)])
  qed
  have w: "\<not> wants ''none'' r" for r by (simp add: wants_def)
  have l: "lists_ok ?M (hd_logged (ru_handler s)) (hd_counter (ru_handler s))" using ok by (simp add: run_ok_def handler_ok_def)
  show ?thesis
  proof (intro conjI)
    show "\<forall>(k, n) \<in> set (ct_topClients (hd_counter (ru_handler s))). 0 < n
        \<and> n \<le> length (filter (\<lambda>r. wants ?M r \<and> rec_ClientIP r = k) (hd_logged (ru_handler s)))"
      using l by (simp add: lists_ok_def tally_within_def client_counts_def)
    show "\<forall>(k, n) \<in> set (ct_topDomains (hd_counter (ru_handler s))). 0 < n
        \<and> n \<le> length (filter (\<lambda>r. wants ?M r \<and> rec_Blocked r \<and> rec_Domain r = k) (hd_logged (ru_handler s)))"
      using l by (simp add: lists_ok_def tally_within_def domain_counts_def)
    show "sum_list (map mb_total (ct_timeline (hd_counter (ru_handler s)))) \<le> length (filter (wants ?M) (hd_logged (ru_handler s)))"
      "?M \<noteq> ''all'' \<longrightarrow> list_all only_blocked (ct_timeline (hd_counter (ru_handler s)))"
      using l by (simp_all add: lists_ok_def graph_within_def)
  qed (use ok in \<open>auto simp: run_ok_def handler_ok_def file_ok_def db_ok_def quiet_counter_def w\<close>)
qed

definition demo_start :: start_env where
  "demo_start = \<lparr>st_clock = 0, st_query = demo_E, st_path = \<lparr>sha256_hex = (\<lambda>u. u), path_join = (@)\<rparr>, st_disk = Map.empty, st_fetch = [], st_fileErr = None, st_fileOld = [''old''],
     st_dbSetup = [], st_dbOld = \<lparr>db_rows = [], db_seq = 0\<rparr>, st_hostname = None\<rparr>"

definition demo_private :: Config where
  "demo_private = defaults\<lparr>c_QueryLog := (c_QueryLog defaults)\<lparr>QL_File := ''q.log'', QL_Database := ''q.db''\<rparr>\<rparr>"

theorem recording_follows_mode_witness:
  "\<exists>s l. (run_step demo_G (\<lambda>t. []))\<^sup>*\<^sup>* (startup demo_G demo_start demo_private) s
    \<and> ru_file s = Some l \<and> file_holds l \<subseteq> {''old''} \<and> ct_topDomains (hd_counter (ru_handler s)) = []"
proof -
  let ?init = "startup demo_G demo_start demo_private"
  let ?s = "?init\<lparr>ru_file := map_option (file_step (\<lambda>t. []) (FWrite True)) (ru_file ?init)\<rparr>"
  have r: "(run_step demo_G (\<lambda>t. []))\<^sup>*\<^sup>* ?init ?s" by (rule r_into_rtranclp, rule run_step.run_file) simp
  have q: "QL_Mode (c_QueryLog demo_private) = ''none''" "QL_File (c_QueryLog demo_private) = ''q.log''" "st_fileOld demo_start = [''old'']"
    "st_fileErr demo_start = None"
    by (simp_all add: demo_private_def defaults_def demo_start_def)
  then obtain l where l: "ru_file ?s = Some l" by (simp add: startup_def newFileLogger_def NewFileLogger_def)
  have c: "file_holds l \<subseteq> {''old''}" "ct_topDomains (hd_counter (ru_handler ?s)) = []"
    using recording_follows_mode [OF demo_libs_ok r] l q by auto
  show ?thesis using r l c by blast
qed

end
