(* ===== verification/Db_Open.thy ===== *)
theory Db_Open
  imports Query_Db
begin

text \<open>
  Opening the query database, \<open>src/internal/querylog/db.go\<close>: the file modes, the schema and the migration of a table that an older
  build wrote. A table is its columns and its rows, a row a map from columns to values. What SQLite answers to each
  statement is the environment; \<open>strftime\<close> with the format of the migration is a parameter.
\<close>

section \<open>Model\<close>

subsection \<open>File modes\<close>

definition ownerOnly :: nat where "ownerOnly = 384"   \<comment> \<open>0600 in octal\<close>

type_synonym modes = "string \<Rightarrow> nat option"

record prepare_env =
  pp_open :: "string option"
  pp_umask :: "nat \<Rightarrow> nat"              \<comment> \<open>what the umask leaves of a mode\<close>
  pp_close :: "string option"
  pp_chmod :: "string \<Rightarrow> string option"   \<comment> \<open>of an existing file\<close>

definition chmod_step :: "prepare_env \<Rightarrow> string \<Rightarrow> modes \<Rightarrow> modes" where
  "chmod_step E p m = (if m p = None \<or> pp_chmod E p \<noteq> None then m else m(p \<mapsto> ownerOnly))"

definition preparePrivateDB :: "prepare_env \<Rightarrow> string \<Rightarrow> modes \<Rightarrow> modes \<times> string option" where
  "preparePrivateDB E path m = (case pp_open E of
     Some e \<Rightarrow> (m, Some e)
   | None \<Rightarrow>
       let m1 = (if m path = None then m(path \<mapsto> pp_umask E ownerOnly) else m) in
       (case pp_close E of
          Some e \<Rightarrow> (m1, Some e)
        | None \<Rightarrow> (fold (chmod_step E) [path, path @ ''-wal'', path @ ''-shm''] m1, None)))"

subsection \<open>The schema\<close>

datatype sql_value = SText string | SInt int

type_synonym sql_row = "string \<rightharpoonup> sql_value"

record sql_table =
  tb_cols :: "string list"
  tb_rows :: "sql_row list"

definition db_schema :: "string list" where
  "db_schema = [''id'', ''ts'', ''client_ip'', ''domain'', ''blocked'', ''cache_hit'', ''rcode'', ''synthesized'', ''block_source'']"

definition create_table :: "sql_table option \<Rightarrow> sql_table" where
  "create_table t = (case t of Some t \<Rightarrow> t | None \<Rightarrow> \<lparr>tb_cols = db_schema, tb_rows = []\<rparr>)"

record migrate_env =
  mg_info :: "string \<Rightarrow> string option"    \<comment> \<open>reading \<open>table_info\<close> when the column is looked for\<close>
  mg_alter :: "string \<Rightarrow> string option"
  mg_ts :: "string option"
  mg_domain :: "string option"
  mg_strftime :: "string \<Rightarrow> string option"

text \<open>\<open>ALTER TABLE ADD COLUMN INTEGER NOT NULL DEFAULT 0\<close>.\<close>

definition add_column :: "string \<Rightarrow> sql_table \<Rightarrow> sql_table" where
  "add_column c t = t\<lparr>tb_cols := tb_cols t @ [c], tb_rows := map (\<lambda>r. r(c \<mapsto> SInt 0)) (tb_rows t)\<rparr>"

definition ensureColumn :: "migrate_env \<Rightarrow> string \<Rightarrow> sql_table \<Rightarrow> sql_table \<times> string option" where
  "ensureColumn E c t = (case mg_info E c of
     Some e \<Rightarrow> (t, Some e)
   | None \<Rightarrow>
       if c \<in> set (tb_cols t) then (t, None)
       else (case mg_alter E c of Some e \<Rightarrow> (t, Some e) | None \<Rightarrow> (add_column c t, None)))"

text \<open>\<open>LIKE '%Z'\<close> does not look at the case of the letter; \<open>lower\<close> is ASCII only.\<close>

definition like_Z :: "string \<Rightarrow> bool" where
  "like_Z s \<longleftrightarrow> s \<noteq> [] \<and> (last s = CHR ''Z'' \<or> last s = CHR ''z'')"

definition utc_row :: "(string \<Rightarrow> string option) \<Rightarrow> sql_row \<Rightarrow> sql_row" where
  "utc_row strftime r = (case r ''ts'' of
     Some (SText ts) \<Rightarrow> (if like_Z ts then r else (case strftime ts of None \<Rightarrow> r | Some u \<Rightarrow> r(''ts'' \<mapsto> SText u)))
   | _ \<Rightarrow> r)"

definition sql_lower :: "string \<Rightarrow> string" where
  "sql_lower s = map lower_byte s"

definition lower_row :: "sql_row \<Rightarrow> sql_row" where
  "lower_row r = (case r ''domain'' of
     Some (SText d) \<Rightarrow> (if d \<noteq> sql_lower d then r(''domain'' \<mapsto> SText (sql_lower d)) else r)
   | _ \<Rightarrow> r)"

fun ensure_columns :: "migrate_env \<Rightarrow> string list \<Rightarrow> sql_table \<Rightarrow> sql_table \<times> string option" where
  "ensure_columns E [] t = (t, None)"
| "ensure_columns E (c # cs) t = (case ensureColumn E c t of
     (t1, Some e) \<Rightarrow> (t1, Some e) | (t1, None) \<Rightarrow> ensure_columns E cs t1)"

definition added_columns :: "string list" where
  "added_columns = [''cache_hit'', ''rcode'', ''synthesized'', ''block_source'']"

definition migrate :: "migrate_env \<Rightarrow> sql_table \<Rightarrow> sql_table \<times> string option" where
  "migrate E t = (case ensure_columns E added_columns t of
     (t1, Some e) \<Rightarrow> (t1, Some e)
   | (t1, None) \<Rightarrow> (case mg_ts E of
       Some e \<Rightarrow> (t1, Some e)
     | None \<Rightarrow>
         let t2 = t1\<lparr>tb_rows := map (utc_row (mg_strftime E)) (tb_rows t1)\<rparr> in
         (case mg_domain E of
            Some e \<Rightarrow> (t2, Some e)
          | None \<Rightarrow> (t2\<lparr>tb_rows := map lower_row (tb_rows t2)\<rparr>, None))))"

text \<open>The steps of \<open>NewDBLogger\<close> before it builds the logger, as the list that it goes through.\<close>

definition db_setup :: "prepare_env \<Rightarrow> string option \<Rightarrow> string option \<Rightarrow> string option \<Rightarrow> migrate_env \<Rightarrow> string \<Rightarrow> modes \<Rightarrow> sql_table option
    \<Rightarrow> (string \<times> db_error option) list" where
  "db_setup P openErr pragmaErr schemaErr M path m t =
     [(''create db'', map_option SqlErr (snd (preparePrivateDB P path m))), (''open db'', map_option SqlErr openErr),
      (''pragmas'', map_option SqlErr pragmaErr), (''schema'', map_option SqlErr schemaErr),
      (''migrate'', map_option SqlErr (snd (migrate M (create_table t))))]"

section \<open>Lemmas\<close>

text \<open>A row after the columns were added: the new columns are 0, the others as they were.\<close>

definition widened :: "string set \<Rightarrow> sql_row \<Rightarrow> sql_row \<Rightarrow> bool" where
  "widened new r r' \<longleftrightarrow> (\<forall>c. r' c = (if c \<in> new then Some (SInt 0) else r c))"

lemma ensure_columns_spec:
  assumes "ensure_columns E cs t = (t', None)"
  shows "set (tb_cols t') = set (tb_cols t) \<union> set cs
    \<and> list_all2 (widened (set cs - set (tb_cols t))) (tb_rows t) (tb_rows t')"
  using assms
proof (induction cs arbitrary: t)
  case Nil
  then show ?case by (auto simp: list_all2_conv_all_nth widened_def)
next
  case (Cons c cs)
  show ?case
  proof (cases "c \<in> set (tb_cols t)")
    case True
    then have "ensure_columns E cs t = (t', None)" using Cons.prems by (auto simp: ensureColumn_def split: option.splits)
    from Cons.IH [OF this] show ?thesis using True by (auto simp: insert_absorb Diff_insert insert_Diff_if)
  next
    case False
    then have "ensure_columns E cs (add_column c t) = (t', None)" using Cons.prems by (auto simp: ensureColumn_def split: option.splits)
    from Cons.IH [OF this] have 1: "set (tb_cols t') = insert c (set (tb_cols t)) \<union> set cs"
      and 2: "list_all2 (widened (set cs - insert c (set (tb_cols t)))) (map (\<lambda>r. r(c \<mapsto> SInt 0)) (tb_rows t)) (tb_rows t')"
      by (auto simp: add_column_def)
    have "list_all2 (widened (set (c # cs) - set (tb_cols t))) (tb_rows t) (tb_rows t')"
      using 2 False by (auto simp: list_all2_conv_all_nth widened_def)
    then show ?thesis using 1 by auto
  qed
qed

lemma ensure_columns_present: "set cs \<subseteq> set (tb_cols t) \<Longrightarrow> (\<And>c. mg_info E c = None) \<Longrightarrow> ensure_columns E cs t = (t, None)"
  by (induction cs) (auto simp: ensureColumn_def)

lemma lower_row_idem: "lower_row (lower_row r) = lower_row r"
  by (auto simp: lower_row_def sql_lower_def split: option.splits sql_value.splits)

lemma utc_row_idem: "(\<And>s u. f s = Some u \<Longrightarrow> like_Z u) \<Longrightarrow> utc_row f (utc_row f r) = utc_row f r"
  by (auto simp: utc_row_def split: option.splits sql_value.splits)

lemma row_steps_commute: "utc_row f (lower_row r) = lower_row (utc_row f r)"
  by (auto simp: utc_row_def lower_row_def fun_upd_twist split: option.splits sql_value.splits)

lemma row_steps_frame:
  "c \<noteq> ''ts'' \<Longrightarrow> utc_row f r c = r c" "c \<noteq> ''domain'' \<Longrightarrow> lower_row r c = r c"
  by (auto simp: utc_row_def lower_row_def split: option.splits sql_value.splits)

lemma migrate_None:
  assumes "migrate E t = (t', None)"
  obtains t1 where "ensure_columns E added_columns t = (t1, None)" "mg_ts E = None" "mg_domain E = None"
    "tb_cols t' = tb_cols t1" "tb_rows t' = map (\<lambda>r. lower_row (utc_row (mg_strftime E) r)) (tb_rows t1)"
  using assms by (auto simp: migrate_def Let_def split: prod.splits option.splits)

text \<open>After a successful preparation no file of the database is open to other accounts, unless its mode could not be changed.\<close>

lemma prepare_private:
  assumes "preparePrivateDB E path m = (m', None)" "q \<in> {path, path @ ''-wal'', path @ ''-shm''}" "pp_chmod E q = None"
  shows "m' q = None \<or> m' q = Some ownerOnly"
proof -
  have "path \<noteq> path @ ''-wal''" "path \<noteq> path @ ''-shm''" by simp_all
  then show ?thesis using assms by (auto simp: preparePrivateDB_def chmod_step_def Let_def split: option.splits if_splits)
qed

section \<open>Properties\<close>

text \<open>The migration brings a table of any older build to the current schema and loses nothing. If it succeeds, the four added
  columns exist; there are as many rows as before, in the same order; in each row a column that was added is 0 and every other
  column but the time and the name is unchanged; and, as \<open>strftime\<close> with this format ends its result in Z, a second migration changes nothing.\<close>

theorem migrate_upgrades:
  assumes "migrate E t = (t', None)" "\<And>s u. mg_strftime E s = Some u \<Longrightarrow> like_Z u"
  shows "set added_columns \<subseteq> set (tb_cols t') \<and> length (tb_rows t') = length (tb_rows t)
    \<and> (\<forall>i < length (tb_rows t). \<forall>c. c \<noteq> ''ts'' \<and> c \<noteq> ''domain'' \<longrightarrow>
         (tb_rows t' ! i) c = (if c \<in> set added_columns - set (tb_cols t) then Some (SInt 0) else (tb_rows t ! i) c))
    \<and> ((\<forall>c. mg_info E c = None) \<longrightarrow> migrate E t' = (t', None))"
proof -
  obtain t1 where 1: "ensure_columns E added_columns t = (t1, None)" "mg_ts E = None" "mg_domain E = None" "tb_cols t' = tb_cols t1"
    "tb_rows t' = map (\<lambda>r. lower_row (utc_row (mg_strftime E) r)) (tb_rows t1)" using migrate_None [OF assms(1)] .
  note sp = ensure_columns_spec [OF 1(1)]
  have len: "length (tb_rows t1) = length (tb_rows t)" using sp by (auto dest: list_all2_lengthD)
  have cols: "set added_columns \<subseteq> set (tb_cols t')" using sp 1(4) by auto
  have old: "(tb_rows t' ! i) c = (if c \<in> set added_columns - set (tb_cols t) then Some (SInt 0) else (tb_rows t ! i) c)"
    if "i < length (tb_rows t)" "c \<noteq> ''ts''" "c \<noteq> ''domain''" for i c
  proof -
    have "widened (set added_columns - set (tb_cols t)) (tb_rows t ! i) (tb_rows t1 ! i)" using sp that(1) len by (auto simp: list_all2_conv_all_nth)
    then show ?thesis using that len 1(5) by (simp add: row_steps_frame widened_def)
  qed
  have again: "migrate E t' = (t', None)" if "\<forall>c. mg_info E c = None"
  proof -
    have f: "lower_row (utc_row (mg_strftime E) (lower_row (utc_row (mg_strftime E) r))) = lower_row (utc_row (mg_strftime E) r)" for r
      by (simp add: row_steps_commute lower_row_idem utc_row_idem [OF assms(2)])
    have e: "ensure_columns E added_columns t' = (t', None)" using ensure_columns_present cols that by simp
    have "map (\<lambda>r. lower_row (utc_row (mg_strftime E) r)) (tb_rows t') = tb_rows t'" unfolding 1(5) by (simp add: f)
    then show ?thesis using e 1(2,3) by (simp add: migrate_def comp_def)
  qed
  show ?thesis using cols len 1(5) old again by simp
qed

definition demo_migrate :: migrate_env where
  "demo_migrate = \<lparr>mg_info = (\<lambda>c. None), mg_alter = (\<lambda>c. None), mg_ts = None, mg_domain = None,
     mg_strftime = (\<lambda>s. if s = ''noon+01:00'' then Some ''elevenZ'' else None)\<rparr>"

definition demo_old :: sql_table where
  "demo_old = \<lparr>tb_cols = [''id'', ''ts'', ''client_ip'', ''domain'', ''blocked''],
     tb_rows = [[''ts'' \<mapsto> SText ''noon+01:00'', ''domain'' \<mapsto> SText ''Ads.Example'', ''blocked'' \<mapsto> SInt 1]]\<rparr>"

theorem migrate_upgrades_witness:
  "\<exists>t'. migrate demo_migrate demo_old = (t', None) \<and> set added_columns \<subseteq> set (tb_cols t') \<and> (tb_rows t' ! 0) ''rcode'' = Some (SInt 0)
     \<and> (tb_rows t' ! 0) ''blocked'' = Some (SInt 1) \<and> migrate demo_migrate t' = (t', None)"
proof -
  have z: "mg_strftime demo_migrate s = Some u \<Longrightarrow> like_Z u" for s u by (auto simp: demo_migrate_def like_Z_def split: if_splits)
  have c: "tb_cols demo_old = [''id'', ''ts'', ''client_ip'', ''domain'', ''blocked'']" "length (tb_rows demo_old) = 1"
    "(tb_rows demo_old ! 0) ''blocked'' = Some (SInt 1)" "mg_info demo_migrate = (\<lambda>c. None)"
    by (simp_all add: demo_old_def demo_migrate_def)
  obtain t' where t: "migrate demo_migrate demo_old = (t', None)"
    by (simp add: migrate_def demo_migrate_def demo_old_def added_columns_def ensureColumn_def add_column_def Let_def)
  have r: "(tb_rows t' ! 0) ''rcode'' = Some (SInt 0)" "(tb_rows t' ! 0) ''blocked'' = Some (SInt 1)"
    using migrate_upgrades [OF t z] c by (simp_all add: added_columns_def)
  show ?thesis using migrate_upgrades [OF t z] t c(4) r by simp
qed

end
