(* ===== verification/Log_Out.thy ===== *)
theory Log_Out
  imports Go_Prelude
begin

text \<open>
  The log handlers, \<open>src/internal/logging/logging.go\<close>, \<open>src/internal/logging/journal_unix.go\<close> and \<open>src/internal/service/eventlog.go\<close>: the
  package loggers that look up the default handler for each record, the priority prefix for the system journal, and
  the Windows event log. The text that \<open>log/slog\<close> renders for a record is a parameter: it depends on the format, on the
  attributes that are dropped, and on the attributes and groups that were added, in order.
\<close>

section \<open>Model\<close>

datatype derivation = WithAttrs "(string \<times> string) list" | WithGroup string

datatype dropped = Drop_none | Drop_time | Drop_time_level

record 'r sloglib =
  sl_render :: "bool \<Rightarrow> dropped \<Rightarrow> derivation list \<Rightarrow> 'r \<Rightarrow> string"   \<comment> \<open>JSON or text; the line with its newline\<close>
  sl_level :: "'r \<Rightarrow> int"

definition LevelInfo :: int where "LevelInfo = 0"
definition LevelWarn :: int where "LevelWarn = 4"
definition LevelError :: int where "LevelError = 8"

text \<open>A handler of \<open>log/slog\<close> with what was derived, and the prefix of its writer.\<close>

record slog_handler =
  sh_json :: bool
  sh_drop :: dropped
  sh_prefix :: string
  sh_derived :: "derivation list"

datatype handler_kind = Plain slog_handler | Journal "slog_handler list"

definition newHandler :: "bool \<Rightarrow> dropped \<Rightarrow> string \<Rightarrow> slog_handler" where
  "newHandler json d pre = \<lparr>sh_json = json, sh_drop = d, sh_prefix = pre, sh_derived = []\<rparr>"

definition priorities :: "string list" where
  "priorities = [''<7>'', ''<6>'', ''<4>'', ''<3>'']"

definition NewStdoutHandler :: "bool \<Rightarrow> bool \<Rightarrow> handler_kind" where
  "NewStdoutHandler json journal =
     (if \<not> journal then Plain (newHandler json Drop_none [])
      else Journal (map (newHandler json (if json then Drop_none else Drop_time)) priorities))"

definition pick_index :: "int \<Rightarrow> nat" where
  "pick_index l = (if l < LevelInfo then 0 else if l < LevelWarn then 1 else if l < LevelError then 2 else 3)"

definition sub_derive :: "derivation \<Rightarrow> slog_handler \<Rightarrow> slog_handler" where
  "sub_derive d h = h\<lparr>sh_derived := sh_derived h @ [d]\<rparr>"

text \<open>\<open>WithAttrs\<close> and \<open>WithGroup\<close> of both kinds.\<close>

fun derive :: "derivation \<Rightarrow> handler_kind \<Rightarrow> handler_kind" where
  "derive d (Plain h) = Plain (sub_derive d h)"
| "derive d (Journal hs) = Journal (map (sub_derive d) hs)"

text \<open>\<open>prefixWriter.Write\<close>: the prefix and the line in one write.\<close>

definition sub_line :: "'r sloglib \<Rightarrow> slog_handler \<Rightarrow> 'r \<Rightarrow> string" where
  "sub_line S h r = sh_prefix h @ sl_render S (sh_json h) (sh_drop h) (sh_derived h) r"

fun handle :: "'r sloglib \<Rightarrow> handler_kind \<Rightarrow> 'r \<Rightarrow> string" where
  "handle S (Plain h) r = sub_line S h r"
| "handle S (Journal hs) r = sub_line S (hs ! pick_index (sl_level S r)) r"

text \<open>A package logger: \<open>For\<close> with the derivations that were added to it, replayed on the default handler of the moment.\<close>

type_synonym late = "derivation list"

definition logging_For :: "string \<Rightarrow> late" where
  "logging_For pkg = [WithAttrs [(''pkg'', pkg)]]"

definition late_derive :: "derivation \<Rightarrow> late \<Rightarrow> late" where
  "late_derive d l = l @ [d]"

definition late_handle :: "'r sloglib \<Rightarrow> handler_kind \<Rightarrow> late \<Rightarrow> 'r \<Rightarrow> string" where
  "late_handle S current l r = handle S (fold derive l current) r"

text \<open>\<open>streamMatches\<close>: device and inode of standard output, if it could be read.\<close>

definition streamMatches :: "string \<Rightarrow> (int \<times> int) option \<Rightarrow> bool" where
  "streamMatches env st \<longleftrightarrow> env \<noteq> [] \<and> (case st of None \<Rightarrow> False | Some (dev, ino) \<Rightarrow> env = Itoa dev @ '':'' @ Itoa ino)"

subsection \<open>The Windows event log\<close>

datatype severity = Ev_info | Ev_warning | Ev_error

definition event_severity :: "int \<Rightarrow> severity" where
  "event_severity l = (if LevelError \<le> l then Ev_error else if LevelWarn \<le> l then Ev_warning else Ev_info)"

text \<open>\<open>Handle\<close> on the derivations of the logger: severity and text of the event.\<close>

definition event_handle :: "'r sloglib \<Rightarrow> derivation list \<Rightarrow> 'r \<Rightarrow> severity \<times> string" where
  "event_handle S ds r = (event_severity (sl_level S r), rev (dropWhile (\<lambda>c. c = CHR 0x0A) (rev (sl_render S False Drop_time_level ds r))))"

section \<open>Lemmas\<close>

lemma fold_sub_derive: "fold sub_derive ds h = h\<lparr>sh_derived := sh_derived h @ ds\<rparr>"
  by (induction ds arbitrary: h) (simp_all add: sub_derive_def)

lemma fold_derive:
  "fold derive ds (Plain h) = Plain (fold sub_derive ds h)" "fold derive ds (Journal hs) = Journal (map (fold sub_derive ds) hs)"
  by (induction ds arbitrary: h hs) (simp_all add: comp_def)

text \<open>Whatever was derived from a package logger, each record becomes one line at the priority of its level, rendered with the
  package and the derivations in order, by the handler that is installed when it is logged.\<close>

lemma package_line:
  assumes "l = fold late_derive ds (logging_For pkg)"
  shows "late_handle S (NewStdoutHandler json journal) l r =
    (if journal then priorities ! pick_index (sl_level S r) else [])
      @ sl_render S json (if journal \<and> \<not> json then Drop_time else Drop_none) (WithAttrs [(''pkg'', pkg)] # ds) r"
proof -
  have "l = logging_For pkg @ ds" unfolding assms by (induction ds rule: rev_induct) (simp_all add: late_derive_def)
  then have l: "l = WithAttrs [(''pkg'', pkg)] # ds" by (simp add: logging_For_def)
  have i: "pick_index (sl_level S r) < length priorities" by (simp add: pick_index_def priorities_def)
  show ?thesis
  proof (cases journal)
    case True
    have "fold derive l (Journal (map (newHandler json d) priorities)) = Journal (map (\<lambda>p. (newHandler json d p)\<lparr>sh_derived := l\<rparr>) priorities)" for d
      by (simp add: fold_derive fold_sub_derive comp_def newHandler_def)
    then show ?thesis using True i by (simp add: late_handle_def NewStdoutHandler_def sub_line_def newHandler_def l)
  next
    case False
    then show ?thesis by (simp add: late_handle_def NewStdoutHandler_def fold_derive fold_sub_derive sub_derive_def sub_line_def newHandler_def l)
  qed
qed

lemma priorities_order: "l \<le> l' \<Longrightarrow> pick_index l \<le> pick_index l'"
  by (simp add: pick_index_def LevelInfo_def LevelWarn_def LevelError_def)

end
