(* ===== verification/Win_Acl.thy ===== *)
theory Win_Acl
  imports Go_Prelude Config_Load
begin

text \<open>
  The access lists of the Windows service, \<open>src/internal/service/acl.go\<close>: rights as 32-bit masks, the access list that the
  config folder gets, what rights a list grants, the paths through which the binary could be replaced, and
  which folders and items are refused. The name of a service is ASCII here, as the only name that the
  program uses is. The environment is a function of the variable's name.
\<close>

unbundle bit_operations_syntax

section \<open>Rights\<close>

type_synonym rights = "32 word"

definition rightReadData :: rights where "rightReadData = 0x1"
definition rightWriteData :: rights where "rightWriteData = 0x2"
definition rightAppendData :: rights where "rightAppendData = 0x4"
definition rightReadEA :: rights where "rightReadEA = 0x8"
definition rightWriteEA :: rights where "rightWriteEA = 0x10"
definition rightExecute :: rights where "rightExecute = 0x20"
definition rightDeleteChild :: rights where "rightDeleteChild = 0x40"
definition rightReadAttributes :: rights where "rightReadAttributes = 0x80"
definition rightWriteAttributes :: rights where "rightWriteAttributes = 0x100"
definition rightDelete :: rights where "rightDelete = 0x10000"
definition rightReadControl :: rights where "rightReadControl = 0x20000"
definition rightWriteDAC :: rights where "rightWriteDAC = 0x40000"
definition rightWriteOwner :: rights where "rightWriteOwner = 0x80000"
definition rightSynchronize :: rights where "rightSynchronize = 0x100000"

definition genericAll :: rights where "genericAll = 0x10000000"
definition genericExecute :: rights where "genericExecute = 0x20000000"
definition genericWrite :: rights where "genericWrite = 0x40000000"
definition genericRead :: rights where "genericRead = 0x80000000"

definition fileGenericRead :: rights where
  "fileGenericRead = rightReadControl OR rightReadData OR rightReadAttributes OR rightReadEA OR rightSynchronize"
definition fileGenericWrite :: rights where
  "fileGenericWrite = rightReadControl OR rightWriteData OR rightWriteAttributes OR rightWriteEA OR rightAppendData OR rightSynchronize"
definition fileGenericExecute :: rights where
  "fileGenericExecute = rightReadControl OR rightReadAttributes OR rightExecute OR rightSynchronize"
definition fileAllAccess :: rights where "fileAllAccess = 0x1f01ff"
definition rightReadExecute :: rights where "rightReadExecute = fileGenericRead OR fileGenericExecute"

definition binaryFileWrite :: rights where
  "binaryFileWrite = rightWriteData OR rightAppendData OR rightDelete OR rightWriteDAC OR rightWriteOwner"
definition binaryFolderWrite :: rights where
  "binaryFolderWrite = rightWriteData OR rightAppendData OR rightDeleteChild OR rightDelete OR rightWriteDAC OR rightWriteOwner"
definition parentFolderWrite :: rights where
  "parentFolderWrite = rightDeleteChild OR rightDelete OR rightWriteDAC OR rightWriteOwner"

lemmas right_defs = rightReadData_def rightWriteData_def rightAppendData_def rightReadEA_def rightWriteEA_def rightExecute_def
  rightDeleteChild_def rightReadAttributes_def rightWriteAttributes_def rightDelete_def rightReadControl_def rightWriteDAC_def
  rightWriteOwner_def rightSynchronize_def genericAll_def genericExecute_def genericWrite_def genericRead_def fileGenericRead_def
  fileGenericWrite_def fileGenericExecute_def fileAllAccess_def rightReadExecute_def binaryFileWrite_def binaryFolderWrite_def
  parentFolderWrite_def

section \<open>Access lists\<close>

definition aceObjectInherit :: "8 word" where "aceObjectInherit = 0x1"
definition aceContainerInherit :: "8 word" where "aceContainerInherit = 0x2"
definition aceInheritOnly :: "8 word" where "aceInheritOnly = 0x8"

definition sidSystem :: string where "sidSystem = ''S-1-5-18''"
definition sidAdministrators :: string where "sidAdministrators = ''S-1-5-32-544''"
definition sidCreatorOwner :: string where "sidCreatorOwner = ''S-1-3-0''"
definition sidOwnerRights :: string where "sidOwnerRights = ''S-1-3-4''"

record ace =
  ace_deny :: bool
  ace_flags :: "8 word"
  ace_mask :: rights
  ace_sid :: string

subsection \<open>The service's SID\<close>

text \<open>\<open>crypto/sha1\<close> on bytes.\<close>

definition be_bytes :: "nat \<Rightarrow> nat \<Rightarrow> nat list" where
  "be_bytes k n = map (\<lambda>i. n div 256 ^ (k - Suc i) mod 256) [0..<k]"

definition sha1_pad :: "nat list \<Rightarrow> nat list" where
  "sha1_pad bs = bs @ [128] @ replicate ((119 - length bs mod 64) mod 64) 0 @ be_bytes 8 (8 * length bs)"

fun be_words :: "nat list \<Rightarrow> 32 word list" where
  "be_words (a # b # c # d # bs) = of_nat (((a * 256 + b) * 256 + c) * 256 + d) # be_words bs"
| "be_words _ = []"

fun blocks16 :: "nat \<Rightarrow> 32 word list \<Rightarrow> 32 word list list" where
  "blocks16 0 ws = []"
| "blocks16 (Suc n) ws = take 16 ws # blocks16 n (drop 16 ws)"

definition sha1_schedule :: "32 word list \<Rightarrow> 32 word list" where
  "sha1_schedule ws = fold (\<lambda>t w. w @ [word_rotl 1 (w ! (t - 3) XOR w ! (t - 8) XOR w ! (t - 14) XOR w ! (t - 16))]) [16..<80] ws"

type_synonym sha1_state = "32 word \<times> 32 word \<times> 32 word \<times> 32 word \<times> 32 word"

definition sha1_round :: "nat \<Rightarrow> 32 word \<Rightarrow> sha1_state \<Rightarrow> sha1_state" where
  "sha1_round t w st = (case st of (a, b, c, d, e) \<Rightarrow>
     let (f, k) = (if t < 20 then ((b AND c) OR (NOT b AND d), 0x5A827999)
                   else if t < 40 then (b XOR c XOR d, 0x6ED9EBA1)
                   else if t < 60 then ((b AND c) OR (b AND d) OR (c AND d), 0x8F1BBCDC)
                   else (b XOR c XOR d, 0xCA62C1D6))
     in (word_rotl 5 a + f + e + k + w, a, word_rotl 30 b, c, d))"

definition sha1_block :: "32 word list \<Rightarrow> sha1_state \<Rightarrow> sha1_state" where
  "sha1_block ws st =
     (case fold (\<lambda>(t, w). sha1_round t w) (zip [0..<80] (sha1_schedule ws)) st of
        (a, b, c, d, e) \<Rightarrow> (case st of (a0, b0, c0, d0, e0) \<Rightarrow> (a0 + a, b0 + b, c0 + c, d0 + d, e0 + e)))"

definition sha1_Sum :: "nat list \<Rightarrow> nat list" where
  "sha1_Sum bs = (let p = sha1_pad bs in
     case fold sha1_block (blocks16 (length p div 64) (be_words p)) (0x67452301, 0xEFCDAB89, 0x98BADCFE, 0x10325476, 0xC3D2E1F0) of
       (a, b, c, d, e) \<Rightarrow> concat (map (\<lambda>w. be_bytes 4 (unat w)) [a, b, c, d, e]))"

text \<open>The five little-endian numbers of the digest of the name in UTF-16LE.\<close>

definition le32 :: "nat list \<Rightarrow> nat" where
  "le32 bs = bs ! 0 + 256 * (bs ! 1 + 256 * (bs ! 2 + 256 * bs ! 3))"

definition serviceSID :: "string \<Rightarrow> string" where
  "serviceSID name =
     (let b = concat (map (\<lambda>c. [byte_of c, 0]) (ToUpper name));
          sum = sha1_Sum b;
          parts = map (\<lambda>i. itoa_nat (le32 (drop (4 * i) sum))) [0..<5]
      in ''S-1-5-80-'' @ Join parts ''-'')"

definition serviceTokenSIDs :: "string \<Rightarrow> string list" where
  "serviceTokenSIDs svcSID = [svcSID, ''S-1-1-0'', ''S-1-2-0'', ''S-1-2-1'', ''S-1-5-6'', ''S-1-5-11'', ''S-1-5-15'', ''S-1-5-32-545'',
     ''S-1-5-80-0'']"

subsection \<open>The list of the config folder\<close>

definition serviceDirACL :: "string \<Rightarrow> ace list" where
  "serviceDirACL svcSID =
     (let inherit = aceObjectInherit OR aceContainerInherit in
      [\<lparr>ace_deny = False, ace_flags = inherit, ace_mask = fileAllAccess, ace_sid = sidSystem\<rparr>,
       \<lparr>ace_deny = False, ace_flags = inherit, ace_mask = fileAllAccess, ace_sid = sidAdministrators\<rparr>,
       \<lparr>ace_deny = False, ace_flags = inherit, ace_mask = rightReadExecute, ace_sid = svcSID\<rparr>,
       \<lparr>ace_deny = False, ace_flags = 0, ace_mask = rightWriteData OR rightAppendData, ace_sid = svcSID\<rparr>,
       \<lparr>ace_deny = False, ace_flags = inherit OR aceInheritOnly, ace_mask = fileAllAccess, ace_sid = sidCreatorOwner\<rparr>])"

text \<open>\<open>%x\<close> of a mask.\<close>

definition hex_char :: "nat \<Rightarrow> char" where
  "hex_char n = (if n < 10 then char_of (48 + n) else char_of (87 + n))"

fun hex_nat :: "nat \<Rightarrow> string" where
  "hex_nat n = (if n < 16 then [hex_char n] else hex_nat (n div 16) @ [hex_char (n mod 16)])"

definition sddl_flags :: "8 word \<Rightarrow> string" where
  "sddl_flags fl = (if fl AND aceObjectInherit \<noteq> 0 then ''OI'' else []) @ (if fl AND aceContainerInherit \<noteq> 0 then ''CI'' else [])
     @ (if fl AND aceInheritOnly \<noteq> 0 then ''IO'' else [])"

definition sddl_ace :: "ace \<Rightarrow> string" where
  "sddl_ace e = ''('' @ (if ace_deny e then ''D'' else ''A'') @ '';'' @ sddl_flags (ace_flags e) @ '';0x'' @ hex_nat (unat (ace_mask e))
     @ '';;;'' @ ace_sid e @ '')''"

definition sddl :: "ace list \<Rightarrow> string" where
  "sddl acl = ''D:P'' @ concat (map sddl_ace acl)"

subsection \<open>What a list grants\<close>

definition mapGeneric :: "rights \<Rightarrow> rights" where
  "mapGeneric m =
     (let m0 = m AND NOT (genericAll OR genericExecute OR genericWrite OR genericRead);
          m1 = (if m AND genericRead \<noteq> 0 then m0 OR fileGenericRead else m0);
          m2 = (if m AND genericWrite \<noteq> 0 then m1 OR fileGenericWrite else m1);
          m3 = (if m AND genericExecute \<noteq> 0 then m2 OR fileGenericExecute else m2)
      in if m AND genericAll \<noteq> 0 then m3 OR fileAllAccess else m3)"

text \<open>One entry: what is granted and denied so far, and whether there was an entry for OWNER RIGHTS.\<close>

definition grant_step :: "string set \<Rightarrow> ace \<Rightarrow> rights \<times> rights \<times> bool \<Rightarrow> rights \<times> rights \<times> bool" where
  "grant_step holds e st = (case st of (granted, denied, ownerRightsSet) \<Rightarrow>
     if ace_flags e AND aceInheritOnly \<noteq> 0 then st
     else
       let ors = (ownerRightsSet \<or> ace_sid e = sidOwnerRights) in
       if ace_sid e \<notin> holds then (granted, denied, ors)
       else if ace_deny e then (granted, denied OR (mapGeneric (ace_mask e) AND NOT granted), ors)
       else (granted OR (mapGeneric (ace_mask e) AND NOT denied), denied, ors))"

definition grantedRights :: "string \<Rightarrow> ace list \<Rightarrow> bool \<Rightarrow> string list \<Rightarrow> rights" where
  "grantedRights owner acl nullDACL sids =
     (if nullDACL then fileAllAccess
      else
        let isOwner = owner \<in> set sids;
            holds = (if isOwner then insert sidOwnerRights (set sids) else set sids);
            (granted, denied, ownerRightsSet) = fold (grant_step holds) acl (0, 0, False)
        in if isOwner \<and> \<not> ownerRightsSet then granted OR (rightReadControl OR rightWriteDAC) else granted)"

subsection \<open>The paths of the binary\<close>

type_synonym pathCheck = "string \<times> rights"

abbreviation (input) bslash :: char where "bslash \<equiv> CHR 0x5C"

lemma LastIndexByte_less: "LastIndexByte s c = Some i \<Longrightarrow> i < length s"
  by (auto simp: LastIndexByte_def dest: IndexByte_Some)

function folder_checks :: "string \<Rightarrow> rights \<Rightarrow> pathCheck list" where
  "folder_checks p r =
     (case LastIndexByte p bslash of
        None \<Rightarrow> []
      | Some i \<Rightarrow>
          if i = 0 then []
          else
            let q = take i p in
            if length q = 2 \<and> q ! 1 = CHR '':'' then [(q @ [bslash], r)]
            else if HasPrefix q [bslash, bslash] \<and> \<not> Contains (drop 2 q) [bslash] then []
            else (q, r) # folder_checks q parentFolderWrite)"
  by pat_completeness auto
termination
  by (relation "measure (\<lambda>(p, r). length p)") (auto dest: LastIndexByte_less)

declare folder_checks.simps [simp del]

definition binaryPaths :: "string \<Rightarrow> pathCheck list" where
  "binaryPaths exe = (exe, binaryFileWrite) # folder_checks exe binaryFolderWrite"

definition rightNames :: "rights \<Rightarrow> string" where
  "rightNames m = Join (map snd (filter (\<lambda>(b, n). m AND b \<noteq> 0)
     [(rightWriteData, ''write or add file''), (rightAppendData, ''append or add subfolder''), (rightDeleteChild, ''delete child''),
      (rightDelete, ''delete''), (rightWriteDAC, ''change permissions''), (rightWriteOwner, ''take ownership'')])) '', ''"

subsection \<open>Refused folders and items\<close>

definition norm_dir :: "unicode \<Rightarrow> string \<Rightarrow> string" where
  "norm_dir U p = ToLower U (rev (dropWhile (\<lambda>c. c = bslash) (rev p)))"

definition unsafeConfigDir :: "unicode \<Rightarrow> string \<Rightarrow> (string \<Rightarrow> string) \<Rightarrow> string" where
  "unsafeConfigDir U dir getenv =
     (let d = norm_dir U dir; root = norm_dir U (getenv ''SystemRoot'') in
      if length d = 2 \<and> d ! 1 = CHR '':'' then ''it is the root of a drive''
      else if root \<noteq> [] \<and> (d = root \<or> HasPrefix d (root @ [bslash])) then ''it is in the Windows folder''
      else (case find (\<lambda>v. norm_dir U (getenv v) \<noteq> [] \<and> d = norm_dir U (getenv v))
                   [''ProgramFiles'', ''ProgramFiles(x86)'', ''ProgramW6432'', ''ProgramData'', ''USERPROFILE''] of
          Some v \<Rightarrow> ''it is the '' @ v @ '' folder''
        | None \<Rightarrow>
            let pub = norm_dir U (getenv ''PUBLIC'') in
            (case LastIndexByte pub bslash of
               Some i \<Rightarrow> if 0 < i \<and> d = take i pub then ''it is the folder that holds the user profiles'' else []
             | None \<Rightarrow> [])))"

text \<open>\<open>owners\<close> is a Go map: an association list with distinct keys, in any order.\<close>

definition foreignItems :: "(string \<times> string) list \<Rightarrow> string list \<Rightarrow> string list" where
  "foreignItems owners allowed = sort (map fst (filter (\<lambda>(p, o'). o' \<notin> set allowed) owners))"

section \<open>Lemmas\<close>

subsection \<open>The access check\<close>

text \<open>The reference: for each right, the first entry that applies to the holder and names the right decides.\<close>

definition applies :: "string set \<Rightarrow> nat \<Rightarrow> ace \<Rightarrow> bool" where
  "applies H b e \<longleftrightarrow> ace_flags e AND aceInheritOnly = 0 \<and> ace_sid e \<in> H \<and> bit (mapGeneric (ace_mask e)) b"

definition first_entry :: "string set \<Rightarrow> nat \<Rightarrow> ace list \<Rightarrow> bool option" where
  "first_entry H b acl = map_option (\<lambda>e. \<not> ace_deny e) (find (applies H b) acl)"

definition names_owner :: "ace \<Rightarrow> bool" where
  "names_owner e \<longleftrightarrow> ace_flags e AND aceInheritOnly = 0 \<and> ace_sid e = sidOwnerRights"

lemma bit_and_not:
  fixes a b :: "32 word"
  shows "bit (a AND NOT b) n \<longleftrightarrow> bit a n \<and> \<not> bit b n"
  by (auto simp: bit_and_iff bit_not_iff dest: bit_imp_le_length)

lemma grant_step_bits:
  assumes "grant_step H e (g, d, o1) = (g', d', o')" "\<not> (bit g b \<and> bit d b)"
  shows "bit g' b \<longleftrightarrow> bit g b \<or> \<not> bit d b \<and> applies H b e \<and> \<not> ace_deny e"
    "bit d' b \<longleftrightarrow> bit d b \<or> \<not> bit g b \<and> applies H b e \<and> ace_deny e"
    "o' \<longleftrightarrow> o1 \<or> names_owner e"
  using assms by (auto simp: grant_step_def applies_def names_owner_def Let_def bit_or_iff bit_and_not split: if_splits)

lemma grant_fold:
  assumes "fold (grant_step H) acl (g, d, o1) = (g', d', o')" "\<not> (bit g b \<and> bit d b)"
  shows "(bit g' b \<longleftrightarrow> bit g b \<or> \<not> bit d b \<and> first_entry H b acl = Some True) \<and> (o' \<longleftrightarrow> o1 \<or> (\<exists>e \<in> set acl. names_owner e))"
  using assms
proof (induction acl arbitrary: g d o1)
  case (Cons e acl)
  obtain g1 d1 o2 where st: "grant_step H e (g, d, o1) = (g1, d1, o2)" by (metis prod_cases3)
  note bits = grant_step_bits [OF st Cons.prems(2)]
  have "\<not> (bit g1 b \<and> bit d1 b)" using bits(1,2) Cons.prems(2) by blast
  from Cons.IH [OF _ this, of o2] show ?case using Cons.prems st bits by (cases "applies H b e") (auto simp: first_entry_def)
qed (simp add: first_entry_def)

definition held :: "string \<Rightarrow> string list \<Rightarrow> string set" where
  "held owner sids = (if owner \<in> set sids then insert sidOwnerRights (set sids) else set sids)"

lemma granted_bit:
  "bit (grantedRights owner acl False sids) b \<longleftrightarrow> first_entry (held owner sids) b acl = Some True
     \<or> owner \<in> set sids \<and> (\<forall>e \<in> set acl. \<not> names_owner e) \<and> (b = 17 \<or> b = 18)"
proof -
  obtain g d o' where f: "fold (grant_step (held owner sids)) acl (0, 0, False) = (g, d, o')" by (metis prod_cases3)
  have "grantedRights owner acl False sids = (if owner \<in> set sids \<and> \<not> o' then g OR (rightReadControl OR rightWriteDAC) else g)"
    using f by (cases "owner \<in> set sids") (simp_all add: grantedRights_def held_def)
  moreover have two: "rightReadControl = 2 ^ 17" "rightWriteDAC = 2 ^ 18" by (simp_all add: right_defs)
  have "bit (rightReadControl OR rightWriteDAC) b \<longleftrightarrow> b = 17 \<or> b = 18"
    unfolding two bit_or_iff bit_exp_iff by auto
  with calculation show ?thesis using grant_fold [OF f, of b] by (auto simp: bit_or_iff)
qed

subsection \<open>The paths\<close>

definition win_path :: "string \<Rightarrow> string list \<Rightarrow> string" where
  "win_path d cs = d @ concat (map (Cons bslash) cs)"

lemma win_path_snoc: "win_path d (cs @ [c]) = win_path d cs @ bslash # c"
  by (simp add: win_path_def)

lemma LastIndexByte_last: "c \<notin> set s \<Longrightarrow> LastIndexByte (p @ c # s) c = Some (length p)"
  by (simp add: LastIndexByte_def IndexByte_append_notin)

text \<open>The folder with the first \<open>k\<close> components; the root of a drive is written with a backslash.\<close>

definition folder_at :: "string \<Rightarrow> string list \<Rightarrow> nat \<Rightarrow> string" where
  "folder_at d cs k = (if k = 0 then d @ [bslash] else win_path d (take k cs))"

lemma folder_at_snoc: "map (folder_at d (cs @ [c])) (rev [0..<length cs]) = map (folder_at d cs) (rev [0..<length cs])"
  by (rule map_cong) (auto simp: folder_at_def)

lemma folder_checks_drive:
  assumes "length d = 2" "d ! 1 = CHR '':''" "hd d \<noteq> bslash" "list_all (\<lambda>c. bslash \<notin> set c) cs" "cs \<noteq> []"
  shows "folder_checks (win_path d cs) r =
    zip (map (folder_at d cs) (rev [0..<length cs])) (r # replicate (length cs - 1) parentFolderWrite)"
  using assms(4,5)
proof (induction cs arbitrary: r rule: rev_induct)
  case (snoc c cs)
  have d: "d \<noteq> []" using assms(1) by auto
  have i: "LastIndexByte (win_path d (cs @ [c])) bslash = Some (length (win_path d cs))"
    using snoc.prems by (simp add: win_path_snoc LastIndexByte_last)
  have ne: "\<not> HasPrefix (win_path d cs) [bslash, bslash]" using assms(3) d by (cases d) (auto simp: win_path_def HasPrefix_def)
  have pos: "length (win_path d cs) \<noteq> 0" using d by (simp add: win_path_def)
  have t: "take (length (win_path d cs)) (win_path d (cs @ [c])) = win_path d cs" by (simp add: win_path_snoc)
  show ?case
  proof (cases "cs = []")
    case True
    then have "win_path d cs = d" by (simp add: win_path_def)
    then show ?thesis using True i t pos assms(1,2) by (subst folder_checks.simps) (simp add: folder_at_def)
  next
    case False
    then have "length (win_path d cs) \<noteq> 2" using assms(1) by (cases cs) (auto simp: win_path_def)
    then have "folder_checks (win_path d (cs @ [c])) r = (win_path d cs, r) # folder_checks (win_path d cs) parentFolderWrite"
      using i t pos ne by (subst folder_checks.simps) (simp add: Let_def)
    moreover have "folder_checks (win_path d cs) parentFolderWrite
        = zip (map (folder_at d cs) (rev [0..<length cs])) (parentFolderWrite # replicate (length cs - 1) parentFolderWrite)"
      using snoc.IH False snoc.prems by simp
    moreover have "parentFolderWrite # replicate (length cs - 1) parentFolderWrite = replicate (length cs) parentFolderWrite"
      using False by (cases cs) simp_all
    moreover have "folder_at d (cs @ [c]) (length cs) = win_path d cs" using False by (simp add: folder_at_def)
    ultimately show ?thesis by (simp add: folder_at_snoc)
  qed
qed simp

subsection \<open>The config folder\<close>

lemma serviceSID_prefix: "\<exists>rest. serviceSID name = ''S-1-5-80-'' @ rest"
  by (simp add: serviceSID_def Let_def)

lemma serviceSID_known [simp]:
  "serviceSID name \<noteq> sidSystem" "serviceSID name \<noteq> sidAdministrators" "serviceSID name \<noteq> sidCreatorOwner" "serviceSID name \<noteq> sidOwnerRights"
  using serviceSID_prefix [of name] by (auto simp: sidSystem_def sidAdministrators_def sidCreatorOwner_def sidOwnerRights_def)

lemma flags_inherit [simp]:
  "(aceObjectInherit OR aceContainerInherit) AND aceInheritOnly = 0" "(0 :: 8 word) AND aceInheritOnly = 0"
  "((aceObjectInherit OR aceContainerInherit) OR aceInheritOnly) AND aceInheritOnly \<noteq> 0" "aceInheritOnly \<noteq> 0"
  "(aceObjectInherit OR aceContainerInherit OR aceInheritOnly) AND aceInheritOnly \<noteq> 0"
  by (simp_all add: aceObjectInherit_def aceContainerInherit_def aceInheritOnly_def)

lemma mapGeneric_dir [simp]:
  "mapGeneric fileAllAccess = fileAllAccess" "mapGeneric rightReadExecute = rightReadExecute"
  "mapGeneric (rightWriteData OR rightAppendData) = rightWriteData OR rightAppendData"
  by (simp_all add: mapGeneric_def right_defs Let_def)

section \<open>Properties\<close>

text \<open>C21: The computed rights are those of the Windows access check. A missing access list allows everything; otherwise a right is granted exactly if
  the first entry that is not inherit-only, names an identity of the holder and contains the right (generic
  rights expanded) is an allow entry, or if the holder owns the object, no entry names OWNER RIGHTS and the right is to read or change
  the access list.\<close>

theorem access_check_exact:
  "grantedRights owner acl True sids = fileAllAccess
   \<and> (\<forall>b. bit (grantedRights owner acl False sids) b \<longleftrightarrow>
        first_entry (held owner sids) b acl = Some True
      \<or> owner \<in> set sids \<and> \<not> list_ex names_owner acl \<and> (b = 17 \<or> b = 18))"
  using granted_bit [of owner acl sids] by (auto simp: grantedRights_def list_ex_iff)

text \<open>The check of the binary looks at every path through which it could be replaced. For a binary below the root of a drive these
  are the file, its folder and each folder above it, up to the root, in this order, each with the rights that must
  be missing there.\<close>

theorem binary_paths_complete:
  assumes "length d = 2" "d ! 1 = CHR '':''" "hd d \<noteq> CHR 0x5C" "list_all (\<lambda>c. CHR 0x5C \<notin> set c) cs" "cs \<noteq> []"
  shows "map fst (binaryPaths (win_path d cs)) = win_path d cs # map (folder_at d cs) (rev [0..<length cs])
    \<and> map snd (binaryPaths (win_path d cs)) = binaryFileWrite # binaryFolderWrite # replicate (length cs - 1) parentFolderWrite"
  using folder_checks_drive [OF assms] assms(5) by (simp add: binaryPaths_def)

theorem binary_paths_complete_witness:
  "map fst (binaryPaths (win_path ''C:'' [''Program Files'', ''s-hole'', ''s-hole.exe'']))
     = win_path ''C:'' [''Program Files'', ''s-hole'', ''s-hole.exe''] # map (folder_at ''C:'' [''Program Files'', ''s-hole'', ''s-hole.exe'']) [2, 1, 0]"
  using binary_paths_complete [of "''C:''" "[''Program Files'', ''s-hole'', ''s-hole.exe'']"] by (simp add: upt_rec eval_nat_numeral)

text \<open>The access list of the config folder does what its comment says. If the folder's owner is none of the identities in the service's
  token, the service may read it and add files and subfolders, and may not delete, rename or change rights; an
  account that is neither SYSTEM, an administrator, the service nor the owner gets no right at all.\<close>

theorem config_folder_rights:
  assumes "owner \<notin> set (serviceTokenSIDs (serviceSID name))"
    and "set sids \<inter> {sidSystem, sidAdministrators, serviceSID name} = {}" "owner \<notin> set sids"
  shows "grantedRights owner (serviceDirACL (serviceSID name)) False (serviceTokenSIDs (serviceSID name))
      = rightReadExecute OR rightWriteData OR rightAppendData
    \<and> grantedRights owner (serviceDirACL (serviceSID name)) False (serviceTokenSIDs (serviceSID name)) AND parentFolderWrite = 0
    \<and> grantedRights owner (serviceDirACL (serviceSID name)) False sids = 0"
proof -
  have n: "sidSystem \<notin> set (serviceTokenSIDs (serviceSID name))" "sidAdministrators \<notin> set (serviceTokenSIDs (serviceSID name))"
    "serviceSID name \<in> set (serviceTokenSIDs (serviceSID name))"
    using serviceSID_known [of name] by (auto simp: serviceTokenSIDs_def sidSystem_def sidAdministrators_def)
  have g: "grantedRights owner (serviceDirACL (serviceSID name)) False (serviceTokenSIDs (serviceSID name))
      = rightReadExecute OR rightWriteData OR rightAppendData"
    using assms(1) n by (simp add: grantedRights_def serviceDirACL_def Let_def grant_step_def or.assoc)
  have z: "grantedRights owner (serviceDirACL (serviceSID name)) False sids = 0"
    using assms(2,3) by (auto simp: grantedRights_def serviceDirACL_def Let_def grant_step_def)
  show ?thesis using g z by (simp add: right_defs)
qed

theorem config_folder_rights_witness:
  "grantedRights sidAdministrators (serviceDirACL (serviceSID ''s-hole'')) False (serviceTokenSIDs (serviceSID ''s-hole'')) AND parentFolderWrite = 0
   \<and> grantedRights sidAdministrators (serviceDirACL (serviceSID ''s-hole'')) False [''S-1-5-32-545''] = 0"
proof -
  have "sidAdministrators \<notin> set (serviceTokenSIDs (serviceSID ''s-hole''))"
    using serviceSID_known [of "''s-hole''"] by (auto simp: serviceTokenSIDs_def sidAdministrators_def)
  moreover have "serviceSID ''s-hole'' \<noteq> ''S-1-5-32-545''" "sidSystem \<noteq> ''S-1-5-32-545''" "sidAdministrators \<noteq> ''S-1-5-32-545''"
    using serviceSID_prefix [of "''s-hole''"] by (auto simp: sidSystem_def sidAdministrators_def)
  ultimately show ?thesis using config_folder_rights [of sidAdministrators "''s-hole''" "[''S-1-5-32-545'']"] by auto
qed

end
