(* ===== verification/Win_Service.thy ===== *)
theory Win_Service
  imports Win_Acl
begin

text \<open>
  The Windows service, \<open>src/internal/service/svc_windows.go\<close>: reading access lists, the checks and the steps of \<open>-service install\<close>, the
  other subcommands, and the loop that answers the service control manager. The outcome of every
  system call is part of the environment; an operation returns the changes that it made and its error.
\<close>

section \<open>Model\<close>

definition svcName :: string where "svcName = ''s-hole''"
definition svcAccount :: string where "svcAccount = ''NT SERVICE'' @ [bslash] @ svcName"
definition exitServeFailed :: nat where "exitServeFailed = 1"

subsection \<open>Reading an access list\<close>

record raw_ace =
  ra_type :: "8 word"
  ra_flags :: "8 word"
  ra_mask :: rights
  ra_sid :: string

datatype raw_dacl = Dacl_not_found | Dacl_error string | Dacl_null | Dacl "(string + raw_ace) list"   \<comment> \<open>\<open>GetAce\<close> can fail\<close>

record security =
  sd_error :: "string option"            \<comment> \<open>\<open>GetNamedSecurityInfo\<close>\<close>
  sd_owner :: "string + string option"
  sd_dacl :: raw_dacl

definition accessAllowedACEType :: "8 word" where "accessAllowedACEType = 0x0"
definition accessDeniedACEType :: "8 word" where "accessDeniedACEType = 0x1"
definition accessAllowedCallbackACEType :: "8 word" where "accessAllowedCallbackACEType = 0x9"

fun read_aces :: "(string + raw_ace) list \<Rightarrow> string + ace list" where
  "read_aces [] = Inr []"
| "read_aces (Inl e # as) = Inl e"
| "read_aces (Inr a # as) =
     (if ra_type a \<in> {accessAllowedACEType, accessAllowedCallbackACEType, accessDeniedACEType}
      then map_sum id (Cons \<lparr>ace_deny = (ra_type a = accessDeniedACEType), ace_flags = ra_flags a, ace_mask = ra_mask a, ace_sid = ra_sid a\<rparr>) (read_aces as)
      else read_aces as)"

definition readACL :: "security \<Rightarrow> string + string \<times> ace list \<times> bool" where
  "readACL sd = (case sd_error sd of
     Some e \<Rightarrow> Inl e
   | None \<Rightarrow> (case sd_owner sd of
       Inl e \<Rightarrow> Inl e
     | Inr o' \<Rightarrow>
         let owner = (case o' of Some s \<Rightarrow> s | None \<Rightarrow> []) in
         (case sd_dacl sd of
            Dacl_not_found \<Rightarrow> Inr (owner, [], True)
          | Dacl_null \<Rightarrow> Inr (owner, [], True)
          | Dacl_error e \<Rightarrow> Inl e
          | Dacl as \<Rightarrow> map_sum id (\<lambda>acl. (owner, acl, False)) (read_aces as))))"

subsection \<open>The checks of an install\<close>

datatype install_error =
    Exe_error string | Config_stat string | Config_not_regular | Unsafe_dir string | Exe_in_config_dir
  | Acl_unreadable string string | Binary_writable "(string \<times> string) list" | Connect_error string | Already_exists
  | Restrict_error string | Account_error string | Walk_error string | Foreign_items "string list" | Create_error string

text \<open>The first list that cannot be read ends the check; otherwise every path with a forbidden right is named.\<close>

fun binary_loop :: "(string \<Rightarrow> security) \<Rightarrow> string list \<Rightarrow> pathCheck list \<Rightarrow> (string \<times> string) list \<Rightarrow> install_error + (string \<times> string) list" where
  "binary_loop sd sids [] found = Inr found"
| "binary_loop sd sids ((p, r) # cs) found = (case readACL (sd p) of
     Inl e \<Rightarrow> Inl (Acl_unreadable p e)
   | Inr (owner, acl, nullDACL) \<Rightarrow>
       let got = grantedRights owner acl nullDACL sids AND r in
       binary_loop sd sids cs (if got \<noteq> 0 then found @ [(p, rightNames got)] else found))"

definition checkBinary :: "(string \<Rightarrow> security) \<Rightarrow> string \<Rightarrow> string list \<Rightarrow> install_error option" where
  "checkBinary sd exe sids = (case binary_loop sd sids (binaryPaths exe) [] of
     Inl e \<Rightarrow> Some e
   | Inr found \<Rightarrow> if found \<noteq> [] then Some (Binary_writable found) else None)"

datatype walk_item = Walk_fails string | Walk_file string | Walk_dir string | Walk_other string

text \<open>The callback of \<open>WalkDir\<close> on its items in order: the links, and the owners of files and folders.\<close>

fun owners_loop :: "(string \<Rightarrow> security) \<Rightarrow> walk_item list \<Rightarrow> string list \<Rightarrow> (string \<times> string) list \<Rightarrow> string + string list \<times> (string \<times> string) list" where
  "owners_loop sd [] links owners = Inr (links, owners)"
| "owners_loop sd (Walk_fails e # ws) links owners = Inl e"
| "owners_loop sd (Walk_other p # ws) links owners = owners_loop sd ws (links @ [p]) owners"
| "owners_loop sd (Walk_file p # ws) links owners = (case readACL (sd p) of
     Inl e \<Rightarrow> Inl e | Inr (ow, _) \<Rightarrow> owners_loop sd ws links (owners @ [(p, ow)]))"
| "owners_loop sd (Walk_dir p # ws) links owners = (case readACL (sd p) of
     Inl e \<Rightarrow> Inl e | Inr (ow, _) \<Rightarrow> owners_loop sd ws links (owners @ [(p, ow)]))"

definition checkOwners :: "string + string \<Rightarrow> (string \<Rightarrow> security) \<Rightarrow> walk_item list \<Rightarrow> string \<Rightarrow> install_error option" where
  "checkOwners user sd items svcSID = (case user of
     Inl e \<Rightarrow> Some (Account_error e)
   | Inr u \<Rightarrow> (case owners_loop sd items [] [] of
       Inl e \<Rightarrow> Some (Walk_error e)
     | Inr (links, owners) \<Rightarrow>
         let found = links @ foreignItems owners [sidSystem, sidAdministrators, svcSID, u] in
         if found \<noteq> [] then Some (Foreign_items found) else None))"

subsection \<open>The subcommands\<close>

datatype svc_change =
    Set_acl string string                            \<comment> \<open>folder and security descriptor\<close>
  | Create_service string string string "string list"   \<comment> \<open>name, binary, account, arguments\<close>
  | Set_recovery | Register_source | Delete_service | Remove_source | Start_service | Stop_service

record install_env =
  in_exe :: "string + string"            \<comment> \<open>\<open>os.Executable\<close> and \<open>filepath.Abs\<close>\<close>
  in_stat :: "string + bool"             \<comment> \<open>of the config path: is it a regular file\<close>
  in_Dir :: "string \<Rightarrow> string"           \<comment> \<open>\<open>filepath.Dir\<close>\<close>
  in_Getenv :: "string \<Rightarrow> string"
  in_before :: "string \<Rightarrow> security"
  in_connect :: "string option"
  in_exists :: bool
  in_restrict :: "string option"
  in_user :: "string + string"
  in_items :: "walk_item list"
  in_after :: "string \<Rightarrow> security"
  in_create :: "string option"
  in_recovery :: "string option"
  in_source :: "string option"

definition restrictDir :: "install_env \<Rightarrow> string \<Rightarrow> string \<Rightarrow> svc_change list \<times> string option" where
  "restrictDir E dir sid = (case in_restrict E of
     Some e \<Rightarrow> ([], Some e)
   | None \<Rightarrow> ([Set_acl dir (sddl (serviceDirACL sid))], None))"

definition setRecovery :: "string option \<Rightarrow> svc_change list" where
  "setRecovery err = (if err = None then [Set_recovery] else [])"

text \<open>The refusals before the first change.\<close>

definition install_refuses :: "unicode \<Rightarrow> install_env \<Rightarrow> string \<Rightarrow> string \<Rightarrow> install_error option" where
  "install_refuses U E exe configPath =
     (let configDir = in_Dir E configPath; why = unsafeConfigDir U configDir (in_Getenv E) in
      case in_stat E of
        Inl e \<Rightarrow> Some (Config_stat e)
      | Inr regular \<Rightarrow>
          if \<not> regular then Some Config_not_regular
          else if why \<noteq> [] then Some (Unsafe_dir why)
          else if EqualFold U (in_Dir E exe) configDir then Some Exe_in_config_dir
          else (case checkBinary (in_before E) exe (serviceTokenSIDs (serviceSID svcName)) of
              Some e \<Rightarrow> Some e
            | None \<Rightarrow> (case in_connect E of
                Some e \<Rightarrow> Some (Connect_error e)
              | None \<Rightarrow> if in_exists E then Some Already_exists else None)))"

definition Install :: "unicode \<Rightarrow> install_env \<Rightarrow> string \<Rightarrow> svc_change list \<times> install_error option" where
  "Install U E configPath = (case in_exe E of
     Inl e \<Rightarrow> ([], Some (Exe_error e))
   | Inr exe \<Rightarrow> (case install_refuses U E exe configPath of
       Some e \<Rightarrow> ([], Some e)
     | None \<Rightarrow>
         let sid = serviceSID svcName in
         (case restrictDir E (in_Dir E configPath) sid of
            (acts, Some e) \<Rightarrow> (acts, Some (Restrict_error e))
          | (acts, None) \<Rightarrow> (case checkOwners (in_user E) (in_after E) (in_items E) sid of
              Some e \<Rightarrow> (acts, Some e)
            | None \<Rightarrow> (case in_create E of
                Some e \<Rightarrow> (acts, Some (Create_error e))
              | None \<Rightarrow> (acts @ [Create_service svcName exe svcAccount [''-config'', configPath]] @ setRecovery (in_recovery E)
                   @ (if in_source E = None then [Register_source] else []), None))))))"

text \<open>\<open>Uninstall\<close>, \<open>Start\<close> and \<open>Stop\<close>: connect, open, act.\<close>

datatype scm_error = Scm_connect string | Scm_not_found string | Scm_failed string

definition scm_call :: "string option \<Rightarrow> string option \<Rightarrow> string option \<Rightarrow> svc_change list \<Rightarrow> svc_change list \<times> scm_error option" where
  "scm_call connect opened done changes = (case connect of
     Some e \<Rightarrow> ([], Some (Scm_connect e))
   | None \<Rightarrow> (case opened of
       Some e \<Rightarrow> ([], Some (Scm_not_found e))
     | None \<Rightarrow> (case done of
         Some e \<Rightarrow> ([], Some (Scm_failed e))
       | None \<Rightarrow> (changes, None))))"

definition Uninstall :: "string option \<Rightarrow> string option \<Rightarrow> string option \<Rightarrow> string option \<Rightarrow> svc_change list \<times> scm_error option" where
  "Uninstall connect opened done source = scm_call connect opened done (Delete_service # (if source = None then [Remove_source] else []))"

definition svc_Start :: "string option \<Rightarrow> string option \<Rightarrow> string option \<Rightarrow> svc_change list \<times> scm_error option" where
  "svc_Start connect opened done = scm_call connect opened done [Start_service]"

definition svc_Stop :: "string option \<Rightarrow> string option \<Rightarrow> string option \<Rightarrow> svc_change list \<times> scm_error option" where
  "svc_Stop connect opened done = scm_call connect opened done [Stop_service]"

subsection \<open>The control loop\<close>

datatype svc_state = StartPending | Running | StopPending | Stopped

datatype scm_event = Interrogate svc_state | Cmd_stop | Cmd_shutdown | Cmd_other | Served "string option"

text \<open>What \<open>select\<close> receives, in order. The result: the states reported, the calls of \<open>stop\<close>, and what \<open>Execute\<close> returns when it does.\<close>

fun execute_loop :: "scm_event list \<Rightarrow> svc_state list \<times> nat \<times> (bool \<times> nat) option" where
  "execute_loop [] = ([], 0, None)"
| "execute_loop (Interrogate s # es) = (case execute_loop es of (ss, n, r) \<Rightarrow> (s # ss, n, r))"
| "execute_loop (Cmd_other # es) = execute_loop es"
| "execute_loop (Cmd_stop # es) = ([StopPending, Stopped], 1, Some (False, 0))"
| "execute_loop (Cmd_shutdown # es) = ([StopPending, Stopped], 1, Some (False, 0))"
| "execute_loop (Served None # es) = ([StopPending], 1, Some (False, 0))"
| "execute_loop (Served (Some e) # es) = ([StopPending], 1, Some (True, exitServeFailed))"

definition Execute :: "scm_event list \<Rightarrow> svc_state list \<times> nat \<times> (bool \<times> nat) option" where
  "Execute es = (case execute_loop es of (ss, n, r) \<Rightarrow> ([StartPending, Running] @ ss, n, r))"

section \<open>Lemmas\<close>

lemma binary_loop_ok:
  "binary_loop sd sids cs found = Inr [] \<Longrightarrow> found = [] \<and> list_all (\<lambda>(p, r). \<exists>owner acl nullDACL.
     readACL (sd p) = Inr (owner, acl, nullDACL) \<and> grantedRights owner acl nullDACL sids AND r = 0) cs"
proof (induction cs arbitrary: found)
  case (Cons c cs)
  obtain p r where c: "c = (p, r)" by force
  obtain owner acl nullDACL where a: "readACL (sd p) = Inr (owner, acl, nullDACL)"
    using Cons.prems c by (auto split: sum.splits)
  let ?got = "grantedRights owner acl nullDACL sids AND r"
  have "binary_loop sd sids cs (if ?got \<noteq> 0 then found @ [(p, rightNames ?got)] else found) = Inr []"
    using Cons.prems c a by (simp add: Let_def)
  from Cons.IH [OF this] show ?case using c a by (auto split: if_splits)
qed simp

lemma checkBinary_ok:
  "checkBinary sd exe sids = None \<Longrightarrow> list_all (\<lambda>(p, r). \<exists>owner acl nullDACL.
     readACL (sd p) = Inr (owner, acl, nullDACL) \<and> grantedRights owner acl nullDACL sids AND r = 0) (binaryPaths exe)"
  by (auto simp: checkBinary_def split: sum.splits if_splits dest: binary_loop_ok)

fun item_ok :: "(string \<Rightarrow> security) \<Rightarrow> string set \<Rightarrow> walk_item \<Rightarrow> bool" where
  "item_ok sd S (Walk_file p) \<longleftrightarrow> (\<exists>ow x. readACL (sd p) = Inr (ow, x) \<and> ow \<in> S)"
| "item_ok sd S (Walk_dir p) \<longleftrightarrow> (\<exists>ow x. readACL (sd p) = Inr (ow, x) \<and> ow \<in> S)"
| "item_ok sd S (Walk_fails _) \<longleftrightarrow> False"
| "item_ok sd S (Walk_other _) \<longleftrightarrow> False"

lemma owners_loop_ok:
  "owners_loop sd ws links owners = Inr ([], ows) \<Longrightarrow> list_all (\<lambda>(p, ow). ow \<in> S) ows \<Longrightarrow> list_all (item_ok sd S) ws \<and> list_all (\<lambda>(p, ow). ow \<in> S) owners \<and> links = []"
proof (induction sd ws links owners rule: owners_loop.induct)
  case (4 sd p ws links owners)
  then show ?case by (auto split: sum.splits prod.splits)
next
  case (5 sd p ws links owners)
  then show ?case by (auto split: sum.splits prod.splits)
qed auto

lemma foreignItems_Nil: "foreignItems owners allowed = [] \<longleftrightarrow> list_all (\<lambda>(p, ow). ow \<in> set allowed) owners"
proof -
  have "foreignItems owners allowed = [] \<longleftrightarrow> filter (\<lambda>(p, ow). ow \<notin> set allowed) owners = []"
    unfolding foreignItems_def length_0_conv [symmetric] by simp
  then show ?thesis by (auto simp: filter_empty_conv list_all_iff)
qed

lemma checkOwners_ok:
  assumes "checkOwners user sd ws sid = None"
  shows "\<exists>u. user = Inr u \<and> list_all (item_ok sd {sidSystem, sidAdministrators, sid, u}) ws"
proof -
  obtain u where u: "user = Inr u" using assms by (cases user) (simp_all add: checkOwners_def)
  obtain links ows where l: "owners_loop sd ws [] [] = Inr (links, ows)"
    using assms u by (cases "owners_loop sd ws [] []") (auto simp: checkOwners_def)
  have "links @ foreignItems ows [sidSystem, sidAdministrators, sid, u] = []"
    using assms u l by (simp add: checkOwners_def Let_def split: if_splits)
  then have n: "links = []" "list_all (\<lambda>(p, ow). ow \<in> {sidSystem, sidAdministrators, sid, u}) ows"
    using foreignItems_Nil [of ows "[sidSystem, sidAdministrators, sid, u]"] by simp_all
  show ?thesis using owners_loop_ok [OF l [unfolded n(1)] n(2)] u by blast
qed

text \<open>The answer of \<open>Execute\<close> is decided by the first event that ends the service.\<close>

fun ends_service :: "scm_event \<Rightarrow> bool" where
  "ends_service (Interrogate _) = False"
| "ends_service Cmd_other = False"
| "ends_service _ = True"

lemma execute_first_end:
  "Execute es = (ss, n, r) \<Longrightarrow> r = map_option (\<lambda>e. if \<exists>err. e = Served (Some err) then (True, exitServeFailed) else (False, 0)) (find ends_service es)
     \<and> n = (if r = None then 0 else 1) \<and> take 2 ss = [StartPending, Running]"
proof -
  have "snd (execute_loop es) = (let r = map_option (\<lambda>e. if \<exists>err. e = Served (Some err) then (True, exitServeFailed) else (False, 0)) (find ends_service es)
      in (if r = None then 0 else 1, r))"
    by (induction es rule: execute_loop.induct) (auto split: prod.splits)
  then show "Execute es = (ss, n, r) \<Longrightarrow> ?thesis" by (auto simp: Execute_def Let_def split: prod.splits)
qed

section \<open>Property\<close>

text \<open>C20: The service is installed only where it cannot replace its own binary and where no other account reaches its data. If an install succeeds, the
  config folder is none of the shared folders and does not hold the binary; no identity of the service's token has a
  forbidden right on the binary, its folder or a folder above; the config folder got the service's access list before
  the service was created, and everything in it is a file or folder of SYSTEM, the administrators, the service or the installing account. If
  an install fails, no service was created, and at most the access list changed.\<close>

theorem install_guarded:
  assumes "Install U E configPath = (acts, err)"
  shows "(err \<noteq> None \<longrightarrow> set acts \<subseteq> {Set_acl (in_Dir E configPath) (sddl (serviceDirACL (serviceSID svcName)))})
    \<and> (err = None \<longrightarrow> (\<exists>exe u. in_exe E = Inr exe \<and> in_user E = Inr u
         \<and> unsafeConfigDir U (in_Dir E configPath) (in_Getenv E) = [] \<and> \<not> EqualFold U (in_Dir E exe) (in_Dir E configPath)
         \<and> list_all (\<lambda>(p, r). \<exists>owner acl nullDACL. readACL (in_before E p) = Inr (owner, acl, nullDACL)
              \<and> grantedRights owner acl nullDACL (serviceTokenSIDs (serviceSID svcName)) AND r = 0) (binaryPaths exe)
         \<and> list_all (item_ok (in_after E) {sidSystem, sidAdministrators, serviceSID svcName, u}) (in_items E)
         \<and> take 2 acts = [Set_acl (in_Dir E configPath) (sddl (serviceDirACL (serviceSID svcName))),
                           Create_service svcName exe svcAccount [''-config'', configPath]]))"
proof -
  consider e where "in_exe E = Inl e" | exe e where "in_exe E = Inr exe" "install_refuses U E exe configPath = Some e"
    | exe where "in_exe E = Inr exe" "install_refuses U E exe configPath = None"
    by (metis not_None_eq sum.exhaust)
  then show ?thesis
  proof cases
    case (1 e)
    then have "acts = []" "err = Some (Exe_error e)" using assms by (simp_all add: Install_def)
    then show ?thesis by simp
  next
    case (2 exe e)
    then have "acts = []" "err = Some e" using assms by (simp_all add: Install_def)
    then show ?thesis by simp
  next
    case (3 exe)
    have r: "unsafeConfigDir U (in_Dir E configPath) (in_Getenv E) = []" "\<not> EqualFold U (in_Dir E exe) (in_Dir E configPath)"
      "checkBinary (in_before E) exe (serviceTokenSIDs (serviceSID svcName)) = None"
      using 3(2) by (auto simp: install_refuses_def Let_def split: sum.splits if_splits option.splits)
    note rest = 3 assms checkBinary_ok [OF r(3)] r(1,2)
    show ?thesis
    proof (cases "in_restrict E = None \<and> checkOwners (in_user E) (in_after E) (in_items E) (serviceSID svcName) = None \<and> in_create E = None")
      case True
      then obtain u where "in_user E = Inr u" "list_all (item_ok (in_after E) {sidSystem, sidAdministrators, serviceSID svcName, u}) (in_items E)"
        using checkOwners_ok by blast
      moreover have "err = None" "take 2 acts = [Set_acl (in_Dir E configPath) (sddl (serviceDirACL (serviceSID svcName))),
          Create_service svcName exe svcAccount [''-config'', configPath]]"
        using True 3 assms by (auto simp: Install_def restrictDir_def Let_def)
      ultimately show ?thesis using rest by simp
    next
      case False
      then have "snd (Install U E configPath) \<noteq> None
          \<and> set (fst (Install U E configPath)) \<subseteq> {Set_acl (in_Dir E configPath) (sddl (serviceDirACL (serviceSID svcName)))}"
        using 3
        by (cases "in_restrict E"; cases "checkOwners (in_user E) (in_after E) (in_items E) (serviceSID svcName)"; cases "in_create E")
           (simp_all add: Install_def restrictDir_def)
      then show ?thesis using assms by auto
    qed
  qed
qed

definition demo_exe :: string where "demo_exe = win_path ''C:'' [''bin'', ''s-hole.exe'']"
definition demo_yaml :: string where "demo_yaml = win_path ''C:'' [''data'', ''config.yaml'']"
definition demo_folder :: string where "demo_folder = win_path ''C:'' [''data'']"

definition demo_admin :: security where
  "demo_admin = \<lparr>sd_error = None, sd_owner = Inr (Some sidAdministrators), sd_dacl = Dacl []\<rparr>"

definition demo_install :: install_env where
  "demo_install = \<lparr>in_exe = Inr demo_exe, in_stat = Inr True,
     in_Dir = (\<lambda>p. if p = demo_exe then win_path ''C:'' [''bin''] else demo_folder),
     in_Getenv = (\<lambda>v. []), in_before = (\<lambda>p. demo_admin), in_connect = None, in_exists = False, in_restrict = None, in_user = Inr ''S-1-5-21-1'',
     in_items = [Walk_dir demo_folder], in_after = (\<lambda>p. demo_admin), in_create = None, in_recovery = None, in_source = None\<rparr>"

lemma demo_paths:
  "demo_yaml \<noteq> demo_exe" "unsafeConfigDir ascii_only demo_folder (\<lambda>v. []) = []" "\<not> EqualFold ascii_only (win_path ''C:'' [''bin'']) demo_folder"
  by code_simp+

lemma demo_acl: "readACL demo_admin = Inr (sidAdministrators, [], False)"
  by (simp add: readACL_def demo_admin_def)

lemma demo_binary: "checkBinary (\<lambda>p. demo_admin) exe (serviceTokenSIDs (serviceSID svcName)) = None"
proof -
  have "sidAdministrators \<notin> set (serviceTokenSIDs (serviceSID svcName))"
    using serviceSID_known [of svcName] by (auto simp: serviceTokenSIDs_def sidAdministrators_def)
  then have g: "grantedRights sidAdministrators [] False (serviceTokenSIDs (serviceSID svcName)) = 0" by (simp add: grantedRights_def)
  have "binary_loop (\<lambda>p. demo_admin) (serviceTokenSIDs (serviceSID svcName)) cs [] = Inr []" for cs
    by (induction cs) (auto simp: demo_acl g)
  then show ?thesis by (simp add: checkBinary_def)
qed

lemma demo_install_runs: "snd (Install ascii_only demo_install demo_yaml) = None"
proof -
  have "checkOwners (Inr ''S-1-5-21-1'') (\<lambda>p. demo_admin) [Walk_dir demo_folder] (serviceSID svcName) = None"
    by (simp add: checkOwners_def demo_acl foreignItems_def)
  then show ?thesis using demo_paths demo_binary [of demo_exe] by (simp add: Install_def install_refuses_def restrictDir_def demo_install_def Let_def)
qed

theorem install_guarded_witness:
  "\<exists>acts. Install ascii_only demo_install demo_yaml = (acts, None)
     \<and> take 2 acts = [Set_acl demo_folder (sddl (serviceDirACL (serviceSID svcName))), Create_service svcName demo_exe svcAccount [''-config'', demo_yaml]]"
proof -
  obtain acts where i: "Install ascii_only demo_install demo_yaml = (acts, None)" using demo_install_runs by (metis prod.collapse)
  have "in_exe demo_install = Inr demo_exe" "in_Dir demo_install demo_yaml = demo_folder" using demo_paths(1) by (simp_all add: demo_install_def)
  then show ?thesis using install_guarded [OF i] i by auto
qed

end
