(* ===== verification/Command_Line.thy ===== *)
theory Command_Line
  imports Startup Dot_Server Purge_All Win_Service Config_Privacy
begin

text \<open>
  The command \<open>s-hole\<close>, \<open>src/cmd/s-hole/main.go\<close>: which of its modes the flags choose, the dry run of the configuration, the start with
  what ends it and what it goes on without, the body of a reload, and the banner with the addresses for the
  router. What the operating system answers is the record \<open>main_env\<close>; the log is left out, except for the lines of the dry run.
\<close>

section \<open>The modes\<close>

text \<open>\<open>chdirToConfigDir\<close> with \<open>filepath.Abs\<close> and \<open>filepath.Dir\<close>.\<close>

definition chdirToConfigDir :: "(string \<Rightarrow> string + string) \<Rightarrow> (string \<Rightarrow> string) \<Rightarrow> (string \<Rightarrow> string option) \<Rightarrow> string \<Rightarrow> string + string" where
  "chdirToConfigDir Abs Dir chdir cfgPath = (case Abs cfgPath of
     Inl e \<Rightarrow> Inl e
   | Inr full \<Rightarrow> (case chdir (Dir full) of Some e \<Rightarrow> Inl e | None \<Rightarrow> Inr full))"

datatype check_line = Problem_line Problem | Load_failed string | Cert_warning string | Setting_warning Warning | Has_problems nat | Config_OK string

definition warnCertExpiry :: "time \<Rightarrow> CertReloader \<Rightarrow> check_line list" where
  "warnCertExpiry now r = (case ExpiryWarning r now of
     Some (m, hint) \<Rightarrow> if m \<noteq> [] then [Cert_warning m] else []
   | None \<Rightarrow> [])"

text \<open>\<open>runCheckConfig\<close>: its lines and the exit code. The key pair is what the certificate files hold when it reads them again.\<close>

definition runCheckConfig :: "conflib \<Rightarrow> Problem list \<times> (string + Config) \<Rightarrow> key_pair \<Rightarrow> time \<Rightarrow> check_line list \<times> int" where
  "runCheckConfig L loaded pair now = (case loaded of (problems, res) \<Rightarrow>
     (case res of
        Inl err \<Rightarrow> (map Problem_line problems @ [Load_failed err], 1)
      | Inr cfg \<Rightarrow>
          let d = c_DNS cfg;
              cert = (if DNS_DoTListen d \<noteq> [] then (case NewCertReloader (DNS_DoTCert d) (DNS_DoTKey d) pair now of
                        Inr r \<Rightarrow> warnCertExpiry now r | Inl _ \<Rightarrow> []) else []);
              head = map Problem_line problems @ cert @ map Setting_warning (Warnings L cfg)
          in if problems \<noteq> [] then (head @ [Has_problems (length problems)], 1)
             else (head @ [Config_OK (Adm_Listen (c_Admin cfg))], 0)))"

subsection \<open>One reload\<close>

text \<open>\<open>reloadWork\<close>: the certificate first, when DoT is on, then the lists, whatever became of the certificate.\<close>

definition reloadWork :: "key_pair \<Rightarrow> time \<Rightarrow> ('s \<Rightarrow> 's) \<Rightarrow> CertReloader option \<times> 's \<Rightarrow> CertReloader option \<times> 's" where
  "reloadWork pair now reload st = (case st of (certs, s) \<Rightarrow> (map_option (\<lambda>r. fst (cert_Reload pair now r)) certs, reload s))"

definition refresh_lists :: "unicode \<Rightarrow> pathlib \<Rightarrow> Config \<Rightarrow> disk \<Rightarrow> fetch_env list \<Rightarrow> Store \<Rightarrow> Store" where
  "refresh_lists U P cfg fs fetched s =
     fst (Update U P s fs (zip fetched (Blk_Lists (c_Blocking cfg))) (Blk_CacheDir (c_Blocking cfg)) DownloadFirst)"

subsection \<open>The start\<close>

record main_env =
  me_goos_windows :: bool
  me_scm :: bool                         \<comment> \<open>\<open>service.IsWindowsService\<close>\<close>
  me_Abs :: "string \<Rightarrow> string + string"
  me_Dir :: "string \<Rightarrow> string"
  me_chdir :: "string \<Rightarrow> string option"
  me_load :: "string \<Rightarrow> Problem list \<times> (string + Config)"   \<comment> \<open>\<open>config.Load\<close> of a path\<close>
  me_service :: "string \<Rightarrow> string \<Rightarrow> string option"   \<comment> \<open>the error of a service action on a config path\<close>
  me_ready :: "string \<Rightarrow> int option"
  me_post :: "string \<Rightarrow> api_reply"
  me_offline :: offline_env
  me_files :: files
  me_names :: "string list"
  me_now :: time
  me_udpErr :: "string option"
  me_tcpErr :: "string option"
  me_pair :: key_pair
  me_dotErr :: "string option"
  me_adminErr :: "string option"
  me_start :: start_env

record booted =
  bo_run :: running
  bo_dns :: DnsServer
  bo_certs :: "CertReloader option"
  bo_apiUp :: bool

datatype main_result = Exit int | Serving booted

text \<open>The DoT listener: off, on with its certificate, or an error.\<close>

definition open_dot :: "main_env \<Rightarrow> DNS \<Rightarrow> string + CertReloader option" where
  "open_dot M d =
     (if DNS_DoTListen d = [] then Inr None
      else (case NewCertReloader (DNS_DoTCert d) (DNS_DoTKey d) (me_pair M) (me_now M) of
          Inl e \<Rightarrow> Inl e
        | Inr r \<Rightarrow> (case ListenDoT (DNS_DoTListen d) (me_dotErr M) of Inl e \<Rightarrow> Inl e | Inr _ \<Rightarrow> Inr (Some r))))"

definition boot :: "golibs \<Rightarrow> main_env \<Rightarrow> string \<Rightarrow> main_result" where
  "boot G M path = (case snd (me_load M path) of
     Inl err \<Rightarrow> Exit 1
   | Inr cfg \<Rightarrow> (case fst (dns_Listen (me_udpErr M) (me_tcpErr M)) of
       Inl err \<Rightarrow> Exit 1
     | Inr lst \<Rightarrow> (case open_dot M (c_DNS cfg) of
         Inl err \<Rightarrow> Exit 1
       | Inr certs \<Rightarrow>
           Serving \<lparr>bo_run = startup G (me_start M) cfg, bo_dns = (if certs = None then NewServer else EnableDoT NewServer),
             bo_certs = certs, bo_apiUp = (me_adminErr M = None)\<rparr>)))"

record main_flags =
  mf_config :: string
  mf_service :: string
  mf_version :: bool
  mf_check :: bool
  mf_purge :: bool
  mf_health :: bool

definition service_action :: "main_env \<Rightarrow> string \<Rightarrow> string \<Rightarrow> int" where
  "service_action M action cfgPath =
     (if action = ''install'' then (case me_Abs M cfgPath of
          Inl e \<Rightarrow> 1 | Inr full \<Rightarrow> if me_service M action full = None then 0 else 1)
      else if action = ''uninstall'' \<or> action = ''start'' \<or> action = ''stop'' then (if me_service M action cfgPath = None then 0 else 1)
      else 1)"

definition run_main :: "conflib \<Rightarrow> golibs \<Rightarrow> main_env \<Rightarrow> main_flags \<Rightarrow> main_result" where
  "run_main L G M f =
     (let cfg = mf_config f; in_dir = chdirToConfigDir (me_Abs M) (me_Dir M) (me_chdir M) cfg in
      if mf_version f then Exit 0
      else if mf_health f then Exit (runHealthcheck (lib_T G) (me_load M cfg) (me_ready M))
      else if mf_service f \<noteq> [] then Exit (service_action M (mf_service f) cfg)
      else if mf_check f then Exit (snd (runCheckConfig L (me_load M cfg) (me_pair M) (me_now M)))
      else if mf_purge f then
        (case (if me_goos_windows M then in_dir else Inr cfg) of
           Inl e \<Rightarrow> Exit 1
         | Inr path \<Rightarrow> Exit (fst (runPurge (lib_T G) (me_load M path) (me_post M) (me_offline M) (me_files M) (me_names M))))
      else if me_scm M then (case in_dir of Inl e \<Rightarrow> Exit 1 | Inr full \<Rightarrow> boot G M full)
      else boot G M cfg)"

section \<open>The banner\<close>

record ifaceAddrs =
  if_name :: string
  if_up :: bool
  if_loopback :: bool
  if_addrs :: "net_addr list"

text \<open>\<open>systemInterfaces\<close> on what the system lists: an interface whose addresses cannot be read is left out.\<close>

definition systemInterfaces :: "string + (string \<times> bool \<times> bool \<times> (string + net_addr list)) list \<Rightarrow> ifaceAddrs list" where
  "systemInterfaces listed = (case listed of
     Inl _ \<Rightarrow> []
   | Inr ifs \<Rightarrow> List.map_filter (\<lambda>(n, up, lo, addrs). case addrs of
       Inl _ \<Rightarrow> None | Inr as \<Rightarrow> Some \<lparr>if_name = n, if_up = up, if_loopback = lo, if_addrs = as\<rparr>) ifs)"

definition virtualIfacePrefixes :: "string list" where
  "virtualIfacePrefixes = [''docker'', ''br-'', ''veth'', ''virbr'', ''vboxnet'', ''vmnet'', ''lxcbr'', ''lxdbr'', ''incusbr'', ''podman'', ''cni'',
     ''flannel'', ''cali'', ''vxlan'', ''tailscale'', ''wg'', ''zt'', ''tun'', ''tap'']"

definition isVirtualIface :: "unicode \<Rightarrow> string \<Rightarrow> bool" where
  "isVirtualIface U name = list_ex (HasPrefix (ToLower U name)) virtualIfacePrefixes"

text \<open>\<open>To4\<close> of an interface address, if it is one of IPv4.\<close>

definition lan_ip4 :: "net_addr \<Rightarrow> addr option" where
  "lan_ip4 a = (case a of
     OtherNetAddr \<Rightarrow> None
   | IPNet bs _ \<Rightarrow> (case map_option Unmap (AddrFromSlice bs) of
       Some (Addr4 w) \<Rightarrow> if IsLoopback (Addr4 w) \<or> IsLinkLocalUnicast (Addr4 w) then None else Some (Addr4 w)
     | _ \<Rightarrow> None))"

definition lanIPv4s :: "unicode \<Rightarrow> iptext \<Rightarrow> ifaceAddrs list \<Rightarrow> string list" where
  "lanIPv4s U T ifaces = concat (map (\<lambda>i.
     if \<not> if_up i \<or> if_loopback i \<or> isVirtualIface U (if_name i) then []
     else map (AddrString T) (List.map_filter lan_ip4 (if_addrs i))) ifaces)"

definition isLoopbackHost :: "iptext \<Rightarrow> string \<Rightarrow> bool" where
  "isLoopbackHost T host \<longleftrightarrow> host = ''localhost'' \<or> (case ParseIP T host of Some ip \<Rightarrow> IsLoopback ip | None \<Rightarrow> False)"

definition useASCIIBanner :: "(string \<Rightarrow> string) \<Rightarrow> bool" where
  "useASCIIBanner getenv = (getenv ''S_HOLE_LOG_FORMAT'' = ''json''
     \<or> (let v = getenv ''S_HOLE_ASCII_BANNER'' in v \<noteq> [] \<and> v \<noteq> ''0'' \<and> v \<noteq> ''false''))"

text \<open>The two drawings; the second one is UTF-8.\<close>

record drawing =
  dr_top :: string
  dr_side :: string
  dr_arrow :: string
  dr_bottom :: string

definition box :: "nat \<Rightarrow> string" where "box b = [CHR 0xE2, CHR 0x94, char_of b]"

definition ascii_drawing :: drawing where
  "ascii_drawing = \<lparr>dr_top = ''+-- Router setup ---------------------------------------'', dr_side = ''|   '', dr_arrow = ''->'',
     dr_bottom = ''+------------------------------------------------------''\<rparr>"

definition unicode_drawing :: drawing where
  "unicode_drawing = \<lparr>dr_top = box 0x8C @ box 0x80 @ '' Router setup '' @ concat (replicate 39 (box 0x80)), dr_side = box 0x82 @ ''  '',
     dr_arrow = [CHR 0xE2, CHR 0x86, CHR 0x92], dr_bottom = box 0x94 @ concat (replicate 54 (box 0x80))\<rparr>"

definition dns_hosts :: "iptext \<Rightarrow> string \<Rightarrow> string list \<Rightarrow> string list \<times> string" where
  "dns_hosts T dnsHost lanIPs =
     (if isLoopbackHost T dnsHost then ([dnsHost], '' (this machine only)'')
      else (case ParseIP T dnsHost of
          Some ip \<Rightarrow> if \<not> IsUnspecified ip then ([dnsHost], []) else (lanIPs, [])
        | None \<Rightarrow> (lanIPs, [])))"

definition admin_hosts :: "iptext \<Rightarrow> string \<Rightarrow> string list \<Rightarrow> string list \<times> string" where
  "admin_hosts T apiHost lanIPs = (if isLoopbackHost T apiHost then ([''127.0.0.1''], '' (this machine only)'') else (lanIPs, []))"

definition dns_line :: "drawing \<Rightarrow> string \<Rightarrow> string \<Rightarrow> string \<Rightarrow> string" where
  "dns_line D port note h = ''[main] '' @ dr_side D @ ''DNS server '' @ dr_arrow D @ '' '' @ JoinHostPort h port @ note"

definition admin_line :: "drawing \<Rightarrow> string \<Rightarrow> string \<Rightarrow> string \<Rightarrow> string" where
  "admin_line D port note h = ''[main] '' @ dr_side D @ ''Admin UI   '' @ dr_arrow D @ '' http://'' @ h @ '':'' @ port @ note"

definition printNetworkHint :: "iptext \<Rightarrow> (string \<Rightarrow> string) \<Rightarrow> string list \<Rightarrow> string \<Rightarrow> string \<Rightarrow> string \<Rightarrow> string \<Rightarrow> string \<Rightarrow> bool \<Rightarrow> string list" where
  "printNetworkHint T getenv lanIPs dnsHost dnsPort dotPort apiHost apiPort apiUp =
     (let D = (if useASCIIBanner getenv then ascii_drawing else unicode_drawing);
          (dnsHosts, dnsNote) = dns_hosts T dnsHost lanIPs;
          (adminHosts, adminNote) = admin_hosts T apiHost lanIPs
      in if lanIPs = [] then []
         else [''[main] '' @ dr_top D] @ map (dns_line D dnsPort dnsNote) dnsHosts
           @ (if dotPort \<noteq> [] then [''[main] '' @ dr_side D @ ''DoT        '' @ dr_arrow D @ '' port '' @ dotPort
                @ '' (clients connect by the certificate's hostname)''] else [])
           @ (if apiUp then map (admin_line D apiPort adminNote) adminHosts
              else [''[main] '' @ dr_side D @ ''Admin UI   '' @ dr_arrow D @ '' unavailable (admin.listen bind failed)''])
           @ [''[main] '' @ dr_bottom D])"

section \<open>Lemmas\<close>

text \<open>The dry run passes exactly a file that loads with no problem at all.\<close>

lemma check_config_strict: "snd (runCheckConfig L (problems, res) pair now) = 0 \<longleftrightarrow> problems = [] \<and> (\<exists>cfg. res = Inr cfg)"
  by (cases res) (auto simp: runCheckConfig_def Let_def)

text \<open>A reload whose certificate fails keeps the certificate in use, and refreshes the lists all the same.\<close>

lemma reload_work_independent:
  assumes "reloadWork pair now reload (Some r, s) = (certs, s')"
  shows "s' = reload s \<and> (\<exists>r'. certs = Some r' \<and> GetCertificate r' = (case loaded_leaf pair of Some lf \<Rightarrow> Some lf | None \<Rightarrow> GetCertificate r))"
  using assms by (auto simp: reloadWork_def cert_Reload_def cert_load_def GetCertificate_def Let_def split: key_pair.splits sum.splits)

text \<open>The addresses of the banner.\<close>

lemma lanIPv4s_iff:
  "h \<in> set (lanIPv4s U T ifaces) \<longleftrightarrow> (\<exists>i a w. i \<in> set ifaces \<and> if_up i \<and> \<not> if_loopback i \<and> \<not> isVirtualIface U (if_name i)
     \<and> a \<in> set (if_addrs i) \<and> lan_ip4 a = Some w \<and> h = AddrString T w)"
proof -
  have f: "x \<in> set (List.map_filter lan_ip4 as) \<longleftrightarrow> (\<exists>a \<in> set as. lan_ip4 a = Some x)" for x as
    by (induction as) (auto simp: List.map_filter_simps split: option.splits)
  have "h \<in> set (lanIPv4s U T ifaces) \<longleftrightarrow> (\<exists>i \<in> set ifaces. if_up i \<and> \<not> if_loopback i \<and> \<not> isVirtualIface U (if_name i)
      \<and> h \<in> AddrString T ` set (List.map_filter lan_ip4 (if_addrs i)))"
    unfolding lanIPv4s_def by (auto simp: f split: if_splits)
  moreover have "h \<in> AddrString T ` set (List.map_filter lan_ip4 as) \<longleftrightarrow> (\<exists>a w. a \<in> set as \<and> lan_ip4 a = Some w \<and> h = AddrString T w)" for as
    unfolding image_iff using f by blast
  ultimately show ?thesis by simp blast
qed

lemma lan_ip4_Some: "lan_ip4 a = Some w \<Longrightarrow> Is4 w \<and> \<not> IsLoopback w \<and> \<not> IsLinkLocalUnicast w"
  by (auto simp: lan_ip4_def split: net_addr.splits option.splits addr.splits if_splits) (metis Is4.simps(1))

lemma banner_dns_bound:
  assumes "ParseIP T dnsHost = Some ip" "h \<in> set (fst (dns_hosts T dnsHost lanIPs))"
  shows "h = dnsHost \<or> IsUnspecified ip \<and> h \<in> set lanIPs"
  using assms by (auto simp: dns_hosts_def split: if_splits)

text \<open>The admin line does not look at a listener that is bound to one LAN address: the banner then offers every LAN
  address of the host, also those on which nothing listens.\<close>

lemma banner_admin_unbound:
  assumes "ParseIP T apiHost = Some ip" "\<not> IsLoopback ip" "apiHost \<noteq> ''localhost''" "h \<in> set lanIPs" "h \<noteq> apiHost"
  shows "admin_line (if useASCIIBanner getenv then ascii_drawing else unicode_drawing) apiPort [] h
    \<in> set (printNetworkHint T getenv lanIPs dnsHost dnsPort dotPort apiHost apiPort True)"
proof -
  have "admin_hosts T apiHost lanIPs = (lanIPs, [])" using assms(1-3) by (simp add: admin_hosts_def isLoopbackHost_def)
  then show ?thesis using assms(4) by (cases "dns_hosts T dnsHost lanIPs") (auto simp: printNetworkHint_def Let_def)
qed

lemma dns_Listen_ok: "(\<exists>x. fst (dns_Listen u t) = Inr x) \<longleftrightarrow> u = None \<and> t = None"
  by (auto simp: dns_Listen_def split: option.splits)

lemma NewCertReloader_ok: "(\<exists>r. NewCertReloader c k pair now = Inr r) \<longleftrightarrow> loaded_leaf pair \<noteq> None"
  "NewCertReloader c k pair now = Inr r \<Longrightarrow> GetCertificate r = loaded_leaf pair"
  by (auto simp: NewCertReloader_def cert_Reload_def cert_load_def GetCertificate_def Let_def split: key_pair.splits sum.splits)

lemma open_dot_ok:
  "open_dot M d = Inr certs \<longleftrightarrow> (if DNS_DoTListen d = [] then certs = None
     else me_dotErr M = None \<and> (\<exists>r. certs = Some r \<and> NewCertReloader (DNS_DoTCert d) (DNS_DoTKey d) (me_pair M) (me_now M) = Inr r))"
  by (auto simp: open_dot_def ListenDoT_def split: sum.splits option.splits)

lemma boot_cases:
  "boot G M path = Exit 1 \<or> (\<exists>cfg certs. snd (me_load M path) = Inr cfg \<and> me_udpErr M = None \<and> me_tcpErr M = None
     \<and> open_dot M (c_DNS cfg) = Inr certs \<and> boot G M path = Serving \<lparr>bo_run = startup G (me_start M) cfg,
         bo_dns = (if certs = None then NewServer else EnableDoT NewServer), bo_certs = certs, bo_apiUp = (me_adminErr M = None)\<rparr>)"
  using dns_Listen_ok [of "me_udpErr M" "me_tcpErr M"]
  by (cases "snd (me_load M path)"; cases "fst (dns_Listen (me_udpErr M) (me_tcpErr M))")
     (auto simp: boot_def split: sum.splits)

lemma boot_serves:
  assumes "snd (me_load M path) = Inr cfg" "me_udpErr M = None" "me_tcpErr M = None" "open_dot M (c_DNS cfg) = Inr certs"
  shows "\<exists>b. boot G M path = Serving b"
proof -
  obtain x where "fst (dns_Listen (me_udpErr M) (me_tcpErr M)) = Inr x" using dns_Listen_ok assms(2,3) by blast
  then show ?thesis using assms by (simp add: boot_def)
qed

section \<open>Property\<close>

text \<open>C14: What stops a start, and what does not. Without a mode flag the command exits, with code 1, exactly if the working directory
  cannot be set under the service manager, the configuration does not load, a DNS socket cannot be bound, or DoT is on and its
  certificate or its listener fails. Otherwise it serves, with the parts of the loaded configuration, whatever the lists, the
  log file, the database or the admin listener did; and with DoT on it serves the certificate that it read.\<close>

theorem start_stops_exactly:
  assumes "\<not> mf_version f" "\<not> mf_health f" "mf_service f = []" "\<not> mf_check f" "\<not> mf_purge f"
    and "path = (if me_scm M then chdirToConfigDir (me_Abs M) (me_Dir M) (me_chdir M) (mf_config f) else Inr (mf_config f))"
  shows "((\<exists>b. run_main L G M f = Serving b) \<longleftrightarrow> (\<exists>p cfg. path = Inr p \<and> snd (me_load M p) = Inr cfg \<and> me_udpErr M = None \<and> me_tcpErr M = None
            \<and> (DNS_DoTListen (c_DNS cfg) = [] \<or> loaded_leaf (me_pair M) \<noteq> None \<and> me_dotErr M = None)))
    \<and> (\<forall>b. run_main L G M f = Serving b \<longrightarrow> (\<exists>p cfg. path = Inr p \<and> snd (me_load M p) = Inr cfg \<and> bo_run b = startup G (me_start M) cfg
            \<and> (DNS_DoTListen (c_DNS cfg) = [] \<longrightarrow> bo_certs b = None)
            \<and> (DNS_DoTListen (c_DNS cfg) \<noteq> [] \<longrightarrow> Option.bind (bo_certs b) GetCertificate = loaded_leaf (me_pair M) \<and> loaded_leaf (me_pair M) \<noteq> None)))
    \<and> ((\<nexists>b. run_main L G M f = Serving b) \<longrightarrow> run_main L G M f = Exit 1)"
proof -
  have r: "run_main L G M f = (case path of Inl e \<Rightarrow> Exit 1 | Inr p \<Rightarrow> boot G M p)"
    unfolding assms(6) using assms(1-5) by (simp add: run_main_def)
  show ?thesis
  proof (cases path)
    case (Inl e)
    then show ?thesis by (simp add: r)
  next
    case (Inr p)
    note m = r [unfolded Inr sum.case]
    have ex: "(\<exists>b. boot G M p = Serving b) \<longleftrightarrow> (\<exists>cfg. snd (me_load M p) = Inr cfg \<and> me_udpErr M = None \<and> me_tcpErr M = None
        \<and> (DNS_DoTListen (c_DNS cfg) = [] \<or> loaded_leaf (me_pair M) \<noteq> None \<and> me_dotErr M = None))" (is "_ \<longleftrightarrow> ?ok")
    proof
      assume "\<exists>b. boot G M p = Serving b"
      then obtain cfg certs where c: "snd (me_load M p) = Inr cfg" "me_udpErr M = None" "me_tcpErr M = None" "open_dot M (c_DNS cfg) = Inr certs"
        using boot_cases [of G M p] by auto
      then show ?ok using NewCertReloader_ok(1) by (fastforce simp: open_dot_ok split: if_splits)
    next
      assume ?ok
      then obtain cfg where c: "snd (me_load M p) = Inr cfg" "me_udpErr M = None" "me_tcpErr M = None"
        "DNS_DoTListen (c_DNS cfg) = [] \<or> loaded_leaf (me_pair M) \<noteq> None \<and> me_dotErr M = None" by blast
      then obtain certs where "open_dot M (c_DNS cfg) = Inr certs"
        using NewCertReloader_ok(1) [of "DNS_DoTCert (c_DNS cfg)" "DNS_DoTKey (c_DNS cfg)" "me_pair M" "me_now M"]
        by (cases "DNS_DoTListen (c_DNS cfg) = []") (auto simp: open_dot_ok)
      then show "\<exists>b. boot G M p = Serving b" using boot_serves c by blast
    qed
    have fields: "\<exists>cfg. snd (me_load M p) = Inr cfg \<and> bo_run b = startup G (me_start M) cfg \<and> (DNS_DoTListen (c_DNS cfg) = [] \<longrightarrow> bo_certs b = None)
        \<and> (DNS_DoTListen (c_DNS cfg) \<noteq> [] \<longrightarrow> Option.bind (bo_certs b) GetCertificate = loaded_leaf (me_pair M) \<and> loaded_leaf (me_pair M) \<noteq> None)"
      if b: "boot G M p = Serving b" for b
    proof -
      obtain cfg certs where c: "snd (me_load M p) = Inr cfg" "open_dot M (c_DNS cfg) = Inr certs" "bo_run b = startup G (me_start M) cfg" "bo_certs b = certs"
        using boot_cases [of G M p] b by auto
      show ?thesis
      proof (cases "DNS_DoTListen (c_DNS cfg) = []")
        case True
        then show ?thesis using c by (simp add: open_dot_ok)
      next
        case False
        then obtain r where r: "certs = Some r" "NewCertReloader (DNS_DoTCert (c_DNS cfg)) (DNS_DoTKey (c_DNS cfg)) (me_pair M) (me_now M) = Inr r"
          using c(2) by (auto simp: open_dot_ok)
        then have "GetCertificate r = loaded_leaf (me_pair M)" "loaded_leaf (me_pair M) \<noteq> None"
          using NewCertReloader_ok by (blast, blast)
        then show ?thesis using c r(1) False by simp
      qed
    qed
    show ?thesis unfolding m using ex fields boot_cases [of G M p] Inr by auto
  qed
qed

definition demo_main :: main_env where
  "demo_main = \<lparr>me_goos_windows = False, me_scm = False, me_Abs = Inr, me_Dir = (\<lambda>p. p), me_chdir = (\<lambda>p. None),
     me_load = (\<lambda>p. ([], Inr demo_private)), me_service = (\<lambda>a p. None), me_ready = (\<lambda>u. None), me_post = (\<lambda>u. Conn_refused),
     me_offline = demo_offline, me_files = Map.empty, me_names = [], me_now = 0, me_udpErr = None, me_tcpErr = None, me_pair = Pair_error [],
     me_dotErr = None, me_adminErr = Some ''in use'', me_start = demo_start\<rparr>"

definition demo_flags :: main_flags where
  "demo_flags = \<lparr>mf_config = ''config.yaml'', mf_service = [], mf_version = False, mf_check = False, mf_purge = False, mf_health = False\<rparr>"

theorem start_stops_exactly_witness:
  "\<exists>b. run_main demo_conf demo_G demo_main demo_flags = Serving b \<and> bo_run b = startup demo_G demo_start demo_private"
proof -
  have d: "DNS_DoTListen (c_DNS demo_private) = []" by (simp add: demo_private_def defaults_def)
  have m: "me_scm demo_main = False" "me_load demo_main p = ([], Inr demo_private)" "me_udpErr demo_main = None" "me_tcpErr demo_main = None"
    "me_start demo_main = demo_start" for p by (simp_all add: demo_main_def)
  have f: "\<not> mf_version demo_flags" "\<not> mf_health demo_flags" "mf_service demo_flags = []" "\<not> mf_check demo_flags" "\<not> mf_purge demo_flags"
    by (simp_all add: demo_flags_def)
  note s = start_stops_exactly [OF f refl, of demo_conf demo_G demo_main]
  obtain b where b: "run_main demo_conf demo_G demo_main demo_flags = Serving b" using s m d by auto
  moreover have "bo_run b = startup demo_G demo_start demo_private" using s b m by auto
  ultimately show ?thesis by blast
qed

end
