(* ===== verification/Wal_Life.thy ===== *)
theory Wal_Life
  imports Query_Db
begin

text \<open>
  The write-ahead log of the query database over the life of the logger, \<open>src/internal/querylog/db.go\<close>: the wipe at the start, after
  a prune, in a purge and at the stop (\<open>wipeWALOrWarn\<close>, \<open>prune\<close>, \<open>runPrune\<close>, \<open>Close\<close>). The record \<open>wal_file\<close> holds which
  rows are in page images of the WAL file, and which are in disk blocks that the file gave back to the file system
  without being overwritten.

  SQLite is not part of the sources. What its statements do to the WAL file is the parameter \<open>sqlite\<close> of the model, and
  \<open>wal_documented\<close> states the part of SQLite's documentation that the code relies on: with \<open>journal_size_limit\<close> -1 a commit
  does not make the file shorter, \<open>wal_checkpoint(TRUNCATE)\<close> and the close of the last connection give back at most what is in the
  file, and the other statements of the wipe give back nothing and write no page image.
\<close>

section \<open>Model\<close>

definition pragmas :: "(string \<times> string) list" where
  "pragmas =
     [(''busy_timeout'', ''5000''), (''journal_mode'', ''WAL''), (''synchronous'', ''NORMAL''), (''secure_delete'', ''ON''),
      (''journal_size_limit'', ''-1''), (''cache_size'', ''-8000''), (''temp_store'', ''MEMORY'')]"

record wal_file =
  wf_images :: "db_row list"     \<comment> \<open>rows in page images of the WAL file\<close>
  wf_freed :: "db_row list"      \<comment> \<open>rows in blocks freed without an overwrite\<close>

record wal_disk =
  wd_file :: wal_file
  wd_warned :: "string list"     \<comment> \<open>the points for which \<open>warnWipe\<close> logged a failure\<close>

text \<open>
  SQLite's effect on the WAL file: of a commit, on a connection with the given pragmas, of a transaction whose pages can
  hold the given rows; of a statement of the wipe; of the close of the last connection.
\<close>

record sqlite =
  sq_commit :: "(string \<times> string) list \<Rightarrow> db_row list \<Rightarrow> wal_file \<Rightarrow> wal_file"
  sq_stmt :: "wal_act \<Rightarrow> wal_file \<Rightarrow> wal_file"
  sq_close :: "wal_file \<Rightarrow> wal_file"

definition gives_back :: "wal_file \<Rightarrow> wal_file \<Rightarrow> bool" where
  "gives_back f f' \<longleftrightarrow> set (wf_images f') \<subseteq> set (wf_images f) \<and> set (wf_freed f') \<subseteq> set (wf_freed f) \<union> set (wf_images f)"

definition wal_documented :: "sqlite \<Rightarrow> bool" where
  "wal_documented Q \<longleftrightarrow>
     (\<forall>ps rows f. map_of ps ''journal_size_limit'' = Some ''-1'' \<longrightarrow> wf_freed (sq_commit Q ps rows f) = wf_freed f)
   \<and> (\<forall>a f. a \<noteq> CheckpointTruncate \<longrightarrow>
        set (wf_images (sq_stmt Q a f)) \<subseteq> set (wf_images f) \<and> wf_freed (sq_stmt Q a f) = wf_freed f)
   \<and> (\<forall>f. gives_back f (sq_stmt Q CheckpointTruncate f)) \<and> (\<forall>f. gives_back f (sq_close Q f))"

text \<open>
  A step of \<open>wipeWAL\<close> on the file: the statements are SQLite's, the overwrite is the program's. A \<open>ZeroFile\<close> that fails may
  have stopped anywhere, so the images count as still there; a file that does not exist has none.
\<close>

fun wal_effect :: "sqlite \<Rightarrow> wal_env \<Rightarrow> wal_act \<Rightarrow> wal_file \<Rightarrow> wal_file" where
  "wal_effect Q W ZeroWAL f = (if w_Zero W = None \<or> w_Zero W = Some NotExist then f\<lparr>wf_images := []\<rparr> else f)"
| "wal_effect Q W a f = sq_stmt Q a f"

definition wipe_disk :: "sqlite \<Rightarrow> wal_env \<Rightarrow> wal_disk \<Rightarrow> wal_disk" where
  "wipe_disk Q W k = k\<lparr>wd_file := fold (wal_effect Q W) (fst (wipeWAL W)) (wd_file k)\<rparr>"

definition warnWipe :: "string \<Rightarrow> wal_disk \<Rightarrow> wal_disk" where
  "warnWipe point k = k\<lparr>wd_warned := wd_warned k @ [point]\<rparr>"

text \<open>\<open>conn\<close> is the error of \<open>db.Conn\<close>.\<close>

definition wipeWALOrWarn :: "sqlite \<Rightarrow> db_error option \<Rightarrow> wal_env \<Rightarrow> string \<Rightarrow> wal_disk \<Rightarrow> wal_disk" where
  "wipeWALOrWarn Q conn W point k =
     (case conn of
        Some _ \<Rightarrow> warnWipe point k
      | None \<Rightarrow> (let k' = wipe_disk Q W k in if snd (wipeWAL W) = None then k' else warnWipe point k'))"

record db_life =
  lf_log :: DBLogger
  lf_disk :: wal_disk

definition table_images :: "DBLogger \<Rightarrow> db_row list" where
  "table_images d = map anon_row (db_rows (dl_db d))"

text \<open>A transaction on the one connection, which has the pragmas of the code.\<close>

definition commit_disk :: "sqlite \<Rightarrow> db_row list \<Rightarrow> wal_disk \<Rightarrow> wal_disk" where
  "commit_disk Q rows k = k\<lparr>wd_file := sq_commit Q pragmas rows (wd_file k)\<rparr>"

text \<open>A step of the writer that may commit a transaction; its pages hold rows of the table before or after it.\<close>

definition write_step :: "sqlite \<Rightarrow> (DBLogger \<Rightarrow> DBLogger) \<Rightarrow> db_life \<Rightarrow> db_life" where
  "write_step Q f l =
     (let d' = f (lf_log l) in
      \<lparr>lf_log = d', lf_disk = commit_disk Q (table_images (lf_log l) @ table_images d') (lf_disk l)\<rparr>)"

text \<open>\<open>prune\<close> with its wipe, which runs only when rows were deleted.\<close>

definition prune_life :: "sqlite \<Rightarrow> prune_env \<Rightarrow> wal_env \<Rightarrow> time \<Rightarrow> db_life \<Rightarrow> db_life" where
  "prune_life Q E W now l =
     (let d = lf_log l; db' = prune E (dl_retentionDays d) now (dl_db d);
          l' = write_step Q (\<lambda>d. d\<lparr>dl_db := db'\<rparr>) l
      in if pr_Conn E \<noteq> None \<or> pr_Delete E \<noteq> None then l
         else if length (db_rows db') = length (db_rows (dl_db d)) then l'
         else l'\<lparr>lf_disk := (let k = wipe_disk Q W (lf_disk l') in if snd (wipeWAL W) = None then k else warnWipe ''prune'' k)\<rparr>)"

text \<open>The steps of \<open>purgeAll\<close> on the disk: each statement commits, each wipe wipes, up to the first error.\<close>

fun purge_disk :: "sqlite \<Rightarrow> purge_env \<Rightarrow> purge_stmt list \<Rightarrow> db_row list \<Rightarrow> wal_disk \<Rightarrow> wal_disk" where
  "purge_disk Q E [] rows k = k"
| "purge_disk Q E (s # ss) rows k =
     (let k' = (case s of
            StepWipe1 \<Rightarrow> wipe_disk Q (pu_Wipe1 E) k
          | StepWipe2 \<Rightarrow> wipe_disk Q (pu_Wipe2 E) k
          | StepVacuum \<Rightarrow> commit_disk Q [] k
          | _ \<Rightarrow> commit_disk Q rows k)
      in if step_err E s = None then purge_disk Q E ss rows k' else k')"

definition purge_life :: "sqlite \<Rightarrow> purge_env \<Rightarrow> db_life \<Rightarrow> db_life" where
  "purge_life Q E l =
     \<lparr>lf_log = fst (writer_purge E (lf_log l)),
      lf_disk = (if pu_Conn E = None
        then purge_disk Q E [StepDelete, StepSequence, StepWipe1, StepVacuum, StepWipe2] (table_images (lf_log l)) (lf_disk l)
        else lf_disk l)\<rparr>"

text \<open>\<open>Close\<close>: the writer flushes and ends, the wipe, then the close of the last connection.\<close>

definition DBLogger_Close :: "sqlite \<Rightarrow> flush_env \<Rightarrow> db_error option \<Rightarrow> wal_env \<Rightarrow> db_life \<Rightarrow> db_life" where
  "DBLogger_Close Q E conn W l =
     (let l1 = write_step Q (writer_stop E) l; k = wipeWALOrWarn Q conn W ''stop'' (lf_disk l1)
      in l1\<lparr>lf_disk := k\<lparr>wd_file := sq_close Q (wd_file k)\<rparr>\<rparr>)"

text \<open>What the writer's select loop in \<open>run\<close> takes, and one round of it; the round of \<open>runPrune\<close>.\<close>

datatype run_event = Recv flush_env | FlushTick flush_env | PurgeCall purge_env

fun run_life :: "sqlite \<Rightarrow> run_event \<Rightarrow> db_life \<Rightarrow> db_life" where
  "run_life Q (Recv E) l = write_step Q (writer_recv E) l"
| "run_life Q (FlushTick E) l = write_step Q (writer_tick E) l"
| "run_life Q (PurgeCall E) l = purge_life Q E l"

definition prune_round :: "sqlite \<Rightarrow> time \<Rightarrow> prune_env \<Rightarrow> wal_env \<Rightarrow> db_life \<Rightarrow> db_life" where
  "prune_round Q now E W l = (if dl_retentionDays (lf_log l) \<le> 0 then l else prune_life Q E W now l)"

text \<open>
  The end of \<open>NewDBLogger\<close>: the wipe of what a crash or the migration left in the WAL, then the goroutines; with a
  retention the pruner prunes once at once.
\<close>

definition open_life :: "sqlite \<Rightarrow> db_error option \<Rightarrow> wal_env \<Rightarrow> db_row list \<Rightarrow> prune_env \<times> wal_env \<times> time \<Rightarrow> DBLogger \<Rightarrow> db_life" where
  "open_life Q conn W leftover first d =
     (let l = \<lparr>lf_log = d, lf_disk = wipeWALOrWarn Q conn W ''start''
                \<lparr>wd_file = \<lparr>wf_images = leftover, wf_freed = []\<rparr>, wd_warned = []\<rparr>\<rparr>
      in case first of (E, W1, now) \<Rightarrow> prune_round Q now E W1 l)"

text \<open>The interleaving of the writer, the pruner and the calls from outside; after \<open>Close\<close> the goroutines have ended.\<close>

datatype life_event =
    LogCall Record time
  | Writer run_event
  | Pruner time prune_env wal_env
  | CloseCall flush_env "db_error option" wal_env

fun life_step :: "sqlite \<Rightarrow> life_event \<Rightarrow> db_life \<Rightarrow> db_life" where
  "life_step Q (LogCall r now) l = l\<lparr>lf_log := DBLogger_Log (lf_log l) r now\<rparr>"
| "life_step Q (Writer ev) l = (if dl_done (lf_log l) then l else run_life Q ev l)"
| "life_step Q (Pruner now E W) l = (if dl_done (lf_log l) then l else prune_round Q now E W l)"
| "life_step Q (CloseCall E conn W) l = (if dl_done (lf_log l) then l else DBLogger_Close Q E conn W l)"

section \<open>Lemmas\<close>

text \<open>The steps of the whole life agree with \<open>db_step\<close> on the logger.\<close>

fun plain_event :: "life_event \<Rightarrow> db_event" where
  "plain_event (LogCall r now) = DLog r now"
| "plain_event (Writer (Recv E)) = DRecv E"
| "plain_event (Writer (FlushTick E)) = DTick E"
| "plain_event (Writer (PurgeCall E)) = DPurge E"
| "plain_event (Pruner now E W) = DPrune now E"
| "plain_event (CloseCall E conn W) = DClose E"

lemma life_log: "lf_log (life_step Q ev l) = db_step (plain_event ev) (lf_log l)"
  by (cases ev rule: plain_event.cases)
    (auto simp: write_step_def purge_life_def prune_round_def prune_life_def DBLogger_Close_def Let_def prune_def)

text \<open>A wipe frees no row: it truncates the file only after the file was overwritten.\<close>

lemma wipeWAL_acts:
  obtains (early) "ZeroWAL \<notin> set (fst (wipeWAL W))" "CheckpointTruncate \<notin> set (fst (wipeWAL W))" "snd (wipeWAL W) \<noteq> None"
  | (zeroed) "fst (wipeWAL W) = [CheckpointRestart, DataVersion, BeginImmediate, DataVersion, ZeroWAL, Rollback]"
      "snd (wipeWAL W) \<noteq> None"
  | (whole) "fst (wipeWAL W) =
        [CheckpointRestart, DataVersion, BeginImmediate, DataVersion, ZeroWAL, Rollback, CheckpointTruncate]"
      "w_Zero W = None \<or> w_Zero W = Some NotExist"
proof (cases "w_Checkpoint W")
  case (Inl e)
  then show ?thesis by (intro early) (simp_all add: wipeWAL_def)
next
  case c: (Inr x)
  obtain busy frames copied where x: "x = (busy, frames, copied)" by (metis prod_cases3)
  show ?thesis
  proof (cases "busy \<noteq> 0 \<or> frames \<noteq> copied")
    case True
    with c x show ?thesis by (intro early) (auto simp: wipeWAL_def)
  next
    case ok: False
    show ?thesis
    proof (cases "w_Before W")
      case (Inl e)
      with c x ok show ?thesis by (intro early) (simp_all add: wipeWAL_def)
    next
      case b: (Inr before)
      show ?thesis
      proof (cases "w_Begin W")
        case (Some e)
        with c x ok b show ?thesis by (intro early) (simp_all add: wipeWAL_def)
      next
        case g: None
        show ?thesis
        proof (cases "w_After W = Inr before")
          case False
          with c x ok b g show ?thesis
            by (intro early; cases "w_After W") (simp_all add: wipeWAL_def)
        next
          case af: True
          show ?thesis
          proof (cases "w_Zero W = None \<or> w_Zero W = Some NotExist")
            case z: True
            show ?thesis
            proof (cases "w_Rollback W")
              case None
              with c x ok b g af z show ?thesis by (intro whole) (auto simp: wipeWAL_def)
            next
              case (Some e)
              with c x ok b g af z show ?thesis by (intro zeroed) (auto simp: wipeWAL_def)
            qed
          next
            case False
            then obtain z where "w_Zero W = Some z" "z \<noteq> NotExist" by auto
            with c x ok b g af show ?thesis by (intro zeroed; cases z) (simp_all add: wipeWAL_def)
          qed
        qed
      qed
    qed
  qed
qed

text \<open>What the documentation of SQLite gives.\<close>

lemma commit_freed [simp]:
  assumes "wal_documented Q"
  shows "wf_freed (wd_file (commit_disk Q rows k)) = wf_freed (wd_file k)"
  using assms by (simp add: wal_documented_def commit_disk_def pragmas_def)

lemma commit_warned [simp]: "wd_warned (commit_disk Q rows k) = wd_warned k"
  by (simp add: commit_disk_def)

lemma documented_stmt:
  assumes "wal_documented Q" "a \<noteq> CheckpointTruncate" "a \<noteq> ZeroWAL"
  shows "set (wf_images (wal_effect Q W a f)) \<subseteq> set (wf_images f)" "wf_freed (wal_effect Q W a f) = wf_freed f"
  using assms by (cases a; simp add: wal_documented_def)+

lemma documented_truncate:
  "wal_documented Q \<Longrightarrow> gives_back f (wal_effect Q W CheckpointTruncate f)" "wal_documented Q \<Longrightarrow> gives_back f (sq_close Q f)"
  by (simp_all add: wal_documented_def)

lemma other_acts:
  assumes "wal_documented Q" "ZeroWAL \<notin> set as" "CheckpointTruncate \<notin> set as"
  shows "set (wf_images (fold (wal_effect Q W) as f)) \<subseteq> set (wf_images f) \<and> wf_freed (fold (wal_effect Q W) as f) = wf_freed f"
  using assms(2,3)
proof (induction as arbitrary: f)
  case (Cons a as)
  then show ?case using documented_stmt [OF assms(1), of a W f] Cons.IH [of "wal_effect Q W a f"] by auto
qed simp

text \<open>The steps up to the rollback: after an overwrite that succeeded the file holds no image.\<close>

lemma zero_acts:
  assumes "wal_documented Q"
  shows "wf_freed (fold (wal_effect Q W) [CheckpointRestart, DataVersion, BeginImmediate, DataVersion, ZeroWAL, Rollback] f) = wf_freed f"
    "w_Zero W = None \<or> w_Zero W = Some NotExist \<Longrightarrow>
      wf_images (fold (wal_effect Q W) [CheckpointRestart, DataVersion, BeginImmediate, DataVersion, ZeroWAL, Rollback] f) = []"
proof -
  let ?g = "fold (wal_effect Q W) [CheckpointRestart, DataVersion, BeginImmediate, DataVersion] f"
  have g: "wf_freed ?g = wf_freed f"
    using other_acts [OF assms, of "[CheckpointRestart, DataVersion, BeginImmediate, DataVersion]" W f] by simp
  have r: "wf_freed (wal_effect Q W Rollback h) = wf_freed h" "set (wf_images (wal_effect Q W Rollback h)) \<subseteq> set (wf_images h)" for h
    using documented_stmt [OF assms, of Rollback] by blast+
  have e: "fold (wal_effect Q W) [CheckpointRestart, DataVersion, BeginImmediate, DataVersion, ZeroWAL, Rollback] f
      = wal_effect Q W Rollback (wal_effect Q W ZeroWAL ?g)" by simp
  show "wf_freed (fold (wal_effect Q W) [CheckpointRestart, DataVersion, BeginImmediate, DataVersion, ZeroWAL, Rollback] f) = wf_freed f"
    unfolding e r(1) using g by simp
  show "wf_images (fold (wal_effect Q W) [CheckpointRestart, DataVersion, BeginImmediate, DataVersion, ZeroWAL, Rollback] f) = []"
    if "w_Zero W = None \<or> w_Zero W = Some NotExist"
    unfolding e using r(2) [of "wal_effect Q W ZeroWAL ?g"] that by simp
qed

lemma wipe_disk_freed:
  assumes "wal_documented Q"
  shows "set (wf_freed (wd_file (wipe_disk Q W k))) \<subseteq> set (wf_freed (wd_file k))"
proof (cases rule: wipeWAL_acts [of W])
  case early
  then show ?thesis using other_acts [OF assms, of "fst (wipeWAL W)" W "wd_file k"] by (simp add: wipe_disk_def)
next
  case zeroed
  then show ?thesis using zero_acts(1) [OF assms, of W "wd_file k"] by (simp add: wipe_disk_def del: fold_simps)
next
  case whole
  let ?z = "fold (wal_effect Q W) [CheckpointRestart, DataVersion, BeginImmediate, DataVersion, ZeroWAL, Rollback] (wd_file k)"
  have "wd_file (wipe_disk Q W k) = wal_effect Q W CheckpointTruncate ?z" by (simp add: wipe_disk_def whole(1))
  then show ?thesis
    using documented_truncate(1) [OF assms, of ?z W] zero_acts [OF assms, of W "wd_file k"] whole(2)
    by (simp add: gives_back_def del: fold_simps)
qed

lemma wipe_disk_ok:
  assumes "wal_documented Q" "snd (wipeWAL W) = None"
  shows "wf_images (wd_file (wipe_disk Q W k)) = []"
  using assms(2)
proof (cases rule: wipeWAL_acts [of W])
  case whole
  let ?z = "fold (wal_effect Q W) [CheckpointRestart, DataVersion, BeginImmediate, DataVersion, ZeroWAL, Rollback] (wd_file k)"
  have "wd_file (wipe_disk Q W k) = wal_effect Q W CheckpointTruncate ?z" by (simp add: wipe_disk_def whole(1))
  then show ?thesis
    using documented_truncate(1) [OF assms(1), of ?z W] zero_acts(2) [OF assms(1) whole(2), of "wd_file k"]
    by (simp add: gives_back_def del: fold_simps)
qed simp_all

lemma wipe_disk_warned [simp]: "wd_warned (wipe_disk Q W k) = wd_warned k"
  by (simp add: wipe_disk_def)

lemma warnWipe_frame [simp]: "wd_file (warnWipe p k) = wd_file k" "wd_warned (warnWipe p k) = wd_warned k @ [p]"
  by (simp_all add: warnWipe_def)

lemma wipeWALOrWarn_freed:
  "wal_documented Q \<Longrightarrow> set (wf_freed (wd_file (wipeWALOrWarn Q conn W p k))) \<subseteq> set (wf_freed (wd_file k))"
  using wipe_disk_freed [of Q W k] by (simp add: wipeWALOrWarn_def Let_def split: option.split)

lemma wipeWALOrWarn_warns:
  "wal_documented Q \<Longrightarrow>
   wf_images (wd_file (wipeWALOrWarn Q conn W p k)) = [] \<or> p \<in> set (wd_warned (wipeWALOrWarn Q conn W p k))"
  by (cases conn) (auto simp: wipeWALOrWarn_def Let_def wipe_disk_ok)

lemma purge_disk_freed:
  assumes "wal_documented Q"
  shows "set (wf_freed (wd_file (purge_disk Q E ss rows k))) \<subseteq> set (wf_freed (wd_file k))"
proof (induction ss arbitrary: k)
  case (Cons s ss)
  let ?k = "case s of StepWipe1 \<Rightarrow> wipe_disk Q (pu_Wipe1 E) k | StepWipe2 \<Rightarrow> wipe_disk Q (pu_Wipe2 E) k
    | StepVacuum \<Rightarrow> commit_disk Q [] k | _ \<Rightarrow> commit_disk Q rows k"
  have "set (wf_freed (wd_file ?k)) \<subseteq> set (wf_freed (wd_file k))"
    using assms wipe_disk_freed [OF assms] by (cases s) simp_all
  then show ?case using Cons.IH [of ?k] by (simp add: Let_def) blast
qed simp

text \<open>The invariant: until the logger is closed no row is in a freed block; after it, only with a warning.\<close>

definition freed_ok :: "db_life \<Rightarrow> bool" where
  "freed_ok l \<longleftrightarrow> wf_freed (wd_file (lf_disk l)) = [] \<or> dl_done (lf_log l) \<and> ''stop'' \<in> set (wd_warned (lf_disk l))"

lemma write_step_freed [simp]:
  "wal_documented Q \<Longrightarrow> wf_freed (wd_file (lf_disk (write_step Q f l))) = wf_freed (wd_file (lf_disk l))"
  by (simp add: write_step_def Let_def)

lemma prune_round_freed:
  "wal_documented Q \<Longrightarrow> set (wf_freed (wd_file (lf_disk (prune_round Q now E W l)))) \<subseteq> set (wf_freed (wd_file (lf_disk l)))"
  using wipe_disk_freed [of Q W "lf_disk (write_step Q (\<lambda>d. d\<lparr>dl_db := prune E (dl_retentionDays (lf_log l)) now (dl_db (lf_log l))\<rparr>) l)"]
  by (simp add: prune_round_def prune_life_def Let_def)

lemma run_life_freed:
  "wal_documented Q \<Longrightarrow> set (wf_freed (wd_file (lf_disk (run_life Q ev l)))) \<subseteq> set (wf_freed (wd_file (lf_disk l)))"
  using purge_disk_freed by (cases ev) (simp_all add: purge_life_def del: purge_disk.simps)

lemma Close_freed:
  assumes "wal_documented Q" "wf_freed (wd_file (lf_disk l)) = []"
  shows "wf_freed (wd_file (lf_disk (DBLogger_Close Q E conn W l))) = [] \<or>
    ''stop'' \<in> set (wd_warned (lf_disk (DBLogger_Close Q E conn W l)))"
proof -
  let ?k = "wipeWALOrWarn Q conn W ''stop'' (lf_disk (write_step Q (writer_stop E) l))"
  have "wf_freed (wd_file ?k) = []"
    using wipeWALOrWarn_freed [OF assms(1), of conn W "''stop''" "lf_disk (write_step Q (writer_stop E) l)"] assms by simp
  then show ?thesis
    using documented_truncate(2) [OF assms(1), of "wd_file ?k"]
      wipeWALOrWarn_warns [OF assms(1), of conn W "''stop''" "lf_disk (write_step Q (writer_stop E) l)"]
    by (auto simp: DBLogger_Close_def Let_def gives_back_def)
qed

lemma life_step_freed:
  assumes "wal_documented Q" "freed_ok l"
  shows "freed_ok (life_step Q ev l)"
proof (cases "dl_done (lf_log l)")
  case True
  have "lf_disk (life_step Q ev l) = lf_disk l" "dl_done (lf_log (life_step Q ev l))"
    using True by (cases ev; simp)+
  with assms show ?thesis by (auto simp: freed_ok_def)
next
  case False
  then have freed: "wf_freed (wd_file (lf_disk l)) = []"
    using assms by (simp add: freed_ok_def)
  show ?thesis
  proof (cases ev)
    case (CloseCall E conn W)
    have "dl_done (lf_log (DBLogger_Close Q E conn W l))"
      by (simp add: DBLogger_Close_def Let_def write_step_def writer_stop_def)
    with Close_freed [OF assms(1) freed, of E conn W] False CloseCall show ?thesis
      by (simp add: freed_ok_def)
  next
    case (Writer rev)
    then show ?thesis using False freed run_life_freed [OF assms(1), of rev l] by (simp add: freed_ok_def)
  next
    case (Pruner now E W)
    then show ?thesis using False freed prune_round_freed [OF assms(1), of now E W l] by (simp add: freed_ok_def)
  qed (use freed in \<open>simp add: freed_ok_def\<close>)
qed

lemma life_freed: "wal_documented Q \<Longrightarrow> freed_ok l \<Longrightarrow> freed_ok (fold (life_step Q) evs l)"
  by (induction evs arbitrary: l) (simp_all add: life_step_freed)

lemma open_freed:
  assumes "wal_documented Q"
  shows "freed_ok (open_life Q conn W leftover first d)"
proof -
  obtain E W1 now where first: "first = (E, W1, now)" by (metis prod_cases3)
  let ?l = "\<lparr>lf_log = d, lf_disk = wipeWALOrWarn Q conn W ''start'' \<lparr>wd_file = \<lparr>wf_images = leftover, wf_freed = []\<rparr>, wd_warned = []\<rparr>\<rparr>"
  have "wf_freed (wd_file (lf_disk ?l)) = []"
    using wipeWALOrWarn_freed [OF assms, of conn W "''start''" "\<lparr>wd_file = \<lparr>wf_images = leftover, wf_freed = []\<rparr>, wd_warned = []\<rparr>"] by simp
  then show ?thesis using prune_round_freed [OF assms, of now E W1 ?l] by (simp add: freed_ok_def open_life_def first)
qed

section \<open>What a prune and a purge leave\<close>

lemma purge_ok_disk:
  assumes "wal_documented Q" "snd (purgeAll E db) = None"
  shows "wf_images (wd_file (purge_disk Q E [StepDelete, StepSequence, StepWipe1, StepVacuum, StepWipe2] rows k)) = []"
proof -
  have "snd (wipeWAL (pu_Wipe2 E)) = None"
    "step_err E StepDelete = None" "step_err E StepSequence = None" "step_err E StepWipe1 = None" "step_err E StepVacuum = None"
    using assms by (auto simp: purgeAll_def split: option.splits)
  then show ?thesis
    using assms(1) by (simp add: Let_def wipe_disk_ok)
qed

lemma prune_ok_disk:
  assumes "wal_documented Q" "pr_Conn E = None" "pr_Delete E = None" "snd (wipeWAL W) = None"
    "db_rows (prune E (dl_retentionDays (lf_log l)) now (dl_db (lf_log l))) \<noteq> db_rows (dl_db (lf_log l))"
  shows "wf_images (wd_file (lf_disk (prune_life Q E W now l))) = []"
proof -
  have "length (filter P xs) = length xs \<longleftrightarrow> filter P xs = xs" for P and xs :: "db_row list"
    by (metis filter_True length_filter_less less_irrefl)
  then have "length (db_rows (prune E (dl_retentionDays (lf_log l)) now (dl_db (lf_log l)))) \<noteq> length (db_rows (dl_db (lf_log l)))"
    using assms(2,3,5) by (simp add: prune_def)
  with assms show ?thesis
    by (simp add: prune_life_def Let_def wipe_disk_ok)
qed

text \<open>After a purge without an error neither the table nor the page images of the write-ahead log hold a row; after a prune
  that deleted rows and whose wipe succeeded the write-ahead log holds none.\<close>

lemma wal_purge_prune:
  assumes "wal_documented Q" "\<not> dl_done (lf_log l)" "snd (purgeAll P (dl_db (lf_log l))) = None"
    "pr_Conn E = None" "pr_Delete E = None" "snd (wipeWAL W) = None" "0 < dl_retentionDays (lf_log l)"
    "db_rows (prune E (dl_retentionDays (lf_log l)) now (dl_db (lf_log l))) \<noteq> db_rows (dl_db (lf_log l))"
  shows "wf_images (wd_file (lf_disk (life_step Q (Writer (PurgeCall P)) l))) = []
    \<and> db_rows (dl_db (lf_log (life_step Q (Writer (PurgeCall P)) l))) = []
    \<and> wf_images (wd_file (lf_disk (life_step Q (Pruner now E W) l))) = []"
proof -
  have "pu_Conn P = None"
    using assms(3) by (auto simp: purgeAll_def split: option.splits)
  then show ?thesis
    using assms purge_ok_disk [OF assms(1,3)] prune_ok_disk [OF assms(1,4-6,8)] purgeAll_done [OF assms(3)]
    by (simp add: purge_life_def writer_purge_def prune_round_def Let_def case_prod_beta)
qed

text \<open>C17: In every run of the database logger, from its start over any sequence of logged queries, flushes, prunes and purges
  to its close, with any failures, no row of the query history is left in disk blocks that the write-ahead log gave
  back without an overwrite, unless the wipe at the stop failed and the logger warned of it. This rests on what SQLite
  documents: a commit on a connection without a journal size limit does not make the file shorter, the TRUNCATE checkpoint and the last close give
  back at most what is in the file, and the other statements of the wipe give back nothing and write no page.\<close>

theorem wal_freed_zeroed:
  assumes "wal_documented Q"
  shows "wf_freed (wd_file (lf_disk (fold (life_step Q) evs (open_life Q conn W leftover first d)))) = [] \<or>
    ''stop'' \<in> set (wd_warned (lf_disk (fold (life_step Q) evs (open_life Q conn W leftover first d))))"
  using life_freed [OF assms open_freed [OF assms], of evs conn W leftover first d] unfolding freed_ok_def by blast

text \<open>
  An SQLite that appends the rows of each commit to the file and gives back all of it in the checkpoint and in the close; a
  logger with one row in the table is opened, and closed with a wipe that finds nothing wrong.
\<close>

definition demo_sqlite :: sqlite where
  "demo_sqlite = \<lparr>sq_commit = (\<lambda>ps rows f. if map_of ps ''journal_size_limit'' = Some ''-1'' then f\<lparr>wf_images := wf_images f @ rows\<rparr>
       else \<lparr>wf_images = [], wf_freed = wf_freed f @ wf_images f @ rows\<rparr>),
     sq_stmt = (\<lambda>a f. if a = CheckpointTruncate then \<lparr>wf_images = [], wf_freed = wf_freed f @ wf_images f\<rparr> else f),
     sq_close = (\<lambda>f. \<lparr>wf_images = [], wf_freed = wf_freed f @ wf_images f\<rparr>)\<rparr>"

definition demo_days :: "life_event list" where
  "demo_days = [LogCall demo_rec 0, Writer (Recv demo_flush), Writer (FlushTick demo_flush), CloseCall demo_flush None demo_wal]"

lemma demo_documented: "wal_documented demo_sqlite"
  by (simp add: wal_documented_def demo_sqlite_def gives_back_def)

theorem wal_freed_zeroed_witness:
  "let l = fold (life_step demo_sqlite) demo_days (open_life demo_sqlite None demo_wal [] (\<lparr>pr_Conn = None, pr_Delete = None\<rparr>, demo_wal, 0) demo_db)
   in length (db_rows (dl_db (lf_log l))) = 1 \<and> wf_freed (wd_file (lf_disk l)) = []"
proof -
  let ?l = "fold (life_step demo_sqlite) demo_days (open_life demo_sqlite None demo_wal [] (\<lparr>pr_Conn = None, pr_Delete = None\<rparr>, demo_wal, 0) demo_db)"
  have "wd_warned (lf_disk ?l) = []" "length (db_rows (dl_db (lf_log ?l))) = 1" by code_simp+
  then show ?thesis
    using wal_freed_zeroed [OF demo_documented, of demo_days None demo_wal "[]" "(\<lparr>pr_Conn = None, pr_Delete = None\<rparr>, demo_wal, 0)" demo_db]
    by (simp add: Let_def)
qed

end
