(* ===== verification/Upstream_Counters.thy ===== *)
theory Upstream_Counters
  imports Upstream List_Loader
begin

text \<open>
  The state that all forwarded queries of a process share, \<open>src/internal/dnsserver/upstream.go\<close>: the package variables
  \<open>forwardTracker\<close> and \<open>plaintextFallbacks\<close>, the call \<open>forward\<close> on them, and what \<open>/metrics\<close> reads. With it the
  redirect policies of the two HTTP clients of the program, \<open>refuseRedirect\<close> of the DoH client and \<open>checkRedirect\<close> of the list
  loader, under one model of the client's redirect loop.
\<close>

section \<open>Model\<close>

record up_globals =
  forwardTracker :: upstreamTracker
  plaintextFallbacks :: nat

definition up_start :: up_globals where
  "up_start = \<lparr>forwardTracker = newUpstreamTracker, plaintextFallbacks = 0\<rparr>"

definition TransportFailureCounts :: "upstreamTracker \<Rightarrow> string \<Rightarrow> nat" where
  "TransportFailureCounts t = (\<lambda>ad. ut_transportFailures t ad)"

definition UpstreamTransportFailures :: "up_globals \<Rightarrow> string \<Rightarrow> nat" where
  "UpstreamTransportFailures g = TransportFailureCounts (forwardTracker g)"

definition PlaintextFallbacks :: "up_globals \<Rightarrow> nat" where
  "PlaintextFallbacks g = plaintextFallbacks g"

text \<open>\<open>forward\<close>: its result with the trace of the call, and the shared state after it.\<close>

definition forward :: "unicode \<Rightarrow> dnslib \<Rightarrow> urllib \<Rightarrow> upnet \<Rightarrow> time \<Rightarrow> msg \<Rightarrow> string list \<Rightarrow> up_globals
    \<Rightarrow> ((forward_error + msg) \<times> fwd) \<times> up_globals" where
  "forward U L K N now req ups g =
     (let r = forwardWith U L K N now req ups (forwardTracker g) (plaintextFallbacks g)
      in (r, g\<lparr>forwardTracker := fw_tracker (snd r), plaintextFallbacks := fw_fallbacks (snd r)\<rparr>))"

subsection \<open>Redirects\<close>

text \<open>
  The redirect loop of \<open>net/http\<close>'s client over the targets that the servers name: before each new request it asks the
  policy with the requests sent so far, and an error ends the call. What it returns is the requests sent.
\<close>

fun client_sends :: "('u \<Rightarrow> 'u list \<Rightarrow> 'e option) \<Rightarrow> 'u list \<Rightarrow> 'u list \<Rightarrow> 'u list" where
  "client_sends policy via [] = via"
| "client_sends policy via (t # ts) =
     (case policy t via of Some e \<Rightarrow> via | None \<Rightarrow> client_sends policy (via @ [t]) ts)"

definition errDoHRedirect :: string where
  "errDoHRedirect = ''redirect refused''"

definition refuseRedirect :: "'u \<Rightarrow> 'u list \<Rightarrow> string option" where
  "refuseRedirect req via = Some errDoHRedirect"

section \<open>Lemmas\<close>

text \<open>A POST to a DoH upstream reaches that upstream and no other host, whatever redirects it answers with.\<close>

lemma doh_one_request: "client_sends refuseRedirect [u] targets = [u]"
  by (cases targets) (simp_all add: refuseRedirect_def)

lemma list_client: "sent_requests via targets = client_sends checkRedirect via targets"
  by (induction targets arbitrary: via) (simp_all split: option.split)

text \<open>The number of failed attempts at an upstream that a call's trace holds.\<close>

definition failures_at :: "string \<Rightarrow> fwd \<Rightarrow> nat" where
  "failures_at ad f = count_list (map fst (fw_causes f)) ad"

text \<open>What the counter of an upstream has beyond the failures of the running call.\<close>

definition ahead :: "string \<Rightarrow> fwd \<Rightarrow> fwd \<Rightarrow> bool" where
  "ahead ad f f' \<longleftrightarrow>
     ut_transportFailures (fw_tracker f') ad + failures_at ad f = ut_transportFailures (fw_tracker f) ad + failures_at ad f'"

lemma ahead_refl [simp]: "ahead ad f f"
  by (simp add: ahead_def)

lemma ahead_trans: "ahead ad f f1 \<Longrightarrow> ahead ad f1 f2 \<Longrightarrow> ahead ad f f2"
  by (simp add: ahead_def)

lemma ahead_frame [simp]:
  "ahead ad (f\<lparr>fw_tried := x\<rparr>) f' = ahead ad f f'" "ahead ad (f\<lparr>fw_looks := n\<rparr>) f' = ahead ad f f'"
  by (simp_all add: ahead_def failures_at_def)

lemma attempt_ahead:
  assumes "attempt U L K N ups req up f = (r, f')"
  shows "ahead ad f f'"
  using assms
  by (auto simp: attempt_def ahead_def failures_at_def recordSuccess_def recordFailure_def Let_def
      split: prod.splits sum.splits)

lemma sweep1_ahead: "sweep1 U L K N ups req now us f = (r, f') \<Longrightarrow> ahead ad f f'"
proof (induction us arbitrary: f)
  case (Cons up us)
  show ?case
  proof (cases "un_ctx N (fw_looks f)")
    case None
    let ?f1 = "f\<lparr>fw_looks := fw_looks f + 1\<rparr>"
    show ?thesis
    proof (cases "shouldSkip (fw_tracker ?f1) up now")
      case True
      with Cons.prems None have "sweep1 U L K N ups req now us ?f1 = (r, f')" by simp
      from Cons.IH [OF this] show ?thesis by simp
    next
      case False
      obtain x f2 where a: "attempt U L K N ups req up (?f1\<lparr>fw_tried := up # fw_tried ?f1\<rparr>) = (x, f2)" by fastforce
      have "ahead ad f f2" using attempt_ahead [OF a, of ad] by simp
      moreover have "ahead ad f2 f'"
        using Cons False None a by (cases x) auto
      ultimately show ?thesis by (rule ahead_trans)
    qed
  qed (use Cons.prems in simp)
qed simp

lemma sweep2_ahead: "sweep2 U L K N ups req us f = (r, f') \<Longrightarrow> ahead ad f f'"
proof (induction us arbitrary: f)
  case (Cons up us)
  show ?case
  proof (cases "un_ctx N (fw_looks f)")
    case None
    let ?f1 = "f\<lparr>fw_looks := fw_looks f + 1\<rparr>"
    show ?thesis
    proof (cases "up \<in> set (fw_tried ?f1)")
      case True
      with Cons.prems None have "sweep2 U L K N ups req us ?f1 = (r, f')" by simp
      from Cons.IH [OF this] show ?thesis by simp
    next
      case False
      obtain x f2 where a: "attempt U L K N ups req up ?f1 = (x, f2)" by fastforce
      have "ahead ad f f2" using attempt_ahead [OF a, of ad] by simp
      moreover have "ahead ad f2 f'"
        using Cons False None a by (cases x) auto
      ultimately show ?thesis by (rule ahead_trans)
    qed
  qed (use Cons.prems in simp)
qed simp

lemma forwardWith_counts:
  "ut_transportFailures (fw_tracker (snd (forwardWith U L K N now req ups t n))) ad
     = ut_transportFailures t ad + failures_at ad (snd (forwardWith U L K N now req ups t n))"
proof -
  define f0 where "f0 = \<lparr>fw_tracker = t, fw_fallbacks = n, fw_tried = [], fw_causes = [], fw_looks = 0, fw_asked = [], fw_sent = []\<rparr>"
  obtain r1 f1 where s1: "sweep1 U L K N ups req now ups f0 = (r1, f1)" by fastforce
  obtain r2 f2 where s2: "sweep2 U L K N ups req ups f1 = (r2, f2)" by fastforce
  have "ahead ad f0 f1" "ahead ad f0 f2"
    using sweep1_ahead [OF s1, of ad] sweep2_ahead [OF s2, of ad] ahead_trans by blast+
  moreover have "snd (forwardWith U L K N now req ups t n) = f1 \<or> snd (forwardWith U L K N now req ups t n) = f2"
    using s1 s2 by (auto simp: forwardWith_def Let_def f0_def [symmetric] split: option.split)
  ultimately show ?thesis
    by (auto simp: ahead_def f0_def failures_at_def)
qed

lemma forward_counts:
  "UpstreamTransportFailures (snd (forward U L K N now req ups g)) ad
     = UpstreamTransportFailures g ad + failures_at ad (snd (fst (forward U L K N now req ups g)))"
  by (simp add: UpstreamTransportFailures_def TransportFailureCounts_def forward_def Let_def forwardWith_counts)

text \<open>What a call adds to the count of plaintext fallbacks: one, if a plain upstream answered although the list has a DoH one.\<close>

definition fallback_of :: "string list \<Rightarrow> forward_error + msg \<Rightarrow> fwd \<Rightarrow> nat" where
  "fallback_of ups r f = (case r of
     Inl _ \<Rightarrow> 0
   | Inr _ \<Rightarrow> if list_ex is_https ups \<and> \<not> is_https (last (fw_asked f)) then 1 else 0)"

definition sweep_adds :: "string list \<Rightarrow> (forward_error + msg) option \<Rightarrow> fwd \<Rightarrow> nat" where
  "sweep_adds ups r f = (case r of None \<Rightarrow> 0 | Some x \<Rightarrow> fallback_of ups x f)"

lemma attempt_fallback:
  assumes "attempt U L K N ups req up f = (r, f')"
  shows "fw_fallbacks f' = fw_fallbacks f + (case r of None \<Rightarrow> 0 | Some m \<Rightarrow> fallback_of ups (Inr m) f')"
  using assms
  by (auto simp: attempt_def fallback_of_def countPlaintextFallback_def Let_def split: prod.splits sum.splits)

lemma sweep1_fallback:
  "sweep1 U L K N ups req now us f = (r, f') \<Longrightarrow> fw_fallbacks f' = fw_fallbacks f + sweep_adds ups r f'"
proof (induction us arbitrary: f)
  case (Cons up us)
  then show ?case
    by (auto simp: sweep_adds_def fallback_of_def Let_def split: option.splits prod.splits if_splits
        dest!: attempt_fallback)
qed (simp add: sweep_adds_def)

lemma sweep2_fallback:
  "sweep2 U L K N ups req us f = (r, f') \<Longrightarrow> fw_fallbacks f' = fw_fallbacks f + sweep_adds ups r f'"
proof (induction us arbitrary: f)
  case (Cons up us)
  then show ?case
    by (auto simp: sweep_adds_def fallback_of_def Let_def split: option.splits prod.splits if_splits
        dest!: attempt_fallback)
qed (simp add: sweep_adds_def)

lemma forwardWith_fallback:
  "fw_fallbacks (snd (forwardWith U L K N now req ups t n))
     = n + fallback_of ups (fst (forwardWith U L K N now req ups t n)) (snd (forwardWith U L K N now req ups t n))"
proof -
  define f0 where "f0 = \<lparr>fw_tracker = t, fw_fallbacks = n, fw_tried = [], fw_causes = [], fw_looks = 0, fw_asked = [], fw_sent = []\<rparr>"
  obtain r1 f1 where s1: "sweep1 U L K N ups req now ups f0 = (r1, f1)" by fastforce
  obtain r2 f2 where s2: "sweep2 U L K N ups req ups f1 = (r2, f2)" by fastforce
  have f0n: "fw_fallbacks f0 = n" by (simp add: f0_def)
  show ?thesis
  proof (cases r1)
    case (Some x)
    then show ?thesis
      using s1 sweep1_fallback [OF s1] f0n by (simp add: forwardWith_def Let_def f0_def [symmetric] sweep_adds_def)
  next
    case None
    then show ?thesis
      using s1 s2 sweep1_fallback [OF s1] sweep2_fallback [OF s2] f0n
      by (auto simp: forwardWith_def Let_def f0_def [symmetric] sweep_adds_def fallback_of_def split: option.split)
  qed
qed

lemma forward_fallback:
  "PlaintextFallbacks (snd (forward U L K N now req ups g))
     = PlaintextFallbacks g + fallback_of ups (fst (fst (forward U L K N now req ups g))) (snd (fst (forward U L K N now req ups g)))"
  by (simp add: PlaintextFallbacks_def forward_def Let_def forwardWith_fallback)

text \<open>
  The upstreams that a call asked without an answer: all it asked, but for the last one when the call has an
  answer. They are those of the recorded causes.
\<close>

definition unanswered :: "forward_error + msg \<Rightarrow> fwd \<Rightarrow> string list" where
  "unanswered r f = (case r of Inl _ \<Rightarrow> fw_asked f | Inr _ \<Rightarrow> butlast (fw_asked f))"

definition causes_of :: "(forward_error + msg) option \<Rightarrow> fwd \<Rightarrow> bool" where
  "causes_of r f \<longleftrightarrow> map fst (fw_causes f) = (case r of None \<Rightarrow> fw_asked f | Some x \<Rightarrow> unanswered x f)"

lemma attempt_causes:
  assumes "attempt U L K N ups req up f = (r, f')" "causes_of None f"
  shows "causes_of (map_option Inr r) f'"
  using assms by (auto simp: attempt_def causes_of_def unanswered_def Let_def split: prod.splits sum.splits)

lemma causes_frame [simp]:
  "causes_of None (f\<lparr>fw_tried := x\<rparr>) = causes_of None f" "causes_of None (f\<lparr>fw_looks := n\<rparr>) = causes_of None f"
  by (simp_all add: causes_of_def)

lemma causes_ctx: "causes_of None f \<Longrightarrow> causes_of (Some (Inl e)) f"
  by (simp add: causes_of_def unanswered_def)

lemma sweep1_causes: "sweep1 U L K N ups req now us f = (r, f') \<Longrightarrow> causes_of None f \<Longrightarrow> causes_of r f'"
proof (induction us arbitrary: f)
  case (Cons up us)
  show ?case
  proof (cases "un_ctx N (fw_looks f)")
    case None
    let ?f1 = "f\<lparr>fw_looks := fw_looks f + 1\<rparr>"
    obtain x f2 where a: "attempt U L K N ups req up (?f1\<lparr>fw_tried := up # fw_tried ?f1\<rparr>) = (x, f2)" by fastforce
    have "causes_of (map_option Inr x) f2" using attempt_causes [OF a] Cons.prems(2) by simp
    then show ?thesis using Cons None a by (cases x) (auto simp: Let_def split: if_splits)
  qed (use Cons.prems causes_ctx in auto)
qed simp

lemma sweep2_causes: "sweep2 U L K N ups req us f = (r, f') \<Longrightarrow> causes_of None f \<Longrightarrow> causes_of r f'"
proof (induction us arbitrary: f)
  case (Cons up us)
  show ?case
  proof (cases "un_ctx N (fw_looks f)")
    case None
    let ?f1 = "f\<lparr>fw_looks := fw_looks f + 1\<rparr>"
    obtain x f2 where a: "attempt U L K N ups req up ?f1 = (x, f2)" by fastforce
    have "causes_of (map_option Inr x) f2" using attempt_causes [OF a] Cons.prems(2) by simp
    then show ?thesis using Cons None a by (cases x) (auto simp: Let_def split: if_splits)
  qed (use Cons.prems causes_ctx in auto)
qed simp

lemma forwardWith_causes:
  assumes "forwardWith U L K N now req ups t n = (r, f)"
  shows "map fst (fw_causes f) = unanswered r f"
proof -
  define f0 where "f0 = \<lparr>fw_tracker = t, fw_fallbacks = n, fw_tried = [], fw_causes = [], fw_looks = 0, fw_asked = [], fw_sent = []\<rparr>"
  obtain r1 f1 where s1: "sweep1 U L K N ups req now ups f0 = (r1, f1)" by fastforce
  obtain r2 f2 where s2: "sweep2 U L K N ups req ups f1 = (r2, f2)" by fastforce
  have c: "causes_of r1 f1" using sweep1_causes [OF s1] by (simp add: causes_of_def f0_def)
  show ?thesis
  proof (cases r1)
    case (Some x)
    then show ?thesis using assms s1 c by (simp add: forwardWith_def Let_def f0_def [symmetric] causes_of_def)
  next
    case None
    then show ?thesis using assms s1 s2 c sweep2_causes [OF s2]
      by (auto simp: forwardWith_def Let_def f0_def [symmetric] causes_of_def unanswered_def split: option.splits if_splits)
  qed
qed

section \<open>Properties\<close>

text \<open>
  The count of plaintext fallbacks also grows when no DoH upstream was asked: with a plain upstream first in the list its
  answer is counted at once.
\<close>

lemma plain_first_counted:
  assumes "forwardWith U L K N now req (up # ups) t n = (Inr resp, f)" "fw_asked f = [up]" "\<not> is_https up" "list_ex is_https ups"
  shows "fw_fallbacks f = n + 1"
  using forwardWith_fallback [of U L K N now req "up # ups" t n] assms by (simp add: fallback_of_def)



end
