(* ===== verification/List_Report.thy ===== *)
theory List_Report
  imports List_Loader Redact_Url
begin

text \<open>
  What a list update tells the operator, \<open>src/internal/blocklist/loader.go\<close>: the line of each source, the warnings about a
  list that gave little to block, about a cache that cannot be written and about an empty block set, and the errors of
  the HTTP client with their URLs hidden. The text of an HTTP error is built with \<open>quote\<close>, the \<open>%q\<close> of Go.
\<close>

section \<open>Model\<close>

datatype list_line =
    LoadFailed string load_error             \<comment> \<open>the URL as shown\<close>
  | Loaded string nat origin
  | NoDomains string
  | LinesSkipped string nat nat
  | AllSourcesFailed nat nat
  | ListUpdated nat
  | BlockSetEmpty

definition warnUnreadList :: "urllib \<Rightarrow> string \<Rightarrow> nat \<Rightarrow> nat \<Rightarrow> list_line list" where
  "warnUnreadList K url readn skipped =
     (if readn = 0 \<and> skipped = 0 then [NoDomains (redact_URL K url)]
      else if readn < skipped then [LinesSkipped (redact_URL K url) readn skipped]
      else [])"

definition warnIfEmpty :: "Store \<Rightarrow> list_line list" where
  "warnIfEmpty s = (if Len s = 0 then [BlockSetEmpty] else [])"

text \<open>The lines of the loop of \<open>Update\<close> for one source.\<close>

definition source_lines :: "urllib \<Rightarrow> string \<Rightarrow> load_error + string list \<times> sourceMeta \<Rightarrow> list_line list" where
  "source_lines K u r = (case r of
     Inl err \<Rightarrow> [LoadFailed (redact_URL K u) err]
   | Inr (domains, meta) \<Rightarrow> Loaded (redact_URL K u) (length domains) (sm_from meta) # warnUnreadList K u (length domains) (sm_skipped meta))"

definition update_lines ::
  "unicode \<Rightarrow> pathlib \<Rightarrow> urllib \<Rightarrow> Store \<Rightarrow> disk \<Rightarrow> (fetch_env \<times> string) list \<Rightarrow> string \<Rightarrow> mode \<Rightarrow> list_line list" where
  "update_lines U P K s fs urls dir m =
     (let rs = fetch_results U P dir m fs urls; s' = fst (Update U P s fs urls dir m) in
      concat (map2 (source_lines K) (map snd urls) rs)
      @ (if list_all (\<lambda>r. \<not> result_ok r) rs \<and> urls \<noteq> [] then [AllSourcesFailed (length urls) (Len s')] else [ListUpdated (Len s')])
      @ warnIfEmpty s')"

subsection \<open>Hints and errors\<close>

datatype write_err = NoPermission string | OtherWriteErr string

definition ownerHint :: string where
  "ownerHint = ''The directory or its files belong to another user. '' @
     ''If install-linux.sh installed s-hole, run sudo chown -R s-hole:s-hole /var/lib/s-hole, or run the installer again. '' @
     ''In Docker the image runs as user 65532 since s-hole 2.0: on the host, run sudo chown -R 65532:65532 on the directory that is mounted at /app''"

definition warnCacheWrite :: "string \<Rightarrow> write_err \<Rightarrow> string \<times> write_err \<times> string" where
  "warnCacheWrite dir e = (dir, e, case e of
     NoPermission _ \<Rightarrow> ''the list is used, but the next start downloads it again. '' @ ownerHint
   | OtherWriteErr _ \<Rightarrow> ''the list is used, but the next start downloads it again. Check that s-hole can write to blocking.cache_dir'')"

text \<open>An error as \<open>errors.As\<close> walks it: a \<open>*url.Error\<close>, a wrapper with its text in front, or any other.\<close>

datatype http_err = UrlError string string string | Wrapped string http_err | PlainErr string

fun as_url_error :: "http_err \<Rightarrow> (string \<times> string \<times> string) option" where
  "as_url_error (UrlError op u e) = Some (op, u, e)"
| "as_url_error (Wrapped pre e) = as_url_error e"
| "as_url_error (PlainErr t) = None"

definition redactURLError :: "urllib \<Rightarrow> http_err \<Rightarrow> http_err" where
  "redactURLError K err = (case as_url_error err of
     Some (op, u, e) \<Rightarrow> UrlError op (redact_URL K u) e
   | None \<Rightarrow> err)"

fun err_text :: "(string \<Rightarrow> string) \<Rightarrow> http_err \<Rightarrow> string" where
  "err_text quote (UrlError op u e) = op @ '' '' @ quote u @ '': '' @ e"
| "err_text quote (Wrapped pre e) = pre @ '': '' @ err_text quote e"
| "err_text quote (PlainErr t) = t"

section \<open>Lemmas\<close>

fun err_urls :: "http_err \<Rightarrow> string set" where
  "err_urls (UrlError op u e) = {u}"
| "err_urls (Wrapped pre e) = err_urls e"
| "err_urls (PlainErr t) = {}"

lemma as_url_error_urls: "err_urls err = (case as_url_error err of None \<Rightarrow> {} | Some (op, u, e) \<Rightarrow> {u})"
  by (induction err) simp_all

text \<open>An error of the HTTP client is shown with each of its URLs redacted.\<close>

lemma redactURLError_urls: "err_urls (redactURLError K err) = redact_URL K ` err_urls err"
  by (auto simp: redactURLError_def as_url_error_urls split: option.split)

text \<open>Two errors that differ only in secrets of the URL are shown alike.\<close>

lemma redactURLError_hides:
  assumes "redact_URL K u = redact_URL K v"
  shows "err_text quote (redactURLError K (Wrapped p (UrlError op u e))) = err_text quote (redactURLError K (Wrapped q (UrlError op v e)))"
  using assms by (simp add: redactURLError_def)

lemma source_lines_outcome:
  "(\<exists>e. LoadFailed v e \<in> set (source_lines K u r)) \<longleftrightarrow> v = redact_URL K u \<and> \<not> result_ok r"
  by (cases r) (auto simp: source_lines_def warnUnreadList_def split: prod.splits if_splits)

text \<open>An empty block set is never silent, and the alarm is never false.\<close>

lemma source_lines_quiet: "BlockSetEmpty \<notin> set (source_lines K u r)"
  by (cases r) (auto simp: source_lines_def warnUnreadList_def split: prod.splits if_splits)

lemma update_alarm:
  "BlockSetEmpty \<in> set (update_lines U P K s fs urls dir m) \<longleftrightarrow> Len (fst (Update U P s fs urls dir m)) = 0"
  by (auto simp: update_lines_def Let_def warnIfEmpty_def source_lines_quiet set_zip split: if_splits)

text \<open>A list that failed is named, as redacted, and no other is.\<close>

lemma update_names_failures:
  "(\<exists>e. LoadFailed v e \<in> set (update_lines U P K s fs urls dir m)) \<longleftrightarrow>
     (\<exists>i < length urls. v = redact_URL K (snd (urls ! i)) \<and> \<not> result_ok (fetch_results U P dir m fs urls ! i))"
proof -
  have "(\<exists>e. LoadFailed v e \<in> set (update_lines U P K s fs urls dir m)) \<longleftrightarrow>
      (\<exists>(u, r) \<in> set (zip (map snd urls) (fetch_results U P dir m fs urls)). \<exists>e. LoadFailed v e \<in> set (source_lines K u r))"
    by (auto simp: update_lines_def Let_def warnIfEmpty_def split: if_splits)
  then show ?thesis
    by (force simp: source_lines_outcome set_zip)
qed

text \<open>The two ends of \<open>Update\<close> are told apart: the line about all sources is written exactly with the error.\<close>

lemma update_failed_line:
  "(\<exists>a b. AllSourcesFailed a b \<in> set (update_lines U P K s fs urls dir m)) \<longleftrightarrow> snd (snd (Update U P s fs urls dir m)) \<noteq> None"
proof -
  have q: "AllSourcesFailed a b \<notin> set (source_lines K u r)" for a b u r
    by (cases r) (auto simp: source_lines_def warnUnreadList_def split: prod.splits if_splits)
  let ?rs = "fetch_results U P dir m fs urls"
  have "filter result_ok ?rs = [] \<longleftrightarrow> list_all (\<lambda>r. \<not> result_ok r) ?rs"
    by (simp add: filter_empty_conv list_all_iff)
  moreover have "urls \<noteq> [] \<Longrightarrow> list_all (\<lambda>r. \<not> result_ok r) ?rs \<Longrightarrow> \<not> list_all result_ok ?rs"
    using length_fetch_results [of U P dir m fs urls] by (cases ?rs) auto
  ultimately show ?thesis
    using update_lastErr [of U P dir m urls "\<lparr>up_all = [], up_ok = 0, up_lastErr = None, up_sources = [], up_disk = fs\<rparr>"]
    by (auto simp: update_lines_def Update_def Let_def update_fold warnIfEmpty_def q set_zip split: if_splits)
qed

end
