(* ===== verification/Background.thy ===== *)
theory Background
  imports Process_Life Log_Out Response_Cache Host_Report Db_Open Config_Load
begin

text \<open>
  The periodic and the one-time tasks around the running program: the tickers of \<open>src/cmd/s-hole/main.go\<close>
  (\<open>runTicker\<close>, \<open>runTickerOnce\<close>), the signal loop with \<open>signals_unix.go\<close> and \<open>signals_windows.go\<close>, the choice of
  the log output (\<open>setupLogger\<close>), the file modes (\<open>umask_unix.go\<close>, \<open>OpenPrivateFile\<close>), the close of the log file and
  the version text (\<open>src/internal/version/version.go\<close>). The locale \<open>periodic\<close> is the loop that a ticker and the sweep of the
  response cache share: act on each tick until told to stop.
\<close>

unbundle bit_operations_syntax

section \<open>Model\<close>

subsection \<open>Tickers\<close>

datatype 'w tick = Fired 'w | Ctx_done

text \<open>A function that a ticker calls changes the state and may panic; a panic is the text it carries.\<close>

type_synonym ('w, 's) job = "'w \<Rightarrow> 's \<Rightarrow> 's \<times> string option"

text \<open>The second component of the state is the panics that were recovered and logged.\<close>

definition runTickerOnce :: "('w, 's) job \<Rightarrow> 'w \<Rightarrow> 's \<times> string list \<Rightarrow> 's \<times> string list" where
  "runTickerOnce fn w st = (case fn w (fst st) of
     (s, None) \<Rightarrow> (s, snd st)
   | (s, Some r) \<Rightarrow> (s, snd st @ [r]))"

fun runTicker :: "('w, 's) job \<Rightarrow> 'w tick list \<Rightarrow> 's \<times> string list \<Rightarrow> 's \<times> string list" where
  "runTicker fn [] st = st"
| "runTicker fn (Ctx_done # evs) st = st"
| "runTicker fn (Fired w # evs) st = runTicker fn evs (runTickerOnce fn w st)"

text \<open>The two jobs of \<open>main\<close>: the stats line with the privacy lines, and the reload by the timer.\<close>

definition stats_job :: "(int \<Rightarrow> string) \<Rightarrow> (u64 \<times> u64, privacyReport \<times> string list list) job" where
  "stats_job date w s =
     (case logPeriodic date (fst w) (snd w) (fst s) of (p, items) \<Rightarrow> ((p, snd s @ [items]), None))"

definition reload_job :: "(unit, gate \<times> nat) job" where
  "reload_job w s = (case reload_fn (fst s) of (g, begun) \<Rightarrow> ((g, snd s + (if begun then 1 else 0)), None))"

subsection \<open>Signals\<close>

datatype os_signal = SIGINT | SIGTERM | SIGHUP

definition reloadSignals :: "bool \<Rightarrow> os_signal list" where
  "reloadSignals windows = (if windows then [] else [SIGHUP])"

definition isReloadSignal :: "bool \<Rightarrow> os_signal \<Rightarrow> bool" where
  "isReloadSignal windows s = (if windows then False else s = SIGHUP)"

text \<open>The signals that \<open>signal.Notify\<close> sends to the channel; another keeps its default effect.\<close>

definition notified :: "bool \<Rightarrow> os_signal list" where
  "notified windows = [SIGINT, SIGTERM] @ reloadSignals windows"

datatype signal_call = Call_reload | Call_doStop

fun signal_loop :: "bool \<Rightarrow> os_signal list \<Rightarrow> signal_call list" where
  "signal_loop windows [] = []"
| "signal_loop windows (s # ss) =
     (if isReloadSignal windows s then Call_reload # signal_loop windows ss else [Call_doStop])"

subsection \<open>The log output\<close>

datatype default_logger = To_event_log slog_handler | To_stdout handler_kind

definition IsWindowsService :: "bool \<Rightarrow> bool \<Rightarrow> bool" where
  "IsWindowsService windows scm = (windows \<and> scm)"

definition newEventLogHandler :: slog_handler where
  "newEventLogHandler = newHandler False Drop_time_level []"

definition errNotSupported :: string where
  "errNotSupported = ''service management is only supported on Windows. Use systemd on Linux''"

definition NewEventLogHandler :: "bool \<Rightarrow> string option \<Rightarrow> string + slog_handler" where
  "NewEventLogHandler windows open_err =
     (if \<not> windows then Inl errNotSupported
      else (case open_err of Some e \<Rightarrow> Inl e | None \<Rightarrow> Inr newEventLogHandler))"

definition StdoutIsJournal :: "bool \<Rightarrow> string \<Rightarrow> (int \<times> int) option \<Rightarrow> bool" where
  "StdoutIsJournal windows env stat = (if windows then False else streamMatches env stat)"

text \<open>\<open>fmt\<close> is \<open>S_HOLE_LOG_FORMAT\<close>, \<open>env\<close> is \<open>JOURNAL_STREAM\<close> and \<open>stat\<close> the device and inode of standard output.\<close>

definition setupLogger :: "bool \<Rightarrow> bool \<Rightarrow> string option \<Rightarrow> string \<Rightarrow> string \<Rightarrow> (int \<times> int) option \<Rightarrow> default_logger" where
  "setupLogger windows scm open_err fmt env stat =
     (let out = To_stdout (NewStdoutHandler (fmt = ''json'') (StdoutIsJournal windows env stat)) in
      if IsWindowsService windows scm
      then (case NewEventLogHandler windows open_err of Inr h \<Rightarrow> To_event_log h | Inl _ \<Rightarrow> out)
      else out)"

text \<open>\<open>logConfigProblems\<close>: a line for each problem, as its key and detail.\<close>

definition logConfigProblems :: "Problem list \<Rightarrow> (string \<times> string) list" where
  "logConfigProblems problems = map (\<lambda>p. (pr_Key p, pr_Detail p)) problems"

subsection \<open>File modes\<close>

definition restrictUmask :: "bool \<Rightarrow> nat \<Rightarrow> nat" where
  "restrictUmask windows old = (if windows then old else 63)"   \<comment> \<open>077 in octal\<close>

text \<open>What the system gives a file that is created with a mode under a umask.\<close>

definition created_mode :: "nat \<Rightarrow> nat \<Rightarrow> nat" where
  "created_mode umask m = nat (int m AND NOT (int umask))"

definition others_bits :: "nat \<Rightarrow> nat" where
  "others_bits m = nat (int m AND 63)"

definition OpenPrivateFile :: "string option \<Rightarrow> string option \<Rightarrow> nat \<Rightarrow> string \<Rightarrow> modes \<Rightarrow> modes \<times> string option" where
  "OpenPrivateFile open_err chmod_err umask path m = (case open_err of
     Some e \<Rightarrow> (m, Some e)
   | None \<Rightarrow>
       let m1 = (if m path = None then m(path \<mapsto> created_mode umask ownerOnly) else m) in
       (if chmod_err = None then m1(path \<mapsto> ownerOnly) else m1, None))"

subsection \<open>The log file\<close>

definition FileLogger_Dropped :: "FileLogger \<Rightarrow> nat" where
  "FileLogger_Dropped l = fl_dropped l"

text \<open>\<open>None\<close>: the panic of a second call. \<open>oks\<close> are the writes of the queued lines, \<open>cerr\<close> the error of closing the file.\<close>

definition FileLogger_Close :: "bool list \<Rightarrow> string option \<Rightarrow> FileLogger \<Rightarrow> (FileLogger \<times> string option) option" where
  "FileLogger_Close oks cerr l =
     (if fl_done l then None
      else Some (file_step (\<lambda>t. []) (FClose oks) l, if fl_stdout l then None else cerr))"

subsection \<open>The version\<close>

record Info =
  vi_Version :: string
  vi_Commit :: string
  vi_BuildDate :: string

definition source_build :: Info where
  "source_build = \<lparr>vi_Version = ''dev'', vi_Commit = ''unknown'', vi_BuildDate = ''unknown''\<rparr>"

definition version_Short :: "Info \<Rightarrow> Info" where
  "version_Short b = \<lparr>vi_Version = vi_Version b, vi_Commit = vi_Commit b, vi_BuildDate = vi_BuildDate b\<rparr>"

definition line_end :: char where "line_end = CHR 0x0A"

definition version_String :: "string \<Rightarrow> string \<Rightarrow> string \<Rightarrow> Info \<Rightarrow> string" where
  "version_String goVersion goos goarch b =
     ''s-hole '' @ vi_Version b @ [line_end] @ ''  commit:  '' @ vi_Commit b @ [line_end] @ ''  built:   '' @ vi_BuildDate b
     @ [line_end] @ ''  go:      '' @ goVersion @ [line_end] @ ''  os/arch: '' @ goos @ ''/'' @ goarch"

section \<open>The interface of a periodic loop\<close>

locale periodic =
  fixes loop :: "'e list \<Rightarrow> 's \<Rightarrow> 's" and halts :: "'e \<Rightarrow> bool" and act :: "'e \<Rightarrow> 's \<Rightarrow> 's"
  assumes loop_nil: "loop [] s = s"
    and loop_halt: "halts e \<Longrightarrow> loop (e # evs) s = s"
    and loop_act: "\<not> halts e \<Longrightarrow> loop (e # evs) s = loop evs (act e s)"
begin

lemma loop_fold: "loop evs s = fold act (takeWhile (\<lambda>e. \<not> halts e) evs) s"
  by (induction evs arbitrary: s) (auto simp: loop_nil loop_halt loop_act)

lemma nothing_after: "halts e \<Longrightarrow> loop (xs @ e # ys) s = loop xs s"
  by (simp add: loop_fold takeWhile_tail)

lemma loop_keeps:
  assumes "\<And>e s. P s \<Longrightarrow> P (act e s)" "P s"
  shows "P (loop evs s)"
  using assms(2)
proof (induction evs arbitrary: s)
  case (Cons e evs)
  then show ?case by (cases "halts e") (simp_all add: loop_halt loop_act assms(1))
qed (simp add: loop_nil)

end

fun is_ctx_done :: "'w tick \<Rightarrow> bool" where
  "is_ctx_done Ctx_done = True"
| "is_ctx_done (Fired w) = False"

fun tick_act :: "('w, 's) job \<Rightarrow> 'w tick \<Rightarrow> 's \<times> string list \<Rightarrow> 's \<times> string list" where
  "tick_act fn (Fired w) st = runTickerOnce fn w st"
| "tick_act fn Ctx_done st = st"

interpretation ticker: periodic "runTicker fn" is_ctx_done "tick_act fn"
proof
  fix e :: "'a tick" and evs st
  show "is_ctx_done e \<Longrightarrow> runTicker fn (e # evs) st = st" by (cases e) simp_all
  show "\<not> is_ctx_done e \<Longrightarrow> runTicker fn (e # evs) st = runTicker fn evs (tick_act fn e st)" by (cases e) simp_all
qed simp

fun sweep_act :: "cleanup_event \<Rightarrow> Cache \<Rightarrow> Cache" where
  "sweep_act (Tick now) c = fst (cleanupExpired c now)"
| "sweep_act StopRecv c = c"

interpretation sweeper: periodic "\<lambda>evs c. runCleanup c evs" "\<lambda>e. e = StopRecv" sweep_act
proof
  fix e evs c
  show "e = StopRecv \<Longrightarrow> runCleanup c (e # evs) = c" by simp
  show "e \<noteq> StopRecv \<Longrightarrow> runCleanup c (e # evs) = runCleanup (sweep_act e c) evs" by (cases e) simp_all
qed simp

section \<open>Lemmas\<close>

text \<open>A panic does not stop a ticker: the job runs on every tick before the cancel, and each panic is logged, in order.\<close>

fun panics :: "('w, 's) job \<Rightarrow> 'w list \<Rightarrow> 's \<Rightarrow> string list" where
  "panics fn [] s = []"
| "panics fn (w # ws) s = (case fn w s of (s', p) \<Rightarrow> (case p of None \<Rightarrow> [] | Some r \<Rightarrow> [r]) @ panics fn ws s')"

lemma ticker_runs_all:
  "runTicker fn (map Fired ws @ Ctx_done # evs) (s, logged) = (fold (\<lambda>w s. fst (fn w s)) ws s, logged @ panics fn ws s)"
proof -
  have "runTicker fn (map Fired ws) (s, logged) = (fold (\<lambda>w s. fst (fn w s)) ws s, logged @ panics fn ws s)"
    by (induction ws arbitrary: s logged) (auto simp: runTickerOnce_def split: prod.split option.split)
  then show ?thesis by (simp add: ticker.nothing_after)
qed

text \<open>The sweep of the response cache keeps the cache's invariant for as long as it runs.\<close>

lemma sweeper_keeps: "cache_inv c \<Longrightarrow> cache_inv (runCleanup c evs)"
proof (rule sweeper.loop_keeps [where P = cache_inv])
  show "cache_inv (sweep_act e c)" if "cache_inv c" for e c
    using that by (cases e) (simp_all add: cache_inv_cleanup)
qed

text \<open>The signal loop stops the process at most once, at the first signal that is not one for a reload, and reloads before.\<close>

lemma signal_calls:
  "signal_loop windows ss = map (\<lambda>_. Call_reload) (takeWhile (isReloadSignal windows) ss)
     @ (if list_all (isReloadSignal windows) ss then [] else [Call_doStop])"
  by (induction ss) simp_all

lemma windows_signals: "signal_loop True (s # ss) = [Call_doStop]"
  by (simp add: isReloadSignal_def)

lemma reload_signals_notified: "s \<in> set (notified windows) \<and> isReloadSignal windows s \<longleftrightarrow> s \<in> set (reloadSignals windows)"
  by (auto simp: notified_def reloadSignals_def isReloadSignal_def)

text \<open>The process never is without a log output: it is the event log only in a service that could open it.\<close>

lemma setupLogger_event_log:
  "setupLogger windows scm open_err fmt env stat = To_event_log h \<longleftrightarrow> windows \<and> scm \<and> open_err = None \<and> h = newEventLogHandler"
  by (auto simp: setupLogger_def IsWindowsService_def NewEventLogHandler_def Let_def split: option.split sum.split)

text \<open>Under the umask of the start no file is readable by another account, whatever mode it is created with.\<close>

lemma umask_private: "others_bits (created_mode (restrictUmask False old) m) = 0"
proof -
  have "0 \<le> int m AND NOT 63" by simp
  moreover have "(int m AND NOT 63) AND 63 = 0" by (simp add: and.assoc)
  ultimately show ?thesis by (simp add: others_bits_def created_mode_def restrictUmask_def)
qed

lemma ownerOnly_private: "others_bits ownerOnly = 0"
  by (simp add: others_bits_def ownerOnly_def)

lemma OpenPrivateFile_private:
  assumes "OpenPrivateFile None chmod_err (restrictUmask False old) path m = (m', None)" "m path = None \<or> chmod_err = None"
  shows "\<exists>x. m' path = Some x \<and> others_bits x = 0"
  using assms umask_private [of old ownerOnly] ownerOnly_private
  by (auto simp: OpenPrivateFile_def Let_def split: if_splits)

lemma Close_writes_queue:
  assumes "\<not> fl_done l" "FileLogger_Close oks cerr l = Some (l', e)" "\<forall>b \<in> set oks. b"
  shows "fl_written l' = fl_written l @ fl_ch l \<and> fl_ch l' = [] \<and> FileLogger_Close oks' cerr' l' = None"
proof -
  have "write_lines oks xs = xs" for xs
    using assms(3) by (induction oks xs rule: write_lines.induct) auto
  with assms(1,2) show ?thesis by (auto simp: FileLogger_Close_def)
qed

text \<open>Two builds with the same version text are the same build.\<close>

lemma line_unique: "c \<notin> set xs \<Longrightarrow> c \<notin> set ys \<Longrightarrow> xs @ c # as = ys @ c # bs \<Longrightarrow> xs = ys \<and> as = bs"
proof (induction xs arbitrary: ys)
  case Nil
  then show ?case by (cases ys) auto
next
  case (Cons x xs)
  then show ?case by (cases ys) auto
qed

definition one_line_build :: "Info \<Rightarrow> bool" where
  "one_line_build b \<longleftrightarrow> line_end \<notin> set (vi_Version b) \<and> line_end \<notin> set (vi_Commit b) \<and> line_end \<notin> set (vi_BuildDate b)"

lemma version_identifies:
  assumes "one_line_build a" "one_line_build b" "version_String gv os ar a = version_String gv os ar b"
  shows "version_Short a = version_Short b"
proof -
  note [simp] = one_line_build_def version_String_def
  have 1: "vi_Version a = vi_Version b" and "vi_Commit a @ line_end # ''  built:   '' @ vi_BuildDate a @ line_end # ''  go:      '' @ gv @ line_end # ''  os/arch: '' @ os @ ''/'' @ ar
      = vi_Commit b @ line_end # ''  built:   '' @ vi_BuildDate b @ line_end # ''  go:      '' @ gv @ line_end # ''  os/arch: '' @ os @ ''/'' @ ar"
    using assms by (auto dest!: line_unique [rotated 2])
  then show ?thesis
    using assms(1,2) by (auto simp: version_Short_def dest!: line_unique [rotated 2])
qed

end
