(* ===== verification/Lint_Ast.thy ===== *)
theory Lint_Ast
  imports Go_Prelude
begin

text \<open>
  The syntax trees that the privacy lint reads (\<open>internal/privacylint\<close>), with the type
  information of \<open>go/types\<close>, and the helpers that its rules share (the end of
  \<open>privacylint.go\<close>). A node is a value of the datatype \<open>node\<close>: one constructor for each kind
  of node that the lint looks at and \<open>AstNode\<close> for every other kind. The lint uses a node's pointer
  as a map key, so a node has an identity (\<open>nid\<close>), beside the positions that \<open>Pos\<close> and \<open>End\<close>
  return. The parser and the type checker are not part of the program: the tree and the
  record \<open>info\<close> are what they hand over, arguments of every definition here.

  \<open>nodes\<close> is the order in which \<open>ast.Inspect\<close> calls its function when that function always
  returns true: a node before its children, children from left to right. Comments are not
  nodes here; the lint reads them from \<open>File.Comments\<close>.
\<close>

section \<open>Syntax trees\<close>

record hdr =
  nid :: nat       \<comment> \<open>the identity of the node\<close>
  n_Pos :: nat     \<comment> \<open>\<open>Pos()\<close>\<close>
  n_End :: nat     \<comment> \<open>\<open>End()\<close>\<close>

datatype lit_kind = INT_LIT | FLOAT_LIT | IMAG_LIT | CHAR_LIT | STRING_LIT

datatype ast_kind =
  ReturnStmt | DeclStmt | SendStmt | GoStmt | DeferStmt | IncDecStmt | GenDecl | OtherNode

datatype node =
    Ident hdr string
  | BasicLit hdr lit_kind string
  | CompositeLit hdr "node option" "node list"
  | ParenExpr hdr node
  | SelectorExpr hdr node hdr string
  | IndexExpr hdr node node
  | IndexListExpr hdr node "node list"
  | TypeAssertExpr hdr node "node option"
  | CallExpr hdr node "node list"
  | StarExpr hdr node
  | KeyValueExpr hdr node node
  | StructType hdr node
  | FieldList hdr "node list"
  | Field hdr "(hdr \<times> string) list" "node option" "node option"
  | ValueSpec hdr "(hdr \<times> string) list" "node option" "node list"
  | AssignStmt hdr "node list" "node list"
  | ExprStmt hdr node
  | TypeSwitchStmt hdr "node option" node node
  | FuncDecl hdr "nat option" "node option" hdr string node "node option"
  | AstNode hdr ast_kind "node list"

fun hdr_of :: "node \<Rightarrow> hdr" where
  "hdr_of (Ident h _) = h"
| "hdr_of (BasicLit h _ _) = h"
| "hdr_of (CompositeLit h _ _) = h"
| "hdr_of (ParenExpr h _) = h"
| "hdr_of (SelectorExpr h _ _ _) = h"
| "hdr_of (IndexExpr h _ _) = h"
| "hdr_of (IndexListExpr h _ _) = h"
| "hdr_of (TypeAssertExpr h _ _) = h"
| "hdr_of (CallExpr h _ _) = h"
| "hdr_of (StarExpr h _) = h"
| "hdr_of (KeyValueExpr h _ _) = h"
| "hdr_of (StructType h _) = h"
| "hdr_of (FieldList h _) = h"
| "hdr_of (Field h _ _ _) = h"
| "hdr_of (ValueSpec h _ _ _) = h"
| "hdr_of (AssignStmt h _ _) = h"
| "hdr_of (ExprStmt h _) = h"
| "hdr_of (TypeSwitchStmt h _ _ _) = h"
| "hdr_of (FuncDecl h _ _ _ _ _ _) = h"
| "hdr_of (AstNode h _ _) = h"

definition idents :: "(hdr \<times> string) list \<Rightarrow> node list" where
  "idents = map (\<lambda>(h, s). Ident h s)"

fun opt_list :: "'a option \<Rightarrow> 'a list" where
  "opt_list None = []"
| "opt_list (Some x) = [x]"

text \<open>The children of a node in the order of \<open>ast.Walk\<close>.\<close>

fun children :: "node \<Rightarrow> node list" where
  "children (Ident _ _) = []"
| "children (BasicLit _ _ _) = []"
| "children (CompositeLit _ t es) = opt_list t @ es"
| "children (ParenExpr _ x) = [x]"
| "children (SelectorExpr _ x sh s) = [x, Ident sh s]"
| "children (IndexExpr _ x i) = [x, i]"
| "children (IndexListExpr _ x is) = x # is"
| "children (TypeAssertExpr _ x t) = x # opt_list t"
| "children (CallExpr _ f args) = f # args"
| "children (StarExpr _ x) = [x]"
| "children (KeyValueExpr _ k v) = [k, v]"
| "children (StructType _ fs) = [fs]"
| "children (FieldList _ fs) = fs"
| "children (Field _ ns t tag) = idents ns @ opt_list t @ opt_list tag"
| "children (ValueSpec _ ns t vs) = idents ns @ opt_list t @ vs"
| "children (AssignStmt _ l r) = l @ r"
| "children (ExprStmt _ x) = [x]"
| "children (TypeSwitchStmt _ i a b) = opt_list i @ [a, b]"
| "children (FuncDecl _ _ r nh s t b) = opt_list r @ [Ident nh s, t] @ opt_list b"
| "children (AstNode _ _ ns) = ns"

lemma opt_list_size [simp]: "x \<in> set (opt_list t) \<longleftrightarrow> t = Some x"
  by (cases t) auto

lemma size_mem: "x \<in> set xs \<Longrightarrow> size x < Suc (size_list size xs)"
  by (induction xs) auto

lemma children_smaller: "c \<in> set (children n) \<Longrightarrow> size c < size n"
  by (cases n) (auto simp: idents_def dest: size_mem)

function nodes :: "node \<Rightarrow> node list" where
  "nodes n = n # concat (map nodes (children n))"
  by pat_completeness auto
termination
  by (relation "measure size") (auto simp: children_smaller)

declare nodes.simps [simp del]

text \<open>A comment group has an identity too: a function declaration names its doc comment by it.\<close>

record comment =
  c_Pos :: nat
  c_Text :: string

record comment_group =
  cg_id :: nat
  cg_List :: "comment list"

record ast_file =
  af_hdr :: hdr
  af_Name :: "hdr \<times> string"
  af_Decls :: "node list"
  af_Comments :: "comment_group list"

definition file_nodes :: "ast_file \<Rightarrow> node list" where
  "file_nodes F = nodes (AstNode (af_hdr F) OtherNode (idents [af_Name F] @ af_Decls F))"

section \<open>Type information\<close>

datatype ty = Named "string option" string | Pointer ty | Alias ty | OtherTy

record signature =
  sig_Recv :: bool
  sig_Params :: nat
  sig_Results :: "ty list"

record func =
  fn_Name :: string
  fn_FullName :: string
  fn_Type :: signature

datatype obj = FuncObj func | VarObj "string option" string | BuiltinObj string | OtherObj

record selection =
  sel_Obj :: obj
  sel_Recv :: ty

text \<open>\<open>types.Info\<close>: the maps keyed by identities, and \<open>TypeOf\<close>.\<close>

record info =
  Uses :: "nat \<Rightarrow> obj option"
  Defs :: "nat \<Rightarrow> obj option"
  Selections :: "nat \<Rightarrow> selection option"
  TypeOf :: "nat \<Rightarrow> ty option"

fun Unalias :: "ty \<Rightarrow> ty" where
  "Unalias (Alias t) = Unalias t"
| "Unalias t = t"

fun Unparen :: "node \<Rightarrow> node" where
  "Unparen (ParenExpr _ x) = Unparen x"
| "Unparen n = n"

section \<open>The helpers for the rules\<close>

fun as_func :: "obj option \<Rightarrow> func option" where
  "as_func (Some (FuncObj f)) = Some f"
| "as_func _ = None"

fun funcOf :: "info \<Rightarrow> node \<Rightarrow> func option" where
  "funcOf I (Ident h _) = as_func (Uses I (nid h))"
| "funcOf I (SelectorExpr h _ sh _) =
     (case Selections I (nid h) of
        Some s \<Rightarrow> as_func (Some (sel_Obj s))
      | None \<Rightarrow> as_func (Uses I (nid sh)))"
| "funcOf I (IndexExpr _ x _) = funcOf I x"
| "funcOf I (IndexListExpr _ x _) = funcOf I x"
| "funcOf I _ = None"

text \<open>The argument is the \<open>Fun\<close> of the call.\<close>

definition calleeFunc :: "info \<Rightarrow> node \<Rightarrow> func option" where
  "calleeFunc I fn = funcOf I (Unparen fn)"

definition calleeName :: "info \<Rightarrow> node \<Rightarrow> string" where
  "calleeName I fn = (case calleeFunc I fn of Some f \<Rightarrow> fn_FullName f | None \<Rightarrow> [])"

definition typeName :: "ty option \<Rightarrow> string" where
  "typeName t =
     (case t of
        None \<Rightarrow> []
      | Some t \<Rightarrow>
          (case Unalias t of
             Named (Some path) name \<Rightarrow> path @ ''.'' @ name
           | _ \<Rightarrow> []))"

definition derefName :: "ty \<Rightarrow> string" where
  "derefName t = (case Unalias t of Pointer e \<Rightarrow> typeName (Some e) | _ \<Rightarrow> typeName (Some t))"

definition isBuiltinNew :: "info \<Rightarrow> node \<Rightarrow> bool" where
  "isBuiltinNew I fn =
     (case Unparen fn of
        Ident h _ \<Rightarrow> (case Uses I (nid h) of Some (BuiltinObj b) \<Rightarrow> b = ''new'' | _ \<Rightarrow> False)
      | _ \<Rightarrow> False)"

text \<open>
  \<open>containsCall\<close> stops descending once it found the call. What it skips then cannot change
  the result.
\<close>

definition is_call_of :: "info \<Rightarrow> string \<Rightarrow> node \<Rightarrow> bool" where
  "is_call_of I name n = (case n of CallExpr _ fn _ \<Rightarrow> calleeName I fn = name | _ \<Rightarrow> False)"

definition containsCall :: "info \<Rightarrow> node \<Rightarrow> string \<Rightarrow> bool" where
  "containsCall I e name = list_ex (is_call_of I name) (nodes e)"

section \<open>A pass of one rule over one file\<close>

record rule_head =
  r_ID :: string
  r_Policy :: string

record rawFinding =
  rf_line :: nat
  rf_rule :: string
  rf_msg :: string

text \<open>
  \<open>p_line\<close> is \<open>fset.Position(pos).Line\<close>, \<open>p_sources\<close> the unit's \<open>sources\<close>. \<open>p_Unquote\<close> is
  \<open>strconv.Unquote\<close>, which gives no value for a text that is not a Go literal.
\<close>

record lint_pass =
  p_line :: "nat \<Rightarrow> nat"
  p_info :: info
  p_sources :: "string list"
  p_ast :: ast_file
  p_Unquote :: "string \<Rightarrow> string option"
  p_rule :: rule_head

record Rule = rule_head +
  r_check :: "lint_pass \<Rightarrow> rawFinding list"

definition report :: "lint_pass \<Rightarrow> node \<Rightarrow> string \<Rightarrow> rawFinding" where
  "report p n msg =
     \<lparr>rf_line = p_line p (n_Pos (hdr_of n)), rf_rule = r_ID (p_rule p),
      rf_msg = msg @ '' Policy: '' @ r_Policy (p_rule p) @ ''.''\<rparr>"

definition setOf :: "string list \<Rightarrow> string \<Rightarrow> bool" where
  "setOf names n = (n \<in> set names)"

fun field_Type :: "node \<Rightarrow> node option" where
  "field_Type (Field _ _ t _) = t"
| "field_Type _ = None"

definition expr_type :: "info \<Rightarrow> node option \<Rightarrow> ty option" where
  "expr_type I e = (case e of Some e \<Rightarrow> TypeOf I (nid (hdr_of e)) | None \<Rightarrow> None)"

text \<open>
  The places where one node makes a value of a named type of the set: the node to report, the
  name of the type and how the value is made.
\<close>

fun makes :: "info \<Rightarrow> (string \<Rightarrow> bool) \<Rightarrow> node \<Rightarrow> (node \<times> string \<times> string) list" where
  "makes I S (CompositeLit h t es) =
     (let name = typeName (TypeOf I (nid h)) in
      if S name then [(CompositeLit h t es, name, ''a composite literal'')] else [])"
| "makes I S (CallExpr h fn args) =
     (if isBuiltinNew I fn \<and> length args = 1 then
        (let name = typeName (expr_type I (Some (hd args))) in
         if S name then [(CallExpr h fn args, name, ''new'')] else [])
      else [])"
| "makes I S (ValueSpec h ns (Some t) vs) =
     (if vs = [] then
        (let name = typeName (expr_type I (Some t)) in
         if S name then [(ValueSpec h ns (Some t) vs, name, ''a var declaration'')] else [])
      else [])"
| "makes I S (StructType h fs) =
     concat (map (\<lambda>f. let name = typeName (expr_type I (field_Type f)) in
                        if S name then [(f, name, ''a struct field'')] else []) (children fs))"
| "makes I S _ = []"

definition constructions ::
  "lint_pass \<Rightarrow> (string \<Rightarrow> bool) \<Rightarrow> (node \<Rightarrow> string \<Rightarrow> string \<Rightarrow> rawFinding list) \<Rightarrow> rawFinding list"
where
  "constructions p S fn =
     concat (map (\<lambda>n. concat (map (\<lambda>(m, name, how). fn m name how) (makes (p_info p) S n)))
               (file_nodes (p_ast p)))"

section \<open>Lemmas\<close>

text \<open>\<open>nodes\<close> reaches every node below a node: the node itself and whatever its children reach.\<close>

lemma nodes_iff: "m \<in> set (nodes n) \<longleftrightarrow> m = n \<or> (\<exists>c\<in>set (children n). m \<in> set (nodes c))"
  by (subst nodes.simps) auto

lemma nodes_self [simp]: "n \<in> set (nodes n)"
  by (subst nodes.simps) simp

lemma nodes_child: "m \<in> set (nodes n) \<Longrightarrow> c \<in> set (children m) \<Longrightarrow> c \<in> set (nodes n)"
proof (induction n rule: nodes.induct)
  case (1 n)
  show ?case
  proof (cases "m = n")
    case True
    with 1(3) show ?thesis
      by (metis nodes_iff nodes_self)
  next
    case False
    with 1(2) obtain d where "d \<in> set (children n)" "m \<in> set (nodes d)"
      by (auto simp: nodes_iff [of m n])
    with 1(1,3) show ?thesis
      by (metis nodes_iff)
  qed
qed

lemma nodes_trans: "m \<in> set (nodes n) \<Longrightarrow> k \<in> set (nodes m) \<Longrightarrow> k \<in> set (nodes n)"
proof (induction m rule: nodes.induct)
  case (1 m)
  from 1(3) consider "k = m" | c where "c \<in> set (children m)" "k \<in> set (nodes c)"
    by (auto simp: nodes_iff [of k m])
  then show ?case
  proof cases
    case 1
    with \<open>m \<in> set (nodes n)\<close> show ?thesis by simp
  next
    case (2 c)
    with 1 nodes_child show ?thesis by blast
  qed
qed

lemma file_nodes_child:
  "m \<in> set (file_nodes F) \<Longrightarrow> c \<in> set (children m) \<Longrightarrow> c \<in> set (file_nodes F)"
  by (auto simp: file_nodes_def intro: nodes_child)

lemma rf_rule_report [simp]: "rf_rule (report p n msg) = r_ID (p_rule p)"
  by (simp add: report_def)

lemma rf_line_report [simp]: "rf_line (report p n msg) = p_line p (n_Pos (hdr_of n))"
  by (simp add: report_def)

lemma constructions_iff:
  "rf \<in> set (constructions p S fn) \<longleftrightarrow>
     (\<exists>n\<in>set (file_nodes (p_ast p)). \<exists>m name how.
        (m, name, how) \<in> set (makes (p_info p) S n) \<and> rf \<in> set (fn m name how))"
  by (fastforce simp: constructions_def)

end
