(* ===== verification/Lint_Metrics.thy ===== *)
theory Lint_Metrics
  imports Lint_Ast
begin

text \<open>
  The metric-labels rule (\<open>rule_metrics.go\<close>). The two regular expressions of the code are
  written out as scanners: each has one way to match at a position, because the characters
  of a repetition never include the character that follows it. \<open>find_all\<close> is
  \<open>FindAllStringSubmatchIndex\<close> over such a scanner: leftmost matches, none overlapping the one
  before. All positions are byte offsets.

  The lemmas show that \<open>labelValue\<close> stays inside the label set, and that \<open>verbArgs\<close> gives
  each format verb the operand that package \<open>fmt\<close> gives it, for every format without explicit
  argument indexes. With an explicit index the numbering of the later verbs differs.
\<close>

section \<open>The regular expressions\<close>

definition word_char :: "char \<Rightarrow> bool" where
  "word_char c \<longleftrightarrow> is_upper c \<or> is_lower c \<or> is_digit c \<or> c = CHR ''_''"

definition key_start :: "char \<Rightarrow> bool" where
  "key_start c \<longleftrightarrow> is_upper c \<or> is_lower c \<or> c = CHR ''_''"

text \<open>The class \<open>\s\<close>, and the separator class before a label key.\<close>

definition re_space :: "char \<Rightarrow> bool" where
  "re_space c \<longleftrightarrow> byte_of c \<in> {9, 10, 12, 13, 32}"

text \<open>
  \<open>shole_[A-Za-z0-9_]*\{([^}]*)\<close> at the start of a text: the length of the match and the span
  of its group.
\<close>

definition metricLabelSetRe :: "nat \<Rightarrow> string \<Rightarrow> (nat \<times> nat \<times> nat) option" where
  "metricLabelSetRe _ s =
     (if HasPrefix s ''shole_'' then
        (let n = 6 + length (takeWhile word_char (drop 6 s)) in
         if n < length s \<and> s ! n = CHR ''{'' then
           (let e = Suc n + length (takeWhile (\<lambda>c. c \<noteq> CHR ''}'') (drop (Suc n) s)) in Some (e, Suc n, e))
         else None)
      else None)"

text \<open>An identifier and the equals sign after it, from offset \<open>k\<close>.\<close>

definition label_key_at :: "nat \<Rightarrow> string \<Rightarrow> (nat \<times> nat \<times> nat) option" where
  "label_key_at k s =
     (case drop k s of
        [] \<Rightarrow> None
      | c # _ \<Rightarrow>
          if key_start c then
            (let e = k + length (takeWhile word_char (drop k s)) in
             if e < length s \<and> s ! e = CHR ''='' then Some (Suc e, k, e) else None)
          else None)"

text \<open>
  \<open>(?:^|[,\s])([A-Za-z_][A-Za-z0-9_]*)=\<close>: the first argument is the offset of the text in the
  whole string, so that \<open>^\<close> holds only at 0.
\<close>

definition metricLabelRe :: "nat \<Rightarrow> string \<Rightarrow> (nat \<times> nat \<times> nat) option" where
  "metricLabelRe at s =
     (case (if at = 0 then label_key_at 0 s else None) of
        Some m \<Rightarrow> Some m
      | None \<Rightarrow>
          (case s of
             c # _ \<Rightarrow> if c = CHR '','' \<or> re_space c then label_key_at 1 s else None
           | [] \<Rightarrow> None))"

text \<open>
  All matches with their offsets in the whole string. A match has at least one byte.
\<close>

function find_all ::
  "(nat \<Rightarrow> string \<Rightarrow> (nat \<times> nat \<times> nat) option) \<Rightarrow> nat \<Rightarrow> string \<Rightarrow> (nat \<times> nat \<times> nat \<times> nat) list"
where
  "find_all re at s =
     (if s = [] then []
      else case re at s of
          Some (n, a, b) \<Rightarrow>
            (at, at + n, at + a, at + b) # find_all re (at + max 1 n) (drop (max 1 n) s)
        | None \<Rightarrow> find_all re (Suc at) (drop 1 s))"
  by pat_completeness auto
termination
  by (relation "measure (\<lambda>(re, at, s). length s)") auto

declare find_all.simps [simp del]

section \<open>rule_metrics.go\<close>

text \<open>The bytes of a string from \<open>a\<close> up to \<open>b\<close>: \<open>s[a:b]\<close>.\<close>

definition substr :: "string \<Rightarrow> nat \<Rightarrow> nat \<Rightarrow> string" where
  "substr s a b = take (b - a) (drop a s)"

definition labelValue :: "string \<Rightarrow> nat \<Rightarrow> nat \<Rightarrow> nat \<times> nat" where
  "labelValue s start end =
     (if start < end \<and> s ! start = CHR 0x22 then
        (case IndexByte (substr s (start + 1) end) (CHR 0x22) of
           Some i \<Rightarrow> (start + 1, start + 1 + i)
         | None \<Rightarrow> (start + 1, end))
      else
        (case IndexByte (substr s start end) (CHR '','') of
           Some i \<Rightarrow> (start, start + i)
         | None \<Rightarrow> (start, end)))"

definition verb_flags :: string where
  "verb_flags = ''+-# 0123456789.*[]''"

text \<open>
  The inner loop of \<open>verbArgs\<close>: the rest of the format from the verb on, the offset of the
  verb, the argument number after the stars and whether a bracket was read.
\<close>

fun verb_scan :: "nat \<Rightarrow> string \<Rightarrow> nat \<Rightarrow> bool \<Rightarrow> nat \<times> string \<times> nat \<times> bool" where
  "verb_scan i [] arg explicit = (i, [], arg, explicit)"
| "verb_scan i (c # cs) arg explicit =
     (if c \<in> set verb_flags then
        verb_scan (Suc i) cs (if c = CHR ''*'' then Suc arg else arg) (explicit \<or> c = CHR ''['')
      else (i, c # cs, arg, explicit))"

lemma verb_scan_shorter: "verb_scan i cs arg explicit = (j, ds, a, e) \<Longrightarrow> length ds \<le> length cs"
  by (induction i cs arg explicit rule: verb_scan.induct) (auto split: if_splits)

text \<open>The outer loop, from offset \<open>i\<close>; \<open>None\<close> is -1.\<close>

function verb_loop :: "nat \<Rightarrow> nat \<Rightarrow> nat \<Rightarrow> string \<Rightarrow> nat \<Rightarrow> nat option list" where
  "verb_loop start end i s arg =
     (case s of
        [] \<Rightarrow> []
      | c # cs \<Rightarrow>
          if c \<noteq> CHR ''%'' then verb_loop start end (Suc i) cs arg
          else if cs \<noteq> [] \<and> hd cs = CHR ''%'' then verb_loop start end (i + 2) (tl cs) arg
          else
            (let (j, ds, arg', explicit) = verb_scan (Suc i) cs arg False in
             (if start \<le> i \<and> i < end then [if explicit then None else Some arg'] else []) @
             verb_loop start end (Suc j) (tl ds) (Suc arg')))"
  by pat_completeness auto
termination
proof (relation "measure (\<lambda>(start, end, i, s, arg). length s)", goal_cases)
  case (4 start "end" i s arg c cs x j y ds z arg' explicit)
  have "length ds \<le> length cs"
    using verb_scan_shorter [of "Suc i" cs arg False j ds arg' explicit] 4 by simp
  with 4 show ?case by simp
qed auto

declare verb_loop.simps [simp del]

definition verbArgs :: "string \<Rightarrow> nat \<Rightarrow> nat \<Rightarrow> nat option list" where
  "verbArgs format start end = verb_loop start end 0 format 0"

definition metricLabels :: "string \<Rightarrow> string option" where
  "metricLabels = map_of
     [(''upstream'', ''github.com/lcsabi/s-hole/internal/redact.URL''),
      (''url'', ''github.com/lcsabi/s-hole/internal/redact.URL'')]"

definition labelKeys :: string where
  "labelKeys = Join (sort_Strings [''upstream'', ''url'']) '', ''"

definition printfFuncs :: "string \<Rightarrow> nat option" where
  "printfFuncs = map_of [(''fmt.Fprintf'', 1), (''fmt.Sprintf'', 0), (''fmt.Printf'', 0)]"

text \<open>\<open>%q\<close> of a label key, which has only letters, digits and underscores.\<close>

definition quote_key :: "string \<Rightarrow> string" where
  "quote_key s = [CHR 0x22] @ s @ [CHR 0x22]"

text \<open>\<open>clean[strings.LastIndex(clean, "/")+1:]\<close>\<close>

definition after_slash :: "string \<Rightarrow> string" where
  "after_slash s = (case LastIndexByte s (CHR ''/'') of Some i \<Rightarrow> drop (Suc i) s | None \<Rightarrow> s)"

text \<open>
  The first walk: the literals that are the format of a printf call, by identity, with the
  arguments of the call and the index of the format. A later call of the same literal wins,
  as in the map.
\<close>

fun format_use :: "info \<Rightarrow> node \<Rightarrow> (nat \<times> node list \<times> nat) list" where
  "format_use I (CallExpr _ fn args) =
     (case printfFuncs (calleeName I fn) of
        Some idx \<Rightarrow>
          if idx < length args then
            (case Unparen (args ! idx) of BasicLit h _ _ \<Rightarrow> [(nid h, args, idx)] | _ \<Rightarrow> [])
          else []
      | None \<Rightarrow> [])"
| "format_use I _ = []"

definition formats :: "lint_pass \<Rightarrow> nat \<Rightarrow> (node list \<times> nat) option" where
  "formats p = map_of (rev (concat (map (format_use (p_info p)) (file_nodes (p_ast p)))))"

text \<open>One operand of a verb in a label value.\<close>

definition check_operand ::
  "lint_pass \<Rightarrow> node \<Rightarrow> string \<Rightarrow> string \<Rightarrow> node list \<Rightarrow> nat \<Rightarrow> nat option \<Rightarrow> rawFinding list"
where
  "check_operand p lit key clean args fmtIdx arg =
     (case arg of
        None \<Rightarrow> [report p lit (''metric label '' @ quote_key key @
                   '' uses an explicit argument index (%[n]), which the lint cannot check.'')]
      | Some a \<Rightarrow>
          (let i = fmtIdx + 1 + a in
           if length args \<le> i then []
           else if \<not> containsCall (p_info p) (args ! i) clean then
             [report p (args ! i) (''the value of metric label '' @ quote_key key @
                '' does not go through '' @ after_slash clean @ ''.'')]
           else []))"

text \<open>One label of a label set, whose group spans \<open>a\<close> to \<open>b\<close> of the text.\<close>

definition check_label ::
  "lint_pass \<Rightarrow> node \<Rightarrow> nat \<Rightarrow> string \<Rightarrow> nat \<Rightarrow> nat \<Rightarrow> nat \<times> nat \<times> nat \<times> nat \<Rightarrow> rawFinding list"
where
  "check_label p lit i s a b kv =
     (let (_, kend, k1, k2) = kv;
          key = substr (substr s a b) k1 k2;
          (valueStart, valueEnd) = labelValue s (a + kend) b
      in case metricLabels key of
           None \<Rightarrow> [report p lit (''metric label '' @ quote_key key @ '' is not on the label allowlist ('' @
                      labelKeys @ '').'')]
         | Some clean \<Rightarrow>
             if \<not> Contains (substr s valueStart valueEnd) ''%'' then []
             else (case formats p i of
                 None \<Rightarrow> [report p lit (''metric label '' @ quote_key key @
                            '' gets its value from a format string that is not the format of fmt.Fprintf, fmt.Sprintf, or fmt.Printf, so the lint cannot check the value.'')]
               | Some (args, fmtIdx) \<Rightarrow>
                   concat (map (check_operand p lit key clean args fmtIdx) (verbArgs s valueStart valueEnd))))"

fun metric_node :: "lint_pass \<Rightarrow> node \<Rightarrow> rawFinding list" where
  "metric_node p (BasicLit h k v) =
     (if k \<noteq> STRING_LIT then []
      else case p_Unquote p v of
          None \<Rightarrow> []
        | Some s \<Rightarrow>
            concat (map (\<lambda>(_, _, a, b).
              concat (map (check_label p (BasicLit h k v) (nid h) s a b)
                        (find_all metricLabelRe 0 (substr s a b))))
              (find_all metricLabelSetRe 0 s)))"
| "metric_node p _ = []"

definition checkMetricLabels :: "lint_pass \<Rightarrow> rawFinding list" where
  "checkMetricLabels p = concat (map (metric_node p) (file_nodes (p_ast p)))"

section \<open>Label values stay inside the label set\<close>

lemma labelValue_bounds:
  assumes "start \<le> end" "labelValue s start end = (a, b)"
  shows "start \<le> a \<and> a \<le> b \<and> b \<le> end"
  using assms
  by (auto simp: labelValue_def substr_def split: if_splits option.splits dest!: IndexByte_Some)

section \<open>The operands of format verbs\<close>

text \<open>
  The format language of package \<open>fmt\<close>: plain characters, \<open>%%\<close>, and verbs with flags, a
  width, a precision and an argument index. A star takes its number from an operand of its
  own; an index \<open>[n]\<close> makes the verb take operand \<open>n\<close> (counted from 1) and the later verbs
  the operands after it.
\<close>

datatype fmt_num = NoNum | Digits string | Star

datatype fmt_piece =
    Text_char char
  | Percent
  | Verb (flags: string) (width: fmt_num) (prec: "fmt_num option") (index: "nat option") (verb: char)

fun num_text :: "fmt_num \<Rightarrow> string" where
  "num_text NoNum = []"
| "num_text (Digits ds) = ds"
| "num_text Star = ''*''"

definition spec_text :: "fmt_piece \<Rightarrow> string" where
  "spec_text v = flags v @ num_text (width v) @
     (case prec v of None \<Rightarrow> [] | Some n \<Rightarrow> CHR ''.'' # num_text n) @
     (case index v of None \<Rightarrow> [] | Some n \<Rightarrow> ''['' @ itoa_nat n @ '']'')"

fun piece_text :: "fmt_piece \<Rightarrow> string" where
  "piece_text (Text_char c) = [c]"
| "piece_text Percent = ''%%''"
| "piece_text (Verb f w pr ix v) = CHR ''%'' # spec_text (Verb f w pr ix v) @ [v]"

definition format_text :: "fmt_piece list \<Rightarrow> string" where
  "format_text ps = concat (map piece_text ps)"

fun num_ok :: "fmt_num \<Rightarrow> bool" where
  "num_ok (Digits ds) = list_all is_digit ds"
| "num_ok _ = True"

fun piece_ok :: "fmt_piece \<Rightarrow> bool" where
  "piece_ok (Text_char c) = (c \<noteq> CHR ''%'')"
| "piece_ok Percent = True"
| "piece_ok (Verb f w pr ix v) =
     (list_all (\<lambda>c. c \<in> set ''+-# 0'') f \<and> num_ok w \<and> (case pr of None \<Rightarrow> True | Some n \<Rightarrow> num_ok n) \<and>
      v \<notin> set verb_flags \<and> v \<noteq> CHR ''%'')"

fun no_index :: "fmt_piece \<Rightarrow> bool" where
  "no_index (Verb _ _ _ ix _) = (ix = None)"
| "no_index _ = True"

fun num_stars :: "fmt_num \<Rightarrow> nat" where
  "num_stars Star = 1"
| "num_stars _ = 0"

definition stars :: "fmt_piece \<Rightarrow> nat" where
  "stars v = num_stars (width v) + (case prec v of None \<Rightarrow> 0 | Some n \<Rightarrow> num_stars n)"

text \<open>
  The operand (counted from 0) that \<open>fmt\<close> prints with each verb, and where the verb starts. The verb \<open>%\<close>
  prints no operand, also with flags, a width or a precision; its stars still take theirs.
\<close>

fun operands :: "nat \<Rightarrow> nat \<Rightarrow> fmt_piece list \<Rightarrow> (nat \<times> nat) list" where
  "operands off arg [] = []"
| "operands off arg (Verb f w pr ix v # ps) =
     (let a = (case ix of None \<Rightarrow> arg + stars (Verb f w pr ix v) | Some n \<Rightarrow> n - 1) in
      if v = CHR ''%'' then operands (off + length (piece_text (Verb f w pr ix v))) a ps
      else (off, a) # operands (off + length (piece_text (Verb f w pr ix v))) (Suc a) ps)"
| "operands off arg (q # ps) = operands (off + length (piece_text q)) arg ps"

definition verbs_between :: "nat \<Rightarrow> nat \<Rightarrow> (nat \<times> nat) list \<Rightarrow> nat list" where
  "verbs_between start end vs = map snd (filter (\<lambda>(off, a). start \<le> off \<and> off < end) vs)"

lemma digit_flag: "is_digit c \<Longrightarrow> c \<in> set verb_flags \<and> c \<noteq> CHR ''['' \<and> c \<noteq> CHR ''*''"
proof -
  assume "is_digit c"
  then have "48 \<le> byte_of c" "byte_of c \<le> 57"
    by (simp_all add: is_digit_def)
  then have "byte_of c = 48 \<or> byte_of c = 49 \<or> byte_of c = 50 \<or> byte_of c = 51 \<or> byte_of c = 52 \<or>
      byte_of c = 53 \<or> byte_of c = 54 \<or> byte_of c = 55 \<or> byte_of c = 56 \<or> byte_of c = 57"
    by arith
  then have "byte_of c \<in> set (map byte_of ''0123456789'')"
    by (simp add: byte_of_def)
  then have "byte_of c \<in> byte_of ` set ''0123456789''"
    by simp
  moreover have "inj byte_of"
    by (metis char_of_byte_of injI)
  ultimately have "c \<in> set ''0123456789''"
    by (simp only: inj_image_mem_iff)
  then show ?thesis
    by (auto simp: verb_flags_def)
qed

text \<open>The inner loop reads flags, width and precision, counts the stars and stops at the verb.\<close>

lemma verb_scan_flags:
  assumes "list_all (\<lambda>c. c \<in> set verb_flags) t"
  shows "verb_scan i (t @ rest) arg e =
    verb_scan (i + length t) rest (arg + count_list t (CHR ''*'')) (e \<or> CHR ''['' \<in> set t)"
  using assms by (induction t arbitrary: i arg e) (auto simp: eq_commute [of "CHR ''[''"])

lemma num_text_ok:
  assumes "num_ok n"
  shows "list_all (\<lambda>c. c \<in> set verb_flags) (num_text n) \<and>
    count_list (num_text n) (CHR ''*'') = num_stars n \<and> CHR ''['' \<notin> set (num_text n)"
  using assms
proof (cases n)
  case (Digits ds)
  with assms have "c \<in> set verb_flags \<and> c \<noteq> CHR ''['' \<and> c \<noteq> CHR ''*''" if "c \<in> set ds" for c
    using that digit_flag [of c] by (simp add: list_all_iff)
  then have "list_all (\<lambda>c. c \<in> set verb_flags) ds" "CHR ''['' \<notin> set ds" "CHR ''*'' \<notin> set ds"
    unfolding list_all_iff by blast+
  then show ?thesis
    by (simp add: Digits count_notin)
qed (simp_all add: verb_flags_def)

lemma spec_text_ok:
  assumes "piece_ok (Verb f w pr None v)"
  shows "list_all (\<lambda>c. c \<in> set verb_flags) (spec_text (Verb f w pr None v)) \<and>
    count_list (spec_text (Verb f w pr None v)) (CHR ''*'') = stars (Verb f w pr None v) \<and>
    CHR ''['' \<notin> set (spec_text (Verb f w pr None v))"
proof -
  have "c \<in> set ''+-# 0''" if "c \<in> set f" for c
    using assms that by (simp only: piece_ok.simps list_all_iff)
  moreover have "set ''+-# 0'' \<subseteq> set verb_flags - {CHR ''['', CHR ''*''}"
    by (simp add: verb_flags_def)
  ultimately have "list_all (\<lambda>c. c \<in> set verb_flags) f" "CHR ''['' \<notin> set f" "CHR ''*'' \<notin> set f"
    unfolding list_all_iff by blast+
  moreover have "CHR ''.'' \<in> set verb_flags"
    by (simp add: verb_flags_def)
  ultimately show ?thesis
    using assms num_text_ok by (cases pr) (auto simp: spec_text_def stars_def count_notin)
qed

lemma verb_loop_verb:
  assumes "piece_ok (Verb f w pr None v)"
  shows "verb_loop start end i (piece_text (Verb f w pr None v) @ rest) arg =
    (if start \<le> i \<and> i < end then [Some (arg + stars (Verb f w pr None v))] else []) @
    verb_loop start end (i + length (piece_text (Verb f w pr None v))) rest
      (Suc (arg + stars (Verb f w pr None v)))"
proof -
  let ?t = "spec_text (Verb f w pr None v)" and ?n = "stars (Verb f w pr None v)"
  have t: "list_all (\<lambda>c. c \<in> set verb_flags) ?t" "count_list ?t (CHR ''*'') = ?n" "CHR ''['' \<notin> set ?t"
    using spec_text_ok [OF assms] by auto
  have v: "v \<notin> set verb_flags" "v \<noteq> CHR ''%''"
    using assms by auto
  have hd: "hd (?t @ v # rest) \<noteq> CHR ''%''"
    using t(1) v by (cases ?t) (auto simp: verb_flags_def)
  have scan: "verb_scan (Suc i) (?t @ v # rest) arg False =
      (Suc i + length ?t, v # rest, arg + ?n, False)"
    using verb_scan_flags [OF t(1)] t v by simp
  show ?thesis
    by (subst verb_loop.simps) (use hd scan in simp)
qed

lemma verb_loop_operands:
  assumes "list_all piece_ok ps" "list_all no_index ps"
  shows "verb_loop start end i (format_text ps) arg =
    map Some (verbs_between start end (operands i arg ps))"
  using assms
proof (induction i arg ps rule: operands.induct)
  case (1 off arg)
  show ?case
    by (simp add: format_text_def verb_loop.simps verbs_between_def)
next
  case (2 off arg f w pr ix v ps)
  then have ix: "ix = None" and v: "v \<noteq> CHR ''%''"
    by simp_all
  have "verb_loop start end off (piece_text (Verb f w pr None v) @ format_text ps) arg =
    (if start \<le> off \<and> off < end then [Some (arg + stars (Verb f w pr None v))] else []) @
    verb_loop start end (off + length (piece_text (Verb f w pr None v))) (format_text ps)
      (Suc (arg + stars (Verb f w pr None v)))"
    using 2(3) ix by (intro verb_loop_verb) simp
  moreover have "verb_loop start end (off + length (piece_text (Verb f w pr None v))) (format_text ps)
      (Suc (arg + stars (Verb f w pr None v))) =
    map Some (verbs_between start end (operands (off + length (piece_text (Verb f w pr None v)))
      (Suc (arg + stars (Verb f w pr None v))) ps))"
    using 2(2) [OF refl v] 2(3,4) ix by simp
  moreover have "format_text (Verb f w pr ix v # ps) = piece_text (Verb f w pr None v) @ format_text ps"
    by (simp add: format_text_def ix)
  ultimately show ?case
    using v by (simp add: verbs_between_def ix Let_def)
next
  case "3_1"
  then show ?case
    by (simp add: format_text_def verb_loop.simps [of start "end" _ "_ # _"])
next
  case "3_2"
  then show ?case
    by (simp add: format_text_def verb_loop.simps [of start "end" _ "CHR ''%'' # _"])
qed

text \<open>
  After an explicit index the later verbs get other operands than \<open>verbArgs\<close> says: in
  \<open>%[2]s %s\<close> the second verb prints operand 2 (counted from 0), \<open>verbArgs\<close> gives 1.
\<close>

lemma verbArgs_after_index:
  "format_text [Verb [] NoNum None (Some 2) (CHR ''s''), Text_char (CHR '' ''), Verb [] NoNum None None (CHR ''s'')]
     = ''%[2]s %s''"
  "operands 0 0 [Verb [] NoNum None (Some 2) (CHR ''s''), Text_char (CHR '' ''), Verb [] NoNum None None (CHR ''s'')]
     = [(0, 1), (6, 2)]"
  "verbArgs ''%[2]s %s'' 6 8 = [Some 1]"
  by (simp_all add: format_text_def spec_text_def stars_def itoa_nat.simps digit_char_def verbArgs_def
      char_of_def bit_Suc_0_iff verb_loop.simps verb_flags_def)

text \<open>
  A percent verb with flags, a width or a precision takes no operand in \<open>fmt\<close>, but \<open>verbArgs\<close> counts one: in \<open>%5% %s\<close> the
  second verb prints operand 0, \<open>verbArgs\<close> gives 1.
\<close>

lemma verbArgs_wide_percent:
  "format_text [Verb [] (Digits ''5'') None None (CHR ''%''), Text_char (CHR '' ''), Verb [] NoNum None None (CHR ''s'')]
     = ''%5% %s''"
  "operands 0 0 [Verb [] (Digits ''5'') None None (CHR ''%''), Text_char (CHR '' ''), Verb [] NoNum None None (CHR ''s'')]
     = [(4, 0)]"
  "verbArgs ''%5% %s'' 4 6 = [Some 1]"
  by (simp_all add: format_text_def spec_text_def stars_def verbArgs_def verb_loop.simps verb_flags_def)

text \<open>C27: For a format in which every verb is well formed (flags, then a width, then a precision, then a letter or another
  character that is neither one of these nor a percent sign), in which no verb has an explicit argument index and in which
  the percent verb has no flags, width or precision, \<open>verbArgs\<close> gives for each verb that starts
  in the span the operand that package \<open>fmt\<close> prints with it: \<open>%%\<close> takes none, a star takes
  one before the verb, and a verb outside the span still counts. Outside these formats the two
  can differ, as the two examples above show.
\<close>

theorem verbArgs_operands:
  assumes "list_all piece_ok ps" "list_all no_index ps"
  shows "verbArgs (format_text ps) start end = map Some (verbs_between start end (operands 0 0 ps))"
  using verb_loop_operands [OF assms] by (simp add: verbArgs_def)

theorem verbArgs_operands_witness:
  "verbArgs (format_text [Verb ''-'' Star None None (CHR ''s''), Percent, Text_char (CHR ''=''), Verb [] NoNum None None (CHR ''q'')]) 6 20
     = [Some 2]"
  using verbArgs_operands [of "[Verb ''-'' Star None None (CHR ''s''), Percent, Text_char (CHR ''=''), Verb [] NoNum None None (CHR ''q'')]" 6 20]
  by (simp add: verbs_between_def stars_def spec_text_def verb_flags_def)

end
