(* ===== verification/Lint_Rules.thy ===== *)
theory Lint_Rules
  imports Lint_Ast
begin

text \<open>
  Three of the four rules of the privacy lint: \<open>rule_client.go\<close>, \<open>rule_outbound.go\<close> and
  \<open>rule_server.go\<close>. A check takes a pass and returns the findings in the order in which the
  code reports them. The lemmas say what a check reports, node by node: the outbound check
  is complete over every node of the file, and the client-address check, which keeps two sets
  of nodes while it walks, agrees with a definition that keeps none.
\<close>

section \<open>rule_outbound.go\<close>

definition outboundFuncs :: "string \<Rightarrow> bool" where
  "outboundFuncs = setOf
     [''net.Dial'', ''net.DialTimeout'', ''net.DialIP'', ''net.DialTCP'', ''net.DialUDP'', ''net.DialUnix'',
      ''net.LookupAddr'', ''net.LookupCNAME'', ''net.LookupHost'', ''net.LookupIP'', ''net.LookupMX'',
      ''net.LookupNS'', ''net.LookupPort'', ''net.LookupSRV'', ''net.LookupTXT'',
      ''crypto/tls.Dial'', ''crypto/tls.DialWithDialer'',
      ''net/http.Get'', ''net/http.Head'', ''net/http.Post'', ''net/http.PostForm'',
      ''net/smtp.Dial'', ''net/smtp.SendMail'',
      ''github.com/miekg/dns.Exchange'', ''github.com/miekg/dns.ExchangeContext'',
      ''github.com/miekg/dns.ExchangeConn'', ''github.com/miekg/dns.Dial'',
      ''github.com/miekg/dns.DialTimeout'', ''github.com/miekg/dns.DialWithTLS'',
      ''github.com/miekg/dns.DialTimeoutWithTLS'',
      ''os/exec.Command'', ''os/exec.CommandContext'']"

definition outboundTypes :: "string \<Rightarrow> bool" where
  "outboundTypes = setOf
     [''net/http.Client'', ''net/http.Transport'', ''net.Dialer'', ''net.Resolver'',
      ''crypto/tls.Dialer'', ''github.com/miekg/dns.Client'']"

definition outboundVars :: "string \<Rightarrow> bool" where
  "outboundVars = setOf
     [''net/http.DefaultClient'', ''net/http.DefaultTransport'', ''net.DefaultResolver'']"

fun outbound_node :: "lint_pass \<Rightarrow> node \<Rightarrow> rawFinding list" where
  "outbound_node p (CallExpr h fn args) =
     (let name = calleeName (p_info p) fn in
      if outboundFuncs name
      then [report p (CallExpr h fn args) (name @ '' can open an outbound connection.'')] else [])"
| "outbound_node p (Ident h s) =
     (case Uses (p_info p) (nid h) of
        Some (VarObj (Some path) v) \<Rightarrow>
          if outboundVars (path @ ''.'' @ v)
          then [report p (Ident h s) (path @ ''.'' @ v @ '' can open an outbound connection.'')] else []
      | _ \<Rightarrow> [])"
| "outbound_node p _ = []"

definition checkOutbound :: "lint_pass \<Rightarrow> rawFinding list" where
  "checkOutbound p =
     concat (map (outbound_node p) (file_nodes (p_ast p))) @
     constructions p outboundTypes
       (\<lambda>n name how. [report p n (how @ '' makes a '' @ name @ '', which can open an outbound connection.'')])"

section \<open>rule_server.go\<close>

definition errorLogFunc :: string where
  "errorLogFunc = ''github.com/lcsabi/s-hole/internal/api.newErrorLog''"

definition serveFuncs :: "string \<Rightarrow> bool" where
  "serveFuncs = setOf [''net/http.ListenAndServe'', ''net/http.ListenAndServeTLS'', ''net/http.Serve'',
     ''net/http.ServeTLS'']"

definition server_fix :: string where
  "server_fix = ''Set ErrorLog: newErrorLog() (internal/api/errorlog.go).''"

text \<open>The loop over the elements of an \<open>http.Server\<close> literal.\<close>

fun errorlog_elts :: "lint_pass \<Rightarrow> node \<Rightarrow> node list \<Rightarrow> rawFinding list" where
  "errorlog_elts p lit [] =
     [report p lit (''the http.Server sets no ErrorLog, so net/http logs the client address. '' @ server_fix)]"
| "errorlog_elts p lit (elt # elts) =
     (case elt of
        KeyValueExpr h (Ident kh ks) v \<Rightarrow>
          if ks = ''ErrorLog'' then
            (case Unparen v of
               CallExpr _ fn _ \<Rightarrow>
                 if calleeName (p_info p) fn = errorLogFunc then []
                 else [report p elt (''the http.Server ErrorLog is not newErrorLog(). '' @ server_fix)]
             | _ \<Rightarrow> [report p elt (''the http.Server ErrorLog is not newErrorLog(). '' @ server_fix)])
          else errorlog_elts p lit elts
      | _ \<Rightarrow> errorlog_elts p lit elts)"

fun server_made :: "lint_pass \<Rightarrow> node \<Rightarrow> string \<Rightarrow> string \<Rightarrow> rawFinding list" where
  "server_made p (CompositeLit h t elts) _ _ = errorlog_elts p (CompositeLit h t elts) elts"
| "server_made p n _ how =
     [report p n (how @ '' makes an http.Server whose ErrorLog the lint cannot check. Use a composite literal. '' @
        server_fix)]"

fun serve_node :: "lint_pass \<Rightarrow> node \<Rightarrow> rawFinding list" where
  "serve_node p (CallExpr h fn args) =
     (let name = calleeName (p_info p) fn in
      if serveFuncs name
      then [report p (CallExpr h fn args)
              (name @ '' serves HTTP with a server that has no ErrorLog. Make an http.Server. '' @ server_fix)]
      else [])"
| "serve_node p _ = []"

definition checkServerErrorLog :: "lint_pass \<Rightarrow> rawFinding list" where
  "checkServerErrorLog p =
     concat (map (serve_node p) (file_nodes (p_ast p))) @
     constructions p (setOf [''net/http.Server'']) (server_made p)"

section \<open>rule_client.go\<close>

fun render :: "node \<Rightarrow> string" where
  "render (Ident _ s) = s"
| "render (SelectorExpr _ x _ s) = render x @ ''.'' @ s"
| "render (CallExpr _ f _) = render f @ ''()''"
| "render (ParenExpr _ x) = render x"
| "render (StarExpr _ x) = ''*'' @ render x"
| "render (IndexExpr _ x _) = render x @ ''[...]''"
| "render _ = ''expression''"

definition isBlank :: "node \<Rightarrow> bool" where
  "isBlank e = (case e of Ident _ s \<Rightarrow> s = ''_'' | _ \<Rightarrow> False)"

text \<open>The identity that \<open>markCallee\<close> adds to the set.\<close>

definition markCallee :: "node \<Rightarrow> nat list" where
  "markCallee e =
     (case Unparen e of CallExpr _ fn _ \<Rightarrow> [nid (hdr_of (Unparen fn))] | _ \<Rightarrow> [])"

text \<open>\<open>ast.Unparen(e).(*ast.TypeAssertExpr)\<close>; \<open>typed\<close> asks for a type (\<open>ta.Type != nil\<close>).\<close>

definition mark_assert :: "bool \<Rightarrow> node \<Rightarrow> nat list" where
  "mark_assert typed e =
     (case Unparen e of
        TypeAssertExpr _ x t \<Rightarrow> if typed \<and> t = None then [] else markCallee x
      | _ \<Rightarrow> [])"

fun typeOnly_node :: "node \<Rightarrow> nat list" where
  "typeOnly_node (AssignStmt _ lhs rhs) =
     (if length rhs = 1 \<and> 1 \<le> length lhs \<and> isBlank (hd lhs) then mark_assert True (hd rhs) else [])"
| "typeOnly_node (ValueSpec _ names _ vals) =
     (if length vals = 1 \<and> 1 \<le> length names \<and> snd (hd names) = ''_''
      then mark_assert True (hd vals) else [])"
| "typeOnly_node (TypeSwitchStmt _ _ (ExprStmt _ x) _) = mark_assert False x"
| "typeOnly_node _ = []"

definition typeOnly :: "lint_pass \<Rightarrow> nat list" where
  "typeOnly p = concat (map typeOnly_node (file_nodes (p_ast p)))"

definition isRemoteAddr :: "func \<Rightarrow> bool" where
  "isRemoteAddr f =
     (let sig = fn_Type f in
      fn_Name f = ''RemoteAddr'' \<and> sig_Recv sig \<and> sig_Params sig = 0 \<and> length (sig_Results sig) = 1 \<and>
      typeName (Some (hd (sig_Results sig))) = ''net.Addr'')"

definition reportFunc :: "lint_pass \<Rightarrow> node \<Rightarrow> func \<Rightarrow> rawFinding list" where
  "reportFunc p n f =
     (if isRemoteAddr f then
        [report p n (render n @ '' reads the client address (RemoteAddr). Use the masked address from ServeDNS.'')]
      else if fn_FullName f \<in> set (p_sources p) then
        [report p n (render n @
           '' returns the raw client address (//privacy:source client-address). Use the masked address from ServeDNS.'')]
      else [])"

text \<open>The field \<open>RemoteAddr\<close> of an \<open>http.Request\<close>, or of a pointer to one.\<close>

definition request_addr :: "info \<Rightarrow> nat \<Rightarrow> bool" where
  "request_addr I i =
     (case Selections I i of
        Some s \<Rightarrow> (case sel_Obj s of
            VarObj _ v \<Rightarrow> v = ''RemoteAddr'' \<and> derefName (sel_Recv s) = ''net/http.Request''
          | _ \<Rightarrow> False)
      | None \<Rightarrow> False)"

text \<open>One call of the second walk's function: \<open>selIdents\<close> and the findings so far.\<close>

fun client_step ::
  "lint_pass \<Rightarrow> nat list \<Rightarrow> node \<Rightarrow> nat list \<times> rawFinding list \<Rightarrow> nat list \<times> rawFinding list"
where
  "client_step p only (SelectorExpr h x sh s) (selIdents, out) =
     (let n = SelectorExpr h x sh s; selIdents = nid sh # selIdents in
      if nid h \<in> set only then (selIdents, out)
      else if request_addr (p_info p) (nid h) then
        (selIdents, out @ [report p n (render n @ '' reads the client address (http.Request.RemoteAddr).'')])
      else case funcOf (p_info p) n of
          Some f \<Rightarrow> (selIdents, out @ reportFunc p n f)
        | None \<Rightarrow> (selIdents, out))"
| "client_step p only (Ident h s) (selIdents, out) =
     (if nid h \<in> set selIdents \<or> nid h \<in> set only then (selIdents, out)
      else case as_func (Uses (p_info p) (nid h)) of
          Some f \<Rightarrow> (selIdents, out @ reportFunc p (Ident h s) f)
        | None \<Rightarrow> (selIdents, out))"
| "client_step p only _ acc = acc"

definition checkClientAddress :: "lint_pass \<Rightarrow> rawFinding list" where
  "checkClientAddress p =
     snd (fold (client_step p (typeOnly p)) (file_nodes (p_ast p)) ([], []))"

section \<open>What the outbound check reports\<close>

text \<open>The node itself, if it calls a listed function or uses a listed variable.\<close>

definition names_outbound :: "info \<Rightarrow> node \<Rightarrow> node list" where
  "names_outbound I n =
     (case n of
        CallExpr _ fn _ \<Rightarrow> if outboundFuncs (calleeName I fn) then [n] else []
      | Ident h _ \<Rightarrow>
          (case Uses I (nid h) of
             Some (VarObj (Some path) v) \<Rightarrow> if outboundVars (path @ ''.'' @ v) then [n] else []
           | _ \<Rightarrow> [])
      | _ \<Rightarrow> [])"

text \<open>The places of a node that can open an outbound connection, by the lists of the rule.\<close>

definition outbound_sites :: "info \<Rightarrow> node \<Rightarrow> node list" where
  "outbound_sites I n = names_outbound I n @ map fst (makes I outboundTypes n)"

definition line_of :: "lint_pass \<Rightarrow> node \<Rightarrow> nat" where
  "line_of p n = p_line p (n_Pos (hdr_of n))"

lemma outbound_node_lines:
  "map rf_line (outbound_node p n) = map (line_of p) (names_outbound (p_info p) n)"
  by (cases n) (auto simp: names_outbound_def Let_def line_of_def split: option.split obj.split)

lemma constructions_lines:
  assumes "\<And>n name how. map rf_line (fn n name how) = [line_of p n]"
  shows "map rf_line (constructions p S fn) =
    map (line_of p) (concat (map (\<lambda>n. map fst (makes (p_info p) S n)) (file_nodes (p_ast p))))"
proof -
  have *: "concat (map (\<lambda>x. map rf_line (case x of (m, name, how) \<Rightarrow> fn m name how)) xs) =
      map (line_of p) (map fst xs)" for xs
    by (induction xs) (auto simp: assms)
  show ?thesis
    by (simp add: constructions_def map_concat * comp_def)
qed

text \<open>
  The check reports one finding for each place, on the line where the place starts, and
  nothing else.
\<close>

lemma checkOutbound_lines:
  "set (map rf_line (checkOutbound p)) =
     line_of p ` (\<Union>n\<in>set (file_nodes (p_ast p)). set (outbound_sites (p_info p) n))"
proof -
  have "map rf_line (checkOutbound p) =
      map (line_of p) (concat (map (names_outbound (p_info p)) (file_nodes (p_ast p)))) @
      map (line_of p) (concat (map (\<lambda>n. map fst (makes (p_info p) outboundTypes n)) (file_nodes (p_ast p))))"
    by (simp add: checkOutbound_def map_concat outbound_node_lines comp_def
      constructions_lines line_of_def)
  then show ?thesis
    by (simp add: outbound_sites_def UN_Un_distrib image_Un image_UN)
qed

section \<open>The client-address check without its sets\<close>

text \<open>The selected identifiers of a list of nodes.\<close>

fun sel_ident :: "node \<Rightarrow> nat list" where
  "sel_ident (SelectorExpr _ _ sh _) = [nid sh]"
| "sel_ident _ = []"

definition sel_idents :: "node list \<Rightarrow> nat list" where
  "sel_idents ns = concat (map sel_ident ns)"

text \<open>
  What one node contributes: a selector that is not the callee of a type-only assertion, or an
  identifier that is neither that nor the right-hand side of a selector.
\<close>

fun client_reads :: "lint_pass \<Rightarrow> nat list \<Rightarrow> nat list \<Rightarrow> node \<Rightarrow> rawFinding list" where
  "client_reads p only sels (SelectorExpr h x sh s) =
     (let n = SelectorExpr h x sh s in
      if nid h \<in> set only then []
      else if request_addr (p_info p) (nid h) then
        [report p n (render n @ '' reads the client address (http.Request.RemoteAddr).'')]
      else (case funcOf (p_info p) n of Some f \<Rightarrow> reportFunc p n f | None \<Rightarrow> []))"
| "client_reads p only sels (Ident h s) =
     (if nid h \<in> set sels \<or> nid h \<in> set only then []
      else (case as_func (Uses (p_info p) (nid h)) of Some f \<Rightarrow> reportFunc p (Ident h s) f | None \<Rightarrow> []))"
| "client_reads p only sels _ = []"

definition node_ids :: "node list \<Rightarrow> nat list" where
  "node_ids ns = map (\<lambda>n. nid (hdr_of n)) ns"

text \<open>In the order of the walk a node comes before its children.\<close>

fun parents_first :: "node list \<Rightarrow> bool" where
  "parents_first [] = True"
| "parents_first (n # ns) = (set (children n) \<subseteq> set ns \<and> parents_first ns)"

lemma parents_first_append: "parents_first xs \<Longrightarrow> parents_first ys \<Longrightarrow> parents_first (xs @ ys)"
  by (induction xs) auto

lemma parents_first_concat: "list_all parents_first xss \<Longrightarrow> parents_first (concat xss)"
  by (induction xss) (auto simp: parents_first_append)

lemma parents_first_nodes: "parents_first (nodes n)"
proof (induction n rule: nodes.induct)
  case (1 n)
  have "parents_first (concat (map nodes (children n)))"
    by (rule parents_first_concat) (use 1 in \<open>simp add: list_all_iff\<close>)
  moreover have "set (children n) \<subseteq> set (concat (map nodes (children n)))"
    by auto
  ultimately show ?case
    by (subst nodes.simps) simp
qed

lemma sel_ident_later:
  assumes "parents_first ns" "i \<in> set (sel_idents ns)"
  shows "i \<in> set (node_ids ns)"
  using assms
proof (induction ns)
  case (Cons n ns)
  consider h x sh s where "n = SelectorExpr h x sh s" "i = nid sh" | "i \<in> set (sel_idents ns)"
    using Cons.prems(2) by (cases n) (auto simp: sel_idents_def)
  then show ?case
  proof cases
    case 1
    then have "Ident sh s \<in> set ns"
      using Cons.prems(1) by simp
    with 1 show ?thesis
      by (force simp: node_ids_def)
  qed (use Cons in \<open>simp add: node_ids_def\<close>)
qed (simp add: sel_idents_def)

lemma client_fold:
  assumes "parents_first ns" "distinct (node_ids ns)"
    "set sels = set selIdents \<union> set (sel_idents ns)"
  shows "snd (fold (client_step p only) ns (selIdents, out)) =
    out @ concat (map (client_reads p only sels) ns)"
  using assms
proof (induction ns arbitrary: selIdents out)
  case (Cons n ns)
  have bc: "parents_first ns" and d: "distinct (node_ids ns)" and new: "nid (hdr_of n) \<notin> set (node_ids ns)"
    using Cons.prems by (auto simp: node_ids_def)
  have notsel: "nid (hdr_of n) \<notin> set (sel_idents ns)"
    using sel_ident_later [OF bc] new by blast
  show ?case
  proof (cases n)
    case (SelectorExpr h x sh s)
    have "set sels = set (nid sh # selIdents) \<union> set (sel_idents ns)"
      using Cons.prems(3) SelectorExpr by (auto simp: sel_idents_def)
    then have "snd (fold (client_step p only) ns (nid sh # selIdents, o')) =
        o' @ concat (map (client_reads p only sels) ns)" for o'
      by (rule Cons.IH [OF bc d])
    then show ?thesis
      using SelectorExpr by (simp add: Let_def split: option.split)
  next
    case (Ident h s)
    have eq: "set sels = set selIdents \<union> set (sel_idents ns)"
      using Cons.prems(3) Ident by (simp add: sel_idents_def)
    then have "snd (fold (client_step p only) ns (selIdents, o')) =
        o' @ concat (map (client_reads p only sels) ns)" for o'
      by (rule Cons.IH [OF bc d])
    moreover have "nid h \<in> set sels \<longleftrightarrow> nid h \<in> set selIdents"
      using eq notsel Ident by auto
    ultimately show ?thesis
      using Ident by (simp split: option.split)
  qed (use Cons.IH [OF bc d, of selIdents out] Cons.prems(3) in \<open>simp_all add: sel_idents_def\<close>)
qed simp

lemma checkClientAddress_reads:
  assumes "distinct (node_ids (file_nodes (p_ast p)))"
  shows "checkClientAddress p =
    concat (map (client_reads p (typeOnly p) (sel_idents (file_nodes (p_ast p)))) (file_nodes (p_ast p)))"
  using client_fold [OF _ assms, of "sel_idents (file_nodes (p_ast p))" "[]" p "typeOnly p" "[]"]
  by (simp add: checkClientAddress_def parents_first_nodes file_nodes_def)

section \<open>What the server check accepts\<close>

text \<open>The first \<open>ErrorLog\<close> entry of a literal is a call of \<open>newErrorLog\<close>.\<close>

fun is_errorlog_key :: "node \<Rightarrow> bool" where
  "is_errorlog_key (KeyValueExpr _ (Ident _ ks) _) = (ks = ''ErrorLog'')"
| "is_errorlog_key _ = False"

fun calls_newErrorLog :: "info \<Rightarrow> node \<Rightarrow> bool" where
  "calls_newErrorLog I (KeyValueExpr _ _ v) = is_call_of I errorLogFunc (Unparen v)"
| "calls_newErrorLog I _ = False"

definition uses_newErrorLog :: "info \<Rightarrow> node list \<Rightarrow> bool" where
  "uses_newErrorLog I elts =
     (case find is_errorlog_key elts of Some e \<Rightarrow> calls_newErrorLog I e | None \<Rightarrow> False)"

lemma errorlog_elts_empty: "errorlog_elts p lit elts = [] \<longleftrightarrow> uses_newErrorLog (p_info p) elts"
proof (induction elts)
  case (Cons e es)
  show ?case
  proof (cases "is_errorlog_key e")
    case True
    then obtain h kh v where "e = KeyValueExpr h (Ident kh ''ErrorLog'') v"
      by (cases e rule: is_errorlog_key.cases) auto
    then show ?thesis
      by (cases "Unparen v") (auto simp: uses_newErrorLog_def is_call_of_def)
  next
    case False
    then have "errorlog_elts p lit (e # es) = errorlog_elts p lit es"
      by (cases e rule: is_errorlog_key.cases) auto
    with False Cons show ?thesis
      by (simp add: uses_newErrorLog_def)
  qed
qed (simp add: uses_newErrorLog_def)

lemma server_literal_reported:
  assumes "CompositeLit h t elts \<in> set (file_nodes (p_ast p))"
    "typeName (TypeOf (p_info p) (nid h)) = ''net/http.Server''"
    "\<not> uses_newErrorLog (p_info p) elts"
  shows "checkServerErrorLog p \<noteq> []"
proof -
  obtain rf where "rf \<in> set (errorlog_elts p (CompositeLit h t elts) elts)"
    using errorlog_elts_empty assms(3) by (metis list.set_intros(1) neq_Nil_conv)
  moreover have "(CompositeLit h t elts, ''net/http.Server'', ''a composite literal'')
      \<in> set (makes (p_info p) (setOf [''net/http.Server'']) (CompositeLit h t elts))"
    using assms(2) by (simp add: setOf_def)
  ultimately have "rf \<in> set (constructions p (setOf [''net/http.Server'']) (server_made p))"
    unfolding constructions_iff using assms(1) by force
  then show ?thesis
    by (auto simp: checkServerErrorLog_def)
qed

end
