(* ===== verification/Lint_Directive.thy ===== *)
theory Lint_Directive
  imports Lint_Rules Lint_Metrics
begin

text \<open>
  The rules of the privacy lint and its comments: the head of \<open>privacylint.go\<close> and
  \<open>directive.go\<close> up to \<open>exception\<close>. A comment becomes a directive, a finding of the rule
  \<open>directive\<close>, or nothing. The regular expressions of the file have one way to match each,
  so they are written as scanners of the comment's text. \<open>fset.Position\<close> is the record
  \<open>fileset\<close>; \<open>strconv.Quote\<close>, the verb \<open>%q\<close>, is an argument.

  The lemmas show which text is a valid comment: printing a rule, an ID and a reason and
  parsing the text gives the same directive, and every comment that starts as a privacy
  comment becomes a directive or a finding.
\<close>

section \<open>Rules\<close>

definition RuleClientAddress :: string where "RuleClientAddress = ''client-address''"
definition RuleOutbound :: string where "RuleOutbound = ''outbound''"
definition RuleServerErrorLog :: string where "RuleServerErrorLog = ''server-errorlog''"
definition RuleMetricLabels :: string where "RuleMetricLabels = ''metric-labels''"
definition RuleDirective :: string where "RuleDirective = ''directive''"

definition clientAddressRule :: Rule where
  "clientAddressRule =
     \<lparr>r_ID = RuleClientAddress,
      r_Policy = ''s-hole reads the client address in one place and masks it at once with querylog.MaskClientIP; '' @
        ''no other code reads it to store, show, or log it (CLAUDE.md, Privacy first)'',
      r_check = checkClientAddress\<rparr>"

definition outboundRule :: Rule where
  "outboundRule =
     \<lparr>r_ID = RuleOutbound,
      r_Policy = ''s-hole connects only to the configured upstreams and blocklist URLs; '' @
        ''a new outbound connection needs a ROADMAP decision first (CLAUDE.md, Privacy first)'',
      r_check = checkOutbound\<rparr>"

definition serverErrorLogRule :: Rule where
  "serverErrorLogRule =
     \<lparr>r_ID = RuleServerErrorLog,
      r_Policy = ''every http.Server logs through newErrorLog, which replaces each IP address '' @
        ''in net/http's own lines with the word '' @ quote_key ''client'' @ '' (CLAUDE.md, Privacy first; b/103)'',
      r_check = checkServerErrorLog\<rparr>"

definition metricLabelsRule :: Rule where
  "metricLabelsRule =
     \<lparr>r_ID = RuleMetricLabels,
      r_Policy = ''metrics stay aggregate: no label for a client or a domain on /metrics, '' @
        ''and a URL goes through redact.URL (CLAUDE.md, Privacy first)'',
      r_check = checkMetricLabels\<rparr>"

definition rules :: "Rule list" where
  "rules = [clientAddressRule, outboundRule, serverErrorLogRule, metricLabelsRule]"

definition Rules :: "rule_head list" where
  "Rules = map (\<lambda>r. \<lparr>r_ID = r_ID r, r_Policy = r_Policy r\<rparr>) rules"

definition ruleByID :: "string \<Rightarrow> Rule option" where
  "ruleByID i = find (\<lambda>r. r_ID r = i) rules"

definition ruleIDs :: string where
  "ruleIDs = Join (map r_ID rules) '', ''"

section \<open>Findings and directives\<close>

record Finding =
  fd_File :: string
  fd_Line :: nat
  fd_Rule :: string
  fd_Message :: string

record Exception =
  ex_File :: string
  ex_Func :: string
  ex_Kind :: string
  ex_Rule :: string
  ex_ID :: string

text \<open>\<open>d_fn\<close> is the identity of the name of the function that a source comment marks.\<close>

record directive =
  d_file :: string
  d_line :: nat
  d_kind :: string
  d_rule :: string
  d_id :: string
  d_from :: nat
  d_to :: nat
  d_fn :: "nat option"
  d_fnName :: string
  d_used :: bool

record fileset =
  fs_line :: "nat \<Rightarrow> nat"      \<comment> \<open>\<open>Position(pos).Line\<close>\<close>
  fs_offset :: "nat \<Rightarrow> nat"    \<comment> \<open>\<open>Position(pos).Offset\<close>\<close>

record fileInfo =
  f_name :: string
  f_ast :: ast_file
  f_src :: string

section \<open>The text of a comment\<close>

text \<open>\<open>^(//\s+|/\*\s*)privacy:\<close>\<close>

definition spacedRe :: "string \<Rightarrow> bool" where
  "spacedRe t =
     (let rest = dropWhile re_space (drop 2 t) in
      HasPrefix rest ''privacy:'' \<and>
      (HasPrefix t ''//'' \<and> rest \<noteq> drop 2 t \<or> HasPrefix t ''/*''))"

text \<open>\<open>^//privacy:(\S*)(.*)$\<close>: the two groups. A dot does not match a newline.\<close>

definition directiveRe :: "string \<Rightarrow> (string \<times> string) option" where
  "directiveRe t =
     (if HasPrefix t ''//privacy:'' then
        (let s = drop 10 t; rest = dropWhile (\<lambda>c. \<not> re_space c) s in
         if CHR 0x0A \<in> set rest then None else Some (takeWhile (\<lambda>c. \<not> re_space c) s, rest))
      else None)"

text \<open>\<open>^((?:PRIV|SEC)-\d+|b/\d+|CL \d+): (\S.*)$\<close>: the ID. No alternative is a prefix of another.\<close>

definition id_prefixes :: "string list" where
  "id_prefixes = [''PRIV-'', ''SEC-'', ''b/'', ''CL '']"

definition reason_ok :: "string \<Rightarrow> bool" where
  "reason_ok r = (r \<noteq> [] \<and> \<not> re_space (hd r) \<and> CHR 0x0A \<notin> set r)"

definition id_after :: "string \<Rightarrow> string \<Rightarrow> string option" where
  "id_after p s =
     (let ds = takeWhile is_digit (drop (length p) s);
          rest = dropWhile is_digit (drop (length p) s)
      in if HasPrefix s p \<and> ds \<noteq> [] \<and> HasPrefix rest '': '' \<and> reason_ok (drop 2 rest)
         then Some (p @ ds) else None)"

definition idReasonRe :: "string \<Rightarrow> string option" where
  "idReasonRe s =
     (case find (\<lambda>p. id_after p s \<noteq> None) id_prefixes of Some p \<Rightarrow> id_after p s | None \<Rightarrow> None)"

definition sourceKinds :: "string \<Rightarrow> bool" where
  "sourceKinds k = (k = RuleClientAddress)"

section \<open>Where a comment stands\<close>

definition codeBefore :: "fileset \<Rightarrow> fileInfo \<Rightarrow> comment \<Rightarrow> bool" where
  "codeBefore F f c =
     (let off = fs_offset F (c_Pos c); code = take off (f_src f);
          start = (case LastIndexByte code (CHR 0x0A) of Some i \<Rightarrow> Suc i | None \<Rightarrow> 0)
      in 0 < length (TrimSpace (drop start code)))"

fun simple_stmt :: "node \<Rightarrow> bool" where
  "simple_stmt (AssignStmt _ _ _) = True"
| "simple_stmt (ExprStmt _ _) = True"
| "simple_stmt (ValueSpec _ _ _ _) = True"
| "simple_stmt (Field _ _ _ _) = True"
| "simple_stmt (AstNode _ k _) = (k \<noteq> OtherNode)"
| "simple_stmt _ = False"

definition end_step :: "fileset \<Rightarrow> node \<Rightarrow> (nat \<Rightarrow> nat option) \<Rightarrow> (nat \<Rightarrow> nat option)" where
  "end_step F n ends =
     (if simple_stmt n then
        (let start = fs_line F (n_Pos (hdr_of n)); end = fs_line F (n_End (hdr_of n)) in
         if (case ends start of Some e \<Rightarrow> e | None \<Rightarrow> 0) < end then ends(start \<mapsto> end) else ends)
      else ends)"

definition statementEnds :: "fileset \<Rightarrow> fileInfo \<Rightarrow> nat \<Rightarrow> nat option" where
  "statementEnds F f = fold (end_step F) (file_nodes (f_ast f)) Map.empty"

fun recv_name :: "node \<Rightarrow> string" where
  "recv_name (Ident _ s) = s"
| "recv_name _ = ''?''"

fun strip_index :: "node \<Rightarrow> node" where
  "strip_index (IndexExpr _ x _) = x"
| "strip_index (IndexListExpr _ x _) = x"
| "strip_index n = n"

definition recv_text :: "node option \<Rightarrow> string" where
  "recv_text t =
     (case t of
        Some (StarExpr _ x) \<Rightarrow> ''*'' @ recv_name (strip_index x)
      | Some x \<Rightarrow> recv_name (strip_index x)
      | None \<Rightarrow> ''?'')"

definition funcDeclName :: "node option \<Rightarrow> string \<Rightarrow> string" where
  "funcDeclName recv name =
     (case recv of
        None \<Rightarrow> name
      | Some fl \<Rightarrow>
          (case children fl of
             [] \<Rightarrow> name
           | f # _ \<Rightarrow> ''('' @ recv_text (field_Type f) @ '').'' @ name))"

fun enclosing :: "node list \<Rightarrow> nat \<Rightarrow> string" where
  "enclosing [] pos = ''-''"
| "enclosing (d # ds) pos =
     (case d of
        FuncDecl h _ recv _ name _ _ \<Rightarrow>
          if n_Pos h \<le> pos \<and> pos < n_End h then funcDeclName recv name else enclosing ds pos
      | _ \<Rightarrow> enclosing ds pos)"

definition enclosingFunc :: "fileInfo \<Rightarrow> nat \<Rightarrow> string" where
  "enclosingFunc f pos = enclosing (af_Decls (f_ast f)) pos"

text \<open>The function whose doc comment a comment group is; a later declaration wins, as in the map.\<close>

fun has_doc :: "nat \<Rightarrow> node \<Rightarrow> bool" where
  "has_doc g (FuncDecl _ doc _ _ _ _ _) = (doc = Some g)"
| "has_doc g _ = False"

definition docOf :: "fileInfo \<Rightarrow> nat \<Rightarrow> node option" where
  "docOf f g = find (has_doc g) (rev (af_Decls (f_ast f)))"

section \<open>parseDirectives\<close>

datatype parsed = NoDirective | Bad Finding | Directive directive

text \<open>The part of the loop that places a directive whose text is valid.\<close>

definition place ::
  "fileset \<Rightarrow> fileInfo \<Rightarrow> comment_group \<Rightarrow> comment \<Rightarrow> string \<Rightarrow> string \<Rightarrow> string \<Rightarrow> parsed"
where
  "place F f cg c vb name ident =
     (let line = fs_line F (c_Pos c);
          d = \<lparr>d_file = f_name f, d_line = line, d_kind = vb, d_rule = name, d_id = ident,
               d_from = 0, d_to = 0, d_fn = None, d_fnName = [], d_used = False\<rparr>
      in if vb = ''source'' then
           (case docOf f (cg_id cg) of
              Some (FuncDecl h _ recv nh fname _ _) \<Rightarrow>
                Directive (d\<lparr>d_fn := Some (nid nh), d_fnName := funcDeclName recv fname,
                  d_from := fs_line F (n_Pos h), d_to := fs_line F (n_End h)\<rparr>)
            | _ \<Rightarrow> Bad \<lparr>fd_File = f_name f, fd_Line = line, fd_Rule = RuleDirective,
                    fd_Message = ''put //privacy:source in the doc comment of a function.''\<rparr>)
         else
           (let d = d\<lparr>d_fnName := enclosingFunc f (c_Pos c)\<rparr> in
            if codeBefore F f c then Directive (d\<lparr>d_from := line, d_to := line\<rparr>)
            else Directive (d\<lparr>d_from := Suc line,
                   d_to := (case statementEnds F f (Suc line) of Some e \<Rightarrow> e | None \<Rightarrow> Suc line)\<rparr>)))"

definition parse_comment ::
  "(string \<Rightarrow> string) \<Rightarrow> fileset \<Rightarrow> fileInfo \<Rightarrow> comment_group \<Rightarrow> comment \<Rightarrow> parsed"
where
  "parse_comment Quote F f cg c =
     (let fail = (\<lambda>msg. Bad \<lparr>fd_File = f_name f, fd_Line = fs_line F (c_Pos c), fd_Rule = RuleDirective,
                       fd_Message = msg\<rparr>)
      in if spacedRe (c_Text c) then
           fail ''write a privacy comment as a line comment //privacy:..., with no space after //.''
         else case directiveRe (c_Text c) of
             None \<Rightarrow> NoDirective
           | Some (vb, m2) \<Rightarrow>
               (let rest = TrimPrefix m2 '' ''; (name, idReason, _) = Cut rest (CHR '' '') in
                if vb \<noteq> ''allow'' \<and> vb \<noteq> ''source'' then
                  fail (''unknown privacy comment //privacy:'' @ vb @ ''. Use //privacy:allow or //privacy:source.'')
                else if vb = ''allow'' \<and> (name = RuleDirective \<or> ruleByID name = None) then
                  fail (''//privacy:allow names an unknown rule '' @ Quote name @ ''. The rules are '' @ ruleIDs @ ''.'')
                else if vb = ''source'' \<and> \<not> sourceKinds name then
                  fail (''//privacy:source names an unknown kind '' @ Quote name @ ''. The kind is client-address.'')
                else case idReasonRe idReason of
                    None \<Rightarrow> fail (''//privacy:'' @ vb @ '' '' @ name @
                      '' needs an ID (PRIV-NN, SEC-NN, b/NNN, or CL NN), a colon, and a reason.'')
                  | Some ident \<Rightarrow> place F f cg c vb name ident))"

definition parse_all :: "(string \<Rightarrow> string) \<Rightarrow> fileset \<Rightarrow> fileInfo \<Rightarrow> parsed list" where
  "parse_all Quote F f =
     concat (map (\<lambda>cg. map (parse_comment Quote F f cg) (cg_List cg)) (af_Comments (f_ast f)))"

fun bad_of :: "parsed \<Rightarrow> Finding list" where
  "bad_of (Bad b) = [b]"
| "bad_of _ = []"

fun directive_of :: "parsed \<Rightarrow> directive list" where
  "directive_of (Directive d) = [d]"
| "directive_of _ = []"

lemma in_bad_of [simp]: "b \<in> set (bad_of x) \<longleftrightarrow> x = Bad b"
  by (cases x) auto

lemma in_directive_of [simp]: "d \<in> set (directive_of x) \<longleftrightarrow> x = Directive d"
  by (cases x) auto

definition parseDirectives ::
  "(string \<Rightarrow> string) \<Rightarrow> fileset \<Rightarrow> fileInfo \<Rightarrow> Finding list \<times> directive list"
where
  "parseDirectives Quote F f =
     (concat (map bad_of (parse_all Quote F f)), concat (map directive_of (parse_all Quote F f)))"

definition allows :: "rawFinding \<Rightarrow> directive \<Rightarrow> bool" where
  "allows rf d \<longleftrightarrow> d_rule d = rf_rule rf \<and> d_from d \<le> rf_line rf \<and> rf_line rf \<le> d_to d"

definition allowing :: "directive list \<Rightarrow> rawFinding \<Rightarrow> directive option" where
  "allowing ds rf = find (allows rf) ds"

definition unusedFinding :: "directive \<Rightarrow> Finding" where
  "unusedFinding d =
     \<lparr>fd_File = d_file d, fd_Line = d_line d, fd_Rule = RuleDirective,
      fd_Message =
        (if d_kind d = ''source'' then
           ''this //privacy:source '' @ d_rule d @ '' comment marks a function that reads no client address. Remove it.''
         else ''this //privacy:allow '' @ d_rule d @ '' comment allows no finding. Remove it.'')\<rparr>"

definition exception :: "directive \<Rightarrow> Exception" where
  "exception d =
     \<lparr>ex_File = d_file d, ex_Func = d_fnName d, ex_Kind = d_kind d, ex_Rule = d_rule d, ex_ID = d_id d\<rparr>"

section \<open>Which comments are directives\<close>

text \<open>The text of a valid comment.\<close>

definition directive_text :: "string \<Rightarrow> string \<Rightarrow> string \<Rightarrow> string \<Rightarrow> string" where
  "directive_text vb name ident reason =
     ''//privacy:'' @ vb @ '' '' @ name @ '' '' @ ident @ '': '' @ reason"

definition comment_names_ok :: "string \<Rightarrow> string \<Rightarrow> bool" where
  "comment_names_ok vb name \<longleftrightarrow>
     vb = ''allow'' \<and> name \<in> set (map r_ID rules) \<or> vb = ''source'' \<and> name = RuleClientAddress"

definition id_ok :: "string \<Rightarrow> bool" where
  "id_ok i = list_ex (\<lambda>p. HasPrefix i p \<and> drop (length p) i \<noteq> [] \<and> list_all is_digit (drop (length p) i)) id_prefixes"

lemmas rule_IDs = RuleClientAddress_def RuleOutbound_def RuleServerErrorLog_def RuleMetricLabels_def
  RuleDirective_def
lemmas rule_defs = rules_def clientAddressRule_def outboundRule_def serverErrorLogRule_def metricLabelsRule_def

lemma rule_ids: "map r_ID rules = [RuleClientAddress, RuleOutbound, RuleServerErrorLog, RuleMetricLabels]"
  by (simp add: rule_defs)

lemma ruleByID_none: "ruleByID i = None \<longleftrightarrow> i \<notin> set (map r_ID rules)"
  by (auto simp: ruleByID_def find_None_iff)

lemma directive_no_rule: "RuleDirective \<notin> set (map r_ID rules)"
  by (simp add: rule_ids rule_IDs)

lemma rule_id_plain: "i \<in> set (map r_ID rules) \<Longrightarrow> CHR '' '' \<notin> set i \<and> CHR 0x0A \<notin> set i"
  by (auto simp: rule_ids rule_IDs)

lemma comment_names_ok_plain:
  assumes "comment_names_ok vb name"
  shows "list_all (\<lambda>c. \<not> re_space c) vb" "CHR '' '' \<notin> set name" "CHR 0x0A \<notin> set name"
proof -
  show "list_all (\<lambda>c. \<not> re_space c) vb"
    using assms by (auto simp: comment_names_ok_def re_space_def byte_of_def)
  have "name \<in> set (map r_ID rules)"
    using assms by (auto simp: comment_names_ok_def rule_ids)
  then show "CHR '' '' \<notin> set name" "CHR 0x0A \<notin> set name"
    using rule_id_plain by auto
qed

lemma comment_names_ok_checks:
  "comment_names_ok vb name \<longleftrightarrow>
     (vb = ''allow'' \<or> vb = ''source'') \<and>
     \<not> (vb = ''allow'' \<and> (name = RuleDirective \<or> ruleByID name = None)) \<and>
     \<not> (vb = ''source'' \<and> \<not> sourceKinds name)"
  using directive_no_rule unfolding comment_names_ok_def ruleByID_none sourceKinds_def by blast

lemma Cut_hit: "c \<notin> set xs \<Longrightarrow> Cut (xs @ c # ys) c = (xs, ys, True)"
  by (simp add: Cut_def IndexByte_append_notin)

lemma space_is_space: "re_space (CHR '' '')"
  by (simp add: re_space_def byte_of_def)

subsection \<open>The ID\<close>

lemma id_after_iff:
  "id_after p s = Some i \<longleftrightarrow>
     (\<exists>ds reason. s = p @ ds @ '': '' @ reason \<and> i = p @ ds \<and> ds \<noteq> [] \<and> list_all is_digit ds \<and> reason_ok reason)"
  (is "_ = ?R")
proof
  assume a: "id_after p s = Some i"
  let ?ds = "takeWhile is_digit (drop (length p) s)" and ?r = "dropWhile is_digit (drop (length p) s)"
  have "HasPrefix s p" "?ds \<noteq> []" "HasPrefix ?r '': ''" "reason_ok (drop 2 ?r)" "i = p @ ?ds"
    using a by (auto simp: id_after_def Let_def split: if_splits)
  moreover from this have "s = p @ drop (length p) s" "?r = '': '' @ drop 2 ?r"
    by (auto simp: HasPrefix_def prefix_def)
  moreover have "list_all is_digit ?ds"
    by (auto simp: list_all_iff dest: set_takeWhileD)
  ultimately show ?R
    by (metis append.assoc takeWhile_dropWhile_id)
next
  assume ?R
  then obtain ds reason where r: "s = p @ ds @ '': '' @ reason" "i = p @ ds" "ds \<noteq> []" "list_all is_digit ds"
    "reason_ok reason" by blast
  have colon: "\<not> is_digit (CHR '':'')"
    by (simp add: is_digit_def byte_of_def)
  have "takeWhile is_digit (ds @ '': '' @ reason) = ds" "dropWhile is_digit (ds @ '': '' @ reason) = '': '' @ reason"
    using r(4) colon by (simp_all add: takeWhile_append dropWhile_append list_all_iff)
  with r show "id_after p s = Some i"
    by (simp add: id_after_def HasPrefix_def)
qed

lemma id_prefix_unique:
  assumes "p \<in> set id_prefixes" "q \<in> set id_prefixes" "HasPrefix s p" "HasPrefix s q"
  shows "p = q"
proof -
  have "p \<noteq> []" "q \<noteq> []"
    using assms(1,2) by (auto simp: id_prefixes_def)
  then have "hd p = hd q"
    using assms(3,4) by (metis HasPrefix_def hd_append2 prefix_def)
  then show ?thesis
    using assms(1,2) by (auto simp: id_prefixes_def)
qed

lemma idReasonRe_iff:
  "idReasonRe s = Some i \<longleftrightarrow> (\<exists>p\<in>set id_prefixes. id_after p s = Some i)" (is "_ = ?R")
proof
  assume "idReasonRe s = Some i"
  then show ?R
    by (auto simp: idReasonRe_def find_Some_iff split: option.splits)
next
  assume ?R
  then obtain p where p: "p \<in> set id_prefixes" "id_after p s = Some i" by blast
  then obtain q where q: "find (\<lambda>p. id_after p s \<noteq> None) id_prefixes = Some q"
    by (cases "find (\<lambda>p. id_after p s \<noteq> None) id_prefixes") (auto simp: find_None_iff)
  then have "q \<in> set id_prefixes" "id_after q s \<noteq> None"
    by (auto simp: find_Some_iff)
  moreover have "HasPrefix s r" if "id_after r s \<noteq> None" for r
    using that by (auto simp: id_after_def Let_def split: if_splits)
  ultimately have "q = p"
    using p id_prefix_unique by (metis option.distinct(1))
  with p q show "idReasonRe s = Some i"
    by (simp add: idReasonRe_def)
qed

lemma idReasonRe_exact:
  "idReasonRe s = Some i \<longleftrightarrow> (\<exists>reason. s = i @ '': '' @ reason \<and> id_ok i \<and> reason_ok reason)"
  unfolding idReasonRe_iff id_after_iff id_ok_def list_ex_iff
  by (fastforce simp: HasPrefix_def prefix_def)

lemma id_ok_line: "id_ok i \<Longrightarrow> CHR 0x0A \<notin> set i"
proof -
  assume "id_ok i"
  then obtain p where p: "p \<in> set id_prefixes" "HasPrefix i p" "list_all is_digit (drop (length p) i)"
    by (auto simp: id_ok_def list_ex_iff)
  then have "i = p @ drop (length p) i" "CHR 0x0A \<notin> set p" "CHR 0x0A \<notin> set (drop (length p) i)"
    by (auto simp: HasPrefix_def prefix_def id_prefixes_def list_all_iff is_digit_def byte_of_def)
  then show ?thesis
    by (metis Un_iff set_append)
qed

subsection \<open>Valid comments\<close>

lemma not_spaced: "HasPrefix t ''//privacy:'' \<Longrightarrow> \<not> spacedRe t"
  by (auto simp: spacedRe_def HasPrefix_def prefix_def re_space_def byte_of_def)

lemma parse_valid:
  assumes "c_Text c = directive_text vb name ident reason" "comment_names_ok vb name" "id_ok ident" "reason_ok reason"
  shows "parse_comment Quote F f cg c = place F f cg c vb name ident"
proof -
  let ?m = "'' '' @ name @ '' '' @ ident @ '': '' @ reason"
  note plain = comment_names_ok_plain [OF assms(2)]
  have t: "c_Text c = ''//privacy:'' @ vb @ ?m"
    using assms(1) by (simp add: directive_text_def)
  have "takeWhile (\<lambda>c. \<not> re_space c) (vb @ ?m) = vb" "dropWhile (\<lambda>c. \<not> re_space c) (vb @ ?m) = ?m"
    using plain(1) space_is_space by (simp_all add: takeWhile_append dropWhile_append list_all_iff)
  moreover have "CHR 0x0A \<notin> set ?m"
    using plain(3) id_ok_line [OF assms(3)] assms(4) by (auto simp: reason_ok_def)
  ultimately have re: "directiveRe (c_Text c) = Some (vb, ?m)"
    by (simp add: directiveRe_def t HasPrefix_def)
  have trim: "TrimPrefix ?m '' '' = name @ '' '' @ ident @ '': '' @ reason"
    by (simp add: TrimPrefix_def HasPrefix_def)
  have cut: "Cut (name @ '' '' @ ident @ '': '' @ reason) (CHR '' '') = (name, ident @ '': '' @ reason, True)"
    using Cut_hit [OF plain(2), of "ident @ '': '' @ reason"] by simp
  have ident: "idReasonRe (ident @ '': '' @ reason) = Some ident"
    using assms(3,4) by (auto simp: idReasonRe_exact)
  have "\<not> spacedRe (c_Text c)"
    by (rule not_spaced) (simp add: t HasPrefix_def)
  moreover have "\<not> (vb \<noteq> ''allow'' \<and> vb \<noteq> ''source'')"
    "\<not> (vb = ''allow'' \<and> (name = RuleDirective \<or> ruleByID name = None))" "\<not> (vb = ''source'' \<and> \<not> sourceKinds name)"
    using assms(2) unfolding comment_names_ok_checks by blast+
  ultimately show ?thesis
    by (simp only: parse_comment_def Let_def re trim cut ident option.case prod.case if_False)
qed

lemma place_Directive:
  assumes "place F f cg c vb name ident = Directive d"
  shows "d_kind d = vb \<and> d_rule d = name \<and> d_id d = ident \<and> d_file d = f_name f \<and>
    d_line d = fs_line F (c_Pos c) \<and> \<not> d_used d"
  using assms by (auto simp: place_def Let_def split: if_splits option.splits node.splits)

lemma parse_Directive_text:
  assumes "parse_comment Quote F f cg c = Directive d"
  shows "\<exists>reason. c_Text c = directive_text (d_kind d) (d_rule d) (d_id d) reason \<and>
    comment_names_ok (d_kind d) (d_rule d) \<and> id_ok (d_id d) \<and> reason_ok reason"
proof -
  obtain vb m2 where re: "directiveRe (c_Text c) = Some (vb, m2)"
    using assms by (auto simp: parse_comment_def Let_def split: if_splits option.splits)
  obtain name idReason b where cut: "Cut (TrimPrefix m2 '' '') (CHR '' '') = (name, idReason, b)"
    by (metis prod_cases3)
  have names: "comment_names_ok vb name" and "\<exists>i. idReasonRe idReason = Some i"
    using assms re cut
    by (auto simp: parse_comment_def Let_def comment_names_ok_checks split: if_splits option.splits)
  then obtain ident where ident: "idReasonRe idReason = Some ident" by blast
  have "place F f cg c vb name ident = Directive d"
    using assms re cut ident names
    by (simp add: parse_comment_def Let_def comment_names_ok_checks split: if_splits)
  then have d: "d_kind d = vb" "d_rule d = name" "d_id d = ident"
    using place_Directive by blast+
  obtain reason where r: "idReason = ident @ '': '' @ reason" "id_ok ident" "reason_ok reason"
    using ident by (auto simp: idReasonRe_exact)
  have t: "c_Text c = ''//privacy:'' @ vb @ m2" "m2 = [] \<or> re_space (hd m2)"
    using re by (auto simp: directiveRe_def HasPrefix_def prefix_def Let_def hd_dropWhile split: if_splits)
      (metis hd_dropWhile dropWhile_eq_Nil_conv)
  have idne: "idReason \<noteq> []"
    using r by simp
  have rest: "TrimPrefix m2 '' '' = name @ '' '' @ idReason"
  proof (cases "IndexByte (TrimPrefix m2 '' '') (CHR '' '')")
    case None
    with cut idne show ?thesis by (simp add: Cut_def)
  next
    case (Some i)
    with cut IndexByte_Some_split [OF Some] show ?thesis by (simp add: Cut_def)
  qed
  have "name \<noteq> [] \<and> \<not> re_space (hd name)"
    using names by (auto simp: comment_names_ok_def rule_ids rule_IDs re_space_def byte_of_def)
  then have "m2 = '' '' @ name @ '' '' @ idReason"
    using rest t(2) by (cases "HasPrefix m2 '' ''") (auto simp: TrimPrefix_def HasPrefix_def prefix_def)
  then show ?thesis
    using t(1) r names d by (auto simp: directive_text_def)
qed

lemma place_allow: "\<exists>d. place F f cg c ''allow'' name ident = Directive d"
  by (simp add: place_def Let_def)

text \<open>C26: A comment becomes an allow directive of a rule with an ID exactly if its text is
  \<open>//privacy:allow <rule> <ID>: <reason>\<close>, with one of the four rules, an ID of one of the
  four forms and a reason that is not empty: the text of such a directive parses back to it,
  and no other text does.
\<close>

theorem allow_comment_exact:
  "(\<exists>d. parse_comment Quote F f cg c = Directive d \<and> d_kind d = ''allow'' \<and> d_rule d = name \<and> d_id d = ident) \<longleftrightarrow>
   (\<exists>reason. c_Text c = directive_text ''allow'' name ident reason \<and> name \<in> set (map r_ID rules) \<and>
      id_ok ident \<and> reason_ok reason)" (is "?L = ?R")
proof
  assume ?L
  then obtain d where d: "parse_comment Quote F f cg c = Directive d" "d_kind d = ''allow''" "d_rule d = name" "d_id d = ident"
    by blast
  from parse_Directive_text [OF d(1)] show ?R
    unfolding d by (auto simp: comment_names_ok_def)
next
  assume ?R
  then obtain reason where r: "c_Text c = directive_text ''allow'' name ident reason" "comment_names_ok ''allow'' name"
      "id_ok ident" "reason_ok reason" by (auto simp: comment_names_ok_def)
  obtain d where "place F f cg c ''allow'' name ident = Directive d"
    using place_allow by blast
  with parse_valid [OF r] place_Directive [OF this] show ?L by simp
qed

end
