(* ===== verification/Lint_Run.thy ===== *)
theory Lint_Run
  imports Lint_Directive "HOL-Library.AList"
begin

text \<open>
  A run of the privacy lint: \<open>analyze\<close>, the merger of the passes for several operating systems
  and the list of exceptions (\<open>privacylint.go\<close> and the end of \<open>directive.go\<close>). A unit is what
  the loader hands over for one operating system.

  A map that the code ranges over is an association list; its order does not show in the
  result, which is sorted by every field.

  The lemmas follow a finding through the merger: what no comment allows is in the result,
  what a comment allows makes that comment an exception, and a comment is an exception exactly
  if it allowed something in some pass.
\<close>

section \<open>analyze\<close>

record pkgInfo =
  pk_info :: info
  pk_files :: "fileInfo list"

record lint_unit =
  u_fset :: fileset
  u_pkgs :: "pkgInfo list"

text \<open>\<open>strconv.Quote\<close> and \<open>strconv.Unquote\<close>\<close>

record golib =
  lib_Quote :: "string \<Rightarrow> string"
  lib_Unquote :: "string \<Rightarrow> string option"

record analysis =
  a_findings :: "Finding list"
  a_directives :: "directive list"

definition file_directives :: "golib \<Rightarrow> lint_unit \<Rightarrow> fileInfo \<Rightarrow> directive list" where
  "file_directives L u f = snd (parseDirectives (lib_Quote L) (u_fset u) f)"

definition file_bad :: "golib \<Rightarrow> lint_unit \<Rightarrow> fileInfo \<Rightarrow> Finding list" where
  "file_bad L u f = fst (parseDirectives (lib_Quote L) (u_fset u) f)"

text \<open>The full name that a source comment adds to \<open>sources\<close>.\<close>

definition source_name :: "info \<Rightarrow> directive \<Rightarrow> string list" where
  "source_name I d =
     (if d_kind d = ''source'' \<and> d_rule d = RuleClientAddress then
        (case d_fn d of
           Some i \<Rightarrow> (case as_func (Defs I i) of Some fn \<Rightarrow> [fn_FullName fn] | None \<Rightarrow> [])
         | None \<Rightarrow> [])
      else [])"

definition unit_files :: "lint_unit \<Rightarrow> (pkgInfo \<times> fileInfo) list" where
  "unit_files u = concat (map (\<lambda>p. map (\<lambda>f. (p, f)) (pk_files p)) (u_pkgs u))"

definition unit_sources :: "golib \<Rightarrow> lint_unit \<Rightarrow> string list" where
  "unit_sources L u =
     concat (map (\<lambda>(p, f). concat (map (source_name (pk_info p)) (file_directives L u f))) (unit_files u))"

definition rule_pass :: "golib \<Rightarrow> lint_unit \<Rightarrow> pkgInfo \<Rightarrow> fileInfo \<Rightarrow> Rule \<Rightarrow> lint_pass" where
  "rule_pass L u p f r =
     \<lparr>p_line = fs_line (u_fset u), p_info = pk_info p, p_sources = unit_sources L u, p_ast = f_ast f,
      p_Unquote = lib_Unquote L, p_rule = \<lparr>r_ID = r_ID r, r_Policy = r_Policy r\<rparr>\<rparr>"

text \<open>The findings of every rule on one file, in report order.\<close>

definition raw_findings :: "golib \<Rightarrow> lint_unit \<Rightarrow> pkgInfo \<Rightarrow> fileInfo \<Rightarrow> rawFinding list" where
  "raw_findings L u p f = concat (map (\<lambda>r. r_check r (rule_pass L u p f r)) rules)"

definition finding_of :: "fileInfo \<Rightarrow> rawFinding \<Rightarrow> Finding" where
  "finding_of f rf = \<lparr>fd_File = f_name f, fd_Line = rf_line rf, fd_Rule = rf_rule rf, fd_Message = rf_msg rf\<rparr>"

text \<open>\<open>d.used = true\<close> on the directive that \<open>allowing\<close> returns, the first one that allows the finding.\<close>

fun mark_used :: "rawFinding \<Rightarrow> directive list \<Rightarrow> directive list" where
  "mark_used rf [] = []"
| "mark_used rf (d # ds) = (if allows rf d then d\<lparr>d_used := True\<rparr> # ds else d # mark_used rf ds)"

definition judge :: "fileInfo \<Rightarrow> rawFinding \<Rightarrow> Finding list \<times> directive list \<Rightarrow> Finding list \<times> directive list" where
  "judge f rf s =
     (case s of (out, ds) \<Rightarrow>
        if allowing ds rf \<noteq> None then (out, mark_used rf ds) else (out @ [finding_of f rf], ds))"

definition analyze_file :: "golib \<Rightarrow> lint_unit \<Rightarrow> pkgInfo \<Rightarrow> fileInfo \<Rightarrow> Finding list \<times> directive list" where
  "analyze_file L u p f = fold (judge f) (raw_findings L u p f) ([], file_directives L u f)"

definition analyze :: "golib \<Rightarrow> lint_unit \<Rightarrow> analysis" where
  "analyze L u =
     \<lparr>a_findings = concat (map (\<lambda>(p, f). file_bad L u f) (unit_files u)) @
        concat (map (\<lambda>(p, f). fst (analyze_file L u p f)) (unit_files u)),
      a_directives = concat (map (\<lambda>(p, f). snd (analyze_file L u p f)) (unit_files u))\<rparr>"

section \<open>The merger\<close>

definition Finding_String :: "Finding \<Rightarrow> string" where
  "Finding_String f =
     fd_File f @ '':'' @ itoa_nat (fd_Line f) @ '': ['' @ fd_Rule f @ ''] '' @ fd_Message f"

definition directive_key :: "directive \<Rightarrow> string" where
  "directive_key d = d_file d @ '':'' @ itoa_nat (d_line d)"

record merger =
  m_findings :: "(string \<times> Finding) list"
  m_directives :: "string \<Rightarrow> directive option"
  m_order :: "string list"

definition newMerger :: merger where
  "newMerger = \<lparr>m_findings = [], m_directives = Map.empty, m_order = []\<rparr>"

definition put_finding :: "Finding \<Rightarrow> merger \<Rightarrow> merger" where
  "put_finding f m = m\<lparr>m_findings := AList.update (Finding_String f) f (m_findings m)\<rparr>"

definition put_directive :: "directive \<Rightarrow> merger \<Rightarrow> merger" where
  "put_directive d m =
     (let key = directive_key d in
      case m_directives m key of
        Some old \<Rightarrow> m\<lparr>m_directives := (m_directives m)(key \<mapsto> old\<lparr>d_used := (d_used old \<or> d_used d)\<rparr>)\<rparr>
      | None \<Rightarrow> m\<lparr>m_directives := (m_directives m)(key \<mapsto> d), m_order := m_order m @ [key]\<rparr>)"

definition merger_add :: "analysis \<Rightarrow> merger \<Rightarrow> merger" where
  "merger_add a m = fold put_directive (a_directives a) (fold put_finding (a_findings a) m)"

text \<open>\<open>sort.Slice\<close> with a strict order that is total on the values.\<close>

fun insert_by :: "('a \<Rightarrow> 'a \<Rightarrow> bool) \<Rightarrow> 'a \<Rightarrow> 'a list \<Rightarrow> 'a list" where
  "insert_by lt x [] = [x]"
| "insert_by lt x (y # ys) = (if lt y x then y # insert_by lt x ys else x # y # ys)"

definition sort_Slice :: "('a \<Rightarrow> 'a \<Rightarrow> bool) \<Rightarrow> 'a list \<Rightarrow> 'a list" where
  "sort_Slice lt xs = foldr (insert_by lt) xs []"

definition finding_less :: "Finding \<Rightarrow> Finding \<Rightarrow> bool" where
  "finding_less a b =
     (if fd_File a \<noteq> fd_File b then fd_File a < fd_File b
      else if fd_Line a \<noteq> fd_Line b then fd_Line a < fd_Line b
      else if fd_Rule a \<noteq> fd_Rule b then fd_Rule a < fd_Rule b
      else fd_Message a < fd_Message b)"

definition exception_less :: "Exception \<Rightarrow> Exception \<Rightarrow> bool" where
  "exception_less a b =
     (if ex_File a \<noteq> ex_File b then ex_File a < ex_File b
      else if ex_Func a \<noteq> ex_Func b then ex_Func a < ex_Func b
      else if ex_Kind a \<noteq> ex_Kind b then ex_Kind a < ex_Kind b
      else if ex_Rule a \<noteq> ex_Rule b then ex_Rule a < ex_Rule b
      else ex_ID a < ex_ID b)"

definition sortExceptions :: "Exception list \<Rightarrow> Exception list" where
  "sortExceptions = sort_Slice exception_less"

record Result =
  res_Findings :: "Finding list"
  res_Exceptions :: "Exception list"

text \<open>The loop over \<open>m.order\<close>.\<close>

definition settle :: "merger \<Rightarrow> string \<Rightarrow> (string \<times> Finding) list \<times> Exception list \<Rightarrow>
    (string \<times> Finding) list \<times> Exception list" where
  "settle m key s =
     (case s of (fs, es) \<Rightarrow>
        (case m_directives m key of
           Some d \<Rightarrow>
             if \<not> d_used d then (AList.update (key @ '':unused'') (unusedFinding d) fs, es)
             else (fs, es @ [exception d])
         | None \<Rightarrow> (fs, es)))"

definition merger_result :: "merger \<Rightarrow> Result" where
  "merger_result m =
     (case fold (settle m) (m_order m) (m_findings m, []) of (fs, es) \<Rightarrow>
        \<lparr>res_Findings = sort_Slice finding_less (map snd fs), res_Exceptions = sortExceptions es\<rparr>)"

text \<open>The passes of one run.\<close>

definition lint :: "golib \<Rightarrow> lint_unit list \<Rightarrow> Result" where
  "lint L us = merger_result (fold (\<lambda>u m. merger_add (analyze L u) m) us newMerger)"

section \<open>exceptions.txt\<close>

definition exceptionsHeader :: string where
  "exceptionsHeader =
     ''# Privacy lint exceptions: every //privacy:allow and //privacy:source comment'' @ [CHR 0x0A] @
     ''# that the code needs. This file is generated. Do not edit it. When you add,'' @ [CHR 0x0A] @
     ''# move, or remove such a comment, run:'' @ [CHR 0x0A] @
     ''#'' @ [CHR 0x0A] @
     ''#   go test ./internal/privacylint -run TestRepository -update'' @ [CHR 0x0A] @
     ''#'' @ [CHR 0x0A] @
     ''# Then review the change to this file like any other privacy change.'' @ [CHR 0x0A] @
     ''# Columns (separated by tabs): file, function, kind, rule, ID.'' @ [CHR 0x0A]"

definition exception_line :: "Exception \<Rightarrow> string" where
  "exception_line e = Join [ex_File e, ex_Func e, ex_Kind e, ex_Rule e, ex_ID e] [CHR 0x09] @ [CHR 0x0A]"

definition FormatExceptions :: "Exception list \<Rightarrow> string" where
  "FormatExceptions ex = exceptionsHeader @ concat (map exception_line (sortExceptions ex))"

section \<open>One file\<close>

lemma mark_used_keeps:
  "map (\<lambda>d. d\<lparr>d_used := False\<rparr>) (mark_used rf ds) = map (\<lambda>d. d\<lparr>d_used := False\<rparr>) ds"
  by (induction ds) auto

lemma allows_used [simp]: "allows rf (d\<lparr>d_used := b\<rparr>) = allows rf d"
  by (simp add: allows_def)

lemma allowing_mark [simp]: "allowing (mark_used rf' ds) rf = None \<longleftrightarrow> allowing ds rf = None"
  by (induction ds) (auto simp: allowing_def)

text \<open>
  A directive is used at the end exactly if it was used before or if it is the first that
  allows some finding.
\<close>

definition used_by :: "rawFinding list \<Rightarrow> directive list \<Rightarrow> nat \<Rightarrow> bool" where
  "used_by rfs ds i \<longleftrightarrow> (\<exists>rf\<in>set rfs. allows rf (ds ! i) \<and> (\<forall>j<i. \<not> allows rf (ds ! j)))"

lemma mark_used_length [simp]: "length (mark_used rf ds) = length ds"
  by (induction ds) auto

lemma mark_used_nth:
  "i < length ds \<Longrightarrow>
     mark_used rf ds ! i = (ds ! i)\<lparr>d_used := (d_used (ds ! i) \<or> used_by [rf] ds i)\<rparr>"
proof (induction ds arbitrary: i)
  case (Cons d ds)
  show ?case
  proof (cases i)
    case 0
    then show ?thesis by (simp add: used_by_def)
  next
    case (Suc k)
    then have k: "k < length ds" using Cons.prems by simp
    have "used_by [rf] (d # ds) i \<longleftrightarrow> \<not> allows rf d \<and> used_by [rf] ds k"
      unfolding Suc used_by_def by (auto simp: less_Suc_eq_0_disj)
    with Cons.IH [OF k] Suc show ?thesis by simp
  qed
qed simp

lemma used_by_cong:
  assumes "map (\<lambda>d. d\<lparr>d_used := False\<rparr>) ds = map (\<lambda>d. d\<lparr>d_used := False\<rparr>) es" "i < length ds"
  shows "used_by rfs ds i = used_by rfs es i"
proof -
  have "allows rf (ds ! j) = allows rf (es ! j)" if "j < length ds" for rf j
  proof -
    have "(ds ! j)\<lparr>d_used := False\<rparr> = (es ! j)\<lparr>d_used := False\<rparr>"
      using assms(1) that by (metis length_map nth_map)
    then show ?thesis
      by (metis allows_used)
  qed
  with assms(2) show ?thesis
    by (auto simp: used_by_def)
qed

definition after_judge :: "rawFinding \<Rightarrow> directive list \<Rightarrow> directive list" where
  "after_judge rf ds = (if allowing ds rf = None then ds else mark_used rf ds)"

lemma after_judge_simps [simp]:
  "length (after_judge rf ds) = length ds"
  "allowing (after_judge rf ds) rf' = None \<longleftrightarrow> allowing ds rf' = None"
  by (simp_all add: after_judge_def)

lemma after_judge_nth:
  assumes "i < length ds"
  shows "after_judge rf ds ! i = (ds ! i)\<lparr>d_used := (d_used (ds ! i) \<or> used_by [rf] ds i)\<rparr>"
proof (cases "allowing ds rf = None")
  case True
  then have "\<not> used_by [rf] ds i"
    using assms by (auto simp: used_by_def allowing_def find_None_iff)
  with True show ?thesis by (simp add: after_judge_def)
qed (auto simp: after_judge_def mark_used_nth assms)

lemma after_judge_used_by:
  assumes "i < length ds"
  shows "used_by rfs (after_judge rf ds) i = used_by rfs ds i"
  by (rule used_by_cong) (simp_all add: assms after_judge_def mark_used_keeps)

lemma judge_step:
  "judge f rf (out, ds) =
     (if allowing ds rf = None then out @ [finding_of f rf] else out, after_judge rf ds)"
  by (simp add: judge_def after_judge_def)

lemma judge_fold_out:
  "fst (fold (judge f) rfs (out, ds)) = out @ map (finding_of f) (filter (\<lambda>rf. allowing ds rf = None) rfs)"
  by (induction rfs arbitrary: out ds) (simp_all add: judge_step)

lemma judge_fold_length: "length (snd (fold (judge f) rfs (out, ds))) = length ds"
  by (induction rfs arbitrary: out ds) (simp_all add: judge_step)

lemma judge_fold_nth:
  "i < length ds \<Longrightarrow> snd (fold (judge f) rfs (out, ds)) ! i =
     (ds ! i)\<lparr>d_used := (d_used (ds ! i) \<or> used_by rfs ds i)\<rparr>"
proof (induction rfs arbitrary: out ds)
  case (Cons rf rfs)
  have "used_by (rf # rfs) ds i \<longleftrightarrow> used_by [rf] ds i \<or> used_by rfs ds i"
    by (auto simp: used_by_def)
  with Cons show ?case
    by (simp add: judge_step after_judge_nth after_judge_used_by)
qed (simp add: used_by_def)

lemma parsed_unused:
  assumes "d \<in> set (file_directives L u f)"
  shows "\<not> d_used d \<and> d_file d = f_name f \<and> comment_names_ok (d_kind d) (d_rule d)"
proof -
  obtain cg c where c: "parse_comment (lib_Quote L) (u_fset u) f cg c = Directive d"
    using assms by (auto simp: file_directives_def parseDirectives_def parse_all_def)
  from parse_Directive_text [OF c] obtain reason where
    r: "c_Text c = directive_text (d_kind d) (d_rule d) (d_id d) reason" "comment_names_ok (d_kind d) (d_rule d)"
      "id_ok (d_id d)" "reason_ok reason" by blast
  have "place (u_fset u) f cg c (d_kind d) (d_rule d) (d_id d) = Directive d"
    using c by (simp only: parse_valid [OF r])
  from place_Directive [OF this] r(2) show ?thesis by simp
qed

section \<open>The merged directives\<close>

definition any_used :: "directive list \<Rightarrow> string \<Rightarrow> bool" where
  "any_used ds k = list_ex (\<lambda>d. directive_key d = k \<and> d_used d) ds"

text \<open>
  The merger holds one directive for each place of the ones that were added, used if any of
  them was.
\<close>

definition merged :: "merger \<Rightarrow> directive list \<Rightarrow> bool" where
  "merged m ds \<longleftrightarrow> set (m_order m) = directive_key ` set ds \<and> dom (m_directives m) = directive_key ` set ds \<and>
     (\<forall>k x. m_directives m k = Some x \<longrightarrow>
        (\<exists>d\<in>set ds. directive_key d = k \<and> x = d\<lparr>d_used := any_used ds k\<rparr>))"

lemma merged_new: "merged newMerger []"
  by (simp add: merged_def newMerger_def)

lemma any_used_snoc:
  "any_used (ds @ [d]) k \<longleftrightarrow> any_used ds k \<or> k = directive_key d \<and> d_used d"
  by (auto simp: any_used_def)

lemma merged_Some:
  "merged m ds \<Longrightarrow> m_directives m k = Some x \<Longrightarrow>
     \<exists>d\<in>set ds. directive_key d = k \<and> x = d\<lparr>d_used := any_used ds k\<rparr>"
  by (simp add: merged_def)

lemma merged_upd:
  assumes "merged m ds" "set ord = directive_key ` set (ds @ [d])" "e \<in> set (ds @ [d])"
    "directive_key e = directive_key d" "x = e\<lparr>d_used := any_used (ds @ [d]) (directive_key d)\<rparr>"
  shows "merged (m\<lparr>m_directives := (m_directives m)(directive_key d \<mapsto> x), m_order := ord\<rparr>) (ds @ [d])"
proof -
  have "\<exists>e\<in>set (ds @ [d]). directive_key e = k \<and> y = e\<lparr>d_used := any_used (ds @ [d]) k\<rparr>"
    if "((m_directives m)(directive_key d \<mapsto> x)) k = Some y" for k y
  proof (cases "k = directive_key d")
    case True
    with that assms(3-5) show ?thesis by auto
  next
    case False
    with that merged_Some [OF assms(1), of k y] show ?thesis by (auto simp: any_used_snoc)
  qed
  then show ?thesis
    using assms(1,2) by (simp add: merged_def)
qed

lemma merged_put:
  assumes "merged m ds"
  shows "merged (put_directive d m) (ds @ [d])"
proof (cases "m_directives m (directive_key d)")
  case None
  then have "directive_key d \<notin> directive_key ` set ds"
    using assms by (auto simp: merged_def)
  then have "\<not> any_used ds (directive_key d)"
    unfolding any_used_def list_ex_iff by (metis image_eqI)
  then have d: "d = d\<lparr>d_used := any_used (ds @ [d]) (directive_key d)\<rparr>"
    by (simp add: any_used_snoc)
  have "merged (m\<lparr>m_directives := (m_directives m)(directive_key d \<mapsto> d),
      m_order := m_order m @ [directive_key d]\<rparr>) (ds @ [d])"
    by (rule merged_upd [OF assms _ _ _ d]) (use assms in \<open>auto simp: merged_def\<close>)
  then show ?thesis
    by (simp add: put_directive_def None Let_def)
next
  case (Some x)
  then obtain e where e: "e \<in> set ds" "directive_key e = directive_key d"
      "x = e\<lparr>d_used := any_used ds (directive_key d)\<rparr>"
    using merged_Some [OF assms] by blast
  have "set (m_order m) = directive_key ` set (ds @ [d])"
    using assms e by (auto simp: merged_def) (metis image_eqI)
  moreover have "x\<lparr>d_used := (d_used x \<or> d_used d)\<rparr> = e\<lparr>d_used := any_used (ds @ [d]) (directive_key d)\<rparr>"
    using e by (simp add: any_used_snoc)
  ultimately have "merged (m\<lparr>m_directives := (m_directives m)(directive_key d \<mapsto> x\<lparr>d_used := (d_used x \<or> d_used d)\<rparr>),
      m_order := m_order m\<rparr>) (ds @ [d])"
    using e by (intro merged_upd [OF assms]) auto
  then show ?thesis
    by (simp add: put_directive_def Some Let_def)
qed

lemma merged_fold: "merged m ds \<Longrightarrow> merged (fold put_directive es m) (ds @ es)"
proof (induction es arbitrary: m ds)
  case (Cons e es)
  from Cons.IH [OF merged_put [OF Cons.prems]] show ?case by simp
qed simp

lemma put_finding_fields [simp]:
  "m_directives (fold put_finding fs m) = m_directives m" "m_order (fold put_finding fs m) = m_order m"
  by (induction fs arbitrary: m) (simp_all add: put_finding_def)

lemma put_directive_findings [simp]: "m_findings (fold put_directive ds m) = m_findings m"
  by (induction ds arbitrary: m) (simp_all add: put_directive_def Let_def split: option.split)

definition all_findings :: "golib \<Rightarrow> lint_unit list \<Rightarrow> Finding list" where
  "all_findings L us = concat (map (\<lambda>u. a_findings (analyze L u)) us)"

definition all_directives :: "golib \<Rightarrow> lint_unit list \<Rightarrow> directive list" where
  "all_directives L us = concat (map (\<lambda>u. a_directives (analyze L u)) us)"

definition merge_units :: "golib \<Rightarrow> lint_unit list \<Rightarrow> merger \<Rightarrow> merger" where
  "merge_units L us m = fold (\<lambda>u m. merger_add (analyze L u) m) us m"

lemma merged_add: "merged m ds \<Longrightarrow> merged (merger_add a m) (ds @ a_directives a)"
  unfolding merger_add_def by (rule merged_fold) (simp add: merged_def)

lemma merged_units: "merged m ds \<Longrightarrow> merged (merge_units L us m) (ds @ all_directives L us)"
proof (induction us arbitrary: m ds)
  case (Cons u us)
  from Cons.IH [OF merged_add [OF Cons.prems]] show ?case
    by (simp add: merge_units_def all_directives_def)
qed (simp add: merge_units_def all_directives_def)

section \<open>The merged findings\<close>

definition put_all :: "('a \<Rightarrow> string) \<Rightarrow> ('a \<Rightarrow> Finding) \<Rightarrow> 'a list \<Rightarrow> (string \<times> Finding) list \<Rightarrow> (string \<times> Finding) list" where
  "put_all key val xs al = fold (\<lambda>x. AList.update (key x) (val x)) xs al"

lemma update_set:
  "(\<forall>w. (k, w) \<in> set al \<longrightarrow> w = v) \<Longrightarrow> set (AList.update k v al) = insert (k, v) (set al)"
  by (induction al) auto

lemma update_Nil: "AList.update k v al \<noteq> []"
  by (cases al) auto

lemma put_all_Nil: "put_all key val xs al = [] \<longleftrightarrow> xs = [] \<and> al = []"
  by (induction xs arbitrary: al) (auto simp: put_all_def update_Nil)

lemma put_all_set:
  assumes "\<And>k v w. (k, v) \<in> P \<Longrightarrow> (k, w) \<in> P \<Longrightarrow> v = w"
    "set al \<subseteq> P" "\<And>x. x \<in> set xs \<Longrightarrow> (key x, val x) \<in> P"
  shows "set (put_all key val xs al) = set al \<union> (\<lambda>x. (key x, val x)) ` set xs"
  using assms(2,3)
proof (induction xs arbitrary: al)
  case (Cons x xs)
  have "set (AList.update (key x) (val x) al) = insert (key x, val x) (set al)"
    by (rule update_set) (use assms(1) Cons.prems in \<open>meson list.set_intros(1) subsetD\<close>)
  with Cons.IH [of "AList.update (key x) (val x) al"] Cons.prems show ?case
    by (auto simp: put_all_def)
qed (simp add: put_all_def)

lemma merge_units_findings:
  "m_findings (merge_units L us m) = put_all Finding_String (\<lambda>f. f) (all_findings L us) (m_findings m)"
proof -
  have *: "m_findings (fold put_finding fs m) = put_all Finding_String (\<lambda>f. f) fs (m_findings m)" for fs m
    by (induction fs arbitrary: m) (simp_all add: put_finding_def put_all_def)
  show ?thesis
    by (induction us arbitrary: m)
      (simp_all add: merge_units_def all_findings_def put_all_def merger_add_def * [unfolded put_all_def])
qed

text \<open>The loop of \<open>result\<close>.\<close>

lemma settle_fold:
  assumes "\<And>k. k \<in> set ks \<Longrightarrow> m_directives m k \<noteq> None"
  shows "fold (settle m) ks (fs, es) =
    (put_all (\<lambda>k. k @ '':unused'') (\<lambda>k. unusedFinding (the (m_directives m k)))
       (filter (\<lambda>k. \<not> d_used (the (m_directives m k))) ks) fs,
     es @ map (\<lambda>k. exception (the (m_directives m k))) (filter (\<lambda>k. d_used (the (m_directives m k))) ks))"
  using assms
proof (induction ks arbitrary: fs es)
  case (Cons k ks)
  then obtain d where "m_directives m k = Some d" by fastforce
  with Cons show ?case
    by (simp add: settle_def put_all_def)
qed (simp add: put_all_def)

lemma insert_by_set [simp]: "set (insert_by lt x xs) = insert x (set xs)"
  by (induction xs) auto

lemma sort_Slice_set [simp]: "set (sort_Slice lt xs) = set xs"
  by (induction xs) (auto simp: sort_Slice_def)

lemma sort_Slice_Nil [simp]: "sort_Slice lt xs = [] \<longleftrightarrow> xs = []"
  by (metis set_empty sort_Slice_set)

section \<open>What a run reports\<close>

abbreviation final :: "golib \<Rightarrow> lint_unit list \<Rightarrow> merger" where
  "final L us \<equiv> merge_units L us newMerger"

lemma final_merged: "merged (final L us) (all_directives L us)"
  using merged_units [OF merged_new] by simp

lemma final_findings: "m_findings (final L us) = put_all Finding_String (\<lambda>f. f) (all_findings L us) []"
  by (simp add: merge_units_findings) (simp add: newMerger_def)

text \<open>The directives of the places where none was used, and where one was.\<close>

definition unused_keys :: "golib \<Rightarrow> lint_unit list \<Rightarrow> string list" where
  "unused_keys L us = filter (\<lambda>k. \<not> any_used (all_directives L us) k) (m_order (final L us))"

lemma final_directive:
  assumes "k \<in> set (m_order (final L us))"
  shows "\<exists>d\<in>set (all_directives L us). directive_key d = k \<and>
    m_directives (final L us) k = Some (d\<lparr>d_used := any_used (all_directives L us) k\<rparr>)"
proof -
  have "k \<in> dom (m_directives (final L us))"
    using assms final_merged by (simp add: merged_def)
  then show ?thesis
    using merged_Some [OF final_merged] by blast
qed

lemma final_used:
  "k \<in> set (m_order (final L us)) \<Longrightarrow>
     d_used (the (m_directives (final L us) k)) = any_used (all_directives L us) k"
  using final_directive by fastforce

lemma lint_result:
  "lint L us =
     \<lparr>res_Findings = sort_Slice finding_less (map snd
        (put_all (\<lambda>k. k @ '':unused'') (\<lambda>k. unusedFinding (the (m_directives (final L us) k)))
          (unused_keys L us) (put_all Finding_String (\<lambda>f. f) (all_findings L us) []))),
      res_Exceptions = sortExceptions (map (\<lambda>k. exception (the (m_directives (final L us) k)))
        (filter (any_used (all_directives L us)) (m_order (final L us))))\<rparr>"
proof -
  have some: "\<And>k. k \<in> set (m_order (final L us)) \<Longrightarrow> m_directives (final L us) k \<noteq> None"
    using final_directive by fastforce
  have "filter (\<lambda>k. \<not> d_used (the (m_directives (final L us) k))) (m_order (final L us)) = unused_keys L us"
    unfolding unused_keys_def by (rule filter_cong) (simp_all add: final_used)
  moreover have "filter (\<lambda>k. d_used (the (m_directives (final L us) k))) (m_order (final L us)) =
      filter (any_used (all_directives L us)) (m_order (final L us))"
    by (rule filter_cong) (simp_all add: final_used)
  ultimately show ?thesis
    unfolding lint_def merger_result_def merge_units_def [symmetric] final_findings
    by (subst settle_fold) (use some in auto)
qed

text \<open>A run has no findings exactly if no pass has one and every comment was used in some pass.\<close>

lemma lint_clean:
  "res_Findings (lint L us) = [] \<longleftrightarrow>
     all_findings L us = [] \<and> (\<forall>d\<in>set (all_directives L us). any_used (all_directives L us) (directive_key d))"
proof -
  have "set (m_order (final L us)) = directive_key ` set (all_directives L us)"
    using final_merged by (simp add: merged_def)
  then have "unused_keys L us = [] \<longleftrightarrow>
      (\<forall>d\<in>set (all_directives L us). any_used (all_directives L us) (directive_key d))"
    by (auto simp: unused_keys_def filter_empty_conv)
  then show ?thesis
    by (auto simp: lint_result put_all_Nil)
qed

text \<open>
  Two passes read the same text of a file, so the directives of one place agree but for the
  flag.
\<close>

definition same_text :: "directive list \<Rightarrow> bool" where
  "same_text ds = list_all (\<lambda>d. list_all (\<lambda>e.
     directive_key d = directive_key e \<longrightarrow> d\<lparr>d_used := False\<rparr> = e\<lparr>d_used := False\<rparr>) ds) ds"

lemma exception_used [simp]: "exception (d\<lparr>d_used := b\<rparr>) = exception d"
  by (simp add: exception_def)

lemma unusedFinding_used [simp]: "unusedFinding (d\<lparr>d_used := b\<rparr>) = unusedFinding d"
  by (simp add: unusedFinding_def)

lemma final_same:
  assumes "same_text (all_directives L us)" "d \<in> set (all_directives L us)"
  shows "exception (the (m_directives (final L us) (directive_key d))) = exception d"
    "unusedFinding (the (m_directives (final L us) (directive_key d))) = unusedFinding d"
proof -
  have "directive_key d \<in> set (m_order (final L us))"
    using final_merged assms(2) by (simp add: merged_def)
  then obtain e where e: "e \<in> set (all_directives L us)" "directive_key e = directive_key d"
      "m_directives (final L us) (directive_key d) =
        Some (e\<lparr>d_used := any_used (all_directives L us) (directive_key d)\<rparr>)"
    using final_directive by blast
  then have "d\<lparr>d_used := False\<rparr> = e\<lparr>d_used := False\<rparr>"
    using assms unfolding same_text_def list_all_iff by metis
  from arg_cong [OF this, of exception] arg_cong [OF this, of unusedFinding]
  have "exception d = exception e" "unusedFinding d = unusedFinding e"
    by simp_all
  with e(3) show "exception (the (m_directives (final L us) (directive_key d))) = exception d"
    "unusedFinding (the (m_directives (final L us) (directive_key d))) = unusedFinding d"
    by simp_all
qed

text \<open>The exceptions are the comments of the places where one was used.\<close>

lemma lint_exceptions:
  assumes "same_text (all_directives L us)"
  shows "set (res_Exceptions (lint L us)) =
    exception ` {d \<in> set (all_directives L us). any_used (all_directives L us) (directive_key d)}"
proof -
  have order: "set (m_order (final L us)) = directive_key ` set (all_directives L us)"
    using final_merged by (simp add: merged_def)
  have "set (res_Exceptions (lint L us)) = (\<lambda>k. exception (the (m_directives (final L us) k))) `
      {k \<in> directive_key ` set (all_directives L us). any_used (all_directives L us) k}"
    by (auto simp: lint_result sortExceptions_def order)
  also have "\<dots> = (\<lambda>d. exception (the (m_directives (final L us) (directive_key d)))) `
      {d \<in> set (all_directives L us). any_used (all_directives L us) (directive_key d)}"
    by auto
  also have "\<dots> = exception ` {d \<in> set (all_directives L us). any_used (all_directives L us) (directive_key d)}"
    by (rule image_cong) (simp_all add: final_same [OF assms])
  finally show ?thesis .
qed

section \<open>Findings and comments of the passes\<close>

text \<open>A finding that no comment of its file allows, and one about an invalid comment.\<close>

definition reported :: "golib \<Rightarrow> lint_unit list \<Rightarrow> Finding \<Rightarrow> bool" where
  "reported L us g = list_ex (\<lambda>u. list_ex (\<lambda>(p, f). list_ex (\<lambda>rf.
     allowing (file_directives L u f) rf = None \<and> g = finding_of f rf) (raw_findings L u p f)) (unit_files u)) us"

definition invalid :: "golib \<Rightarrow> lint_unit list \<Rightarrow> Finding \<Rightarrow> bool" where
  "invalid L us g = list_ex (\<lambda>u. list_ex (\<lambda>(p, f). g \<in> set (file_bad L u f)) (unit_files u)) us"

lemma in_all_findings: "g \<in> set (all_findings L us) \<longleftrightarrow> reported L us g \<or> invalid L us g"
  by (fastforce simp: all_findings_def analyze_def analyze_file_def judge_fold_out reported_def invalid_def
      list_ex_iff)

text \<open>A comment of a pass after the pass: used if it is the first that allows some finding of its file.\<close>

lemma in_all_directives:
  "d \<in> set (all_directives L us) \<longleftrightarrow>
     (\<exists>u\<in>set us. \<exists>(p, f)\<in>set (unit_files u). \<exists>i<length (file_directives L u f).
        d = (file_directives L u f ! i)\<lparr>d_used := used_by (raw_findings L u p f) (file_directives L u f) i\<rparr>)"
proof -
  have "snd (analyze_file L u p f) ! i =
      (file_directives L u f ! i)\<lparr>d_used := used_by (raw_findings L u p f) (file_directives L u f) i\<rparr>"
    if "i < length (file_directives L u f)" for u p f i
    using that parsed_unused [of "file_directives L u f ! i" L u f]
    by (simp add: analyze_file_def judge_fold_nth)
  moreover have "length (snd (analyze_file L u p f)) = length (file_directives L u f)" for u p f
    by (simp add: analyze_file_def judge_fold_length)
  ultimately have "d \<in> set (snd (analyze_file L u p f)) \<longleftrightarrow> (\<exists>i<length (file_directives L u f).
      d = (file_directives L u f ! i)\<lparr>d_used := used_by (raw_findings L u p f) (file_directives L u f) i\<rparr>)" for u p f
    unfolding in_set_conv_nth by metis
  then show ?thesis
    by (fastforce simp: all_directives_def analyze_def)
qed

lemma find_nth:
  "find P xs = Some x \<Longrightarrow> \<exists>i<length xs. xs ! i = x \<and> P x \<and> (\<forall>j<i. \<not> P (xs ! j))"
  by (auto simp: find_Some_iff)

text \<open>A comment that allows a finding is an exception of the run.\<close>

lemma allowed_is_exception:
  assumes "same_text (all_directives L us)" "u \<in> set us" "(p, f) \<in> set (unit_files u)"
    "rf \<in> set (raw_findings L u p f)" "allowing (file_directives L u f) rf = Some d"
  shows "exception d \<in> set (res_Exceptions (lint L us))"
proof -
  let ?ds = "file_directives L u f"
  obtain i where i: "i < length ?ds" "?ds ! i = d" "allows rf d" "\<forall>j<i. \<not> allows rf (?ds ! j)"
    using find_nth assms(5) unfolding allowing_def by metis
  then have "used_by (raw_findings L u p f) ?ds i"
    using assms(4) by (auto simp: used_by_def)
  then have d: "d\<lparr>d_used := True\<rparr> \<in> set (all_directives L us)"
    unfolding in_all_directives using i assms(2,3) by force
  then have "any_used (all_directives L us) (directive_key (d\<lparr>d_used := True\<rparr>))"
    unfolding any_used_def list_ex_iff by force
  with d have "exception (d\<lparr>d_used := True\<rparr>) \<in> set (res_Exceptions (lint L us))"
    unfolding lint_exceptions [OF assms(1)] by blast
  then show ?thesis by simp
qed

lemma clean_allows:
  assumes "res_Findings (lint L us) = []" "u \<in> set us" "(p, f) \<in> set (unit_files u)"
    "rf \<in> set (raw_findings L u p f)"
  shows "\<exists>d. allowing (file_directives L u f) rf = Some d"
proof (rule ccontr)
  assume "\<nexists>d. allowing (file_directives L u f) rf = Some d"
  then have "reported L us (finding_of f rf)"
    using assms(2-4) by (fastforce simp: reported_def list_ex_iff)
  then have "finding_of f rf \<in> set (all_findings L us)"
    by (simp add: in_all_findings)
  with assms(1) show False
    by (simp add: lint_clean)
qed

lemma allowing_first:
  "allowing ds rf = Some d \<Longrightarrow> d \<in> set ds \<and> d_rule d = rf_rule rf \<and> d_from d \<le> rf_line rf \<and> rf_line rf \<le> d_to d"
  by (auto simp: allowing_def find_Some_iff allows_def)

text \<open>The findings of one rule are among the findings of the file.\<close>

lemma rule_findings:
  "r \<in> set rules \<Longrightarrow> rf \<in> set (r_check r (rule_pass L u p f r)) \<Longrightarrow> rf \<in> set (raw_findings L u p f)"
  by (auto simp: raw_findings_def)

section \<open>Every finding is reported\<close>

text \<open>
  The merger keys a finding by its text. The text determines the finding when the file names
  have no colon, and it never is the key of an unused comment.
\<close>

lemma split_unique: "xs @ c # ys = xs' @ c # ys' \<Longrightarrow> c \<notin> set xs \<Longrightarrow> c \<notin> set xs' \<Longrightarrow> xs = xs' \<and> ys = ys'"
proof (induction xs arbitrary: xs')
  case Nil
  then show ?case by (cases xs') auto
next
  case (Cons x xs)
  then show ?case by (cases xs') auto
qed

lemma itoa_no_colon: "CHR '':'' \<notin> set (itoa_nat n)"
proof
  assume "CHR '':'' \<in> set (itoa_nat n)"
  then have "is_digit (CHR '':'')"
    using itoa_nat_digits [of n] by (simp add: list_all_iff)
  then show False
    by (simp add: is_digit_def byte_of_def)
qed

text \<open>A place, written \<open>file:line\<close>, can be read off a longer text.\<close>

lemma place_unique:
  assumes "a @ '':'' @ itoa_nat m @ '':'' @ t = b @ '':'' @ itoa_nat n @ '':'' @ t'"
    "CHR '':'' \<notin> set a" "CHR '':'' \<notin> set b"
  shows "a = b \<and> m = n \<and> t = t'"
proof -
  have "a = b" "itoa_nat m @ CHR '':'' # t = itoa_nat n @ CHR '':'' # t'"
    using split_unique [of a "CHR '':''" _ b] assms by auto
  moreover from split_unique [OF this(2) itoa_no_colon itoa_no_colon] have "itoa_nat m = itoa_nat n" "t = t'"
    by simp_all
  ultimately show ?thesis
    by (simp add: itoa_nat_inject)
qed

definition plain_rule :: "Finding \<Rightarrow> bool" where
  "plain_rule g \<longleftrightarrow> CHR '':'' \<notin> set (fd_File g) \<and> CHR '']'' \<notin> set (fd_Rule g)"

lemma Finding_String_inject:
  assumes "Finding_String g = Finding_String h" "plain_rule g" "plain_rule h"
  shows "g = h"
proof -
  have "fd_File g = fd_File h \<and> fd_Line g = fd_Line h \<and>
      '' ['' @ fd_Rule g @ ''] '' @ fd_Message g = '' ['' @ fd_Rule h @ ''] '' @ fd_Message h"
    by (rule place_unique) (use assms in \<open>auto simp: Finding_String_def plain_rule_def\<close>)
  moreover from this have "fd_Rule g @ CHR '']'' # '' '' @ fd_Message g = fd_Rule h @ CHR '']'' # '' '' @ fd_Message h"
    by simp
  with assms(2,3) have "fd_Rule g = fd_Rule h \<and> '' '' @ fd_Message g = '' '' @ fd_Message h"
    by (intro split_unique) (auto simp: plain_rule_def)
  ultimately show ?thesis by simp
qed

lemma unused_key_other:
  assumes "plain_rule g" "CHR '':'' \<notin> set (d_file d)"
  shows "Finding_String g \<noteq> directive_key d @ '':unused''"
proof
  assume eq: "Finding_String g = directive_key d @ '':unused''"
  have "fd_File g = d_file d \<and> fd_Line g = d_line d \<and>
      '' ['' @ fd_Rule g @ ''] '' @ fd_Message g = ''unused''"
    by (rule place_unique) (use assms eq in \<open>auto simp: Finding_String_def directive_key_def plain_rule_def\<close>)
  then show False by simp
qed

subsection \<open>The rules of the findings\<close>

lemma constructions_rule:
  assumes "\<And>n name how rf. rf \<in> set (fn n name how) \<Longrightarrow> rf_rule rf = r_ID (p_rule p)"
  shows "rf \<in> set (constructions p S fn) \<Longrightarrow> rf_rule rf = r_ID (p_rule p)"
  using assms by (auto simp: constructions_iff)

lemma checkOutbound_rule: "rf \<in> set (checkOutbound p) \<Longrightarrow> rf_rule rf = r_ID (p_rule p)"
proof -
  have "rf_rule rf = r_ID (p_rule p)" if "rf \<in> set (outbound_node p n)" for n
    using that by (cases n) (auto simp: Let_def split: option.splits obj.splits if_splits)
  then show "rf \<in> set (checkOutbound p) \<Longrightarrow> rf_rule rf = r_ID (p_rule p)"
    by (auto simp: checkOutbound_def intro: constructions_rule [rotated])
qed

lemma errorlog_elts_rule: "rf \<in> set (errorlog_elts p lit elts) \<Longrightarrow> rf_rule rf = r_ID (p_rule p)"
proof (induction elts)
  case (Cons e es)
  then show ?case
    by (auto split: node.splits if_splits)
qed simp

lemma checkServerErrorLog_rule: "rf \<in> set (checkServerErrorLog p) \<Longrightarrow> rf_rule rf = r_ID (p_rule p)"
proof -
  have "rf_rule rf = r_ID (p_rule p)" if "rf \<in> set (serve_node p n)" for n
    using that by (cases n) (auto simp: Let_def split: if_splits)
  moreover have "rf_rule rf = r_ID (p_rule p)" if "rf \<in> set (server_made p n name how)" for rf n name how
    using that by (cases n) (auto dest: errorlog_elts_rule)
  ultimately show "rf \<in> set (checkServerErrorLog p) \<Longrightarrow> rf_rule rf = r_ID (p_rule p)"
    by (auto simp: checkServerErrorLog_def intro: constructions_rule [rotated])
qed

lemma checkMetricLabels_rule: "rf \<in> set (checkMetricLabels p) \<Longrightarrow> rf_rule rf = r_ID (p_rule p)"
proof -
  have operand: "rf_rule rf = r_ID (p_rule p)" if "rf \<in> set (check_operand p lit key clean args i arg)"
    for lit key clean args i arg
    using that by (auto simp: check_operand_def Let_def split: option.splits if_splits)
  have label: "rf_rule rf = r_ID (p_rule p)" if "rf \<in> set (check_label p lit i s a b kv)" for lit i s a b kv
  proof -
    obtain k0 kend k1 k2 where kv: "kv = (k0, kend, k1, k2)"
      by (metis prod_cases4)
    obtain v1 v2 where lv: "labelValue s (a + kend) b = (v1, v2)"
      by fastforce
    show ?thesis
      using that unfolding check_label_def kv Let_def prod.case lv
      by (cases "metricLabels (substr (substr s a b) k1 k2)"; cases "formats p i")
        (auto split: if_splits dest: operand)
  qed
  have "rf_rule rf = r_ID (p_rule p)" if "rf \<in> set (metric_node p n)" for n
    using that by (cases n) (auto split: option.splits if_splits dest: label)
  then show "rf \<in> set (checkMetricLabels p) \<Longrightarrow> rf_rule rf = r_ID (p_rule p)"
    by (auto simp: checkMetricLabels_def)
qed

lemma client_step_rule:
  assumes "list_all (\<lambda>rf. rf_rule rf = r_ID (p_rule p)) (snd s)"
  shows "list_all (\<lambda>rf. rf_rule rf = r_ID (p_rule p)) (snd (client_step p only n s))"
proof -
  have "list_all (\<lambda>rf. rf_rule rf = r_ID (p_rule p)) (reportFunc p m g)" for m g
    by (simp add: reportFunc_def)
  with assms show ?thesis
    by (cases s; cases n) (auto simp: Let_def split: option.splits)
qed

lemma checkClientAddress_rule: "rf \<in> set (checkClientAddress p) \<Longrightarrow> rf_rule rf = r_ID (p_rule p)"
proof -
  have "list_all (\<lambda>rf. rf_rule rf = r_ID (p_rule p)) (snd (fold (client_step p only) ns s))"
    if "list_all (\<lambda>rf. rf_rule rf = r_ID (p_rule p)) (snd s)" for only ns s
    using that
  proof (induction ns arbitrary: s)
    case (Cons n ns)
    from Cons.IH [OF client_step_rule [OF Cons.prems, of only n]] show ?case by simp
  qed simp
  from this [of "([], [])" "typeOnly p" "file_nodes (p_ast p)"]
  show "rf \<in> set (checkClientAddress p) \<Longrightarrow> rf_rule rf = r_ID (p_rule p)"
    by (simp add: checkClientAddress_def list_all_iff)
qed

text \<open>The contract of a rule: it is one of the rules that run, and it tags its findings with its ID.\<close>

locale lint_rule =
  fixes rule :: Rule
  assumes listed: "rule \<in> set rules"
    and tagged: "rf \<in> set (r_check rule p) \<Longrightarrow> rf_rule rf = r_ID (p_rule p)"
begin

lemma finding_rule: "rf \<in> set (r_check rule (rule_pass L u p f rule)) \<Longrightarrow> rf_rule rf = r_ID rule"
  by (drule tagged) (simp add: rule_pass_def)

lemma finding_raw: "rf \<in> set (r_check rule (rule_pass L u p f rule)) \<Longrightarrow> rf \<in> set (raw_findings L u p f)"
  using listed by (rule rule_findings)

text \<open>In a run without findings a listed comment covers every finding of the rule.\<close>

lemma covered:
  assumes "res_Findings (lint L us) = []" "same_text (all_directives L us)" "u \<in> set us"
    "(p, f) \<in> set (unit_files u)" "rf \<in> set (r_check rule (rule_pass L u p f rule))"
  shows "\<exists>d\<in>set (file_directives L u f). d_rule d = r_ID rule \<and> d_from d \<le> rf_line rf \<and> rf_line rf \<le> d_to d \<and>
    exception d \<in> set (res_Exceptions (lint L us))"
proof -
  obtain d where "allowing (file_directives L u f) rf = Some d"
    using clean_allows [OF assms(1,3,4) finding_raw [OF assms(5)]] by blast
  then show ?thesis
    using allowing_first allowed_is_exception [OF assms(2-4) finding_raw [OF assms(5)]] finding_rule [OF assms(5)]
    by metis
qed

end

interpretation client_rule: lint_rule clientAddressRule
  by unfold_locales (auto simp: rule_defs dest: checkClientAddress_rule)

interpretation outbound_rule: lint_rule outboundRule
  by unfold_locales (auto simp: rule_defs dest: checkOutbound_rule)

interpretation server_rule: lint_rule serverErrorLogRule
  by unfold_locales (auto simp: rule_defs dest: checkServerErrorLog_rule)

interpretation metric_rule: lint_rule metricLabelsRule
  by unfold_locales (auto simp: rule_defs dest: checkMetricLabels_rule)

lemma raw_rule:
  assumes "rf \<in> set (raw_findings L u p f)"
  shows "rf_rule rf \<in> set (map r_ID rules)"
proof -
  obtain r where r: "r \<in> set rules" "rf \<in> set (r_check r (rule_pass L u p f r))"
    using assms by (auto simp: raw_findings_def)
  then have "rf_rule rf = r_ID r"
    using client_rule.finding_rule outbound_rule.finding_rule server_rule.finding_rule metric_rule.finding_rule
    by (auto simp: rules_def)
  with r(1) show ?thesis by simp
qed

subsection \<open>The whole result\<close>

definition plain_names :: "lint_unit list \<Rightarrow> bool" where
  "plain_names us = list_all (\<lambda>u. list_all (\<lambda>(p, f). CHR '':'' \<notin> set (f_name f)) (unit_files u)) us"

lemma parse_Bad:
  assumes "parse_comment Quote F f cg c = Bad b"
  shows "fd_File b = f_name f \<and> fd_Rule b = RuleDirective"
proof -
  have place: "fd_File b = f_name f \<and> fd_Rule b = RuleDirective" if "place F f cg c vb name ident = Bad b" for vb name ident
    using that by (auto simp: place_def Let_def split: if_splits option.splits node.splits)
  obtain vb m2 where re: "directiveRe (c_Text c) = Some (vb, m2) \<or> spacedRe (c_Text c)"
    using assms by (auto simp: parse_comment_def Let_def split: if_splits option.splits)
  obtain name idReason x where cut: "Cut (TrimPrefix m2 '' '') (CHR '' '') = (name, idReason, x)"
    by (metis prod_cases3)
  show ?thesis
    using assms re cut by (auto simp: parse_comment_def Let_def split: if_splits option.splits dest: place)
qed

lemma findings_plain:
  assumes "plain_names us" "g \<in> set (all_findings L us)"
  shows "plain_rule g"
proof -
  have bracket: "CHR '']'' \<notin> set i" if "i \<in> set (map r_ID rules) \<or> i = RuleDirective" for i
    using that by (auto simp: rule_ids rule_IDs)
  from assms(2) consider "reported L us g" | "invalid L us g"
    by (auto simp: in_all_findings)
  then show ?thesis
  proof cases
    case 1
    then obtain u p f rf where *: "u \<in> set us" "(p, f) \<in> set (unit_files u)" "rf \<in> set (raw_findings L u p f)"
        "g = finding_of f rf"
      by (auto simp: reported_def list_ex_iff)
    then show ?thesis
      using assms(1) bracket raw_rule [OF *(3)]
      by (fastforce simp: plain_rule_def finding_of_def plain_names_def list_all_iff)
  next
    case 2
    then obtain u p f where *: "u \<in> set us" "(p, f) \<in> set (unit_files u)" "g \<in> set (file_bad L u f)"
      by (auto simp: invalid_def list_ex_iff)
    then have "fd_File g = f_name f \<and> fd_Rule g = RuleDirective"
      by (auto simp: file_bad_def parseDirectives_def parse_all_def dest: parse_Bad)
    then show ?thesis
      using assms(1) bracket * by (fastforce simp: plain_rule_def plain_names_def list_all_iff)
  qed
qed

lemma directives_plain:
  assumes "plain_names us" "d \<in> set (all_directives L us)"
  shows "CHR '':'' \<notin> set (d_file d)"
proof -
  obtain u p f i where *: "u \<in> set us" "(p, f) \<in> set (unit_files u)" "i < length (file_directives L u f)"
      "d = (file_directives L u f ! i)\<lparr>d_used := used_by (raw_findings L u p f) (file_directives L u f) i\<rparr>"
    using assms(2) unfolding in_all_directives by auto
  then have "d_file d = f_name f"
    using parsed_unused [of "file_directives L u f ! i" L u f] by simp
  then show ?thesis
    using assms(1) * by (fastforce simp: plain_names_def list_all_iff)
qed

lemma lint_findings:
  assumes "same_text (all_directives L us)" "plain_names us"
  shows "set (res_Findings (lint L us)) = set (all_findings L us) \<union>
    unusedFinding ` {d \<in> set (all_directives L us). \<not> any_used (all_directives L us) (directive_key d)}"
proof -
  let ?D = "all_directives L us" and ?U = "\<lambda>k. unusedFinding (the (m_directives (final L us) k))"
  let ?P = "(\<lambda>g. (Finding_String g, g)) ` set (all_findings L us) \<union>
      (\<lambda>k. (k @ '':unused'', ?U k)) ` directive_key ` set ?D"
  have order: "set (m_order (final L us)) = directive_key ` set ?D"
    using final_merged by (simp add: merged_def)
  have keys: "set (unused_keys L us) = {k \<in> directive_key ` set ?D. \<not> any_used ?D k}"
    by (auto simp: unused_keys_def order)
  have FU: "Finding_String g \<noteq> k @ '':unused''" if "g \<in> set (all_findings L us)" "k \<in> directive_key ` set ?D" for g k
    using that unused_key_other [OF findings_plain [OF assms(2)] directives_plain [OF assms(2)]] by blast
  have FF: "g = h" if "g \<in> set (all_findings L us)" "h \<in> set (all_findings L us)" "Finding_String g = Finding_String h" for g h
    using Finding_String_inject [OF that(3) findings_plain findings_plain] assms(2) that(1,2) by blast
  have single: "v = w" if kv: "(k, v) \<in> ?P" "(k, w) \<in> ?P" for k v w
  proof -
    from kv(1) consider "v \<in> set (all_findings L us)" "k = Finding_String v"
      | j where "j \<in> directive_key ` set ?D" "k = j @ '':unused''" "v = ?U j" by auto
    then show ?thesis
    proof cases
      case 1
      from kv(2) FU 1 have "w \<in> set (all_findings L us)" "k = Finding_String w" by auto
      with 1 FF show ?thesis by blast
    next
      case (2 j)
      then have "\<not> (w \<in> set (all_findings L us) \<and> k = Finding_String w)"
        using FU [of w j] by metis
      with kv(2) obtain i where "k = i @ '':unused''" "w = ?U i" by auto
      with 2 show ?thesis by simp
    qed
  qed
  note put_P = put_all_set [of ?P, OF single]
  have put: "set (put_all Finding_String (\<lambda>f. f) (all_findings L us) []) =
      set [] \<union> (\<lambda>g. (Finding_String g, g)) ` set (all_findings L us)"
    by (rule put_P) auto
  have "set (put_all (\<lambda>k. k @ '':unused'') ?U (unused_keys L us)
        (put_all Finding_String (\<lambda>f. f) (all_findings L us) [])) =
      set (put_all Finding_String (\<lambda>f. f) (all_findings L us) []) \<union>
      (\<lambda>k. (k @ '':unused'', ?U k)) ` set (unused_keys L us)"
    by (rule put_P) (use put keys in auto)
  note this [unfolded put]
  then have "set (res_Findings (lint L us)) = set (all_findings L us) \<union> ?U ` set (unused_keys L us)"
    by (simp add: lint_result image_Un image_image)
  also have "?U ` set (unused_keys L us) = (\<lambda>d. ?U (directive_key d)) ` {d \<in> set ?D. \<not> any_used ?D (directive_key d)}"
    by (auto simp: keys)
  also have "\<dots> = unusedFinding ` {d \<in> set ?D. \<not> any_used ?D (directive_key d)}"
    by (rule image_cong) (simp_all add: final_same [OF assms(1)])
  finally show ?thesis .
qed

section \<open>What the lint promises\<close>

text \<open>
  The promises are stated on the syntax trees and the comments alone, without the definitions of
  the checks. A place that the rule \<open>outbound\<close> is about: a call of a listed function, a use of a
  listed variable, or one of the four ways to make a value of a listed type.
\<close>

definition outbound_type :: "ty option \<Rightarrow> bool" where
  "outbound_type t \<longleftrightarrow> (\<exists>path name. map_option Unalias t = Some (Named (Some path) name) \<and> outboundTypes (path @ ''.'' @ name))"

inductive outbound_place :: "info \<Rightarrow> node \<Rightarrow> node \<Rightarrow> bool" for I where
  place_call: "funcOf I (Unparen fn) = Some g \<Longrightarrow> outboundFuncs (fn_FullName g) \<Longrightarrow>
     outbound_place I (CallExpr h fn args) (CallExpr h fn args)"
| place_var: "Uses I (nid h) = Some (VarObj (Some path) v) \<Longrightarrow> outboundVars (path @ ''.'' @ v) \<Longrightarrow>
     outbound_place I (Ident h s) (Ident h s)"
| place_literal: "outbound_type (TypeOf I (nid h)) \<Longrightarrow> outbound_place I (CompositeLit h t es) (CompositeLit h t es)"
| place_new: "Unparen fn = Ident b s \<Longrightarrow> Uses I (nid b) = Some (BuiltinObj ''new'') \<Longrightarrow> outbound_type (TypeOf I (nid (hdr_of t))) \<Longrightarrow>
     outbound_place I (CallExpr h fn [t]) (CallExpr h fn [t])"
| place_decl: "outbound_type (TypeOf I (nid (hdr_of t))) \<Longrightarrow> outbound_place I (ValueSpec h ns (Some t) []) (ValueSpec h ns (Some t) [])"
| place_field: "Field fh ns (Some t) tag \<in> set fs \<Longrightarrow> outbound_type (TypeOf I (nid (hdr_of t))) \<Longrightarrow>
     outbound_place I (StructType h (FieldList lh fs)) (Field fh ns (Some t) tag)"

lemma outbound_type_name: "outbound_type t \<Longrightarrow> outboundTypes (typeName t)"
  by (auto simp: outbound_type_def typeName_def)

lemma outbound_place_site: "outbound_place I n m \<Longrightarrow> m \<in> set (outbound_sites I n)"
proof (induction rule: outbound_place.induct)
  case (place_field fh ns t tag fs h lh)
  from outbound_type_name [OF place_field(2)] place_field(1) show ?case
    by (force simp: outbound_sites_def expr_type_def Let_def)
qed (auto simp: outbound_sites_def names_outbound_def calleeName_def calleeFunc_def isBuiltinNew_def expr_type_def Let_def
    dest: outbound_type_name)

text \<open>
  A type assertion that keeps only the type of what a call returns: assigned to the blank
  identifier, declared as it, or the subject of a type switch without a variable. The number is the
  identity of the called expression.
\<close>

definition asserted_call :: "node \<Rightarrow> node option \<Rightarrow> nat \<Rightarrow> bool" where
  "asserted_call e t i \<longleftrightarrow> (\<exists>h x ch fn args. Unparen e = TypeAssertExpr h x t \<and> Unparen x = CallExpr ch fn args \<and> i = nid (hdr_of (Unparen fn)))"

inductive keeps_type :: "node \<Rightarrow> nat \<Rightarrow> bool" where
  keeps_assign: "asserted_call e (Some t) i \<Longrightarrow> keeps_type (AssignStmt h (Ident b ''_'' # lhs) [e]) i"
| keeps_decl: "asserted_call e (Some t) i \<Longrightarrow> keeps_type (ValueSpec h ((b, ''_'') # names) ty [e]) i"
| keeps_switch: "asserted_call e t i \<Longrightarrow> keeps_type (TypeSwitchStmt h init (ExprStmt eh e) body) i"

lemma mark_assert_asserted: "i \<in> set (mark_assert typed e) \<Longrightarrow> \<exists>t. asserted_call e t i \<and> (typed \<longrightarrow> t \<noteq> None)"
proof -
  assume i: "i \<in> set (mark_assert typed e)"
  then obtain h x t where a: "Unparen e = TypeAssertExpr h x t" "typed \<longrightarrow> t \<noteq> None" "i \<in> set (markCallee x)"
    by (cases "Unparen e") (auto simp: mark_assert_def split: if_splits)
  then obtain ch fn args where "Unparen x = CallExpr ch fn args" "i = nid (hdr_of (Unparen fn))"
    by (cases "Unparen x") (auto simp: markCallee_def)
  with a show ?thesis by (auto simp: asserted_call_def)
qed

lemma typeOnly_keeps: "i \<in> set (typeOnly_node n) \<Longrightarrow> keeps_type n i"
proof (cases n)
  case (AssignStmt h lhs rhs)
  assume "i \<in> set (typeOnly_node n)"
  then obtain b lhs' e t where "lhs = Ident b ''_'' # lhs'" "rhs = [e]" "asserted_call e (Some t) i"
    using AssignStmt by (cases lhs; cases rhs) (auto simp: isBlank_def split: if_splits node.splits dest: mark_assert_asserted)
  with AssignStmt show ?thesis by (auto intro: keeps_assign)
next
  case (ValueSpec h ns ty vs)
  assume "i \<in> set (typeOnly_node n)"
  then obtain b ns' e t where "ns = (b, ''_'') # ns'" "vs = [e]" "asserted_call e (Some t) i"
    using ValueSpec by (cases ns; cases vs) (auto split: if_splits dest: mark_assert_asserted)
  with ValueSpec show ?thesis by (auto intro: keeps_decl)
next
  case (TypeSwitchStmt h init a b)
  assume "i \<in> set (typeOnly_node n)"
  then obtain eh e t where "a = ExprStmt eh e" "asserted_call e t i"
    using TypeSwitchStmt by (cases a) (auto dest: mark_assert_asserted)
  with TypeSwitchStmt show ?thesis by (auto intro: keeps_switch)
qed simp_all

text \<open>
  A function that returns the client address: a method \<open>RemoteAddr() net.Addr\<close>, or one whose full
  name a source comment marks. A read of the address: the field \<open>RemoteAddr\<close> of an
  \<open>http.Request\<close>, or a name of such a function, which is not the name part of a selector.
\<close>

definition returns_client :: "string list \<Rightarrow> func \<Rightarrow> bool" where
  "returns_client sources g \<longleftrightarrow> fn_FullName g \<in> set sources \<or>
     (\<exists>t. fn_Name g = ''RemoteAddr'' \<and> sig_Recv (fn_Type g) \<and> sig_Params (fn_Type g) = 0 \<and> sig_Results (fn_Type g) = [t]
        \<and> Unalias t = Named (Some ''net'') ''Addr'')"

inductive client_read :: "info \<Rightarrow> string list \<Rightarrow> node list \<Rightarrow> node \<Rightarrow> bool" for I sources ns where
  read_field: "Selections I (nid h) = Some sel \<Longrightarrow> sel_Obj sel = VarObj pk ''RemoteAddr'' \<Longrightarrow>
     Unalias (sel_Recv sel) \<in> {Named (Some ''net/http'') ''Request'', Pointer (Named (Some ''net/http'') ''Request'')} \<Longrightarrow>
     client_read I sources ns (SelectorExpr h x sh s)"
| read_selector: "funcOf I (SelectorExpr h x sh s) = Some g \<Longrightarrow> returns_client sources g \<Longrightarrow> client_read I sources ns (SelectorExpr h x sh s)"
| read_ident: "Uses I (nid h) = Some (FuncObj g) \<Longrightarrow> returns_client sources g \<Longrightarrow>
     (\<And>h' x sh s'. SelectorExpr h' x sh s' \<in> set ns \<Longrightarrow> nid sh \<noteq> nid h) \<Longrightarrow> client_read I sources ns (Ident h s)"

lemma reportFunc_client: "returns_client (p_sources p) g \<Longrightarrow> \<exists>rf \<in> set (reportFunc p n g). rf_line rf = p_line p (n_Pos (hdr_of n))"
  by (auto simp: returns_client_def reportFunc_def isRemoteAddr_def typeName_def Let_def)

lemma not_selected:
  "(\<And>h' x sh s'. SelectorExpr h' x sh s' \<in> set ns \<Longrightarrow> nid sh \<noteq> i) \<Longrightarrow> i \<notin> set (sel_idents ns)"
proof
  assume a: "\<And>h' x sh s'. SelectorExpr h' x sh s' \<in> set ns \<Longrightarrow> nid sh \<noteq> i" and "i \<in> set (sel_idents ns)"
  then obtain n where "n \<in> set ns" "i \<in> set (sel_ident n)" by (auto simp: sel_idents_def)
  then show False using a by (cases n rule: sel_ident.cases) (auto dest: split_list)
qed

lemma client_read_reported:
  assumes "client_read (p_info p) (p_sources p) ns n" "nid (hdr_of n) \<notin> set only"
  shows "\<exists>rf \<in> set (client_reads p only (sel_idents ns) n). rf_line rf = p_line p (n_Pos (hdr_of n))"
  using assms
proof (induction rule: client_read.induct)
  case (read_field h sel pk x sh s)
  then have "request_addr (p_info p) (nid h)" by (auto simp: request_addr_def derefName_def typeName_def)
  with read_field show ?case by (simp add: Let_def)
next
  case (read_selector h x sh s g)
  then show ?case using reportFunc_client [of p g "SelectorExpr h x sh s"] by (simp add: Let_def)
next
  case (read_ident h g s)
  then show ?case using reportFunc_client [of p g "Ident h s"] not_selected [of ns "nid h"] by simp
qed

text \<open>The comments of all passes as they are parsed, and the findings that a comment covers.\<close>

definition all_comments :: "golib \<Rightarrow> lint_unit list \<Rightarrow> directive list" where
  "all_comments L us = concat (map (\<lambda>u. concat (map (\<lambda>(p, f). file_directives L u f) (unit_files u))) us)"

definition covers :: "directive \<Rightarrow> rawFinding \<Rightarrow> bool" where
  "covers d rf \<longleftrightarrow> d_rule d = rf_rule rf \<and> d_from d \<le> rf_line rf \<and> rf_line rf \<le> d_to d"

text \<open>A rule break that no comment of its file covers.\<close>

definition unallowed :: "golib \<Rightarrow> lint_unit list \<Rightarrow> Finding \<Rightarrow> bool" where
  "unallowed L us g = list_ex (\<lambda>u. list_ex (\<lambda>(p, f). list_ex (\<lambda>rf.
     list_all (\<lambda>d. \<not> covers d rf) (file_directives L u f) \<and> g = finding_of f rf) (raw_findings L u p f)) (unit_files u)) us"

text \<open>In some pass the comment at a place is the first of its file that covers some rule break.\<close>

definition allowed_some :: "golib \<Rightarrow> lint_unit list \<Rightarrow> string \<Rightarrow> bool" where
  "allowed_some L us k = list_ex (\<lambda>u. list_ex (\<lambda>(p, f). list_ex (\<lambda>rf.
     (case filter (\<lambda>d. covers d rf) (file_directives L u f) of [] \<Rightarrow> False | d # _ \<Rightarrow> directive_key d = k))
       (raw_findings L u p f)) (unit_files u)) us"

lemma covers_allows: "covers d rf = allows rf d"
  by (simp add: covers_def allows_def)

lemma unallowed_reported: "unallowed L us g = reported L us g"
  by (simp add: unallowed_def reported_def covers_allows allowing_def find_None_iff Ball_def list_all_iff)

lemma directive_key_used [simp]: "directive_key (d\<lparr>d_used := b\<rparr>) = directive_key d"
  by (simp add: directive_key_def)

lemma first_filter:
  "(case filter P ds of [] \<Rightarrow> False | d # _ \<Rightarrow> f d = k) \<longleftrightarrow> (\<exists>i<length ds. f (ds ! i) = k \<and> P (ds ! i) \<and> (\<forall>j<i. \<not> P (ds ! j)))"
proof (induction ds)
  case (Cons d ds)
  show ?case
  proof (cases "P d")
    case True
    then show ?thesis by (auto simp: less_Suc_eq_0_disj)
  next
    case False
    with Cons.IH show ?thesis by (simp add: Ex_less_Suc2 All_less_Suc2)
  qed
qed simp

lemma in_all_directivesI:
  assumes "u \<in> set us" "(p, f) \<in> set (unit_files u)" "i < length (file_directives L u f)"
    "d = (file_directives L u f ! i)\<lparr>d_used := used_by (raw_findings L u p f) (file_directives L u f) i\<rparr>"
  shows "d \<in> set (all_directives L us)"
  unfolding in_all_directives by (rule bexI [OF _ assms(1)], rule bexI [OF _ assms(2)]) (use assms(3,4) in auto)

lemma any_used_allowed: "any_used (all_directives L us) k = allowed_some L us k"
proof -
  have "any_used (all_directives L us) k \<longleftrightarrow> (\<exists>u\<in>set us. \<exists>(p, f)\<in>set (unit_files u). \<exists>i<length (file_directives L u f).
      directive_key (file_directives L u f ! i) = k \<and> used_by (raw_findings L u p f) (file_directives L u f) i)"
  proof
    assume "any_used (all_directives L us) k"
    then obtain d where "d \<in> set (all_directives L us)" "directive_key d = k" "d_used d"
      by (auto simp: any_used_def list_ex_iff)
    then show "\<exists>u\<in>set us. \<exists>(p, f)\<in>set (unit_files u). \<exists>i<length (file_directives L u f).
      directive_key (file_directives L u f ! i) = k \<and> used_by (raw_findings L u p f) (file_directives L u f) i"
      unfolding in_all_directives by fastforce
  next
    assume "\<exists>u\<in>set us. \<exists>(p, f)\<in>set (unit_files u). \<exists>i<length (file_directives L u f).
      directive_key (file_directives L u f ! i) = k \<and> used_by (raw_findings L u p f) (file_directives L u f) i"
    then obtain u p f i where *: "u \<in> set us" "(p, f) \<in> set (unit_files u)" "i < length (file_directives L u f)"
      "directive_key (file_directives L u f ! i) = k" "used_by (raw_findings L u p f) (file_directives L u f) i" by blast
    then have "(file_directives L u f ! i)\<lparr>d_used := True\<rparr> \<in> set (all_directives L us)"
      by (intro in_all_directivesI [OF *(1-3)]) simp
    with *(4) show "any_used (all_directives L us) k"
      unfolding any_used_def list_ex_iff by (intro bexI) auto
  qed
  also have "\<dots> \<longleftrightarrow> allowed_some L us k"
    unfolding allowed_some_def list_ex_iff first_filter used_by_def covers_allows by fastforce
  finally show ?thesis .
qed

text \<open>A comment without the mark that the passes set.\<close>

definition unmarked :: "directive \<Rightarrow> directive" where
  "unmarked d = d\<lparr>d_used := False\<rparr>"

lemma unmarked_used [simp]: "unmarked (d\<lparr>d_used := b\<rparr>) = unmarked d"
  by (simp add: unmarked_def)

lemma unmarked_eq:
  assumes "unmarked d = unmarked e"
  shows "directive_key d = directive_key e" "exception d = exception e"
  using arg_cong [OF assms, of directive_key] arg_cong [OF assms, of exception] by (simp_all add: unmarked_def)

lemma same_text_unmarked:
  "same_text ds \<longleftrightarrow> (\<forall>d\<in>set ds. \<forall>e\<in>set ds. directive_key d = directive_key e \<longrightarrow> unmarked d = unmarked e)"
  by (simp add: same_text_def unmarked_def list_all_iff)

lemma comments_directives: "unmarked ` set (all_comments L us) = unmarked ` set (all_directives L us)"
proof (intro equalityI subsetI)
  fix x assume "x \<in> unmarked ` set (all_comments L us)"
  then obtain u p f i where *: "u \<in> set us" "(p, f) \<in> set (unit_files u)" "i < length (file_directives L u f)"
    "x = unmarked (file_directives L u f ! i)" by (fastforce simp: all_comments_def in_set_conv_nth)
  have "(file_directives L u f ! i)\<lparr>d_used := used_by (raw_findings L u p f) (file_directives L u f) i\<rparr> \<in> set (all_directives L us)"
    by (intro in_all_directivesI [OF *(1-3)]) simp
  from imageI [OF this, of unmarked] show "x \<in> unmarked ` set (all_directives L us)" by (simp add: *(4))
next
  fix x assume "x \<in> unmarked ` set (all_directives L us)"
  then obtain d where "d \<in> set (all_directives L us)" "x = unmarked d" by blast
  then obtain u p f i where *: "u \<in> set us" "(p, f) \<in> set (unit_files u)" "i < length (file_directives L u f)"
    "x = unmarked ((file_directives L u f ! i)\<lparr>d_used := used_by (raw_findings L u p f) (file_directives L u f) i\<rparr>)"
    unfolding in_all_directives by blast
  have "set (file_directives L u f) \<subseteq> set (all_comments L us)" using *(1,2) by (force simp: all_comments_def)
  with nth_mem [OF *(3)] have "file_directives L u f ! i \<in> set (all_comments L us)" by blast
  with *(4) show "x \<in> unmarked ` set (all_comments L us)" by simp
qed

lemma same_text_image:
  assumes "unmarked ` set xs = unmarked ` set ys" "same_text xs"
  shows "same_text ys"
  unfolding same_text_unmarked
proof (intro ballI impI)
  fix d e assume "d \<in> set ys" "e \<in> set ys" and key: "directive_key d = directive_key e"
  then have "unmarked d \<in> unmarked ` set xs" "unmarked e \<in> unmarked ` set xs" using assms(1) by blast+
  then obtain d' e' where "d' \<in> set xs" "e' \<in> set xs" and eq: "unmarked d = unmarked d'" "unmarked e = unmarked e'" by blast
  moreover have "directive_key d' = directive_key e'" using key unmarked_eq(1) [OF eq(1)] unmarked_eq(1) [OF eq(2)] by simp
  ultimately have "unmarked d' = unmarked e'" using assms(2) unfolding same_text_unmarked by blast
  then show "unmarked d = unmarked e" by (simp add: eq)
qed

lemma same_text_comments: "same_text (all_comments L us) \<longleftrightarrow> same_text (all_directives L us)"
  using same_text_image comments_directives by blast

lemma comment_image:
  assumes "\<And>d b. h (d\<lparr>d_used := b\<rparr>) = h d" "\<And>d b. Q (d\<lparr>d_used := b\<rparr>) = Q d"
  shows "h ` {d \<in> set (all_directives L us). Q d} = h ` {d \<in> set (all_comments L us). Q d}"
proof -
  have h: "h (unmarked d) = h d" and Q: "Q (unmarked d) = Q d" for d by (simp_all add: unmarked_def assms)
  have "h ` {d \<in> unmarked ` S. Q d} = h ` {d \<in> S. Q d}" for S
  proof -
    have "{d \<in> unmarked ` S. Q d} = unmarked ` {d \<in> S. Q d}" by (auto simp: Q)
    then show ?thesis by (simp add: image_image h)
  qed
  from this [of "set (all_directives L us)"] this [of "set (all_comments L us)"] show ?thesis
    by (simp add: comments_directives)
qed

section \<open>Properties\<close>

text \<open>An example: a file that calls \<open>http.Get\<close> on line 2, below a comment that allows it.\<close>

definition demo_hdr :: "nat \<Rightarrow> nat \<Rightarrow> hdr" where
  "demo_hdr i pos = \<lparr>nid = i, n_Pos = pos, n_End = pos + 5\<rparr>"

definition demo_call :: "nat \<Rightarrow> nat \<Rightarrow> node" where
  "demo_call i pos = CallExpr (demo_hdr i pos)
     (SelectorExpr (demo_hdr (i + 1) pos) (Ident (demo_hdr (i + 2) pos) ''p'') (demo_hdr (i + 3) pos) ''F'') []"

definition demo_func :: "string \<Rightarrow> obj" where
  "demo_func name = FuncObj \<lparr>fn_Name = ''F'', fn_FullName = name,
     fn_Type = \<lparr>sig_Recv = False, sig_Params = 0, sig_Results = []\<rparr>\<rparr>"

definition demo_remote :: func where
  "demo_remote = \<lparr>fn_Name = ''RemoteAddr'', fn_FullName = ''(net.Conn).RemoteAddr'',
     fn_Type = \<lparr>sig_Recv = True, sig_Params = 0, sig_Results = [Named (Some ''net'') ''Addr'']\<rparr>\<rparr>"

definition demo_info :: info where
  "demo_info = \<lparr>Uses = (\<lambda>i. if i = 13 then Some (demo_func ''net/http.Get'')
       else if i = 23 then Some (FuncObj demo_remote) else None),
     Defs = (\<lambda>_. None), Selections = (\<lambda>_. None), TypeOf = (\<lambda>_. None)\<rparr>"

definition demo_text :: string where
  "demo_text = directive_text ''allow'' ''outbound'' ''CL 119'' ''runs''"

definition demo_source :: "node list \<Rightarrow> string list \<Rightarrow> fileInfo" where
  "demo_source ns cs = \<lparr>f_name = ''a.go'',
     f_ast = \<lparr>af_hdr = demo_hdr 0 0, af_Name = (demo_hdr 1 0, ''a''), af_Decls = ns,
       af_Comments = [\<lparr>cg_id = 0, cg_List = map (\<lambda>t. \<lparr>c_Pos = 0, c_Text = t\<rparr>) cs\<rparr>]\<rparr>,
     f_src = []\<rparr>"

definition demo_unit :: "fileInfo \<Rightarrow> lint_unit" where
  "demo_unit f = \<lparr>u_fset = \<lparr>fs_line = (\<lambda>p. if p < 10 then 1 else if p < 20 then 2 else 3), fs_offset = (\<lambda>p. p)\<rparr>,
     u_pkgs = [\<lparr>pk_info = demo_info, pk_files = [f]\<rparr>]\<rparr>"

definition demo_lib :: golib where
  "demo_lib = \<lparr>lib_Quote = quote_key, lib_Unquote = (\<lambda>_. None)\<rparr>"

definition demo_clean :: "lint_unit" where
  "demo_clean = demo_unit (demo_source [demo_call 10 10] [demo_text])"

definition demo_directive :: directive where
  "demo_directive = \<lparr>d_file = ''a.go'', d_line = 1, d_kind = ''allow'', d_rule = ''outbound'', d_id = ''CL 119'',
     d_from = 2, d_to = 2, d_fn = None, d_fnName = ''-'', d_used = True\<rparr>"

lemma demo_analysis: "analyze demo_lib demo_clean = \<lparr>a_findings = [], a_directives = [demo_directive]\<rparr>"
  by code_simp

lemma demo_directives: "all_directives demo_lib [demo_clean, demo_clean] = [demo_directive, demo_directive]"
  by (simp add: all_directives_def demo_analysis)

lemma demo_run:
  "res_Findings (lint demo_lib [demo_clean, demo_clean]) = []"
  "same_text (all_comments demo_lib [demo_clean, demo_clean])"
proof -
  show "res_Findings (lint demo_lib [demo_clean, demo_clean]) = []"
    by (simp add: lint_clean demo_directives all_findings_def demo_analysis any_used_def) (simp add: demo_directive_def)
  have "same_text (all_directives demo_lib [demo_clean, demo_clean])"
    by (simp add: demo_directives same_text_def)
  then show "same_text (all_comments demo_lib [demo_clean, demo_clean])"
    by (simp add: same_text_comments)
qed

text \<open>C22: When the lint finds nothing, every call of a listed function, every use of a listed variable and
  every composite literal, \<open>new\<close>, declaration without a value and struct field of a listed type, at any
  depth of the syntax trees of the checked files, starts on a line that a valid comment for the rule \<open>outbound\<close>
  covers, and that comment is one of the listed exceptions. The passes read the same comments. The lists are
  those of the rule; function values, reflection and listening sockets are not looked for.
\<close>

theorem lint_outbound_sound:
  assumes "res_Findings (lint L us) = []" "same_text (all_comments L us)" "u \<in> set us"
    "(p, f) \<in> set (unit_files u)" "n \<in> set (file_nodes (f_ast f))" "outbound_place (pk_info p) n m"
  shows "\<exists>d\<in>set (file_directives L u f). d_rule d = RuleOutbound \<and>
    d_from d \<le> fs_line (u_fset u) (n_Pos (hdr_of m)) \<and> fs_line (u_fset u) (n_Pos (hdr_of m)) \<le> d_to d \<and>
    exception d \<in> set (res_Exceptions (lint L us))"
proof -
  let ?p = "rule_pass L u p f outboundRule"
  have "line_of ?p m \<in> set (map rf_line (checkOutbound ?p))"
    unfolding checkOutbound_lines using assms(5) outbound_place_site [OF assms(6)] by (auto simp: rule_pass_def)
  then obtain rf where rf: "rf \<in> set (checkOutbound ?p)" "rf_line rf = fs_line (u_fset u) (n_Pos (hdr_of m))"
    by (auto simp: line_of_def rule_pass_def)
  moreover have "r_ID outboundRule = RuleOutbound" "r_check outboundRule = checkOutbound"
    by (simp_all add: outboundRule_def)
  ultimately show ?thesis
    using outbound_rule.covered [OF assms(1) same_text_comments [THEN iffD1, OF assms(2)] assms(3,4), of rf] by simp
qed

text \<open>A run on the example, in which the call of \<open>http.Get\<close> is allowed.\<close>

theorem lint_outbound_sound_witness:
  "\<exists>d\<in>set (file_directives demo_lib demo_clean (demo_source [demo_call 10 10] [demo_text])).
    d_rule d = RuleOutbound \<and> d_from d \<le> 2 \<and> 2 \<le> d_to d \<and>
    exception d \<in> set (res_Exceptions (lint demo_lib [demo_clean, demo_clean]))"
proof -
  have "(\<lparr>pk_info = demo_info, pk_files = [demo_source [demo_call 10 10] [demo_text]]\<rparr>,
      demo_source [demo_call 10 10] [demo_text]) \<in> set (unit_files demo_clean)"
    by (simp add: unit_files_def demo_clean_def demo_unit_def)
  moreover have "demo_call 10 10 \<in> set (file_nodes (f_ast (demo_source [demo_call 10 10] [demo_text])))"
    unfolding file_nodes_def by (subst nodes.simps) (simp add: demo_source_def idents_def)
  moreover have "outbound_place demo_info (demo_call 10 10) (demo_call 10 10)"
    unfolding demo_call_def
    by (rule place_call [where g = "\<lparr>fn_Name = ''F'', fn_FullName = ''net/http.Get'',
        fn_Type = \<lparr>sig_Recv = False, sig_Params = 0, sig_Results = []\<rparr>\<rparr>"])
      (simp_all add: demo_info_def demo_func_def demo_hdr_def outboundFuncs_def setOf_def)
  ultimately show ?thesis
    using lint_outbound_sound [OF demo_run, of demo_clean
        "\<lparr>pk_info = demo_info, pk_files = [demo_source [demo_call 10 10] [demo_text]]\<rparr>"
        "demo_source [demo_call 10 10] [demo_text]" "demo_call 10 10" "demo_call 10 10"]
    by (simp add: demo_clean_def demo_unit_def demo_call_def demo_hdr_def)
qed

text \<open>C23: When the lint finds nothing, every read of the field \<open>RemoteAddr\<close> of an \<open>http.Request\<close> and every use, as a
  selector or as a plain name, of a method \<open>RemoteAddr() net.Addr\<close> or of a function that a source comment marks,
  is covered by a listed comment for the rule \<open>client-address\<close>, unless it is the callee of a type assertion
  that keeps only the type. The nodes of the file have distinct identities and the passes read the same
  comments. An address that reaches the code in another way is not looked for.
\<close>

theorem lint_client_sound:
  assumes "res_Findings (lint L us) = []" "same_text (all_comments L us)" "u \<in> set us"
    "(p, f) \<in> set (unit_files u)" "distinct (node_ids (file_nodes (f_ast f)))" "n \<in> set (file_nodes (f_ast f))"
    "client_read (pk_info p) (unit_sources L u) (file_nodes (f_ast f)) n"
    "\<nexists>m. m \<in> set (file_nodes (f_ast f)) \<and> keeps_type m (nid (hdr_of n))"
  shows "\<exists>d\<in>set (file_directives L u f). d_rule d = RuleClientAddress \<and>
    d_from d \<le> fs_line (u_fset u) (n_Pos (hdr_of n)) \<and> fs_line (u_fset u) (n_Pos (hdr_of n)) \<le> d_to d \<and>
    exception d \<in> set (res_Exceptions (lint L us))"
proof -
  let ?p = "rule_pass L u p f clientAddressRule" and ?S = "sel_idents (file_nodes (f_ast f))"
  have p: "p_ast ?p = f_ast f" "p_info ?p = pk_info p" "p_sources ?p = unit_sources L u"
    "p_line ?p = fs_line (u_fset u)" "r_ID (p_rule ?p) = RuleClientAddress"
    by (simp_all add: rule_pass_def clientAddressRule_def)
  have "nid (hdr_of n) \<notin> set (typeOnly ?p)"
    using assms(8) typeOnly_keeps by (auto simp: typeOnly_def p)
  then obtain rf where "rf \<in> set (client_reads ?p (typeOnly ?p) ?S n)"
      and line: "rf_line rf = fs_line (u_fset u) (n_Pos (hdr_of n))"
    using client_read_reported [of ?p "file_nodes (f_ast f)" n "typeOnly ?p"] assms(7) by (auto simp: p)
  then have rf: "rf \<in> set (checkClientAddress ?p)"
    unfolding checkClientAddress_reads [of ?p, unfolded p, OF assms(5)] set_concat set_map
    using assms(6) by blast
  note line
  moreover note rf
  moreover have "r_ID clientAddressRule = RuleClientAddress" "r_check clientAddressRule = checkClientAddress"
    by (simp_all add: clientAddressRule_def)
  ultimately show ?thesis
    using client_rule.covered [OF assms(1) same_text_comments [THEN iffD1, OF assms(2)] assms(3,4), of rf] by simp
qed

text \<open>A file that reads the address of a connection below a comment that allows it.\<close>

definition demo_read :: node where
  "demo_read = SelectorExpr (demo_hdr 21 10) (Ident (demo_hdr 22 10) ''c'') (demo_hdr 23 10) ''RemoteAddr''"

definition demo_reader :: fileInfo where
  "demo_reader = demo_source [demo_read] [directive_text ''allow'' ''client-address'' ''PRIV-1'' ''masks'']"

definition demo_pkg :: pkgInfo where
  "demo_pkg = \<lparr>pk_info = demo_info, pk_files = [demo_reader]\<rparr>"

lemma demo_reader_analysis:
  "a_findings (analyze demo_lib (demo_unit demo_reader)) = [] \<and>
   map d_used (a_directives (analyze demo_lib (demo_unit demo_reader))) = [True]"
  by code_simp

lemma demo_reader_run:
  "res_Findings (lint demo_lib [demo_unit demo_reader]) = []"
  "same_text (all_comments demo_lib [demo_unit demo_reader])"
proof -
  obtain d where "a_directives (analyze demo_lib (demo_unit demo_reader)) = [d]" "d_used d"
    using demo_reader_analysis by auto
  then have "res_Findings (lint demo_lib [demo_unit demo_reader]) = []"
    "same_text (all_directives demo_lib [demo_unit demo_reader])"
    using demo_reader_analysis
    by (simp_all add: lint_clean all_findings_def all_directives_def any_used_def same_text_def)
  then show "res_Findings (lint demo_lib [demo_unit demo_reader]) = []"
    "same_text (all_comments demo_lib [demo_unit demo_reader])"
    by (simp_all add: same_text_comments)
qed

theorem lint_client_sound_witness:
  "\<exists>d\<in>set (file_directives demo_lib (demo_unit demo_reader) demo_reader). d_rule d = RuleClientAddress \<and>
    d_from d \<le> 2 \<and> 2 \<le> d_to d \<and> exception d \<in> set (res_Exceptions (lint demo_lib [demo_unit demo_reader]))"
proof -
  have nodes: "file_nodes (f_ast demo_reader) = [AstNode (demo_hdr 0 0) OtherNode [Ident (demo_hdr 1 0) ''a'', demo_read],
      Ident (demo_hdr 1 0) ''a'', demo_read, Ident (demo_hdr 22 10) ''c'', Ident (demo_hdr 23 10) ''RemoteAddr'']"
    by (simp add: file_nodes_def demo_reader_def demo_source_def idents_def nodes.simps demo_read_def)
  have "(demo_pkg, demo_reader) \<in> set (unit_files (demo_unit demo_reader))"
    by (simp add: unit_files_def demo_unit_def demo_pkg_def)
  moreover have "distinct (node_ids (file_nodes (f_ast demo_reader)))"
    by (simp add: nodes node_ids_def demo_read_def demo_hdr_def)
  moreover have "client_read (pk_info demo_pkg) (unit_sources demo_lib (demo_unit demo_reader)) (file_nodes (f_ast demo_reader)) demo_read"
    unfolding demo_read_def
    by (rule read_selector [where g = demo_remote])
      (simp_all add: demo_pkg_def demo_info_def demo_hdr_def returns_client_def demo_remote_def)
  moreover have "\<nexists>m. m \<in> set (file_nodes (f_ast demo_reader)) \<and> keeps_type m (nid (hdr_of demo_read))"
    by (auto simp: nodes demo_read_def elim: keeps_type.cases)
  ultimately show ?thesis
    using lint_client_sound [OF demo_reader_run, of "demo_unit demo_reader" demo_pkg demo_reader demo_read]
    by (simp add: nodes) (simp add: demo_unit_def demo_read_def demo_hdr_def)
qed

text \<open>C24: The result of a run holds exactly: every rule break of every pass that no comment of its
  file covers, every invalid comment, and every comment at whose place no comment was the first of its file
  to cover a rule break in any pass; its exceptions are exactly the comments at the other places. A comment
  covers a rule break of its rule on the lines of its span. File names have no colon and the passes read the
  same comments.
\<close>

theorem lint_result_exact:
  assumes "same_text (all_comments L us)" "plain_names us"
  shows "(g \<in> set (res_Findings (lint L us)) \<longleftrightarrow>
      unallowed L us g \<or> invalid L us g \<or>
      list_ex (\<lambda>d. \<not> allowed_some L us (directive_key d) \<and> g = unusedFinding d) (all_comments L us)) \<and>
    (e \<in> set (res_Exceptions (lint L us)) \<longleftrightarrow>
      list_ex (\<lambda>d. allowed_some L us (directive_key d) \<and> e = exception d) (all_comments L us))"
proof -
  have st: "same_text (all_directives L us)" by (rule same_text_comments [THEN iffD1, OF assms(1)])
  have "unusedFinding ` {d \<in> set (all_directives L us). \<not> allowed_some L us (directive_key d)}
      = unusedFinding ` {d \<in> set (all_comments L us). \<not> allowed_some L us (directive_key d)}"
    by (rule comment_image) simp_all
  moreover have "exception ` {d \<in> set (all_directives L us). allowed_some L us (directive_key d)}
      = exception ` {d \<in> set (all_comments L us). allowed_some L us (directive_key d)}"
    by (rule comment_image) simp_all
  ultimately show ?thesis
    unfolding lint_findings [OF st assms(2)] lint_exceptions [OF st] Un_iff in_all_findings list_ex_iff any_used_allowed
      unallowed_reported by auto
qed

theorem lint_result_exact_witness:
  "exception demo_directive \<in> set (res_Exceptions (lint demo_lib [demo_clean, demo_clean])) \<and>
   unusedFinding demo_directive \<notin> set (res_Findings (lint demo_lib [demo_clean, demo_clean]))"
proof -
  have pn: "plain_names [demo_clean, demo_clean]"
    by (simp add: plain_names_def unit_files_def demo_clean_def demo_unit_def demo_source_def)
  have "any_used [demo_directive, demo_directive] (directive_key demo_directive)"
    by (simp add: any_used_def demo_directive_def)
  then have "allowed_some demo_lib [demo_clean, demo_clean] (directive_key demo_directive)"
    using any_used_allowed demo_directives by metis
  moreover have "unmarked demo_directive \<in> unmarked ` set (all_comments demo_lib [demo_clean, demo_clean])"
    unfolding comments_directives demo_directives by simp
  then obtain d where "d \<in> set (all_comments demo_lib [demo_clean, demo_clean])" and eq: "unmarked demo_directive = unmarked d"
    by blast
  ultimately have "list_ex (\<lambda>d. allowed_some demo_lib [demo_clean, demo_clean] (directive_key d) \<and> exception demo_directive = exception d)
      (all_comments demo_lib [demo_clean, demo_clean])"
    unfolding list_ex_iff using unmarked_eq [OF eq] by (intro bexI [of _ d]) simp_all
  then show ?thesis
    using lint_result_exact [OF demo_run(2) pn, of "unusedFinding demo_directive" "exception demo_directive"] demo_run(1) by simp
qed

end
