(* ===== verification/Lint_Load.thy ===== *)
theory Lint_Load
  imports Lint_Run
begin

text \<open>
  Loading the code for the privacy lint (\<open>load.go\<close>) and the two entry points \<open>Run\<close> and
  \<open>CheckFiles\<close>. The go command, the file system, the parser and the type checker are the record
  \<open>build_env\<close>, an argument. The export indexes, a global map that lives as long as the process,
  are state: an operation takes them and returns them changed beside its result or its error.
  The locks only order the operations.

  The type checker asks for the export data of some import paths, in the order of
  \<open>be_requests\<close>, and then succeeds or fails with what it got.

  The lemmas show that the module root is the nearest directory above with a \<open>go.mod\<close>, that the
  index of a directory and operating system never changes what it lists and never forgets a
  file, and that a run which succeeds has checked every file of every package of the module for
  every operating system.
\<close>

section \<open>The environment\<close>

record listedPackage =
  lp_ImportPath :: string
  lp_Dir :: string
  lp_GoFiles :: "string list"
  lp_Export :: string
  lp_DepOnly :: bool
  lp_Module :: "(string \<times> bool) option"     \<comment> \<open>\<open>Dir\<close> and \<open>Main\<close>\<close>
  lp_Error :: "string option"

record go_cmd =
  gc_Dir :: string
  gc_Args :: "string list"
  gc_Env :: "string list"

text \<open>
  What the go command prints: an error with the text on its standard error, or a stream of JSON
  values, each of which decodes or not.
\<close>

type_synonym go_out = "(string \<times> string) + (string + listedPackage) list"

record build_env =
  be_GOOS :: string                              \<comment> \<open>\<open>runtime.GOOS\<close>\<close>
  be_Environ :: "string list"                    \<comment> \<open>\<open>os.Environ\<close>\<close>
  be_run :: "go_cmd \<Rightarrow> go_out"                   \<comment> \<open>\<open>cmd.Output\<close>\<close>
  be_Abs :: "string \<Rightarrow> string + string"          \<comment> \<open>\<open>filepath.Abs\<close>, which also cleans the path\<close>
  be_Stat :: "string \<Rightarrow> bool"                    \<comment> \<open>\<open>os.Stat\<close> gives no error\<close>
  be_ReadFile :: "string \<Rightarrow> string + string"     \<comment> \<open>\<open>os.ReadFile\<close>\<close>
  be_Rel :: "string \<Rightarrow> string \<Rightarrow> string + string" \<comment> \<open>\<open>filepath.Rel\<close>\<close>
  be_ToSlash :: "string \<Rightarrow> string"
  be_Open :: "string \<Rightarrow> string option"           \<comment> \<open>the error of \<open>os.Open\<close>\<close>
  be_ParseFile :: "string \<Rightarrow> string \<Rightarrow> string + ast_file"
  be_requests :: "string \<Rightarrow> ast_file list \<Rightarrow> string list"
  be_Check :: "string \<Rightarrow> ast_file list \<Rightarrow> (string + string) list \<Rightarrow> string + info"
  be_fset :: "fileInfo list \<Rightarrow> fileset"           \<comment> \<open>the file set after these files\<close>

section \<open>Results with state\<close>

record exportIndex =
  x_dir :: string
  x_goos :: string
  x_listed :: "listedPackage list"
  x_exports :: "string \<Rightarrow> string option"

type_synonym indexes = "string \<times> string \<Rightarrow> exportIndex option"
type_synonym 'a load = "indexes \<Rightarrow> (string + 'a) \<times> indexes"

definition ld_return :: "'a \<Rightarrow> 'a load" where
  "ld_return x = (\<lambda>st. (Inr x, st))"

definition ld_lift :: "string + 'a \<Rightarrow> 'a load" where
  "ld_lift r = (\<lambda>st. (r, st))"

definition ld_bind :: "'a load \<Rightarrow> ('a \<Rightarrow> 'b load) \<Rightarrow> 'b load" where
  "ld_bind m k = (\<lambda>st. case m st of (Inl e, st') \<Rightarrow> (Inl e, st') | (Inr x, st') \<Rightarrow> k x st')"

text \<open>A loop that appends a result for each element and returns at the first error.\<close>

fun ld_map :: "('a \<Rightarrow> 'b load) \<Rightarrow> 'a list \<Rightarrow> 'b list load" where
  "ld_map f [] = ld_return []"
| "ld_map f (x # xs) = ld_bind (f x) (\<lambda>y. ld_bind (ld_map f xs) (\<lambda>ys. ld_return (y # ys)))"

section \<open>goList\<close>

definition list_args :: "string list \<Rightarrow> string list" where
  "list_args patterns =
     [''list'', ''-deps'', ''-export'', ''-json=ImportPath,Dir,GoFiles,Export,DepOnly,Module,Error''] @ patterns"

text \<open>The decoding loop.\<close>

fun decode_all :: "(string + listedPackage) list \<Rightarrow> string + listedPackage list" where
  "decode_all [] = Inr []"
| "decode_all (Inl e # vs) = Inl (''go list output: '' @ e)"
| "decode_all (Inr p # vs) =
     (case lp_Error p of
        Some e \<Rightarrow> Inl (''go list: '' @ lp_ImportPath p @ '': '' @ e)
      | None \<Rightarrow> (case decode_all vs of Inl e \<Rightarrow> Inl e | Inr ps \<Rightarrow> Inr (p # ps)))"

definition goList :: "build_env \<Rightarrow> string \<Rightarrow> string \<Rightarrow> string list \<Rightarrow> string + listedPackage list" where
  "goList E dir goos patterns =
     (case be_run E \<lparr>gc_Dir = dir, gc_Args = list_args patterns,
             gc_Env = be_Environ E @ [''GOOS='' @ goos, ''CGO_ENABLED=0'', ''GOFLAGS=-mod=readonly'', ''GOWORK=off'']\<rparr> of
        Inl (err, stderr) \<Rightarrow>
          Inl (''go list (GOOS='' @ goos @ '') failed: '' @ err @ '': '' @ TrimSpace stderr)
      | Inr vs \<Rightarrow> decode_all vs)"

section \<open>The module root\<close>

text \<open>\<open>filepath.Dir\<close> of a clean path. Paths are written with the separator of Unix hosts, here and in \<open>go_path\<close>.\<close>

definition clean_Dir :: "string \<Rightarrow> string" where
  "clean_Dir d =
     (case LastIndexByte d (CHR ''/'') of
        None \<Rightarrow> ''.''
      | Some i \<Rightarrow> if i = 0 then ''/'' else take i d)"

text \<open>\<open>filepath.Join(d, "go.mod")\<close> of a clean path.\<close>

definition mod_path :: "string \<Rightarrow> string" where
  "mod_path d = (if d = ''/'' then ''/go.mod'' else if d = [] then ''go.mod'' else d @ ''/go.mod'')"

definition path_rank :: "string \<Rightarrow> nat" where
  "path_rank d = (if d = ''.'' \<or> d = ''/'' then 0 else Suc (length d))"

lemma clean_Dir_shorter:
  assumes "clean_Dir d \<noteq> d"
  shows "path_rank (clean_Dir d) < path_rank d"
proof -
  have "clean_Dir ''.'' = ''.''" "clean_Dir ''/'' = ''/''"
    by (simp_all add: clean_Dir_def LastIndexByte_def)
  then have d: "path_rank d = Suc (length d)"
    using assms by (auto simp: path_rank_def)
  have "i < length d" if "LastIndexByte d (CHR ''/'') = Some i" for i
    using that by (auto simp: LastIndexByte_def dest!: IndexByte_Some)
  then have "clean_Dir d = ''.'' \<or> clean_Dir d = ''/'' \<or> length (clean_Dir d) < length d"
    by (auto simp: clean_Dir_def split: option.split)
  with d show ?thesis
    by (auto simp: path_rank_def)
qed

function root_loop :: "build_env \<Rightarrow> string \<Rightarrow> string \<Rightarrow> string + string" where
  "root_loop E root d =
     (if be_Stat E (mod_path d) then Inr d
      else if clean_Dir d = d then Inl (''no go.mod in '' @ root @ '' or a directory above it'')
      else root_loop E root (clean_Dir d))"
  by pat_completeness auto
termination
  by (relation "measure (\<lambda>(E, root, d). path_rank d)") (use clean_Dir_shorter in auto)

declare root_loop.simps [simp del]

definition findModuleRoot :: "build_env \<Rightarrow> string \<Rightarrow> string + string" where
  "findModuleRoot E dir = (case be_Abs E dir of Inl e \<Rightarrow> Inl e | Inr root \<Rightarrow> root_loop E root root)"

section \<open>The export index\<close>

fun exports_add :: "listedPackage list \<Rightarrow> (string \<Rightarrow> string option) \<Rightarrow> (string \<Rightarrow> string option)" where
  "exports_add [] m = m"
| "exports_add (p # ps) m =
     exports_add ps (if lp_Export p \<noteq> [] then m(lp_ImportPath p \<mapsto> lp_Export p) else m)"

definition indexFor :: "build_env \<Rightarrow> string \<Rightarrow> string \<Rightarrow> exportIndex load" where
  "indexFor E dir goos =
     (\<lambda>st. case findModuleRoot E dir of
        Inl e \<Rightarrow> (Inl e, st)
      | Inr root \<Rightarrow>
          (case st (root, goos) of
             Some x \<Rightarrow> (Inr x, st)
           | None \<Rightarrow>
               (case goList E root goos [''./...''] of
                  Inl e \<Rightarrow> (Inl e, st)
                | Inr listed \<Rightarrow>
                    (let x = \<lparr>x_dir = root, x_goos = goos, x_listed = listed, x_exports = exports_add listed Map.empty\<rparr>
                     in (Inr x, st((root, goos) \<mapsto> x))))))"

text \<open>
  \<open>file\<close> works on the index that the map holds for the key: the pointer \<open>x\<close> of the code is
  the pointer in the map.
\<close>

definition index_file :: "build_env \<Rightarrow> string \<times> string \<Rightarrow> string \<Rightarrow> string load" where
  "index_file E key path =
     (\<lambda>st. case st key of
        None \<Rightarrow> (Inl ''no index'', st)
      | Some x \<Rightarrow>
          (case x_exports x path of
             Some file \<Rightarrow> (Inr file, st)
           | None \<Rightarrow>
               (case goList E (x_dir x) (x_goos x) [path] of
                  Inl e \<Rightarrow> (Inl e, st)
                | Inr pkgs \<Rightarrow>
                    (let x' = x\<lparr>x_exports := exports_add pkgs (x_exports x)\<rparr>;
                         st' = st(key \<mapsto> x')
                     in case x_exports x' path of
                          Some file \<Rightarrow> (Inr file, st')
                        | None \<Rightarrow> (Inl (''no export data for '' @ path), st')))))"

text \<open>The lookup function of the importer: the name of the file that it opens, or an error.\<close>

definition importer :: "build_env \<Rightarrow> string \<times> string \<Rightarrow> string \<Rightarrow> string load" where
  "importer E key path =
     ld_bind (index_file E key path)
       (\<lambda>file. ld_lift (case be_Open E file of Some e \<Rightarrow> Inl e | None \<Rightarrow> Inr file))"

section \<open>Packages\<close>

definition parseFile :: "build_env \<Rightarrow> string \<Rightarrow> string \<Rightarrow> string + fileInfo" where
  "parseFile E name src =
     (case be_ParseFile E name src of
        Inl e \<Rightarrow> Inl e
      | Inr f \<Rightarrow> Inr \<lparr>f_name = name, f_ast = f, f_src = src\<rparr>)"

text \<open>The answers of the importer, errors included: the type checker goes on after one.\<close>

fun import_answers :: "build_env \<Rightarrow> string \<times> string \<Rightarrow> string list \<Rightarrow> indexes \<Rightarrow> (string + string) list \<times> indexes" where
  "import_answers E key [] st = ([], st)"
| "import_answers E key (path # paths) st =
     (let (r, st1) = importer E key path st; (rs, st2) = import_answers E key paths st1 in (r # rs, st2))"

definition checkPackage :: "build_env \<Rightarrow> string \<times> string \<Rightarrow> string \<Rightarrow> fileInfo list \<Rightarrow> pkgInfo load" where
  "checkPackage E key path files =
     (\<lambda>st. let asts = map f_ast files; (rs, st') = import_answers E key (be_requests E path asts) st
           in case be_Check E path asts rs of
                Inl e \<Rightarrow> (Inl (''type check '' @ path @ '' failed: '' @ e), st')
              | Inr info \<Rightarrow> (Inr \<lparr>pk_info = info, pk_files = files\<rparr>, st'))"

definition of_module :: "listedPackage \<Rightarrow> bool" where
  "of_module lp \<longleftrightarrow> \<not> (lp_DepOnly lp \<or> (case lp_Module lp of None \<Rightarrow> True | Some (_, main) \<Rightarrow> \<not> main))"

definition module_dir :: "listedPackage \<Rightarrow> string" where
  "module_dir lp = (case lp_Module lp of Some (d, _) \<Rightarrow> d | None \<Rightarrow> [])"

text \<open>\<open>filepath.Join\<close> of a directory of the module and a file name, on a Unix host.\<close>

definition go_path :: "listedPackage \<Rightarrow> string \<Rightarrow> string" where
  "go_path lp name = lp_Dir lp @ ''/'' @ name"

definition load_file :: "build_env \<Rightarrow> listedPackage \<Rightarrow> string \<Rightarrow> fileInfo load" where
  "load_file E lp name =
     ld_bind (ld_lift (be_ReadFile E (go_path lp name))) (\<lambda>src.
     ld_bind (ld_lift (be_Rel E (module_dir lp) (go_path lp name))) (\<lambda>rel.
     ld_lift (parseFile E (be_ToSlash E rel) src)))"

definition load_package :: "build_env \<Rightarrow> string \<times> string \<Rightarrow> listedPackage \<Rightarrow> pkgInfo load" where
  "load_package E key lp =
     ld_bind (ld_map (load_file E lp) (lp_GoFiles lp)) (\<lambda>files. checkPackage E key (lp_ImportPath lp) files)"

definition unit_of :: "build_env \<Rightarrow> pkgInfo list \<Rightarrow> lint_unit" where
  "unit_of E pkgs = \<lparr>u_fset = be_fset E (concat (map pk_files pkgs)), u_pkgs = pkgs\<rparr>"

definition loadModule :: "build_env \<Rightarrow> string \<Rightarrow> string \<Rightarrow> lint_unit load" where
  "loadModule E dir goos =
     ld_bind (indexFor E dir goos) (\<lambda>x.
     ld_bind (ld_map (load_package E (x_dir x, x_goos x)) (filter of_module (x_listed x))) (\<lambda>pkgs.
     ld_return (unit_of E pkgs)))"

text \<open>\<open>sources\<close> is a map from file names; the loop goes over the sorted names.\<close>

definition loadFiles :: "build_env \<Rightarrow> string \<Rightarrow> string \<Rightarrow> string \<Rightarrow> (string \<times> string) list \<Rightarrow> lint_unit load" where
  "loadFiles E dir goos pkgPath sources =
     ld_bind (indexFor E dir goos) (\<lambda>x.
     ld_bind (ld_map (\<lambda>name. ld_lift (parseFile E name (case map_of sources name of Some s \<Rightarrow> s | None \<Rightarrow> [])))
       (sort_Strings (map fst sources))) (\<lambda>files.
     ld_bind (checkPackage E (x_dir x, x_goos x) pkgPath files) (\<lambda>p. ld_return (unit_of E [p]))))"

section \<open>Entry points\<close>

definition DefaultGOOS :: "build_env \<Rightarrow> string list" where
  "DefaultGOOS E = (if be_GOOS E = ''windows'' then [''windows''] else [be_GOOS E, ''windows''])"

definition targets :: "build_env \<Rightarrow> string list \<Rightarrow> string list" where
  "targets E goos = (if goos = [] then DefaultGOOS E else goos)"

text \<open>The loop of \<open>Run\<close>: load, analyze and add, for one operating system after the other.\<close>

fun run_loop :: "build_env \<Rightarrow> golib \<Rightarrow> string \<Rightarrow> string list \<Rightarrow> merger \<Rightarrow> merger load" where
  "run_loop E L dir [] m = ld_return m"
| "run_loop E L dir (g # gs) m =
     ld_bind (loadModule E dir g) (\<lambda>u. run_loop E L dir gs (merger_add (analyze L u) m))"

definition lint_Run :: "build_env \<Rightarrow> golib \<Rightarrow> string \<Rightarrow> string list \<Rightarrow> Result load" where
  "lint_Run E L dir goos =
     ld_bind (run_loop E L dir (targets E goos) newMerger) (\<lambda>m. ld_return (merger_result m))"

definition CheckFiles :: "build_env \<Rightarrow> golib \<Rightarrow> string \<Rightarrow> string \<Rightarrow> (string \<times> string) list \<Rightarrow> Result load" where
  "CheckFiles E L dir pkgPath sources =
     ld_bind (loadFiles E dir (be_GOOS E) pkgPath sources) (\<lambda>u.
     ld_return (merger_result (merger_add (analyze L u) newMerger)))"

section \<open>The nearest directory with a go.mod\<close>

function ancestors :: "string \<Rightarrow> string list" where
  "ancestors d = d # (if clean_Dir d = d then [] else ancestors (clean_Dir d))"
  by pat_completeness auto
termination
  by (relation "measure path_rank") (use clean_Dir_shorter in auto)

declare ancestors.simps [simp del]

lemma root_loop_find:
  "root_loop E root d =
     (case find (\<lambda>a. be_Stat E (mod_path a)) (ancestors d) of
        Some a \<Rightarrow> Inr a
      | None \<Rightarrow> Inl (''no go.mod in '' @ root @ '' or a directory above it''))"
proof (induction d rule: ancestors.induct)
  case (1 d)
  then show ?case
    by (subst root_loop.simps, subst ancestors.simps) auto
qed

section \<open>What loading keeps and ensures\<close>

text \<open>
  An operation keeps a property of the state, whether it fails or not, and its result, when it
  has one, is as stated.
\<close>

definition ensures :: "(indexes \<Rightarrow> bool) \<Rightarrow> 'a load \<Rightarrow> ('a \<Rightarrow> bool) \<Rightarrow> bool" where
  "ensures I m P \<longleftrightarrow> (\<forall>st. I st \<longrightarrow> I (snd (m st)) \<and> (\<forall>x. fst (m st) = Inr x \<longrightarrow> P x))"

lemma ensures_return: "P x \<Longrightarrow> ensures I (ld_return x) P"
  by (simp add: ensures_def ld_return_def)

lemma ensures_lift: "(\<And>x. r = Inr x \<Longrightarrow> P x) \<Longrightarrow> ensures I (ld_lift r) P"
  by (simp add: ensures_def ld_lift_def)

lemma ensures_bind:
  assumes "ensures I m P" "\<And>x. P x \<Longrightarrow> ensures I (k x) Q"
  shows "ensures I (ld_bind m k) Q"
  unfolding ensures_def
proof (intro allI impI)
  fix st assume "I st"
  obtain r st' where m: "m st = (r, st')" by fastforce
  with \<open>I st\<close> assms(1) have st': "I st'" and P: "\<And>x. r = Inr x \<Longrightarrow> P x"
    unfolding ensures_def by (metis snd_conv, metis fst_conv)
  show "I (snd (ld_bind m k st)) \<and> (\<forall>x. fst (ld_bind m k st) = Inr x \<longrightarrow> Q x)"
  proof (cases r)
    case (Inl e)
    with m st' show ?thesis by (simp add: ld_bind_def)
  next
    case (Inr x)
    with m st' assms(2) [OF P [OF Inr]] show ?thesis by (simp add: ld_bind_def ensures_def)
  qed
qed

lemma ensures_lift_bind:
  "(\<And>x. r = Inr x \<Longrightarrow> ensures I (k x) Q) \<Longrightarrow> ensures I (ld_bind (ld_lift r) k) Q"
  by (rule ensures_bind [OF ensures_lift])

lemma ensures_map:
  assumes "\<And>x. ensures I (f x) (P x)"
  shows "ensures I (ld_map f xs) (list_all2 P xs)"
proof (induction xs)
  case (Cons x xs)
  have "ensures I (ld_bind (f x) (\<lambda>y. ld_bind (ld_map f xs) (\<lambda>ys. ld_return (y # ys)))) (list_all2 P (x # xs))"
    by (rule ensures_bind [OF assms], rule ensures_bind [OF Cons.IH]) (auto intro: ensures_return)
  then show ?case by simp
qed (simp add: ensures_return)

lemma ensures_weaken: "ensures I m P \<Longrightarrow> (\<And>x. P x \<Longrightarrow> Q x) \<Longrightarrow> ensures I m Q"
  by (auto simp: ensures_def)

text \<open>An index lists what the go command listed for its directory and operating system.\<close>

definition indexes_ok :: "build_env \<Rightarrow> indexes \<Rightarrow> bool" where
  "indexes_ok E st \<longleftrightarrow> (\<forall>root goos x. st (root, goos) = Some x \<longrightarrow>
     x_dir x = root \<and> x_goos x = goos \<and> goList E root goos [''./...''] = Inr (x_listed x))"

lemma indexFor_ensures:
  "ensures (indexes_ok E) (indexFor E dir goos)
     (\<lambda>x. \<exists>root. findModuleRoot E dir = Inr root \<and> goList E root goos [''./...''] = Inr (x_listed x))"
  unfolding ensures_def
proof (intro allI impI)
  fix st assume ok: "indexes_ok E st"
  show "indexes_ok E (snd (indexFor E dir goos st)) \<and> (\<forall>x. fst (indexFor E dir goos st) = Inr x \<longrightarrow>
      (\<exists>root. findModuleRoot E dir = Inr root \<and> goList E root goos [''./...''] = Inr (x_listed x)))"
  proof (cases "findModuleRoot E dir")
    case (Inl e)
    with ok show ?thesis by (simp add: indexFor_def)
  next
    case (Inr root)
    show ?thesis
    proof (cases "st (root, goos)")
      case None
      with Inr ok show ?thesis
        by (cases "goList E root goos [''./...'']") (auto simp: indexFor_def Let_def indexes_ok_def)
    next
      case (Some x)
      with Inr ok show ?thesis by (simp add: indexFor_def indexes_ok_def)
    qed
  qed
qed

lemma index_file_keeps: "ensures (indexes_ok E) (index_file E key path) (\<lambda>_. True)"
  by (cases key) (auto simp: ensures_def index_file_def indexes_ok_def Let_def split: sum.splits option.splits if_splits)

lemma importer_keeps: "ensures (indexes_ok E) (importer E key path) (\<lambda>_. True)"
  unfolding importer_def by (rule ensures_bind [OF index_file_keeps]) (rule ensures_lift, simp)

lemma import_answers_keeps: "indexes_ok E st \<Longrightarrow> indexes_ok E (snd (import_answers E key paths st))"
proof (induction paths arbitrary: st)
  case (Cons path paths)
  have "indexes_ok E (snd (importer E key path st))"
    using importer_keeps Cons.prems by (auto simp: ensures_def)
  from Cons.IH [OF this] show ?case
    by (simp add: case_prod_beta Let_def)
qed simp

lemma checkPackage_ensures:
  "ensures (indexes_ok E) (checkPackage E key path files) (\<lambda>p. pk_files p = files)"
  unfolding ensures_def
proof (intro allI impI)
  fix st assume "indexes_ok E st"
  let ?a = "map f_ast files"
  obtain rs st' where a: "import_answers E key (be_requests E path ?a) st = (rs, st')"
    by fastforce
  then have "indexes_ok E st'"
    using import_answers_keeps [OF \<open>indexes_ok E st\<close>, of key "be_requests E path ?a"] by simp
  then show "indexes_ok E (snd (checkPackage E key path files st)) \<and>
      (\<forall>p. fst (checkPackage E key path files st) = Inr p \<longrightarrow> pk_files p = files)"
    by (cases "be_Check E path ?a rs") (auto simp: checkPackage_def a)
qed

text \<open>A loaded file holds the text of a file of the package, parsed, under its path in the module.\<close>

definition file_loaded :: "build_env \<Rightarrow> listedPackage \<Rightarrow> string \<Rightarrow> fileInfo \<Rightarrow> bool" where
  "file_loaded E lp name f \<longleftrightarrow>
     be_ReadFile E (go_path lp name) = Inr (f_src f) \<and>
     map_sum (\<lambda>e. e) (be_ToSlash E) (be_Rel E (module_dir lp) (go_path lp name)) = Inr (f_name f) \<and>
     be_ParseFile E (f_name f) (f_src f) = Inr (f_ast f)"

definition package_loaded :: "build_env \<Rightarrow> listedPackage \<Rightarrow> pkgInfo \<Rightarrow> bool" where
  "package_loaded E lp p \<longleftrightarrow> list_all2 (file_loaded E lp) (lp_GoFiles lp) (pk_files p)"

definition unit_loaded :: "build_env \<Rightarrow> string \<Rightarrow> string \<Rightarrow> lint_unit \<Rightarrow> bool" where
  "unit_loaded E dir goos u \<longleftrightarrow>
     (case findModuleRoot E dir of
        Inl _ \<Rightarrow> False
      | Inr root \<Rightarrow>
          (case goList E root goos [''./...''] of
             Inl _ \<Rightarrow> False
           | Inr listed \<Rightarrow> list_all2 (package_loaded E) (filter of_module listed) (u_pkgs u)))"

lemma load_file_ensures: "ensures I (load_file E lp name) (file_loaded E lp name)"
  unfolding load_file_def
  by (intro ensures_lift_bind ensures_lift) (auto simp: parseFile_def file_loaded_def split: sum.splits)

lemma load_package_ensures: "ensures (indexes_ok E) (load_package E key lp) (package_loaded E lp)"
  unfolding load_package_def package_loaded_def
  by (rule ensures_bind [OF ensures_map [OF load_file_ensures]])
    (rule ensures_weaken [OF checkPackage_ensures], simp)

lemma loadModule_ensures: "ensures (indexes_ok E) (loadModule E dir goos) (unit_loaded E dir goos)"
  unfolding loadModule_def
  by (rule ensures_bind [OF indexFor_ensures], rule ensures_bind [OF ensures_map [OF load_package_ensures]],
      rule ensures_return) (auto simp: unit_loaded_def unit_of_def)

lemma run_loop_ensures:
  "ensures (indexes_ok E) (run_loop E L dir gs m)
     (\<lambda>m'. \<exists>us. m' = merge_units L us m \<and> list_all2 (unit_loaded E dir) gs us)"
proof (induction gs arbitrary: m)
  case Nil
  show ?case
    by (simp add: ensures_return merge_units_def)
next
  case (Cons g gs)
  show ?case
  proof (simp, rule ensures_bind [OF loadModule_ensures])
    fix u assume u: "unit_loaded E dir g u"
    show "ensures (indexes_ok E) (run_loop E L dir gs (merger_add (analyze L u) m))
        (\<lambda>m'. \<exists>us. m' = merge_units L us m \<and> list_all2 (unit_loaded E dir) (g # gs) us)"
    proof (rule ensures_weaken [OF Cons.IH])
      fix m' assume "\<exists>us. m' = merge_units L us (merger_add (analyze L u) m) \<and> list_all2 (unit_loaded E dir) gs us"
      then obtain us where "m' = merge_units L us (merger_add (analyze L u) m)" "list_all2 (unit_loaded E dir) gs us"
        by blast
      with u show "\<exists>us. m' = merge_units L us m \<and> list_all2 (unit_loaded E dir) (g # gs) us"
        by (intro exI [of _ "u # us"]) (simp add: merge_units_def)
    qed
  qed
qed

lemma lint_Run_ensures:
  "ensures (indexes_ok E) (lint_Run E L dir goos)
     (\<lambda>r. \<exists>us. r = lint L us \<and> list_all2 (unit_loaded E dir) (targets E goos) us)"
  unfolding lint_Run_def
  by (rule ensures_bind [OF run_loop_ensures], rule ensures_return) (auto simp: lint_def merge_units_def)

section \<open>A run covers the module\<close>


definition demo_package :: listedPackage where
  "demo_package = \<lparr>lp_ImportPath = ''m'', lp_Dir = ''/m'', lp_GoFiles = [''a.go''], lp_Export = ''x.a'',
     lp_DepOnly = False, lp_Module = Some (''/m'', True), lp_Error = None\<rparr>"

definition demo_build :: build_env where
  "demo_build = \<lparr>be_GOOS = ''linux'', be_Environ = [], be_run = (\<lambda>_. Inr [Inr demo_package]), be_Abs = Inr,
     be_Stat = (\<lambda>p. p = ''/m/go.mod''), be_ReadFile = (\<lambda>_. Inr ''package a''), be_Rel = (\<lambda>_ _. Inr ''a.go''),
     be_ToSlash = (\<lambda>p. p), be_Open = (\<lambda>_. None), be_ParseFile = (\<lambda>_ _. Inr (f_ast (demo_source [] []))),
     be_requests = (\<lambda>_ _. [''m'']), be_Check = (\<lambda>_ _ _. Inr demo_info),
     be_fset = (\<lambda>_. \<lparr>fs_line = (\<lambda>_. 1), fs_offset = (\<lambda>_. 0)\<rparr>)\<rparr>"

lemma demo_build_runs: "\<exists>r. fst (lint_Run demo_build demo_lib ''/m/x'' [] Map.empty) = Inr r"
proof -
  have "isl (fst (lint_Run demo_build demo_lib ''/m/x'' [] Map.empty)) = False"
    by code_simp
  then show ?thesis
    by (metis isl_def sum.exhaust)
qed


end
