(* ===== verification/Spec2Isabelle.thy ===== *)
theory Spec2Isabelle
  imports Block_Store List_Loader Response_Cache Stats_Counter Query_Log Zero_File Query_Db Query_Read
    Lan_Acl Redact_Url Local_Names Failure_Log Edns_Msg Upstream
    Query_Handler Handler_Safety Config_Load Config_Safety Config_Privacy
    Api_Guard Api_Metrics Error_Log Admin_Api Runs Reload_Gate Process_Life Admin_Server Dot_Server
    Host_Report Purge_All Startup Db_Open Log_Out Win_Acl Win_Service Command_Line
    Wal_Life Upstream_Counters List_Report Background Lint_Metrics Lint_Directive Lint_Run Lint_Load
begin

text \<open>
  A verification of s-hole, a DNS sinkhole for a home network: it answers the DNS queries of the LAN, blocks the names on its
  lists, forwards the rest to encrypted upstreams, and records as little as its settings allow. The theories follow the
  packages of the Go program; each model definition has the name of the Go function it translates, with a prefix
  where the name is taken.

  \<^bold>\<open>How the parts interact.\<close> \<open>main\<close> loads the configuration, binds the listeners, fills the block set, opens the outputs of
  the query log and hands all of them to the DNS handler and the admin server. A query goes through the LAN
  check, the local names, the block set, the response cache and the upstreams; each answer is counted and
  recorded once. The admin server reads the counters, the database and the store, edits the allowlist, starts
  a reload or a purge. Reloads are serialised by a gate; a stop runs one ordered teardown.

  \<^bold>\<open>Foundations.\<close>
  \<^item> \<open>Go_Prelude\<close>: strings, time and durations, the parts of the Go library that the code uses (trimming, splitting,
    case mapping over a parameter \<open>unicode\<close>), generic lemmas.
  \<^item> \<open>Net_Addr\<close>: IP addresses as words, prefixes, masking; the text forms are a parameter \<open>iptext\<close>.
  \<^item> \<open>Dns_Msg\<close>: DNS messages as records; what the code uses of miekg/dns is the parameter \<open>dnslib\<close>, its documented laws are
    named predicates (\<open>names_ok\<close>, \<open>edns_ok\<close>, \<open>reply_ok\<close>, \<open>size_ok\<close>, \<open>label_ok\<close>), which a concrete library satisfies.
  \<^item> \<open>Runs\<close>: runs of a labelled step relation, with the locales \<open>stable\<close> (an invariant of the steps) and \<open>decreasing\<close> (a measure
    that bounds the length of every run), interpreted by the theories with step relations.

  \<^bold>\<open>Blocking\<close> (\<open>internal/blocklist\<close>).
  \<^item> \<open>Block_Store\<close>, \<open>store.go\<close>: the sets, the runtime allowlist, \<open>IsBlocked\<close>, \<open>Explain\<close>. The loops decide the suffix policy; the
    diagnosis agrees with the decision; the runtime allowlist is bounded and its edits undo each other.
  \<^item> \<open>List_Loader\<close>, \<open>loader.go\<close>: parser, redirects, download with a disk cache, refresh, purge. A failed download never changes the
    cached copy; a refresh replaces or keeps the whole set. \<open>List_Report\<close>: the lines of a refresh; an empty block set is
    always reported, a list that failed is named without the secrets of its URL.

  \<^bold>\<open>Serving\<close> (\<open>internal/dnsserver\<close>, \<open>internal/cache\<close>, \<open>internal/stats\<close>).
  \<^item> \<open>Response_Cache\<close>, \<open>cache.go\<close>: a hit is an aged copy of what was stored for the same question and flags; the size is bounded, and
    so is the age but for answers with OPT records only. \<open>Stats_Counter\<close>, \<open>stats.go\<close> and \<open>timeline.go\<close>: counters, tallies, the ring of minutes; a snapshot taken load by load
    under concurrent recorders keeps the subset relations.
  \<^item> \<open>Lan_Acl\<close> (\<open>lan.go\<close>), \<open>Local_Names\<close> (\<open>localnames.go\<close> and the reverse zones of \<open>handler.go\<close>), \<open>Edns_Msg\<close> (\<open>edns.go\<close>), \<open>Upstream\<close>
    (\<open>upstream.go\<close>), \<open>Failure_Log\<close> (\<open>failures.go\<close>), \<open>Redact_Url\<close> (\<open>internal/redact\<close>): who may ask, which names stay local, what an
    upstream sees, in which order the upstreams are asked, what is logged of failures. The one law assumed of net/url (\<open>url_ok\<close>) is about
    absolute URLs with a host; no law is assumed for relative and opaque ones. \<open>Upstream_Counters\<close>: what a call adds to the counters that all
    queries share; the DoH client sends one request, whatever redirects it meets.
  \<^item> \<open>Query_Handler\<close>, \<open>handler.go\<close> and \<open>cname.go\<close>: \<open>ServeDNS\<close>. The part before a query is forwarded and the part after it are atomic
    (\<open>serve_begin\<close>, \<open>serve_end\<close>), so that other queries, reloads and flushes come in between; \<open>Handler_Safety\<close> proves the
    properties over every interleaving (\<open>hstep\<close>).
  \<^item> \<open>Dot_Server\<close>, \<open>dot.go\<close> and \<open>server.go\<close>: the certificate that is served, the limit on connections, start and stop.

  \<^bold>\<open>Recording\<close> (\<open>internal/querylog\<close>).
  \<^item> \<open>Query_Log\<close> (\<open>logger.go\<close>), \<open>Query_Db\<close> and \<open>Query_Read\<close> (\<open>db.go\<close>), \<open>Zero_File\<close> (\<open>zero.go\<close>): masking, the two outputs with their
    queues and writers (locales \<open>queue_sink\<close> and \<open>purgeable\<close>, both interpreted for the file and for the database), the
    purge, the queries of the dashboard, overwriting files. \<open>Db_Open\<close>: file modes, schema and migration. \<open>Wal_Life\<close>: the write-ahead log from the start of the
    logger to its close; no row is left in blocks that the log gave back, except after a wipe whose failure is logged. SQLite's effect
    on that file is the parameter \<open>sqlite\<close>, what its documentation says of it the predicate \<open>wal_documented\<close>.

  \<^bold>\<open>Configuration\<close> (\<open>internal/config\<close>).
  \<^item> \<open>Config_Load\<close>, \<open>config.go\<close>: defaults, settings, YAML tree, environment, checks. \<open>Config_Safety\<close>: a loaded configuration is
    well-formed (but for the URLs of the block lists, which it does not check), each privacy setting is the last valid value, and a value of
    these settings that is not in effect is reported. \<open>Config_Privacy\<close>, \<open>privacy.go\<close>: the warnings.

  \<^bold>\<open>Admin server\<close> (\<open>internal/api\<close>).
  \<^item> \<open>Api_Guard\<close> (\<open>security.go\<close>, \<open>clientnames.go\<close>), \<open>Api_Metrics\<close> (\<open>metrics.go\<close>), \<open>Admin_Api\<close> (\<open>api.go\<close>, \<open>purge.go\<close>, \<open>pprof.go\<close>): every route, from
    the request to the reply. \<open>Admin_Server\<close>: \<open>Serve\<close> against \<open>Shutdown\<close>, step by step. \<open>Error_Log\<close> (\<open>errorlog.go\<close>): the address pattern
    as a regular expression with leftmost-first matching, and that a logged line does not show the client.

  \<^bold>\<open>Command\<close> (\<open>cmd/s-hole\<close>).
  \<^item> \<open>Reload_Gate\<close> and \<open>Process_Life\<close>, \<open>main.go\<close>: the single-flight reload with its queue, and the life of the process up to its exit
    code, in the terminal and under the Windows service manager. \<open>Purge_All\<close>, \<open>purge.go\<close>: deleting the history, running and not; the downloaded lists are deleted
    without an overwrite. \<open>Host_Report\<close>, \<open>report.go\<close> and \<open>resolvcheck.go\<close>.
  \<^item> \<open>Startup\<close>, the wiring of \<open>main\<close>: the running system of handler and outputs, and that what it records follows the settings.
  \<^item> \<open>Command_Line\<close>, \<open>main.go\<close>: the modes, the dry run, what ends a start and what does not, the banner.
  \<^item> \<open>Background\<close>, \<open>main.go\<close>, \<open>signals_unix.go\<close>, \<open>umask_unix.go\<close>, \<open>version.go\<close>: tickers (locale \<open>periodic\<close>, interpreted for them and for the sweep
    of the cache), signals, the log output, file modes, the version text.

  \<^bold>\<open>Windows service and logging\<close> (\<open>internal/service\<close>, \<open>internal/logging\<close>).
  \<^item> \<open>Win_Acl\<close> (\<open>acl.go\<close>): access lists over 32-bit masks; the computed rights agree with the first matching entry. \<open>Win_Service\<close>
    (\<open>svc_windows.go\<close>): an install succeeds only where the service cannot replace its binary.
  \<^item> \<open>Log_Out\<close> (\<open>logging.go\<close>, \<open>journal_unix.go\<close>, \<open>eventlog.go\<close>): where and with which priority a record is written.

  \<^bold>\<open>Privacy lint\<close> (\<open>internal/privacylint\<close>), the check of the Go sources for code that could show a client or open a connection.
  \<^item> \<open>Lint_Ast\<close>: the syntax trees and types of the go/ast and go/types packages that the rules look at. \<open>Lint_Rules\<close> (\<open>rule_outbound.go\<close>,
    \<open>rule_client.go\<close>, \<open>rule_server.go\<close>) and \<open>Lint_Metrics\<close> (\<open>rule_metrics.go\<close>): the four rules, and for which formats the verbs get the operands
    that fmt prints with them. \<open>Lint_Directive\<close> (\<open>directive.go\<close>): the comments that allow an exception, their form and place.
  \<^item> \<open>Lint_Run\<close> (\<open>privacylint.go\<close>): the findings and exceptions of all packages for all systems; each rule is an instance of the locale
    \<open>lint_rule\<close>. A clean result means that every place a rule promises to look at is covered by a listed comment; the promises (\<open>outbound_place\<close>,
    \<open>client_read\<close>, \<open>covers\<close>) are stated on the syntax trees and comments, apart from the definitions of the checks. \<open>Lint_Load\<close> (\<open>load.go\<close>): which
    files a run reads, with the path separator of Unix hosts. The go command, the parser and the type checker are parameters.

  \<^bold>\<open>Effects.\<close> Clock readings, the outcome of every system and network call, random choices and the order of Go maps are arguments
  (often one record per operation, such as \<open>query_env\<close> or \<open>fetch_env\<close>), so a theorem holds for all of them. Errors are values. A mutex
  region is one step of a relation, an atomic load or store too. Log lines are left out where no property reads them.

  \<^bold>\<open>Bounds.\<close> The only function with fuel is \<open>zone_walk\<close>: it gets one more than the length of the name, each step drops at least one
  byte, and that this suffices is part of the equivalence with the reverse zones. All other loops are
  structural or have a termination proof. 32-bit and 64-bit values are words where the code can wrap (TTLs, report counts), and
  durations are integers with the wrap-around written out where an input is not bounded.

  \<^bold>\<open>Not modelled.\<close> The embedded web page, the exact text of most log lines, the sockets, TLS handshakes and timeouts of the Go library
  (their outcomes are arguments), the return of memory to the system after a load, and the Windows stubs of Unix files
  that do nothing.
\<close>

end
